(* ===== verification/CAO_Prelude.thy ===== *)
theory CAO_Prelude
  imports Main "HOL-Library.Product_Lexorder" "HOL-Library.List_Lexorder" "HOL-Library.Char_ord"
begin

text \<open>
  Shared vocabulary of the development: the clock, the Python exceptions the modelled code
  raises, the fragment of SQL the stores use (filtered reads, guarded updates, limits, inserts
  that ignore a conflict) with the lemmas that turn a row-by-row loop into one pass over the
  table, decimal rendering of integers as \<open>str\<close> does it, and the generic contract of a
  transition system with its invariant rule.

  An instant is an integer number of microseconds since the epoch, the resolution of
  \<open>datetime\<close> and of the fixed-width text the stores write; comparing two such texts as strings
  is comparing the two integers.
\<close>

type_synonym time = int

definition seconds :: "int \<Rightarrow> time" where
  "seconds n = n * 1000000"

text \<open>The exceptions of the modelled code, as values.\<close>

datatype py_error =
    ValueError
  | TypeError
  | RuntimeError
  | IntegrityError
  | PersistentEnqueueRejection
  | IdempotencyConflict
  | PortError

type_synonym 'a result = "py_error + 'a"

named_theorems row_simps \<open>field-by-field facts about the row updates\<close>
named_theorems inv_intros \<open>preservation of an invariant by one operation\<close>

section \<open>The SQL fragment\<close>

text \<open>\<open>UPDATE t SET f WHERE P\<close>, its row count, \<open>SELECT \<dots> WHERE P\<close> with \<open>fetchone\<close>, \<open>LIMIT n\<close>
  (a negative limit is no limit) and \<open>INSERT \<dots> ON CONFLICT(key) DO NOTHING\<close>.\<close>

definition update_where :: "('r \<Rightarrow> bool) \<Rightarrow> ('r \<Rightarrow> 'r) \<Rightarrow> 'r list \<Rightarrow> 'r list" where
  "update_where P f rs = map (\<lambda>r. if P r then f r else r) rs"

definition rowcount :: "('r \<Rightarrow> bool) \<Rightarrow> 'r list \<Rightarrow> nat" where
  "rowcount P rs = length (filter P rs)"

definition fetchone :: "('r \<Rightarrow> bool) \<Rightarrow> 'r list \<Rightarrow> 'r option" where
  "fetchone P rs = find P rs"

definition sql_limit :: "int \<Rightarrow> 'r list \<Rightarrow> 'r list" where
  "sql_limit n rs = (if n < 0 then rs else take (nat n) rs)"

definition insert_ignore :: "('r \<Rightarrow> 'k) \<Rightarrow> 'r \<Rightarrow> 'r list \<Rightarrow> 'r list" where
  "insert_ignore key r rs = (if key r \<in> key ` set rs then rs else rs @ [r])"

definition sql_max :: "int list \<Rightarrow> int option" where
  "sql_max xs = (if xs = [] then None else Some (Max (set xs)))"

lemma rowcount_pos_iff: "0 < rowcount P rs \<longleftrightarrow> (\<exists>r \<in> set rs. P r)"
  by (auto simp: rowcount_def filter_empty_conv)

lemma fetchone_None_iff [simp]: "fetchone P rs = None \<longleftrightarrow> (\<forall>r \<in> set rs. \<not> P r)"
  by (auto simp: fetchone_def find_None_iff)

lemma fetchone_SomeD: "fetchone P rs = Some r \<Longrightarrow> r \<in> set rs \<and> P r"
  by (auto simp: fetchone_def find_Some_iff)

lemma set_update_where: "set (update_where P f rs) = (\<lambda>r. if P r then f r else r) ` set rs"
  by (simp add: update_where_def)

lemma update_where_eq_map: "update_where P f = map (\<lambda>r. if P r then f r else r)"
  by (rule ext) (simp add: update_where_def)

lemma update_where_twice:
  assumes "\<And>r. P (g r) \<longleftrightarrow> P r"
  shows "update_where P f (update_where P g rs) = update_where P (\<lambda>r. f (g r)) rs"
  by (simp add: update_where_def assms)

lemma map_update_where_key:
  assumes "\<And>r. key (f r) = key r"
  shows "map key (update_where P f rs) = map key rs"
  by (simp add: update_where_def assms)

lemma set_sql_limit_subset: "set (sql_limit n rs) \<subseteq> set rs"
  by (auto simp: sql_limit_def dest: in_set_takeD)

lemma length_sql_limit: "0 \<le> n \<Longrightarrow> int (length (sql_limit n rs)) \<le> n"
  by (auto simp: sql_limit_def)

lemma distinct_map_sql_limit: "distinct (map key rs) \<Longrightarrow> distinct (map key (sql_limit n rs))"
  by (simp add: sql_limit_def flip: take_map)

lemma distinct_insert_ignore:
  "distinct (map key rs) \<Longrightarrow> distinct (map key (insert_ignore key r rs))"
  by (auto simp: insert_ignore_def)

lemma set_insert_ignore: "set (insert_ignore key r rs) \<subseteq> insert r (set rs)"
  by (auto simp: insert_ignore_def)

lemma insert_ignore_keys: "key ` set (insert_ignore key r rs) = insert (key r) (key ` set rs)"
  by (auto simp: insert_ignore_def)

lemma fetchone_filter: "fetchone P rs = (case filter P rs of [] \<Rightarrow> None | r # _ \<Rightarrow> Some r)"
  by (induction rs) (auto simp: fetchone_def)

lemma fetchone_update_where:
  assumes "\<And>r. P (f r) \<longleftrightarrow> P r"
  shows "fetchone P (update_where Q f rs) = map_option (\<lambda>r. if Q r then f r else r) (fetchone P rs)"
  using assms by (induction rs) (auto simp: fetchone_def update_where_def)

text \<open>With a primary key, the row read back by its key is the row.\<close>

lemma fetchone_key:
  assumes "distinct (map key rs)" and "r \<in> set rs"
  shows "fetchone (\<lambda>x. key x = key r) rs = Some r"
  using assms by (induction rs) (auto simp: fetchone_def)

lemma fetchone_key_eq:
  "distinct (map key rs) \<Longrightarrow> r \<in> set rs \<Longrightarrow> key r = k \<Longrightarrow> fetchone (\<lambda>x. key x = k) rs = Some r"
  using fetchone_key by metis

lemma key_unique:
  "distinct (map key rs) \<Longrightarrow> a \<in> set rs \<Longrightarrow> b \<in> set rs \<Longrightarrow> key a = key b \<Longrightarrow> a = b"
  by (metis distinct_map inj_onD)

lemma distinct_map_filter_key: "distinct (map key rs) \<Longrightarrow> distinct (map key (filter P rs))"
  by (simp add: distinct_map_filter)

text \<open>A loop of guarded updates by primary key is one pass over the table: every statement
  acts row by row, so the loop acts row by row too, and a row is touched at most once.\<close>

lemma fold_map_swap: "fold (\<lambda>x. map (u x)) xs rs = map (\<lambda>r. fold u xs r) rs"
  by (induction xs arbitrary: rs) auto

lemma fold_untouched:
  assumes "\<And>x. x \<in> set xs \<Longrightarrow> u x r = r"
  shows "fold u xs r = r"
  using assms by (induction xs) auto

lemma fold_touch_once:
  assumes "distinct xs" and "y \<in> set xs"
    and "\<And>x. x \<in> set xs \<Longrightarrow> x \<noteq> y \<Longrightarrow> u x r = r"
    and "\<And>x. x \<in> set xs \<Longrightarrow> x \<noteq> y \<Longrightarrow> u x (u y r) = u y r"
  shows "fold u xs r = u y r"
proof -
  from assms(2) obtain as bs where xs: "xs = as @ y # bs"
    by (meson split_list)
  with assms(1) have "y \<notin> set as" "y \<notin> set bs" by auto
  then have "fold u as r = r" "fold u bs (u y r) = u y r"
    using assms(3,4) xs by (auto intro!: fold_untouched)
  then show ?thesis by (simp add: xs)
qed

lemma fold_update_by_key:
  assumes dist: "distinct (map key rs)"
    and keep: "\<And>x r. key (g x r) = key r"
  shows "fold (\<lambda>x. update_where (\<lambda>r. key r = key x \<and> G r) (g x)) (filter P rs) rs
         = map (\<lambda>r. if P r \<and> G r then g r r else r) rs"
proof -
  let ?u = "\<lambda>x r. if key r = key x \<and> G r then g x r else r"
  have "fold ?u (filter P rs) r = (if P r \<and> G r then g r r else r)" if r: "r \<in> set rs" for r
  proof (cases "P r")
    case True
    have uniq: "key x \<noteq> key r" if "x \<in> set (filter P rs)" "x \<noteq> r" for x
      using that r dist key_unique by fastforce
    have "fold ?u (filter P rs) r = ?u r r"
    proof (rule fold_touch_once)
      show "distinct (filter P rs)" using dist by (simp add: distinct_map)
      show "r \<in> set (filter P rs)" using r True by simp
      show "?u x r = r" if "x \<in> set (filter P rs)" "x \<noteq> r" for x
        using uniq[OF that] by auto
      show "?u x (?u r r) = ?u r r" if "x \<in> set (filter P rs)" "x \<noteq> r" for x
        using uniq[OF that] by (auto simp: keep)
    qed
    with True show ?thesis by simp
  next
    case False
    have "?u x r = r" if x: "x \<in> set (filter P rs)" for x
    proof -
      have "x \<noteq> r" using x False by auto
      then have "key r \<noteq> key x" using x r dist key_unique by fastforce
      then show ?thesis by simp
    qed
    then have "fold ?u (filter P rs) r = r" by (rule fold_untouched)
    with False show ?thesis by simp
  qed
  then have "map (\<lambda>r. fold ?u (filter P rs) r) rs = map (\<lambda>r. if P r \<and> G r then g r r else r) rs"
    by simp
  then show ?thesis
    by (simp add: update_where_eq_map fold_map_swap)
qed

section \<open>Strings\<close>

definition startswith :: "string \<Rightarrow> string \<Rightarrow> bool" where
  "startswith s p \<longleftrightarrow> take (length p) s = p"

lemma startswith_append [simp]: "startswith (p @ s) p"
  by (simp add: startswith_def)

text \<open>A JSON value, or the Python value it stands for.\<close>

datatype json = JNull | JBool bool | JInt int | JStr string | JArr "json list" | JObj "(string \<times> json) list"

text \<open>\<open>str.strip\<close>: the white space among the first 256 characters.\<close>

definition py_space :: "char \<Rightarrow> bool" where
  "py_space c \<longleftrightarrow> of_char c \<in> {9::nat, 10, 11, 12, 13, 28, 29, 30, 31, 32, 133, 160}"

definition strip :: "string \<Rightarrow> string" where
  "strip s = rev (dropWhile py_space (rev (dropWhile py_space s)))"

text \<open>\<open>sep.join(parts)\<close>.\<close>

fun py_join :: "string \<Rightarrow> string list \<Rightarrow> string" where
  "py_join sep [] = []"
| "py_join sep [x] = x"
| "py_join sep (x # y # zs) = x @ sep @ py_join sep (y # zs)"

text \<open>\<open>str(n)\<close> for an integer.\<close>

fun nat_digits :: "nat \<Rightarrow> string" where
  "nat_digits n = (if n < 10 then [char_of (48 + n)]
                   else nat_digits (n div 10) @ [char_of (48 + n mod 10)])"

declare nat_digits.simps [simp del]

definition py_str :: "int \<Rightarrow> string" where
  "py_str i = (if i < 0 then ''-'' @ nat_digits (nat (- i)) else nat_digits (nat i))"

definition digit_val :: "char \<Rightarrow> nat" where
  "digit_val c = of_char c - 48"

lemma digit_val_char [simp]: "d < 10 \<Longrightarrow> digit_val (char_of (48 + d)) = d"
  by (simp add: digit_val_def)

lemma nat_digits_val: "foldl (\<lambda>a c. 10 * a + digit_val c) 0 (nat_digits n) = n"
proof (induction n rule: nat_digits.induct)
  case (1 n)
  show ?case
  proof (cases "n < 10")
    case True
    then show ?thesis by (simp add: nat_digits.simps[of n])
  next
    case False
    with "1.IH" have "foldl (\<lambda>a c. 10 * a + digit_val c) 0 (nat_digits (n div 10)) = n div 10"
      by simp
    with False show ?thesis by (simp add: nat_digits.simps[of n])
  qed
qed

lemma nat_digits_inj: "nat_digits m = nat_digits n \<Longrightarrow> m = n"
  by (metis nat_digits_val)

lemma nat_digits_chars: "\<forall>c \<in> set (nat_digits n). 48 \<le> (of_char c :: nat) \<and> (of_char c :: nat) \<le> 57"
proof (induction n rule: nat_digits.induct)
  case (1 n)
  then show ?case
    by (cases "n < 10") (auto simp: nat_digits.simps[of n])
qed

lemma nat_digits_not_minus: "nat_digits n \<noteq> CHR ''-'' # s"
proof
  assume "nat_digits n = CHR ''-'' # s"
  then have "CHR ''-'' \<in> set (nat_digits n)" by simp
  then show False using nat_digits_chars[of n] by auto
qed

lemma py_str_inj: "py_str i = py_str j \<Longrightarrow> i = j"
  using nat_digits_not_minus
  by (auto simp: py_str_def dest!: nat_digits_inj split: if_splits) metis+

lemma py_str_no_space: "CHR '' '' \<notin> set (py_str i)"
proof -
  have "CHR '' '' \<notin> set (nat_digits n)" for n
    using nat_digits_chars[of n] by auto
  then show ?thesis by (simp add: py_str_def)
qed

text \<open>Two rendered fields that end at the same separator are equal field by field.\<close>

lemma sep_split_eq:
  "c \<notin> set xs \<Longrightarrow> c \<notin> set ys \<Longrightarrow> xs @ c # us = ys @ c # vs \<Longrightarrow> xs = ys \<and> us = vs"
proof (induction xs arbitrary: ys)
  case Nil
  then show ?case by (cases ys) auto
next
  case (Cons x xs)
  then show ?case by (cases ys) auto
qed

section \<open>Lexicographic order on texts of equal length\<close>

lemma append_less_append_iff:
  fixes xs ys us vs :: "'a::linorder list"
  shows "length xs = length ys \<Longrightarrow>
    xs @ us < ys @ vs \<longleftrightarrow> xs < ys \<or> (xs = ys \<and> us < vs)"
proof (induction xs arbitrary: ys)
  case Nil
  then show ?case by simp
next
  case (Cons x xs)
  then show ?case by (cases ys) (auto simp: Cons_less_Cons)
qed

section \<open>Actions\<close>

text \<open>Code that changes a state and may raise. Sequencing: the first exception ends the call, and the
  writes made before it stay.\<close>

type_synonym ('s, 'a) action = "'s \<Rightarrow> 'a result \<times> 's"

definition andthen ::
  "('s \<Rightarrow> ('e + 'a) \<times> 's) \<Rightarrow> ('a \<Rightarrow> 's \<Rightarrow> ('e + 'b) \<times> 's) \<Rightarrow> 's \<Rightarrow> ('e + 'b) \<times> 's"
where
  "andthen m f w = (case m w of (Inl e, w') \<Rightarrow> (Inl e, w') | (Inr x, w') \<Rightarrow> f x w')"

definition return_act :: "'a \<Rightarrow> 's \<Rightarrow> ('e + 'a) \<times> 's" where
  "return_act x w = (Inr x, w)"

definition within :: "('s \<Rightarrow> 's \<Rightarrow> bool) \<Rightarrow> ('s \<Rightarrow> ('e + 'a) \<times> 's) \<Rightarrow> bool" where
  "within R m \<longleftrightarrow> (\<forall>w. R w (snd (m w)))"

lemma withinD: "within R m \<Longrightarrow> R w (snd (m w))"
  by (simp add: within_def)

text \<open>A relation on states that survives sequencing: what every action respects, every composition of
  actions respects, whether it returns or raises.\<close>

locale action_relation =
  fixes R :: "'s \<Rightarrow> 's \<Rightarrow> bool"
  assumes R_refl: "R w w"
    and R_trans: "R a b \<Longrightarrow> R b c \<Longrightarrow> R a c"
begin

lemma within_return: "within R (return_act x)"
  by (simp add: within_def return_act_def R_refl)

lemma within_andthen:
  assumes "within R m" "\<And>x. within R (f x)"
  shows "within R (andthen m f)"
  unfolding within_def
proof
  fix w
  obtain res w1 where m: "m w = (res, w1)" by fastforce
  then have 1: "R w w1" using withinD[OF assms(1), of w] by simp
  show "R w (snd (andthen m f w))"
  proof (cases res)
    case (Inl e)
    then show ?thesis using m 1 by (simp add: andthen_def)
  next
    case (Inr x)
    then show ?thesis using m R_trans[OF 1 withinD[OF assms(2), of w1 x]] by (simp add: andthen_def)
  qed
qed

end

section \<open>Transition systems\<close>

text \<open>The contract a component with state offers its clients: an initial state, a step relation
  and an invariant that both respect. What holds of every reachable state follows once for all
  components.\<close>

locale transition_system =
  fixes init :: "'s \<Rightarrow> bool"
    and step :: "'s \<Rightarrow> 's \<Rightarrow> bool"
    and inv :: "'s \<Rightarrow> bool"
  assumes inv_init: "init s \<Longrightarrow> inv s"
    and inv_step: "inv s \<Longrightarrow> step s t \<Longrightarrow> inv t"
begin

lemma inv_steps: "step\<^sup>*\<^sup>* s t \<Longrightarrow> inv s \<Longrightarrow> inv t"
  by (induction rule: rtranclp_induct) (auto intro: inv_step)

lemma inv_reachable: "init s \<Longrightarrow> step\<^sup>*\<^sup>* s t \<Longrightarrow> inv t"
  using inv_init inv_steps by blast

text \<open>A relation between the two ends of a step that is reflexive and transitive holds along
  every run.\<close>

lemma rel_steps:
  assumes run: "step\<^sup>*\<^sup>* s t" and s: "inv s"
    and refl: "\<And>x. inv x \<Longrightarrow> R x x"
    and one: "\<And>x y. inv x \<Longrightarrow> step x y \<Longrightarrow> R x y"
    and trans: "\<And>x y z. R x y \<Longrightarrow> R y z \<Longrightarrow> R x z"
  shows "R s t"
  using run
proof (induction rule: rtranclp_induct)
  case base
  show ?case using s by (rule refl)
next
  case (step y z)
  have "inv y" using step.hyps(1) s by (rule inv_steps)
  then have "R y z" using step.hyps(2) by (rule one)
  with step.IH show ?case by (rule trans)
qed

end

end
