(* ===== verification/Ulid_Ids.thy ===== *)
theory Ulid_Ids
  imports CAO_Prelude
begin

unbundle bit_operations_syntax

text \<open>
  The identifiers of the event log, the queue and the findings: \<open>core/ids.py\<close>. A ULID is a
  48-bit millisecond timestamp and 80 random bits in 26 Crockford base32 characters. The state of
  the stream (\<open>UlidFactory\<close>) is a record; the wall clock and the bits drawn by \<open>secrets\<close> are
  arguments. The theory shows that the text order of the ids is the order in which one factory
  issues them, whatever the clock does, and that the timestamp is read back exactly.
\<close>

section \<open>Encoding\<close>

definition CROCKFORD_ALPHABET :: string where
  "CROCKFORD_ALPHABET = ''0123456789ABCDEFGHJKMNPQRSTVWXYZ''"

definition ULID_LENGTH :: nat where "ULID_LENGTH = 26"
definition TIMESTAMP_CHARS :: nat where "TIMESTAMP_CHARS = 10"
definition RANDOM_MAX :: int where "RANDOM_MAX = push_bit 80 1 - 1"
definition TIMESTAMP_MAX :: int where "TIMESTAMP_MAX = push_bit 48 1 - 1"

text \<open>\<open>_encode\<close>: the loop fills the positions from the last to the first, taking five bits at
  each.\<close>

fun encode :: "int \<Rightarrow> nat \<Rightarrow> string" where
  "encode v 0 = []"
| "encode v (Suc n) = encode (drop_bit 5 v) n @ [CROCKFORD_ALPHABET ! nat (v AND 31)]"

text \<open>\<open>_DECODE\<close>: the index of a character in the alphabet.\<close>

definition DECODE :: "char \<Rightarrow> int option" where
  "DECODE c = map_option int (find (\<lambda>i. CROCKFORD_ALPHABET ! i = c) [0..<length CROCKFORD_ALPHABET])"

definition is_ulid :: "string \<Rightarrow> bool" where
  "is_ulid s \<longleftrightarrow> length s = ULID_LENGTH \<and> (\<forall>c \<in> set s. DECODE c \<noteq> None)"

fun decode_loop :: "int \<Rightarrow> string \<Rightarrow> int result" where
  "decode_loop t [] = Inr t"
| "decode_loop t (c # cs) =
     (case DECODE c of None \<Rightarrow> Inl ValueError | Some d \<Rightarrow> decode_loop (push_bit 5 t OR d) cs)"

definition ulid_timestamp_ms :: "string \<Rightarrow> int result" where
  "ulid_timestamp_ms s =
     (if \<not> is_ulid s then Inl ValueError else decode_loop 0 (take TIMESTAMP_CHARS s))"

section \<open>The factory\<close>

record ulid_factory =
  last_timestamp_ms :: int
  last_randomness :: int

definition UlidFactory :: ulid_factory where
  "UlidFactory = \<lparr>last_timestamp_ms = -1, last_randomness = 0\<rparr>"

text \<open>\<open>UlidFactory.new\<close>: \<open>clock\<close> is the wall clock in milliseconds, \<open>ts\<close> the optional override
  and \<open>rand\<close> the value \<open>secrets.randbits(80)\<close> would return now.\<close>

definition ulid_new :: "int \<Rightarrow> int option \<Rightarrow> int \<Rightarrow> ulid_factory \<Rightarrow> string result \<times> ulid_factory" where
  "ulid_new clock ts rand f =
     (let now_ms = (case ts of None \<Rightarrow> clock | Some t \<Rightarrow> t) in
      if now_ms < 0 \<or> now_ms > TIMESTAMP_MAX then (Inl ValueError, f)
      else
        let f' = (if now_ms > last_timestamp_ms f
                  then f\<lparr>last_timestamp_ms := now_ms, last_randomness := rand\<rparr>
                  else if last_randomness f \<ge> RANDOM_MAX
                  then f\<lparr>last_timestamp_ms := last_timestamp_ms f + 1, last_randomness := rand\<rparr>
                  else f\<lparr>last_randomness := last_randomness f + 1\<rparr>)
        in (Inr (encode (last_timestamp_ms f') TIMESTAMP_CHARS
                 @ encode (last_randomness f') (ULID_LENGTH - TIMESTAMP_CHARS)), f'))"

text \<open>A request is a clock reading, an override and a draw; \<open>ulid_run\<close> is the sequence of ids one
  factory issues for a sequence of requests (a refused request issues none).\<close>

type_synonym ulid_request = "int \<times> int option \<times> int"

fun ulid_run :: "ulid_factory \<Rightarrow> ulid_request list \<Rightarrow> string list" where
  "ulid_run f [] = []"
| "ulid_run f ((clock, ts, rand) # qs) =
     (case ulid_new clock ts rand f of
        (Inl e, f') \<Rightarrow> ulid_run f' qs
      | (Inr s, f') \<Rightarrow> s # ulid_run f' qs)"

section \<open>The alphabet\<close>

lemma alphabet_length [simp]: "length CROCKFORD_ALPHABET = 32"
  by (simp add: CROCKFORD_ALPHABET_def)

lemma alphabet_sorted: "sorted_wrt (<) CROCKFORD_ALPHABET"
  by code_simp

lemma alphabet_less: "i < j \<Longrightarrow> j < 32 \<Longrightarrow> CROCKFORD_ALPHABET ! i < CROCKFORD_ALPHABET ! j"
  using alphabet_sorted by (simp add: sorted_wrt_iff_nth_less)

lemma alphabet_inj: "i < 32 \<Longrightarrow> j < 32 \<Longrightarrow> CROCKFORD_ALPHABET ! i = CROCKFORD_ALPHABET ! j \<Longrightarrow> i = j"
  by (metis alphabet_less less_irrefl linorder_neqE_nat)

lemma DECODE_alphabet:
  assumes "i < 32" shows "DECODE (CROCKFORD_ALPHABET ! i) = Some (int i)"
proof -
  have "find (\<lambda>j. CROCKFORD_ALPHABET ! j = CROCKFORD_ALPHABET ! i) [0..<32] = Some i"
    unfolding find_Some_iff
  proof (intro exI conjI allI impI)
    show "CROCKFORD_ALPHABET ! ([0..<32] ! j) \<noteq> CROCKFORD_ALPHABET ! i" if "j < i" for j
      using that assms alphabet_less[of j i] by simp
  qed (use assms in auto)
  then show ?thesis by (simp add: DECODE_def)
qed

section \<open>Encoding is monotone and invertible\<close>

lemma and_31: "(v::int) AND 31 = v mod 32"
  using take_bit_eq_mask [of 5 v] by (simp add: mask_eq_exp_minus_1 take_bit_eq_mod)

lemma drop_5: "drop_bit 5 (v::int) = v div 32"
  by (simp add: drop_bit_eq_div)

lemma encode_length [simp]: "length (encode v n) = n"
  by (induction v n rule: encode.induct) auto

lemma encode_less:
  "0 \<le> v \<Longrightarrow> v < w \<Longrightarrow> w < 32 ^ n \<Longrightarrow> encode v n < encode w n"
proof (induction n arbitrary: v w)
  case 0
  then show ?case by simp
next
  case (Suc n)
  let ?a = "nat (v mod 32)" and ?b = "nat (w mod 32)"
  have ab: "?a < 32" "?b < 32" by auto
  show ?case
  proof (cases "v div 32 < w div 32")
    case True
    moreover have "0 \<le> v div 32" "w div 32 < 32 ^ n"
      using Suc.prems by (auto simp: div_less_iff_less_mult)
    ultimately have "encode (v div 32) n < encode (w div 32) n" by (intro Suc.IH)
    then show ?thesis by (simp add: append_less_append_iff and_31 drop_5)
  next
    case False
    have "v div 32 \<le> w div 32" using Suc.prems by (simp add: zdiv_mono1)
    with False have eq: "v div 32 = w div 32" by simp
    have "v mod 32 < w mod 32"
    proof -
      have "v = 32 * (v div 32) + v mod 32" "w = 32 * (w div 32) + w mod 32" by simp_all
      with eq Suc.prems(2) show ?thesis by linarith
    qed
    then have "?a < ?b" by simp
    then have "CROCKFORD_ALPHABET ! ?a < CROCKFORD_ALPHABET ! ?b" using ab alphabet_less by simp
    then show ?thesis using eq by (simp add: append_less_append_iff and_31 drop_5)
  qed
qed

lemma push_or_digit:
  assumes "0 \<le> (d::int)" "d < 32" shows "push_bit 5 t OR d = 32 * t + d"
proof -
  have d: "d = take_bit 5 d" using assms by (simp add: take_bit_eq_mod)
  have "push_bit 5 t AND take_bit 5 d = 0"
    by (rule bit_eqI) (auto simp: bit_simps)
  with d have "push_bit 5 t AND d = 0" by simp
  then have "push_bit 5 t OR d = push_bit 5 t + d"
    using plus_and_or [of "push_bit 5 t" d] by simp
  then show ?thesis by (simp add: push_bit_eq_mult)
qed

lemma decode_loop_append:
  "decode_loop t (xs @ ys) = (case decode_loop t xs of Inl e \<Rightarrow> Inl e | Inr u \<Rightarrow> decode_loop u ys)"
  by (induction t xs rule: decode_loop.induct) (auto split: option.splits)

lemma decode_encode: "0 \<le> v \<Longrightarrow> v < 32 ^ n \<Longrightarrow> decode_loop 0 (encode v n) = Inr v"
proof (induction n arbitrary: v)
  case 0
  then show ?case by simp
next
  case (Suc n)
  have "0 \<le> v div 32" "v div 32 < 32 ^ n"
    using Suc.prems by (auto simp: div_less_iff_less_mult)
  then have "decode_loop 0 (encode (v div 32) n) = Inr (v div 32)" by (rule Suc.IH)
  moreover have "DECODE (CROCKFORD_ALPHABET ! nat (v mod 32)) = Some (v mod 32)"
    using DECODE_alphabet[of "nat (v mod 32)"] by simp
  ultimately show ?case
    by (simp add: decode_loop_append and_31 drop_5 push_or_digit)
qed

lemma encode_chars: "c \<in> set (encode v n) \<Longrightarrow> DECODE c \<noteq> None"
proof (induction n arbitrary: v)
  case 0
  then show ?case by simp
next
  case (Suc n)
  have "DECODE (CROCKFORD_ALPHABET ! nat (v AND 31)) = Some (int (nat (v AND 31)))"
    by (rule DECODE_alphabet) (simp add: and_31)
  with Suc show ?case by auto
qed

section \<open>One stream\<close>

definition factory_ok :: "ulid_factory \<Rightarrow> bool" where
  "factory_ok f \<longleftrightarrow> -1 \<le> last_timestamp_ms f \<and> 0 \<le> last_randomness f \<and> last_randomness f < 2 ^ 80"

definition ulid_of :: "int \<Rightarrow> int \<Rightarrow> string" where
  "ulid_of t r = encode t TIMESTAMP_CHARS @ encode r (ULID_LENGTH - TIMESTAMP_CHARS)"

lemmas ulid_consts = TIMESTAMP_CHARS_def ULID_LENGTH_def TIMESTAMP_MAX_def RANDOM_MAX_def
  push_bit_eq_mult

lemma ulid_of_less:
  assumes "0 \<le> t" "t' < 2 ^ 50" "0 \<le> r" "r < 2 ^ 80" "0 \<le> r'" "r' < 2 ^ 80"
    and "t < t' \<or> t = t' \<and> r < r'"
  shows "ulid_of t r < ulid_of t' r'"
  using assms encode_less[of t t' 10] encode_less[of r r' 16]
  by (auto simp: ulid_of_def ulid_consts append_less_append_iff)

lemma ulid_new_Inl: "ulid_new clock ts rand f = (Inl e, f') \<Longrightarrow> f' = f"
  by (auto simp: ulid_new_def Let_def split: if_splits)

text \<open>One minting moves the pair (timestamp, randomness) strictly up and the timestamp by at
  most one past the larger of the clock and itself.\<close>

lemma ulid_new_Inr:
  assumes "ulid_new clock ts rand f = (Inr s, f')" "factory_ok f" "0 \<le> rand" "rand < 2 ^ 80"
  shows "factory_ok f'" and "s = ulid_of (last_timestamp_ms f') (last_randomness f')"
    and "0 \<le> last_timestamp_ms f'"
    and "last_timestamp_ms f < last_timestamp_ms f' \<or>
         last_timestamp_ms f = last_timestamp_ms f' \<and> last_randomness f < last_randomness f'"
    and "last_timestamp_ms f' \<le> max TIMESTAMP_MAX (last_timestamp_ms f + 1)"
  using assms
  by (auto simp: ulid_new_def Let_def factory_ok_def ulid_of_def ulid_consts
      split: if_splits option.splits)

definition draws_ok :: "ulid_request list \<Rightarrow> bool" where
  "draws_ok qs \<longleftrightarrow> (\<forall>(clock, ts, rand) \<in> set qs. 0 \<le> rand \<and> rand < 2 ^ 80)"

lemma ulid_run_above:
  assumes "factory_ok f" "draws_ok qs" "s \<in> set (ulid_run f qs)"
    and "0 \<le> last_timestamp_ms f"
    and "max TIMESTAMP_MAX (last_timestamp_ms f) + int (length qs) < 2 ^ 50"
  shows "ulid_of (last_timestamp_ms f) (last_randomness f) < s"
  using assms
proof (induction f qs rule: ulid_run.induct)
  case (1 f)
  then show ?case by simp
next
  case (2 f clock ts rand qs)
  have d: "0 \<le> rand" "rand < 2 ^ 80" "draws_ok qs"
    using "2.prems"(2) by (auto simp: draws_ok_def)
  obtain r f' where new: "ulid_new clock ts rand f = (r, f')" by (cases "ulid_new clock ts rand f")
  show ?case
  proof (cases r)
    case (Inl e)
    with new have "f' = f" by (simp add: ulid_new_Inl)
    then show ?thesis using "2.IH"(1)[OF new[symmetric] Inl] "2.prems" d new Inl by auto
  next
    case (Inr s0)
    note step = ulid_new_Inr[OF new[unfolded Inr] "2.prems"(1) d(1,2)]
    have below: "ulid_of (last_timestamp_ms f) (last_randomness f) < s0"
      unfolding step(2) using step "2.prems" by (intro ulid_of_less) (auto simp: factory_ok_def)
    have "s = s0 \<or> s \<in> set (ulid_run f' qs)" using "2.prems"(3) new Inr by simp
    then show ?thesis
    proof
      assume "s = s0" then show ?thesis using below by simp
    next
      assume s: "s \<in> set (ulid_run f' qs)"
      have "ulid_of (last_timestamp_ms f') (last_randomness f') < s"
        using "2.IH"(2)[OF new[symmetric] Inr] step(1,3,5) d(3) s "2.prems"(5) by auto
      then show ?thesis using below step(2) by auto
    qed
  qed
qed

lemma ulid_run_sorted:
  assumes "factory_ok f" "draws_ok qs"
    and "max TIMESTAMP_MAX (last_timestamp_ms f) + int (length qs) < 2 ^ 50"
  shows "sorted_wrt (<) (ulid_run f qs)"
  using assms
proof (induction f qs rule: ulid_run.induct)
  case (1 f)
  then show ?case by simp
next
  case (2 f clock ts rand qs)
  have d: "0 \<le> rand" "rand < 2 ^ 80" "draws_ok qs"
    using "2.prems"(2) by (auto simp: draws_ok_def)
  obtain r f' where new: "ulid_new clock ts rand f = (r, f')" by (cases "ulid_new clock ts rand f")
  show ?case
  proof (cases r)
    case (Inl e)
    with new have "f' = f" by (simp add: ulid_new_Inl)
    then show ?thesis using "2.IH"(1)[OF new[symmetric] Inl] "2.prems" d new Inl by auto
  next
    case (Inr s0)
    note step = ulid_new_Inr[OF new[unfolded Inr] "2.prems"(1) d(1,2)]
    have bound: "max TIMESTAMP_MAX (last_timestamp_ms f') + int (length qs) < 2 ^ 50"
      using step(5) "2.prems"(3) by auto
    have "sorted_wrt (<) (ulid_run f' qs)"
      using "2.IH"(2)[OF new[symmetric] Inr] step(1) d(3) bound by blast
    moreover have "\<forall>s \<in> set (ulid_run f' qs). s0 < s"
      using ulid_run_above[OF step(1) d(3) _ step(3) bound] step(2) by simp
    ultimately show ?thesis using new Inr by simp
  qed
qed

text \<open>Ids sort in the order they were issued. Whatever the wall clock reads (it may stand still
  or step backwards), whatever timestamps the callers ask for and whatever bits are drawn, the ids
  one fresh factory issues are strictly increasing as texts, hence pairwise different. The bound on
  the number of requests is the headroom between the 48-bit timestamp and the 50 bits its ten
  characters hold: each overflow of the 80-bit counter may spend one millisecond of it.\<close>

theorem ulid_stream_strictly_increasing:
  assumes "draws_ok qs" and "length qs < 2 ^ 49"
  shows "sorted_wrt (<) (ulid_run UlidFactory qs) \<and> distinct (ulid_run UlidFactory qs)"
proof -
  have n: "int (length qs) < 2 ^ 49"
    using assms(2) by (simp add: nat_less_numeral_power_cancel_iff flip: of_nat_less_iff)
  have "sorted_wrt (<) (ulid_run UlidFactory qs)"
    by (rule ulid_run_sorted[OF _ assms(1)])
      (use n in \<open>auto simp: factory_ok_def UlidFactory_def ulid_consts\<close>)
  then show ?thesis by (simp add: strict_sorted_iff)
qed

theorem ulid_stream_strictly_increasing_witness:
  "sorted_wrt (<) (ulid_run UlidFactory [(5, None, 7), (3, None, 1), (9, Some 2, 4)])
   \<and> ulid_run UlidFactory [(5, None, 7), (3, None, 1), (9, Some 2, 4)]
     = [''00000000050000000000000007'', ''00000000050000000000000008'', ''00000000050000000000000009'']"
proof -
  have ok: "draws_ok [(5, None, 7), (3, None, 1), (9, Some 2, 4)]"
    by (simp add: draws_ok_def)
  have out: "ulid_run UlidFactory [(5, None, 7), (3, None, 1), (9, Some 2, 4)]
    = [''00000000050000000000000007'', ''00000000050000000000000008'', ''00000000050000000000000009'']"
    by code_simp
  show ?thesis
    using ulid_stream_strictly_increasing[OF ok] out by simp
qed

text \<open>The timestamp of an id can be read back. Every id a factory issues is well formed
  (26 characters of the alphabet), and \<open>ulid_timestamp_ms\<close> recovers exactly the millisecond the
  factory minted it under; only a timestamp outside 48 bits is refused, with the factory
  unchanged.\<close>

theorem ulid_timestamp_roundtrip:
  assumes "factory_ok f" and "last_timestamp_ms f < 2 ^ 49" and "0 \<le> rand" and "rand < 2 ^ 80"
  shows "case ulid_new clock ts rand f of
           (Inl e, f') \<Rightarrow> e = ValueError \<and> f' = f
             \<and> (let now = (case ts of None \<Rightarrow> clock | Some t \<Rightarrow> t) in now < 0 \<or> TIMESTAMP_MAX < now)
         | (Inr s, f') \<Rightarrow> is_ulid s \<and> ulid_timestamp_ms s = Inr (last_timestamp_ms f')
             \<and> last_timestamp_ms f \<le> last_timestamp_ms f'"
proof (cases "ulid_new clock ts rand f")
  case (Pair r f')
  show ?thesis
  proof (cases r)
    case (Inl e)
    with Pair show ?thesis by (auto simp: ulid_new_def Let_def split: if_splits)
  next
    case (Inr s)
    note new = ulid_new_Inr[OF Pair[unfolded Inr] assms(1,3,4)]
    have t: "0 \<le> last_timestamp_ms f'" "last_timestamp_ms f' < 32 ^ 10"
      using new(3,5) assms(2) by (auto simp: ulid_consts)
    have s: "s = encode (last_timestamp_ms f') 10 @ encode (last_randomness f') 16"
      using new(2) by (simp add: ulid_of_def ulid_consts)
    have ok: "is_ulid s"
      unfolding s is_ulid_def using encode_chars by (auto simp: ULID_LENGTH_def)
    have "ulid_timestamp_ms s = Inr (last_timestamp_ms f')"
      using ok decode_encode[OF t] by (simp add: ulid_timestamp_ms_def s TIMESTAMP_CHARS_def)
    then show ?thesis using Pair Inr ok new(4) by auto
  qed
qed

theorem ulid_timestamp_roundtrip_witness:
  "ulid_timestamp_ms (encode 1700000000123 10 @ encode 99 16) = Inr 1700000000123"
proof -
  have f: "factory_ok UlidFactory" "last_timestamp_ms UlidFactory < 2 ^ 49"
    by (simp_all add: factory_ok_def UlidFactory_def)
  have new: "ulid_new 1700000000123 None 99 UlidFactory =
      (Inr (encode 1700000000123 10 @ encode 99 16),
       \<lparr>last_timestamp_ms = 1700000000123, last_randomness = 99\<rparr>)"
    by (simp add: ulid_new_def UlidFactory_def ulid_consts)
  show ?thesis
    using ulid_timestamp_roundtrip[OF f, of 99 1700000000123 None] new by simp
qed

end
