(* ===== verification/Delivery_Timing.thy ===== *)
theory Delivery_Timing
  imports CAO_Prelude
begin

text \<open>
  Every duration of the worker-truth and delivery subsystems and the orderings between them that
  \<open>core/timing.py\<close> checks at import. The constants are definitions; the two checks take the whole
  table as a record, so that what an accepted table guarantees is a statement about any retuning.
  \<open>PANE_LIVENESS_STALENESS_S\<close> and \<open>HERDR_AGENT_DETECT_S\<close> are floats in the source with integral
  values.
\<close>

record timing =
  PANE_HEARTBEAT_S :: int
  PANE_SAMPLE_S :: int
  PANE_LIVENESS_STALENESS_S :: int
  NO_SIGNAL_S :: int
  ROLLOUT_POLL_MS :: int
  PROBE_FAIL_TICKS :: int
  PANE_MISS_TICKS :: int
  RETENTION_DAYS :: int
  RETENTION_SWEEP_S :: int
  DELIVERY_TICK_S :: int
  DELIVERY_LEASE_S :: int
  DELIVERY_MAX_ATTEMPTS :: int
  DELIVERY_INJECT_BUDGET_S :: int
  DELIVERY_BACKOFF_S :: int
  DELIVERY_VETO_CEILING_S :: int
  DELIVERY_DEDUP_WINDOW_S :: int
  DELIVERY_MAX_LIFETIME_S :: int
  DELIVERY_RETENTION_DAYS :: int
  HERDR_SUBMISSION_GATE_MS :: int
  HERDR_PROMPT_WAIT_MS :: int
  IDLE_STALL_AGE_S :: int
  WAKE_MAX_RECORD_AGE_S :: int

text \<open>The table of the module.\<close>

definition T0 :: timing where
  "T0 = \<lparr>PANE_HEARTBEAT_S = 20, PANE_SAMPLE_S = 5, PANE_LIVENESS_STALENESS_S = 10,
     NO_SIGNAL_S = 60, ROLLOUT_POLL_MS = 500, PROBE_FAIL_TICKS = 3, PANE_MISS_TICKS = 2,
     RETENTION_DAYS = 30, RETENTION_SWEEP_S = 24 * 60 * 60,
     DELIVERY_TICK_S = 10, DELIVERY_LEASE_S = 60, DELIVERY_MAX_ATTEMPTS = 5,
     DELIVERY_INJECT_BUDGET_S = 20, DELIVERY_BACKOFF_S = 5, DELIVERY_VETO_CEILING_S = 1500,
     DELIVERY_DEDUP_WINDOW_S = 60, DELIVERY_MAX_LIFETIME_S = 1700, DELIVERY_RETENTION_DAYS = 30,
     HERDR_SUBMISSION_GATE_MS = 5000, HERDR_PROMPT_WAIT_MS = 8000, IDLE_STALL_AGE_S = 1800,
     WAKE_MAX_RECORD_AGE_S = 900\<rparr>"

text \<open>\<open>check_orderings\<close> and \<open>check_delivery_orderings\<close>: the first violated ordering raises.\<close>

definition check_orderings :: "timing \<Rightarrow> unit result" where
  "check_orderings t =
     (if ROLLOUT_POLL_MS t * 4 > PANE_HEARTBEAT_S t * 1000 then Inl ValueError
      else if NO_SIGNAL_S t \<le> PANE_HEARTBEAT_S t * 2 then Inl ValueError
      else if PROBE_FAIL_TICKS t * PANE_HEARTBEAT_S t < NO_SIGNAL_S t then Inl ValueError
      else if PANE_MISS_TICKS t < 2 then Inl ValueError
      else if PANE_SAMPLE_S t * 2 > PANE_LIVENESS_STALENESS_S t then Inl ValueError
      else if PANE_HEARTBEAT_S t mod PANE_SAMPLE_S t \<noteq> 0 then Inl ValueError
      else if RETENTION_DAYS t < 1 then Inl ValueError
      else if RETENTION_SWEEP_S t < PANE_HEARTBEAT_S t then Inl ValueError
      else Inr ())"

definition attempt_span :: "timing \<Rightarrow> int" where
  "attempt_span t = (DELIVERY_LEASE_S t + DELIVERY_BACKOFF_S t) * DELIVERY_MAX_ATTEMPTS t"

definition check_delivery_orderings :: "timing \<Rightarrow> unit result" where
  "check_delivery_orderings t =
     (if DELIVERY_TICK_S t \<ge> DELIVERY_LEASE_S t then Inl ValueError
      else if PANE_HEARTBEAT_S t \<ge> DELIVERY_LEASE_S t then Inl ValueError
      else if attempt_span t \<ge> IDLE_STALL_AGE_S t then Inl ValueError
      else if \<not> (attempt_span t < DELIVERY_VETO_CEILING_S t
                \<and> DELIVERY_VETO_CEILING_S t < DELIVERY_MAX_LIFETIME_S t
                \<and> DELIVERY_MAX_LIFETIME_S t < IDLE_STALL_AGE_S t) then Inl ValueError
      else if DELIVERY_INJECT_BUDGET_S t \<ge> DELIVERY_LEASE_S t then Inl ValueError
      else if HERDR_PROMPT_WAIT_MS t \<le> HERDR_SUBMISSION_GATE_MS t then Inl ValueError
      else if HERDR_PROMPT_WAIT_MS t > DELIVERY_INJECT_BUDGET_S t * 1000 then Inl ValueError
      else if DELIVERY_MAX_ATTEMPTS t < 1 then Inl ValueError
      else if DELIVERY_RETENTION_DAYS t < 1 then Inl ValueError
      else if DELIVERY_DEDUP_WINDOW_S t < 1 then Inl ValueError
      else if WAKE_MAX_RECORD_AGE_S t \<ge> DELIVERY_MAX_LIFETIME_S t then Inl ValueError
      else Inr ())"

text \<open>The durations the queue store adds to an instant, in microseconds.\<close>

abbreviation lease_span :: time where "lease_span \<equiv> seconds (DELIVERY_LEASE_S T0)"
abbreviation backoff_span :: time where "backoff_span \<equiv> seconds (DELIVERY_BACKOFF_S T0)"
abbreviation ceiling_span :: time where "ceiling_span \<equiv> seconds (DELIVERY_VETO_CEILING_S T0)"
abbreviation lifetime_span :: time where "lifetime_span \<equiv> seconds (DELIVERY_MAX_LIFETIME_S T0)"
abbreviation retention_span :: time where
  "retention_span \<equiv> seconds (DELIVERY_RETENTION_DAYS T0 * 86400)"
abbreviation no_signal_span :: time where "no_signal_span \<equiv> seconds (NO_SIGNAL_S T0)"

lemma T0_accepted: "check_orderings T0 = Inr ()" "check_delivery_orderings T0 = Inr ()"
  by (simp_all add: check_orderings_def check_delivery_orderings_def attempt_span_def T0_def)

lemma spans:
  "lease_span = 60000000" "backoff_span = 5000000" "ceiling_span = 1500000000"
  "lifetime_span = 1700000000" "no_signal_span = 60000000" "retention_span = 2592000000000"
  by (simp_all add: T0_def seconds_def)

end
