(* ===== verification/Delivery_Domain.thy ===== *)
theory Delivery_Domain
  imports Delivery_Timing
begin

text \<open>
  The values of the delivery queue: \<open>core/delivery.py\<close>. The vocabularies are datatypes, the row
  models are records with the source's fields (prefixed by the row they belong to), and the
  functions are translated one by one: the attempt accounting, the classification of the carrier's
  refusals, the sender rule, the digest line and the deadline. The \<open>mode\<close> column of a stored row
  may hold a text no longer in \<open>QueueMode\<close> (rows of a retired mode), which is why it is a datatype
  with one constructor for the known value and one for any other text.
\<close>

section \<open>Vocabularies\<close>

datatype queue_mode = LIVE | OtherMode string

datatype msg_state = READY | LEASED | DELIVERED | SUPERSEDED | DEAD

definition TERMINAL_STATES :: "msg_state list" where
  "TERMINAL_STATES = [DELIVERED, SUPERSEDED, DEAD]"

datatype dead_reason = MAX_ATTEMPTS | VETO_CEILING | MAX_LIFETIME | EXPIRED

fun dead_reason_value :: "dead_reason \<Rightarrow> string" where
  "dead_reason_value MAX_ATTEMPTS = ''max_attempts''"
| "dead_reason_value VETO_CEILING = ''veto_ceiling''"
| "dead_reason_value MAX_LIFETIME = ''max_lifetime''"
| "dead_reason_value EXPIRED = ''expired''"

datatype attempt_outcome =
    OUT_DELIVERED | VETO_DIALOG | VETO_UNVERIFIED | PANE_ABSENT | LEGACY_OTHER
  | EMITTED_UNVERIFIED | WAKE_UNREACHABLE | WAKE_UNRESOLVABLE | PASTE_ATTEMPTED
  | SUBMISSION_UNCERTAIN

definition NON_DELIVERY_OUTCOMES :: "attempt_outcome list" where
  "NON_DELIVERY_OUTCOMES =
     [VETO_DIALOG, VETO_UNVERIFIED, PANE_ABSENT, WAKE_UNREACHABLE, WAKE_UNRESOLVABLE,
      PASTE_ATTEMPTED, SUBMISSION_UNCERTAIN]"

definition ATTEMPT_BUDGET_OUTCOMES :: "attempt_outcome list" where
  "ATTEMPT_BUDGET_OUTCOMES = [VETO_UNVERIFIED, PANE_ABSENT, WAKE_UNRESOLVABLE, PASTE_ATTEMPTED]"

definition spends_attempt :: "attempt_outcome option \<Rightarrow> bool" where
  "spends_attempt outcome =
     (case outcome of None \<Rightarrow> True | Some x \<Rightarrow> x \<in> set ATTEMPT_BUDGET_OUTCOMES)"

datatype msg_kind = ASSIGN | CALLBACK | HANDOFF | NOTE

section \<open>Values the carriers and the store hand back\<close>

record receiver_resolution =
  rr_receiver_id :: string
  rr_terminal_id :: string
  rr_is_supervisor :: bool
  rr_pane_present :: bool
  rr_display_name :: string

definition rr_live :: "receiver_resolution \<Rightarrow> bool" where
  "rr_live r \<longleftrightarrow> rr_terminal_id r \<noteq> []"

record legacy_adoption =
  la_legacy_message_id :: int
  la_msg_id :: string
  la_receiver_id :: string

record wake_emission =
  we_reason :: "string option"
  we_verified :: bool
  we_annotations :: "string list"
  we_detail :: string

record injection_result =
  ir_outcome :: attempt_outcome
  ir_detail :: string

record dead_row =
  dr_msg_id :: string
  dr_receiver_id :: string
  dr_sender_id :: string
  dr_reason :: dead_reason
  dr_is_notice :: bool
  dr_attempts :: int

record reclaim_result =
  rc_reoffered :: nat
  rc_incremented :: nat
  rc_quarantined :: nat
  rc_dead :: "dead_row list"

section \<open>The carrier's refusals\<close>

record wake_classification =
  wc_reason :: string
  wc_outcome :: attempt_outcome
  wc_emitted :: bool
  wc_annotation :: bool
  wc_finding :: bool

definition WAKE_UNREACHABLE_REASONS :: "string list" where
  "WAKE_UNREACHABLE_REASONS =
     [''socket_enoent'', ''socket_econnrefused'', ''socket_eperm'', ''socket_einval'',
      ''socket_path_empty'', ''socket_unpublished'', ''no_registry_records'', ''pane_pid_failed'',
      ''proc_start_unreadable'']"

definition WAKE_UNRESOLVABLE_REASONS :: "string list" where
  "WAKE_UNRESOLVABLE_REASONS =
     [''proc_start_mismatch'', ''no_descendant_record'', ''target_ambiguous'',
      ''version_out_of_band'', ''version_absent'', ''version_config_invalid'', ''peer_protocol'',
      ''no_terminal_metadata'', ''no_tmux_coordinates'']"

definition WAKE_EMITTED_UNVERIFIED_REASONS :: "string list" where
  "WAKE_EMITTED_UNVERIFIED_REASONS = [''wake_unverified'', ''socket_timeout'']"

definition WAKE_ANNOTATION_REASONS :: "string list" where
  "WAKE_ANNOTATION_REASONS = [''record_stale'']"

definition WAKE_REASONS :: "string list" where
  "WAKE_REASONS = WAKE_UNREACHABLE_REASONS @ WAKE_UNRESOLVABLE_REASONS
     @ WAKE_EMITTED_UNVERIFIED_REASONS @ WAKE_ANNOTATION_REASONS"

definition SOCKET_ERRNO_PREFIX :: string where "SOCKET_ERRNO_PREFIX = ''socket_error:''"
definition WAKE_PANE_ABSENT :: string where "WAKE_PANE_ABSENT = ''pane_absent''"
definition WAKE_PASTE_ATTEMPTED :: string where "WAKE_PASTE_ATTEMPTED = ''paste_attempted''"
definition WAKE_UNVERIFIED_STREAK :: string where "WAKE_UNVERIFIED_STREAK = ''unverified_streak''"
definition UNVERIFIED_STREAK_LEASES :: nat where "UNVERIFIED_STREAK_LEASES = 3"

definition WakeClassification ::
  "string \<Rightarrow> attempt_outcome \<Rightarrow> bool \<Rightarrow> bool \<Rightarrow> bool \<Rightarrow> wake_classification" where
  "WakeClassification reason outcome emitted annotation finding =
     \<lparr>wc_reason = reason, wc_outcome = outcome, wc_emitted = emitted,
      wc_annotation = annotation, wc_finding = finding\<rparr>"

definition classify_wake_reason :: "string option \<Rightarrow> wake_classification" where
  "classify_wake_reason reason =
     (case reason of
        None \<Rightarrow> WakeClassification [] OUT_DELIVERED True False False
      | Some r \<Rightarrow>
          if r = [] then WakeClassification [] OUT_DELIVERED True False False
          else if r \<in> set WAKE_ANNOTATION_REASONS
          then WakeClassification r OUT_DELIVERED True True False
          else if r \<in> set WAKE_EMITTED_UNVERIFIED_REASONS
          then WakeClassification r EMITTED_UNVERIFIED True False False
          else if r = WAKE_PANE_ABSENT then WakeClassification r PANE_ABSENT False False False
          else if r = WAKE_PASTE_ATTEMPTED
          then WakeClassification r PASTE_ATTEMPTED False False True
          else if r \<in> set WAKE_UNREACHABLE_REASONS \<or> startswith r SOCKET_ERRNO_PREFIX
          then WakeClassification r WAKE_UNREACHABLE False False True
          else WakeClassification r WAKE_UNRESOLVABLE False False True)"

section \<open>The wake's sender and line\<close>

definition CARRIER_SEAT_WAKE :: string where "CARRIER_SEAT_WAKE = ''seat_wake''"
definition CARRIER_PANE :: string where "CARRIER_PANE = ''pane''"
definition DELIVERY_SENDER_ADDRESS :: string where "DELIVERY_SENDER_ADDRESS = ''cao-delivery''"
definition SENDER_SUBSTITUTED :: string where "SENDER_SUBSTITUTED = ''sender_substituted''"
definition WAKE_ID_CAP :: nat where "WAKE_ID_CAP = 10"

record wake_sender =
  ws_key :: string
  ws_name :: string
  ws_substituted :: bool

text \<open>\<open>dict.fromkeys\<close> keeps the first occurrence of every key.\<close>

definition dict_fromkeys :: "'a list \<Rightarrow> 'a list" where
  "dict_fromkeys xs = rev (remdups (rev xs))"

definition resolve_wake_sender :: "string list \<Rightarrow> string \<Rightarrow> wake_sender" where
  "resolve_wake_sender senders receiver_key =
     (let distinct_senders = dict_fromkeys (filter (\<lambda>s. s \<noteq> []) senders) in
      case distinct_senders of
        [only] \<Rightarrow>
          if only = receiver_key
          then \<lparr>ws_key = DELIVERY_SENDER_ADDRESS, ws_name = ''delivery'', ws_substituted = True\<rparr>
          else \<lparr>ws_key = only, ws_name = only, ws_substituted = False\<rparr>
      | [] \<Rightarrow> \<lparr>ws_key = DELIVERY_SENDER_ADDRESS, ws_name = ''delivery'', ws_substituted = False\<rparr>
      | _ \<Rightarrow> \<lparr>ws_key = DELIVERY_SENDER_ADDRESS,
              ws_name = py_str (int (length distinct_senders)) @ '' workers'',
              ws_substituted = False\<rparr>)"

definition build_digest_line :: "int \<Rightarrow> int \<Rightarrow> int \<Rightarrow> string list \<Rightarrow> string" where
  "build_digest_line epoch n wake msg_ids =
     (let shown = take WAKE_ID_CAP msg_ids @
            (if length msg_ids > WAKE_ID_CAP
             then [''+'' @ py_str (int (length msg_ids) - int WAKE_ID_CAP) @ '' more''] else []);
          ids = py_join '','' shown in
      ''[cao] digest epoch='' @ py_str epoch @ '' msgs='' @ py_str n @ '' wake='' @ py_str wake
      @ '' ids='' @ ids @ ''. Drain: list_messages(epoch='' @ py_str epoch
      @ '') -> ack_messages'')"

definition is_service_sender :: "string option \<Rightarrow> bool" where
  "is_service_sender sender_id =
     (let sender = (case sender_id of None \<Rightarrow> [] | Some s \<Rightarrow> s) in
      if sender = [] then True else CHR '':'' \<in> set sender \<or> startswith sender ''cao-'')"

section \<open>The deadline\<close>

definition compute_dead_by :: "time \<Rightarrow> time \<Rightarrow> int option \<Rightarrow> int \<Rightarrow> time" where
  "compute_dead_by created_at available_at expire_after_s max_lifetime_s =
     (let origin = max created_at available_at;
          deadline = origin + seconds max_lifetime_s in
      case expire_after_s of
        None \<Rightarrow> deadline
      | Some e \<Rightarrow> if e > 0 then min deadline (created_at + seconds e) else deadline)"

section \<open>The rows\<close>

record enqueue_draft =
  ed_idempotency_key :: string
  ed_receiver_id :: string
  ed_sender_id :: string
  ed_kind :: msg_kind
  ed_payload :: string
  ed_mode :: queue_mode
  ed_max_attempts :: int
  ed_expire_after_s :: "int option"
  ed_supersede_key :: "string option"
  ed_content_hash :: "string option"
  ed_park_warm :: bool
  ed_barrier_id :: "int option"
  ed_barrier_member_key :: "string option"
  ed_enqueue_generation :: "int option"
  ed_cancel_on_complete :: bool
  ed_is_notice :: bool
  ed_legacy_message_id :: "int option"

text \<open>The field validators of \<open>EnqueueDraft\<close>: what a constructed draft satisfies.\<close>

definition draft_valid :: "enqueue_draft \<Rightarrow> bool" where
  "draft_valid d \<longleftrightarrow> ed_idempotency_key d \<noteq> [] \<and> ed_receiver_id d \<noteq> [] \<and> ed_mode d = LIVE
     \<and> 1 \<le> ed_max_attempts d"

record queue_message =
  qm_msg_id :: string
  qm_idempotency_key :: string
  qm_payload_digest :: string
  qm_receiver_id :: string
  qm_sender_id :: string
  qm_kind :: msg_kind
  qm_payload :: string
  qm_state :: msg_state
  qm_mode :: queue_mode
  qm_claim_id :: int
  qm_lease_owner :: "string option"
  qm_lease_expires_at :: "time option"
  qm_attempts :: int
  qm_max_attempts :: int
  qm_available_at :: time
  qm_dead_by :: time
  qm_held_since :: "time option"
  qm_expire_after_s :: "int option"
  qm_supersede_key :: "string option"
  qm_content_hash :: "string option"
  qm_park_warm :: bool
  qm_barrier_id :: "int option"
  qm_barrier_member_key :: "string option"
  qm_enqueue_generation :: "int option"
  qm_cancel_on_complete :: bool
  qm_is_notice :: bool
  qm_legacy_message_id :: "int option"
  qm_created_at :: time
  qm_terminated_at :: "time option"

definition terminal :: "queue_message \<Rightarrow> bool" where
  "terminal m \<longleftrightarrow> qm_state m \<in> set TERMINAL_STATES"

record delivery_attempt =
  da_msg_id :: string
  da_claim_id :: int
  da_carrier :: string
  da_started_at :: time
  da_outcome :: attempt_outcome
  da_detail :: string

record dead_letter =
  dl_msg_id :: string
  dl_idempotency_key :: string
  dl_receiver_id :: string
  dl_payload :: string
  dl_attempts :: int
  dl_reason :: dead_reason
  dl_mode :: queue_mode
  dl_died_at :: time

record seat_digest =
  sd_receiver_id :: string
  sd_epoch :: int
  sd_msg_ids :: "string list"
  sd_built_at :: time
  sd_consumed_at :: "time option"
  sd_consumed_via :: "string option"
  sd_wake_count :: int

definition sd_open :: "seat_digest \<Rightarrow> bool" where
  "sd_open d \<longleftrightarrow> sd_consumed_at d = None"

section \<open>Facts\<close>

lemma terminal_iff: "terminal m \<longleftrightarrow> qm_state m \<noteq> READY \<and> qm_state m \<noteq> LEASED"
  by (cases "qm_state m") (simp_all add: terminal_def TERMINAL_STATES_def)

lemma set_dict_fromkeys [simp]: "set (dict_fromkeys xs) = set xs"
  by (simp add: dict_fromkeys_def)

lemma distinct_dict_fromkeys [simp]: "distinct (dict_fromkeys xs)"
  by (simp add: dict_fromkeys_def)

lemma spends_attempt_simps [simp]:
  "spends_attempt None"
  "spends_attempt (Some x) \<longleftrightarrow> x \<in> {VETO_UNVERIFIED, PANE_ABSENT, WAKE_UNRESOLVABLE, PASTE_ATTEMPTED}"
  by (auto simp: spends_attempt_def ATTEMPT_BUDGET_OUTCOMES_def)

lemma compute_dead_by_upper:
  "compute_dead_by c a e l \<le> max c a + seconds l"
  by (simp add: compute_dead_by_def Let_def split: option.splits)

section \<open>Properties\<close>

lemma set_reasons:
  "set WAKE_ANNOTATION_REASONS = {''record_stale''}"
  "set WAKE_EMITTED_UNVERIFIED_REASONS = {''wake_unverified'', ''socket_timeout''}"
  by (auto simp: WAKE_ANNOTATION_REASONS_def WAKE_EMITTED_UNVERIFIED_REASONS_def)

text \<open>The carrier's refusals are classified safely. For every reason text the carrier may report,
  including one this build has never seen: the wake counts as emitted exactly when the outcome is
  delivered or emitted-unverified; a finding is raised exactly when nothing was emitted and the pane was
  not simply absent; the attempt budget is spent exactly for an absent pane, an attempted paste or an
  unresolvable target, so a seat that is merely unreachable never loses a message to the budget; and an
  unknown text is unresolvable, never a delivery.\<close>

lemma classify_wake_reason_sound:
  "let c = classify_wake_reason reason in
     (wc_emitted c \<longleftrightarrow> wc_outcome c = OUT_DELIVERED \<or> wc_outcome c = EMITTED_UNVERIFIED)
   \<and> (wc_finding c \<longleftrightarrow> \<not> wc_emitted c \<and> wc_outcome c \<noteq> PANE_ABSENT)
   \<and> (spends_attempt (Some (wc_outcome c)) \<longleftrightarrow> wc_outcome c \<in> {PANE_ABSENT, PASTE_ATTEMPTED, WAKE_UNRESOLVABLE})
   \<and> (\<forall>r. reason = Some r \<and> r \<noteq> [] \<and> r \<notin> set WAKE_REASONS \<and> r \<noteq> WAKE_PANE_ABSENT
        \<and> r \<noteq> WAKE_PASTE_ATTEMPTED \<and> \<not> startswith r SOCKET_ERRNO_PREFIX
        \<longrightarrow> c = WakeClassification r WAKE_UNRESOLVABLE False False True)
   \<and> (\<forall>r. reason = Some r \<and> (r \<in> set WAKE_UNREACHABLE_REASONS \<or> startswith r SOCKET_ERRNO_PREFIX)
        \<longrightarrow> wc_outcome c = WAKE_UNREACHABLE)"
proof -
  have apart: "r \<notin> {''record_stale'', ''wake_unverified'', ''socket_timeout'', ''pane_absent'', ''paste_attempted'', []}"
    if "r \<in> set WAKE_UNREACHABLE_REASONS \<or> startswith r SOCKET_ERRNO_PREFIX" for r
    using that by (auto simp: WAKE_UNREACHABLE_REASONS_def startswith_def SOCKET_ERRNO_PREFIX_def)
  show ?thesis
    using apart
    by (cases reason)
      (auto simp: classify_wake_reason_def WakeClassification_def Let_def set_reasons WAKE_REASONS_def
        WAKE_PANE_ABSENT_def WAKE_PASTE_ATTEMPTED_def)
qed

lemma classify_wake_reason_sound_witness:
  "classify_wake_reason (Some ''gremlins'') = WakeClassification ''gremlins'' WAKE_UNRESOLVABLE False False True"
proof -
  have "''gremlins'' \<notin> set WAKE_REASONS" "''gremlins'' \<noteq> WAKE_PANE_ABSENT"
    "''gremlins'' \<noteq> WAKE_PASTE_ATTEMPTED" "\<not> startswith ''gremlins'' SOCKET_ERRNO_PREFIX"
    by (simp_all add: WAKE_REASONS_def WAKE_UNREACHABLE_REASONS_def WAKE_UNRESOLVABLE_REASONS_def
        WAKE_EMITTED_UNVERIFIED_REASONS_def WAKE_ANNOTATION_REASONS_def WAKE_PANE_ABSENT_def
        WAKE_PASTE_ATTEMPTED_def startswith_def SOCKET_ERRNO_PREFIX_def)
  then show ?thesis using classify_wake_reason_sound[of "Some ''gremlins''"] by (simp add: Let_def)
qed

lemma wake_sender_cases:
  assumes "receiver \<noteq> DELIVERY_SENDER_ADDRESS"
  shows "let w = resolve_wake_sender senders receiver; named = set senders - {[]} in
      ws_key w \<noteq> receiver \<and> ws_key w \<noteq> []
    \<and> (ws_substituted w \<longleftrightarrow> named = {receiver})
    \<and> (\<forall>s. named = {s} \<and> s \<noteq> receiver \<longrightarrow> ws_key w = s)
    \<and> ((\<nexists>s. named = {s}) \<longrightarrow> ws_key w = DELIVERY_SENDER_ADDRESS)"
proof -
  let ?ds = "dict_fromkeys (filter (\<lambda>s. s \<noteq> []) senders)"
  have named: "set ?ds = set senders - {[]}" by auto
  consider (none) "?ds = []" | (one) s where "?ds = [s]" | (more) a b xs where "?ds = a # b # xs"
    by (cases ?ds rule: remdups_adj.cases) auto
  then show ?thesis
  proof cases
    case none
    then show ?thesis using named assms
      by (auto simp: resolve_wake_sender_def Let_def DELIVERY_SENDER_ADDRESS_def)
  next
    case one
    then have "set senders - {[]} = {s}" using named by simp
    then show ?thesis using one assms
      by (auto simp: resolve_wake_sender_def Let_def DELIVERY_SENDER_ADDRESS_def)
  next
    case more
    have "distinct ?ds" by (rule distinct_dict_fromkeys)
    then have "a \<noteq> b" using more by simp
    moreover have "a \<in> set senders - {[]}" "b \<in> set senders - {[]}" using named more by auto
    ultimately have "\<nexists>s. set senders - {[]} = {s}" by (metis singletonD)
    then show ?thesis using more assms
      by (auto simp: resolve_wake_sender_def Let_def DELIVERY_SENDER_ADDRESS_def)
  qed
qed

lemma digest_line_eqD:
  assumes "build_digest_line e n w ids = build_digest_line e' n' w' ids'"
  shows "e = e' \<and> n = n' \<and> w = w'"
proof -
  have split: "a = b \<and> us = vs"
    if "py_str a @ CHR '' '' # us = py_str b @ CHR '' '' # vs" for a b us vs
    using sep_split_eq[OF py_str_no_space py_str_no_space that] py_str_inj by blast
  from assms have 1: "py_str e @ CHR '' '' # ''msgs='' @ py_str n @ CHR '' '' # ''wake='' @ py_str w @ CHR '' '' # u
      = py_str e' @ CHR '' '' # ''msgs='' @ py_str n' @ CHR '' '' # ''wake='' @ py_str w' @ CHR '' '' # u'"
    if "u = drop 1 ('' ids='' @ py_join '','' (take WAKE_ID_CAP ids @
            (if length ids > WAKE_ID_CAP
             then [''+'' @ py_str (int (length ids) - int WAKE_ID_CAP) @ '' more''] else []))
          @ ''. Drain: list_messages(epoch='' @ py_str e @ '') -> ack_messages'')"
      "u' = drop 1 ('' ids='' @ py_join '','' (take WAKE_ID_CAP ids' @
            (if length ids' > WAKE_ID_CAP
             then [''+'' @ py_str (int (length ids') - int WAKE_ID_CAP) @ '' more''] else []))
          @ ''. Drain: list_messages(epoch='' @ py_str e' @ '') -> ack_messages'')" for u u'
    using that by (simp add: build_digest_line_def Let_def)
  have "e = e' \<and> (\<exists>u u'. py_str n @ CHR '' '' # ''wake='' @ py_str w @ CHR '' '' # u
      = py_str n' @ CHR '' '' # ''wake='' @ py_str w' @ CHR '' '' # u')"
    using split[OF 1[OF refl refl]] by auto
  then obtain u u' where "e = e'" and 2: "py_str n @ CHR '' '' # ''wake='' @ py_str w @ CHR '' '' # u
      = py_str n' @ CHR '' '' # ''wake='' @ py_str w' @ CHR '' '' # u'" by blast
  moreover have "n = n'" "py_str w @ CHR '' '' # u = py_str w' @ CHR '' '' # u'"
    using split[OF 2] by auto
  ultimately show ?thesis using split by blast
qed

end
