(* ===== verification/Queue_Store.thy ===== *)
theory Queue_Store
  imports Delivery_Domain
begin

text \<open>
  The delivery queue over SQLite: \<open>adapters/store/queue.py\<close>, the class \<open>SqliteQueueStore\<close>, and the
  boot step of \<open>adapters/store/migrator.py\<close> that retires the rows of the old mode. The database is
  a record of four tables, each a list of rows in rowid order; every method is a function of the
  store that returns its result and the new store. A method runs in one \<open>BEGIN IMMEDIATE\<close>
  transaction: it is one atomic step, and where it raises, the store it returns is the old one.
  \<open>SELECT\<close> without \<open>ORDER BY\<close> reads in rowid order.

  What is not the store's own is an argument: the instant \<open>now\<close> (or \<open>clk\<close> where the method reads
  its clock), the id \<open>mid\<close> that \<open>new_ulid()\<close> returns, the digest \<open>sha\<close> of a payload
  (\<open>hashlib.sha256\<close>) and the highest id of the legacy inbox table.
\<close>

record qstore =
  q_msgs :: "queue_message list"
  q_attempts :: "delivery_attempt list"
  q_dead :: "dead_letter list"
  q_digests :: "seat_digest list"

definition empty_qstore :: qstore where
  "empty_qstore = \<lparr>q_msgs = [], q_attempts = [], q_dead = [], q_digests = []\<rparr>"

section \<open>Reading a row\<close>

text \<open>\<open>_row_to_message\<close> rebuilds the enums of a row; \<open>QueueMode(row["mode"])\<close> raises on a text that
  is not a member.\<close>

definition row_to_message :: "queue_message \<Rightarrow> queue_message result" where
  "row_to_message r = (if qm_mode r = LIVE then Inr r else Inl ValueError)"

fun rows_to_messages :: "queue_message list \<Rightarrow> queue_message list result" where
  "rows_to_messages [] = Inr []"
| "rows_to_messages (r # rs) =
     (case row_to_message r of Inl e \<Rightarrow> Inl e
      | Inr m \<Rightarrow> (case rows_to_messages rs of Inl e \<Rightarrow> Inl e | Inr ms \<Rightarrow> Inr (m # ms)))"

section \<open>enqueue\<close>

definition new_row :: "(string \<Rightarrow> string) \<Rightarrow> time \<Rightarrow> string \<Rightarrow> enqueue_draft \<Rightarrow> queue_message" where
  "new_row sha now mid d =
     \<lparr>qm_msg_id = mid, qm_idempotency_key = ed_idempotency_key d,
      qm_payload_digest = sha (ed_payload d), qm_receiver_id = ed_receiver_id d,
      qm_sender_id = ed_sender_id d, qm_kind = ed_kind d, qm_payload = ed_payload d,
      qm_state = READY, qm_mode = ed_mode d, qm_claim_id = 0, qm_lease_owner = None,
      qm_lease_expires_at = None, qm_attempts = 0, qm_max_attempts = ed_max_attempts d,
      qm_available_at = now,
      qm_dead_by = compute_dead_by now now (ed_expire_after_s d) (DELIVERY_MAX_LIFETIME_S T0),
      qm_held_since = None, qm_expire_after_s = ed_expire_after_s d,
      qm_supersede_key = ed_supersede_key d, qm_content_hash = ed_content_hash d,
      qm_park_warm = ed_park_warm d, qm_barrier_id = ed_barrier_id d,
      qm_barrier_member_key = ed_barrier_member_key d,
      qm_enqueue_generation = ed_enqueue_generation d,
      qm_cancel_on_complete = ed_cancel_on_complete d, qm_is_notice = ed_is_notice d,
      qm_legacy_message_id = ed_legacy_message_id d, qm_created_at = now,
      qm_terminated_at = None\<rparr>"

definition enqueue ::
  "(string \<Rightarrow> string) \<Rightarrow> time \<Rightarrow> string \<Rightarrow> enqueue_draft \<Rightarrow> qstore \<Rightarrow> queue_message result \<times> qstore"
where
  "enqueue sha clk mid d st =
     (let conflict = (\<exists>m \<in> set (q_msgs st). qm_idempotency_key m = ed_idempotency_key d) in
      if \<not> conflict \<and> (\<exists>m \<in> set (q_msgs st). qm_msg_id m = mid)
      then (Inl PersistentEnqueueRejection, st)
      else
        let st' = (if conflict then st else st\<lparr>q_msgs := q_msgs st @ [new_row sha clk mid d]\<rparr>) in
        case fetchone (\<lambda>m. qm_idempotency_key m = ed_idempotency_key d) (q_msgs st') of
          None \<Rightarrow> (Inl RuntimeError, st')
        | Some r \<Rightarrow>
            (case row_to_message r of
               Inl e \<Rightarrow> (Inl e, st')
             | Inr m \<Rightarrow>
                 if qm_payload_digest m \<noteq> sha (ed_payload d) then (Inl IdempotencyConflict, st')
                 else (Inr m, st')))"

section \<open>claim and ack\<close>

definition claimable :: "time \<Rightarrow> string option \<Rightarrow> queue_message \<Rightarrow> bool" where
  "claimable now receiver m \<longleftrightarrow>
     qm_state m = READY \<and> qm_available_at m \<le> now \<and> qm_mode m = LIVE \<and> now < qm_dead_by m
     \<and> (case receiver of None \<Rightarrow> True | Some r \<Rightarrow> qm_receiver_id m = r)"

definition lease_row :: "string \<Rightarrow> time \<Rightarrow> queue_message \<Rightarrow> queue_message" where
  "lease_row owner lease_until m =
     m\<lparr>qm_state := LEASED, qm_claim_id := qm_claim_id m + 1, qm_lease_owner := Some owner,
       qm_lease_expires_at := Some lease_until\<rparr>"

fun claim_loop ::
  "string \<Rightarrow> time \<Rightarrow> queue_message list \<Rightarrow> queue_message list \<Rightarrow> queue_message list
   \<Rightarrow> (queue_message list \<times> queue_message list) result"
where
  "claim_loop owner lease_until [] claimed ms = Inr (claimed, ms)"
| "claim_loop owner lease_until (row # rows) claimed ms =
     (let ms' = update_where (\<lambda>m. qm_msg_id m = qm_msg_id row \<and> qm_state m = READY)
                  (lease_row owner lease_until) ms in
      case fetchone (\<lambda>m. qm_msg_id m = qm_msg_id row) ms' of
        None \<Rightarrow> Inl TypeError
      | Some r \<Rightarrow>
          (case row_to_message r of
             Inl e \<Rightarrow> Inl e
           | Inr m \<Rightarrow> claim_loop owner lease_until rows (claimed @ [m]) ms'))"

definition claim_rows :: "time \<Rightarrow> int \<Rightarrow> string option \<Rightarrow> queue_message list \<Rightarrow> queue_message list" where
  "claim_rows now limit receiver ms =
     sql_limit limit (sort_key (\<lambda>m. (qm_available_at m, qm_msg_id m))
       (filter (claimable now receiver) ms))"

definition claim ::
  "string \<Rightarrow> time \<Rightarrow> int \<Rightarrow> string option \<Rightarrow> qstore \<Rightarrow> queue_message list result \<times> qstore"
where
  "claim owner now limit receiver st =
     (case claim_loop owner (now + lease_span) (claim_rows now limit receiver (q_msgs st)) []
             (q_msgs st) of
        Inl e \<Rightarrow> (Inl e, st)
      | Inr (claimed, ms) \<Rightarrow> (Inr claimed, st\<lparr>q_msgs := ms\<rparr>))"

definition ack_row :: "time \<Rightarrow> queue_message \<Rightarrow> queue_message" where
  "ack_row now m =
     m\<lparr>qm_state := DELIVERED, qm_terminated_at := Some now, qm_lease_owner := None,
       qm_lease_expires_at := None, qm_held_since := None\<rparr>"

definition ackable :: "string \<Rightarrow> int \<Rightarrow> queue_message \<Rightarrow> bool" where
  "ackable mid claim_id m \<longleftrightarrow>
     qm_msg_id m = mid \<and> qm_claim_id m = claim_id \<and> qm_state m = LEASED"

definition ack :: "string \<Rightarrow> int \<Rightarrow> time \<Rightarrow> qstore \<Rightarrow> bool \<times> qstore" where
  "ack mid claim_id now st =
     (rowcount (ackable mid claim_id) (q_msgs st) > 0,
      st\<lparr>q_msgs := update_where (ackable mid claim_id) (ack_row now) (q_msgs st)\<rparr>)"

section \<open>reclaim\<close>

definition last_outcome_in :: "delivery_attempt list \<Rightarrow> string \<Rightarrow> int \<Rightarrow> attempt_outcome option" where
  "last_outcome_in atts mid claim_id =
     (case filter (\<lambda>a. da_msg_id a = mid \<and> da_claim_id a = claim_id) atts of
        [] \<Rightarrow> None
      | a # as \<Rightarrow> Some (da_outcome (last (a # as))))"

definition quarantine_until :: "queue_message \<Rightarrow> time" where
  "quarantine_until m = qm_dead_by m + seconds 1"

definition dead_reason_for :: "queue_message \<Rightarrow> dead_reason" where
  "dead_reason_for m =
     (if qm_attempts m \<ge> qm_max_attempts m then MAX_ATTEMPTS
      else case qm_expire_after_s m of
             Some e \<Rightarrow> if e \<le> DELIVERY_MAX_LIFETIME_S T0 then EXPIRED else MAX_LIFETIME
           | None \<Rightarrow> MAX_LIFETIME)"

definition mk_dead_row :: "queue_message \<Rightarrow> dead_reason \<Rightarrow> dead_row" where
  "mk_dead_row m reason =
     \<lparr>dr_msg_id = qm_msg_id m, dr_receiver_id = qm_receiver_id m, dr_sender_id = qm_sender_id m,
      dr_reason = reason, dr_is_notice = qm_is_notice m, dr_attempts = qm_attempts m\<rparr>"

definition kill_row :: "time \<Rightarrow> queue_message \<Rightarrow> queue_message" where
  "kill_row now m =
     m\<lparr>qm_state := DEAD, qm_terminated_at := Some now, qm_lease_owner := None,
       qm_lease_expires_at := None\<rparr>"

definition mk_dead_letter :: "queue_message \<Rightarrow> dead_reason \<Rightarrow> time \<Rightarrow> dead_letter" where
  "mk_dead_letter m reason now =
     \<lparr>dl_msg_id = qm_msg_id m, dl_idempotency_key = qm_idempotency_key m,
      dl_receiver_id = qm_receiver_id m, dl_payload = qm_payload m, dl_attempts = qm_attempts m,
      dl_reason = reason, dl_mode = qm_mode m, dl_died_at = now\<rparr>"

text \<open>\<open>_kill\<close>: the state change and the dead letter, in the caller's transaction.\<close>

definition kill :: "queue_message \<Rightarrow> dead_reason \<Rightarrow> time \<Rightarrow> qstore \<Rightarrow> qstore" where
  "kill m reason now st =
     st\<lparr>q_msgs := update_where (\<lambda>x. qm_msg_id x = qm_msg_id m) (kill_row now) (q_msgs st),
        q_dead := insert_ignore dl_msg_id (mk_dead_letter m reason now) (q_dead st)\<rparr>"

definition expired_lease :: "time \<Rightarrow> queue_message \<Rightarrow> bool" where
  "expired_lease now m \<longleftrightarrow>
     qm_state m = LEASED \<and> (case qm_lease_expires_at m of None \<Rightarrow> False | Some t \<Rightarrow> t < now)"

definition over_ceiling :: "time \<Rightarrow> queue_message \<Rightarrow> bool" where
  "over_ceiling now m \<longleftrightarrow>
     (qm_state m = READY \<or> qm_state m = LEASED)
     \<and> (case qm_held_since m of None \<Rightarrow> False | Some t \<Rightarrow> t \<le> now - ceiling_span)"

definition exhausted :: "time \<Rightarrow> queue_message \<Rightarrow> bool" where
  "exhausted now m \<longleftrightarrow>
     qm_state m = READY \<and> (qm_attempts m \<ge> qm_max_attempts m \<or> qm_dead_by m \<le> now)"

definition quarantine_row :: "queue_message \<Rightarrow> queue_message \<Rightarrow> queue_message" where
  "quarantine_row m x =
     x\<lparr>qm_state := READY, qm_claim_id := qm_claim_id x + 1,
       qm_available_at := quarantine_until m, qm_lease_owner := None,
       qm_lease_expires_at := None\<rparr>"

definition reoffer_row :: "bool \<Rightarrow> time \<Rightarrow> queue_message \<Rightarrow> queue_message" where
  "reoffer_row spends backoff_until x =
     x\<lparr>qm_state := READY, qm_claim_id := qm_claim_id x + 1,
       qm_attempts := qm_attempts x + (if spends then 1 else 0),
       qm_available_at := backoff_until, qm_lease_owner := None, qm_lease_expires_at := None\<rparr>"

text \<open>The first loop of \<open>reclaim\<close>, over the expired leases: the counters are \<open>reoffered\<close>,
  \<open>incremented\<close> and \<open>quarantined\<close>.\<close>

fun reclaim_expired ::
  "delivery_attempt list \<Rightarrow> time \<Rightarrow> queue_message list \<Rightarrow> nat \<times> nat \<times> nat \<Rightarrow> queue_message list
   \<Rightarrow> ((nat \<times> nat \<times> nat) \<times> queue_message list) result"
where
  "reclaim_expired atts now [] counts ms = Inr (counts, ms)"
| "reclaim_expired atts now (row # rows) (reoffered, incremented, quarantined) ms =
     (case row_to_message row of
        Inl e \<Rightarrow> Inl e
      | Inr m \<Rightarrow>
          (let outcome = last_outcome_in atts (qm_msg_id m) (qm_claim_id m) in
           if outcome = Some SUBMISSION_UNCERTAIN
           then reclaim_expired atts now rows (reoffered, incremented, quarantined + 1)
                  (update_where (\<lambda>x. qm_msg_id x = qm_msg_id m \<and> qm_state x = LEASED)
                    (quarantine_row m) ms)
           else
             (let spends = spends_attempt outcome in
              reclaim_expired atts now rows
                (reoffered + 1, incremented + (if spends then 1 else 0), quarantined)
                (update_where (\<lambda>x. qm_msg_id x = qm_msg_id m \<and> qm_state x = LEASED)
                  (reoffer_row spends (now + backoff_span)) ms))))"

text \<open>The two dead-lettering loops, which differ in the reason they record.\<close>

fun reclaim_kill ::
  "(queue_message \<Rightarrow> dead_reason) \<Rightarrow> time \<Rightarrow> queue_message list \<Rightarrow> dead_row list \<Rightarrow> qstore
   \<Rightarrow> (dead_row list \<times> qstore) result"
where
  "reclaim_kill reason now [] dead st = Inr (dead, st)"
| "reclaim_kill reason now (row # rows) dead st =
     (case row_to_message row of
        Inl e \<Rightarrow> Inl e
      | Inr m \<Rightarrow> reclaim_kill reason now rows (dead @ [mk_dead_row m (reason m)])
                  (kill m (reason m) now st))"

definition reclaim :: "time \<Rightarrow> qstore \<Rightarrow> reclaim_result result \<times> qstore" where
  "reclaim now st =
     (case reclaim_expired (q_attempts st) now (filter (expired_lease now) (q_msgs st)) (0, 0, 0)
             (q_msgs st) of
        Inl e \<Rightarrow> (Inl e, st)
      | Inr ((reoffered, incremented, quarantined), ms) \<Rightarrow>
          (let st1 = st\<lparr>q_msgs := ms\<rparr> in
           case reclaim_kill (\<lambda>_. VETO_CEILING) now (filter (over_ceiling now) (q_msgs st1)) [] st1 of
             Inl e \<Rightarrow> (Inl e, st)
           | Inr (held, st2) \<Rightarrow>
               (case reclaim_kill dead_reason_for now (filter (exhausted now) (q_msgs st2)) held st2 of
                  Inl e \<Rightarrow> (Inl e, st)
                | Inr (dead, st3) \<Rightarrow>
                    (Inr \<lparr>rc_reoffered = reoffered, rc_incremented = incremented,
                          rc_quarantined = quarantined, rc_dead = dead\<rparr>, st3))))"

section \<open>Reads\<close>

definition get_msg :: "string \<Rightarrow> qstore \<Rightarrow> queue_message option result" where
  "get_msg mid st =
     (case fetchone (\<lambda>m. qm_msg_id m = mid) (q_msgs st) of
        None \<Rightarrow> Inr None
      | Some r \<Rightarrow> (case row_to_message r of Inl e \<Rightarrow> Inl e | Inr m \<Rightarrow> Inr (Some m)))"

definition get_by_idempotency_key :: "string \<Rightarrow> qstore \<Rightarrow> queue_message option result" where
  "get_by_idempotency_key key st =
     (case fetchone (\<lambda>m. qm_idempotency_key m = key) (q_msgs st) of
        None \<Rightarrow> Inr None
      | Some r \<Rightarrow> (case row_to_message r of Inl e \<Rightarrow> Inl e | Inr m \<Rightarrow> Inr (Some m)))"

definition attempts_for :: "string \<Rightarrow> qstore \<Rightarrow> delivery_attempt list" where
  "attempts_for mid st =
     sort_key (\<lambda>a. (da_claim_id a, da_carrier a)) (filter (\<lambda>a. da_msg_id a = mid) (q_attempts st))"

definition get_dead_letter :: "string \<Rightarrow> qstore \<Rightarrow> dead_letter option result" where
  "get_dead_letter mid st =
     (case fetchone (\<lambda>d. dl_msg_id d = mid) (q_dead st) of
        None \<Rightarrow> Inr None
      | Some d \<Rightarrow> if dl_mode d = LIVE then Inr (Some d) else Inl ValueError)"

definition all_rows :: "queue_mode option \<Rightarrow> qstore \<Rightarrow> queue_message list result" where
  "all_rows mode st =
     rows_to_messages (sort_key qm_msg_id
       (filter (\<lambda>m. case mode of None \<Rightarrow> True | Some v \<Rightarrow> qm_mode m = v) (q_msgs st)))"

definition count_rows :: "queue_mode option \<Rightarrow> qstore \<Rightarrow> nat" where
  "count_rows mode st =
     rowcount (\<lambda>m. case mode of None \<Rightarrow> True | Some v \<Rightarrow> qm_mode m = v) (q_msgs st)"

section \<open>Writes\<close>

definition attempt_key :: "delivery_attempt \<Rightarrow> string \<times> int \<times> string" where
  "attempt_key a = (da_msg_id a, da_claim_id a, da_carrier a)"

definition record_attempt :: "delivery_attempt \<Rightarrow> qstore \<Rightarrow> qstore" where
  "record_attempt a st = st\<lparr>q_attempts := insert_ignore attempt_key a (q_attempts st)\<rparr>"

definition settle_row :: "msg_state \<Rightarrow> time \<Rightarrow> queue_message \<Rightarrow> queue_message" where
  "settle_row s now m =
     m\<lparr>qm_state := s, qm_terminated_at := Some now, qm_lease_owner := None,
       qm_lease_expires_at := None, qm_held_since := None\<rparr>"

definition settle ::
  "string \<Rightarrow> msg_state \<Rightarrow> time \<Rightarrow> dead_reason option \<Rightarrow> int option \<Rightarrow> qstore \<Rightarrow> bool result \<times> qstore"
where
  "settle mid s now reason attempts st =
     (if s \<notin> set TERMINAL_STATES then (Inl ValueError, st)
      else if s = DEAD \<and> reason = None then (Inl ValueError, st)
      else
        case fetchone (\<lambda>m. qm_msg_id m = mid) (q_msgs st) of
          None \<Rightarrow> (Inr False, st)
        | Some row \<Rightarrow>
            (case row_to_message row of
               Inl e \<Rightarrow> (Inl e, st)
             | Inr m \<Rightarrow>
                 if terminal m then (Inr False, st)
                 else
                   let (m', st') =
                     (case attempts of
                        None \<Rightarrow> (m, st)
                      | Some n \<Rightarrow>
                          (m\<lparr>qm_attempts := n\<rparr>,
                           st\<lparr>q_msgs := update_where (\<lambda>x. qm_msg_id x = mid)
                                (\<lambda>x. x\<lparr>qm_attempts := n\<rparr>) (q_msgs st)\<rparr>)) in
                   case (s, reason) of
                     (DEAD, Some r) \<Rightarrow> (Inr True, kill m' r now st')
                   | _ \<Rightarrow> (Inr True, st'\<lparr>q_msgs := update_where (\<lambda>x. qm_msg_id x = mid)
                            (settle_row s now) (q_msgs st')\<rparr>)))"

definition mark_dialog_hold :: "string \<Rightarrow> time option \<Rightarrow> qstore \<Rightarrow> qstore" where
  "mark_dialog_hold mid held st =
     st\<lparr>q_msgs := update_where (\<lambda>m. qm_msg_id m = mid) (\<lambda>m. m\<lparr>qm_held_since := held\<rparr>)
          (q_msgs st)\<rparr>"

section \<open>The digest\<close>

definition digest_key :: "seat_digest \<Rightarrow> string \<times> int" where
  "digest_key d = (sd_receiver_id d, sd_epoch d)"

text \<open>\<open>open_digest\<close> and \<open>_open_digest_in\<close>: the open epoch with the highest number.\<close>

definition open_digest :: "string \<Rightarrow> qstore \<Rightarrow> seat_digest option" where
  "open_digest receiver st =
     (case rev (sort_key sd_epoch (filter (\<lambda>d. sd_receiver_id d = receiver \<and> sd_open d) (q_digests st)))
      of [] \<Rightarrow> None | d # _ \<Rightarrow> Some d)"

definition next_epoch_in :: "string \<Rightarrow> qstore \<Rightarrow> int" where
  "next_epoch_in receiver st =
     (case sql_max (map sd_epoch (filter (\<lambda>d. sd_receiver_id d = receiver) (q_digests st))) of
        None \<Rightarrow> 0 | Some high \<Rightarrow> high) + 1"

definition new_digest :: "string \<Rightarrow> int \<Rightarrow> string list \<Rightarrow> time \<Rightarrow> seat_digest" where
  "new_digest receiver epoch ids now =
     \<lparr>sd_receiver_id = receiver, sd_epoch = epoch, sd_msg_ids = ids, sd_built_at = now,
      sd_consumed_at = None, sd_consumed_via = None, sd_wake_count = 0\<rparr>"

definition digest_at_key :: "string \<Rightarrow> int \<Rightarrow> seat_digest \<Rightarrow> bool" where
  "digest_at_key receiver epoch d \<longleftrightarrow> sd_receiver_id d = receiver \<and> sd_epoch d = epoch"

definition set_msg_ids :: "string \<Rightarrow> int \<Rightarrow> string list \<Rightarrow> qstore \<Rightarrow> qstore" where
  "set_msg_ids receiver epoch ids st =
     st\<lparr>q_digests := update_where (digest_at_key receiver epoch) (\<lambda>d. d\<lparr>sd_msg_ids := ids\<rparr>)
          (q_digests st)\<rparr>"

text \<open>The three parts of \<open>reparent\<close>: the row moves, the id leaves the old epoch (which closes as
  \<open>abandoned\<close> when it was the last), the id joins the new one.\<close>

definition reparent_row ::
  "(string \<Rightarrow> string) \<Rightarrow> queue_message \<Rightarrow> string \<Rightarrow> string \<Rightarrow> qstore \<Rightarrow> qstore" where
  "reparent_row sha m new_receiver prefix st =
     (let payload = (if prefix \<noteq> [] then prefix @ qm_payload m else qm_payload m) in
      st\<lparr>q_msgs := update_where (\<lambda>x. qm_msg_id x = qm_msg_id m)
           (\<lambda>x. x\<lparr>qm_receiver_id := new_receiver, qm_payload := payload,
                  qm_payload_digest := sha payload\<rparr>) (q_msgs st)\<rparr>)"

definition leave_epoch :: "string \<Rightarrow> string \<Rightarrow> time \<Rightarrow> qstore \<Rightarrow> qstore" where
  "leave_epoch old_receiver mid now st =
     (case open_digest old_receiver st of
        None \<Rightarrow> st
      | Some old \<Rightarrow>
          if mid \<in> set (sd_msg_ids old)
          then let remaining = filter (\<lambda>i. i \<noteq> mid) (sd_msg_ids old) in
            if remaining \<noteq> []
            then set_msg_ids (sd_receiver_id old) (sd_epoch old) remaining st
            else st\<lparr>q_digests := update_where (digest_at_key (sd_receiver_id old) (sd_epoch old))
                      (\<lambda>d. d\<lparr>sd_msg_ids := [], sd_consumed_at := Some now,
                             sd_consumed_via := Some ''abandoned''\<rparr>) (q_digests st)\<rparr>
          else st)"

definition join_epoch :: "string \<Rightarrow> string \<Rightarrow> time \<Rightarrow> qstore \<Rightarrow> qstore" where
  "join_epoch receiver mid now st =
     (case open_digest receiver st of
        None \<Rightarrow> st\<lparr>q_digests := q_digests st @ [new_digest receiver (next_epoch_in receiver st) [mid] now]\<rparr>
      | Some new \<Rightarrow>
          if mid \<notin> set (sd_msg_ids new)
          then set_msg_ids (sd_receiver_id new) (sd_epoch new) (sd_msg_ids new @ [mid]) st
          else st)"

definition reparent ::
  "(string \<Rightarrow> string) \<Rightarrow> string \<Rightarrow> string \<Rightarrow> time \<Rightarrow> string \<Rightarrow> qstore \<Rightarrow> bool result \<times> qstore" where
  "reparent sha mid new_receiver now prefix st =
     (case fetchone (\<lambda>m. qm_msg_id m = mid) (q_msgs st) of
        None \<Rightarrow> (Inr False, st)
      | Some row \<Rightarrow>
          (case row_to_message row of
             Inl e \<Rightarrow> (Inl e, st)
           | Inr m \<Rightarrow>
               if terminal m then (Inr False, st)
               else if qm_receiver_id m = new_receiver then (Inr False, st)
               else (Inr True,
                     join_epoch new_receiver mid now
                       (leave_epoch (qm_receiver_id m) mid now
                         (reparent_row sha m new_receiver prefix st)))))"

definition build_digest ::
  "string \<Rightarrow> string list \<Rightarrow> time \<Rightarrow> qstore \<Rightarrow> seat_digest result \<times> qstore" where
  "build_digest receiver ids now st =
     (let st' = st\<lparr>q_digests := q_digests st @ [new_digest receiver (next_epoch_in receiver st) ids now]\<rparr>
      in case open_digest receiver st' of
           None \<Rightarrow> (Inl RuntimeError, st')
         | Some d \<Rightarrow> (Inr d, st'))"

definition digest_at :: "string \<Rightarrow> int \<Rightarrow> qstore \<Rightarrow> seat_digest option" where
  "digest_at receiver epoch st = fetchone (digest_at_key receiver epoch) (q_digests st)"

definition extend_digest ::
  "string \<Rightarrow> int \<Rightarrow> string list \<Rightarrow> time \<Rightarrow> qstore \<Rightarrow> seat_digest option \<times> qstore" where
  "extend_digest receiver epoch ids now st =
     (case fetchone (\<lambda>d. digest_at_key receiver epoch d \<and> sd_open d) (q_digests st) of
        None \<Rightarrow> (None, st)
      | Some d \<Rightarrow>
          (let fresh = filter (\<lambda>i. i \<notin> set (sd_msg_ids d)) ids in
           if fresh = [] then (Some d, st)
           else (Some (d\<lparr>sd_msg_ids := sd_msg_ids d @ fresh\<rparr>),
                 set_msg_ids receiver epoch (sd_msg_ids d @ fresh) st)))"

definition bump_wake_count :: "string \<Rightarrow> int \<Rightarrow> qstore \<Rightarrow> int \<times> qstore" where
  "bump_wake_count receiver epoch st =
     (let P = (\<lambda>d. digest_at_key receiver epoch d \<and> sd_open d) in
      if rowcount P (q_digests st) = 0 then (0, st)
      else
        let st' = st\<lparr>q_digests := update_where P (\<lambda>d. d\<lparr>sd_wake_count := sd_wake_count d + 1\<rparr>)
                       (q_digests st)\<rparr> in
        (case digest_at receiver epoch st' of None \<Rightarrow> 0 | Some d \<Rightarrow> sd_wake_count d, st'))"

definition close_digest :: "string \<Rightarrow> int \<Rightarrow> string \<Rightarrow> time \<Rightarrow> qstore \<Rightarrow> bool \<times> qstore" where
  "close_digest receiver epoch via now st =
     (let P = (\<lambda>d. digest_at_key receiver epoch d \<and> sd_open d) in
      (rowcount P (q_digests st) > 0,
       st\<lparr>q_digests := update_where P
            (\<lambda>d. d\<lparr>sd_consumed_at := Some now, sd_consumed_via := Some via\<rparr>) (q_digests st)\<rparr>))"

definition open_digests :: "qstore \<Rightarrow> seat_digest list" where
  "open_digests st =
     sort_key (\<lambda>d. (sd_built_at d, sd_receiver_id d, sd_epoch d)) (filter sd_open (q_digests st))"

section \<open>What the tick reads\<close>

definition undelivered :: "queue_message \<Rightarrow> bool" where
  "undelivered m \<longleftrightarrow> (qm_state m = READY \<or> qm_state m = LEASED) \<and> qm_mode m = LIVE"

definition first_at :: "queue_message list \<Rightarrow> string \<Rightarrow> time" where
  "first_at ms receiver = Min (qm_created_at ` set (filter (\<lambda>m. qm_receiver_id m = receiver) ms))"

definition ready_receivers :: "qstore \<Rightarrow> string list" where
  "ready_receivers st =
     (let ms = filter undelivered (q_msgs st) in
      sort_key (\<lambda>r. (first_at ms r, r)) (remdups (map qm_receiver_id ms)))"

definition undelivered_ids :: "string \<Rightarrow> qstore \<Rightarrow> string list" where
  "undelivered_ids receiver st =
     map qm_msg_id (sort_key (\<lambda>m. (qm_created_at m, qm_msg_id m))
       (filter (\<lambda>m. qm_receiver_id m = receiver \<and> undelivered m) (q_msgs st)))"

definition senders_of :: "string list \<Rightarrow> qstore \<Rightarrow> string list" where
  "senders_of ids st =
     (if ids = [] then []
      else map qm_sender_id (sort_key (\<lambda>m. (qm_created_at m, qm_msg_id m))
             (filter (\<lambda>m. qm_msg_id m \<in> set ids) (q_msgs st))))"

definition all_terminal :: "string list \<Rightarrow> qstore \<Rightarrow> bool" where
  "all_terminal ids st =
     (if ids = [] then True
      else rowcount (\<lambda>m. qm_msg_id m \<in> set ids \<and> qm_state m \<notin> set TERMINAL_STATES) (q_msgs st) = 0)"

section \<open>Cancelling, surrogate ids, duplicates, acknowledging\<close>

definition cancellable :: "string \<Rightarrow> queue_message \<Rightarrow> bool" where
  "cancellable receiver m \<longleftrightarrow>
     qm_receiver_id m = receiver \<and> qm_state m = READY \<and> qm_cancel_on_complete m \<and> qm_mode m = LIVE"

definition cancel_on_complete :: "string \<Rightarrow> time \<Rightarrow> qstore \<Rightarrow> string list \<times> qstore" where
  "cancel_on_complete receiver now st =
     (let rows = filter (cancellable receiver) (q_msgs st) in
      (map qm_msg_id rows,
       st\<lparr>q_msgs := fold (\<lambda>row. update_where (\<lambda>m. qm_msg_id m = qm_msg_id row \<and> qm_state m = READY)
                        (settle_row SUPERSEDED now)) rows (q_msgs st)\<rparr>))"

text \<open>\<open>inbox\<close> is \<open>MAX(id)\<close> of the legacy table, \<open>None\<close> where that table is absent or empty.\<close>

definition next_surrogate_id :: "int option \<Rightarrow> qstore \<Rightarrow> int" where
  "next_surrogate_id inbox st =
     (let high = (case sql_max (List.map_filter qm_legacy_message_id (q_msgs st)) of
                    None \<Rightarrow> 0 | Some v \<Rightarrow> v);
          high = (case inbox of None \<Rightarrow> high | Some v \<Rightarrow> max high v) in
      high + 1)"

definition find_recent_duplicate ::
  "string \<Rightarrow> string \<Rightarrow> string \<Rightarrow> int \<Rightarrow> time \<Rightarrow> bool \<Rightarrow> int option \<Rightarrow> qstore \<Rightarrow> queue_message option result"
where
  "find_recent_duplicate sender receiver content_hash window_s now park_warm barrier_id st =
     (if park_warm \<or> barrier_id \<noteq> None \<or> content_hash = [] then Inr None
      else
        case sort_key (\<lambda>m. - qm_created_at m)
               (filter (\<lambda>m. qm_sender_id m = sender \<and> qm_receiver_id m = receiver
                   \<and> qm_content_hash m = Some content_hash
                   \<and> now - seconds window_s \<le> qm_created_at m
                   \<and> \<not> qm_park_warm m \<and> qm_barrier_id m = None) (q_msgs st)) of
          [] \<Rightarrow> Inr None
        | r # _ \<Rightarrow> (case row_to_message r of Inl e \<Rightarrow> Inl e | Inr m \<Rightarrow> Inr (Some m)))"

definition pending_for_receiver ::
  "string \<Rightarrow> int \<Rightarrow> int \<Rightarrow> qstore \<Rightarrow> queue_message list result" where
  "pending_for_receiver receiver after_id limit st =
     rows_to_messages (sql_limit limit (sort_key (\<lambda>m. case qm_legacy_message_id m of None \<Rightarrow> 0 | Some i \<Rightarrow> i)
       (filter (\<lambda>m. qm_receiver_id m = receiver \<and> undelivered m
          \<and> (case qm_legacy_message_id m of None \<Rightarrow> False | Some i \<Rightarrow> after_id < i)) (q_msgs st))))"

definition settleable :: "string \<Rightarrow> int \<Rightarrow> queue_message \<Rightarrow> bool" where
  "settleable receiver up_to m \<longleftrightarrow>
     qm_receiver_id m = receiver \<and> qm_mode m = LIVE
     \<and> (case qm_legacy_message_id m of None \<Rightarrow> False | Some i \<Rightarrow> i \<le> up_to)
     \<and> qm_state m \<notin> set TERMINAL_STATES"

definition settle_through :: "string \<Rightarrow> int \<Rightarrow> time \<Rightarrow> qstore \<Rightarrow> string list \<times> qstore" where
  "settle_through receiver up_to now st =
     (let rows = filter (settleable receiver up_to) (q_msgs st) in
      (map qm_msg_id rows,
       st\<lparr>q_msgs := fold (\<lambda>row. update_where (\<lambda>m. qm_msg_id m = qm_msg_id row)
                        (settle_row DELIVERED now)) rows (q_msgs st)\<rparr>))"

section \<open>Retention\<close>

definition prunable_msg :: "time \<Rightarrow> queue_message \<Rightarrow> bool" where
  "prunable_msg horizon m \<longleftrightarrow>
     (case qm_terminated_at m of None \<Rightarrow> False | Some t \<Rightarrow> t < horizon)"

definition prunable_digest :: "time \<Rightarrow> seat_digest \<Rightarrow> bool" where
  "prunable_digest horizon d \<longleftrightarrow>
     (case sd_consumed_at d of None \<Rightarrow> False | Some t \<Rightarrow> t < horizon)"

definition delete_msg :: "string \<Rightarrow> qstore \<Rightarrow> qstore" where
  "delete_msg mid st =
     st\<lparr>q_attempts := filter (\<lambda>a. da_msg_id a \<noteq> mid) (q_attempts st),
        q_dead := filter (\<lambda>d. dl_msg_id d \<noteq> mid) (q_dead st),
        q_msgs := filter (\<lambda>m. qm_msg_id m \<noteq> mid) (q_msgs st)\<rparr>"

fun prune_msgs :: "string set \<Rightarrow> string list \<Rightarrow> nat \<Rightarrow> qstore \<Rightarrow> nat \<times> qstore" where
  "prune_msgs protected [] removed st = (removed, st)"
| "prune_msgs protected (mid # mids) removed st =
     (if mid \<in> protected then prune_msgs protected mids removed st
      else prune_msgs protected mids (removed + 1) (delete_msg mid st))"

fun prune_digests :: "string set \<Rightarrow> seat_digest list \<Rightarrow> nat \<Rightarrow> qstore \<Rightarrow> nat \<times> qstore" where
  "prune_digests protected [] removed st = (removed, st)"
| "prune_digests protected (d # ds) removed st =
     (if \<exists>i \<in> set (sd_msg_ids d). i \<in> protected then prune_digests protected ds removed st
      else prune_digests protected ds (removed + 1)
             (st\<lparr>q_digests := filter (\<lambda>x. \<not> digest_at_key (sd_receiver_id d) (sd_epoch d) x)
                  (q_digests st)\<rparr>))"

definition prune :: "time \<Rightarrow> string set \<Rightarrow> qstore \<Rightarrow> nat \<times> qstore" where
  "prune now protected st =
     (let horizon = now - retention_span;
          (removed, st1) =
            prune_msgs protected (map qm_msg_id (filter (prunable_msg horizon) (q_msgs st))) 0 st in
      prune_digests protected (filter (prunable_digest horizon) (q_digests st1)) removed st1)"

section \<open>Boot: retiring the rows of the old mode\<close>

text \<open>\<open>_retire_shadow_delivery_rows\<close> on the queue's tables; the counts it reports are those of
  messages, dead letters and attempts (\<open>None\<close> where there was nothing to retire).\<close>

definition retire_shadow_delivery_rows :: "qstore \<Rightarrow> (nat \<times> nat \<times> nat) option \<times> qstore" where
  "retire_shadow_delivery_rows st =
     (let n_msg = rowcount (\<lambda>m. qm_mode m \<noteq> LIVE) (q_msgs st);
          n_dead = rowcount (\<lambda>d. dl_mode d \<noteq> LIVE) (q_dead st);
          gone = qm_msg_id ` set (filter (\<lambda>m. qm_mode m \<noteq> LIVE) (q_msgs st))
                 \<union> dl_msg_id ` set (filter (\<lambda>d. dl_mode d \<noteq> LIVE) (q_dead st)) in
      if n_msg = 0 \<and> n_dead = 0 then (None, st)
      else (Some (n_msg, n_dead, rowcount (\<lambda>a. da_msg_id a \<in> gone) (q_attempts st)),
            st\<lparr>q_attempts := filter (\<lambda>a. da_msg_id a \<notin> gone) (q_attempts st),
               q_msgs := filter (\<lambda>m. qm_mode m = LIVE) (q_msgs st),
               q_dead := filter (\<lambda>d. dl_mode d = LIVE) (q_dead st)\<rparr>))"

section \<open>The row updates, field by field\<close>

lemma lease_row_simps [row_simps]:
  "qm_msg_id (lease_row w u m) = qm_msg_id m" "qm_idempotency_key (lease_row w u m) = qm_idempotency_key m"
  "qm_state (lease_row w u m) = LEASED" "qm_mode (lease_row w u m) = qm_mode m"
  "qm_claim_id (lease_row w u m) = qm_claim_id m + 1" "qm_lease_expires_at (lease_row w u m) = Some u"
  "qm_lease_owner (lease_row w u m) = Some w" "qm_terminated_at (lease_row w u m) = qm_terminated_at m"
  "qm_dead_by (lease_row w u m) = qm_dead_by m" "qm_created_at (lease_row w u m) = qm_created_at m"
  "qm_attempts (lease_row w u m) = qm_attempts m" "qm_max_attempts (lease_row w u m) = qm_max_attempts m"
  "qm_available_at (lease_row w u m) = qm_available_at m"
  "qm_held_since (lease_row w u m) = qm_held_since m"
  by (simp_all add: lease_row_def)

lemma settle_row_simps [row_simps]:
  "qm_msg_id (settle_row s n m) = qm_msg_id m" "qm_idempotency_key (settle_row s n m) = qm_idempotency_key m"
  "qm_state (settle_row s n m) = s" "qm_mode (settle_row s n m) = qm_mode m"
  "qm_claim_id (settle_row s n m) = qm_claim_id m" "qm_lease_expires_at (settle_row s n m) = None"
  "qm_lease_owner (settle_row s n m) = None" "qm_terminated_at (settle_row s n m) = Some n"
  "qm_dead_by (settle_row s n m) = qm_dead_by m" "qm_created_at (settle_row s n m) = qm_created_at m"
  "qm_attempts (settle_row s n m) = qm_attempts m" "qm_max_attempts (settle_row s n m) = qm_max_attempts m"
  "qm_available_at (settle_row s n m) = qm_available_at m"
  "qm_held_since (settle_row s n m) = None"
  by (simp_all add: settle_row_def)

lemma ack_row_settle: "ack_row now = settle_row DELIVERED now"
  by (rule ext) (simp add: ack_row_def settle_row_def)

lemma kill_row_simps [row_simps]:
  "qm_msg_id (kill_row n m) = qm_msg_id m" "qm_idempotency_key (kill_row n m) = qm_idempotency_key m"
  "qm_state (kill_row n m) = DEAD" "qm_mode (kill_row n m) = qm_mode m"
  "qm_claim_id (kill_row n m) = qm_claim_id m" "qm_lease_expires_at (kill_row n m) = None"
  "qm_lease_owner (kill_row n m) = None" "qm_terminated_at (kill_row n m) = Some n"
  "qm_dead_by (kill_row n m) = qm_dead_by m" "qm_created_at (kill_row n m) = qm_created_at m"
  "qm_attempts (kill_row n m) = qm_attempts m" "qm_max_attempts (kill_row n m) = qm_max_attempts m"
  "qm_available_at (kill_row n m) = qm_available_at m"
  "qm_held_since (kill_row n m) = qm_held_since m"
  by (simp_all add: kill_row_def)

lemma quarantine_row_simps [row_simps]:
  "qm_msg_id (quarantine_row m x) = qm_msg_id x" "qm_idempotency_key (quarantine_row m x) = qm_idempotency_key x"
  "qm_state (quarantine_row m x) = READY" "qm_mode (quarantine_row m x) = qm_mode x"
  "qm_claim_id (quarantine_row m x) = qm_claim_id x + 1" "qm_lease_expires_at (quarantine_row m x) = None"
  "qm_lease_owner (quarantine_row m x) = None" "qm_terminated_at (quarantine_row m x) = qm_terminated_at x"
  "qm_dead_by (quarantine_row m x) = qm_dead_by x" "qm_created_at (quarantine_row m x) = qm_created_at x"
  "qm_attempts (quarantine_row m x) = qm_attempts x" "qm_max_attempts (quarantine_row m x) = qm_max_attempts x"
  "qm_available_at (quarantine_row m x) = quarantine_until m"
  "qm_held_since (quarantine_row m x) = qm_held_since x"
  by (simp_all add: quarantine_row_def)

lemma reoffer_row_simps [row_simps]:
  "qm_msg_id (reoffer_row s b x) = qm_msg_id x" "qm_idempotency_key (reoffer_row s b x) = qm_idempotency_key x"
  "qm_state (reoffer_row s b x) = READY" "qm_mode (reoffer_row s b x) = qm_mode x"
  "qm_claim_id (reoffer_row s b x) = qm_claim_id x + 1" "qm_lease_expires_at (reoffer_row s b x) = None"
  "qm_lease_owner (reoffer_row s b x) = None" "qm_terminated_at (reoffer_row s b x) = qm_terminated_at x"
  "qm_dead_by (reoffer_row s b x) = qm_dead_by x" "qm_created_at (reoffer_row s b x) = qm_created_at x"
  "qm_attempts (reoffer_row s b x) = qm_attempts x + (if s then 1 else 0)"
  "qm_max_attempts (reoffer_row s b x) = qm_max_attempts x"
  "qm_available_at (reoffer_row s b x) = b" "qm_held_since (reoffer_row s b x) = qm_held_since x"
  by (simp_all add: reoffer_row_def)

lemma new_row_simps [row_simps]:
  "qm_msg_id (new_row sha n i d) = i" "qm_idempotency_key (new_row sha n i d) = ed_idempotency_key d"
  "qm_state (new_row sha n i d) = READY" "qm_mode (new_row sha n i d) = ed_mode d"
  "qm_claim_id (new_row sha n i d) = 0" "qm_lease_expires_at (new_row sha n i d) = None"
  "qm_lease_owner (new_row sha n i d) = None" "qm_terminated_at (new_row sha n i d) = None"
  "qm_created_at (new_row sha n i d) = n" "qm_attempts (new_row sha n i d) = 0"
  "qm_max_attempts (new_row sha n i d) = ed_max_attempts d" "qm_available_at (new_row sha n i d) = n"
  "qm_payload_digest (new_row sha n i d) = sha (ed_payload d)" "qm_held_since (new_row sha n i d) = None"
  "qm_dead_by (new_row sha n i d) =
     compute_dead_by n n (ed_expire_after_s d) (DELIVERY_MAX_LIFETIME_S T0)"
  by (simp_all add: new_row_def)

lemma row_to_message_Inr [simp]: "row_to_message r = Inr m \<longleftrightarrow> qm_mode r = LIVE \<and> m = r"
  by (auto simp: row_to_message_def)

lemma row_to_message_live [simp]: "qm_mode r = LIVE \<Longrightarrow> row_to_message r = Inr r"
  by (simp add: row_to_message_def)

lemma row_to_message_Inl [simp]: "row_to_message r = Inl e \<longleftrightarrow> qm_mode r \<noteq> LIVE \<and> e = ValueError"
  by (auto simp: row_to_message_def)

lemma rows_to_messages_live: "\<forall>r \<in> set rs. qm_mode r = LIVE \<Longrightarrow> rows_to_messages rs = Inr rs"
  by (induction rs) auto

end
