(* ===== verification/Queue_Lifecycle.thy ===== *)
theory Queue_Lifecycle
  imports Queue_Store
begin

text \<open>
  The correctness of the queue store. The row-by-row loops of \<open>claim\<close> and \<open>reclaim\<close> are shown equal
  to one pass over the table; a store invariant is kept by every operation; the operations are the
  rules of a step relation whose reachable states satisfy it; and a relation between a row and what
  it becomes (\<open>row_evolves\<close>) holds along every run. The theorems at the end read off the queue's
  promises: leases are exclusive, fencing tokens do not come back, deadlines never move, endings are
  final, an uncertain submission is never offered again, and no row outlives its deadline.
\<close>

section \<open>The invariant\<close>

definition row_ok :: "queue_message \<Rightarrow> bool" where
  "row_ok m \<longleftrightarrow>
     qm_mode m = LIVE
     \<and> (qm_state m = LEASED \<longleftrightarrow> qm_lease_expires_at m \<noteq> None)
     \<and> (qm_state m = LEASED \<longleftrightarrow> qm_lease_owner m \<noteq> None)
     \<and> (terminal m \<longleftrightarrow> qm_terminated_at m \<noteq> None)
     \<and> 0 \<le> qm_claim_id m
     \<and> 1 \<le> qm_max_attempts m
     \<and> qm_dead_by m \<le> qm_created_at m + lifetime_span
     \<and> (\<forall>t. qm_lease_expires_at m = Some t \<longrightarrow> t < qm_dead_by m + lease_span)"

definition dead_ids :: "qstore \<Rightarrow> string set" where
  "dead_ids st = qm_msg_id ` {m \<in> set (q_msgs st). qm_state m = DEAD}"

definition qstore_ok :: "qstore \<Rightarrow> bool" where
  "qstore_ok st \<longleftrightarrow>
     distinct (map qm_msg_id (q_msgs st))
     \<and> distinct (map qm_idempotency_key (q_msgs st))
     \<and> (\<forall>m \<in> set (q_msgs st). row_ok m)
     \<and> distinct (map attempt_key (q_attempts st))
     \<and> distinct (map dl_msg_id (q_dead st))
     \<and> dl_msg_id ` set (q_dead st) = dead_ids st
     \<and> (\<forall>d \<in> set (q_dead st). dl_mode d = LIVE)
     \<and> distinct (map digest_key (q_digests st))
     \<and> (\<forall>d \<in> set (q_digests st). 1 \<le> sd_epoch d \<and> 0 \<le> sd_wake_count d)"

lemma qstore_okD:
  assumes "qstore_ok st"
  shows "distinct (map qm_msg_id (q_msgs st))" "distinct (map qm_idempotency_key (q_msgs st))"
    "\<And>m. m \<in> set (q_msgs st) \<Longrightarrow> row_ok m" "\<And>m. m \<in> set (q_msgs st) \<Longrightarrow> qm_mode m = LIVE"
    "distinct (map attempt_key (q_attempts st))" "distinct (map dl_msg_id (q_dead st))"
    "dl_msg_id ` set (q_dead st) = dead_ids st" "distinct (map digest_key (q_digests st))"
    "\<And>d. d \<in> set (q_digests st) \<Longrightarrow> 1 \<le> sd_epoch d" "\<And>d. d \<in> set (q_digests st) \<Longrightarrow> 0 \<le> sd_wake_count d"
    "\<And>d. d \<in> set (q_dead st) \<Longrightarrow> dl_mode d = LIVE"
  using assms by (auto simp: qstore_ok_def row_ok_def)

lemma empty_ok: "qstore_ok empty_qstore"
  by (simp add: qstore_ok_def empty_qstore_def dead_ids_def)

section \<open>What a row may become\<close>

text \<open>A row set aside after an uncertain submission: ready, but available only after its deadline.\<close>

definition quarantined :: "queue_message \<Rightarrow> bool" where
  "quarantined m \<longleftrightarrow> qm_state m = READY \<and> qm_dead_by m < qm_available_at m"

definition row_evolves :: "queue_message \<Rightarrow> queue_message \<Rightarrow> bool" where
  "row_evolves m m' \<longleftrightarrow>
     qm_msg_id m' = qm_msg_id m \<and> qm_idempotency_key m' = qm_idempotency_key m
     \<and> qm_dead_by m' = qm_dead_by m \<and> qm_created_at m' = qm_created_at m
     \<and> qm_max_attempts m' = qm_max_attempts m \<and> qm_mode m' = qm_mode m
     \<and> qm_claim_id m \<le> qm_claim_id m'
     \<and> (qm_state m' = LEASED \<and> qm_claim_id m' = qm_claim_id m \<longrightarrow> qm_state m = LEASED)
     \<and> (terminal m \<longrightarrow> qm_state m' = qm_state m \<and> qm_terminated_at m' = qm_terminated_at m)
     \<and> (quarantined m \<longrightarrow> quarantined m' \<or> terminal m')"

lemma row_evolves_refl [simp, intro]: "row_evolves m m"
  by (simp add: row_evolves_def)

lemma row_evolvesD:
  assumes "row_evolves m m'"
  shows "qm_msg_id m' = qm_msg_id m" "qm_idempotency_key m' = qm_idempotency_key m"
    "qm_dead_by m' = qm_dead_by m" "qm_created_at m' = qm_created_at m"
    "qm_max_attempts m' = qm_max_attempts m" "qm_mode m' = qm_mode m"
    "qm_claim_id m \<le> qm_claim_id m'"
    "qm_state m' = LEASED \<Longrightarrow> qm_claim_id m' = qm_claim_id m \<Longrightarrow> qm_state m = LEASED"
    "terminal m \<Longrightarrow> qm_state m' = qm_state m" "terminal m \<Longrightarrow> terminal m'"
    "terminal m \<Longrightarrow> qm_terminated_at m' = qm_terminated_at m"
    "quarantined m \<Longrightarrow> quarantined m' \<or> terminal m'"
  using assms unfolding row_evolves_def terminal_def by simp_all

lemma row_evolves_trans:
  assumes ab: "row_evolves a b" and bc: "row_evolves b c"
  shows "row_evolves a c"
proof -
  have "quarantined a \<Longrightarrow> quarantined c \<or> terminal c"
    using row_evolvesD(10,12)[OF bc] row_evolvesD(12)[OF ab] by blast
  moreover have "qm_state a = LEASED" if "qm_state c = LEASED" "qm_claim_id c = qm_claim_id a"
  proof -
    have "qm_claim_id c = qm_claim_id b" "qm_claim_id b = qm_claim_id a"
      using that row_evolvesD(7)[OF ab] row_evolvesD(7)[OF bc] by simp_all
    then show ?thesis using that row_evolvesD(8)[OF bc] row_evolvesD(8)[OF ab] by simp
  qed
  moreover have "qm_claim_id a \<le> qm_claim_id c"
    using row_evolvesD(7)[OF ab] row_evolvesD(7)[OF bc] by simp
  moreover have "qm_state c = qm_state a \<and> qm_terminated_at c = qm_terminated_at a" if "terminal a"
    using that row_evolvesD(9-11)[OF ab] row_evolvesD(9-11)[OF bc] by simp
  ultimately show ?thesis
    unfolding row_evolves_def using row_evolvesD(1-6)[OF ab] row_evolvesD(1-6)[OF bc] by simp
qed

text \<open>Everything an operation may do to the tables: the invariant is kept and every row left comes
  from a row that was there.\<close>

definition rows_evolve :: "qstore \<Rightarrow> qstore \<Rightarrow> bool" where
  "rows_evolve st st' \<longleftrightarrow> (\<forall>m' \<in> set (q_msgs st'). \<exists>m \<in> set (q_msgs st). row_evolves m m')"

definition good_step :: "qstore \<Rightarrow> qstore \<Rightarrow> bool" where
  "good_step st st' \<longleftrightarrow> qstore_ok st' \<and> rows_evolve st st'"

lemma good_refl: "qstore_ok st \<Longrightarrow> good_step st st"
  by (auto simp: good_step_def rows_evolve_def)

lemma good_trans: "good_step a b \<Longrightarrow> good_step b c \<Longrightarrow> good_step a c"
  unfolding good_step_def rows_evolve_def using row_evolves_trans by meson

lemma good_ok: "good_step st st' \<Longrightarrow> qstore_ok st'"
  by (simp add: good_step_def)

lemma good_map:
  assumes ok: "qstore_ok st"
    and keep: "\<And>m. m \<in> set (q_msgs st) \<Longrightarrow> row_ok m \<Longrightarrow>
      row_ok (f m) \<and> row_evolves m (f m) \<and> (qm_state (f m) = DEAD \<longleftrightarrow> qm_state m = DEAD)"
  shows "good_step st (st\<lparr>q_msgs := map f (q_msgs st)\<rparr>)"
proof -
  have k: "row_ok (f m)" "row_evolves m (f m)" "qm_state (f m) = DEAD \<longleftrightarrow> qm_state m = DEAD"
    "qm_msg_id (f m) = qm_msg_id m" "qm_idempotency_key (f m) = qm_idempotency_key m"
    if "m \<in> set (q_msgs st)" for m
    using keep[OF that qstore_okD(3)[OF ok that]] by (auto simp: row_evolves_def)
  have "map qm_msg_id (map f (q_msgs st)) = map qm_msg_id (q_msgs st)"
    "map qm_idempotency_key (map f (q_msgs st)) = map qm_idempotency_key (q_msgs st)"
    using k by simp_all
  moreover have "dead_ids (st\<lparr>q_msgs := map f (q_msgs st)\<rparr>) = dead_ids st"
    using k by (force simp: dead_ids_def image_iff)
  ultimately show ?thesis
    using ok k by (auto simp: good_step_def rows_evolve_def qstore_ok_def simp del: map_map)
qed

lemma good_update:
  assumes "qstore_ok st"
    and "\<And>m. m \<in> set (q_msgs st) \<Longrightarrow> row_ok m \<Longrightarrow> P m \<Longrightarrow>
      row_ok (f m) \<and> row_evolves m (f m) \<and> (qm_state (f m) = DEAD \<longleftrightarrow> qm_state m = DEAD)"
  shows "good_step st (st\<lparr>q_msgs := update_where P f (q_msgs st)\<rparr>)"
  unfolding update_where_def by (rule good_map[OF assms(1)]) (use assms(2) in auto)

lemma good_digests:
  assumes "qstore_ok st" "distinct (map digest_key ds)"
    "\<forall>d \<in> set ds. 1 \<le> sd_epoch d \<and> 0 \<le> sd_wake_count d"
  shows "good_step st (st\<lparr>q_digests := ds\<rparr>)"
  using assms by (auto simp: good_step_def rows_evolve_def qstore_ok_def dead_ids_def)

lemma good_update_digests:
  assumes ok: "qstore_ok st"
    and "\<And>d. sd_receiver_id (f d) = sd_receiver_id d \<and> sd_epoch (f d) = sd_epoch d
      \<and> (0 \<le> sd_wake_count d \<longrightarrow> 0 \<le> sd_wake_count (f d))"
  shows "good_step st (st\<lparr>q_digests := update_where P f (q_digests st)\<rparr>)"
  by (rule good_digests[OF ok])
    (use ok assms(2) in \<open>auto simp: map_update_where_key digest_key_def set_update_where qstore_ok_def\<close>)

section \<open>The loops as single passes\<close>

lemma claim_loop_eq:
  assumes "distinct (map qm_msg_id ms)" and "distinct (map qm_msg_id rows)"
    and "\<forall>r \<in> set rows. r \<in> set ms \<and> qm_mode r = LIVE \<and> qm_state r = READY"
  shows "claim_loop w u rows claimed ms
    = Inr (claimed @ map (lease_row w u) rows,
           map (\<lambda>m. if m \<in> set rows then lease_row w u m else m) ms)"
  using assms
proof (induction rows arbitrary: claimed ms)
  case Nil
  then show ?case by simp
next
  case (Cons row rows)
  let ?P = "\<lambda>m. qm_msg_id m = qm_msg_id row \<and> qm_state m = READY"
  define ms' where "ms' = update_where ?P (lease_row w u) ms"
  have row: "row \<in> set ms" "qm_mode row = LIVE" "qm_state row = READY"
    using Cons.prems(3) by auto
  have dist: "distinct (map qm_msg_id ms')"
    using Cons.prems(1) by (simp add: ms'_def map_update_where_key row_simps)
  have "lease_row w u row \<in> set ms'"
    using row by (force simp: ms'_def set_update_where)
  then have fetched: "fetchone (\<lambda>m. qm_msg_id m = qm_msg_id row) ms' = Some (lease_row w u row)"
    by (rule fetchone_key_eq[OF dist]) (simp add: row_simps)
  have other: "r \<in> set ms'" if "r \<in> set rows" for r
  proof -
    have "qm_msg_id r \<noteq> qm_msg_id row"
      using that Cons.prems(2) by (metis distinct.simps(2) image_eqI list.set_map list.simps(9))
    then show ?thesis using that Cons.prems(3) by (force simp: ms'_def set_update_where)
  qed
  have IH: "claim_loop w u rows (claimed @ [lease_row w u row]) ms'
    = Inr ((claimed @ [lease_row w u row]) @ map (lease_row w u) rows,
           map (\<lambda>m. if m \<in> set rows then lease_row w u m else m) ms')"
    by (rule Cons.IH[OF dist]) (use Cons.prems other in auto)
  have "map (\<lambda>m. if m \<in> set rows then lease_row w u m else m) ms'
    = map (\<lambda>m. if m \<in> set (row # rows) then lease_row w u m else m) ms"
  proof -
    have "lease_row w u row \<notin> set rows"
      using Cons.prems(3) by (auto simp: row_simps dest: arg_cong[where f = qm_state])
    moreover have "\<not> ?P m" if "m \<in> set ms" "m \<noteq> row" for m
      using that row Cons.prems(1) key_unique by fastforce
    ultimately show ?thesis
      using row by (auto simp: ms'_def update_where_def)
  qed
  then show ?case
    using IH fetched row by (simp add: ms'_def[symmetric] row_simps)
qed

lemma claim_rows_props:
  assumes "distinct (map qm_msg_id ms)"
  shows "set (claim_rows now lim rcv ms) \<subseteq> {m \<in> set ms. claimable now rcv m}"
    and "distinct (map qm_msg_id (claim_rows now lim rcv ms))"
proof -
  let ?rows = "sort_key (\<lambda>m. (qm_available_at m, qm_msg_id m)) (filter (claimable now rcv) ms)"
  show "set (claim_rows now lim rcv ms) \<subseteq> {m \<in> set ms. claimable now rcv m}"
    using set_sql_limit_subset[of lim ?rows] by (auto simp: claim_rows_def)
  have "distinct (map qm_msg_id ?rows)"
    using assms by (auto simp: distinct_map inj_on_def)
  then show "distinct (map qm_msg_id (claim_rows now lim rcv ms))"
    by (simp add: claim_rows_def distinct_map_sql_limit)
qed

lemma claim_eq:
  assumes "distinct (map qm_msg_id (q_msgs st))"
  shows "claim w now lim rcv st =
    (let rows = claim_rows now lim rcv (q_msgs st) in
     (Inr (map (lease_row w (now + lease_span)) rows),
      st\<lparr>q_msgs := map (\<lambda>m. if m \<in> set rows then lease_row w (now + lease_span) m else m) (q_msgs st)\<rparr>))"
proof -
  have "\<forall>r \<in> set (claim_rows now lim rcv (q_msgs st)).
      r \<in> set (q_msgs st) \<and> qm_mode r = LIVE \<and> qm_state r = READY"
    using claim_rows_props(1)[OF assms] by (auto simp: claimable_def)
  from claim_loop_eq[OF assms claim_rows_props(2)[OF assms] this] show ?thesis
    by (simp add: claim_def Let_def)
qed

text \<open>What reclaim does to one row: the lease, then the dialog ceiling, then the two bounds.\<close>

definition expire_row :: "delivery_attempt list \<Rightarrow> time \<Rightarrow> queue_message \<Rightarrow> queue_message" where
  "expire_row atts now m =
     (if expired_lease now m then
        (let outcome = last_outcome_in atts (qm_msg_id m) (qm_claim_id m) in
         if outcome = Some SUBMISSION_UNCERTAIN then quarantine_row m m
         else reoffer_row (spends_attempt outcome) (now + backoff_span) m)
      else m)"

definition reclaim_row :: "delivery_attempt list \<Rightarrow> time \<Rightarrow> queue_message \<Rightarrow> queue_message" where
  "reclaim_row atts now m =
     (let m1 = expire_row atts now m;
          m2 = (if over_ceiling now m1 then kill_row now m1 else m1) in
      if exhausted now m2 then kill_row now m2 else m2)"

lemma expire_row_keys [row_simps]:
  "qm_msg_id (expire_row atts now m) = qm_msg_id m"
  "qm_idempotency_key (expire_row atts now m) = qm_idempotency_key m"
  "qm_mode (expire_row atts now m) = qm_mode m"
  "qm_dead_by (expire_row atts now m) = qm_dead_by m"
  "qm_created_at (expire_row atts now m) = qm_created_at m"
  "qm_max_attempts (expire_row atts now m) = qm_max_attempts m"
  "qm_terminated_at (expire_row atts now m) = qm_terminated_at m"
  "qm_held_since (expire_row atts now m) = qm_held_since m"
  by (simp_all add: expire_row_def Let_def row_simps)

lemma reclaim_row_keys [row_simps]:
  "qm_msg_id (reclaim_row atts now m) = qm_msg_id m"
  "qm_idempotency_key (reclaim_row atts now m) = qm_idempotency_key m"
  "qm_mode (reclaim_row atts now m) = qm_mode m"
  "qm_dead_by (reclaim_row atts now m) = qm_dead_by m"
  "qm_created_at (reclaim_row atts now m) = qm_created_at m"
  "qm_max_attempts (reclaim_row atts now m) = qm_max_attempts m"
  by (simp_all add: reclaim_row_def Let_def row_simps)

definition uncertain :: "delivery_attempt list \<Rightarrow> queue_message \<Rightarrow> bool" where
  "uncertain atts m \<longleftrightarrow>
     last_outcome_in atts (qm_msg_id m) (qm_claim_id m) = Some SUBMISSION_UNCERTAIN"

definition spends :: "delivery_attempt list \<Rightarrow> queue_message \<Rightarrow> bool" where
  "spends atts m \<longleftrightarrow> spends_attempt (last_outcome_in atts (qm_msg_id m) (qm_claim_id m))"

lemma uncertain_not_spends: "uncertain atts m \<Longrightarrow> \<not> spends atts m"
  by (simp add: uncertain_def spends_def)

lemma reclaim_expired_fold:
  assumes "\<forall>r \<in> set rows. qm_mode r = LIVE"
  shows "reclaim_expired atts now rows (a, b, c) ms =
    Inr ((a + length (filter (\<lambda>m. \<not> uncertain atts m) rows),
          b + length (filter (spends atts) rows),
          c + length (filter (uncertain atts) rows)),
         fold (\<lambda>r. update_where (\<lambda>x. qm_msg_id x = qm_msg_id r \<and> qm_state x = LEASED)
                (if uncertain atts r then quarantine_row r
                 else reoffer_row (spends atts r) (now + backoff_span))) rows ms)"
  using assms
proof (induction rows arbitrary: a b c ms)
  case Nil
  then show ?case by simp
next
  case (Cons r rows)
  then show ?case
    by (auto simp: Let_def uncertain_def[symmetric] spends_def[symmetric] dest: uncertain_not_spends)
qed

lemma reclaim_expired_eq:
  assumes "distinct (map qm_msg_id ms)" and "\<forall>r \<in> set ms. qm_mode r = LIVE"
    and rows_def: "rows = filter (expired_lease now) ms"
  shows "reclaim_expired atts now rows (0, 0, 0) ms =
    Inr ((length (filter (\<lambda>m. \<not> uncertain atts m) rows), length (filter (spends atts) rows),
          length (filter (uncertain atts) rows)), map (expire_row atts now) ms)"
proof -
  let ?g = "\<lambda>r. if uncertain atts r then quarantine_row r
                 else reoffer_row (spends atts r) (now + backoff_span)"
  have "fold (\<lambda>r. update_where (\<lambda>x. qm_msg_id x = qm_msg_id r \<and> qm_state x = LEASED) (?g r)) rows ms
    = map (\<lambda>r. if expired_lease now r \<and> qm_state r = LEASED then ?g r r else r) ms"
    unfolding rows_def by (rule fold_update_by_key[OF assms(1)]) (simp add: row_simps)
  also have "\<dots> = map (expire_row atts now) ms"
    by (auto simp: expire_row_def Let_def uncertain_def spends_def expired_lease_def)
  finally show ?thesis
    using assms(2) by (simp add: reclaim_expired_fold rows_def)
qed

lemma reclaim_kill_fold:
  assumes "\<forall>r \<in> set rows. qm_mode r = LIVE"
  shows "reclaim_kill reason now rows dead st =
    Inr (dead @ map (\<lambda>m. mk_dead_row m (reason m)) rows,
         st\<lparr>q_msgs := fold (\<lambda>r. update_where (\<lambda>x. qm_msg_id x = qm_msg_id r) (kill_row now)) rows (q_msgs st),
            q_dead := fold (\<lambda>m. insert_ignore dl_msg_id (mk_dead_letter m (reason m) now)) rows (q_dead st)\<rparr>)"
  using assms
proof (induction rows arbitrary: dead st)
  case Nil
  then show ?case by simp
next
  case (Cons r rows)
  then show ?case by (simp add: kill_def)
qed

lemma reclaim_kill_eq:
  assumes "distinct (map qm_msg_id (q_msgs st))" and "\<forall>r \<in> set (q_msgs st). qm_mode r = LIVE"
  shows "reclaim_kill reason now (filter P (q_msgs st)) dead st =
    Inr (dead @ map (\<lambda>m. mk_dead_row m (reason m)) (filter P (q_msgs st)),
         st\<lparr>q_msgs := map (\<lambda>m. if P m then kill_row now m else m) (q_msgs st),
            q_dead := fold (\<lambda>m. insert_ignore dl_msg_id (mk_dead_letter m (reason m) now))
                        (filter P (q_msgs st)) (q_dead st)\<rparr>)"
proof -
  have "fold (\<lambda>r. update_where (\<lambda>x. qm_msg_id x = qm_msg_id r \<and> True) (kill_row now))
          (filter P (q_msgs st)) (q_msgs st)
    = map (\<lambda>r. if P r \<and> True then kill_row now r else r) (q_msgs st)"
    by (rule fold_update_by_key[OF assms(1)]) (simp add: row_simps)
  then show ?thesis using assms(2) by (simp add: reclaim_kill_fold)
qed

section \<open>Each row update is a legal move\<close>

lemmas row_move_defs = row_evolves_def row_ok_def terminal_iff quarantined_def

lemma lease_moves:
  assumes "row_ok m" "claimable now rcv m"
  shows "row_ok (lease_row w (now + lease_span) m) \<and> row_evolves m (lease_row w (now + lease_span) m)
    \<and> (qm_state (lease_row w (now + lease_span) m) = DEAD \<longleftrightarrow> qm_state m = DEAD)"
  using assms by (simp add: row_move_defs claimable_def row_simps)

lemma settle_moves:
  assumes "row_ok m" "\<not> terminal m" "s = DELIVERED \<or> s = SUPERSEDED"
  shows "row_ok (settle_row s now m) \<and> row_evolves m (settle_row s now m)
    \<and> (qm_state (settle_row s now m) = DEAD \<longleftrightarrow> qm_state m = DEAD)"
  using assms by (auto simp: row_move_defs row_simps)

lemma kill_moves:
  assumes "row_ok m" "\<not> terminal m"
  shows "row_ok (kill_row now m)" and "row_evolves m (kill_row now m)"
  using assms by (auto simp: row_move_defs row_simps)

lemma expire_moves:
  assumes "row_ok m"
  shows "row_ok (expire_row atts now m)" and "row_evolves m (expire_row atts now m)"
    and "qm_state (expire_row atts now m) = DEAD \<longleftrightarrow> qm_state m = DEAD"
    and "terminal (expire_row atts now m) \<longleftrightarrow> terminal m"
  using assms
  by (auto simp: row_move_defs expire_row_def Let_def expired_lease_def row_simps)

lemma over_ceiling_open: "over_ceiling now m \<Longrightarrow> \<not> terminal m"
  by (auto simp: over_ceiling_def terminal_iff)

lemma exhausted_open: "exhausted now m \<Longrightarrow> \<not> terminal m"
  by (auto simp: exhausted_def terminal_iff)

lemma reclaim_moves:
  assumes "row_ok m"
  shows "row_ok (reclaim_row atts now m)" and "row_evolves m (reclaim_row atts now m)"
proof -
  let ?m1 = "expire_row atts now m"
  let ?m2 = "if over_ceiling now ?m1 then kill_row now ?m1 else ?m1"
  have 1: "row_ok ?m1" "row_evolves m ?m1" using expire_moves[OF assms] by auto
  have 2: "row_ok ?m2" "row_evolves ?m1 ?m2"
    using 1 over_ceiling_open kill_moves[OF 1(1)] by auto
  have 3: "row_ok (reclaim_row atts now m)" "row_evolves ?m2 (reclaim_row atts now m)"
    using 2 exhausted_open kill_moves[OF 2(1)] unfolding reclaim_row_def Let_def by auto
  show "row_ok (reclaim_row atts now m)" using 3(1) .
  show "row_evolves m (reclaim_row atts now m)"
    using 1(2) 2(2) 3(2) row_evolves_trans by blast
qed

section \<open>reclaim as one pass\<close>

text \<open>The specification of \<open>reclaim\<close>: every row by itself, the counters by counting, the dead letters
  in the order of the two sweeps.\<close>

definition held_rows :: "time \<Rightarrow> qstore \<Rightarrow> queue_message list" where
  "held_rows now st = filter (over_ceiling now) (map (expire_row (q_attempts st) now) (q_msgs st))"

definition spent_rows :: "time \<Rightarrow> qstore \<Rightarrow> queue_message list" where
  "spent_rows now st =
     filter (exhausted now)
       (map (\<lambda>m. if over_ceiling now m then kill_row now m else m)
         (map (expire_row (q_attempts st) now) (q_msgs st)))"

definition reclaim_spec :: "time \<Rightarrow> qstore \<Rightarrow> reclaim_result result \<times> qstore" where
  "reclaim_spec now st =
     (let atts = q_attempts st; expired = filter (expired_lease now) (q_msgs st) in
      (Inr \<lparr>rc_reoffered = length (filter (\<lambda>m. \<not> uncertain atts m) expired),
            rc_incremented = length (filter (spends atts) expired),
            rc_quarantined = length (filter (uncertain atts) expired),
            rc_dead = map (\<lambda>m. mk_dead_row m VETO_CEILING) (held_rows now st)
              @ map (\<lambda>m. mk_dead_row m (dead_reason_for m)) (spent_rows now st)\<rparr>,
       st\<lparr>q_msgs := map (reclaim_row atts now) (q_msgs st),
          q_dead := fold (insert_ignore dl_msg_id)
            (map (\<lambda>m. mk_dead_letter m VETO_CEILING now) (held_rows now st)
             @ map (\<lambda>m. mk_dead_letter m (dead_reason_for m) now) (spent_rows now st)) (q_dead st)\<rparr>))"

lemma fold_map_arg: "fold (\<lambda>m. f (g m)) xs = fold f (map g xs)"
  by (induction xs) auto

lemma reclaim_eq:
  assumes dist: "distinct (map qm_msg_id (q_msgs st))" and live: "\<forall>m \<in> set (q_msgs st). qm_mode m = LIVE"
  shows "reclaim now st = reclaim_spec now st"
proof -
  let ?atts = "q_attempts st"
  let ?ms1 = "map (expire_row ?atts now) (q_msgs st)"
  let ?kill = "\<lambda>m. if over_ceiling now m then kill_row now m else m"
  let ?st1 = "st\<lparr>q_msgs := ?ms1\<rparr>"
  let ?st2 = "?st1\<lparr>q_msgs := map ?kill ?ms1,
      q_dead := fold (\<lambda>m. insert_ignore dl_msg_id (mk_dead_letter m VETO_CEILING now))
                  (filter (over_ceiling now) ?ms1) (q_dead st)\<rparr>"
  have d1: "distinct (map qm_msg_id ?ms1)" and l1: "\<forall>m \<in> set ?ms1. qm_mode m = LIVE"
    using dist live by (simp_all add: row_simps o_def)
  have d2: "distinct (map qm_msg_id (map ?kill ?ms1))"
    using dist by (simp add: row_simps o_def if_distrib cong: if_cong)
  have l2: "\<forall>m \<in> set (map ?kill ?ms1). qm_mode m = LIVE"
    using l1 by (auto simp: row_simps)
  have k1: "reclaim_kill (\<lambda>_. VETO_CEILING) now (filter (over_ceiling now) ?ms1) [] ?st1
      = Inr (map (\<lambda>m. mk_dead_row m VETO_CEILING) (held_rows now st), ?st2)"
    using reclaim_kill_eq[of ?st1 "\<lambda>_. VETO_CEILING" now "over_ceiling now" "[]"] d1 l1
    by (simp add: held_rows_def)
  have k2: "reclaim_kill dead_reason_for now (filter (exhausted now) (map ?kill ?ms1)) dead ?st2
      = Inr (dead @ map (\<lambda>m. mk_dead_row m (dead_reason_for m)) (spent_rows now st),
          ?st2\<lparr>q_msgs := map (\<lambda>m. if exhausted now m then kill_row now m else m) (map ?kill ?ms1),
            q_dead := fold (\<lambda>m. insert_ignore dl_msg_id (mk_dead_letter m (dead_reason_for m) now))
              (spent_rows now st) (q_dead ?st2)\<rparr>)" for dead
    using reclaim_kill_eq[of ?st2 dead_reason_for now "exhausted now" dead] d2 l2
    by (simp add: spent_rows_def)
  have rows: "map (\<lambda>m. if exhausted now m then kill_row now m else m) (map ?kill ?ms1)
      = map (reclaim_row ?atts now) (q_msgs st)"
    by (simp add: reclaim_row_def Let_def)
  show ?thesis
    unfolding reclaim_def reclaim_spec_def Let_def reclaim_expired_eq[OF dist live refl]
    using k1 k2 rows by (simp add: held_rows_def[symmetric] fold_map_arg[symmetric] o_def)
qed

text \<open>A row dies in \<open>reclaim\<close> exactly when one of the two sweeps selects it.\<close>

definition swept :: "delivery_attempt list \<Rightarrow> time \<Rightarrow> queue_message \<Rightarrow> bool" where
  "swept atts now m \<longleftrightarrow>
     over_ceiling now (expire_row atts now m) \<or> exhausted now (expire_row atts now m)"

lemma exhausted_kill [simp]: "\<not> exhausted now (kill_row now' m)"
  by (simp add: exhausted_def row_simps)

lemma reclaim_row_swept:
  "reclaim_row atts now m =
     (if swept atts now m then kill_row now (expire_row atts now m) else expire_row atts now m)"
  by (simp add: reclaim_row_def swept_def Let_def)

lemma reclaim_row_dead:
  "row_ok m \<Longrightarrow> qm_state (reclaim_row atts now m) = DEAD \<longleftrightarrow> qm_state m = DEAD \<or> swept atts now m"
  by (simp add: reclaim_row_swept row_simps expire_moves(3))

text \<open>Nothing is left for a second pass at the same instant.\<close>

lemma reclaim_row_clean:
  "\<not> expired_lease now (reclaim_row atts now m)" "\<not> over_ceiling now (reclaim_row atts now m)"
  "\<not> exhausted now (reclaim_row atts now m)"
proof -
  have "\<not> expired_lease now (expire_row atts now m)"
    by (simp add: expire_row_def Let_def expired_lease_def row_simps)
  then show "\<not> expired_lease now (reclaim_row atts now m)"
    by (simp add: reclaim_row_swept expired_lease_def row_simps)
  show "\<not> over_ceiling now (reclaim_row atts now m)" "\<not> exhausted now (reclaim_row atts now m)"
    by (simp_all add: reclaim_row_swept swept_def) (simp add: over_ceiling_def row_simps)
qed

text \<open>One lease after its deadline a row has ended.\<close>

lemma reclaim_row_overdue:
  assumes "row_ok m" "qm_dead_by m + lease_span \<le> now"
  shows "terminal (reclaim_row atts now m)"
proof (cases "terminal m")
  case True
  then show ?thesis using row_evolvesD(10)[OF reclaim_moves(2)[OF assms(1)]] by simp
next
  case False
  have "qm_state (expire_row atts now m) = READY"
    using False assms by (auto simp: expire_row_def Let_def expired_lease_def row_ok_def terminal_iff
        row_simps split: option.splits)
  moreover have "qm_dead_by m \<le> now" using assms(2) by (simp add: spans)
  ultimately have "exhausted now (expire_row atts now m)" by (simp add: exhausted_def row_simps)
  then show ?thesis by (simp add: reclaim_row_swept swept_def terminal_iff row_simps)
qed

lemma swept_ids:
  "qm_msg_id ` set (held_rows now st) \<union> qm_msg_id ` set (spent_rows now st)
    = qm_msg_id ` {m \<in> set (q_msgs st). swept (q_attempts st) now m}"
proof -
  have "qm_msg_id ` set (held_rows now st)
      = qm_msg_id ` {m \<in> set (q_msgs st). over_ceiling now (expire_row (q_attempts st) now m)}"
    by (force simp: held_rows_def row_simps image_iff)
  moreover have "qm_msg_id ` set (spent_rows now st)
      = qm_msg_id ` {m \<in> set (q_msgs st). \<not> over_ceiling now (expire_row (q_attempts st) now m)
          \<and> exhausted now (expire_row (q_attempts st) now m)}"
    by (force simp: spent_rows_def row_simps image_iff split: if_splits)
  ultimately show ?thesis unfolding swept_def by blast
qed

lemma reclaim_dead_ids:
  assumes ok: "qstore_ok st"
  shows "dead_ids (snd (reclaim_spec now st))
    = dead_ids st \<union> qm_msg_id ` {m \<in> set (q_msgs st). swept (q_attempts st) now m}"
proof -
  let ?r = "reclaim_row (q_attempts st) now"
  have "{m \<in> set (q_msgs (snd (reclaim_spec now st))). qm_state m = DEAD}
      = ?r ` {m \<in> set (q_msgs st). qm_state m = DEAD \<or> swept (q_attempts st) now m}"
    using qstore_okD(3)[OF ok] by (auto simp: reclaim_spec_def Let_def reclaim_row_dead)
  then show ?thesis
    by (simp only: dead_ids_def image_image reclaim_row_keys) blast
qed

lemma set_fold_insert_ignore: "set (fold (insert_ignore key) xs rs) \<subseteq> set xs \<union> set rs"
  by (induction xs arbitrary: rs) (use set_insert_ignore in fastforce)+

lemma fold_insert_ignore_keys:
  "key ` set (fold (insert_ignore key) xs rs) = key ` set xs \<union> key ` set rs"
  by (induction xs arbitrary: rs) (auto simp: insert_ignore_keys)

lemma distinct_fold_insert_ignore:
  "distinct (map key rs) \<Longrightarrow> distinct (map key (fold (insert_ignore key) xs rs))"
  by (induction xs arbitrary: rs) (auto simp: distinct_insert_ignore)

lemma good_reclaim [inv_intros]:
  assumes ok: "qstore_ok st"
  shows "good_step st (snd (reclaim now st))"
proof -
  let ?st' = "snd (reclaim_spec now st)"
  let ?r = "reclaim_row (q_attempts st) now"
  have msgs: "q_msgs ?st' = map ?r (q_msgs st)"
    and rest: "q_attempts ?st' = q_attempts st" "q_digests ?st' = q_digests st"
    by (simp_all add: reclaim_spec_def Let_def)
  have row: "row_ok (?r m)" "row_evolves m (?r m)" if "m \<in> set (q_msgs st)" for m
    using reclaim_moves qstore_okD(3)[OF ok that] by auto
  have "dead_ids ?st' = dead_ids st \<union> qm_msg_id ` {m \<in> set (q_msgs st). swept (q_attempts st) now m}"
    by (rule reclaim_dead_ids[OF ok])
  moreover have "dl_msg_id ` set (q_dead ?st') = dl_msg_id ` set (q_dead st)
      \<union> (qm_msg_id ` set (held_rows now st) \<union> qm_msg_id ` set (spent_rows now st))"
    by (simp add: reclaim_spec_def Let_def fold_insert_ignore_keys image_Un image_image mk_dead_letter_def)
      blast
  ultimately have ids: "dl_msg_id ` set (q_dead ?st') = dead_ids ?st'"
    using qstore_okD(7)[OF ok] by (simp add: swept_ids)
  have "set (q_dead ?st') \<subseteq> (\<lambda>m. mk_dead_letter m VETO_CEILING now) ` set (held_rows now st)
      \<union> (\<lambda>m. mk_dead_letter m (dead_reason_for m) now) ` set (spent_rows now st) \<union> set (q_dead st)"
    using set_fold_insert_ignore[of dl_msg_id "map (\<lambda>m. mk_dead_letter m VETO_CEILING now) (held_rows now st)
      @ map (\<lambda>m. mk_dead_letter m (dead_reason_for m) now) (spent_rows now st)" "q_dead st"]
    by (simp add: reclaim_spec_def Let_def)
  moreover have "qm_mode m = LIVE" if "m \<in> set (held_rows now st) \<union> set (spent_rows now st)" for m
    using that qstore_okD(4)[OF ok] by (auto simp: held_rows_def spent_rows_def row_simps split: if_splits)
  ultimately have live: "\<forall>d \<in> set (q_dead ?st'). dl_mode d = LIVE"
    using qstore_okD(11)[OF ok] by (fastforce simp: mk_dead_letter_def)
  have "distinct (map dl_msg_id (q_dead ?st'))"
    using qstore_okD(6)[OF ok] by (simp add: reclaim_spec_def Let_def distinct_fold_insert_ignore)
  with ids live row(1) ok msgs rest have "qstore_ok ?st'"
    by (auto simp: qstore_ok_def row_simps o_def)
  moreover have "rows_evolve st ?st'"
    using row(2) msgs by (auto simp: rows_evolve_def)
  ultimately have "good_step st ?st'" by (simp add: good_step_def)
  then show ?thesis
    using reclaim_eq qstore_okD(1,4)[OF ok] by simp
qed

section \<open>Every operation is a good step\<close>

lemma good_claim [inv_intros]:
  assumes ok: "qstore_ok st"
  shows "good_step st (snd (claim w now lim rcv st))"
proof -
  let ?rows = "claim_rows now lim rcv (q_msgs st)"
  have "good_step st (st\<lparr>q_msgs :=
      map (\<lambda>m. if m \<in> set ?rows then lease_row w (now + lease_span) m else m) (q_msgs st)\<rparr>)"
  proof (rule good_map[OF ok])
    fix m assume "m \<in> set (q_msgs st)" "row_ok m"
    moreover have "claimable now rcv m" if "m \<in> set ?rows"
      using that claim_rows_props(1)[OF qstore_okD(1)[OF ok]] by auto
    ultimately show "row_ok (if m \<in> set ?rows then lease_row w (now + lease_span) m else m)
      \<and> row_evolves m (if m \<in> set ?rows then lease_row w (now + lease_span) m else m)
      \<and> (qm_state (if m \<in> set ?rows then lease_row w (now + lease_span) m else m) = DEAD
          \<longleftrightarrow> qm_state m = DEAD)"
      using lease_moves[of m now rcv w] by (cases "m \<in> set ?rows") auto
  qed
  then show ?thesis by (simp add: claim_eq[OF qstore_okD(1)[OF ok]] Let_def)
qed

lemma good_ack [inv_intros]: "qstore_ok st \<Longrightarrow> good_step st (snd (ack mid c now st))"
  unfolding ack_def snd_conv ack_row_settle
  by (erule good_update) (rule settle_moves, auto simp: ackable_def terminal_iff)

lemma good_record_attempt [inv_intros]: "qstore_ok st \<Longrightarrow> good_step st (record_attempt a st)"
  by (auto simp: good_step_def rows_evolve_def record_attempt_def qstore_ok_def dead_ids_def
      distinct_insert_ignore)

lemma good_mark_dialog_hold [inv_intros]: "qstore_ok st \<Longrightarrow> good_step st (mark_dialog_hold mid h st)"
  unfolding mark_dialog_hold_def
  by (erule good_update) (auto simp: row_move_defs)

lemma good_set_attempts:
  "qstore_ok st \<Longrightarrow> good_step st (st\<lparr>q_msgs := update_where P (\<lambda>x. x\<lparr>qm_attempts := n\<rparr>) (q_msgs st)\<rparr>)"
  by (erule good_update) (auto simp: row_move_defs)

lemma good_kill:
  assumes ok: "qstore_ok st" and m: "m \<in> set (q_msgs st)" "\<not> terminal m"
  shows "good_step st (kill m r now st)"
proof -
  let ?f = "\<lambda>x. if qm_msg_id x = qm_msg_id m then kill_row now x else x"
  let ?ms = "update_where (\<lambda>x. qm_msg_id x = qm_msg_id m) (kill_row now) (q_msgs st)"
  have only: "x = m" if "x \<in> set (q_msgs st)" "qm_msg_id x = qm_msg_id m" for x
    using that m key_unique[OF qstore_okD(1)[OF ok]] by blast
  have row: "row_ok (?f x)" "row_evolves x (?f x)" if "x \<in> set (q_msgs st)" for x
    using that only[of x] m(2) kill_moves qstore_okD(3)[OF ok that] by auto
  have ms: "set ?ms = ?f ` set (q_msgs st)" by (simp add: set_update_where)
  have sel: "{x \<in> set ?ms. qm_state x = DEAD} = ?f ` {x \<in> set (q_msgs st). qm_state x = DEAD \<or> x = m}"
    unfolding ms using only by (auto simp: row_simps)
  have "qm_msg_id \<circ> ?f = qm_msg_id" by (rule ext) (simp add: row_simps)
  then have keys: "qm_msg_id ` ?f ` S = qm_msg_id ` S" for S by (simp only: image_comp)
  have "dead_ids (kill m r now st) = qm_msg_id ` {x \<in> set ?ms. qm_state x = DEAD}"
    by (simp add: dead_ids_def kill_def)
  also have "\<dots> = qm_msg_id ` {x \<in> set (q_msgs st). qm_state x = DEAD \<or> x = m}"
    unfolding sel by (rule keys)
  also have "\<dots> = insert (qm_msg_id m) (dead_ids st)"
    using m(1) unfolding dead_ids_def by blast
  finally have dead: "dead_ids (kill m r now st) = insert (qm_msg_id m) (dead_ids st)" .
  have "dl_mode d = LIVE" if "d \<in> set (q_dead (kill m r now st))" for d
    using that set_insert_ignore qstore_okD(4)[OF ok m(1)] qstore_okD(11)[OF ok]
    by (fastforce simp: kill_def mk_dead_letter_def)
  moreover have "\<forall>x \<in> set ?ms. row_ok x" unfolding ms using row(1) by blast
  ultimately have "qstore_ok (kill m r now st)"
    using dead ok by (simp add: qstore_ok_def kill_def map_update_where_key row_simps
        distinct_insert_ignore insert_ignore_keys mk_dead_letter_def)
  moreover have "\<forall>y \<in> set ?ms. \<exists>x \<in> set (q_msgs st). row_evolves x y"
    unfolding ms using row(2) by blast
  then have "rows_evolve st (kill m r now st)"
    by (simp add: rows_evolve_def kill_def)
  ultimately show ?thesis by (simp add: good_step_def)
qed

lemma good_settle [inv_intros]:
  assumes ok: "qstore_ok st"
  shows "good_step st (snd (settle mid s now reason attempts st))"
proof (cases "fetchone (\<lambda>m. qm_msg_id m = mid) (q_msgs st)")
  case None
  then show ?thesis using ok by (simp add: settle_def good_refl del: fetchone_None_iff)
next
  case (Some m)
  then have m: "m \<in> set (q_msgs st)" "qm_msg_id m = mid" by (auto dest: fetchone_SomeD)
  show ?thesis
  proof (cases "terminal m \<or> s \<notin> set TERMINAL_STATES \<or> (s = DEAD \<and> reason = None)")
    case True
    then show ?thesis using ok Some qstore_okD(4)[OF ok m(1)] by (auto simp: settle_def good_refl)
  next
    case False
    let ?set = "\<lambda>n x. x\<lparr>qm_attempts := n\<rparr> :: queue_message"
    define m' where "m' = (case attempts of None \<Rightarrow> m | Some n \<Rightarrow> ?set n m)"
    define st' where "st' = (case attempts of None \<Rightarrow> st
      | Some n \<Rightarrow> st\<lparr>q_msgs := update_where (\<lambda>x. qm_msg_id x = mid) (?set n) (q_msgs st)\<rparr>)"
    have res: "snd (settle mid s now reason attempts st) = (case (s, reason) of
        (DEAD, Some r) \<Rightarrow> kill m' r now st'
      | _ \<Rightarrow> st'\<lparr>q_msgs := update_where (\<lambda>x. qm_msg_id x = mid) (settle_row s now) (q_msgs st')\<rparr>)"
      using False Some qstore_okD(4)[OF ok m(1)]
      by (auto simp: settle_def m'_def st'_def split: option.splits msg_state.splits)
    have g: "good_step st st'"
      using ok good_set_attempts[OF ok] by (auto simp: st'_def good_refl split: option.splits)
    have m': "m' \<in> set (q_msgs st')" "\<not> terminal m'" "qm_msg_id m' = mid"
      using m False by (auto simp: m'_def st'_def set_update_where terminal_def split: option.splits)
    have "good_step st' (snd (settle mid s now reason attempts st))"
    proof (cases "s = DEAD")
      case True
      with False obtain r where "reason = Some r" by auto
      with True show ?thesis unfolding res using good_kill[OF good_ok[OF g] m'(1,2)] by simp
    next
      case ns: False
      have "good_step st' (st'\<lparr>q_msgs := update_where (\<lambda>x. qm_msg_id x = mid) (settle_row s now) (q_msgs st')\<rparr>)"
      proof (rule good_update[OF good_ok[OF g]])
        fix x assume x: "x \<in> set (q_msgs st')" "row_ok x" "qm_msg_id x = mid"
        then have "x = m'" using m' key_unique[OF qstore_okD(1)[OF good_ok[OF g]]] by metis
        then show "row_ok (settle_row s now x) \<and> row_evolves x (settle_row s now x)
            \<and> (qm_state (settle_row s now x) = DEAD \<longleftrightarrow> qm_state x = DEAD)"
          using x m'(2) False ns by (intro settle_moves) (auto simp: TERMINAL_STATES_def)
      qed
      then show ?thesis unfolding res using ns by (cases s; simp)
    qed
    with g show ?thesis by (rule good_trans)
  qed
qed

lemma cancel_on_complete_eq:
  assumes "distinct (map qm_msg_id (q_msgs st))"
  shows "snd (cancel_on_complete rcv now st) =
    st\<lparr>q_msgs := update_where (cancellable rcv) (settle_row SUPERSEDED now) (q_msgs st)\<rparr>"
proof -
  have "cancellable rcv m \<and> qm_state m = READY \<longleftrightarrow> cancellable rcv m" for m
    by (auto simp: cancellable_def)
  then show ?thesis
    using fold_update_by_key[OF assms, where g = "\<lambda>_. settle_row SUPERSEDED now"
        and G = "\<lambda>m. qm_state m = READY" and P = "cancellable rcv"]
    by (simp add: cancel_on_complete_def Let_def update_where_def row_simps)
qed

lemma good_cancel_on_complete [inv_intros]:
  "qstore_ok st \<Longrightarrow> good_step st (snd (cancel_on_complete rcv now st))"
  unfolding cancel_on_complete_eq[OF qstore_okD(1)]
  by (erule good_update) (rule settle_moves, auto simp: cancellable_def terminal_iff)

lemma settle_through_eq:
  assumes "distinct (map qm_msg_id (q_msgs st))"
  shows "snd (settle_through rcv n now st) =
    st\<lparr>q_msgs := update_where (settleable rcv n) (settle_row DELIVERED now) (q_msgs st)\<rparr>"
  using fold_update_by_key[OF assms, where g = "\<lambda>_. settle_row DELIVERED now" and G = "\<lambda>_. True"
      and P = "settleable rcv n"]
  by (simp add: settle_through_def Let_def update_where_def row_simps)

lemma good_settle_through [inv_intros]:
  "qstore_ok st \<Longrightarrow> good_step st (snd (settle_through rcv n now st))"
  unfolding settle_through_eq[OF qstore_okD(1)]
  by (erule good_update) (rule settle_moves, auto simp: settleable_def terminal_def)

lemma good_reparent_row: "qstore_ok st \<Longrightarrow> good_step st (reparent_row sha m r p st)"
  unfolding reparent_row_def Let_def
  by (erule good_update) (auto simp: row_move_defs)

lemma good_set_msg_ids: "qstore_ok st \<Longrightarrow> good_step st (set_msg_ids r e ids st)"
  unfolding set_msg_ids_def by (erule good_update_digests) simp

lemma next_epoch_fresh:
  assumes "d \<in> set (q_digests st)" "sd_receiver_id d = r"
  shows "sd_epoch d < next_epoch_in r st"
proof -
  let ?es = "map sd_epoch (filter (\<lambda>d. sd_receiver_id d = r) (q_digests st))"
  have "sd_epoch d \<in> set ?es" using assms by auto
  then have "?es \<noteq> []" "sd_epoch d \<le> Max (set ?es)" by (auto simp del: set_map)
  then show ?thesis by (simp add: next_epoch_in_def sql_max_def)
qed

lemma next_epoch_pos:
  assumes "\<forall>d \<in> set (q_digests st). 1 \<le> sd_epoch d"
  shows "1 \<le> next_epoch_in r st"
proof (cases "\<exists>d \<in> set (q_digests st). sd_receiver_id d = r")
  case True
  then show ?thesis using assms next_epoch_fresh by force
next
  case False
  then have "filter (\<lambda>d. sd_receiver_id d = r) (q_digests st) = []" by (auto simp: filter_empty_conv)
  then show ?thesis by (simp add: next_epoch_in_def sql_max_def)
qed

lemma good_new_digest:
  assumes ok: "qstore_ok st"
  shows "good_step st (st\<lparr>q_digests := q_digests st @ [new_digest r (next_epoch_in r st) ids now]\<rparr>)"
proof (rule good_digests[OF ok])
  have "(r, next_epoch_in r st) \<notin> digest_key ` set (q_digests st)"
    using next_epoch_fresh by (fastforce simp: digest_key_def)
  then show "distinct (map digest_key (q_digests st @ [new_digest r (next_epoch_in r st) ids now]))"
    using qstore_okD(8)[OF ok] by (simp add: new_digest_def digest_key_def)
  show "\<forall>d \<in> set (q_digests st @ [new_digest r (next_epoch_in r st) ids now]).
      1 \<le> sd_epoch d \<and> 0 \<le> sd_wake_count d"
    using qstore_okD(9,10)[OF ok] next_epoch_pos by (auto simp: new_digest_def)
qed

lemma good_leave_epoch: "qstore_ok st \<Longrightarrow> good_step st (leave_epoch r i now st)"
  by (auto simp: leave_epoch_def Let_def good_refl
      intro!: good_set_msg_ids good_update_digests split: option.splits)

lemma good_join_epoch: "qstore_ok st \<Longrightarrow> good_step st (join_epoch r i now st)"
  by (auto simp: join_epoch_def good_refl intro!: good_set_msg_ids good_new_digest split: option.splits)

lemma good_reparent [inv_intros]:
  assumes ok: "qstore_ok st"
  shows "good_step st (snd (reparent sha i r now p st))"
proof -
  have "good_step st (join_epoch r i now (leave_epoch r' i now (reparent_row sha m r p st)))" for m r'
    using good_reparent_row[OF ok] good_leave_epoch good_join_epoch good_trans good_ok by meson
  then show ?thesis
    using good_refl[OF ok] by (auto simp: reparent_def split: option.splits sum.splits)
qed

lemma good_build_digest [inv_intros]: "qstore_ok st \<Longrightarrow> good_step st (snd (build_digest r ids now st))"
  using good_new_digest by (simp add: build_digest_def Let_def split: option.splits)

lemma good_extend_digest [inv_intros]: "qstore_ok st \<Longrightarrow> good_step st (snd (extend_digest r e ids now st))"
  by (auto simp: extend_digest_def Let_def good_refl intro!: good_set_msg_ids split: option.splits)

lemma good_bump_wake_count [inv_intros]: "qstore_ok st \<Longrightarrow> good_step st (snd (bump_wake_count r e st))"
  by (auto simp: bump_wake_count_def Let_def good_refl intro!: good_update_digests)

lemma good_close_digest [inv_intros]: "qstore_ok st \<Longrightarrow> good_step st (snd (close_digest r e via now st))"
  by (auto simp: close_digest_def Let_def intro!: good_update_digests)

section \<open>Retention\<close>

lemma good_delete:
  assumes ok: "qstore_ok st"
  shows "good_step st (delete_msg i st)"
proof -
  have "dead_ids (delete_msg i st) = dead_ids st - {i}"
    by (auto simp: dead_ids_def delete_msg_def)
  moreover have "dl_msg_id ` set (q_dead (delete_msg i st)) = dl_msg_id ` set (q_dead st) - {i}"
    by (auto simp: delete_msg_def)
  ultimately show ?thesis
    using ok by (auto simp: good_step_def rows_evolve_def qstore_ok_def delete_msg_def
        distinct_map_filter)
qed

lemma good_prune_msgs: "qstore_ok st \<Longrightarrow> good_step st (snd (prune_msgs prot ids n st))"
proof (induction ids arbitrary: n st)
  case Nil
  then show ?case by (simp add: good_refl)
next
  case (Cons i ids)
  then show ?case using good_delete good_ok good_trans by (auto; meson)
qed

lemma good_prune_digests: "qstore_ok st \<Longrightarrow> good_step st (snd (prune_digests prot ds n st))"
proof (induction ds arbitrary: n st)
  case Nil
  then show ?case by (simp add: good_refl)
next
  case (Cons d ds)
  let ?st' = "st\<lparr>q_digests := filter (\<lambda>x. \<not> digest_at_key (sd_receiver_id d) (sd_epoch d) x) (q_digests st)\<rparr>"
  have "good_step st ?st'"
    by (rule good_digests) (use Cons.prems in \<open>auto simp: qstore_ok_def distinct_map_filter\<close>)
  then show ?case using Cons good_ok good_trans by (auto; meson)
qed

lemma good_prune [inv_intros]: "qstore_ok st \<Longrightarrow> good_step st (snd (prune now prot st))"
  using good_prune_msgs good_prune_digests good_ok good_trans
  by (simp add: prune_def Let_def split: prod.split) (metis snd_conv)

text \<open>What a prune leaves of the tables of messages and attempts.\<close>

lemma prune_msgs_tables:
  "q_msgs (snd (prune_msgs prot ids n st)) =
     filter (\<lambda>m. qm_msg_id m \<in> prot \<or> qm_msg_id m \<notin> set ids) (q_msgs st)"
  "q_attempts (snd (prune_msgs prot ids n st)) =
     filter (\<lambda>a. da_msg_id a \<in> prot \<or> da_msg_id a \<notin> set ids) (q_attempts st)"
  by (induction ids arbitrary: n st) (auto simp: delete_msg_def intro!: filter_cong)

lemma prune_digests_tables:
  "q_msgs (snd (prune_digests prot ds n st)) = q_msgs st"
  "q_attempts (snd (prune_digests prot ds n st)) = q_attempts st"
  by (induction ds arbitrary: n st) auto

lemma prune_tables:
  assumes "distinct (map qm_msg_id (q_msgs st))"
  shows "q_msgs (snd (prune now prot st)) =
      filter (\<lambda>m. qm_msg_id m \<in> prot \<or> \<not> prunable_msg (now - retention_span) m) (q_msgs st)"
    and "q_attempts (snd (prune now prot st)) = filter (\<lambda>a. da_msg_id a \<in> prot \<or>
      \<not> (\<exists>m \<in> set (q_msgs st). qm_msg_id m = da_msg_id a \<and> prunable_msg (now - retention_span) m))
      (q_attempts st)"
proof -
  let ?P = "prunable_msg (now - retention_span)"
  have "m \<in> set (q_msgs st) \<Longrightarrow>
    qm_msg_id m \<notin> qm_msg_id ` {m \<in> set (q_msgs st). ?P m} \<longleftrightarrow> \<not> ?P m" for m
    using key_unique[OF assms] by (auto simp: image_iff)
  then show "q_msgs (snd (prune now prot st)) =
      filter (\<lambda>m. qm_msg_id m \<in> prot \<or> \<not> ?P m) (q_msgs st)"
    by (auto simp: prune_def Let_def split_def prune_digests_tables prune_msgs_tables intro!: filter_cong)
  show "q_attempts (snd (prune now prot st)) = filter (\<lambda>a. da_msg_id a \<in> prot \<or>
      \<not> (\<exists>m \<in> set (q_msgs st). qm_msg_id m = da_msg_id a \<and> ?P m)) (q_attempts st)"
    by (auto simp: prune_def Let_def split_def prune_digests_tables prune_msgs_tables image_iff
        intro!: filter_cong)
qed

text \<open>A settlement that took effect left the row in the state asked for.\<close>

definition ended_row ::
  "msg_state \<Rightarrow> time \<Rightarrow> int option \<Rightarrow> queue_message \<Rightarrow> queue_message" where
  "ended_row s now att x =
     (let y = (case att of None \<Rightarrow> x | Some n \<Rightarrow> x\<lparr>qm_attempts := n\<rparr>) in
      if s = DEAD then kill_row now y else settle_row s now y)"

lemma ended_row_simps [row_simps]:
  "qm_msg_id (ended_row s now att x) = qm_msg_id x" "qm_state (ended_row s now att x) = s"
  by (simp_all add: ended_row_def Let_def row_simps split: option.splits)

lemma settle_rows:
  assumes "fetchone (\<lambda>m. qm_msg_id m = i) (q_msgs st) = Some m" "qm_mode m = LIVE" "\<not> terminal m"
    and "s \<in> set TERMINAL_STATES" "s = DEAD \<Longrightarrow> reason \<noteq> None"
  shows "q_msgs (snd (settle i s now reason att st))
    = update_where (\<lambda>x. qm_msg_id x = i) (ended_row s now att) (q_msgs st)"
proof -
  have "qm_msg_id m = i" using fetchone_SomeD[OF assms(1)] by simp
  then show ?thesis using assms
    by (cases s; cases att; cases reason)
      (simp_all add: settle_def kill_def ended_row_def[abs_def] Let_def update_where_twice TERMINAL_STATES_def)
qed

lemma settle_effect:
  assumes ok: "qstore_ok st" and res: "settle i s now reason att st = (Inr True, st1)"
  shows "\<exists>m \<in> set (q_msgs st1). qm_msg_id m = i \<and> terminal m \<and> qm_state m = s"
proof -
  from res have s: "s \<in> set TERMINAL_STATES" "s = DEAD \<Longrightarrow> reason \<noteq> None"
    by (auto simp: settle_def split: if_splits)
  from res obtain m where m: "fetchone (\<lambda>m. qm_msg_id m = i) (q_msgs st) = Some m"
    "qm_mode m = LIVE" "\<not> terminal m"
    by (auto simp: settle_def split: if_splits option.splits sum.splits simp del: fetchone_None_iff)
  have "q_msgs st1 = update_where (\<lambda>x. qm_msg_id x = i) (ended_row s now att) (q_msgs st)"
    using settle_rows[OF m s, of now att] res by simp
  then have "ended_row s now att m \<in> set (q_msgs st1)"
    using fetchone_SomeD[OF m(1)] by (auto simp: set_update_where)
  moreover have "terminal (ended_row s now att m)" using s(1) by (simp add: terminal_def row_simps)
  ultimately show ?thesis
    using fetchone_SomeD[OF m(1)] by (intro bexI[of _ "ended_row s now att m"]) (simp_all add: row_simps)
qed

section \<open>Arrival\<close>

lemma new_row_ok: "draft_valid d \<Longrightarrow> row_ok (new_row sha now i d)"
  using compute_dead_by_upper[of now now "ed_expire_after_s d" "DELIVERY_MAX_LIFETIME_S T0"]
  by (simp add: row_ok_def draft_valid_def row_simps terminal_iff)

lemma enqueue_store:
  "snd (enqueue sha clk i d st) =
    (if (\<exists>m \<in> set (q_msgs st). qm_idempotency_key m = ed_idempotency_key d \<or> qm_msg_id m = i) then st
     else st\<lparr>q_msgs := q_msgs st @ [new_row sha clk i d]\<rparr>)"
  by (auto simp: enqueue_def Let_def split: option.splits sum.splits)

lemma enqueue_ok:
  assumes "qstore_ok st" "draft_valid d"
  shows "qstore_ok (snd (enqueue sha clk i d st))"
  using assms new_row_ok[OF assms(2)] unfolding enqueue_store
  by (auto simp: qstore_ok_def dead_ids_def row_simps)

end
