(* ===== verification/Queue_Steps.thy ===== *)
theory Queue_Steps
  imports Queue_Lifecycle
begin

text \<open>
  Runs of the delivery queue. Every public method that writes is a rule of \<open>qstep\<close>, with arbitrary
  arguments: nothing is assumed of the order of calls, of the instants they are given or of the
  callers, except that an enqueue brings an id never used before and a draft that passed its
  validators. The state carries the ids used so far, a ghost that lets a property speak of a row that
  was pruned. The properties of the queue follow from the invariant of \<open>Queue_Lifecycle\<close> and from
  \<open>row_evolves\<close> along the run.
\<close>

section \<open>The step relation\<close>

type_synonym qstate = "qstore \<times> string set"

inductive qstep :: "(string \<Rightarrow> string) \<Rightarrow> qstate \<Rightarrow> qstate \<Rightarrow> bool" for sha where
  do_enqueue: "i \<notin> used \<Longrightarrow> draft_valid d \<Longrightarrow>
     qstep sha (st, used) (snd (enqueue sha clk i d st), insert i used)"
| do_claim: "qstep sha (st, used) (snd (claim w now lim rcv st), used)"
| do_ack: "qstep sha (st, used) (snd (ack i c now st), used)"
| do_reclaim: "qstep sha (st, used) (snd (reclaim now st), used)"
| do_record_attempt: "qstep sha (st, used) (record_attempt a st, used)"
| do_settle: "qstep sha (st, used) (snd (settle i s now reason attempts st), used)"
| do_mark_dialog_hold: "qstep sha (st, used) (mark_dialog_hold i h st, used)"
| do_reparent: "qstep sha (st, used) (snd (reparent sha i r now prefix st), used)"
| do_build_digest: "qstep sha (st, used) (snd (build_digest r ids now st), used)"
| do_extend_digest: "qstep sha (st, used) (snd (extend_digest r e ids now st), used)"
| do_bump_wake_count: "qstep sha (st, used) (snd (bump_wake_count r e st), used)"
| do_close_digest: "qstep sha (st, used) (snd (close_digest r e via now st), used)"
| do_cancel: "qstep sha (st, used) (snd (cancel_on_complete r now st), used)"
| do_settle_through: "qstep sha (st, used) (snd (settle_through r n now st), used)"
| do_prune: "qstep sha (st, used) (snd (prune now protected st), used)"

definition qinit :: "qstate \<Rightarrow> bool" where
  "qinit s \<longleftrightarrow> s = (empty_qstore, {})"

definition qinv :: "qstate \<Rightarrow> bool" where
  "qinv s \<longleftrightarrow> qstore_ok (fst s) \<and> qm_msg_id ` set (q_msgs (fst s)) \<subseteq> snd s"

text \<open>How two states of a run are related: no used id is forgotten, and a row with a used id comes
  from a row that was there.\<close>

definition qevolves :: "qstate \<Rightarrow> qstate \<Rightarrow> bool" where
  "qevolves s t \<longleftrightarrow> snd s \<subseteq> snd t
     \<and> (\<forall>m' \<in> set (q_msgs (fst t)). qm_msg_id m' \<in> snd s \<longrightarrow>
          (\<exists>m \<in> set (q_msgs (fst s)). row_evolves m m'))"

lemma qevolves_refl: "qevolves s s"
  by (auto simp: qevolves_def)

lemma qevolves_trans:
  assumes "qevolves a b" "qevolves b c"
  shows "qevolves a c"
proof -
  have "\<exists>x \<in> set (q_msgs (fst a)). row_evolves x z"
    if z: "z \<in> set (q_msgs (fst c))" "qm_msg_id z \<in> snd a" for z
  proof -
    have "qm_msg_id z \<in> snd b" using z(2) assms(1) unfolding qevolves_def by blast
    then obtain y where y: "y \<in> set (q_msgs (fst b))" "row_evolves y z"
      using z(1) assms(2) unfolding qevolves_def by blast
    then have "qm_msg_id y \<in> snd a" using z(2) row_evolvesD(1) by metis
    then obtain x where "x \<in> set (q_msgs (fst a))" "row_evolves x y"
      using y(1) assms(1) unfolding qevolves_def by blast
    then show ?thesis using y(2) row_evolves_trans by blast
  qed
  moreover have "snd a \<subseteq> snd c" using assms unfolding qevolves_def by blast
  ultimately show ?thesis by (auto simp: qevolves_def)
qed

lemma good_step_run:
  assumes "good_step st st'" "qinv (st, used)"
  shows "qinv (st', used)" and "qevolves (st, used) (st', used)"
proof -
  show "qinv (st', used)"
    using assms by (force simp: qinv_def good_step_def rows_evolve_def dest: row_evolvesD(1))
  show "qevolves (st, used) (st', used)"
    using assms(1) by (auto simp: qevolves_def good_step_def rows_evolve_def)
qed

lemma enqueue_run:
  assumes "i \<notin> used" "draft_valid d" "qinv (st, used)"
  shows "qinv (snd (enqueue sha clk i d st), insert i used)"
    and "qevolves (st, used) (snd (enqueue sha clk i d st), insert i used)"
  using assms enqueue_ok by (auto simp: qinv_def qevolves_def enqueue_store row_simps)

text \<open>A step is an enqueue or an operation that only moves existing rows.\<close>

lemma qstep_kinds:
  assumes "qstep sha (st, used) (st', used')" "qstore_ok st"
  shows "(used' = used \<and> good_step st st') \<or>
    (\<exists>i d clk. i \<notin> used \<and> draft_valid d \<and> used' = insert i used \<and> st' = snd (enqueue sha clk i d st))"
  using assms(1) by (cases rule: qstep.cases) (simp_all add: inv_intros assms(2), blast)

lemma qstep_good:
  assumes "qstep sha s t" "qinv s"
  shows "qinv t \<and> qevolves s t"
proof -
  obtain st used st' used' where [simp]: "s = (st, used)" "t = (st', used')"
    by (cases s, cases t)
  have "qstore_ok st" using assms(2) by (simp add: qinv_def)
  from qstep_kinds[OF assms(1)[simplified] this] show ?thesis
  proof (elim disjE conjE exE)
    assume "used' = used" "good_step st st'"
    then show ?thesis using good_step_run assms(2) by simp
  next
    fix i d clk
    assume "i \<notin> used" "draft_valid d" "used' = insert i used" "st' = snd (enqueue sha clk i d st)"
    then show ?thesis using enqueue_run assms(2) by simp
  qed
qed

lemma qinv_init: "qinit s \<Longrightarrow> qinv s"
  by (simp add: qinit_def qinv_def empty_ok) (simp add: empty_qstore_def)

interpretation queue: transition_system qinit "qstep sha" qinv
  by unfold_locales (use qinv_init qstep_good in blast)+

abbreviation qreach :: "(string \<Rightarrow> string) \<Rightarrow> qstate \<Rightarrow> bool" where
  "qreach sha s \<equiv> (qstep sha)\<^sup>*\<^sup>* (empty_qstore, {}) s"

lemma reach_inv: "qreach sha s \<Longrightarrow> qinv s"
  by (rule queue.inv_reachable[where sha = sha]) (simp_all add: qinit_def)

lemma run_evolves: "qinv s \<Longrightarrow> (qstep sha)\<^sup>*\<^sup>* s t \<Longrightarrow> qevolves s t"
  by (rule queue.rel_steps[where sha = sha]) (auto intro: qevolves_refl qevolves_trans dest: qstep_good)

text \<open>The row of an id at a later point of the run is what became of the row of that id.\<close>

lemma run_row:
  assumes inv: "qinv (st, used)" and run: "(qstep sha)\<^sup>*\<^sup>* (st, used) (st', used')"
    and m: "m \<in> set (q_msgs st)" and m': "m' \<in> set (q_msgs st')" "qm_msg_id m' = qm_msg_id m"
  shows "row_evolves m m'"
proof -
  have "qm_msg_id m \<in> used" using inv m by (auto simp: qinv_def)
  then obtain x where x: "x \<in> set (q_msgs st)" "row_evolves x m'"
    using run_evolves[OF inv run] m' unfolding qevolves_def by auto
  moreover have "x = m"
    using key_unique[OF qstore_okD(1)] x m m'(2) inv row_evolvesD(1)[OF x(2)] by (auto simp: qinv_def)
  ultimately show ?thesis by simp
qed

end
