(* ===== verification/Queue_Promises.thy ===== *)
theory Queue_Promises
  imports Queue_Steps
begin

text \<open>
  What the delivery queue promises its callers: the theorems a reader of
  \<open>adapters/store/queue.py\<close> relies on, each with a concrete run that meets its hypotheses. The
  contract the tick uses (take rows under a lease, settle them with the token of the lease) is the
  locale \<open>lease_store\<close>, interpreted on the store.
\<close>

section \<open>The lease contract\<close>

locale lease_store =
  fixes ok :: "'s \<Rightarrow> bool"
    and holds :: "'k \<Rightarrow> int \<Rightarrow> 's \<Rightarrow> bool"
    and take_rows :: "'a \<Rightarrow> 's \<Rightarrow> ('k \<times> int) list \<times> 's"
    and release :: "'k \<Rightarrow> int \<Rightarrow> time \<Rightarrow> 's \<Rightarrow> bool \<times> 's"
  assumes ok_take: "ok s \<Longrightarrow> ok (snd (take_rows a s))"
    and ok_release: "ok s \<Longrightarrow> ok (snd (release k c t s))"
    and take_holds: "ok s \<Longrightarrow> (k, c) \<in> set (fst (take_rows a s)) \<Longrightarrow> holds k c (snd (take_rows a s))"
    and take_keeps: "ok s \<Longrightarrow> holds k c s \<Longrightarrow> holds k c (snd (take_rows a s))"
    and take_free: "ok s \<Longrightarrow> (k, c) \<in> set (fst (take_rows a s)) \<Longrightarrow> \<not> holds k c' s"
    and release_iff: "ok s \<Longrightarrow> fst (release k c t s) \<longleftrightarrow> holds k c s"
    and release_drops: "ok s \<Longrightarrow> \<not> holds k c (snd (release k c t s))"
begin

text \<open>Two takers never hold the same row, whatever they ask for.\<close>

lemma takes_disjoint:
  assumes "ok s"
  shows "fst ` set (fst (take_rows a s)) \<inter> fst ` set (fst (take_rows b (snd (take_rows a s)))) = {}"
proof -
  have False if "(k, c) \<in> set (fst (take_rows a s))"
    "(k, c') \<in> set (fst (take_rows b (snd (take_rows a s))))" for k c c'
    using take_holds[OF assms that(1)] take_free[OF ok_take[OF assms] that(2)] by blast
  then show ?thesis by fastforce
qed

text \<open>A token releases its row once, and it still does after another taker ran.\<close>

lemma release_once:
  assumes "ok s" "(k, c) \<in> set (fst (take_rows a s))"
  shows "fst (release k c t (snd (take_rows b (snd (take_rows a s)))))"
    and "\<not> fst (release k c t' (snd (release k c t (snd (take_rows a s)))))"
  using assms take_holds[OF assms]
  by (simp_all add: ok_take ok_release take_keeps release_iff release_drops)

end

text \<open>The queue provides it: a taken row is a row and the fencing token it was leased under.\<close>

definition lease_held :: "string \<Rightarrow> int \<Rightarrow> qstore \<Rightarrow> bool" where
  "lease_held i c st \<longleftrightarrow> (\<exists>m \<in> set (q_msgs st). ackable i c m)"

definition claim_tokens ::
  "string \<times> time \<times> int \<times> string option \<Rightarrow> qstore \<Rightarrow> (string \<times> int) list \<times> qstore" where
  "claim_tokens a st =
     (case a of (w, now, lim, rcv) \<Rightarrow>
        (case claim w now lim rcv st of
           (Inl e, st') \<Rightarrow> ([], st')
         | (Inr ms, st') \<Rightarrow> (map (\<lambda>m. (qm_msg_id m, qm_claim_id m)) ms, st')))"

lemma claim_tokens_eq:
  assumes "distinct (map qm_msg_id (q_msgs st))"
  shows "claim_tokens (w, now, lim, rcv) st =
    (let rows = claim_rows now lim rcv (q_msgs st) in
     (map (\<lambda>m. (qm_msg_id m, qm_claim_id m + 1)) rows,
      st\<lparr>q_msgs := map (\<lambda>m. if m \<in> set rows then lease_row w (now + lease_span) m else m) (q_msgs st)\<rparr>))"
  by (simp add: claim_tokens_def claim_eq[OF assms] Let_def row_simps o_def)

lemma claim_tokens_snd: "snd (claim_tokens (w, now, lim, rcv) st) = snd (claim w now lim rcv st)"
  by (simp add: claim_tokens_def split: prod.splits sum.splits)

lemma claim_row_ready:
  assumes "distinct (map qm_msg_id (q_msgs st))" "m \<in> set (claim_rows now lim rcv (q_msgs st))"
  shows "m \<in> set (q_msgs st)" "qm_state m = READY"
  using claim_rows_props(1)[OF assms(1)] assms(2) by (auto simp: claimable_def)

interpretation leases: lease_store qstore_ok lease_held claim_tokens ack
proof
  fix s :: qstore and a :: "string \<times> time \<times> int \<times> string option" and k c c' t
  assume ok: "qstore_ok s"
  obtain w now lim rcv where [simp]: "a = (w, now, lim, rcv)" by (cases a)
  note eq = claim_tokens_eq[OF qstore_okD(1)[OF ok], unfolded Let_def]
  note ready = claim_row_ready[OF qstore_okD(1)[OF ok]]
  show "qstore_ok (snd (claim_tokens a s))"
    using good_ok[OF good_claim[OF ok]] by (simp add: claim_tokens_snd)
  show "qstore_ok (snd (ack k c t s))" using good_ok[OF good_ack[OF ok]] .
  show "fst (ack k c t s) \<longleftrightarrow> lease_held k c s"
    by (simp add: ack_def lease_held_def rowcount_pos_iff)
  show "\<not> lease_held k c (snd (ack k c t s))"
  proof -
    have "\<not> ackable k c (ack_row t m)" for m by (simp add: ackable_def ack_row_settle row_simps)
    then show ?thesis by (auto simp: ack_def lease_held_def set_update_where)
  qed
  have rows: "q_msgs (snd (claim_tokens a s)) = map (\<lambda>m. if m \<in> set (claim_rows now lim rcv (q_msgs s))
      then lease_row w (now + lease_span) m else m) (q_msgs s)"
    by (simp add: eq)
  show "lease_held k c (snd (claim_tokens a s))" if "(k, c) \<in> set (fst (claim_tokens a s))"
  proof -
    from that obtain m where m: "m \<in> set (claim_rows now lim rcv (q_msgs s))" "qm_msg_id m = k"
      "c = qm_claim_id m + 1" by (auto simp: eq)
    then have "lease_row w (now + lease_span) m \<in> set (q_msgs (snd (claim_tokens a s)))"
      using ready(1)[OF m(1)] unfolding rows by auto
    moreover have "ackable k c (lease_row w (now + lease_span) m)"
      using m(2,3) by (simp add: ackable_def row_simps)
    ultimately show ?thesis unfolding lease_held_def by blast
  qed
  show "lease_held k c (snd (claim_tokens a s))" if "lease_held k c s"
  proof -
    from that obtain m where m: "m \<in> set (q_msgs s)" "ackable k c m" by (auto simp: lease_held_def)
    then have "m \<notin> set (claim_rows now lim rcv (q_msgs s))" using ready(2) by (auto simp: ackable_def)
    then have "m \<in> set (q_msgs (snd (claim_tokens a s)))" using m(1) unfolding rows by auto
    then show ?thesis using m(2) unfolding lease_held_def by blast
  qed
  show "\<not> lease_held k c' s" if "(k, c) \<in> set (fst (claim_tokens a s))"
  proof -
    from that obtain m where m: "m \<in> set (claim_rows now lim rcv (q_msgs s))" "qm_msg_id m = k"
      by (auto simp: eq)
    have "x = m" if "x \<in> set (q_msgs s)" "qm_msg_id x = k" for x
      using that m ready(1)[OF m(1)] key_unique[OF qstore_okD(1)[OF ok]] by blast
    then show ?thesis using ready(2)[OF m(1)] by (auto simp: lease_held_def ackable_def)
  qed
qed

section \<open>A concrete run\<close>

text \<open>One message, enqueued at instant 0, leased, handed to a runtime that would not confirm it, and
  reclaimed after the lease.\<close>

definition ex_draft :: enqueue_draft where
  "ex_draft = \<lparr>ed_idempotency_key = ''k'', ed_receiver_id = ''r'', ed_sender_id = ''s'', ed_kind = NOTE,
     ed_payload = ''hi'', ed_mode = LIVE, ed_max_attempts = 5, ed_expire_after_s = None,
     ed_supersede_key = None, ed_content_hash = None, ed_park_warm = False, ed_barrier_id = None,
     ed_barrier_member_key = None, ed_enqueue_generation = None, ed_cancel_on_complete = False,
     ed_is_notice = False, ed_legacy_message_id = None\<rparr>"

definition ex_row :: queue_message where
  "ex_row = new_row id 0 ''m'' ex_draft"

definition ex_leased :: queue_message where
  "ex_leased = lease_row ''w'' lease_span ex_row"

definition ex_uncertain :: delivery_attempt where
  "ex_uncertain = \<lparr>da_msg_id = ''m'', da_claim_id = 1, da_carrier = ''pane'', da_started_at = 0,
     da_outcome = SUBMISSION_UNCERTAIN, da_detail = []\<rparr>"

definition ex1 :: qstore where
  "ex1 = empty_qstore\<lparr>q_msgs := [ex_row]\<rparr>"

definition ex2 :: qstore where
  "ex2 = empty_qstore\<lparr>q_msgs := [ex_leased]\<rparr>"

definition ex3 :: qstore where
  "ex3 = ex2\<lparr>q_attempts := [ex_uncertain]\<rparr>"

lemma ex_draft_valid: "draft_valid ex_draft"
  by (simp add: ex_draft_def draft_valid_def)

lemma ex_steps:
  "snd (enqueue id 0 ''m'' ex_draft empty_qstore) = ex1"
  "claim ''w'' 0 1 None ex1 = (Inr [ex_leased], ex2)"
  "record_attempt ex_uncertain ex2 = ex3"
proof -
  show "snd (enqueue id 0 ''m'' ex_draft empty_qstore) = ex1"
    by (simp add: enqueue_store ex1_def empty_qstore_def ex_row_def)
  have "claim_rows 0 1 None [ex_row] = [ex_row]"
    by (simp add: claim_rows_def claimable_def ex_row_def row_simps ex_draft_def compute_dead_by_def
        spans sql_limit_def)
  then show "claim ''w'' 0 1 None ex1 = (Inr [ex_leased], ex2)"
    by (subst claim_eq) (simp_all add: ex1_def ex2_def ex_leased_def empty_qstore_def Let_def)
  show "record_attempt ex_uncertain ex2 = ex3"
    by (simp add: record_attempt_def ex2_def ex3_def empty_qstore_def insert_ignore_def)
qed

lemma ex_reach:
  "qreach id (ex1, {''m''})" "qreach id (ex2, {''m''})" "qreach id (ex3, {''m''})"
proof -
  show 1: "qreach id (ex1, {''m''})"
    using qstep.do_enqueue[of "''m''" "{}" ex_draft id empty_qstore 0] ex_draft_valid ex_steps(1) by auto
  show 2: "qreach id (ex2, {''m''})"
    using 1 qstep.do_claim[of id ex1 "{''m''}" "''w''" 0 1 None] ex_steps(2)
    by (auto intro: rtranclp.rtrancl_into_rtrancl)
  show "qreach id (ex3, {''m''})"
    using 2 qstep.do_record_attempt[of id ex2 "{''m''}" ex_uncertain] ex_steps(3)
    by (auto intro: rtranclp.rtrancl_into_rtrancl)
qed

lemma ex_members: "ex_row \<in> set (q_msgs ex1)" "ex_leased \<in> set (q_msgs ex2)" "ex_leased \<in> set (q_msgs ex3)"
  by (simp_all add: ex1_def ex2_def ex3_def)

section \<open>Properties\<close>

text \<open>(C4) The queue's tables stay consistent. In every state a run of the queue can reach, whatever the
  calls and their arguments: ids and idempotency keys are unique; a row is leased exactly when it has
  a lease owner and a lease end, and terminal exactly when it has a termination stamp; the lease ends
  before its deadline plus one lease; the deadline is at most the maximum lifetime after creation; the
  dead-letter table holds exactly the dead messages, once each; and a receiver's epochs are numbered
  apart.\<close>

theorem queue_invariant:
  "qreach sha (st, used) \<Longrightarrow> qstore_ok st"
  using reach_inv by (fastforce simp: qinv_def)

theorem queue_invariant_witness: "qstore_ok ex3"
  using queue_invariant[OF ex_reach(3)] .

text \<open>A message's deadline, budget and ending are settled once. Between any two points of a run,
  the row of a message keeps its idempotency key, its creation instant, its deadline and its attempt
  ceiling; its fencing token never decreases; and once the row is delivered, superseded or dead it
  keeps that state and the instant of it.\<close>

theorem queue_row_history:
  assumes "qreach sha (st, used)" "(qstep sha)\<^sup>*\<^sup>* (st, used) (st', used')"
    and "m \<in> set (q_msgs st)" "m' \<in> set (q_msgs st')" "qm_msg_id m' = qm_msg_id m"
  shows "qm_idempotency_key m' = qm_idempotency_key m \<and> qm_created_at m' = qm_created_at m
    \<and> qm_dead_by m' = qm_dead_by m \<and> qm_max_attempts m' = qm_max_attempts m
    \<and> qm_claim_id m \<le> qm_claim_id m'
    \<and> (terminal m \<longrightarrow> qm_state m' = qm_state m \<and> qm_terminated_at m' = qm_terminated_at m)"
  using row_evolvesD[OF run_row[OF reach_inv[OF assms(1)] assms(2-5)]] by simp

theorem queue_row_history_witness:
  "qm_dead_by ex_leased = qm_dead_by ex_row \<and> qm_claim_id ex_row \<le> qm_claim_id ex_leased"
proof -
  have "(qstep id)\<^sup>*\<^sup>* (ex1, {''m''}) (ex2, {''m''})"
    using qstep.do_claim[of id ex1 "{''m''}" "''w''" 0 1 None] ex_steps(2) by auto
  from queue_row_history[OF ex_reach(1) this ex_members(1,2)] show ?thesis
    by (simp add: ex_leased_def row_simps)
qed

text \<open>(C25) A stale fencing token never acknowledges. Take any point of a run and a token no newer than
  the row's that does not hold the row's lease there (it was reclaimed, re-leased or settled). At every
  later point of the run, acknowledging with that token returns false and changes nothing.\<close>

theorem stale_token_never_acks:
  assumes reach: "qreach sha (st, used)" and run: "(qstep sha)\<^sup>*\<^sup>* (st, used) (st', used')"
    and m: "m \<in> set (q_msgs st)" and c: "c \<le> qm_claim_id m" "\<not> ackable (qm_msg_id m) c m"
  shows "ack (qm_msg_id m) c now st' = (False, st')"
proof -
  have "\<not> ackable (qm_msg_id m) c m'" if "m' \<in> set (q_msgs st')" for m'
  proof
    assume a: "ackable (qm_msg_id m) c m'"
    then have "row_evolves m m'"
      using run_row[OF reach_inv[OF reach] run m that] by (simp add: ackable_def)
    from row_evolvesD(7,8)[OF this] show False using a c by (auto simp: ackable_def)
  qed
  then have "update_where (ackable (qm_msg_id m) c) f (q_msgs st') = q_msgs st'"
    and "rowcount (ackable (qm_msg_id m) c) (q_msgs st') = 0" for f
    by (simp_all add: update_where_def rowcount_def map_idI)
  then show ?thesis by (simp add: ack_def)
qed

theorem stale_token_never_acks_witness: "ack ''m'' 0 7 ex3 = (False, ex3)"
proof -
  have "(qstep id)\<^sup>*\<^sup>* (ex2, {''m''}) (ex3, {''m''})"
    using qstep.do_record_attempt[of id ex2 "{''m''}" ex_uncertain] ex_steps(3) by auto
  from stale_token_never_acks[OF ex_reach(2) this ex_members(2), of 0 7] show ?thesis
    by (simp add: ex_leased_def ex_row_def row_simps ackable_def)
qed

lemma ex_distinct: "distinct (map qm_msg_id (q_msgs ex1))" "distinct (map qm_msg_id (q_msgs ex3))"
  by (simp_all add: ex1_def ex3_def ex2_def)

text \<open>What a claim hands out. In any store whose ids are unique, even one that still holds rows of the
  retired mode, \<open>claim\<close> succeeds and returns, leased to the caller for one lease span under the next
  fencing token, a selection of rows that are ready, live, available, before their deadline and
  addressed to the asked receiver; the selection is in the order of availability and id, no longer than
  the limit, and complete when the limit is not reached. Every other row and table is unchanged.\<close>

theorem claim_hands_out:
  assumes dist: "distinct (map qm_msg_id (q_msgs st))"
  shows "\<exists>rows. claim w now lim rcv st =
       (Inr (map (lease_row w (now + lease_span)) rows),
        st\<lparr>q_msgs := map (\<lambda>m. if m \<in> set rows then lease_row w (now + lease_span) m else m) (q_msgs st)\<rparr>)
     \<and> (\<forall>m \<in> set rows. m \<in> set (q_msgs st) \<and> qm_state m = READY \<and> qm_mode m = LIVE
          \<and> qm_available_at m \<le> now \<and> now < qm_dead_by m \<and> (rcv = None \<or> rcv = Some (qm_receiver_id m)))
     \<and> sorted (map (\<lambda>m. (qm_available_at m, qm_msg_id m)) rows)
     \<and> (0 \<le> lim \<longrightarrow> int (length rows) \<le> lim)
     \<and> (lim < 0 \<or> int (length rows) < lim \<longrightarrow> (\<forall>m \<in> set (q_msgs st). claimable now rcv m \<longrightarrow> m \<in> set rows))"
proof -
  let ?k = "\<lambda>m. (qm_available_at m, qm_msg_id m)"
  let ?all = "sort_key ?k (filter (claimable now rcv) (q_msgs st))"
  let ?rows = "claim_rows now lim rcv (q_msgs st)"
  have "\<forall>m \<in> set ?rows. m \<in> set (q_msgs st) \<and> qm_state m = READY \<and> qm_mode m = LIVE
      \<and> qm_available_at m \<le> now \<and> now < qm_dead_by m \<and> (rcv = None \<or> rcv = Some (qm_receiver_id m))"
    using claim_rows_props(1)[OF dist, of now lim rcv] unfolding claimable_def by (cases rcv) auto
  moreover have "sorted (map ?k ?rows)"
    using sorted_sort_key[of ?k "filter (claimable now rcv) (q_msgs st)"]
    by (simp add: claim_rows_def sql_limit_def take_map[symmetric] sorted_wrt_take)
  moreover have "int (length ?rows) \<le> lim" if "0 \<le> lim"
    using that by (simp add: claim_rows_def length_sql_limit)
  moreover have "m \<in> set ?rows"
    if "lim < 0 \<or> int (length ?rows) < lim" "m \<in> set (q_msgs st)" "claimable now rcv m" for m
  proof -
    have "?rows = ?all"
    proof (cases "lim < 0")
      case False
      then have "length (take (nat lim) ?all) < nat lim"
        using that(1) by (simp add: claim_rows_def sql_limit_def)
      then have "length ?all \<le> nat lim" by simp
      with False show ?thesis by (simp add: claim_rows_def sql_limit_def)
    qed (simp add: claim_rows_def sql_limit_def)
    then show ?thesis using that(2,3) by simp
  qed
  ultimately show ?thesis
    using claim_eq[OF dist, of w now lim rcv] unfolding Let_def by blast
qed

theorem claim_hands_out_witness:
  "\<exists>rows. claim ''w'' 0 1 None ex1 =
       (Inr (map (lease_row ''w'' (0 + lease_span)) rows),
        ex1\<lparr>q_msgs := map (\<lambda>m. if m \<in> set rows then lease_row ''w'' (0 + lease_span) m else m) (q_msgs ex1)\<rparr>)"
  using claim_hands_out[OF ex_distinct(1), of "''w''" 0 1 None] by blast

text \<open>(C31) Leases are exclusive. When two claims follow one another from any reachable state, whoever
  makes them, no message is in both results; the tokens of the first claim still acknowledge their
  rows after the second; and a token acknowledges once.\<close>

theorem leases_exclusive:
  assumes reach: "qreach sha (st, used)"
    and first: "claim w now lim rcv st = (Inr xs, st1)"
    and second: "claim w' now' lim' rcv' st1 = (Inr ys, st2)"
  shows "qm_msg_id ` set xs \<inter> qm_msg_id ` set ys = {}
    \<and> (\<forall>m \<in> set xs. fst (ack (qm_msg_id m) (qm_claim_id m) t st2)
        \<and> \<not> fst (ack (qm_msg_id m) (qm_claim_id m) t' (snd (ack (qm_msg_id m) (qm_claim_id m) t st1))))"
proof -
  let ?tok = "\<lambda>m. (qm_msg_id m, qm_claim_id m)"
  have ok: "qstore_ok st" using reach_inv[OF reach] by (simp add: qinv_def)
  have 1: "claim_tokens (w, now, lim, rcv) st = (map ?tok xs, st1)"
    and 2: "claim_tokens (w', now', lim', rcv') st1 = (map ?tok ys, st2)"
    using first second by (simp_all add: claim_tokens_def)
  have "fst ` set (map ?tok xs) \<inter> fst ` set (map ?tok ys) = {}"
    using leases.takes_disjoint[OF ok, of "(w, now, lim, rcv)" "(w', now', lim', rcv')"] 1 2 by simp
  moreover have "fst (ack (qm_msg_id m) (qm_claim_id m) t st2)
      \<and> \<not> fst (ack (qm_msg_id m) (qm_claim_id m) t' (snd (ack (qm_msg_id m) (qm_claim_id m) t st1)))"
    if "m \<in> set xs" for m
  proof -
    have tok: "(qm_msg_id m, qm_claim_id m) \<in> set (fst (claim_tokens (w, now, lim, rcv) st))"
      using that 1 by auto
    show ?thesis
      using leases.release_once(1)[OF ok tok, where b = "(w', now', lim', rcv')" and t = t]
        leases.release_once(2)[OF ok tok, where t = t and t' = t'] 1 2 by simp
  qed
  ultimately show ?thesis by (simp add: image_image)
qed

theorem leases_exclusive_witness:
  "fst (ack ''m'' 1 5 ex2) \<and> \<not> fst (ack ''m'' 1 6 (snd (ack ''m'' 1 5 ex2)))"
proof -
  have "claim_rows 0 1 None [ex_leased] = []"
    by (simp add: claim_rows_def claimable_def ex_leased_def row_simps sql_limit_def)
  then have "claim ''v'' 0 1 None ex2 = (Inr [], ex2)"
    by (simp add: claim_def ex2_def empty_qstore_def)
  from leases_exclusive[OF ex_reach(1) ex_steps(2) this, of 5 6] show ?thesis
    by (simp add: ex_leased_def ex_row_def row_simps)
qed

text \<open>(C33) \<open>reclaim\<close> is one pass over the table. Where the ids are unique and every row is live, the three
  loops of \<open>reclaim\<close> (the expired leases, the dialog ceiling, the two bounds), each re-reading the table
  the previous one wrote and updating row by row, equal the specification that treats every row by
  itself and counts what it did.\<close>

theorem reclaim_single_pass:
  assumes "distinct (map qm_msg_id (q_msgs st))" "\<forall>m \<in> set (q_msgs st). qm_mode m = LIVE"
  shows "reclaim now st = reclaim_spec now st"
  using reclaim_eq[OF assms] .

theorem reclaim_single_pass_witness: "reclaim 61000000 ex3 = reclaim_spec 61000000 ex3"
  by (rule reclaim_single_pass[OF ex_distinct(2)])
    (simp add: ex3_def ex2_def ex_leased_def ex_row_def row_simps ex_draft_def)

lemma reach_ok: "qreach sha (st, used) \<Longrightarrow> qstore_ok st"
  using reach_inv by (fastforce simp: qinv_def)

lemma reach_reclaim: "qreach sha (st, used) \<Longrightarrow> reclaim now st = reclaim_spec now st"
  using reclaim_eq qstore_okD(1,4)[OF reach_ok] by blast

lemma reclaim_spec_parts:
  "q_msgs (snd (reclaim_spec now st)) = map (reclaim_row (q_attempts st) now) (q_msgs st)"
  "\<exists>r. fst (reclaim_spec now st) = Inr r
     \<and> dr_msg_id ` set (rc_dead r) = qm_msg_id ` {m \<in> set (q_msgs st). swept (q_attempts st) now m}"
  by (simp_all add: reclaim_spec_def Let_def image_Un image_image mk_dead_row_def swept_ids)

text \<open>\<open>reclaim\<close> leaves nothing behind and reports every death. From any reachable state it succeeds;
  afterwards no lease has expired, no row sits past the dialog ceiling and no ready row is out of
  attempts or past its deadline, as of the same instant; and the dead rows it reports are exactly the
  messages that were not dead before and are dead now.\<close>

lemma reclaim_complete:
  assumes "qreach sha (st, used)"
  shows "\<exists>r st'. reclaim now st = (Inr r, st')
    \<and> (\<forall>m \<in> set (q_msgs st'). \<not> expired_lease now m \<and> \<not> over_ceiling now m \<and> \<not> exhausted now m)
    \<and> dr_msg_id ` set (rc_dead r) = dead_ids st' - dead_ids st"
proof -
  let ?st' = "snd (reclaim_spec now st)"
  obtain r where r: "fst (reclaim_spec now st) = Inr r"
    "dr_msg_id ` set (rc_dead r) = qm_msg_id ` {m \<in> set (q_msgs st). swept (q_attempts st) now m}"
    using reclaim_spec_parts(2) by blast
  have ok: "qstore_ok st" using reach_ok[OF assms] .
  have "\<not> terminal m" if "m \<in> set (q_msgs st)" "swept (q_attempts st) now m" for m
    using that(2) expire_moves(4)[OF qstore_okD(3)[OF ok that(1)]] over_ceiling_open exhausted_open
    unfolding swept_def by metis
  then have "x \<noteq> y" if "x \<in> set (q_msgs st)" "swept (q_attempts st) now x" "qm_state y = DEAD" for x y
    using that unfolding terminal_iff by (metis msg_state.distinct(7,13))
  then have "qm_msg_id ` {m \<in> set (q_msgs st). swept (q_attempts st) now m} \<inter> dead_ids st = {}"
    unfolding dead_ids_def using key_unique[OF qstore_okD(1)[OF ok]] by blast
  moreover have "dead_ids ?st' = dead_ids st \<union> qm_msg_id ` {m \<in> set (q_msgs st). swept (q_attempts st) now m}"
    by (rule reclaim_dead_ids[OF ok])
  ultimately have "dr_msg_id ` set (rc_dead r) = dead_ids ?st' - dead_ids st"
    using r(2) by (simp add: Un_Diff Int_Un_distrib Diff_triv)
  moreover have "\<forall>m \<in> set (q_msgs ?st'). \<not> expired_lease now m \<and> \<not> over_ceiling now m \<and> \<not> exhausted now m"
    by (simp add: reclaim_spec_parts(1) reclaim_row_clean)
  ultimately show ?thesis
    using r(1) reach_reclaim[OF assms] by (metis prod.collapse)
qed

lemma reclaim_complete_witness: "\<exists>r st'. reclaim 61000000 ex3 = (Inr r, st')"
  using reclaim_complete[OF ex_reach(3), of 61000000] by blast

text \<open>(C9) No message outlives its lifetime. After a reclaim at instant \<open>now\<close>, from any reachable state,
  every row whose deadline passed at least one lease ago has ended; since the deadline is at most
  \<open>DELIVERY_MAX_LIFETIME_S\<close> after creation, so has every row created that long plus one lease ago. With
  one tick of delay this is still before \<open>IDLE_STALL_AGE_S\<close>, the age at which a seat counts as stalled.\<close>

theorem no_row_outlives_its_lifetime:
  assumes "qreach sha (st, used)" "m \<in> set (q_msgs (snd (reclaim now st)))"
    and "qm_dead_by m + lease_span \<le> now
       \<or> qm_created_at m + seconds (DELIVERY_MAX_LIFETIME_S T0 + DELIVERY_LEASE_S T0) \<le> now"
  shows "terminal m
    \<and> DELIVERY_MAX_LIFETIME_S T0 + DELIVERY_LEASE_S T0 + DELIVERY_TICK_S T0 < IDLE_STALL_AGE_S T0"
proof -
  from assms(2) obtain x where x: "x \<in> set (q_msgs st)" "m = reclaim_row (q_attempts st) now x"
    by (auto simp: reach_reclaim[OF assms(1)] reclaim_spec_parts(1))
  have ok: "row_ok x" using qstore_okD(3)[OF reach_ok[OF assms(1)] x(1)] .
  have "qm_dead_by x + lease_span \<le> now"
    using assms(3) ok unfolding x(2) reclaim_row_keys row_ok_def spans by (auto simp: T0_def seconds_def)
  then show ?thesis using reclaim_row_overdue[OF ok] x(2) by (simp add: T0_def)
qed

lemma ex_reclaimed: "\<exists>m. m \<in> set (q_msgs (snd (reclaim 1760000000 ex3))) \<and> qm_created_at m = 0"
proof -
  have "q_msgs (snd (reclaim 1760000000 ex3)) = [reclaim_row (q_attempts ex3) 1760000000 ex_leased]"
    by (simp add: reach_reclaim[OF ex_reach(3)] reclaim_spec_parts(1)) (simp add: ex3_def ex2_def)
  then show ?thesis by (simp add: row_simps ex_leased_def ex_row_def)
qed

theorem no_row_outlives_its_lifetime_witness:
  "\<exists>m. m \<in> set (q_msgs (snd (reclaim 1760000000 ex3))) \<and> terminal m"
proof -
  from ex_reclaimed obtain m where "m \<in> set (q_msgs (snd (reclaim 1760000000 ex3)))" "qm_created_at m = 0"
    by blast
  moreover from this no_row_outlives_its_lifetime[OF ex_reach(3), of m 1760000000] have "terminal m"
    by (simp add: T0_def seconds_def)
  ultimately show ?thesis by blast
qed

text \<open>Attempts are spent per outcome, not per re-offer. In one \<open>reclaim\<close> from a reachable state, a row's
  attempt count rises by one exactly when its lease expired and the last outcome recorded under the
  token of that lease is one that spends an attempt (or none was recorded); its token rises by one
  exactly when its lease expired.\<close>

lemma reclaim_attempt_accounting:
  assumes "qreach sha (st, used)" "m \<in> set (q_msgs st)"
  shows "\<exists>m' \<in> set (q_msgs (snd (reclaim now st))). qm_msg_id m' = qm_msg_id m
    \<and> qm_attempts m' = qm_attempts m
        + (if expired_lease now m
              \<and> spends_attempt (last_outcome_in (q_attempts st) (qm_msg_id m) (qm_claim_id m))
           then 1 else 0)
    \<and> qm_claim_id m' = qm_claim_id m + (if expired_lease now m then 1 else 0)"
proof (rule bexI)
  let ?m' = "reclaim_row (q_attempts st) now m"
  show "?m' \<in> set (q_msgs (snd (reclaim now st)))"
    using assms by (simp add: reach_reclaim reclaim_spec_parts(1))
  show "qm_msg_id ?m' = qm_msg_id m
    \<and> qm_attempts ?m' = qm_attempts m
        + (if expired_lease now m
              \<and> spends_attempt (last_outcome_in (q_attempts st) (qm_msg_id m) (qm_claim_id m))
           then 1 else 0)
    \<and> qm_claim_id ?m' = qm_claim_id m + (if expired_lease now m then 1 else 0)"
    by (simp add: reclaim_row_swept expire_row_def Let_def row_simps)
qed

lemma reclaim_attempt_accounting_witness:
  "\<exists>m' \<in> set (q_msgs (snd (reclaim 61000000 ex2))). qm_msg_id m' = ''m'' \<and> qm_attempts m' = 1
     \<and> qm_claim_id m' = 2"
proof -
  have "expired_lease 61000000 ex_leased"
    by (simp add: expired_lease_def ex_leased_def row_simps spans)
  with reclaim_attempt_accounting[OF ex_reach(2) ex_members(2), of 61000000] show ?thesis
    by (simp add: ex_leased_def ex_row_def row_simps last_outcome_in_def ex2_def empty_qstore_def)
qed

lemma quarantined_not_claimable: "quarantined m \<or> terminal m \<Longrightarrow> \<not> claimable now rcv m"
  by (auto simp: quarantined_def claimable_def terminal_iff)

lemma uncertain_quarantined:
  assumes "row_ok m" "expired_lease now m" "uncertain atts m"
  shows "quarantined (reclaim_row atts now m) \<or> terminal (reclaim_row atts now m)"
  using assms by (simp add: reclaim_row_swept expire_row_def uncertain_def quarantined_def terminal_iff
      quarantine_until_def row_simps seconds_def)

text \<open>(C8) An uncertain submission is never offered a second time. When the lease of a row expired and the
  outcome recorded under it is \<open>SUBMISSION_UNCERTAIN\<close>, then after the reclaim that releases it no
  claim, at any later point of the run and at any instant, returns that message again.\<close>

theorem uncertain_submission_never_reoffered:
  assumes reach: "qreach sha (st, used)" and m: "m \<in> set (q_msgs st)"
    and lease: "expired_lease now m"
    and outcome: "last_outcome_in (q_attempts st) (qm_msg_id m) (qm_claim_id m) = Some SUBMISSION_UNCERTAIN"
    and run: "(qstep sha)\<^sup>*\<^sup>* (snd (reclaim now st), used) (st', used')"
    and later: "claim w t lim rcv st' = (Inr rows, st'')"
  shows "qm_msg_id m \<notin> qm_msg_id ` set rows"
proof
  let ?m1 = "reclaim_row (q_attempts st) now m"
  have inv: "qinv (st, used)" using reach_inv[OF reach] .
  have inv1: "qinv (snd (reclaim now st), used)" using qstep_good[OF qstep.do_reclaim inv] by blast
  have m1: "?m1 \<in> set (q_msgs (snd (reclaim now st)))"
    using m by (simp add: reach_reclaim[OF reach] reclaim_spec_parts(1))
  have q: "quarantined ?m1 \<or> terminal ?m1"
    using uncertain_quarantined[OF qstore_okD(3)[OF reach_ok[OF reach] m] lease] outcome
    by (simp add: uncertain_def)
  have dist: "distinct (map qm_msg_id (q_msgs st'))"
    using queue.inv_steps[OF run inv1] by (simp add: qinv_def qstore_ok_def)
  assume "qm_msg_id m \<in> qm_msg_id ` set rows"
  then obtain x where x: "x \<in> set (claim_rows t lim rcv (q_msgs st'))" "qm_msg_id x = qm_msg_id m"
    using later by (auto simp: claim_eq[OF dist] Let_def row_simps)
  then have x': "x \<in> set (q_msgs st')" "claimable t rcv x" using claim_rows_props(1)[OF dist] by auto
  have "row_evolves ?m1 x"
    using run_row[OF inv1 run m1 x'(1)] x(2) by (simp add: row_simps)
  then have "quarantined x \<or> terminal x" using q row_evolvesD(10,12) by blast
  then show False using quarantined_not_claimable x'(2) by blast
qed

theorem uncertain_submission_never_reoffered_witness:
  "\<exists>rows st. claim ''w'' 70000000 1 None (snd (reclaim 61000000 ex3)) = (Inr rows, st)
     \<and> ''m'' \<notin> qm_msg_id ` set rows"
proof -
  have "distinct (map qm_msg_id (q_msgs (snd (reclaim 61000000 ex3))))"
    using qstore_okD(1)[OF good_ok[OF good_reclaim[OF reach_ok[OF ex_reach(3)]]]] .
  then obtain rows st where c: "claim ''w'' 70000000 1 None (snd (reclaim 61000000 ex3)) = (Inr rows, st)"
    by (simp add: claim_eq Let_def)
  have 1: "expired_lease 61000000 ex_leased"
    by (simp add: expired_lease_def ex_leased_def row_simps spans)
  have 2: "last_outcome_in (q_attempts ex3) (qm_msg_id ex_leased) (qm_claim_id ex_leased) = Some SUBMISSION_UNCERTAIN"
    by (simp add: ex3_def last_outcome_in_def ex_uncertain_def ex_leased_def ex_row_def row_simps)
  from uncertain_submission_never_reoffered[OF ex_reach(3) ex_members(3) 1 2 rtranclp.rtrancl_refl c]
  have "''m'' \<notin> qm_msg_id ` set rows" by (simp add: ex_leased_def ex_row_def row_simps)
  with c show ?thesis by blast
qed

text \<open>Enqueueing is idempotent in the key. After an enqueue that returned a row, repeating it with the
  same draft, at any time and with any fresh id, returns the same row and writes nothing; a draft with
  the same key whose payload digests differently is refused with \<open>IdempotencyConflict\<close> and writes
  nothing. The row of a new key is ready at once, unleased, with no attempt spent, and its deadline is
  the maximum lifetime or the caller's earlier expiry.\<close>

theorem enqueue_idempotent:
  assumes "enqueue sha clk i d st = (Inr m, st1)"
  shows "enqueue sha clk' i' d st1 = (Inr m, st1)
    \<and> (ed_idempotency_key d' = ed_idempotency_key d \<and> sha (ed_payload d') \<noteq> sha (ed_payload d) \<longrightarrow>
        enqueue sha clk' i' d' st1 = (Inl IdempotencyConflict, st1))
    \<and> (ed_idempotency_key d \<notin> qm_idempotency_key ` set (q_msgs st) \<longrightarrow>
        m = new_row sha clk i d \<and> qm_state m = READY \<and> qm_lease_owner m = None \<and> qm_attempts m = 0
        \<and> qm_available_at m = clk
        \<and> qm_dead_by m = (case ed_expire_after_s d of
             None \<Rightarrow> clk + lifetime_span
           | Some e \<Rightarrow> if 0 < e then clk + min lifetime_span (seconds e) else clk + lifetime_span))"
proof -
  let ?key = "\<lambda>m. qm_idempotency_key m = ed_idempotency_key d"
  from assms have got: "fetchone ?key (q_msgs st1) = Some m" "qm_mode m = LIVE"
      "qm_payload_digest m = sha (ed_payload d)"
    by (auto simp: enqueue_def Let_def split: if_splits option.splits sum.splits simp del: fetchone_None_iff)
  from fetchone_SomeD[OF got(1)] have has: "\<exists>x \<in> set (q_msgs st1). ?key x" by blast
  have same: "enqueue sha clk' i' d st1 = (Inr m, st1)"
    using got has by (simp add: enqueue_def Let_def)
  have conflict: "enqueue sha clk' i' d' st1 = (Inl IdempotencyConflict, st1)"
    if "ed_idempotency_key d' = ed_idempotency_key d" "sha (ed_payload d') \<noteq> sha (ed_payload d)"
    using got has that by (auto simp: enqueue_def Let_def)
  have "m = new_row sha clk i d" if "ed_idempotency_key d \<notin> qm_idempotency_key ` set (q_msgs st)"
  proof -
    have "snd (enqueue sha clk i d st) = st1" using assms by simp
    moreover have "\<forall>x \<in> set (q_msgs st). \<not> ?key x" using that by force
    ultimately have "m \<in> set (q_msgs st @ [new_row sha clk i d]) \<and> ?key m"
      using fetchone_SomeD[OF got(1)] by (auto simp: enqueue_store split: if_splits)
    then show ?thesis using \<open>\<forall>x \<in> set (q_msgs st). \<not> ?key x\<close> by auto
  qed
  then show ?thesis
    using same conflict by (auto simp: row_simps compute_dead_by_def split: option.splits)
qed

theorem enqueue_idempotent_witness:
  "enqueue id 5 ''n'' ex_draft ex1 = (Inr ex_row, ex1)"
proof -
  have "ed_mode ex_draft = LIVE" by (simp add: ex_draft_def)
  then have "enqueue id 0 ''m'' ex_draft empty_qstore = (Inr ex_row, ex1)"
    by (simp add: enqueue_def Let_def fetchone_def empty_qstore_def ex1_def ex_row_def row_simps)
  from enqueue_idempotent[OF this, of 5 "''n''" ex_draft] show ?thesis by blast
qed

text \<open>The first ending wins. From any reachable state, once a settlement took effect, every further
  settlement of that message with valid arguments returns false and changes nothing; a settlement to a
  state that is not terminal, or to \<open>DEAD\<close> without a reason, is refused with \<open>ValueError\<close> and changes
  nothing; and a message that was settled dead has its dead letter.\<close>

lemma settle_first_wins:
  assumes reach: "qreach sha (st, used)" and first: "settle i s now reason att st = (Inr True, st1)"
  shows "settle i s' now' reason' att' st1 =
      (if s' \<notin> set TERMINAL_STATES \<or> (s' = DEAD \<and> reason' = None) then Inl ValueError else Inr False, st1)
    \<and> (s = DEAD \<longrightarrow> i \<in> dl_msg_id ` set (q_dead st1))"
proof -
  have ok: "qstore_ok st" using reach_ok[OF reach] .
  have ok1: "qstore_ok st1" using good_ok[OF good_settle[OF ok, of i s now reason att]] first by simp
  obtain m where m: "m \<in> set (q_msgs st1)" "qm_msg_id m = i" "terminal m" "qm_state m = s"
    using settle_effect[OF ok first] by blast
  have f: "fetchone (\<lambda>m. qm_msg_id m = i) (q_msgs st1) = Some m"
    using fetchone_key_eq[OF qstore_okD(1)[OF ok1] m(1,2)] .
  have "i \<in> dl_msg_id ` set (q_dead st1)" if "s = DEAD"
    using that m qstore_okD(7)[OF ok1] by (auto simp: dead_ids_def)
  then show ?thesis
    using f m(3) qstore_okD(4)[OF ok1 m(1)] by (auto simp: settle_def)
qed

lemma settle_first_wins_witness:
  "\<exists>st1. settle ''m'' SUPERSEDED 5 None None ex1 = (Inr True, st1)
     \<and> settle ''m'' DELIVERED 6 None None st1 = (Inr False, st1)"
proof -
  have "\<not> terminal ex_row" "qm_mode ex_row = LIVE" "qm_msg_id ex_row = ''m''"
    by (simp_all add: ex_row_def terminal_iff row_simps ex_draft_def)
  then obtain st1 where 1: "settle ''m'' SUPERSEDED 5 None None ex1 = (Inr True, st1)"
    by (simp add: settle_def TERMINAL_STATES_def ex1_def fetchone_def)
  from settle_first_wins[OF ex_reach(1) 1, of DELIVERED 6 None None] 1 show ?thesis
    by (auto simp: TERMINAL_STATES_def)
qed

text \<open>Retention only forgets what ended long ago. \<open>prune\<close> removes exactly the messages that ended before
  the retention horizon and are not protected, with their attempts and dead letters, and keeps every
  other row as it is; a message that has not ended is never removed.\<close>

lemma prune_exact:
  assumes reach: "qreach sha (st, used)"
  shows "q_msgs (snd (prune now prot st)) =
      filter (\<lambda>m. qm_msg_id m \<in> prot \<or> \<not> prunable_msg (now - retention_span) m) (q_msgs st)
    \<and> (\<forall>m \<in> set (q_msgs st). \<not> terminal m \<longrightarrow> m \<in> set (q_msgs (snd (prune now prot st))))
    \<and> (\<forall>a \<in> set (q_attempts st). a \<in> set (q_attempts (snd (prune now prot st)))
          \<or> (\<exists>m \<in> set (q_msgs st). qm_msg_id m = da_msg_id a
               \<and> qm_msg_id m \<notin> prot \<and> prunable_msg (now - retention_span) m))"
proof -
  have ok: "qstore_ok st" using reach_ok[OF reach] .
  have "\<not> prunable_msg h m" if "m \<in> set (q_msgs st)" "\<not> terminal m" for m h
    using that qstore_okD(3)[OF ok] by (auto simp: row_ok_def prunable_msg_def)
  then show ?thesis
    using prune_tables[OF qstore_okD(1)[OF ok], of now prot] by auto
qed

lemma epoch_moves_keep_msgs [simp]:
  "q_msgs (leave_epoch r i now st) = q_msgs st" "q_msgs (join_epoch r i now st) = q_msgs st"
  by (simp_all add: leave_epoch_def join_epoch_def set_msg_ids_def Let_def split: option.splits)

text \<open>Moving a message with a prefix breaks the replay of its enqueue. \<open>reparent\<close> with a non-empty prefix
  rewrites the stored payload and its digest. A caller that repeats the enqueue it already made, with
  the very same draft, is then refused with \<open>IdempotencyConflict\<close>, although the key holds its message.\<close>

lemma reparent_prefix_breaks_replay:
  assumes first: "enqueue sha clk i d st = (Inr m, st1)"
    and moved: "reparent sha (qm_msg_id m) r now prefix st1 = (Inr True, st2)"
    and row: "fetchone (\<lambda>x. qm_msg_id x = qm_msg_id m) (q_msgs st1) = Some m"
    and digest: "prefix \<noteq> []" "sha (prefix @ qm_payload m) \<noteq> sha (ed_payload d)"
  shows "enqueue sha clk' i' d st2 = (Inl IdempotencyConflict, st2)"
proof -
  let ?key = "\<lambda>x. qm_idempotency_key x = ed_idempotency_key d"
  let ?p = "prefix @ qm_payload m"
  let ?f = "\<lambda>x. x\<lparr>qm_receiver_id := r, qm_payload := ?p, qm_payload_digest := sha ?p\<rparr>"
  from first have got: "fetchone ?key (q_msgs st1) = Some m" "qm_mode m = LIVE"
    by (auto simp: enqueue_def Let_def split: if_splits option.splits sum.splits simp del: fetchone_None_iff)
  from moved row got(2) digest(1) have st2: "q_msgs st2 = update_where (\<lambda>x. qm_msg_id x = qm_msg_id m) ?f (q_msgs st1)"
    by (auto simp: reparent_def reparent_row_def Let_def split: if_splits)
  have f: "fetchone ?key (q_msgs st2) = Some (?f m)"
    unfolding st2 by (subst fetchone_update_where) (simp_all add: got(1))
  have "\<exists>x \<in> set (q_msgs st2). ?key x" using fetchone_SomeD[OF f] by metis
  with f got(2) digest(2) show ?thesis by (simp add: enqueue_def Let_def)
qed

lemma reparent_prefix_breaks_replay_witness:
  "\<exists>st2. reparent id ''m'' ''q'' 5 ''fwd: '' ex1 = (Inr True, st2)
     \<and> enqueue id 9 ''n'' ex_draft st2 = (Inl IdempotencyConflict, st2)"
proof -
  have live: "ed_mode ex_draft = LIVE" "ed_receiver_id ex_draft = ''r''" "ed_payload ex_draft = ''hi''"
    by (simp_all add: ex_draft_def)
  then have first: "enqueue id 0 ''m'' ex_draft empty_qstore = (Inr ex_row, ex1)"
    by (simp add: enqueue_def Let_def fetchone_def empty_qstore_def ex1_def ex_row_def row_simps)
  have row: "fetchone (\<lambda>x. qm_msg_id x = qm_msg_id ex_row) (q_msgs ex1) = Some ex_row"
    by (simp add: ex1_def fetchone_def)
  have id: "qm_msg_id ex_row = ''m''" "qm_receiver_id ex_row = ''r''" "qm_payload ex_row = ''hi''"
    using live by (simp_all add: ex_row_def new_row_def)
  obtain st2 where moved: "reparent id (qm_msg_id ex_row) ''q'' 5 ''fwd: '' ex1 = (Inr True, st2)"
    using row id live by (simp add: reparent_def terminal_iff ex_row_def row_simps new_row_def)
  from reparent_prefix_breaks_replay[OF first moved row, of 9 "''n''"] moved show ?thesis
    by (auto simp: id live)
qed

lemma reclaim_expired_not_live:
  "\<exists>r \<in> set rows. qm_mode r \<noteq> LIVE \<Longrightarrow> reclaim_expired atts now rows cs ms = Inl ValueError"
proof (induction rows arbitrary: cs ms)
  case (Cons r rows)
  then show ?case
    by (cases cs; cases "qm_mode r = LIVE") (auto simp: Let_def row_to_message_def)
qed simp

text \<open>A leased row of the retired mode stops every reclaim, and the boot step is what repairs it. While
  an expired lease stands on a row whose mode is not \<open>live\<close>, \<open>reclaim\<close> raises \<open>ValueError\<close> and rolls
  back, so no lease at all is released; after \<open>_retire_shadow_delivery_rows\<close> the same reclaim succeeds,
  and every live row is still there.\<close>

theorem reclaim_blocked_until_retired:
  assumes "m \<in> set (q_msgs st)" "expired_lease now m" "qm_mode m \<noteq> LIVE"
    and dist: "distinct (map qm_msg_id (q_msgs st))"
  shows "reclaim now st = (Inl ValueError, st)
    \<and> (\<exists>r st'. reclaim now (snd (retire_shadow_delivery_rows st)) = (Inr r, st'))
    \<and> q_msgs (snd (retire_shadow_delivery_rows st)) = filter (\<lambda>m. qm_mode m = LIVE) (q_msgs st)"
proof -
  let ?st = "snd (retire_shadow_delivery_rows st)"
  have "\<exists>r \<in> set (filter (expired_lease now) (q_msgs st)). qm_mode r \<noteq> LIVE" using assms(1-3) by auto
  then have "reclaim now st = (Inl ValueError, st)"
    by (simp add: reclaim_def reclaim_expired_not_live)
  moreover have rows: "q_msgs ?st = filter (\<lambda>m. qm_mode m = LIVE) (q_msgs st)"
    using assms(1,3) by (auto simp: retire_shadow_delivery_rows_def Let_def rowcount_def filter_empty_conv)
  moreover have "reclaim now ?st = reclaim_spec now ?st"
    by (rule reclaim_eq) (use dist rows in \<open>auto simp: distinct_map_filter\<close>)
  moreover obtain r where "fst (reclaim_spec now ?st) = Inr r" using reclaim_spec_parts(2) by blast
  ultimately show ?thesis by (metis prod.collapse)
qed

theorem reclaim_blocked_until_retired_witness:
  "reclaim 61000000 (ex2\<lparr>q_msgs := [ex_leased\<lparr>qm_mode := OtherMode ''shadow''\<rparr>]\<rparr>)
    = (Inl ValueError, ex2\<lparr>q_msgs := [ex_leased\<lparr>qm_mode := OtherMode ''shadow''\<rparr>]\<rparr>)"
proof -
  let ?m = "ex_leased\<lparr>qm_mode := OtherMode ''shadow''\<rparr>"
  have "expired_lease 61000000 ?m" by (simp add: expired_lease_def ex_leased_def lease_row_def spans)
  from reclaim_blocked_until_retired[of ?m "ex2\<lparr>q_msgs := [?m]\<rparr>", OF _ this] show ?thesis by simp
qed

end
