(* ===== verification/Finding_Store.thy ===== *)
theory Finding_Store
  imports CAO_Prelude
begin

text \<open>
  Deduplicated findings: the vocabulary of \<open>core/findings.py\<close> and the class \<open>SqliteFindingStore\<close> of
  \<open>adapters/store/findings.py\<close>. The table is a list of rows with primary key \<open>finding_id\<close> and the
  unique index on code, terminal, dedupe key and state that the schema declares; a statement that would
  break either raises \<open>IntegrityError\<close> and the transaction rolls back.
\<close>

datatype finding_code =
    DIAG_BAD_TRANSITION | DIAG_GHOST_TRANSITION | DIAG_LEGACY_DISAGREE | DIAG_MIGRATION_FAILED
  | DIAG_QUEUE_ORPHAN_GUARD | DIAG_BARRIER_OPEN_AT_FLIP | DIAG_PANE_DISAGREE | DIAG_PRODUCER_DISAGREE
  | DIAG_STATUS_GUARD | DIAG_DELIVERY_TIME_BOUND | DIAG_SEAT_WAKE_UNREACHABLE
  | DIAG_SHADOW_ROWS_RETIRED | DIAG_LEGACY_ROW_ADOPTED | DIAG_CERTIFIED_SOURCE_STALE
  | DIAG_HERDR_STATUS_UNKNOWN

definition RETIRED_FINDING_CODES :: "finding_code list" where
  "RETIRED_FINDING_CODES = [DIAG_LEGACY_DISAGREE, DIAG_QUEUE_ORPHAN_GUARD, DIAG_BARRIER_OPEN_AT_FLIP]"

datatype finding_state = OPEN | RESOLVED

record finding =
  fi_finding_id :: string
  fi_code :: finding_code
  fi_terminal_id :: string
  fi_dedupe_key :: string
  fi_detail :: string
  fi_sample_event_id :: "string option"
  fi_count :: int
  fi_first_seen_at :: time
  fi_last_seen_at :: time
  fi_state :: finding_state

type_synonym fstore = "finding list"

definition same_open :: "finding_code \<Rightarrow> string \<Rightarrow> string \<Rightarrow> finding \<Rightarrow> bool" where
  "same_open code tid key f \<longleftrightarrow>
     fi_code f = code \<and> fi_terminal_id f = tid \<and> fi_dedupe_key f = key \<and> fi_state f = OPEN"

definition new_finding ::
  "string \<Rightarrow> time \<Rightarrow> finding_code \<Rightarrow> string \<Rightarrow> string \<Rightarrow> string \<Rightarrow> string option \<Rightarrow> finding" where
  "new_finding fid now code tid key detail sample =
     \<lparr>fi_finding_id = fid, fi_code = code, fi_terminal_id = tid, fi_dedupe_key = key,
      fi_detail = detail, fi_sample_event_id = sample, fi_count = 1, fi_first_seen_at = now,
      fi_last_seen_at = now, fi_state = OPEN\<rparr>"

definition record_finding ::
  "string \<Rightarrow> time \<Rightarrow> finding_code \<Rightarrow> string \<Rightarrow> string \<Rightarrow> string \<Rightarrow> string option \<Rightarrow> fstore
   \<Rightarrow> finding result \<times> fstore"
where
  "record_finding fid now code tid key detail sample fs =
     (let P = same_open code tid key;
          fs1 = update_where P
            (\<lambda>f. f\<lparr>fi_count := fi_count f + 1, fi_last_seen_at := now, fi_detail := detail\<rparr>) fs in
      if rowcount P fs = 0 \<and> (\<exists>f \<in> set fs. fi_finding_id f = fid) then (Inl IntegrityError, fs)
      else
        let fs2 = (if rowcount P fs = 0 then fs1 @ [new_finding fid now code tid key detail sample]
                   else fs1) in
        case fetchone P fs2 of
          None \<Rightarrow> (Inl TypeError, fs)
        | Some f \<Rightarrow> (Inr f, fs2))"

definition list_findings :: "finding_state option \<Rightarrow> finding_code option \<Rightarrow> fstore \<Rightarrow> finding list" where
  "list_findings state code fs =
     sort_key (\<lambda>f. (fi_first_seen_at f, fi_finding_id f))
       (filter (\<lambda>f. (case state of None \<Rightarrow> True | Some s \<Rightarrow> fi_state f = s)
                   \<and> (case code of None \<Rightarrow> True | Some c \<Rightarrow> fi_code f = c)) fs)"

definition finding_key :: "finding \<Rightarrow> finding_code \<times> string \<times> string \<times> finding_state" where
  "finding_key f = (fi_code f, fi_terminal_id f, fi_dedupe_key f, fi_state f)"

definition resolve_finding :: "string \<Rightarrow> fstore \<Rightarrow> bool result \<times> fstore" where
  "resolve_finding fid fs =
     (let P = (\<lambda>f. fi_finding_id f = fid \<and> fi_state f = OPEN);
          fs' = update_where P (\<lambda>f. f\<lparr>fi_state := RESOLVED\<rparr>) fs in
      if distinct (map finding_key fs') then (Inr (rowcount P fs > 0), fs')
      else (Inl IntegrityError, fs))"

section \<open>The invariant\<close>

definition findings_ok :: "fstore \<Rightarrow> bool" where
  "findings_ok fs \<longleftrightarrow> distinct (map fi_finding_id fs) \<and> distinct (map finding_key fs)
     \<and> (\<forall>f \<in> set fs. 1 \<le> fi_count f)"

lemma same_open_key: "same_open c t k f \<longleftrightarrow> finding_key f = (c, t, k, OPEN)"
  by (auto simp: same_open_def finding_key_def)

lemma bump_keys:
  "map fi_finding_id (update_where P (\<lambda>f. f\<lparr>fi_count := g f, fi_last_seen_at := n, fi_detail := d\<rparr>) fs)
     = map fi_finding_id fs"
  "map finding_key (update_where P (\<lambda>f. f\<lparr>fi_count := g f, fi_last_seen_at := n, fi_detail := d\<rparr>) fs)
     = map finding_key fs"
  by (simp_all add: update_where_def finding_key_def)

lemma record_finding_ok:
  assumes "findings_ok fs"
  shows "findings_ok (snd (record_finding fid now c t k d s fs))"
proof (cases "rowcount (same_open c t k) fs = 0")
  case True
  then have none: "\<forall>f \<in> set fs. \<not> same_open c t k f"
    by (simp add: rowcount_def filter_empty_conv)
  then have same: "update_where (same_open c t k) g fs = fs" for g
    by (simp add: update_where_def map_idI)
  have "(c, t, k, OPEN) \<notin> finding_key ` set fs" using none by (auto simp: same_open_key)
  then show ?thesis
    using assms True by (auto simp: record_finding_def Let_def same findings_ok_def new_finding_def
        finding_key_def split: option.splits)
next
  case False
  then show ?thesis
    using assms by (auto simp: record_finding_def Let_def findings_ok_def bump_keys set_update_where
        split: option.splits)
qed

lemma resolve_finding_ok: "findings_ok fs \<Longrightarrow> findings_ok (snd (resolve_finding fid fs))"
  by (auto simp: resolve_finding_def Let_def findings_ok_def map_update_where_key set_update_where)

section \<open>Properties\<close>

text \<open>A repeated breach is one finding that counts. In a consistent table (one that has the schema's keys),
  recording a finding with a fresh id succeeds and leaves exactly one open finding for its code,
  terminal and dedupe key: a repeat raises the count of the standing one by one, keeps its id, first
  instant and sample, and stores the new detail; a first occurrence starts at one. The table stays
  consistent and no other finding changes.\<close>

theorem finding_recorded_once:
  assumes ok: "findings_ok fs" and fresh: "fid \<notin> fi_finding_id ` set fs"
  shows "\<exists>f fs'. record_finding fid now c t k d s fs = (Inr f, fs') \<and> findings_ok fs'
    \<and> filter (same_open c t k) fs' = [f]
    \<and> filter (\<lambda>x. \<not> same_open c t k x) fs' = filter (\<lambda>x. \<not> same_open c t k x) fs
    \<and> (case filter (same_open c t k) fs of
         [] \<Rightarrow> f = new_finding fid now c t k d s
       | old # _ \<Rightarrow> f = old\<lparr>fi_count := fi_count old + 1, fi_last_seen_at := now, fi_detail := d\<rparr>)"
proof -
  let ?P = "same_open c t k"
  let ?g = "\<lambda>f. f\<lparr>fi_count := fi_count f + 1, fi_last_seen_at := now, fi_detail := d\<rparr>"
  have keep: "?P (?g f) \<longleftrightarrow> ?P f" for f by (simp add: same_open_def)
  have upd: "filter ?P (update_where ?P ?g xs) = map ?g (filter ?P xs)"
    "filter (\<lambda>x. \<not> ?P x) (update_where ?P ?g xs) = filter (\<lambda>x. \<not> ?P x) xs" for xs
    by (induction xs) (auto simp: update_where_def keep)
  have okS: "findings_ok (snd (record_finding fid now c t k d s fs))" using record_finding_ok[OF ok] .
  show ?thesis
  proof (cases "filter ?P fs")
    case Nil
    then have none: "\<forall>f \<in> set fs. \<not> ?P f" by (simp add: filter_empty_conv)
    let ?n = "new_finding fid now c t k d s"
    have n: "?P ?n" by (simp add: same_open_def new_finding_def)
    have same: "update_where ?P ?g fs = fs" using none by (simp add: update_where_def map_idI)
    have "find ?P (fs @ [?n]) = Some ?n" using none n by (induction fs) auto
    then have "record_finding fid now c t k d s fs = (Inr ?n, fs @ [?n])"
      using Nil fresh by (auto simp: record_finding_def Let_def rowcount_def same fetchone_def)
    then show ?thesis using okS Nil n by auto
  next
    case (Cons old rest)
    have "distinct (map finding_key (old # rest))" "\<forall>f \<in> set (old # rest). finding_key f = (c, t, k, OPEN)"
      using ok distinct_map_filter[of finding_key fs ?P] by (auto simp: findings_ok_def Cons[symmetric] same_open_key)
    then have "rest = []" by (cases rest) auto
    with Cons have one: "filter ?P fs = [old]" by simp
    then have cnt: "rowcount ?P fs = 1" by (simp add: rowcount_def)
    have "filter ?P (update_where ?P ?g fs) = [?g old]" using upd(1) one by simp
    then have "fetchone ?P (update_where ?P ?g fs) = Some (?g old)"
      by (simp add: fetchone_filter)
    then have "record_finding fid now c t k d s fs = (Inr (?g old), update_where ?P ?g fs)"
      using cnt by (simp add: record_finding_def Let_def)
    then show ?thesis using okS one upd by auto
  qed
qed

theorem finding_recorded_once_witness:
  "\<exists>f fs'. record_finding ''b'' 7 DIAG_BAD_TRANSITION ''t'' ''k'' ''new'' None
       [new_finding ''a'' 3 DIAG_BAD_TRANSITION ''t'' ''k'' ''old'' None] = (Inr f, fs')
     \<and> fi_count f = 2 \<and> fi_finding_id f = ''a'' \<and> fi_detail f = ''new''"
proof -
  let ?fs = "[new_finding ''a'' 3 DIAG_BAD_TRANSITION ''t'' ''k'' ''old'' None]"
  have "findings_ok ?fs" "''b'' \<notin> fi_finding_id ` set ?fs"
    by (simp_all add: findings_ok_def new_finding_def)
  from finding_recorded_once[OF this, of 7 DIAG_BAD_TRANSITION "''t''" "''k''" "''new''" None]
  show ?thesis by (auto simp: new_finding_def same_open_def)
qed

text \<open>A problem that comes back can be resolved only once. When a finding was resolved and the same
  problem was then recorded again, resolving the new finding would make two resolved rows with the same
  code, terminal and dedupe key, which the schema's unique index forbids: \<open>resolve\<close> raises
  \<open>IntegrityError\<close>, and the finding stays open.\<close>

lemma second_resolve_rejected:
  assumes "f \<in> set fs" "fi_state f = OPEN" "distinct (map fi_finding_id fs)"
    and "g \<in> set fs" "fi_state g = RESOLVED"
    and "fi_code g = fi_code f" "fi_terminal_id g = fi_terminal_id f" "fi_dedupe_key g = fi_dedupe_key f"
  shows "resolve_finding (fi_finding_id f) fs = (Inl IntegrityError, fs)"
proof -
  let ?P = "\<lambda>x. fi_finding_id x = fi_finding_id f \<and> fi_state x = OPEN"
  let ?h = "\<lambda>x. if ?P x then x\<lparr>fi_state := RESOLVED\<rparr> else x"
  obtain i j where ij: "i < length fs" "fs ! i = f" "j < length fs" "fs ! j = g"
    using assms(1,4) by (auto simp: in_set_conv_nth)
  have "i \<noteq> j" using ij assms(2,5) by auto
  moreover have "finding_key (?h (fs ! i)) = finding_key (?h (fs ! j))"
    using ij assms by (simp add: finding_key_def)
  ultimately have "\<not> distinct (map finding_key (map ?h fs))"
    using ij by (metis (no_types, lifting) distinct_conv_nth length_map nth_map)
  then show ?thesis by (simp add: resolve_finding_def Let_def update_where_def)
qed

lemma second_resolve_rejected_witness:
  "let f = new_finding ''b'' 9 DIAG_BAD_TRANSITION ''t'' ''k'' [] None;
       g = (new_finding ''a'' 3 DIAG_BAD_TRANSITION ''t'' ''k'' [] None)\<lparr>fi_state := RESOLVED\<rparr> in
   resolve_finding ''b'' [g, f] = (Inl IntegrityError, [g, f])"
proof -
  let ?f = "new_finding ''b'' 9 DIAG_BAD_TRANSITION ''t'' ''k'' [] None"
  let ?g = "(new_finding ''a'' 3 DIAG_BAD_TRANSITION ''t'' ''k'' [] None)\<lparr>fi_state := RESOLVED\<rparr>"
  have "resolve_finding (fi_finding_id ?f) [?g, ?f] = (Inl IntegrityError, [?g, ?f])"
    by (rule second_resolve_rejected[of ?f _ ?g]) (simp_all add: new_finding_def)
  then show ?thesis by (simp add: Let_def new_finding_def)
qed

end
