(* ===== verification/Delivery_Wake.thy ===== *)
theory Delivery_Wake
  imports Queue_Promises Finding_Store
begin

text \<open>
  The wake service: \<open>app/delivery/wake.py\<close>, which hands the digest of one epoch to the carrier its
  receiver's role dictates. The three ports it holds (receiver directory, seat carrier, pane injector)
  are outside the repository's core and are arguments: functions of the number of port calls made so
  far, so that the environment may answer the same question differently at different times, that return
  a value or raise. The world carries the stores, that counter, the number of ids minted, the report of
  the running tick, and a log of what was handed to a carrier, which no code reads.
\<close>

section \<open>Ports and world\<close>

record wake_report =
  wr_receiver_id :: string
  wr_epoch :: int
  wr_carrier :: string
  wr_outcome :: attempt_outcome
  wr_emitted :: bool
  wr_recordable :: bool
  wr_detail :: string
  wr_finding_reason :: "string option"
  wr_wake_count :: int
  wr_line :: string
  wr_annotations :: "string list"

record tick_report =
  tr_adopted :: "legacy_adoption list"
  tr_reoffered :: nat
  tr_incremented :: nat
  tr_dead :: "dead_row list"
  tr_notices_enqueued :: nat
  tr_epochs_opened :: nat
  tr_epochs_closed :: nat
  tr_wakes :: "wake_report list"

definition TickReport :: tick_report where
  "TickReport = \<lparr>tr_adopted = [], tr_reoffered = 0, tr_incremented = 0, tr_dead = [],
     tr_notices_enqueued = 0, tr_epochs_opened = 0, tr_epochs_closed = 0, tr_wakes = []\<rparr>"

text \<open>A row of the legacy inbox (\<open>InboxModel\<close> of \<open>clients/database.py\<close>), as far as its adoption reads it.\<close>

record legacy_row =
  lg_id :: int
  lg_sender_id :: string
  lg_receiver_id :: string
  lg_logical_receiver_id :: "string option"
  lg_message :: string
  lg_orchestration_type :: string
  lg_status :: string
  lg_park_warm :: "bool option"
  lg_barrier_id :: "int option"
  lg_barrier_member_key :: "string option"
  lg_enqueue_generation :: "int option"
  lg_expire_after_s :: "int option"
  lg_supersede_key :: "string option"

text \<open>What reached a carrier: the terminal, the line and, for the seat, the sender and the wake's id.\<close>

datatype emission = SeatWake string string string string string | PanePaste string string

record world =
  w_queue :: qstore
  w_findings :: "fstore option"
  w_inbox :: "legacy_row list"
  w_poison :: "int list"
  w_ids :: nat
  w_io :: nat
  w_report :: tick_report
  w_log :: "emission list"

record ports =
  p_resolve :: "nat \<Rightarrow> string \<Rightarrow> receiver_resolution result"
  p_emit :: "nat \<Rightarrow> string \<Rightarrow> string \<Rightarrow> string \<Rightarrow> string \<Rightarrow> string \<Rightarrow> wake_emission result"
  p_inject :: "nat \<Rightarrow> string \<Rightarrow> string \<Rightarrow> injection_result result"
  p_sha :: "string \<Rightarrow> string"
  p_mint :: "nat \<Rightarrow> string"

type_synonym 'a act = "(world, 'a) action"

definition call_resolve :: "ports \<Rightarrow> string \<Rightarrow> receiver_resolution act" where
  "call_resolve p r w = (p_resolve p (w_io w) r, w\<lparr>w_io := w_io w + 1\<rparr>)"

definition call_emit ::
  "ports \<Rightarrow> string \<Rightarrow> string \<Rightarrow> string \<Rightarrow> string \<Rightarrow> string \<Rightarrow> wake_emission act" where
  "call_emit p tid line key name i w =
     (p_emit p (w_io w) tid line key name i,
      w\<lparr>w_io := w_io w + 1, w_log := w_log w @ [SeatWake tid line key name i]\<rparr>)"

definition call_inject :: "ports \<Rightarrow> string \<Rightarrow> string \<Rightarrow> injection_result act" where
  "call_inject p tid line w =
     (p_inject p (w_io w) tid line,
      w\<lparr>w_io := w_io w + 1, w_log := w_log w @ [PanePaste tid line]\<rparr>)"

section \<open>The wake service\<close>

definition wake_msg_id :: "seat_digest \<Rightarrow> int \<Rightarrow> string" where
  "wake_msg_id d wake_count =
     sd_receiver_id d @ '':'' @ py_str (sd_epoch d) @ '':'' @ py_str wake_count"

fun distinct_starts :: "time list \<Rightarrow> nat \<Rightarrow> delivery_attempt list \<Rightarrow> delivery_attempt list" where
  "distinct_starts seen limit [] = []"
| "distinct_starts seen limit (a # as) =
     (if da_started_at a \<in> set seen then distinct_starts seen limit as
      else if length seen + 1 = limit then [a]
      else a # distinct_starts (da_started_at a # seen) limit as)"

definition recent_wake_attempts :: "qstore \<Rightarrow> seat_digest \<Rightarrow> nat \<Rightarrow> delivery_attempt list" where
  "recent_wake_attempts st d limit =
     distinct_starts [] limit
       (sort_key (\<lambda>a. - da_started_at a)
         (concat (map (\<lambda>i. filter (\<lambda>a. da_carrier a = CARRIER_SEAT_WAKE) (attempts_for i st))
           (sd_msg_ids d))))"

definition streak_reason :: "qstore \<Rightarrow> seat_digest \<Rightarrow> string option" where
  "streak_reason st d =
     (let recent = recent_wake_attempts st d (UNVERIFIED_STREAK_LEASES - 1) in
      if length recent < UNVERIFIED_STREAK_LEASES - 1 then None
      else if \<forall>a \<in> set recent. da_outcome a = EMITTED_UNVERIFIED then Some WAKE_UNVERIFIED_STREAK
      else None)"

definition compose :: "seat_digest \<Rightarrow> (string \<times> int) act" where
  "compose d w =
     (let (wake_count, st) = bump_wake_count (sd_receiver_id d) (sd_epoch d) (w_queue w);
          w' = w\<lparr>w_queue := st\<rparr> in
      if wake_count = 0 then (Inr ([], 0), w')
      else (Inr (build_digest_line (sd_epoch d) (int (length (sd_msg_ids d))) wake_count (sd_msg_ids d),
                 wake_count), w'))"

definition seat_report ::
  "seat_digest \<Rightarrow> string \<Rightarrow> int \<Rightarrow> wake_sender \<Rightarrow> wake_emission \<Rightarrow> qstore \<Rightarrow> wake_report" where
  "seat_report d line wake_count sender em st =
     (let annotations = (if ws_substituted sender then [SENDER_SUBSTITUTED] else []) @ we_annotations em;
          reason = (if we_reason em = None \<and> \<not> we_verified em then Some ''wake_unverified''
                    else we_reason em);
          c = classify_wake_reason reason;
          finding_reason = (if wc_outcome c = EMITTED_UNVERIFIED then streak_reason st d
                            else if wc_finding c then Some (wc_reason c) else None) in
      \<lparr>wr_receiver_id = sd_receiver_id d, wr_epoch = sd_epoch d, wr_carrier = CARRIER_SEAT_WAKE,
       wr_outcome = wc_outcome c, wr_emitted = wc_emitted c, wr_recordable = True,
       wr_detail = py_join ''|'' (filter (\<lambda>s. s \<noteq> []) ([wc_reason c] @ annotations @ [we_detail em])),
       wr_finding_reason = finding_reason, wr_wake_count = wake_count, wr_line = line,
       wr_annotations = annotations\<rparr>)"

definition wake_seat :: "ports \<Rightarrow> seat_digest \<Rightarrow> receiver_resolution \<Rightarrow> string \<Rightarrow> int \<Rightarrow> wake_report act" where
  "wake_seat p d r line wake_count w =
     (let senders = senders_of (sd_msg_ids d) (w_queue w);
          sender = resolve_wake_sender senders (rr_receiver_id r) in
      andthen (call_emit p (rr_terminal_id r) line (ws_key sender) (ws_name sender) (wake_msg_id d wake_count))
        (\<lambda>em w'. (Inr (seat_report d line wake_count sender em (w_queue w')), w')) w)"

definition inject_worker ::
  "ports \<Rightarrow> seat_digest \<Rightarrow> receiver_resolution \<Rightarrow> string \<Rightarrow> int \<Rightarrow> wake_report act" where
  "inject_worker p d r line wake_count =
     (if rr_is_supervisor r
      then return_act
        \<lparr>wr_receiver_id = sd_receiver_id d, wr_epoch = sd_epoch d, wr_carrier = CARRIER_PANE,
         wr_outcome = wc_outcome (classify_wake_reason (Some WAKE_PASTE_ATTEMPTED)),
         wr_emitted = False, wr_recordable = True, wr_detail = WAKE_PASTE_ATTEMPTED,
         wr_finding_reason = Some WAKE_PASTE_ATTEMPTED, wr_wake_count = wake_count, wr_line = [],
         wr_annotations = []\<rparr>
      else andthen (call_inject p (rr_terminal_id r) line)
        (\<lambda>result. return_act
          \<lparr>wr_receiver_id = sd_receiver_id d, wr_epoch = sd_epoch d, wr_carrier = CARRIER_PANE,
           wr_outcome = ir_outcome result, wr_emitted = (ir_outcome result = OUT_DELIVERED),
           wr_recordable = True, wr_detail = ir_detail result, wr_finding_reason = None,
           wr_wake_count = wake_count, wr_line = line, wr_annotations = []\<rparr>))"

definition absent_report :: "seat_digest \<Rightarrow> wake_report" where
  "absent_report d =
     \<lparr>wr_receiver_id = sd_receiver_id d, wr_epoch = sd_epoch d, wr_carrier = CARRIER_PANE,
      wr_outcome = PANE_ABSENT, wr_emitted = False, wr_recordable = True, wr_detail = WAKE_PANE_ABSENT,
      wr_finding_reason = None, wr_wake_count = 0, wr_line = [], wr_annotations = []\<rparr>"

definition closed_report :: "seat_digest \<Rightarrow> receiver_resolution \<Rightarrow> wake_report" where
  "closed_report d r =
     \<lparr>wr_receiver_id = sd_receiver_id d, wr_epoch = sd_epoch d,
      wr_carrier = (if rr_is_supervisor r then CARRIER_SEAT_WAKE else CARRIER_PANE),
      wr_outcome = OUT_DELIVERED, wr_emitted = False, wr_recordable = False,
      wr_detail = ''epoch_closed'', wr_finding_reason = None, wr_wake_count = 0, wr_line = [],
      wr_annotations = []\<rparr>"

definition deliver :: "ports \<Rightarrow> seat_digest \<Rightarrow> wake_report act" where
  "deliver p d =
     andthen (call_resolve p (sd_receiver_id d)) (\<lambda>r.
       if \<not> rr_live r then return_act (absent_report d)
       else andthen (compose d) (\<lambda>(line, wake_count).
         if wake_count = 0 then return_act (closed_report d r)
         else if rr_is_supervisor r then wake_seat p d r line wake_count
         else inject_worker p d r line wake_count))"

end
