(* ===== verification/Legacy_Adoption.thy ===== *)
theory Legacy_Adoption
  imports Delivery_Wake
begin

text \<open>
  The adopter the composition root wires into the tick: \<open>LegacyInboxAdoption\<close> of \<open>services/queue_carrier.py\<close>, over
  \<open>adopt_orphaned_legacy_rows\<close> of \<open>clients/database.py\<close> and \<open>adopt_legacy_row\<close> of \<open>app/delivery/wiring.py\<close>. The
  inbox and the skip set are part of the world. \<open>busy\<close> says, for the running number of an access, whether the
  database refuses it (a lock, an unreachable file, a delivery runtime that is not installed): every such
  refusal is caught, so it is a branch of the model and no assumption.
\<close>

section \<open>The identity of a message\<close>

definition ATTESTATION_OPEN :: string where "ATTESTATION_OPEN = ''[FROZEN-PIN-ATTESTATION''"

abbreviation bracket_close :: char where "bracket_close \<equiv> char_of (93 :: nat)"
abbreviation line_feed :: char where "line_feed \<equiv> char_of (10 :: nat)"

text \<open>The pattern: the opening text, anything but a closing bracket, the bracket, and line feeds.\<close>

definition at_attestation :: "string \<Rightarrow> bool" where
  "at_attestation s \<longleftrightarrow> take (length ATTESTATION_OPEN) s = ATTESTATION_OPEN
     \<and> bracket_close \<in> set (drop (length ATTESTATION_OPEN) s)"

definition after_attestation :: "string \<Rightarrow> string" where
  "after_attestation s = dropWhile (\<lambda>c. c = line_feed)
     (tl (dropWhile (\<lambda>c. c \<noteq> bracket_close) (drop (length ATTESTATION_OPEN) s)))"

function strip_attestations :: "string \<Rightarrow> string" where
  "strip_attestations [] = []"
| "strip_attestations (c # s) =
     (if at_attestation (c # s) then strip_attestations (after_attestation (c # s))
      else c # strip_attestations s)"
  by pat_completeness auto

lemma after_attestation_shorter: "at_attestation s \<Longrightarrow> length (after_attestation s) < length s"
proof -
  let ?s = "drop (length ATTESTATION_OPEN) s"
  assume "at_attestation s"
  then have "take (length ATTESTATION_OPEN) s \<noteq> []" by (auto simp: at_attestation_def ATTESTATION_OPEN_def)
  moreover have "length (after_attestation s) \<le> length ?s"
    using length_dropWhile_le[of "\<lambda>c. c = line_feed" "tl (dropWhile (\<lambda>c. c \<noteq> bracket_close) ?s)"]
      length_dropWhile_le[of "\<lambda>c. c \<noteq> bracket_close" ?s]
    by (simp add: after_attestation_def)
  ultimately show ?thesis by (cases s) (auto simp: ATTESTATION_OPEN_def)
qed

termination strip_attestations
  by (relation "measure length") (auto dest: after_attestation_shorter)

definition normalize_message :: "string \<Rightarrow> string" where
  "normalize_message message = strip (strip_attestations message)"

section \<open>One row\<close>

definition durable_receiver :: "legacy_row \<Rightarrow> string" where
  "durable_receiver row =
     (case lg_logical_receiver_id row of
        None \<Rightarrow> lg_receiver_id row
      | Some r \<Rightarrow> if r = [] then lg_receiver_id row else r)"

definition adoption_key :: "int \<Rightarrow> string" where
  "adoption_key legacy_id = ''adopted-inbox:'' @ py_str legacy_id"

definition row_orchestration :: "legacy_row \<Rightarrow> string" where
  "row_orchestration row =
     (if lg_orchestration_type row = [] then ''send_message'' else lg_orchestration_type row)"

definition legacy_draft :: "(string \<Rightarrow> string) \<Rightarrow> legacy_row \<Rightarrow> enqueue_draft" where
  "legacy_draft sha row =
     \<lparr> ed_idempotency_key = adoption_key (lg_id row), ed_receiver_id = durable_receiver row,
       ed_sender_id = lg_sender_id row,
       ed_kind = (if row_orchestration row = ''send_message'' then CALLBACK else NOTE),
       ed_payload = lg_message row, ed_mode = LIVE, ed_max_attempts = DELIVERY_MAX_ATTEMPTS T0,
       ed_expire_after_s = lg_expire_after_s row, ed_supersede_key = lg_supersede_key row,
       ed_content_hash = Some (sha (normalize_message (lg_message row))),
       ed_park_warm = (lg_park_warm row = Some True), ed_barrier_id = lg_barrier_id row,
       ed_barrier_member_key = lg_barrier_member_key row, ed_enqueue_generation = lg_enqueue_generation row,
       ed_cancel_on_complete = False, ed_is_notice = False, ed_legacy_message_id = Some (lg_id row) \<rparr>"

text \<open>\<open>adopt_legacy_row\<close>: only the store's explicit refusal of this row gets out, everything else is None.\<close>

definition PERSISTENT :: "py_error list" where
  "PERSISTENT = [PersistentEnqueueRejection, IdempotencyConflict]"

definition adopt_legacy_row ::
  "ports \<Rightarrow> time \<Rightarrow> (nat \<Rightarrow> bool) \<Rightarrow> legacy_row \<Rightarrow> string option act"
where
  "adopt_legacy_row p clk busy row w =
     (let w1 = w\<lparr>w_io := w_io w + 1\<rparr> in
      if busy (w_io w) then (Inr None, w1)
      else case enqueue (p_sha p) clk (p_mint p (w_ids w)) (legacy_draft (p_sha p) row) (w_queue w) of
        (Inl e, st) \<Rightarrow> ((if e \<in> set PERSISTENT then Inl e else Inr None), w1\<lparr>w_queue := st, w_ids := w_ids w + 1\<rparr>)
      | (Inr m, st) \<Rightarrow> (Inr (Some (qm_msg_id m)), w1\<lparr>w_queue := st, w_ids := w_ids w + 1\<rparr>))"

text \<open>The retirement, conditional on the row still being pending.\<close>

definition pending_row :: "int \<Rightarrow> legacy_row \<Rightarrow> bool" where
  "pending_row i row \<longleftrightarrow> lg_id row = i \<and> lg_status row = ''pending''"

definition retire_row :: "(nat \<Rightarrow> bool) \<Rightarrow> int \<Rightarrow> world \<Rightarrow> bool \<times> world" where
  "retire_row busy i w =
     (let w1 = w\<lparr>w_io := w_io w + 1\<rparr> in
      if busy (w_io w) then (False, w1)
      else (0 < rowcount (pending_row i) (w_inbox w),
            w1\<lparr>w_inbox := update_where (pending_row i) (\<lambda>row. row\<lparr>lg_status := ''adopted''\<rparr>) (w_inbox w)\<rparr>))"

section \<open>One pass\<close>

fun adopt_rows ::
  "ports \<Rightarrow> time \<Rightarrow> (nat \<Rightarrow> bool) \<Rightarrow> legacy_row list \<Rightarrow> world \<Rightarrow> (int \<times> string \<times> string) list \<times> world"
where
  "adopt_rows p clk busy [] w = ([], w)"
| "adopt_rows p clk busy (row # rows) w =
     (if durable_receiver row = [] then adopt_rows p clk busy rows (w\<lparr>w_poison := lg_id row # w_poison w\<rparr>)
      else case adopt_legacy_row p clk busy row w of
        (Inl e, w1) \<Rightarrow> adopt_rows p clk busy rows (w1\<lparr>w_poison := lg_id row # w_poison w1\<rparr>)
      | (Inr None, w1) \<Rightarrow> adopt_rows p clk busy rows w1
      | (Inr (Some msg_id), w1) \<Rightarrow>
          (let (changed, w2) = retire_row busy (lg_id row) w1;
               (adopted, w3) = adopt_rows p clk busy rows w2
           in ((if changed then (lg_id row, msg_id, durable_receiver row) # adopted else adopted), w3)))"

definition candidates :: "int \<Rightarrow> world \<Rightarrow> legacy_row list" where
  "candidates limit w =
     take (nat (max 1 limit))
       (sort_key lg_id (filter (\<lambda>row. lg_status row = ''pending'' \<and> lg_id row \<notin> set (w_poison w)) (w_inbox w)))"

definition adopt_orphaned_legacy_rows ::
  "ports \<Rightarrow> time \<Rightarrow> (nat \<Rightarrow> bool) \<Rightarrow> int \<Rightarrow> world \<Rightarrow> (int \<times> string \<times> string) list \<times> world"
where
  "adopt_orphaned_legacy_rows p clk busy limit w =
     (let w1 = w\<lparr>w_io := w_io w + 1\<rparr> in
      if busy (w_io w) then ([], w1) else adopt_rows p clk busy (candidates limit w) w1)"

text \<open>\<open>LegacyInboxAdoption.adopt_orphans\<close>, the adopter of the production tick.\<close>

definition legacy_inbox_adoption ::
  "ports \<Rightarrow> time \<Rightarrow> (nat \<Rightarrow> bool) \<Rightarrow> int \<Rightarrow> legacy_adoption list act"
where
  "legacy_inbox_adoption p clk busy limit w =
     (let (rows, w1) = adopt_orphaned_legacy_rows p clk busy limit w
      in (Inr (map (\<lambda>(legacy_id, msg_id, receiver).
                 \<lparr>la_legacy_message_id = legacy_id, la_msg_id = msg_id, la_receiver_id = receiver\<rparr>) rows), w1))"

section \<open>What a pass does\<close>

text \<open>What the queue holds under the key of a row: its message, addressed to its receiver.\<close>

definition carries :: "(string \<Rightarrow> string) \<Rightarrow> qstore \<Rightarrow> legacy_row \<Rightarrow> string \<Rightarrow> bool" where
  "carries sha st row msg_id \<longleftrightarrow>
     (\<exists>m \<in> set (q_msgs st). qm_msg_id m = msg_id \<and> qm_idempotency_key m = adoption_key (lg_id row)
        \<and> qm_payload_digest m = sha (lg_message row))"

lemma enqueue_msgs:
  "q_msgs (snd (enqueue sha clk i d st)) = q_msgs st
    \<or> (q_msgs (snd (enqueue sha clk i d st)) = q_msgs st @ [new_row sha clk i d]
       \<and> ed_idempotency_key d \<notin> qm_idempotency_key ` set (q_msgs st))"
  by (auto simp: enqueue_def Let_def image_iff split: option.splits sum.splits if_splits)

lemma enqueue_returns:
  assumes "enqueue sha clk i d st = (Inr m, st')"
  shows "m \<in> set (q_msgs st') \<and> qm_idempotency_key m = ed_idempotency_key d \<and> qm_payload_digest m = sha (ed_payload d)"
  using assms
  by (auto simp: enqueue_def Let_def row_to_message_def dest!: fetchone_SomeD split: option.splits sum.splits if_splits)

definition handed_rows ::
  "(string \<Rightarrow> string) \<Rightarrow> time \<Rightarrow> legacy_row list \<Rightarrow> queue_message list \<Rightarrow> queue_message list \<Rightarrow> bool"
where
  "handed_rows sha clk rows old new \<longleftrightarrow>
     distinct (map qm_idempotency_key new)
     \<and> (\<forall>m \<in> set new. qm_idempotency_key m \<notin> qm_idempotency_key ` set old
          \<and> (\<exists>row \<in> set rows. m = new_row sha clk (qm_msg_id m) (legacy_draft sha row)))"

lemma handed_none: "handed_rows sha clk rows old []"
  by (simp add: handed_rows_def)

lemma handed_more:
  assumes "handed_rows sha clk [row] old new" and "handed_rows sha clk rows (old @ new) new'"
  shows "handed_rows sha clk (row # rows) old (new @ new')"
  using assms by (auto simp: handed_rows_def) (metis UnI2 imageI)

lemma adoption_key_inj: "adoption_key i = adoption_key j \<longleftrightarrow> i = j"
  using py_str_inj by (auto simp: adoption_key_def)

lemma adopt_legacy_row_effect:
  assumes "adopt_legacy_row p clk busy row w = (res, w1)"
  shows "w_inbox w1 = w_inbox w" and "w_poison w1 = w_poison w"
    and "\<exists>new. q_msgs (w_queue w1) = q_msgs (w_queue w) @ new \<and> handed_rows (p_sha p) clk [row] (q_msgs (w_queue w)) new"
    and "res = Inr (Some msg_id) \<Longrightarrow> carries (p_sha p) (w_queue w1) row msg_id"
proof -
  let ?i = "p_mint p (w_ids w)" and ?d = "legacy_draft (p_sha p) row"
  let ?q = "enqueue (p_sha p) clk ?i ?d (w_queue w)"
  have "w_inbox w1 = w_inbox w \<and> w_poison w1 = w_poison w
    \<and> (\<exists>new. q_msgs (w_queue w1) = q_msgs (w_queue w) @ new \<and> handed_rows (p_sha p) clk [row] (q_msgs (w_queue w)) new)
    \<and> (res = Inr (Some msg_id) \<longrightarrow> carries (p_sha p) (w_queue w1) row msg_id)"
  proof (cases "busy (w_io w)")
    case True
    then show ?thesis using assms handed_none by (auto simp: adopt_legacy_row_def Let_def)
  next
    case False
    obtain r st where q: "?q = (r, st)" by fastforce
    have new: "\<exists>new. q_msgs st = q_msgs (w_queue w) @ new \<and> handed_rows (p_sha p) clk [row] (q_msgs (w_queue w)) new"
      using enqueue_msgs[of "p_sha p" clk ?i ?d "w_queue w"] q by (auto simp: handed_rows_def new_row_def)
    show ?thesis
    proof (cases r)
      case (Inl e)
      then show ?thesis using assms False q new by (auto simp: adopt_legacy_row_def Let_def split: if_splits)
    next
      case (Inr m)
      have "m \<in> set (q_msgs st)" "qm_idempotency_key m = adoption_key (lg_id row)"
        "qm_payload_digest m = p_sha p (lg_message row)"
        using enqueue_returns[OF q[unfolded Inr]] by (simp_all add: legacy_draft_def)
      then show ?thesis using assms False q new Inr by (auto simp: adopt_legacy_row_def Let_def carries_def)
    qed
  qed
  then show "w_inbox w1 = w_inbox w" and "w_poison w1 = w_poison w"
    and "\<exists>new. q_msgs (w_queue w1) = q_msgs (w_queue w) @ new \<and> handed_rows (p_sha p) clk [row] (q_msgs (w_queue w)) new"
    and "res = Inr (Some msg_id) \<Longrightarrow> carries (p_sha p) (w_queue w1) row msg_id" by blast+
qed

definition retired :: "int set \<Rightarrow> legacy_row list \<Rightarrow> legacy_row list" where
  "retired ids rows = map (\<lambda>row. if lg_id row \<in> ids then row\<lparr>lg_status := ''adopted''\<rparr> else row) rows"

lemma retired_twice: "retired ids' (retired ids rows) = retired (ids \<union> ids') rows"
  by (simp add: retired_def)

lemma retired_ids [simp]: "map lg_id (retired ids rows) = map lg_id rows"
  by (simp add: retired_def)

lemma retired_nothing [simp]: "retired {} rows = rows"
  by (simp add: retired_def)

lemma retire_row_effect:
  assumes "distinct (map lg_id (w_inbox w))" and "row \<in> set (w_inbox w)" and "lg_status row = ''pending''"
    and "retire_row busy (lg_id row) w = (changed, w')"
  shows "w_inbox w' = retired (if changed then {lg_id row} else {}) (w_inbox w)"
    and "w_queue w' = w_queue w" and "w_poison w' = w_poison w"
proof -
  have only: "x = row" if "x \<in> set (w_inbox w)" "lg_id x = lg_id row" for x
    using assms(1,2) that by (auto simp: distinct_map inj_on_def)
  have "0 < rowcount (pending_row (lg_id row)) (w_inbox w)"
    using assms(2,3) by (auto simp: rowcount_def pending_row_def filter_empty_conv)
  moreover have "update_where (pending_row (lg_id row)) (\<lambda>row. row\<lparr>lg_status := ''adopted''\<rparr>) (w_inbox w)
      = retired {lg_id row} (w_inbox w)"
    unfolding update_where_def retired_def
    by (rule map_cong[OF refl]) (use only assms(3) in \<open>auto simp: pending_row_def\<close>)
  ultimately show "w_inbox w' = retired (if changed then {lg_id row} else {}) (w_inbox w)"
    and "w_queue w' = w_queue w" and "w_poison w' = w_poison w"
    using assms(4) by (auto simp: retire_row_def Let_def split: if_splits)
qed

text \<open>The contract of a pass over rows that were read as pending.\<close>

definition pass_ok ::
  "ports \<Rightarrow> time \<Rightarrow> legacy_row list \<Rightarrow> world \<Rightarrow> (int \<times> string \<times> string) list \<Rightarrow> world \<Rightarrow> bool"
where
  "pass_ok p clk rows w adopted w' \<longleftrightarrow>
     w_inbox w' = retired (fst ` set adopted) (w_inbox w)
     \<and> set (w_poison w) \<subseteq> set (w_poison w')
     \<and> length adopted \<le> length rows
     \<and> (\<forall>(i, msg_id, r) \<in> set adopted. \<exists>row \<in> set rows. i = lg_id row \<and> r = durable_receiver row \<and> r \<noteq> []
          \<and> carries (p_sha p) (w_queue w') row msg_id)
     \<and> (\<exists>new. q_msgs (w_queue w') = q_msgs (w_queue w) @ new
          \<and> handed_rows (p_sha p) clk rows (q_msgs (w_queue w)) new)"

lemma carries_more: "carries sha st row m \<Longrightarrow> q_msgs st' = q_msgs st @ new \<Longrightarrow> carries sha st' row m"
  by (auto simp: carries_def)

lemma pass_skip:
  assumes "pass_ok p clk rows w1 adopted w'" and "w_inbox w1 = w_inbox w" and "set (w_poison w) \<subseteq> set (w_poison w1)"
    and "q_msgs (w_queue w1) = q_msgs (w_queue w) @ new" and "handed_rows (p_sha p) clk [row] (q_msgs (w_queue w)) new"
  shows "pass_ok p clk (row # rows) w adopted w'"
proof -
  obtain new' where "q_msgs (w_queue w') = q_msgs (w_queue w) @ new @ new'"
      "handed_rows (p_sha p) clk rows (q_msgs (w_queue w) @ new) new'"
    using assms(1,4) by (auto simp: pass_ok_def)
  then have "\<exists>new. q_msgs (w_queue w') = q_msgs (w_queue w) @ new
      \<and> handed_rows (p_sha p) clk (row # rows) (q_msgs (w_queue w)) new"
    using handed_more[OF assms(5)] by blast
  then show ?thesis using assms(1-3) by (auto simp: pass_ok_def)
qed

lemma pass_take:
  assumes "pass_ok p clk rows w2 adopted w'" and "w_inbox w2 = retired (if changed then {lg_id row} else {}) (w_inbox w)"
    and "w_poison w2 = w_poison w" and "q_msgs (w_queue w2) = q_msgs (w_queue w) @ new"
    and "handed_rows (p_sha p) clk [row] (q_msgs (w_queue w)) new"
    and "carries (p_sha p) (w_queue w2) row msg_id" and "durable_receiver row \<noteq> []"
  shows "pass_ok p clk (row # rows) w
    (if changed then (lg_id row, msg_id, durable_receiver row) # adopted else adopted) w'"
proof -
  obtain new' where new': "q_msgs (w_queue w') = q_msgs (w_queue w2) @ new'"
      "handed_rows (p_sha p) clk rows (q_msgs (w_queue w) @ new) new'"
    using assms(1,4) by (auto simp: pass_ok_def)
  have "carries (p_sha p) (w_queue w') row msg_id" using carries_more[OF assms(6) new'(1)] .
  moreover have "\<exists>new. q_msgs (w_queue w') = q_msgs (w_queue w) @ new
      \<and> handed_rows (p_sha p) clk (row # rows) (q_msgs (w_queue w)) new"
    using handed_more[OF assms(5) new'(2)] new'(1) assms(4) by auto
  ultimately show ?thesis using assms(1-3,7) by (auto simp: pass_ok_def retired_twice)
qed

lemma adopt_rows_pass:
  assumes "adopt_rows p clk busy rows w = (adopted, w')"
    and "distinct (map lg_id (w_inbox w))" and "distinct (map lg_id rows)"
    and "\<forall>row \<in> set rows. row \<in> set (w_inbox w) \<and> lg_status row = ''pending''"
  shows "pass_ok p clk rows w adopted w'"
  using assms
proof (induction p clk busy rows w arbitrary: adopted w' rule: adopt_rows.induct)
  case (1 p clk busy w)
  then show ?case by (simp add: pass_ok_def handed_none)
next
  case (2 p clk busy row rows w)
  have row: "row \<in> set (w_inbox w)" "lg_status row = ''pending''" and rows: "distinct (map lg_id rows)"
    and others: "\<forall>r \<in> set rows. r \<in> set (w_inbox w) \<and> lg_status r = ''pending''"
    using "2.prems"(3,4) by auto
  show ?case
  proof (cases "durable_receiver row = []")
    case True
    let ?w1 = "w\<lparr>w_poison := lg_id row # w_poison w\<rparr>"
    have "pass_ok p clk rows ?w1 adopted w'"
      using "2.IH"(1)[OF True] "2.prems" True rows others by simp
    then show ?thesis by (rule pass_skip[where new = "[]"]) (auto simp: handed_none)
  next
    case named: False
    obtain res w1 where al: "adopt_legacy_row p clk busy row w = (res, w1)" by fastforce
    note eff = adopt_legacy_row_effect[OF al]
    obtain new where new: "q_msgs (w_queue w1) = q_msgs (w_queue w) @ new"
      "handed_rows (p_sha p) clk [row] (q_msgs (w_queue w)) new" using eff(3) by blast
    consider e where "res = Inl e" | "res = Inr None" | msg_id where "res = Inr (Some msg_id)"
    proof (cases res)
      case (Inl e)
      then show thesis by (rule that(1))
    next
      case (Inr answer)
      then show thesis using that(2,3) by (cases answer) simp_all
    qed
    then show ?thesis
    proof cases
      case 1
      have "pass_ok p clk rows (w1\<lparr>w_poison := lg_id row # w_poison w1\<rparr>) adopted w'"
        using "2.IH"(2)[OF named al[symmetric] 1] "2.prems" named al 1 rows others eff(1) by simp
      then show ?thesis by (rule pass_skip) (use eff new in auto)
    next
      case 2
      have "pass_ok p clk rows w1 adopted w'"
        using "2.IH"(3)[OF named al[symmetric] 2] "2.prems" named al 2 rows others eff(1) by simp
      then show ?thesis by (rule pass_skip) (use eff new in auto)
    next
      case 3
      obtain changed w2 where ret: "retire_row busy (lg_id row) w1 = (changed, w2)" by fastforce
      obtain adopted' w3 where rest: "adopt_rows p clk busy rows w2 = (adopted', w3)" by fastforce
      have dist1: "distinct (map lg_id (w_inbox w1))" and in1: "row \<in> set (w_inbox w1)"
        using "2.prems"(2) row(1) eff(1) by simp_all
      note reff = retire_row_effect[OF dist1 in1 row(2) ret]
      have "\<forall>r \<in> set rows. r \<in> set (w_inbox w2) \<and> lg_status r = ''pending''"
      proof
        fix r assume r: "r \<in> set rows"
        then have "lg_id r \<in> lg_id ` set rows" by simp
        moreover have "lg_id row \<notin> lg_id ` set rows" using "2.prems"(3) by simp
        ultimately have "lg_id r \<noteq> lg_id row" by metis
        with r show "r \<in> set (w_inbox w2) \<and> lg_status r = ''pending''"
          using others reff(1) eff(1) by (force simp: retired_def)
      qed
      then have "pass_ok p clk rows w2 adopted' w3"
        using "2.IH"(4)[OF named al[symmetric] 3 refl ret[symmetric] refl rest] dist1 rows reff(1) by simp
      then have "pass_ok p clk (row # rows) w
          (if changed then (lg_id row, msg_id, durable_receiver row) # adopted' else adopted') w3"
        by (rule pass_take) (use reff eff new named 3 carries_def in auto)
      then show ?thesis using "2.prems"(1) named al 3 ret rest by (auto simp: Let_def split: if_splits)
    qed
  qed
qed

lemma candidates_read:
  assumes "distinct (map lg_id (w_inbox w))"
  shows "distinct (map lg_id (candidates limit w))"
    and "\<forall>row \<in> set (candidates limit w). row \<in> set (w_inbox w) \<and> lg_status row = ''pending''
      \<and> lg_id row \<notin> set (w_poison w)"
    and "length (candidates limit w) \<le> nat (max 1 limit)"
proof -
  let ?P = "\<lambda>row. lg_status row = ''pending'' \<and> lg_id row \<notin> set (w_poison w)"
  let ?s = "sort_key lg_id (filter ?P (w_inbox w))"
  have "distinct (map lg_id (filter ?P (w_inbox w)))" using assms by (rule distinct_map_filter)
  then have "distinct (filter ?P (w_inbox w))" "inj_on lg_id (set (filter ?P (w_inbox w)))" by (simp_all add: distinct_map)
  then have "distinct (map lg_id ?s)" by (simp add: distinct_map)
  then show "distinct (map lg_id (candidates limit w))" by (simp add: candidates_def take_map[symmetric] distinct_take)
  show "\<forall>row \<in> set (candidates limit w). row \<in> set (w_inbox w) \<and> lg_status row = ''pending'' \<and> lg_id row \<notin> set (w_poison w)"
  proof
    fix row assume "row \<in> set (candidates limit w)"
    then have "row \<in> set ?s" unfolding candidates_def by (rule in_set_takeD)
    then show "row \<in> set (w_inbox w) \<and> lg_status row = ''pending'' \<and> lg_id row \<notin> set (w_poison w)" by simp
  qed
  show "length (candidates limit w) \<le> nat (max 1 limit)" by (simp add: candidates_def)
qed

text \<open>(C27) A legacy row changes hands without loss. Whatever accesses the database refuses during a pass of the
  adopter, the inbox afterwards differs from the inbox before exactly in the reported rows, which are now
  retired; each of them was pending and not skipped, names a receiver, and the queue holds a message under
  the key and with the digest of the text of that row, under the reported id: no row is ever retired that the queue does
  not carry. The queue keeps every message it had and gains at most one per row, the draft of that row, and
  none for a row whose key it already holds; so a pass repeated after a crash between the two writes adds no
  second copy. At most the given number of rows is taken, and a row once skipped stays skipped.\<close>

theorem adoption_hands_over:
  assumes "adopt_orphaned_legacy_rows p clk busy limit w = (adopted, w')" and "distinct (map lg_id (w_inbox w))"
  shows "w_inbox w' = map (\<lambda>row. if lg_id row \<in> fst ` set adopted then row\<lparr>lg_status := ''adopted''\<rparr> else row) (w_inbox w)
    \<and> (\<forall>(i, msg_id, r) \<in> set adopted. \<exists>row \<in> set (w_inbox w). lg_id row = i \<and> lg_status row = ''pending''
        \<and> i \<notin> set (w_poison w) \<and> r = durable_receiver row \<and> r \<noteq> []
        \<and> (\<exists>m \<in> set (q_msgs (w_queue w')). qm_msg_id m = msg_id \<and> qm_idempotency_key m = adoption_key i
             \<and> qm_payload_digest m = p_sha p (lg_message row)))
    \<and> (\<exists>new. q_msgs (w_queue w') = q_msgs (w_queue w) @ new \<and> distinct (map qm_idempotency_key new)
        \<and> (\<forall>m \<in> set new. qm_idempotency_key m \<notin> qm_idempotency_key ` set (q_msgs (w_queue w))
             \<and> (\<exists>row \<in> set (w_inbox w). lg_status row = ''pending'' \<and> lg_id row \<notin> set (w_poison w)
                  \<and> m = new_row (p_sha p) clk (qm_msg_id m) (legacy_draft (p_sha p) row))))
    \<and> length adopted \<le> nat (max 1 limit) \<and> set (w_poison w) \<subseteq> set (w_poison w')"
proof (cases "busy (w_io w)")
  case True
  then have "adopted = []" "w_inbox w' = w_inbox w" "w_queue w' = w_queue w" "w_poison w' = w_poison w"
    using assms(1) by (auto simp: adopt_orphaned_legacy_rows_def Let_def)
  then show ?thesis by simp
next
  case False
  note read = candidates_read[OF assms(2), of limit]
  let ?w = "w\<lparr>w_io := w_io w + 1\<rparr>"
  have "pass_ok p clk (candidates limit w) ?w adopted w'"
    using assms False read(1,2)
    by (intro adopt_rows_pass) (simp_all add: adopt_orphaned_legacy_rows_def Let_def)
  then have pass: "w_inbox w' = retired (fst ` set adopted) (w_inbox w)" "set (w_poison w) \<subseteq> set (w_poison w')"
      "length adopted \<le> length (candidates limit w)"
      "\<forall>(i, msg_id, r) \<in> set adopted. \<exists>row \<in> set (candidates limit w). i = lg_id row \<and> r = durable_receiver row \<and> r \<noteq> []
        \<and> carries (p_sha p) (w_queue w') row msg_id"
      "\<exists>new. q_msgs (w_queue w') = q_msgs (w_queue w) @ new
        \<and> handed_rows (p_sha p) clk (candidates limit w) (q_msgs (w_queue w)) new"
    by (simp_all add: pass_ok_def)
  show ?thesis
  proof (intro conjI)
    show "w_inbox w' = map (\<lambda>row. if lg_id row \<in> fst ` set adopted then row\<lparr>lg_status := ''adopted''\<rparr> else row) (w_inbox w)"
      using pass(1) by (simp add: retired_def)
    show "\<forall>(i, msg_id, r) \<in> set adopted. \<exists>row \<in> set (w_inbox w). lg_id row = i \<and> lg_status row = ''pending''
        \<and> i \<notin> set (w_poison w) \<and> r = durable_receiver row \<and> r \<noteq> []
        \<and> (\<exists>m \<in> set (q_msgs (w_queue w')). qm_msg_id m = msg_id \<and> qm_idempotency_key m = adoption_key i
             \<and> qm_payload_digest m = p_sha p (lg_message row))"
    proof (clarify)
      fix i msg_id r assume mem: "(i, msg_id, r) \<in> set adopted"
      have "\<exists>row \<in> set (candidates limit w). i = lg_id row \<and> r = durable_receiver row \<and> r \<noteq> []
          \<and> carries (p_sha p) (w_queue w') row msg_id"
        using bspec[OF pass(4) mem] by simp
      then obtain row where row: "row \<in> set (candidates limit w)" "i = lg_id row" "r = durable_receiver row" "r \<noteq> []"
          "carries (p_sha p) (w_queue w') row msg_id"
        by blast
      then show "\<exists>row \<in> set (w_inbox w). lg_id row = i \<and> lg_status row = ''pending''
          \<and> i \<notin> set (w_poison w) \<and> r = durable_receiver row \<and> r \<noteq> []
          \<and> (\<exists>m \<in> set (q_msgs (w_queue w')). qm_msg_id m = msg_id \<and> qm_idempotency_key m = adoption_key i
               \<and> qm_payload_digest m = p_sha p (lg_message row))"
        using read(2) by (intro bexI[of _ row]) (auto simp: carries_def)
    qed
    show "\<exists>new. q_msgs (w_queue w') = q_msgs (w_queue w) @ new \<and> distinct (map qm_idempotency_key new)
        \<and> (\<forall>m \<in> set new. qm_idempotency_key m \<notin> qm_idempotency_key ` set (q_msgs (w_queue w))
             \<and> (\<exists>row \<in> set (w_inbox w). lg_status row = ''pending'' \<and> lg_id row \<notin> set (w_poison w)
                  \<and> m = new_row (p_sha p) clk (qm_msg_id m) (legacy_draft (p_sha p) row)))"
    proof -
      obtain new where new: "q_msgs (w_queue w') = q_msgs (w_queue w) @ new"
          "handed_rows (p_sha p) clk (candidates limit w) (q_msgs (w_queue w)) new"
        using pass(5) by blast
      have "\<exists>row \<in> set (w_inbox w). lg_status row = ''pending'' \<and> lg_id row \<notin> set (w_poison w)
          \<and> m = new_row (p_sha p) clk (qm_msg_id m) (legacy_draft (p_sha p) row)" if "m \<in> set new" for m
        using new(2) that read(2) unfolding handed_rows_def by blast
      then show ?thesis using new by (intro exI[of _ new]) (simp add: handed_rows_def)
    qed
    show "length adopted \<le> nat (max 1 limit)" using pass(3) read(3) by simp
    show "set (w_poison w) \<subseteq> set (w_poison w')" by (rule pass(2))
  qed
qed

text \<open>A pass that cannot retire its row leaves it pending, with its message in the queue; the next pass retires it
  and adds nothing.\<close>

definition ex_legacy_row :: legacy_row where
  "ex_legacy_row = \<lparr>lg_id = 7, lg_sender_id = ''w'', lg_receiver_id = ''t'', lg_logical_receiver_id = Some ''r'',
     lg_message = ''hello'', lg_orchestration_type = ''send_message'', lg_status = ''pending'', lg_park_warm = None,
     lg_barrier_id = None, lg_barrier_member_key = None, lg_enqueue_generation = None, lg_expire_after_s = None,
     lg_supersede_key = None\<rparr>"

definition ex_legacy_ports :: ports where
  "ex_legacy_ports = \<lparr>p_resolve = (\<lambda>_ r. Inl PortError), p_emit = (\<lambda>_ _ _ _ _ _. Inl PortError),
     p_inject = (\<lambda>_ _ _. Inl PortError), p_sha = id, p_mint = (\<lambda>n. ''m'' @ py_str (int n))\<rparr>"

definition ex_legacy_world :: world where
  "ex_legacy_world = \<lparr>w_queue = empty_qstore, w_findings = None, w_inbox = [ex_legacy_row], w_poison = [], w_ids = 0,
     w_io = 0, w_report = TickReport, w_log = []\<rparr>"

definition ex_pass :: "(nat \<Rightarrow> bool) \<Rightarrow> world \<Rightarrow> (int \<times> string \<times> string) list \<times> world" where
  "ex_pass busy = adopt_orphaned_legacy_rows ex_legacy_ports 5 busy 64"

theorem adoption_hands_over_witness:
  "(let w1 = snd (ex_pass (\<lambda>n. n = 2) ex_legacy_world) in
    fst (ex_pass (\<lambda>n. n = 2) ex_legacy_world) = [] \<and> map qm_msg_id (q_msgs (w_queue w1)) = [''m0'']
    \<and> fst (ex_pass (\<lambda>_. False) w1) = [(7, ''m0'', ''r'')]
    \<and> map qm_msg_id (q_msgs (w_queue (snd (ex_pass (\<lambda>_. False) w1)))) = [''m0''])
   \<and> w_inbox (snd (ex_pass (\<lambda>_. False) ex_legacy_world)) = [ex_legacy_row\<lparr>lg_status := ''adopted''\<rparr>]"
proof
  show "let w1 = snd (ex_pass (\<lambda>n. n = 2) ex_legacy_world) in
    fst (ex_pass (\<lambda>n. n = 2) ex_legacy_world) = [] \<and> map qm_msg_id (q_msgs (w_queue w1)) = [''m0'']
    \<and> fst (ex_pass (\<lambda>_. False) w1) = [(7, ''m0'', ''r'')]
    \<and> map qm_msg_id (q_msgs (w_queue (snd (ex_pass (\<lambda>_. False) w1)))) = [''m0'']"
    by code_simp
  obtain w' where pass: "ex_pass (\<lambda>_. False) ex_legacy_world = ([(7, ''m0'', ''r'')], w')"
  proof -
    have "fst (ex_pass (\<lambda>_. False) ex_legacy_world) = [(7, ''m0'', ''r'')]" by code_simp
    then show thesis using that by (metis prod.collapse)
  qed
  have "distinct (map lg_id (w_inbox ex_legacy_world))" by (simp add: ex_legacy_world_def)
  from adoption_hands_over[OF pass[unfolded ex_pass_def] this]
  show "w_inbox (snd (ex_pass (\<lambda>_. False) ex_legacy_world)) = [ex_legacy_row\<lparr>lg_status := ''adopted''\<rparr>]"
    unfolding pass by (simp add: ex_legacy_world_def ex_legacy_row_def)
qed

end
