(* ===== verification/Delivery_Tick.thy ===== *)
theory Delivery_Tick
  imports Legacy_Adoption
begin

text \<open>
  The delivery tick: \<open>app/delivery/tick.py\<close>, the scheduled observer of the queue. One tick adopts the
  orphaned rows of the legacy inbox, reclaims, announces the deaths, serves every receiver that is owed
  something and closes the epochs whose messages have all ended. The adopter is an argument, as in the
  source; the one the composition root wires in is \<open>legacy_inbox_adoption\<close>. \<open>stamp\<close> is the instant of the tick
  and \<open>clk\<close> what the stores' own clocks read during it. The report of the running tick is part of the world: an exception the tick
  catches does not undo what was counted.
\<close>

definition TICK_LEASE_OWNER :: string where "TICK_LEASE_OWNER = ''delivery-tick''"
definition CLAIM_LIMIT :: int where "CLAIM_LIMIT = 64"
definition ADOPT_LIMIT :: int where "ADOPT_LIMIT = 64"

definition TIME_BOUND_REASONS :: "dead_reason list" where
  "TIME_BOUND_REASONS = [MAX_LIFETIME, VETO_CEILING, EXPIRED]"

type_synonym adopter = "int \<Rightarrow> legacy_adoption list act"

text \<open>\<open>self._findings.record\<close>, where a finding store is wired: a fresh id is minted only for an insert.\<close>

definition raise_finding ::
  "ports \<Rightarrow> time \<Rightarrow> finding_code \<Rightarrow> string \<Rightarrow> string \<Rightarrow> string \<Rightarrow> unit act" where
  "raise_finding p clk code tid key detail w =
     (case w_findings w of
        None \<Rightarrow> (Inr (), w)
      | Some fs \<Rightarrow>
          (case record_finding (p_mint p (w_ids w)) clk code tid key detail None fs of
             (Inl e, fs') \<Rightarrow> (Inl e, w\<lparr>w_ids := w_ids w + 1\<rparr>)
           | (Inr _, fs') \<Rightarrow>
               (Inr (), w\<lparr>w_findings := Some fs',
                  w_ids := w_ids w + (if rowcount (same_open code tid key) fs = 0 then 1 else 0)\<rparr>)))"

section \<open>Adoption\<close>

fun adoption_findings :: "ports \<Rightarrow> time \<Rightarrow> legacy_adoption list \<Rightarrow> string list \<Rightarrow> unit act" where
  "adoption_findings p clk adoptions [] = return_act ()"
| "adoption_findings p clk adoptions (r # rs) =
     (let rows = filter (\<lambda>a. la_receiver_id a = r) adoptions in
      andthen (raise_finding p clk DIAG_LEGACY_ROW_ADOPTED r r
        (''rows='' @ py_str (int (length rows)) @ '' first_legacy_id=''
         @ py_str (la_legacy_message_id (hd rows))))
        (\<lambda>_. adoption_findings p clk adoptions rs))"

definition raise_adoption_findings :: "ports \<Rightarrow> time \<Rightarrow> legacy_adoption list \<Rightarrow> unit act" where
  "raise_adoption_findings p clk adoptions =
     adoption_findings p clk adoptions (dict_fromkeys (map la_receiver_id adoptions))"

definition adopt :: "ports \<Rightarrow> adopter option \<Rightarrow> time \<Rightarrow> unit act" where
  "adopt p adopter clk w =
     (case adopter of
        None \<Rightarrow> (Inr (), w)
      | Some f \<Rightarrow>
          (case f ADOPT_LIMIT w of
             (Inl _, w') \<Rightarrow> (Inr (), w')
           | (Inr adoptions, w') \<Rightarrow>
               raise_adoption_findings p clk adoptions
                 (w'\<lparr>w_report := (w_report w')\<lparr>tr_adopted := adoptions\<rparr>\<rparr>)))"

section \<open>Reclaim and the announcement of deaths\<close>

definition notice_draft :: "dead_row \<Rightarrow> enqueue_draft" where
  "notice_draft row =
     \<lparr>ed_idempotency_key = ''delivery-notice:'' @ dr_msg_id row, ed_receiver_id = dr_sender_id row,
      ed_sender_id = [], ed_kind = NOTE,
      ed_payload = ''[cao] undelivered: message '' @ dr_msg_id row @ '' to '' @ dr_receiver_id row
        @ '' ended '' @ dead_reason_value (dr_reason row) @ '' after '' @ py_str (dr_attempts row)
        @ '' attempts. Detail: cao diag '' @ dr_msg_id row,
      ed_mode = LIVE, ed_max_attempts = DELIVERY_MAX_ATTEMPTS T0, ed_expire_after_s = None,
      ed_supersede_key = None, ed_content_hash = None, ed_park_warm = False, ed_barrier_id = None,
      ed_barrier_member_key = None, ed_enqueue_generation = None, ed_cancel_on_complete = False,
      ed_is_notice = True, ed_legacy_message_id = None\<rparr>"

definition enqueue_notice :: "ports \<Rightarrow> time \<Rightarrow> dead_row \<Rightarrow> world \<Rightarrow> world" where
  "enqueue_notice p clk row w =
     (case enqueue (p_sha p) clk (p_mint p (w_ids w)) (notice_draft row) (w_queue w) of
        (Inl _, st) \<Rightarrow> w\<lparr>w_queue := st, w_ids := w_ids w + 1\<rparr>
      | (Inr _, st) \<Rightarrow>
          w\<lparr>w_queue := st, w_ids := w_ids w + 1,
            w_report := (w_report w)\<lparr>tr_notices_enqueued := tr_notices_enqueued (w_report w) + 1\<rparr>\<rparr>)"

definition announce_death :: "ports \<Rightarrow> time \<Rightarrow> dead_row \<Rightarrow> unit act" where
  "announce_death p clk row =
     andthen
       (if dr_reason row \<in> set TIME_BOUND_REASONS
        then raise_finding p clk DIAG_DELIVERY_TIME_BOUND (dr_receiver_id row) (dr_msg_id row)
          (''reason='' @ dead_reason_value (dr_reason row) @ '' attempts='' @ py_str (dr_attempts row))
        else return_act ())
       (\<lambda>_ w.
         if dr_is_notice row \<or> is_service_sender (Some (dr_sender_id row)) then (Inr (), w)
         else (Inr (), enqueue_notice p clk row w))"

fun announce_deaths :: "ports \<Rightarrow> time \<Rightarrow> dead_row list \<Rightarrow> unit act" where
  "announce_deaths p clk [] = return_act ()"
| "announce_deaths p clk (row # rows) =
     andthen (announce_death p clk row) (\<lambda>_. announce_deaths p clk rows)"

definition tick_reclaim :: "ports \<Rightarrow> time \<Rightarrow> time \<Rightarrow> unit act" where
  "tick_reclaim p clk now w =
     (case reclaim now (w_queue w) of
        (Inl e, st) \<Rightarrow> (Inl e, w\<lparr>w_queue := st\<rparr>)
      | (Inr res, st) \<Rightarrow>
          announce_deaths p clk (rc_dead res)
            (w\<lparr>w_queue := st,
               w_report := (w_report w)\<lparr>tr_reoffered := rc_reoffered res,
                 tr_incremented := rc_incremented res, tr_dead := rc_dead res\<rparr>\<rparr>))"

section \<open>Serving one receiver\<close>

definition epoch_for :: "string \<Rightarrow> time \<Rightarrow> seat_digest option act" where
  "epoch_for receiver now w =
     (let ids = undelivered_ids receiver (w_queue w) in
      if ids = [] then (Inr None, w)
      else
        case open_digest receiver (w_queue w) of
          None \<Rightarrow>
            (let w1 = w\<lparr>w_report := (w_report w)\<lparr>tr_epochs_opened := tr_epochs_opened (w_report w) + 1\<rparr>\<rparr>;
                 (res, st) = build_digest receiver ids now (w_queue w1) in
             (case res of Inl e \<Rightarrow> Inl e | Inr d \<Rightarrow> Inr (Some d), w1\<lparr>w_queue := st\<rparr>))
        | Some d \<Rightarrow>
            (let (extended, st) = extend_digest receiver (sd_epoch d) ids now (w_queue w) in
             (Inr (Some (case extended of Some x \<Rightarrow> x | None \<Rightarrow> d)), w\<lparr>w_queue := st\<rparr>)))"

definition attempt_of :: "wake_report \<Rightarrow> time \<Rightarrow> queue_message \<Rightarrow> delivery_attempt" where
  "attempt_of wake now m =
     \<lparr>da_msg_id = qm_msg_id m, da_claim_id = qm_claim_id m, da_carrier = wr_carrier wake,
      da_started_at = now, da_outcome = wr_outcome wake, da_detail = wr_detail wake\<rparr>"

fun record_attempts :: "wake_report \<Rightarrow> queue_message list \<Rightarrow> time \<Rightarrow> qstore \<Rightarrow> qstore" where
  "record_attempts wake [] now st = st"
| "record_attempts wake (m # ms) now st =
     (let st1 = record_attempt (attempt_of wake now m) st;
          st2 = (if wr_outcome wake = VETO_DIALOG
                 then (if qm_held_since m = None then mark_dialog_hold (qm_msg_id m) (Some now) st1 else st1)
                 else if qm_held_since m \<noteq> None then mark_dialog_hold (qm_msg_id m) None st1
                 else st1) in
      record_attempts wake ms now st2)"

definition raise_wake_finding :: "ports \<Rightarrow> time \<Rightarrow> wake_report \<Rightarrow> unit act" where
  "raise_wake_finding p clk wake =
     (case wr_finding_reason wake of
        None \<Rightarrow> return_act ()
      | Some reason \<Rightarrow>
          raise_finding p clk DIAG_SEAT_WAKE_UNREACHABLE (wr_receiver_id wake)
            (wr_receiver_id wake @ '':'' @ py_str (wr_epoch wake))
            (''reason='' @ reason @ '' carrier='' @ wr_carrier wake @ '' epoch='' @ py_str (wr_epoch wake)))"

definition note_wake :: "wake_report \<Rightarrow> queue_message list \<Rightarrow> time \<Rightarrow> unit act" where
  "note_wake wake claimed now w =
     (Inr (), w\<lparr>w_report := (w_report w)\<lparr>tr_wakes := tr_wakes (w_report w) @ [wake]\<rparr>,
                w_queue := (if wr_recordable wake then record_attempts wake claimed now (w_queue w)
                            else w_queue w)\<rparr>)"

definition serve_receiver :: "ports \<Rightarrow> time \<Rightarrow> time \<Rightarrow> string \<Rightarrow> unit act" where
  "serve_receiver p clk now receiver w =
     (let (res, st) = claim TICK_LEASE_OWNER now CLAIM_LIMIT (Some receiver) (w_queue w);
          w1 = w\<lparr>w_queue := st\<rparr> in
      case res of
        Inl e \<Rightarrow> (Inl e, w1)
      | Inr claimed \<Rightarrow>
          andthen (epoch_for receiver now) (\<lambda>d.
            case d of
              None \<Rightarrow> return_act ()
            | Some digest \<Rightarrow>
                if claimed = [] then return_act ()
                else andthen (deliver p digest) (\<lambda>wake.
                  andthen (note_wake wake claimed now) (\<lambda>_. raise_wake_finding p clk wake))) w1)"

section \<open>The tick\<close>

fun serve_all :: "ports \<Rightarrow> time \<Rightarrow> time \<Rightarrow> string list \<Rightarrow> world \<Rightarrow> world" where
  "serve_all p clk now [] w = w"
| "serve_all p clk now (r # rs) w = serve_all p clk now rs (snd (serve_receiver p clk now r w))"

fun close_epochs :: "ports \<Rightarrow> time \<Rightarrow> seat_digest list \<Rightarrow> unit act" where
  "close_epochs p now [] = return_act ()"
| "close_epochs p now (d # ds) =
     (\<lambda>w. if \<not> all_terminal (sd_msg_ids d) (w_queue w) then close_epochs p now ds w
          else andthen (call_resolve p (sd_receiver_id d)) (\<lambda>r w1.
            (let via = (if rr_live r \<and> rr_pane_present r then ''cancelled'' else ''abandoned'');
                 (closed, st) = close_digest (sd_receiver_id d) (sd_epoch d) via now (w_queue w1);
                 w2 = w1\<lparr>w_queue := st\<rparr> in
             close_epochs p now ds
               (if closed
                then w2\<lparr>w_report := (w_report w2)\<lparr>tr_epochs_closed := tr_epochs_closed (w_report w2) + 1\<rparr>\<rparr>
                else w2))) w)"

definition close_finished_epochs :: "ports \<Rightarrow> time \<Rightarrow> unit act" where
  "close_finished_epochs p now w = close_epochs p now (open_digests (w_queue w)) w"

definition serve :: "ports \<Rightarrow> time \<Rightarrow> time \<Rightarrow> unit act" where
  "serve p clk now w =
     close_finished_epochs p now (serve_all p clk now (ready_receivers (w_queue w)) w)"

definition run_once :: "ports \<Rightarrow> adopter option \<Rightarrow> time \<Rightarrow> time \<Rightarrow> tick_report act" where
  "run_once p adopter clk stamp w =
     andthen (adopt p adopter clk) (\<lambda>_.
       andthen (tick_reclaim p clk stamp) (\<lambda>_.
         andthen (serve p clk stamp) (\<lambda>_ w'. (Inr (w_report w'), w')))) (w\<lparr>w_report := TickReport\<rparr>)"

definition protected_ids :: "world \<Rightarrow> string set" where
  "protected_ids w =
     (case w_findings w of
        None \<Rightarrow> {}
      | Some fs \<Rightarrow> set (map fi_dedupe_key (list_findings (Some OPEN) None fs)))"

definition tick_prune :: "time \<Rightarrow> world \<Rightarrow> nat \<times> world" where
  "tick_prune now w =
     (let (n, st) = prune now (protected_ids w) (w_queue w) in (n, w\<lparr>w_queue := st\<rparr>))"

end
