(* ===== verification/Delivery_Promises.thy ===== *)
theory Delivery_Promises
  imports Delivery_Tick
begin

text \<open>
  What the delivery tick and its wake service promise. The locale \<open>quiet_relation\<close> extends the
  contract of a relation that survives sequencing by the writes of the wake and of the epoch
  bookkeeping; its lemmas lift a relation from those writes to the loops and to the whole tick. It is
  interpreted twice: for being a
  run of the queue store, so that everything proved of the queue's runs holds of the tick, and for
  creating nothing a claim could take.
\<close>

section \<open>The writes that open no claim\<close>

text \<open>The store's methods the wake service and the epoch bookkeeping call.\<close>

inductive quiet_step :: "qstore \<Rightarrow> qstore \<Rightarrow> bool" where
  quiet_build: "quiet_step st (snd (build_digest r ids now st))"
| quiet_extend: "quiet_step st (snd (extend_digest r e ids now st))"
| quiet_bump: "quiet_step st (snd (bump_wake_count r e st))"
| quiet_close: "quiet_step st (snd (close_digest r e via now st))"
| quiet_attempt: "quiet_step st (record_attempt a st)"
| quiet_hold: "quiet_step st (mark_dialog_hold i h st)"

text \<open>A relation that holds when the queue is untouched and across each of those methods holds across
  the wake, the epoch bookkeeping and the findings.\<close>

locale quiet_relation = action_relation R for R :: "world \<Rightarrow> world \<Rightarrow> bool" +
  assumes R_meta: "w_queue w' = w_queue w \<Longrightarrow> w_ids w \<le> w_ids w' \<Longrightarrow> R w w'"
    and R_quiet: "quiet_step (w_queue w) st \<Longrightarrow> R w (w\<lparr>w_queue := st\<rparr>)"
begin

lemma R_quiet_meta:
  assumes "quiet_step (w_queue w) (w_queue w')" "w_ids w' = w_ids w"
  shows "R w w'"
  using R_trans[OF R_quiet[OF assms(1)] R_meta[of w' "w\<lparr>w_queue := w_queue w'\<rparr>"]] assms(2) by simp

lemma within_raise_finding: "within R (raise_finding p clk c t k d)"
  unfolding within_def
  by (auto intro!: R_meta simp: raise_finding_def split: option.splits prod.splits sum.splits)

lemma within_calls:
  "within R (call_resolve p r)" "within R (call_emit p t l k n i)" "within R (call_inject p t l)"
  by (auto simp: within_def call_resolve_def call_emit_def call_inject_def intro!: R_meta)

lemma within_compose: "within R (compose d)"
  unfolding within_def
proof
  fix w :: world
  have "w_queue (snd (compose d w)) = snd (bump_wake_count (sd_receiver_id d) (sd_epoch d) (w_queue w))"
    "w_ids (snd (compose d w)) = w_ids w"
    by (simp_all add: compose_def Let_def split: prod.splits)
  then show "R w (snd (compose d w))" using R_quiet_meta[of w] quiet_step.quiet_bump by metis
qed

lemma within_wake_seat: "within R (wake_seat p d r line c)"
proof -
  have "within R (andthen (call_emit p t l k n i) (\<lambda>em w'. (Inr (f em (w_queue w')), w')))" for t l k n i and f :: "_ \<Rightarrow> _ \<Rightarrow> wake_report"
    by (rule within_andthen[OF within_calls(2)]) (simp add: within_def R_refl)
  then show ?thesis by (simp add: within_def wake_seat_def Let_def)
qed

lemma within_inject_worker: "within R (inject_worker p d r line c)"
  unfolding inject_worker_def by (simp add: within_andthen within_calls within_return)

lemma within_deliver: "within R (deliver p d)"
  unfolding deliver_def
  by (intro within_andthen within_calls within_compose)
    (auto intro!: within_andthen within_compose simp: within_return within_wake_seat within_inject_worker split: prod.splits)

lemma within_epoch_for: "within R (epoch_for r now)"
  unfolding within_def
proof
  fix w :: world
  show "R w (snd (epoch_for r now w))"
  proof (cases "undelivered_ids r (w_queue w) = []")
    case True
    then show ?thesis by (simp add: epoch_for_def R_refl)
  next
    case False
    show ?thesis
    proof (cases "open_digest r (w_queue w)")
      case None
      then have "w_queue (snd (epoch_for r now w)) = snd (build_digest r (undelivered_ids r (w_queue w)) now (w_queue w))"
        "w_ids (snd (epoch_for r now w)) = w_ids w"
        using False by (simp_all add: epoch_for_def Let_def split: prod.splits)
      then show ?thesis using R_quiet_meta[of w] quiet_step.quiet_build by metis
    next
      case (Some d)
      then have "w_queue (snd (epoch_for r now w)) = snd (extend_digest r (sd_epoch d) (undelivered_ids r (w_queue w)) now (w_queue w))"
        "w_ids (snd (epoch_for r now w)) = w_ids w"
        using False by (simp_all add: epoch_for_def Let_def split: prod.splits)
      then show ?thesis using R_quiet_meta[of w] quiet_step.quiet_extend by metis
    qed
  qed
qed

lemma R_record_attempts: "R w (w\<lparr>w_queue := record_attempts wake ms now (w_queue w)\<rparr>)"
proof (induction ms arbitrary: w)
  case Nil
  then show ?case by (simp add: R_refl)
next
  case (Cons m ms)
  define st1 where "st1 = record_attempt (attempt_of wake now m) (w_queue w)"
  define st2 where "st2 = (if wr_outcome wake = VETO_DIALOG
     then (if qm_held_since m = None then mark_dialog_hold (qm_msg_id m) (Some now) st1 else st1)
     else if qm_held_since m \<noteq> None then mark_dialog_hold (qm_msg_id m) None st1 else st1)"
  have 1: "R w (w\<lparr>w_queue := st1\<rparr>)" unfolding st1_def by (rule R_quiet[OF quiet_step.quiet_attempt])
  have "R (w\<lparr>w_queue := st1\<rparr>) (w\<lparr>w_queue := mark_dialog_hold i h st1\<rparr>)" for i h
    using R_quiet[of "w\<lparr>w_queue := st1\<rparr>" "mark_dialog_hold i h st1"] quiet_step.quiet_hold by simp
  then have 2: "R (w\<lparr>w_queue := st1\<rparr>) (w\<lparr>w_queue := st2\<rparr>)"
    unfolding st2_def using R_refl by presburger
  have "record_attempts wake (m # ms) now (w_queue w) = record_attempts wake ms now st2"
    unfolding record_attempts.simps Let_def st1_def[symmetric] st2_def[symmetric] ..
  then show ?case using R_trans[OF R_trans[OF 1 2] Cons.IH[of "w\<lparr>w_queue := st2\<rparr>"]] by simp
qed

lemma within_note_wake: "within R (note_wake wake ms now)"
  unfolding within_def
proof
  fix w :: world
  let ?w1 = "w\<lparr>w_queue := w_queue (snd (note_wake wake ms now w))\<rparr>"
  have "R w ?w1" using R_record_attempts[of w wake ms now] R_refl by (simp add: note_wake_def)
  moreover have "R ?w1 (snd (note_wake wake ms now w))"
    by (rule R_meta) (simp_all add: note_wake_def)
  ultimately show "R w (snd (note_wake wake ms now w))" by (rule R_trans)
qed

lemma within_raise_wake_finding: "within R (raise_wake_finding p clk wake)"
  by (simp add: raise_wake_finding_def within_return within_raise_finding split: option.split)

text \<open>Serving a receiver, after its claim.\<close>

lemma within_after_claim:
  "within R (andthen (epoch_for receiver now) (\<lambda>d.
     case d of
       None \<Rightarrow> return_act ()
     | Some digest \<Rightarrow>
         if claimed = [] then return_act ()
         else andthen (deliver p digest) (\<lambda>wake.
           andthen (note_wake wake claimed now) (\<lambda>_. raise_wake_finding p clk wake))))"
  by (intro within_andthen within_epoch_for)
    (auto intro!: within_andthen within_return within_deliver within_note_wake within_raise_wake_finding
      split: option.split)

lemma within_close_epochs: "within R (close_epochs p now ds)"
proof (induction ds)
  case Nil
  then show ?case by (simp add: within_return)
next
  case (Cons d ds)
  have tail: "within R (\<lambda>w1. (let via = (if rr_live r \<and> rr_pane_present r then ''cancelled'' else ''abandoned'');
                 (closed, st) = close_digest (sd_receiver_id d) (sd_epoch d) via now (w_queue w1);
                 w2 = w1\<lparr>w_queue := st\<rparr> in
             close_epochs p now ds
               (if closed
                then w2\<lparr>w_report := (w_report w2)\<lparr>tr_epochs_closed := tr_epochs_closed (w_report w2) + 1\<rparr>\<rparr>
                else w2)))" for r
    unfolding within_def Let_def
  proof (intro allI)
    fix w1 :: world
    let ?via = "if rr_live r \<and> rr_pane_present r then ''cancelled'' else ''abandoned''"
    obtain closed st where c: "close_digest (sd_receiver_id d) (sd_epoch d) ?via now (w_queue w1) = (closed, st)"
      by fastforce
    let ?w2 = "if closed
                then w1\<lparr>w_queue := st, w_report := (w_report w1)\<lparr>tr_epochs_closed := tr_epochs_closed (w_report w1) + 1\<rparr>\<rparr>
                else w1\<lparr>w_queue := st\<rparr>"
    have "R w1 ?w2"
      by (rule R_quiet_meta) (use quiet_step.quiet_close[of "w_queue w1" "sd_receiver_id d" "sd_epoch d" ?via now] c in auto)
    moreover have "R ?w2 (snd (close_epochs p now ds ?w2))" using withinD[OF Cons.IH] .
    ultimately have "R w1 (snd (close_epochs p now ds ?w2))" by (rule R_trans)
    then show "R w1 (snd (case close_digest (sd_receiver_id d) (sd_epoch d) ?via now (w_queue w1) of
        (closed, st) \<Rightarrow> close_epochs p now ds
          (if closed
           then w1\<lparr>w_queue := st\<rparr>\<lparr>w_report := (w_report (w1\<lparr>w_queue := st\<rparr>))\<lparr>tr_epochs_closed :=
              tr_epochs_closed (w_report (w1\<lparr>w_queue := st\<rparr>)) + 1\<rparr>\<rparr>
           else w1\<lparr>w_queue := st\<rparr>)))"
      by (cases closed) (simp_all add: c)
  qed
  from withinD[OF within_andthen[OF within_calls(1) tail]] withinD[OF Cons.IH] show ?case
    by (simp add: within_def)
qed

end

section \<open>The tick is a run of the queue\<close>

text \<open>Ids not minted yet are not in use.\<close>

definition unminted :: "ports \<Rightarrow> nat \<Rightarrow> string set \<Rightarrow> bool" where
  "unminted p n used \<longleftrightarrow> (\<forall>k \<ge> n. p_mint p k \<notin> used)"

definition queue_run :: "ports \<Rightarrow> world \<Rightarrow> world \<Rightarrow> bool" where
  "queue_run p w w' \<longleftrightarrow>
     (\<forall>used. unminted p (w_ids w) used \<longrightarrow>
        (\<exists>used'. (qstep (p_sha p))\<^sup>*\<^sup>* (w_queue w, used) (w_queue w', used') \<and> unminted p (w_ids w') used'))"

lemma queue_run_refl: "queue_run p w w"
  by (auto simp: queue_run_def)

lemma queue_run_trans:
  assumes "queue_run p a b" "queue_run p b c"
  shows "queue_run p a c"
  unfolding queue_run_def
proof (intro allI impI)
  fix used assume "unminted p (w_ids a) used"
  with assms(1) obtain u1 where 1: "(qstep (p_sha p))\<^sup>*\<^sup>* (w_queue a, used) (w_queue b, u1)" "unminted p (w_ids b) u1"
    unfolding queue_run_def by blast
  with assms(2) obtain u2 where "(qstep (p_sha p))\<^sup>*\<^sup>* (w_queue b, u1) (w_queue c, u2)" "unminted p (w_ids c) u2"
    unfolding queue_run_def by blast
  with 1(1) show "\<exists>used'. (qstep (p_sha p))\<^sup>*\<^sup>* (w_queue a, used) (w_queue c, used') \<and> unminted p (w_ids c) used'"
    by (meson rtranclp_trans)
qed

lemma unminted_mono: "unminted p n used \<Longrightarrow> n \<le> k \<Longrightarrow> unminted p k used"
  by (simp add: unminted_def)

lemma run_same_queue: "w_queue w' = w_queue w \<Longrightarrow> w_ids w \<le> w_ids w' \<Longrightarrow> queue_run p w w'"
  by (auto simp: queue_run_def intro: unminted_mono)

lemma run_one_step:
  assumes "\<And>used. qstep (p_sha p) (w_queue w, used) (w_queue w', used)" "w_ids w \<le> w_ids w'"
  shows "queue_run p w w'"
  using assms unminted_mono by (force simp: queue_run_def)

lemma quiet_is_qstep: "quiet_step st st' \<Longrightarrow> qstep sha (st, used) (st', used)"
  by (cases rule: quiet_step.cases) (auto intro: qstep.intros)

lemma run_quiet: "quiet_step (w_queue w) st \<Longrightarrow> queue_run p w (w\<lparr>w_queue := st\<rparr>)"
  by (rule run_one_step) (simp_all add: quiet_is_qstep)

interpretation runs: quiet_relation "queue_run p" for p
  by unfold_locales (auto intro: queue_run_refl queue_run_trans run_same_queue run_quiet)

lemma run_enqueue_notice:
  assumes inj: "inj (p_mint p)" and valid: "draft_valid (notice_draft row)"
  shows "queue_run p w (enqueue_notice p clk row w)"
proof -
  let ?i = "p_mint p (w_ids w)"
  let ?st = "snd (enqueue (p_sha p) clk ?i (notice_draft row) (w_queue w))"
  have eq: "w_queue (enqueue_notice p clk row w) = ?st" "w_ids (enqueue_notice p clk row w) = w_ids w + 1"
    by (simp_all add: enqueue_notice_def split: prod.splits sum.splits)
  show ?thesis unfolding queue_run_def eq
  proof (intro allI impI)
    fix used assume u: "unminted p (w_ids w) used"
    then have "?i \<notin> used" by (simp add: unminted_def)
    then have "qstep (p_sha p) (w_queue w, used) (?st, insert ?i used)" using valid by (rule qstep.do_enqueue)
    moreover have "unminted p (w_ids w + 1) (insert ?i used)"
      using u inj by (auto simp: unminted_def dest: injD)
    ultimately show "\<exists>used'. (qstep (p_sha p))\<^sup>*\<^sup>* (w_queue w, used) (?st, used') \<and> unminted p (w_ids w + 1) used'"
      by blast
  qed
qed

lemma notice_draft_valid: "\<not> is_service_sender (Some (dr_sender_id row)) \<Longrightarrow> draft_valid (notice_draft row)"
  by (auto simp: draft_valid_def notice_draft_def is_service_sender_def T0_def split: if_splits)

lemma run_announce_death:
  assumes inj: "inj (p_mint p)"
  shows "within (queue_run p) (announce_death p clk row)"
  unfolding announce_death_def
proof (rule runs.within_andthen)
  show "within (queue_run p) (if dr_reason row \<in> set TIME_BOUND_REASONS
        then raise_finding p clk DIAG_DELIVERY_TIME_BOUND (dr_receiver_id row) (dr_msg_id row)
          (''reason='' @ dead_reason_value (dr_reason row) @ '' attempts='' @ py_str (dr_attempts row))
        else return_act ())"
    by (simp add: runs.within_raise_finding runs.within_return)
  show "within (queue_run p) (\<lambda>w. if dr_is_notice row \<or> is_service_sender (Some (dr_sender_id row)) then (Inr (), w)
         else (Inr (), enqueue_notice p clk row w))" for x :: unit
    unfolding within_def
    using run_enqueue_notice[OF inj notice_draft_valid] queue_run_refl by auto
qed

lemma run_announce_deaths: "inj (p_mint p) \<Longrightarrow> within (queue_run p) (announce_deaths p clk rows)"
proof (induction rows)
  case (Cons row rows)
  then show ?case by (auto intro!: runs.within_andthen run_announce_death)
qed (simp add: runs.within_return)

lemma run_tick_reclaim:
  assumes "inj (p_mint p)"
  shows "within (queue_run p) (tick_reclaim p clk now)"
  unfolding within_def
proof
  fix w :: world
  obtain res st where r: "reclaim now (w_queue w) = (res, st)" by fastforce
  have step: "queue_run p w w'" if "w_queue w' = st" "w_ids w' = w_ids w" for w'
  proof (rule run_one_step)
    show "qstep (p_sha p) (w_queue w, used) (w_queue w', used)" for used
      using qstep.do_reclaim[of "p_sha p" "w_queue w" used now] r that(1) by simp
  qed (simp add: that)
  show "queue_run p w (snd (tick_reclaim p clk now w))"
  proof (cases res)
    case (Inl e)
    then show ?thesis using r step by (simp add: tick_reclaim_def)
  next
    case (Inr x)
    let ?w = "w\<lparr>w_queue := st, w_report := (w_report w)\<lparr>tr_reoffered := rc_reoffered x,
                 tr_incremented := rc_incremented x, tr_dead := rc_dead x\<rparr>\<rparr>"
    have "queue_run p w ?w" by (rule step) simp_all
    moreover have "queue_run p ?w (snd (announce_deaths p clk (rc_dead x) ?w))"
      using withinD[OF run_announce_deaths[OF assms]] .
    ultimately show ?thesis using r Inr queue_run_trans by (simp add: tick_reclaim_def)
  qed
qed

lemma run_serve_receiver: "within (queue_run p) (serve_receiver p clk now r)"
  unfolding within_def
proof
  fix w :: world
  obtain res st where c: "claim TICK_LEASE_OWNER now CLAIM_LIMIT (Some r) (w_queue w) = (res, st)"
    by fastforce
  have 1: "queue_run p w (w\<lparr>w_queue := st\<rparr>)"
  proof (rule run_one_step)
    show "qstep (p_sha p) (w_queue w, used) (w_queue (w\<lparr>w_queue := st\<rparr>), used)" for used
      using qstep.do_claim[of "p_sha p" "w_queue w" used TICK_LEASE_OWNER now CLAIM_LIMIT "Some r"] c by simp
  qed simp
  show "queue_run p w (snd (serve_receiver p clk now r w))"
  proof (cases res)
    case (Inl e)
    then show ?thesis using 1 c by (simp add: serve_receiver_def)
  next
    case (Inr claimed)
    then show ?thesis
      using queue_run_trans[OF 1 withinD[OF runs.within_after_claim]] c by (simp add: serve_receiver_def)
  qed
qed

lemma run_serve_all: "queue_run p w (serve_all p clk now rs w)"
  by (induction rs arbitrary: w)
    (auto intro: queue_run_refl queue_run_trans[OF withinD[OF run_serve_receiver]])

lemma run_serve: "within (queue_run p) (serve p clk now)"
  unfolding within_def serve_def close_finished_epochs_def
  using queue_run_trans[OF run_serve_all withinD[OF runs.within_close_epochs]] by blast

lemma run_adoption_findings: "within (queue_run p) (adoption_findings p clk as rs)"
  by (induction rs) (auto simp: Let_def runs.within_return intro!: runs.within_andthen runs.within_raise_finding)

text \<open>What the tick relies on in its adopter: it writes to the queue through the queue's own methods. The
  production adopter does.\<close>

definition adopter_ok :: "ports \<Rightarrow> adopter option \<Rightarrow> bool" where
  "adopter_ok p adopter \<longleftrightarrow> (\<forall>f. adopter = Some f \<longrightarrow> (\<forall>n. within (queue_run p) (f n)))"

lemma legacy_draft_valid: "durable_receiver row \<noteq> [] \<Longrightarrow> draft_valid (legacy_draft sha row)"
  by (simp add: draft_valid_def legacy_draft_def adoption_key_def T0_def)

lemma run_minted_enqueue:
  assumes "inj (p_mint p)" and "draft_valid d"
    and "w_queue w' = snd (enqueue (p_sha p) clk (p_mint p (w_ids w)) d (w_queue w))" and "w_ids w' = w_ids w + 1"
  shows "queue_run p w w'"
  unfolding queue_run_def assms(3,4)
proof (intro allI impI)
  let ?i = "p_mint p (w_ids w)" and ?st = "snd (enqueue (p_sha p) clk (p_mint p (w_ids w)) d (w_queue w))"
  fix used assume u: "unminted p (w_ids w) used"
  then have "?i \<notin> used" by (simp add: unminted_def)
  then have "qstep (p_sha p) (w_queue w, used) (?st, insert ?i used)" using assms(2) by (rule qstep.do_enqueue)
  moreover have "unminted p (w_ids w + 1) (insert ?i used)"
    using u assms(1) by (auto simp: unminted_def dest: injD)
  ultimately show "\<exists>used'. (qstep (p_sha p))\<^sup>*\<^sup>* (w_queue w, used) (?st, used') \<and> unminted p (w_ids w + 1) used'"
    by blast
qed

lemma run_adopt_legacy_row:
  assumes "inj (p_mint p)" and "durable_receiver row \<noteq> []"
  shows "queue_run p w (snd (adopt_legacy_row p clk busy row w))"
proof (cases "busy (w_io w)")
  case True
  then show ?thesis by (simp add: adopt_legacy_row_def Let_def run_same_queue)
next
  case False
  then show ?thesis
    using assms
    by (intro run_minted_enqueue[where d = "legacy_draft (p_sha p) row" and clk = clk] legacy_draft_valid)
      (auto simp: adopt_legacy_row_def Let_def split: prod.splits sum.splits)
qed

lemma run_adopt_rows: "inj (p_mint p) \<Longrightarrow> queue_run p w (snd (adopt_rows p clk busy rows w))"
proof (induction rows arbitrary: w)
  case (Cons row rows)
  have skip: "queue_run p w (snd (adopt_rows p clk busy rows w1))" if "queue_run p w w1" for w1
    using that Cons.IH[OF Cons.prems] by (rule queue_run_trans)
  have poison: "queue_run p w1 (w1\<lparr>w_poison := x\<rparr>)" for w1 x by (rule run_same_queue) simp_all
  show ?case
  proof (cases "durable_receiver row = []")
    case True
    then show ?thesis using skip poison by simp
  next
    case False
    obtain res w1 where al: "adopt_legacy_row p clk busy row w = (res, w1)" by fastforce
    have w1: "queue_run p w w1" using run_adopt_legacy_row[OF Cons.prems False, of w clk busy] al by simp
    obtain changed w2 where ret: "retire_row busy (lg_id row) w1 = (changed, w2)" by fastforce
    have "queue_run p w1 w2"
      using ret by (intro run_same_queue) (auto simp: retire_row_def Let_def split: if_splits)
    then have w2: "queue_run p w w2" using w1 queue_run_trans by blast
    show ?thesis
    proof (cases res)
      case (Inl e)
      then show ?thesis using False al skip[OF queue_run_trans[OF w1 poison]] by simp
    next
      case (Inr answer)
      then show ?thesis using False al ret skip[OF w1] skip[OF w2] by (cases answer) (simp_all add: case_prod_beta Let_def)
    qed
  qed
qed (simp add: queue_run_refl)

lemma legacy_adopter_ok: "inj (p_mint p) \<Longrightarrow> adopter_ok p (Some (legacy_inbox_adoption p clk busy))"
proof -
  assume inj: "inj (p_mint p)"
  have "queue_run p w (w\<lparr>w_io := w_io w + 1\<rparr>)" for w by (rule run_same_queue) simp_all
  then have "queue_run p w (snd (adopt_orphaned_legacy_rows p clk busy limit w))" for limit w
    using queue_run_trans[OF _ run_adopt_rows[OF inj]] by (simp add: adopt_orphaned_legacy_rows_def Let_def)
  then show ?thesis
    by (simp add: adopter_ok_def within_def legacy_inbox_adoption_def case_prod_beta Let_def)
qed

lemma run_adopt:
  assumes "adopter_ok p adopter"
  shows "within (queue_run p) (adopt p adopter clk)"
  unfolding within_def
proof
  fix w :: world
  show "queue_run p w (snd (adopt p adopter clk w))"
  proof (cases adopter)
    case None
    then show ?thesis by (simp add: adopt_def queue_run_refl)
  next
    case (Some f)
    obtain res w' where f: "f ADOPT_LIMIT w = (res, w')" by fastforce
    have 1: "queue_run p w w'"
      using assms Some f withinD[of "queue_run p" "f ADOPT_LIMIT" w] by (simp add: adopter_ok_def)
    show ?thesis
    proof (cases res)
      case (Inl e)
      then show ?thesis using 1 Some f by (simp add: adopt_def)
    next
      case (Inr as)
      let ?w = "w'\<lparr>w_report := (w_report w')\<lparr>tr_adopted := as\<rparr>\<rparr>"
      have 2: "queue_run p w' ?w" by (rule run_same_queue) simp_all
      have 3: "queue_run p ?w (snd (raise_adoption_findings p clk as ?w))"
        unfolding raise_adoption_findings_def using withinD[OF run_adoption_findings] .
      have "snd (adopt p adopter clk w) = snd (raise_adoption_findings p clk as ?w)"
        using Some f Inr by (simp add: adopt_def)
      then show ?thesis using queue_run_trans[OF queue_run_trans[OF 1 2] 3] by simp
    qed
  qed
qed

lemma run_run_once:
  assumes "inj (p_mint p)" "adopter_ok p adopter"
  shows "within (queue_run p) (run_once p adopter clk stamp)"
proof -
  have "within (queue_run p) (andthen (adopt p adopter clk) (\<lambda>_.
       andthen (tick_reclaim p clk stamp) (\<lambda>_.
         andthen (serve p clk stamp) (\<lambda>_ w'. (Inr (w_report w'), w')))))"
    by (intro runs.within_andthen run_adopt[OF assms(2)] run_tick_reclaim[OF assms(1)] run_serve)
      (simp add: within_def queue_run_refl)
  note body = withinD[OF this]
  have "queue_run p w (w\<lparr>w_report := TickReport\<rparr>)" for w by (rule run_same_queue) simp_all
  from queue_run_trans[OF this body] show ?thesis by (simp add: within_def run_once_def)
qed

section \<open>A concrete fleet\<close>

text \<open>One supervisor seat that is always there and confirms every wake.\<close>

definition ex_ports :: ports where
  "ex_ports = \<lparr>p_resolve = (\<lambda>_ r. Inr \<lparr>rr_receiver_id = r, rr_terminal_id = ''t'', rr_is_supervisor = True,
       rr_pane_present = True, rr_display_name = r\<rparr>),
     p_emit = (\<lambda>_ _ _ _ _ _. Inr \<lparr>we_reason = None, we_verified = True, we_annotations = [], we_detail = []\<rparr>),
     p_inject = (\<lambda>_ _ _. Inr \<lparr>ir_outcome = OUT_DELIVERED, ir_detail = []\<rparr>),
     p_sha = id, p_mint = (\<lambda>n. py_str (int n))\<rparr>"

definition ex_world :: world where
  "ex_world = \<lparr>w_queue = ex1, w_findings = Some [], w_inbox = [], w_poison = [], w_ids = 0, w_io = 0, w_report = TickReport, w_log = []\<rparr>"

lemma ex_mint: "inj (p_mint ex_ports)"
  by (auto simp: ex_ports_def inj_def dest: py_str_inj)

lemma ex_unminted: "unminted ex_ports 0 {''m''}"
proof -
  have "py_str (int k) \<noteq> ''m''" for k
    using nat_digits_chars[of k] by (auto simp: py_str_def)
  then show ?thesis by (auto simp: unminted_def ex_ports_def)
qed

section \<open>Properties of the tick and the wake\<close>

text \<open>A production tick is a run of the queue. Whatever the directory, the carriers and the injector answer or
  raise, whatever the database refuses to the adopter, and whatever the state of the queue, one whole tick
  (adoption, reclaim, notices, serving, epoch closure), including one that ends in an exception, changes the
  queue only through a run of the store's own steps, with fresh ids; so a reachable queue stays reachable
  and its invariant holds after every tick. The id supply does not repeat.\<close>

lemma tick_is_a_queue_run:
  fixes clk stamp :: time and busy :: "nat \<Rightarrow> bool"
  assumes "inj (p_mint p)" "unminted p (w_ids w) used" and "qreach (p_sha p) (w_queue w, used)"
  defines "w' \<equiv> snd (run_once p (Some (legacy_inbox_adoption p clk busy)) clk stamp w)"
  shows "\<exists>used'. (qstep (p_sha p))\<^sup>*\<^sup>* (w_queue w, used) (w_queue w', used') \<and> unminted p (w_ids w') used'
    \<and> qstore_ok (w_queue w')"
proof -
  from withinD[OF run_run_once[OF assms(1) legacy_adopter_ok[OF assms(1)]], of w clk busy clk stamp] assms(2)
  obtain used' where u: "(qstep (p_sha p))\<^sup>*\<^sup>* (w_queue w, used) (w_queue w', used')" "unminted p (w_ids w') used'"
    unfolding queue_run_def w'_def by blast
  moreover have "qreach (p_sha p) (w_queue w', used')" using assms(3) u(1) by (rule rtranclp_trans)
  ultimately show ?thesis using reach_ok by blast
qed

lemma tick_is_a_queue_run_witness:
  "qstore_ok (w_queue (snd (run_once ex_ports (Some (legacy_inbox_adoption ex_ports 5 (\<lambda>_. False))) 5 5
     (ex_world\<lparr>w_inbox := [ex_legacy_row]\<rparr>))))"
proof -
  let ?w = "ex_world\<lparr>w_inbox := [ex_legacy_row]\<rparr>"
  have "unminted ex_ports (w_ids ?w) {''m''}" "qreach (p_sha ex_ports) (w_queue ?w, {''m''})"
    using ex_unminted ex_reach(1) by (simp_all add: ex_world_def) (simp add: ex_ports_def)
  from tick_is_a_queue_run[OF ex_mint this, of 5 "\<lambda>_. False" 5] show ?thesis by blast
qed

text \<open>How a delivery ends, by what the directory answers and by the new ordinal.\<close>

lemma deliver_unfold:
  "deliver p d w = (case p_resolve p (w_io w) (sd_receiver_id d) of
     Inl e \<Rightarrow> (Inl e, w\<lparr>w_io := w_io w + 1\<rparr>)
   | Inr r \<Rightarrow>
       if \<not> rr_live r then (Inr (absent_report d), w\<lparr>w_io := w_io w + 1\<rparr>)
       else
         (let (c, st) = bump_wake_count (sd_receiver_id d) (sd_epoch d) (w_queue w);
              w1 = w\<lparr>w_io := w_io w + 1, w_queue := st\<rparr>;
              line = build_digest_line (sd_epoch d) (int (length (sd_msg_ids d))) c (sd_msg_ids d) in
          if c = 0 then (Inr (closed_report d r), w1)
          else if rr_is_supervisor r then wake_seat p d r line c w1
          else inject_worker p d r line c w1))"
  by (simp add: deliver_def andthen_def call_resolve_def compose_def return_act_def Let_def
      split: sum.splits prod.splits)

lemma wake_seat_log:
  "w_log (snd (wake_seat p d r line c w)) = w_log w @ [SeatWake (rr_terminal_id r) line
     (ws_key (resolve_wake_sender (senders_of (sd_msg_ids d) (w_queue w)) (rr_receiver_id r)))
     (ws_name (resolve_wake_sender (senders_of (sd_msg_ids d) (w_queue w)) (rr_receiver_id r)))
     (wake_msg_id d c)]"
  by (simp add: wake_seat_def andthen_def call_emit_def Let_def split: sum.splits)

lemma inject_worker_log:
  "w_log (snd (inject_worker p d r line c w)) =
     w_log w @ (if rr_is_supervisor r then [] else [PanePaste (rr_terminal_id r) line])"
  by (simp add: inject_worker_def andthen_def call_inject_def return_act_def split: sum.splits)

lemma deliver_log:
  "let w' = snd (deliver p d w); c = fst (bump_wake_count (sd_receiver_id d) (sd_epoch d) (w_queue w));
       line = build_digest_line (sd_epoch d) (int (length (sd_msg_ids d))) c (sd_msg_ids d) in
     (case p_resolve p (w_io w) (sd_receiver_id d) of
      Inl e \<Rightarrow> w_log w' = w_log w
    | Inr r \<Rightarrow>
        if \<not> rr_live r \<or> c = 0 then w_log w' = w_log w
        else if rr_is_supervisor r
        then \<exists>key name. w_log w' = w_log w @ [SeatWake (rr_terminal_id r) line key name (wake_msg_id d c)]
               \<and> (rr_receiver_id r = DELIVERY_SENDER_ADDRESS \<or> key \<noteq> rr_receiver_id r)
        else w_log w' = w_log w @ [PanePaste (rr_terminal_id r) line])"
proof (cases "p_resolve p (w_io w) (sd_receiver_id d)")
  case (Inl e)
  then show ?thesis by (simp add: deliver_unfold Let_def)
next
  case (Inr r)
  obtain c st where b: "bump_wake_count (sd_receiver_id d) (sd_epoch d) (w_queue w) = (c, st)" by fastforce
  have key: "ws_key (resolve_wake_sender ss (rr_receiver_id r)) \<noteq> rr_receiver_id r"
    if "rr_receiver_id r \<noteq> DELIVERY_SENDER_ADDRESS" for ss
    using wake_sender_cases[OF that] by (simp add: Let_def)
  show ?thesis
    using Inr b key by (auto simp: deliver_unfold Let_def wake_seat_log inject_worker_log)
qed

text \<open>The sender rule, on the set of the senders that are named at all.\<close>

lemma wake_sender_rule:
  shows "set senders - {[]} = {s} \<Longrightarrow> s \<noteq> receiver \<Longrightarrow>
      ws_key (resolve_wake_sender senders receiver) = s \<and> ws_name (resolve_wake_sender senders receiver) = s"
    and "\<nexists>s. set senders - {[]} = {s} \<and> s \<noteq> receiver \<Longrightarrow>
      ws_key (resolve_wake_sender senders receiver) = DELIVERY_SENDER_ADDRESS"
proof -
  let ?ds = "dict_fromkeys (filter (\<lambda>s. s \<noteq> []) senders)"
  have named: "set senders - {[]} = set ?ds" by auto
  have dist: "distinct ?ds" by (rule distinct_dict_fromkeys)
  show "ws_key (resolve_wake_sender senders receiver) = s \<and> ws_name (resolve_wake_sender senders receiver) = s"
    if one: "set senders - {[]} = {s}" and other: "s \<noteq> receiver"
  proof -
    have "?ds = [s]"
    proof (cases ?ds)
      case (Cons a xs)
      then show ?thesis using one dist unfolding named by (cases xs) auto
    qed (use one named in simp)
    then show ?thesis using other by (simp add: resolve_wake_sender_def Let_def)
  qed
  show "ws_key (resolve_wake_sender senders receiver) = DELIVERY_SENDER_ADDRESS"
    if none: "\<nexists>s. set senders - {[]} = {s} \<and> s \<noteq> receiver"
  proof (cases "\<exists>s. ?ds = [s]")
    case True
    then obtain s where s: "?ds = [s]" by blast
    then have "s = receiver" using none unfolding named by auto
    then show ?thesis using s by (simp add: resolve_wake_sender_def Let_def)
  next
    case False
    then show ?thesis by (auto simp: resolve_wake_sender_def Let_def split: list.splits)
  qed
qed

lemma senders_of_bump: "senders_of ids (snd (bump_wake_count r e st)) = senders_of ids st"
  by (simp add: bump_wake_count_def senders_of_def Let_def)

text \<open>(C29) Exactly one carrier, by the receiver's role. A delivery hands exactly one line to a carrier when
  the directory finds the receiver live and its epoch still open, and none otherwise; the queue changes by
  nothing but the advance of the ordinal, and not at all for a receiver that is not there. A seat is never
  pasted into: the line is pasted exactly when the directory says that the receiver is not a supervisor,
  and goes over the native channel exactly when it says that it is. The line is the digest of the epoch under
  the ordinal the store just advanced, and the wake's id is that epoch and ordinal. The wake is from the one
  sender the messages of the epoch name, if they name exactly one and it is not the receiver, and otherwise
  from the delivery service's own address; so a wake names its own receiver only where the receiver has
  that very address.\<close>

theorem delivery_by_role:
  "let w' = snd (deliver p d w); c = fst (bump_wake_count (sd_receiver_id d) (sd_epoch d) (w_queue w));
       line = build_digest_line (sd_epoch d) (int (length (sd_msg_ids d))) c (sd_msg_ids d);
       named = set (senders_of (sd_msg_ids d) (w_queue w)) - {[]} in
     (case p_resolve p (w_io w) (sd_receiver_id d) of
      Inl e \<Rightarrow> w_log w' = w_log w \<and> w_queue w' = w_queue w
    | Inr r \<Rightarrow>
        if \<not> rr_live r then w_log w' = w_log w \<and> w_queue w' = w_queue w
        else w_queue w' = snd (bump_wake_count (sd_receiver_id d) (sd_epoch d) (w_queue w))
          \<and> (if c = 0 then w_log w' = w_log w
             else if rr_is_supervisor r
             then \<exists>key name. w_log w' = w_log w @ [SeatWake (rr_terminal_id r) line key name (wake_msg_id d c)]
               \<and> (\<forall>s. named = {s} \<and> s \<noteq> rr_receiver_id r \<longrightarrow> key = s \<and> name = s)
               \<and> ((\<nexists>s. named = {s} \<and> s \<noteq> rr_receiver_id r) \<longrightarrow> key = DELIVERY_SENDER_ADDRESS)
               \<and> (key = rr_receiver_id r \<longrightarrow> rr_receiver_id r = DELIVERY_SENDER_ADDRESS)
             else w_log w' = w_log w @ [PanePaste (rr_terminal_id r) line]))"
proof (cases "p_resolve p (w_io w) (sd_receiver_id d)")
  case (Inl e)
  then show ?thesis by (simp add: deliver_unfold Let_def)
next
  case (Inr r)
  let ?b = "bump_wake_count (sd_receiver_id d) (sd_epoch d) (w_queue w)"
  let ?w1 = "w\<lparr>w_io := w_io w + 1, w_queue := snd ?b\<rparr>"
  let ?senders = "senders_of (sd_msg_ids d) (w_queue w)"
  let ?named = "set ?senders - {[]}"
  let ?sender = "resolve_wake_sender ?senders (rr_receiver_id r)"
  let ?line = "build_digest_line (sd_epoch d) (int (length (sd_msg_ids d))) (fst ?b) (sd_msg_ids d)"
  have rule: "\<forall>s. ?named = {s} \<and> s \<noteq> rr_receiver_id r \<longrightarrow> ws_key ?sender = s \<and> ws_name ?sender = s"
      "(\<nexists>s. ?named = {s} \<and> s \<noteq> rr_receiver_id r) \<longrightarrow> ws_key ?sender = DELIVERY_SENDER_ADDRESS"
    using wake_sender_rule(1)[of ?senders _ "rr_receiver_id r"] wake_sender_rule(2)[of ?senders "rr_receiver_id r"]
    by blast+
  then have own: "ws_key ?sender = rr_receiver_id r \<longrightarrow> rr_receiver_id r = DELIVERY_SENDER_ADDRESS" by metis
  show ?thesis
  proof (cases "rr_live r")
    case False
    then show ?thesis using Inr by (simp add: deliver_unfold Let_def)
  next
    case live: True
    have queue: "w_queue (snd (deliver p d w)) = snd ?b"
      using Inr live by (simp add: deliver_unfold Let_def wake_seat_def inject_worker_def andthen_def call_emit_def
          call_inject_def return_act_def split: sum.splits prod.splits)
    have log: "w_log (snd (deliver p d w)) =
        (if fst ?b = 0 then w_log w
         else if rr_is_supervisor r
         then w_log w @ [SeatWake (rr_terminal_id r) ?line (ws_key ?sender) (ws_name ?sender) (wake_msg_id d (fst ?b))]
         else w_log w @ [PanePaste (rr_terminal_id r) ?line])"
      using Inr live senders_of_bump[of "sd_msg_ids d" "sd_receiver_id d" "sd_epoch d" "w_queue w"]
      by (cases ?b) (simp add: deliver_unfold Let_def wake_seat_log inject_worker_log)
    show ?thesis using Inr live queue log rule own by (auto simp: Let_def)
  qed
qed

text \<open>The ordinal a bump returns is one more than the stored one, and the store holds it afterwards.\<close>

lemma bump_wake_count_value:
  assumes keys: "distinct (map digest_key (q_digests st))" and c: "fst (bump_wake_count r e st) \<noteq> 0"
  shows "\<exists>x \<in> set (q_digests st). digest_at_key r e x \<and> sd_open x
      \<and> fst (bump_wake_count r e st) = sd_wake_count x + 1
      \<and> x\<lparr>sd_wake_count := sd_wake_count x + 1\<rparr> \<in> set (q_digests (snd (bump_wake_count r e st)))"
proof -
  let ?P = "\<lambda>d. digest_at_key r e d \<and> sd_open d"
  let ?f = "\<lambda>d. d\<lparr>sd_wake_count := sd_wake_count d + 1\<rparr>"
  let ?ds = "update_where ?P ?f (q_digests st)"
  have pos: "rowcount ?P (q_digests st) \<noteq> 0" using c by (auto simp: bump_wake_count_def Let_def split: if_splits)
  then obtain x where x: "x \<in> set (q_digests st)" "?P x"
    by (metis (no_types, lifting) not_gr_zero rowcount_pos_iff)
  have mem: "?f x \<in> set ?ds" using x by (auto simp: set_update_where)
  have "map digest_key ?ds = map digest_key (q_digests st)"
    by (rule map_update_where_key) (simp add: digest_key_def)
  then have "fetchone (\<lambda>d. digest_key d = (r, e)) ?ds = Some (?f x)"
    using fetchone_key_eq[OF _ mem, of digest_key "(r, e)"] keys x(2) by (simp add: digest_key_def digest_at_key_def)
  moreover have "digest_at_key r e = (\<lambda>d. digest_key d = (r, e))"
    by (auto simp: digest_at_key_def digest_key_def)
  ultimately have "fst (bump_wake_count r e st) = sd_wake_count x + 1"
    using pos by (simp add: bump_wake_count_def Let_def digest_at_def)
  moreover have "q_digests (snd (bump_wake_count r e st)) = ?ds"
    using pos by (simp add: bump_wake_count_def Let_def)
  ultimately show ?thesis using x mem by auto
qed

lemma deliver_queue:
  "p_resolve p (w_io w) (sd_receiver_id d) = Inr r \<Longrightarrow> rr_live r \<Longrightarrow>
     w_queue (snd (deliver p d w)) = snd (bump_wake_count (sd_receiver_id d) (sd_epoch d) (w_queue w))"
  by (simp add: deliver_unfold Let_def wake_seat_def inject_worker_def andthen_def call_emit_def
      call_inject_def return_act_def split: sum.splits prod.splits)

fun emission_line :: "emission \<Rightarrow> string" where
  "emission_line (SeatWake _ l _ _ _) = l"
| "emission_line (PanePaste _ l) = l"

lemma deliver_emits:
  assumes "w_log (snd (deliver p d w)) \<noteq> w_log w"
  shows "fst (bump_wake_count (sd_receiver_id d) (sd_epoch d) (w_queue w)) \<noteq> 0"
    and "emission_line (last (w_log (snd (deliver p d w)))) = build_digest_line (sd_epoch d)
      (int (length (sd_msg_ids d))) (fst (bump_wake_count (sd_receiver_id d) (sd_epoch d) (w_queue w))) (sd_msg_ids d)"
    and "w_queue (snd (deliver p d w)) = snd (bump_wake_count (sd_receiver_id d) (sd_epoch d) (w_queue w))"
  using assms deliver_log[of p d w] by (auto simp: Let_def deliver_queue split: if_splits sum.splits)

text \<open>A re-sent wake is never a duplicate line. When an epoch is woken twice in a row, from any reachable
  queue, the second line differs from the first, even if no message joined the epoch in between and
  whichever carrier is used; the transport's content window therefore cannot swallow the second.\<close>

theorem consecutive_wakes_differ:
  assumes "qreach sha (w_queue w, used)"
    and "w_log (snd (deliver p d w)) \<noteq> w_log w"
    and "w_queue w2 = w_queue (snd (deliver p d w))"
    and "sd_receiver_id d2 = sd_receiver_id d" "sd_epoch d2 = sd_epoch d"
    and "w_log (snd (deliver p2 d2 w2)) \<noteq> w_log w2"
  shows "emission_line (last (w_log (snd (deliver p2 d2 w2)))) \<noteq> emission_line (last (w_log (snd (deliver p d w))))"
proof -
  let ?r = "sd_receiver_id d" and ?e = "sd_epoch d"
  let ?st = "w_queue w" and ?st1 = "snd (bump_wake_count (sd_receiver_id d) (sd_epoch d) (w_queue w))"
  have ok: "qstore_ok ?st" using reach_ok[OF assms(1)] .
  have ok1: "qstore_ok ?st1" using good_ok[OF good_bump_wake_count[OF ok]] .
  have q2: "w_queue w2 = ?st1" using assms(3) deliver_emits(3)[OF assms(2)] by simp
  obtain x where x: "digest_at_key ?r ?e x" "fst (bump_wake_count ?r ?e ?st) = sd_wake_count x + 1"
    "x\<lparr>sd_wake_count := sd_wake_count x + 1\<rparr> \<in> set (q_digests ?st1)"
    using bump_wake_count_value[OF qstore_okD(8)[OF ok] deliver_emits(1)[OF assms(2)]] by blast
  have nz: "fst (bump_wake_count ?r ?e ?st1) \<noteq> 0" using deliver_emits(1)[OF assms(6)] assms(4,5) q2 by simp
  obtain y where y: "y \<in> set (q_digests ?st1)" "digest_at_key ?r ?e y"
    "fst (bump_wake_count ?r ?e ?st1) = sd_wake_count y + 1"
    using bump_wake_count_value[OF qstore_okD(8)[OF ok1] nz] by blast
  have "y = x\<lparr>sd_wake_count := sd_wake_count x + 1\<rparr>"
    using key_unique[OF qstore_okD(8)[OF ok1] y(1) x(3)] y(2) x(1) by (simp add: digest_at_key_def digest_key_def)
  then have "fst (bump_wake_count ?r ?e ?st1) \<noteq> fst (bump_wake_count ?r ?e ?st)" using x(2) y(3) by simp
  then show ?thesis
    using deliver_emits(2)[OF assms(2)] deliver_emits(2)[OF assms(6)] assms(4,5) q2 digest_line_eqD by metis
qed

text \<open>The example fleet with its epoch open.\<close>

definition ex_digest :: seat_digest where
  "ex_digest = new_digest ''r'' 1 [''m''] 0"

definition ex_epoch_world :: world where
  "ex_epoch_world = ex_world\<lparr>w_queue := ex1\<lparr>q_digests := [ex_digest]\<rparr>\<rparr>"

lemma ex_epoch_reach: "qreach id (w_queue ex_epoch_world, {''m''})"
proof -
  have "snd (build_digest ''r'' [''m''] 0 ex1) = ex1\<lparr>q_digests := [ex_digest]\<rparr>"
    by (simp add: build_digest_def Let_def ex1_def empty_qstore_def next_epoch_in_def sql_max_def ex_digest_def
        split: option.splits)
  then show ?thesis
    using ex_reach(1) qstep.do_build_digest[of id ex1 "{''m''}" "''r''" "[''m'']" 0]
    by (simp add: ex_epoch_world_def)
qed

lemma ex_deliver_emits:
  assumes "q_digests (w_queue w) = [ex_digest\<lparr>sd_wake_count := n\<rparr>]" "0 \<le> n"
  shows "w_log (snd (deliver ex_ports ex_digest w)) \<noteq> w_log w"
    and "q_digests (w_queue (snd (deliver ex_ports ex_digest w))) = [ex_digest\<lparr>sd_wake_count := n + 1\<rparr>]"
proof -
  have bump: "bump_wake_count (sd_receiver_id ex_digest) (sd_epoch ex_digest) (w_queue w)
      = (n + 1, (w_queue w)\<lparr>q_digests := [ex_digest\<lparr>sd_wake_count := n + 1\<rparr>]\<rparr>)"
    using assms by (simp add: bump_wake_count_def Let_def rowcount_def digest_at_def fetchone_def
        digest_at_key_def update_where_def sd_open_def ex_digest_def new_digest_def)
  have res: "p_resolve ex_ports (w_io w) (sd_receiver_id ex_digest) = Inr \<lparr>rr_receiver_id = sd_receiver_id ex_digest,
      rr_terminal_id = ''t'', rr_is_supervisor = True, rr_pane_present = True, rr_display_name = sd_receiver_id ex_digest\<rparr>"
    by (simp add: ex_ports_def)
  show "w_log (snd (deliver ex_ports ex_digest w)) \<noteq> w_log w"
    using assms(2) by (simp add: deliver_unfold res bump rr_live_def wake_seat_log)
  show "q_digests (w_queue (snd (deliver ex_ports ex_digest w))) = [ex_digest\<lparr>sd_wake_count := n + 1\<rparr>]"
    using deliver_queue[OF res] by (simp add: rr_live_def bump)
qed

theorem consecutive_wakes_differ_witness:
  "let w1 = snd (deliver ex_ports ex_digest ex_epoch_world); w2 = snd (deliver ex_ports ex_digest w1) in
   emission_line (last (w_log w2)) \<noteq> emission_line (last (w_log w1))"
proof -
  have d0: "q_digests (w_queue ex_epoch_world) = [ex_digest\<lparr>sd_wake_count := 0\<rparr>]"
    by (simp add: ex_epoch_world_def ex_digest_def new_digest_def)
  note d1 = ex_deliver_emits[OF d0, simplified]
  note d2 = ex_deliver_emits(1)[OF d1(2), simplified]
  from consecutive_wakes_differ[OF ex_epoch_reach d1(1) refl refl refl d2] show ?thesis
    by (simp add: Let_def)
qed

theorem delivery_by_role_witness:
  "\<exists>line key name i. w_log (snd (deliver ex_ports ex_digest ex_epoch_world)) = [SeatWake ''t'' line key name i] \<and> key \<noteq> ''r''"
proof -
  have e: "w_log (snd (deliver ex_ports ex_digest ex_epoch_world)) \<noteq> []" "sd_receiver_id ex_digest = ''r''" "w_log ex_epoch_world = []"
    "''r'' \<noteq> DELIVERY_SENDER_ADDRESS"
    using ex_deliver_emits(1)[of ex_epoch_world 0]
    by (simp_all add: ex_epoch_world_def ex_world_def ex_digest_def new_digest_def DELIVERY_SENDER_ADDRESS_def)
  then show ?thesis
    using delivery_by_role[of ex_ports ex_digest ex_epoch_world]
    by (auto simp: Let_def ex_ports_def rr_live_def split: if_splits)
qed

section \<open>One wake per lease\<close>

text \<open>Nothing the wake or the epoch bookkeeping writes makes a row claimable.\<close>

definition opens_no_claim :: "time \<Rightarrow> string option \<Rightarrow> world \<Rightarrow> world \<Rightarrow> bool" where
  "opens_no_claim now rcv w w' \<longleftrightarrow>
     ((\<exists>m \<in> set (q_msgs (w_queue w')). claimable now rcv m) \<longrightarrow>
      (\<exists>m \<in> set (q_msgs (w_queue w)). claimable now rcv m))"

lemma quiet_step_rows:
  assumes "quiet_step st st'"
  shows "\<exists>f. q_msgs st' = map f (q_msgs st) \<and> (\<forall>m. claimable now rcv (f m) \<longleftrightarrow> claimable now rcv m)"
proof -
  have "q_msgs st' = q_msgs st \<or> (\<exists>i h. st' = mark_dialog_hold i h st)"
    using assms by (cases rule: quiet_step.cases)
      (auto simp: build_digest_def extend_digest_def bump_wake_count_def close_digest_def
        set_msg_ids_def record_attempt_def Let_def split: option.splits)
  then show ?thesis
  proof (elim disjE exE)
    assume "q_msgs st' = q_msgs st"
    then show ?thesis by (intro exI[of _ id]) simp
  next
    fix i h
    let ?f = "\<lambda>m. if qm_msg_id m = i then m\<lparr>qm_held_since := h\<rparr> else m"
    assume st': "st' = mark_dialog_hold i h st"
    have "claimable now rcv (?f m) \<longleftrightarrow> claimable now rcv m" for m
      by (simp add: claimable_def split: option.split)
    then show ?thesis
      by (intro exI[of _ ?f]) (simp add: st' mark_dialog_hold_def update_where_def)
  qed
qed

interpretation no_claim: quiet_relation "opens_no_claim now rcv" for now rcv
proof
  fix w :: world and st assume "quiet_step (w_queue w) st"
  then obtain f where "q_msgs st = map f (q_msgs (w_queue w))" "\<forall>m. claimable now rcv (f m) \<longleftrightarrow> claimable now rcv m"
    using quiet_step_rows by blast
  then show "opens_no_claim now rcv w (w\<lparr>w_queue := st\<rparr>)" by (auto simp: opens_no_claim_def)
qed (auto simp: opens_no_claim_def)

lemma epoch_for_log: "w_log (snd (epoch_for r now w)) = w_log w"
  by (simp add: epoch_for_def Let_def split: option.splits prod.splits)

lemma serve_receiver_idle:
  assumes "\<forall>m \<in> set (q_msgs (w_queue w)). \<not> claimable now (Some r) m"
  shows "w_log (snd (serve_receiver p clk now r w)) = w_log w"
proof -
  have "claim_rows now CLAIM_LIMIT (Some r) (q_msgs (w_queue w)) = []"
    using assms set_sql_limit_subset[of CLAIM_LIMIT "[]"] by (simp add: claim_rows_def filter_False sql_limit_def)
  then have c: "claim TICK_LEASE_OWNER now CLAIM_LIMIT (Some r) (w_queue w) = (Inr [], w_queue w)"
    by (simp add: claim_def)
  obtain res w1 where e: "epoch_for r now (w\<lparr>w_queue := w_queue w\<rparr>) = (res, w1)" by fastforce
  then have "w_log w1 = w_log w" using epoch_for_log[of r now "w\<lparr>w_queue := w_queue w\<rparr>"] by simp
  then show ?thesis
    using c e by (cases res) (auto simp: serve_receiver_def andthen_def return_act_def split: option.splits)
qed

lemma serve_receiver_claims:
  assumes "distinct (map qm_msg_id (q_msgs (w_queue w)))"
  shows "opens_no_claim t rcv (w\<lparr>w_queue := snd (claim TICK_LEASE_OWNER now CLAIM_LIMIT (Some r) (w_queue w))\<rparr>)
    (snd (serve_receiver p clk now r w))"
proof -
  obtain res st where c: "claim TICK_LEASE_OWNER now CLAIM_LIMIT (Some r) (w_queue w) = (res, st)" by fastforce
  then show ?thesis
    using withinD[OF no_claim.within_after_claim] no_claim.R_refl
    by (cases res) (simp_all add: serve_receiver_def)
qed

text \<open>One wake per lease period. After a receiver was served at one instant, with fewer claimable rows
  than one claim takes, serving it again at a later instant hands nothing to any carrier, unless some
  row became available in between: the rows are leased, and nothing the first serve did opened another.
  Whatever the ports answer, a receiver with no claimable row gets no wake.\<close>

theorem one_wake_per_lease:
  assumes reach: "qreach sha (w_queue w, used)" and later: "now \<le> now'"
    and limit: "int (length (filter (claimable now (Some r)) (q_msgs (w_queue w)))) < CLAIM_LIMIT"
    and nothing_new: "\<forall>m \<in> set (q_msgs (w_queue w)). qm_available_at m \<le> now' \<longrightarrow> qm_available_at m \<le> now"
  shows "let w1 = snd (serve_receiver p clk now r w) in
    w_log (snd (serve_receiver p' clk' now' r w1)) = w_log w1"
proof -
  let ?rows = "claim_rows now CLAIM_LIMIT (Some r) (q_msgs (w_queue w))"
  let ?st = "snd (claim TICK_LEASE_OWNER now CLAIM_LIMIT (Some r) (w_queue w))"
  have dist: "distinct (map qm_msg_id (q_msgs (w_queue w)))"
    using reach_ok[OF reach] by (simp add: qstore_ok_def)
  have all: "m \<in> set ?rows" if "m \<in> set (q_msgs (w_queue w))" "claimable now (Some r) m" for m
    using that limit by (simp add: claim_rows_def sql_limit_def CLAIM_LIMIT_def)
  have "\<not> claimable now' (Some r) m" if "m \<in> set (q_msgs ?st)" for m
  proof
    assume c: "claimable now' (Some r) m"
    from that obtain x where x: "x \<in> set (q_msgs (w_queue w))"
      "m = (if x \<in> set ?rows then lease_row TICK_LEASE_OWNER (now + lease_span) x else x)"
      by (auto simp: claim_eq[OF dist] Let_def)
    then have "m = x" "x \<notin> set ?rows" using c by (auto simp: claimable_def row_simps split: if_splits)
    moreover from this have "claimable now (Some r) x"
      using c x(1) nothing_new later by (auto simp: claimable_def)
    ultimately show False using all x(1) by blast
  qed
  then have "\<forall>m \<in> set (q_msgs (w_queue (snd (serve_receiver p clk now r w)))). \<not> claimable now' (Some r) m"
    using serve_receiver_claims[OF dist, of now' "Some r" now r p clk] by (auto simp: opens_no_claim_def)
  then show ?thesis by (simp add: Let_def serve_receiver_idle)
qed

theorem one_wake_per_lease_witness:
  "let w1 = snd (serve_receiver ex_ports 0 0 ''r'' ex_world) in
    w_log (snd (serve_receiver ex_ports 59 59000000 ''r'' w1)) = w_log w1"
proof -
  have 1: "qreach id (w_queue ex_world, {''m''})" using ex_reach(1) by (simp add: ex_world_def)
  have 2: "int (length (filter (claimable 0 (Some ''r'')) (q_msgs (w_queue ex_world)))) < CLAIM_LIMIT"
    by (simp add: ex_world_def ex1_def CLAIM_LIMIT_def)
  have 3: "\<forall>m \<in> set (q_msgs (w_queue ex_world)). qm_available_at m \<le> 59000000 \<longrightarrow> qm_available_at m \<le> 0"
    by (simp add: ex_world_def ex1_def ex_row_def row_simps)
  show ?thesis by (rule one_wake_per_lease[OF 1 _ 2 3]) simp
qed

section \<open>Epoch closure, notices, retention\<close>

lemma all_terminal_msgs: "q_msgs st = q_msgs st' \<Longrightarrow> all_terminal ids st = all_terminal ids st'"
  by (simp add: all_terminal_def)

lemma close_epochs_effect:
  assumes total: "\<And>n r. \<exists>x. p_resolve p n r = Inr x"
  shows "fst (close_epochs p now ds w) = Inr ()
    \<and> q_msgs (w_queue (snd (close_epochs p now ds w))) = q_msgs (w_queue w)
    \<and> (\<forall>x \<in> set (q_digests (w_queue (snd (close_epochs p now ds w)))). sd_open x \<longrightarrow>
         x \<in> set (q_digests (w_queue w))
         \<and> \<not> (\<exists>d \<in> set ds. digest_key d = digest_key x \<and> all_terminal (sd_msg_ids d) (w_queue w)))"
proof (induction ds arbitrary: w)
  case Nil
  then show ?case by (simp add: return_act_def)
next
  case (Cons d ds)
  show ?case
  proof (cases "all_terminal (sd_msg_ids d) (w_queue w)")
    case False
    then show ?thesis using Cons.IH[of w] by auto
  next
    case True
    obtain r where r: "p_resolve p (w_io w) (sd_receiver_id d) = Inr r" using total by blast
    define via where "via = (if rr_live r \<and> rr_pane_present r then ''cancelled'' else ''abandoned'')"
    obtain closed st where c: "close_digest (sd_receiver_id d) (sd_epoch d) via now (w_queue w) = (closed, st)"
      by fastforce
    define w2 where "w2 = (if closed then w\<lparr>w_io := w_io w + 1, w_queue := st, w_report := (w_report w)\<lparr>tr_epochs_closed :=
        tr_epochs_closed (w_report w) + 1\<rparr>\<rparr> else w\<lparr>w_io := w_io w + 1, w_queue := st\<rparr>)"
    have step: "close_epochs p now (d # ds) w = close_epochs p now ds w2"
      using True r c by (simp add: andthen_def call_resolve_def via_def[symmetric] w2_def Let_def)
    have msgs: "q_msgs (w_queue w2) = q_msgs (w_queue w)"
      using c by (auto simp: w2_def close_digest_def Let_def)
    have "x \<in> set (q_digests (w_queue w)) \<and> digest_key x \<noteq> digest_key d"
      if "x \<in> set (q_digests (w_queue w2))" "sd_open x" for x
      using that c by (auto simp: w2_def close_digest_def Let_def set_update_where sd_open_def digest_at_key_def
          digest_key_def split: if_splits)
    then show ?thesis
      using Cons.IH[of w2] unfolding step msgs all_terminal_msgs[OF msgs]
      by (metis (no_types, lifting) set_ConsD)
  qed
qed

text \<open>No finished epoch stays open. Where the directory answers, the closing pass of a tick succeeds, and
  afterwards every epoch still open has a message that has not ended; it changes no message.\<close>

theorem no_finished_epoch_stays_open:
  assumes "\<And>n r. \<exists>x. p_resolve p n r = Inr x"
  shows "\<exists>w'. close_finished_epochs p now w = (Inr (), w') \<and> q_msgs (w_queue w') = q_msgs (w_queue w)
    \<and> (\<forall>d \<in> set (q_digests (w_queue w')). sd_open d \<longrightarrow>
         (\<exists>m \<in> set (q_msgs (w_queue w')). qm_msg_id m \<in> set (sd_msg_ids d) \<and> \<not> terminal m))"
proof -
  let ?w' = "snd (close_finished_epochs p now w)"
  note eff = close_epochs_effect[OF assms, of now "open_digests (w_queue w)" w, folded close_finished_epochs_def]
  have "\<exists>m \<in> set (q_msgs (w_queue ?w')). qm_msg_id m \<in> set (sd_msg_ids d) \<and> \<not> terminal m"
    if "d \<in> set (q_digests (w_queue ?w'))" "sd_open d" for d
  proof -
    have "d \<in> set (open_digests (w_queue w))" using eff that by (auto simp: open_digests_def)
    then have "\<not> all_terminal (sd_msg_ids d) (w_queue w)" using eff that by blast
    then show ?thesis
      using eff by (auto simp: all_terminal_def rowcount_def filter_empty_conv terminal_def split: if_splits)
  qed
  then show ?thesis using eff by (intro exI[of _ ?w']) (auto simp: prod_eq_iff)
qed

theorem no_finished_epoch_stays_open_witness:
  "\<exists>w'. close_finished_epochs ex_ports 9 ex_epoch_world = (Inr (), w')"
  using no_finished_epoch_stays_open[of ex_ports 9 ex_epoch_world] by (auto simp: ex_ports_def)

text \<open>Notices are one deep. Announcing the death of a notice, or of a message from a service, adds
  nothing to the queue. Any other announcement adds at most one message: it is addressed to the sender of
  the dead one, is flagged as a notice and comes from no one, so its own death is never announced by a
  further message.\<close>

lemma notices_one_deep:
  "let ms = q_msgs (w_queue w); ms' = q_msgs (w_queue (snd (announce_death p clk row w))) in
     if dr_is_notice row \<or> is_service_sender (Some (dr_sender_id row)) then ms' = ms
     else ms' = ms \<or> (\<exists>m. ms' = ms @ [m] \<and> qm_is_notice m \<and> is_service_sender (Some (qm_sender_id m))
                       \<and> qm_receiver_id m = dr_sender_id row)"
proof -
  have f: "w_queue (snd (raise_finding p clk c t k d v)) = w_queue v" for c t k d v
    by (simp add: raise_finding_def split: option.splits prod.splits sum.splits)
  have n: "w_queue (enqueue_notice p clk row v) = w_queue v \<or>
      w_queue (enqueue_notice p clk row v) = (w_queue v)\<lparr>q_msgs := q_msgs (w_queue v)
         @ [new_row (p_sha p) clk (p_mint p (w_ids v)) (notice_draft row)]\<rparr>" for v
  proof -
    have "w_queue (enqueue_notice p clk row v) = snd (enqueue (p_sha p) clk (p_mint p (w_ids v)) (notice_draft row) (w_queue v))"
      by (simp add: enqueue_notice_def split: prod.splits sum.splits)
    then show ?thesis by (simp add: enqueue_store)
  qed
  have row: "qm_is_notice (new_row sha t i (notice_draft row))" "is_service_sender (Some (qm_sender_id (new_row sha t i (notice_draft row))))"
    "qm_receiver_id (new_row sha t i (notice_draft row)) = dr_sender_id row" for sha t i
    by (simp_all add: new_row_def notice_draft_def is_service_sender_def)
  define first :: "unit act" where "first = (if dr_reason row \<in> set TIME_BOUND_REASONS
        then raise_finding p clk DIAG_DELIVERY_TIME_BOUND (dr_receiver_id row) (dr_msg_id row)
          (''reason='' @ dead_reason_value (dr_reason row) @ '' attempts='' @ py_str (dr_attempts row))
        else return_act ())"
  have q: "w_queue (snd (first w)) = w_queue w" by (simp add: first_def f return_act_def)
  obtain res v where v: "first w = (res, v)" by fastforce
  then have vq: "w_queue v = w_queue w" using q by simp
  show ?thesis
  proof (cases "(\<exists>e. res = Inl e) \<or> dr_is_notice row \<or> is_service_sender (Some (dr_sender_id row))")
    case True
    then have "w_queue (snd (announce_death p clk row w)) = w_queue w"
      unfolding announce_death_def first_def[symmetric] andthen_def v using vq by (auto split: sum.splits)
    then show ?thesis by (simp add: Let_def)
  next
    case False
    then have "snd (announce_death p clk row w) = enqueue_notice p clk row v"
      unfolding announce_death_def first_def[symmetric] andthen_def v by (cases res) auto
    then show ?thesis using n[of v] row vq False by (auto simp: Let_def)
  qed
qed

text \<open>Some deaths are silent. When a message that is a notice, or whose sender is a service, dies of its
  attempt budget, announcing the death does nothing at all: no finding and no notice.\<close>

lemma budget_death_of_service_message_is_silent:
  assumes "dr_reason row = MAX_ATTEMPTS" "dr_is_notice row \<or> is_service_sender (Some (dr_sender_id row))"
  shows "announce_death p clk row w = (Inr (), w)"
  using assms by (simp add: announce_death_def andthen_def return_act_def TIME_BOUND_REASONS_def)

lemma budget_death_of_service_message_is_silent_witness:
  "announce_death ex_ports 0 \<lparr>dr_msg_id = ''m'', dr_receiver_id = ''r'', dr_sender_id = ''watchdog:t'',
     dr_reason = MAX_ATTEMPTS, dr_is_notice = False, dr_attempts = 5\<rparr> ex_world = (Inr (), ex_world)"
  by (rule budget_death_of_service_message_is_silent) (simp_all add: is_service_sender_def)

text \<open>Retention keeps the evidence. The tick's prune removes no message that an open finding names, however
  long ago it ended, nor any attempt of such a message, and it removes no message that has not ended.\<close>

theorem tick_prune_keeps_evidence:
  assumes reach: "qreach sha (w_queue w, used)" and m: "m \<in> set (q_msgs (w_queue w))"
    and keep: "\<not> terminal m \<or> (\<exists>fs f. w_findings w = Some fs \<and> f \<in> set fs \<and> fi_state f = OPEN \<and> fi_dedupe_key f = qm_msg_id m)"
  shows "m \<in> set (q_msgs (w_queue (snd (tick_prune now w))))
    \<and> (\<forall>a \<in> set (q_attempts (w_queue w)). da_msg_id a = qm_msg_id m \<longrightarrow>
         a \<in> set (q_attempts (w_queue (snd (tick_prune now w)))))"
proof -
  let ?h = "now - retention_span"
  have ok: "qstore_ok (w_queue w)" using reach_ok[OF reach] .
  have "qm_msg_id m \<in> protected_ids w \<or> \<not> prunable_msg ?h m"
    using keep
  proof
    assume "\<not> terminal m"
    then show ?thesis using qstore_okD(3)[OF ok m] by (auto simp: row_ok_def prunable_msg_def)
  next
    assume "\<exists>fs f. w_findings w = Some fs \<and> f \<in> set fs \<and> fi_state f = OPEN \<and> fi_dedupe_key f = qm_msg_id m"
    then have "qm_msg_id m \<in> protected_ids w"
      by (force simp: protected_ids_def list_findings_def)
    then show ?thesis ..
  qed
  moreover have "x = m" if "x \<in> set (q_msgs (w_queue w))" "qm_msg_id x = qm_msg_id m" for x
    using that m key_unique[OF qstore_okD(1)[OF ok]] by blast
  ultimately show ?thesis
    using m prune_tables[OF qstore_okD(1)[OF ok], of now "protected_ids w"]
    by (auto simp: tick_prune_def Let_def split_def)
qed

theorem tick_prune_keeps_evidence_witness:
  "ex_row \<in> set (q_msgs (w_queue (snd (tick_prune 9000000000000 ex_world))))"
proof -
  have "qreach id (w_queue ex_world, {''m''})" "ex_row \<in> set (q_msgs (w_queue ex_world))" "\<not> terminal ex_row"
    using ex_reach(1) ex_members(1) by (simp_all add: ex_world_def ex_row_def terminal_iff row_simps)
  from tick_prune_keeps_evidence[OF this(1,2)] this(3) show ?thesis by blast
qed

end
