(* ===== verification/Worker_State_Machine.thy ===== *)
theory Worker_State_Machine
  imports CAO_Prelude
begin

text \<open>
  The worker state vocabulary, the transition classifier and the degraded-reason order of
  \<open>core/states.py\<close>, and the two translations of \<open>app/worker_truth/mapping.py\<close> between worker
  events, worker states and the legacy status strings. \<open>strict\<close> is the value of
  \<open>CAO_WORKER_TRUTH_STRICT\<close> at the call.
\<close>

section \<open>States, reasons, classes\<close>

datatype worker_state =
  STARTING | IDLE | BUSY | AWAITING_INPUT | CAPPED | DEGRADED | EXITED

datatype degraded_reason =
  RENDER_UNCERTAIN | PANE_UNREADABLE | NO_SIGNAL | PRODUCER_ERROR | ROLLOUT_MISSING
  | CONFLICTING_SOURCES

fun DEGRADED_REASON_RANK :: "degraded_reason \<Rightarrow> nat" where
  "DEGRADED_REASON_RANK PRODUCER_ERROR = 6"
| "DEGRADED_REASON_RANK ROLLOUT_MISSING = 5"
| "DEGRADED_REASON_RANK CONFLICTING_SOURCES = 4"
| "DEGRADED_REASON_RANK PANE_UNREADABLE = 3"
| "DEGRADED_REASON_RANK RENDER_UNCERTAIN = 2"
| "DEGRADED_REASON_RANK NO_SIGNAL = 1"

datatype transition_class = ALLOWED | NO_OP | ANOMALOUS

text \<open>The texts of the three enumerations, and the enum lookup by text that raises on an unknown one.\<close>

fun worker_state_value :: "worker_state \<Rightarrow> string" where
  "worker_state_value STARTING = ''starting''"
| "worker_state_value IDLE = ''idle''"
| "worker_state_value BUSY = ''busy''"
| "worker_state_value AWAITING_INPUT = ''awaiting_input''"
| "worker_state_value CAPPED = ''capped''"
| "worker_state_value DEGRADED = ''degraded''"
| "worker_state_value EXITED = ''exited''"

fun degraded_reason_value :: "degraded_reason \<Rightarrow> string" where
  "degraded_reason_value RENDER_UNCERTAIN = ''render_uncertain''"
| "degraded_reason_value PANE_UNREADABLE = ''pane_unreadable''"
| "degraded_reason_value NO_SIGNAL = ''no_signal''"
| "degraded_reason_value PRODUCER_ERROR = ''producer_error''"
| "degraded_reason_value ROLLOUT_MISSING = ''rollout_missing''"
| "degraded_reason_value CONFLICTING_SOURCES = ''conflicting_sources''"

fun transition_class_value :: "transition_class \<Rightarrow> string" where
  "transition_class_value ALLOWED = ''Allowed''"
| "transition_class_value NO_OP = ''NoOp''"
| "transition_class_value ANOMALOUS = ''Anomalous''"

definition worker_state_of :: "string \<Rightarrow> worker_state result" where
  "worker_state_of v =
     (case find (\<lambda>s. worker_state_value s = v)
        [STARTING, IDLE, BUSY, AWAITING_INPUT, CAPPED, DEGRADED, EXITED] of
        Some s \<Rightarrow> Inr s | None \<Rightarrow> Inl ValueError)"

definition degraded_reason_of :: "string \<Rightarrow> degraded_reason result" where
  "degraded_reason_of v =
     (case find (\<lambda>r. degraded_reason_value r = v)
        [RENDER_UNCERTAIN, PANE_UNREADABLE, NO_SIGNAL, PRODUCER_ERROR, ROLLOUT_MISSING, CONFLICTING_SOURCES] of
        Some r \<Rightarrow> Inr r | None \<Rightarrow> Inl ValueError)"

lemma worker_state_of_value [simp]: "worker_state_of (worker_state_value s) = Inr s"
  by (cases s) (simp_all add: worker_state_of_def)

lemma degraded_reason_of_value [simp]: "degraded_reason_of (degraded_reason_value r) = Inr r"
  by (cases r) (simp_all add: degraded_reason_of_def)

text \<open>\<open>_ORDER\<close>, \<open>_ROWS\<close> and the table \<open>TRANSITIONS\<close> zipped from them.\<close>

definition ORDER :: "worker_state list" where
  "ORDER = [STARTING, IDLE, BUSY, AWAITING_INPUT, CAPPED, DEGRADED, EXITED]"

fun ROWS :: "worker_state \<Rightarrow> transition_class list" where
  "ROWS STARTING = [NO_OP, ALLOWED, ALLOWED, ALLOWED, ALLOWED, ALLOWED, ALLOWED]"
| "ROWS IDLE = [ANOMALOUS, NO_OP, ALLOWED, ALLOWED, ALLOWED, ALLOWED, ALLOWED]"
| "ROWS BUSY = [ANOMALOUS, ALLOWED, NO_OP, ALLOWED, ALLOWED, ALLOWED, ALLOWED]"
| "ROWS AWAITING_INPUT = [ANOMALOUS, ALLOWED, ALLOWED, NO_OP, ALLOWED, ALLOWED, ALLOWED]"
| "ROWS CAPPED = [ANOMALOUS, ALLOWED, ANOMALOUS, ANOMALOUS, NO_OP, ALLOWED, ALLOWED]"
| "ROWS DEGRADED = [ANOMALOUS, ALLOWED, ALLOWED, ALLOWED, ALLOWED, NO_OP, ALLOWED]"
| "ROWS EXITED = [ALLOWED, ANOMALOUS, ANOMALOUS, ANOMALOUS, ANOMALOUS, ANOMALOUS, NO_OP]"

definition TRANSITIONS :: "worker_state \<times> worker_state \<rightharpoonup> transition_class" where
  "TRANSITIONS = map_of (concat (map (\<lambda>f. map (\<lambda>(t, c). ((f, t), c)) (zip ORDER (ROWS f))) ORDER))"

definition validate :: "bool \<Rightarrow> worker_state \<Rightarrow> worker_state \<Rightarrow> transition_class result" where
  "validate strict from_state to_state =
     (case TRANSITIONS (from_state, to_state) of
        None \<Rightarrow> Inl RuntimeError
      | Some c \<Rightarrow> if c = ANOMALOUS \<and> strict then Inl ValueError else Inr c)"

definition reason_rises :: "degraded_reason option \<Rightarrow> degraded_reason \<Rightarrow> bool" where
  "reason_rises current incoming =
     (case current of None \<Rightarrow> True
      | Some r \<Rightarrow> DEGRADED_REASON_RANK incoming > DEGRADED_REASON_RANK r)"

section \<open>Event kinds\<close>

text \<open>\<open>EventKind\<close>, \<open>DecisionKind\<close> and their union \<open>AnyKind\<close> of \<open>core/events.py\<close>.\<close>

datatype event_kind =
    SESSION_STARTED | SESSION_RESUMED | TURN_STARTED | TURN_ENDED | TOOL_CALLED | TOOL_RESULT
  | PROMPT_AWAITING | PROMPT_ANSWERED | SUBMISSION_CONFIRMED | USAGE_CAPPED | PROCESS_EXITED
  | STATUS_LEGACY_PUBLISHED | STATUS_PANE_CLASSIFIED | PANE_MISSING | PANE_RECOVERED

datatype decision_kind =
    STATUS_TRANSITION | STATUS_REASON_CHANGED | STATUS_RECOVERED | DELIVERY_ATTEMPT
  | TEARDOWN_DECIDED | TEARDOWN_INTENDED | FLEET_OVERRIDE | PROBE_FAILED

datatype any_kind = EK event_kind | DK decision_kind

fun event_kind_value :: "event_kind \<Rightarrow> string" where
  "event_kind_value SESSION_STARTED = ''session.started''"
| "event_kind_value SESSION_RESUMED = ''session.resumed''"
| "event_kind_value TURN_STARTED = ''turn.started''"
| "event_kind_value TURN_ENDED = ''turn.ended''"
| "event_kind_value TOOL_CALLED = ''tool.called''"
| "event_kind_value TOOL_RESULT = ''tool.result''"
| "event_kind_value PROMPT_AWAITING = ''prompt.awaiting''"
| "event_kind_value PROMPT_ANSWERED = ''prompt.answered''"
| "event_kind_value SUBMISSION_CONFIRMED = ''submission.confirmed''"
| "event_kind_value USAGE_CAPPED = ''usage.capped''"
| "event_kind_value PROCESS_EXITED = ''process.exited''"
| "event_kind_value STATUS_LEGACY_PUBLISHED = ''status.legacy_published''"
| "event_kind_value STATUS_PANE_CLASSIFIED = ''status.pane_classified''"
| "event_kind_value PANE_MISSING = ''pane.missing''"
| "event_kind_value PANE_RECOVERED = ''pane.recovered''"

fun decision_kind_value :: "decision_kind \<Rightarrow> string" where
  "decision_kind_value STATUS_TRANSITION = ''status.transition''"
| "decision_kind_value STATUS_REASON_CHANGED = ''status.reason_changed''"
| "decision_kind_value STATUS_RECOVERED = ''status.recovered''"
| "decision_kind_value DELIVERY_ATTEMPT = ''delivery.attempt''"
| "decision_kind_value TEARDOWN_DECIDED = ''teardown.decided''"
| "decision_kind_value TEARDOWN_INTENDED = ''teardown.intended''"
| "decision_kind_value FLEET_OVERRIDE = ''fleet.override''"
| "decision_kind_value PROBE_FAILED = ''probe.failed''"

definition ALL_EVENT_KINDS :: "event_kind list" where
  "ALL_EVENT_KINDS =
     [SESSION_STARTED, SESSION_RESUMED, TURN_STARTED, TURN_ENDED, TOOL_CALLED, TOOL_RESULT,
      PROMPT_AWAITING, PROMPT_ANSWERED, SUBMISSION_CONFIRMED, USAGE_CAPPED, PROCESS_EXITED,
      STATUS_LEGACY_PUBLISHED, STATUS_PANE_CLASSIFIED, PANE_MISSING, PANE_RECOVERED]"

definition ALL_DECISION_KINDS :: "decision_kind list" where
  "ALL_DECISION_KINDS =
     [STATUS_TRANSITION, STATUS_REASON_CHANGED, STATUS_RECOVERED, DELIVERY_ATTEMPT,
      TEARDOWN_DECIDED, TEARDOWN_INTENDED, FLEET_OVERRIDE, PROBE_FAILED]"

fun kind_value :: "any_kind \<Rightarrow> string" where
  "kind_value (EK k) = event_kind_value k"
| "kind_value (DK k) = decision_kind_value k"

text \<open>\<open>parse_kind\<close>: the enum lookups raise \<open>ValueError\<close> on an unknown value; the first is caught.\<close>

definition parse_kind :: "string \<Rightarrow> any_kind result" where
  "parse_kind v =
     (case find (\<lambda>k. event_kind_value k = v) ALL_EVENT_KINDS of
        Some k \<Rightarrow> Inr (EK k)
      | None \<Rightarrow>
          (case find (\<lambda>k. decision_kind_value k = v) ALL_DECISION_KINDS of
             Some k \<Rightarrow> Inr (DK k)
           | None \<Rightarrow> Inl ValueError))"

section \<open>What an event means\<close>

fun IMPLIED :: "event_kind \<Rightarrow> worker_state option" where
  "IMPLIED SESSION_STARTED = Some STARTING"
| "IMPLIED SESSION_RESUMED = Some IDLE"
| "IMPLIED TURN_STARTED = Some BUSY"
| "IMPLIED TURN_ENDED = Some IDLE"
| "IMPLIED TOOL_CALLED = Some BUSY"
| "IMPLIED TOOL_RESULT = Some BUSY"
| "IMPLIED PROMPT_AWAITING = Some AWAITING_INPUT"
| "IMPLIED PROMPT_ANSWERED = Some BUSY"
| "IMPLIED SUBMISSION_CONFIRMED = Some BUSY"
| "IMPLIED USAGE_CAPPED = Some CAPPED"
| "IMPLIED PROCESS_EXITED = Some EXITED"
| "IMPLIED PANE_MISSING = Some DEGRADED"
| "IMPLIED _ = None"

fun implied_state :: "any_kind \<Rightarrow> worker_state option" where
  "implied_state (EK k) = IMPLIED k"
| "implied_state (DK _) = None"

definition legacy_state :: "string \<Rightarrow> worker_state option" where
  "legacy_state latched =
     map_of [(''unknown'', DEGRADED), (''idle'', IDLE), (''processing'', BUSY),
             (''completed'', IDLE), (''waiting_user_answer'', AWAITING_INPUT),
             (''render_uncertain'', DEGRADED), (''error'', EXITED)] latched"

fun FORWARD_STATUS_MAP :: "worker_state \<Rightarrow> string" where
  "FORWARD_STATUS_MAP STARTING = ''processing''"
| "FORWARD_STATUS_MAP IDLE = ''idle''"
| "FORWARD_STATUS_MAP BUSY = ''processing''"
| "FORWARD_STATUS_MAP AWAITING_INPUT = ''waiting_user_answer''"
| "FORWARD_STATUS_MAP CAPPED = ''processing''"
| "FORWARD_STATUS_MAP DEGRADED = ''render_uncertain''"
| "FORWARD_STATUS_MAP EXITED = ''error''"

definition LOSSY_FORWARD_STATES :: "worker_state list" where
  "LOSSY_FORWARD_STATES = [STARTING, CAPPED]"

definition legacy_status ::
  "worker_state \<Rightarrow> any_kind option \<Rightarrow> degraded_reason option \<Rightarrow> string" where
  "legacy_status state causing_kind reason =
     (if state = IDLE \<and> causing_kind = Some (EK TURN_ENDED) then ''completed''
      else if state = DEGRADED \<and> reason = Some NO_SIGNAL then ''unknown''
      else FORWARD_STATUS_MAP state)"

definition ANSWERED_STATES :: "worker_state list" where
  "ANSWERED_STATES = [IDLE, BUSY]"

text \<open>\<open>answered_state\<close>: \<open>latched\<close> is the payload's \<open>latched_status\<close> when it is a string.\<close>

definition answered_state :: "string option \<Rightarrow> worker_state option" where
  "answered_state latched =
     (case latched of None \<Rightarrow> None
      | Some raw \<Rightarrow>
          (case legacy_state raw of
             Some s \<Rightarrow> if s \<in> set ANSWERED_STATES then Some s else None
           | None \<Rightarrow> None))"

definition PANE_MISSING_REASON :: degraded_reason where
  "PANE_MISSING_REASON = PANE_UNREADABLE"

section \<open>Facts\<close>

lemma TRANSITIONS_total: "TRANSITIONS (a, b) \<noteq> None"
  by (cases a; cases b) (simp_all add: TRANSITIONS_def ORDER_def)

lemma TRANSITIONS_diag: "TRANSITIONS (a, b) = Some NO_OP \<longleftrightarrow> a = b"
  by (cases a; cases b) (simp_all add: TRANSITIONS_def ORDER_def)

lemma TRANSITIONS_anomalous:
  "TRANSITIONS (a, b) = Some ANOMALOUS \<longleftrightarrow>
     a \<noteq> b \<and> (b = STARTING \<and> a \<noteq> EXITED \<or> a = EXITED \<and> b \<noteq> STARTING
       \<or> a = CAPPED \<and> b \<in> {BUSY, AWAITING_INPUT})"
  by (cases a; cases b) (simp_all add: TRANSITIONS_def ORDER_def)

lemma validate_lenient: "\<exists>c. validate False a b = Inr c \<and> TRANSITIONS (a, b) = Some c"
  using TRANSITIONS_total[of a b] by (auto simp: validate_def)

lemma validate_NO_OP [simp]: "validate strict a b = Inr NO_OP \<longleftrightarrow> a = b"
  using TRANSITIONS_diag[of a b] TRANSITIONS_total[of a b] by (auto simp: validate_def split: if_splits)

lemma rank_inj: "DEGRADED_REASON_RANK a = DEGRADED_REASON_RANK b \<Longrightarrow> a = b"
  by (cases a; cases b) simp_all

lemma reason_rises_Some [simp]:
  "reason_rises (Some a) b \<longleftrightarrow> DEGRADED_REASON_RANK a < DEGRADED_REASON_RANK b"
  by (simp add: reason_rises_def)

lemma reason_rises_None [simp]: "reason_rises None b"
  by (simp add: reason_rises_def)

lemma NO_SIGNAL_lowest: "\<not> reason_rises (Some a) NO_SIGNAL"
  by (cases a) simp_all

lemma legacy_state_image:
  "legacy_state s = Some w \<Longrightarrow> w \<notin> {STARTING, CAPPED}"
  by (auto simp: legacy_state_def split: if_splits)

lemma answered_state_clamped: "answered_state l = Some w \<Longrightarrow> w = IDLE \<or> w = BUSY"
  by (auto simp: answered_state_def ANSWERED_STATES_def split: option.splits if_splits)

section \<open>Properties\<close>

text \<open>A status survives the legacy vocabulary. Publishing a state as a legacy status string, whatever
  event caused it and whatever the degraded reason, and reading the string back gives the same state
  for every state except the two the legacy vocabulary has no word for: a starting or capped worker
  reads back as busy, never as one that would be pasted into or reported exited. A state read from any
  legacy string is never starting or capped.\<close>

lemma legacy_status_roundtrip:
  "legacy_state (legacy_status s kind reason) =
     Some (if s \<in> set LOSSY_FORWARD_STATES then BUSY else s)
   \<and> legacy_state v \<notin> {Some STARTING, Some CAPPED}"
  using legacy_state_image[of v]
  by (cases s) (auto simp: legacy_status_def LOSSY_FORWARD_STATES_def legacy_state_def)

lemma find_unique:
  assumes "\<And>x y. f x = f y \<Longrightarrow> x = y" "k \<in> set ks"
  shows "find (\<lambda>x. f x = f k) ks = Some k"
  using assms(2) by (induction ks) (auto dest: assms(1))

lemma event_kind_value_inj: "event_kind_value a = event_kind_value b \<Longrightarrow> a = b"
  by (cases a; cases b) simp_all

lemma decision_kind_value_inj: "decision_kind_value a = decision_kind_value b \<Longrightarrow> a = b"
  by (cases a; cases b) simp_all

lemma kinds_apart: "event_kind_value a \<noteq> decision_kind_value b"
  by (cases a; cases b) simp_all

lemma kinds_complete: "k \<in> set ALL_EVENT_KINDS" "d \<in> set ALL_DECISION_KINDS"
  by (cases k; simp add: ALL_EVENT_KINDS_def) (cases d; simp add: ALL_DECISION_KINDS_def)

text \<open>Kinds round-trip through the log's text column. The text of every observation and decision kind
  parses back to that kind (the two vocabularies do not overlap, so the order of the two lookups does
  not matter), and any text that parses is the text of the kind it parses to; every other text raises
  \<open>ValueError\<close>.\<close>

lemma parse_kind_roundtrip:
  "parse_kind (kind_value k) = Inr k
   \<and> (parse_kind v = Inr k' \<longleftrightarrow> v = kind_value k')
   \<and> (parse_kind v = Inl e \<longleftrightarrow> e = ValueError \<and> v \<notin> range kind_value)"
proof -
  have ek: "parse_kind (event_kind_value a) = Inr (EK a)" for a
    using find_unique[of event_kind_value a, OF event_kind_value_inj kinds_complete(1)]
    by (simp add: parse_kind_def)
  have dk: "parse_kind (decision_kind_value a) = Inr (DK a)" for a
  proof -
    have "find (\<lambda>k. event_kind_value k = decision_kind_value a) ALL_EVENT_KINDS = None"
      using kinds_apart by (simp add: find_None_iff)
    then show ?thesis
      using find_unique[of decision_kind_value a, OF decision_kind_value_inj kinds_complete(2)]
      by (simp add: parse_kind_def)
  qed
  have rt: "parse_kind (kind_value k) = Inr k" for k
    using ek dk by (cases k) simp_all
  have inverse: "v = kind_value k" if "parse_kind v = Inr k" for k
    using that by (auto simp: parse_kind_def find_Some_iff split: option.splits)
  have err: "e = ValueError" if "parse_kind v = Inl e" for e
    using that by (auto simp: parse_kind_def split: option.splits)
  have "parse_kind v = Inr k' \<longleftrightarrow> v = kind_value k'" using rt inverse by blast
  moreover have "parse_kind v = Inl e \<longleftrightarrow> e = ValueError \<and> v \<notin> range kind_value"
  proof (cases "parse_kind v")
    case (Inl e')
    then have "v \<notin> range kind_value" using rt by auto
    then show ?thesis using Inl err by auto
  next
    case (Inr b)
    then show ?thesis using inverse[OF Inr] by auto
  qed
  ultimately show ?thesis using rt by blast
qed

end
