(* ===== verification/Event_Log.thy ===== *)
theory Event_Log
  imports Worker_State_Machine Finding_Store
begin

text \<open>
  The worker event log: the draft and the stored row of \<open>core/events.py\<close>, and the class
  \<open>SqliteEventStore\<close> of \<open>adapters/store/event_log.py\<close>. The store keeps the table \<open>worker_event\<close>, with
  its primary key and its two unique indexes, and the table \<open>worker_event_seq\<close> of the highest sequence
  number issued per terminal. The event id and the instant of an append are arguments (the code takes
  them from \<open>core/ids.py\<close> and from its clock before the transaction starts). A payload is a JSON object,
  an association list. A stored event is kept as the typed value; \<open>event_row\<close> is the row of text columns
  the table really holds, and the round trip between the two is proved below.
\<close>

section \<open>Vocabulary\<close>

definition FLEET_TERMINAL_ID :: string where "FLEET_TERMINAL_ID = ''__fleet__''"
definition PROJECTION_ORIGIN :: string where "PROJECTION_ORIGIN = ''worker_truth''"

datatype producer = HOOK | JSONL | PANE | SERVER

fun producer_value :: "producer \<Rightarrow> string" where
  "producer_value HOOK = ''hook''"
| "producer_value JSONL = ''jsonl''"
| "producer_value PANE = ''pane''"
| "producer_value SERVER = ''server''"

datatype confidence = AUTHORITATIVE | DERIVED

fun confidence_value :: "confidence \<Rightarrow> string" where
  "confidence_value AUTHORITATIVE = ''authoritative''"
| "confidence_value DERIVED = ''derived''"

datatype source_ref_scheme = TRANSCRIPT | HOOK_REF | PANE_REF

fun scheme_value :: "source_ref_scheme \<Rightarrow> string" where
  "scheme_value TRANSCRIPT = ''transcript''"
| "scheme_value HOOK_REF = ''hook''"
| "scheme_value PANE_REF = ''pane''"

definition SOURCE_REF_PREFIXES :: "string set" where
  "SOURCE_REF_PREFIXES = (\<lambda>s. scheme_value s @ '':'') ` {TRANSCRIPT, HOOK_REF, PANE_REF}"

definition source_ref :: "source_ref_scheme \<Rightarrow> string \<Rightarrow> string \<Rightarrow> string result" where
  "source_ref scheme subject discriminator =
     (let subject_text = strip subject; discriminator_text = strip discriminator in
      if subject_text = [] then Inl ValueError
      else if discriminator_text = [] then Inl ValueError
      else Inr (scheme_value scheme @ '':'' @ subject_text @ ''#'' @ discriminator_text))"

type_synonym payload = "(string \<times> json) list"

text \<open>\<open>payload.get(key)\<close> where the result is used only when \<open>isinstance(raw, str)\<close>.\<close>

definition payload_str :: "payload \<Rightarrow> string \<Rightarrow> string option" where
  "payload_str p key = (case map_of p key of Some (JStr s) \<Rightarrow> Some s | _ \<Rightarrow> None)"

record event_draft =
  vd_terminal_id :: string
  vd_kind :: any_kind
  vd_producer :: producer
  vd_confidence :: confidence
  vd_observed_at :: time
  vd_payload :: payload
  vd_source_ref :: "string option"
  vd_run_id :: "string option"
  vd_msg_id :: "string option"
  vd_decision :: "decision_kind option"
  vd_evidence :: "string option"
  vd_idempotency_key :: "string option"

record worker_event = event_draft +
  ve_event_id :: string
  ve_seq :: int
  ve_ingested_at :: time

text \<open>What the model class checks when a draft is built: a terminal id of at least one character and
  \<open>_check_decision_shape\<close>.\<close>

definition check_decision_shape :: "any_kind \<Rightarrow> decision_kind option \<Rightarrow> string option \<Rightarrow> unit result" where
  "check_decision_shape kind decision evidence =
     (case kind of
        DK k \<Rightarrow>
          (case decision of
             None \<Rightarrow> Inl ValueError
           | Some d \<Rightarrow> if d \<noteq> k then Inl ValueError else Inr ())
      | EK _ \<Rightarrow>
          if decision \<noteq> None then Inl ValueError
          else if evidence \<noteq> None then Inl ValueError
          else Inr ())"

definition EventDraft :: "event_draft \<Rightarrow> event_draft result" where
  "EventDraft d =
     (if vd_terminal_id d = [] then Inl ValueError
      else case check_decision_shape (vd_kind d) (vd_decision d) (vd_evidence d) of
             Inl e \<Rightarrow> Inl e
           | Inr _ \<Rightarrow> Inr d)"

definition mk_event :: "event_draft \<Rightarrow> string \<Rightarrow> int \<Rightarrow> time \<Rightarrow> worker_event" where
  "mk_event d event_id seq ingested_at =
     event_draft.extend d \<lparr>ve_event_id = event_id, ve_seq = seq, ve_ingested_at = ingested_at\<rparr>"

definition WorkerEvent :: "worker_event \<Rightarrow> worker_event result" where
  "WorkerEvent e =
     (if ve_event_id e = [] \<or> ve_seq e < 1 then Inl ValueError
      else case EventDraft (event_draft.truncate e) of Inl x \<Rightarrow> Inl x | Inr _ \<Rightarrow> Inr e)"

section \<open>The row of text columns\<close>

record event_row =
  er_event_id :: string
  er_terminal_id :: string
  er_seq :: int
  er_kind :: string
  er_producer :: string
  er_confidence :: string
  er_observed_at :: time
  er_ingested_at :: time
  er_payload :: payload
  er_source_ref :: "string option"
  er_run_id :: "string option"
  er_msg_id :: "string option"
  er_decision :: "string option"
  er_evidence :: "string option"
  er_idempotency_key :: "string option"

definition event_to_row :: "worker_event \<Rightarrow> event_row" where
  "event_to_row e =
     \<lparr>er_event_id = ve_event_id e, er_terminal_id = vd_terminal_id e, er_seq = ve_seq e,
      er_kind = kind_value (vd_kind e), er_producer = producer_value (vd_producer e),
      er_confidence = confidence_value (vd_confidence e), er_observed_at = vd_observed_at e,
      er_ingested_at = ve_ingested_at e, er_payload = vd_payload e, er_source_ref = vd_source_ref e,
      er_run_id = vd_run_id e, er_msg_id = vd_msg_id e,
      er_decision = map_option decision_kind_value (vd_decision e), er_evidence = vd_evidence e,
      er_idempotency_key = vd_idempotency_key e\<rparr>"

definition parse_producer :: "string \<Rightarrow> producer result" where
  "parse_producer v =
     (case find (\<lambda>k. producer_value k = v) [HOOK, JSONL, PANE, SERVER] of
        Some k \<Rightarrow> Inr k | None \<Rightarrow> Inl ValueError)"

definition parse_confidence :: "string \<Rightarrow> confidence result" where
  "parse_confidence v =
     (case find (\<lambda>k. confidence_value k = v) [AUTHORITATIVE, DERIVED] of
        Some k \<Rightarrow> Inr k | None \<Rightarrow> Inl ValueError)"

definition parse_decision :: "string option \<Rightarrow> decision_kind option result" where
  "parse_decision v =
     (case v of
        None \<Rightarrow> Inr None
      | Some s \<Rightarrow>
          (case find (\<lambda>k. decision_kind_value k = s) ALL_DECISION_KINDS of
             Some k \<Rightarrow> Inr (Some k) | None \<Rightarrow> Inl ValueError))"

definition row_to_event :: "event_row \<Rightarrow> worker_event result" where
  "row_to_event r =
     (case parse_kind (er_kind r) of Inl e \<Rightarrow> Inl e
      | Inr kind \<Rightarrow>
     (case parse_producer (er_producer r) of Inl e \<Rightarrow> Inl e
      | Inr producer \<Rightarrow>
     (case parse_confidence (er_confidence r) of Inl e \<Rightarrow> Inl e
      | Inr confidence \<Rightarrow>
     (case parse_decision (er_decision r) of Inl e \<Rightarrow> Inl e
      | Inr decision \<Rightarrow>
        WorkerEvent
          \<lparr>vd_terminal_id = er_terminal_id r, vd_kind = kind, vd_producer = producer,
           vd_confidence = confidence, vd_observed_at = er_observed_at r, vd_payload = er_payload r,
           vd_source_ref = er_source_ref r, vd_run_id = er_run_id r, vd_msg_id = er_msg_id r,
           vd_decision = decision, vd_evidence = er_evidence r,
           vd_idempotency_key = er_idempotency_key r, ve_event_id = er_event_id r,
           ve_seq = er_seq r, ve_ingested_at = er_ingested_at r\<rparr>))))"

section \<open>The store\<close>

record estore =
  ev_rows :: "worker_event list"
  ev_marks :: "string \<Rightarrow> int option"

definition empty_estore :: estore where
  "empty_estore = \<lparr>ev_rows = [], ev_marks = (\<lambda>_. None)\<rparr>"

definition high_water :: "string \<Rightarrow> estore \<Rightarrow> int" where
  "high_water terminal_id st = (case ev_marks st terminal_id of None \<Rightarrow> 0 | Some n \<Rightarrow> n)"

text \<open>The transaction of \<open>append\<close>. The flag of the result says whether a row was written: the code
  returns the stored row early, and runs the checks only after a write.\<close>

definition conflicts :: "worker_event \<Rightarrow> worker_event \<Rightarrow> bool" where
  "conflicts e x \<longleftrightarrow> ve_event_id x = ve_event_id e
     \<or> (vd_terminal_id x = vd_terminal_id e \<and> ve_seq x = ve_seq e)
     \<or> (vd_idempotency_key e \<noteq> None \<and> vd_idempotency_key x = vd_idempotency_key e)"

definition append_tx :: "string \<Rightarrow> time \<Rightarrow> event_draft \<Rightarrow> estore \<Rightarrow> (worker_event \<times> bool) result \<times> estore" where
  "append_tx event_id ingested_at d st =
     (case (if vd_idempotency_key d = None then None
            else fetchone (\<lambda>x. vd_idempotency_key x = vd_idempotency_key d) (ev_rows st)) of
        Some existing \<Rightarrow> (Inr (existing, False), st)
      | None \<Rightarrow>
          (let seq = high_water (vd_terminal_id d) st + 1;
               e = mk_event d event_id seq ingested_at in
           if \<exists>x \<in> set (ev_rows st). conflicts e x then (Inl IntegrityError, st)
           else (Inr (e, True),
                 st\<lparr>ev_marks := (ev_marks st)(vd_terminal_id d := Some seq), ev_rows := ev_rows st @ [e]\<rparr>)))"

definition read_where ::
  "string option \<Rightarrow> int \<Rightarrow> time option \<Rightarrow> any_kind set option \<Rightarrow> worker_event \<Rightarrow> bool" where
  "read_where terminal_id since_seq since kinds e \<longleftrightarrow>
     (case terminal_id of None \<Rightarrow> True | Some t \<Rightarrow> vd_terminal_id e = t)
   \<and> (since_seq = 0 \<or> since_seq < ve_seq e)
   \<and> (case since of None \<Rightarrow> True | Some t \<Rightarrow> t \<le> ve_ingested_at e)
   \<and> (case kinds of None \<Rightarrow> True | Some ks \<Rightarrow> vd_kind e \<in> ks)"

definition read_events ::
  "string option \<Rightarrow> int \<Rightarrow> time option \<Rightarrow> any_kind set option \<Rightarrow> int option \<Rightarrow> estore \<Rightarrow> worker_event list" where
  "read_events terminal_id since_seq since kinds limit st =
     (let rows = filter (read_where terminal_id since_seq since kinds) (ev_rows st);
          ordered = (if terminal_id \<noteq> None then sort_key ve_seq rows
                     else sort_key (\<lambda>e. (ve_ingested_at e, ve_event_id e)) rows) in
      case limit of None \<Rightarrow> ordered | Some n \<Rightarrow> sql_limit n ordered)"

definition get_event :: "string \<Rightarrow> estore \<Rightarrow> worker_event option" where
  "get_event event_id st = fetchone (\<lambda>e. ve_event_id e = event_id) (ev_rows st)"

definition prunable_event :: "time \<Rightarrow> fstore \<Rightarrow> worker_event \<Rightarrow> bool" where
  "prunable_event older_than fs e \<longleftrightarrow> ve_ingested_at e < older_than
     \<and> (\<forall>f \<in> set fs. fi_state f = OPEN \<longrightarrow> fi_sample_event_id f \<noteq> Some (ve_event_id e))"

definition prune_events :: "time \<Rightarrow> fstore \<Rightarrow> estore \<Rightarrow> nat \<times> estore" where
  "prune_events older_than fs st =
     (rowcount (prunable_event older_than fs) (ev_rows st),
      st\<lparr>ev_rows := filter (\<lambda>e. \<not> prunable_event older_than fs e) (ev_rows st)\<rparr>)"

section \<open>The invariant of the log\<close>

definition event_key :: "worker_event \<Rightarrow> string \<times> int" where
  "event_key e = (vd_terminal_id e, ve_seq e)"

definition events_ok :: "estore \<Rightarrow> bool" where
  "events_ok st \<longleftrightarrow> distinct (map ve_event_id (ev_rows st)) \<and> distinct (map event_key (ev_rows st))
     \<and> distinct (filter (\<lambda>k. k \<noteq> None) (map vd_idempotency_key (ev_rows st)))
     \<and> (\<forall>e \<in> set (ev_rows st). WorkerEvent e = Inr e \<and> ve_seq e \<le> high_water (vd_terminal_id e) st)
     \<and> (\<forall>t. 0 \<le> high_water t st)"

lemma events_okD:
  assumes "events_ok st"
  shows "distinct (map ve_event_id (ev_rows st))" "distinct (map event_key (ev_rows st))"
    "e \<in> set (ev_rows st) \<Longrightarrow> WorkerEvent e = Inr e"
    "e \<in> set (ev_rows st) \<Longrightarrow> ve_seq e \<le> high_water (vd_terminal_id e) st"
    "0 \<le> high_water t st"
  using assms by (auto simp: events_ok_def)

lemma mk_event_sel [simp]:
  "ve_event_id (mk_event d i n t) = i" "ve_seq (mk_event d i n t) = n" "ve_ingested_at (mk_event d i n t) = t"
  "vd_terminal_id (mk_event d i n t) = vd_terminal_id d" "vd_kind (mk_event d i n t) = vd_kind d"
  "vd_producer (mk_event d i n t) = vd_producer d" "vd_confidence (mk_event d i n t) = vd_confidence d"
  "vd_observed_at (mk_event d i n t) = vd_observed_at d" "vd_payload (mk_event d i n t) = vd_payload d"
  "vd_run_id (mk_event d i n t) = vd_run_id d" "vd_msg_id (mk_event d i n t) = vd_msg_id d"
  "vd_decision (mk_event d i n t) = vd_decision d" "vd_evidence (mk_event d i n t) = vd_evidence d"
  "vd_idempotency_key (mk_event d i n t) = vd_idempotency_key d"
  "event_draft.truncate (mk_event d i n t) = d"
  by (simp_all add: mk_event_def event_draft.defs)

lemma WorkerEvent_mk:
  "EventDraft d = Inr d \<Longrightarrow> i \<noteq> [] \<Longrightarrow> 1 \<le> n \<Longrightarrow> WorkerEvent (mk_event d i n t) = Inr (mk_event d i n t)"
  by (simp add: WorkerEvent_def)

lemma high_water_upd [simp]:
  "high_water t (st\<lparr>ev_marks := (ev_marks st)(u := Some n), ev_rows := rs\<rparr>) = (if t = u then n else high_water t st)"
  by (simp add: high_water_def)

text \<open>The three ways an append can end.\<close>

lemma append_tx_cases:
  obtains (replay) existing where "append_tx i t d st = (Inr (existing, False), st)"
      "existing \<in> set (ev_rows st)" "vd_idempotency_key existing = vd_idempotency_key d" "vd_idempotency_key d \<noteq> None"
    | (conflict) "append_tx i t d st = (Inl IntegrityError, st)"
    | (written) e where "e = mk_event d i (high_water (vd_terminal_id d) st + 1) t"
      "append_tx i t d st = (Inr (e, True), st\<lparr>ev_marks := (ev_marks st)(vd_terminal_id d := Some (ve_seq e)),
         ev_rows := ev_rows st @ [e]\<rparr>)"
      "\<forall>x \<in> set (ev_rows st). \<not> conflicts e x"
proof (cases "if vd_idempotency_key d = None then None
    else fetchone (\<lambda>x. vd_idempotency_key x = vd_idempotency_key d) (ev_rows st)")
  case (Some existing)
  then have "append_tx i t d st = (Inr (existing, False), st)" "existing \<in> set (ev_rows st)"
    "vd_idempotency_key existing = vd_idempotency_key d" "vd_idempotency_key d \<noteq> None"
    by (auto simp: append_tx_def dest!: fetchone_SomeD split: if_splits)
  then show ?thesis by (rule replay)
next
  case None
  let ?e = "mk_event d i (high_water (vd_terminal_id d) st + 1) t"
  show ?thesis
  proof (cases "\<exists>x \<in> set (ev_rows st). conflicts ?e x")
    case True
    then show ?thesis using None conflict by (simp add: append_tx_def Let_def)
  next
    case False
    then show ?thesis using None written[of ?e] by (simp add: append_tx_def Let_def)
  qed
qed

lemma append_tx_ok:
  assumes ok: "events_ok st" and d: "EventDraft d = Inr d" "i \<noteq> []"
  shows "events_ok (snd (append_tx i t d st))"
proof (cases rule: append_tx_cases[of i t d st])
  case (replay existing)
  then show ?thesis using ok by simp
next
  case conflict
  then show ?thesis using ok by simp
next
  case (written e)
  have hw: "0 \<le> high_water u st" for u using events_okD(5)[OF ok] .
  have e: "WorkerEvent e = Inr e" unfolding written(1) using d hw[of "vd_terminal_id d"] by (intro WorkerEvent_mk) auto
  have "event_key e \<notin> event_key ` set (ev_rows st)" "ve_event_id e \<notin> ve_event_id ` set (ev_rows st)"
    "vd_idempotency_key e \<noteq> None \<Longrightarrow> vd_idempotency_key e \<notin> vd_idempotency_key ` set (ev_rows st)"
    using written(3) by (auto simp: conflicts_def event_key_def)
  then show ?thesis
    using ok e hw unfolding events_ok_def written(2) by (force simp: written(1))
qed

lemma prune_events_ok: "events_ok st \<Longrightarrow> events_ok (snd (prune_events t fs st))"
  unfolding events_ok_def prune_events_def
  by (auto simp: distinct_map_filter high_water_def filter_map distinct_map inj_on_def o_def)

section \<open>Runs of the log\<close>

inductive log_step :: "estore \<Rightarrow> estore \<Rightarrow> bool" where
  log_append: "EventDraft d = Inr d \<Longrightarrow> i \<noteq> [] \<Longrightarrow> log_step st (snd (append_tx i t d st))"
| log_prune: "log_step st (snd (prune_events t fs st))"

interpretation event_log: transition_system "\<lambda>st. st = empty_estore" log_step events_ok
proof
  fix s t :: estore
  show "s = empty_estore \<Longrightarrow> events_ok s" by (simp add: empty_estore_def events_ok_def high_water_def)
  assume "events_ok s" "log_step s t"
  from this(2,1) show "events_ok t"
    by (cases rule: log_step.cases) (simp_all add: append_tx_ok prune_events_ok)
qed

text \<open>What two points of a run have in common: the marks have only risen, and an event that is new carries
  a number above the earlier mark of its terminal.\<close>

definition log_grows :: "estore \<Rightarrow> estore \<Rightarrow> bool" where
  "log_grows st st' \<longleftrightarrow> (\<forall>t. high_water t st \<le> high_water t st')
     \<and> (\<forall>e \<in> set (ev_rows st'). e \<in> set (ev_rows st) \<or> high_water (vd_terminal_id e) st < ve_seq e)"

lemma log_grows_refl: "log_grows st st"
  by (simp add: log_grows_def)

lemma log_grows_trans: "log_grows a b \<Longrightarrow> log_grows b c \<Longrightarrow> log_grows a c"
  unfolding log_grows_def by (meson le_less_trans order_trans)

lemma append_tx_grows: "log_grows st (snd (append_tx i t d st))"
  by (cases rule: append_tx_cases[of i t d st]) (auto simp: log_grows_def)

lemma prune_events_grows: "log_grows st (snd (prune_events t fs st))"
  by (auto simp: log_grows_def prune_events_def high_water_def)

lemma log_step_grows: "log_step st st' \<Longrightarrow> log_grows st st'"
  by (erule log_step.cases) (simp_all add: append_tx_grows prune_events_grows)

lemma log_run_grows: "events_ok st \<Longrightarrow> log_step\<^sup>*\<^sup>* st st' \<Longrightarrow> log_grows st st'"
  using event_log.rel_steps[of st st' log_grows] log_grows_refl log_step_grows log_grows_trans by blast

section \<open>Properties of the log\<close>

fun append_all :: "(string \<times> time \<times> event_draft) list \<Rightarrow> estore \<Rightarrow> estore" where
  "append_all [] st = st"
| "append_all ((i, t, d) # ops) st = append_all ops (snd (append_tx i t d st))"

definition seqs_of :: "string \<Rightarrow> estore \<Rightarrow> int set" where
  "seqs_of terminal_id st = ve_seq ` {e \<in> set (ev_rows st). vd_terminal_id e = terminal_id}"

lemma append_tx_contiguous:
  assumes "\<And>t. seqs_of t st = {1..high_water t st}" "\<And>t. 0 \<le> high_water t st"
  shows "seqs_of u (snd (append_tx i t d st)) = {1..high_water u (snd (append_tx i t d st))}
       \<and> 0 \<le> high_water u (snd (append_tx i t d st))"
proof (cases rule: append_tx_cases[of i t d st])
  case (written e)
  have "seqs_of u (snd (append_tx i t d st)) =
      (if u = vd_terminal_id d then insert (high_water u st + 1) (seqs_of u st) else seqs_of u st)"
    unfolding written(2) seqs_of_def by (force simp: written(1))
  then show ?thesis
    using assms(1)[of u] assms(2)[of u] unfolding written(2) by (auto simp: written(1))
qed (use assms in simp_all)

lemma append_all_contiguous:
  "(\<And>t. seqs_of t st = {1..high_water t st} \<and> 0 \<le> high_water t st) \<Longrightarrow>
   seqs_of u (append_all ops st) = {1..high_water u (append_all ops st)}"
proof (induction ops st arbitrary: u rule: append_all.induct)
  case (2 i t d ops st)
  show ?case using 2(1)[of u] append_tx_contiguous[of st _ i t d] 2(2) by simp
qed simp

text \<open>(C32) Sequence numbers have no gaps. After any sequence of appends to an empty log, by any producers in any
  order, including drafts the store refuses and retries it recognises, the numbers of each terminal are
  exactly one up to its high-water mark.\<close>

theorem sequence_contiguous:
  "ve_seq ` {e \<in> set (ev_rows (append_all ops empty_estore)). vd_terminal_id e = t}
     = {1..high_water t (append_all ops empty_estore)}"
  using append_all_contiguous[of empty_estore t ops]
  by (simp add: seqs_of_def empty_estore_def high_water_def)

text \<open>A sequence number is never reused, even across a prune. Along every run of appends and prunes the
  tables stay consistent (unique ids, numbers and idempotency keys, every row well formed and at or below
  its terminal's mark), no mark falls, and an event the log did not hold at the start of the run carries
  a number above the mark its terminal had there, so a reader that remembers a number never meets it
  again.\<close>

theorem sequence_never_reused:
  assumes "log_step\<^sup>*\<^sup>* empty_estore st" "log_step\<^sup>*\<^sup>* st st'"
  shows "events_ok st' \<and> (\<forall>t. high_water t st \<le> high_water t st')
       \<and> (\<forall>e \<in> set (ev_rows st'). e \<in> set (ev_rows st) \<or> high_water (vd_terminal_id e) st < ve_seq e)"
proof -
  have "events_ok st" using event_log.inv_reachable[OF refl assms(1)] .
  then show ?thesis
    using event_log.inv_steps[OF assms(2)] log_run_grows[OF _ assms(2)] by (simp add: log_grows_def)
qed

definition ex_event_draft :: event_draft where
  "ex_event_draft = \<lparr>vd_terminal_id = ''t'', vd_kind = EK TURN_STARTED, vd_producer = JSONL,
     vd_confidence = AUTHORITATIVE, vd_observed_at = 0, vd_payload = [], vd_source_ref = None,
     vd_run_id = None, vd_msg_id = None, vd_decision = None, vd_evidence = None,
     vd_idempotency_key = Some ''k''\<rparr>"

lemma ex_event_draft_ok: "EventDraft ex_event_draft = Inr ex_event_draft"
  by (simp add: EventDraft_def ex_event_draft_def check_decision_shape_def)

definition ex_log :: estore where
  "ex_log = \<lparr>ev_rows = [mk_event ex_event_draft ''a'' 1 5], ev_marks = [''t'' \<mapsto> 1]\<rparr>"

lemma ex_log_append: "append_tx ''a'' 5 ex_event_draft empty_estore
    = (Inr (mk_event ex_event_draft ''a'' 1 5, True), ex_log)"
  by (simp add: append_tx_def empty_estore_def ex_log_def ex_event_draft_def fetchone_def high_water_def Let_def)

lemma ex_log_run: "log_step\<^sup>*\<^sup>* empty_estore ex_log"
  using log_append[OF ex_event_draft_ok, of "''a''" empty_estore 5] by (simp add: ex_log_append)

theorem sequence_never_reused_witness:
  "high_water ''t'' ex_log = 1 \<and> high_water ''t'' (snd (prune_events 9 [] ex_log)) \<ge> 1
   \<and> ev_rows (snd (prune_events 9 [] ex_log)) = []"
  using sequence_never_reused[OF ex_log_run r_into_rtranclp[of log_step, OF log_prune[of ex_log 9 "[]"]]]
  by (auto simp: ex_log_def high_water_def prune_events_def prunable_event_def)

text \<open>Appends are replay-safe. Once a draft with an idempotency key was stored, and as long as its row is
  kept, appending any draft under that key at any later point of the run returns that stored row,
  writes nothing and consumes no sequence number, whatever else the retried draft says.\<close>

theorem append_replay_safe:
  assumes "log_step\<^sup>*\<^sup>* empty_estore st" "append_tx i t d st = (Inr (e, fresh), st1)"
    "log_step\<^sup>*\<^sup>* st1 st2" "e \<in> set (ev_rows st2)"
    "vd_idempotency_key d \<noteq> None" "vd_idempotency_key d' = vd_idempotency_key d"
    "EventDraft d = Inr d" "i \<noteq> []"
  shows "append_tx j t' d' st2 = (Inr (e, False), st2)"
proof -
  have ok: "events_ok st2"
    using event_log.inv_steps[OF assms(3)] append_tx_ok[OF event_log.inv_reachable[OF refl assms(1)] assms(7,8), of t]
      assms(2) by simp
  have key: "vd_idempotency_key e = vd_idempotency_key d"
    using assms(2) by (cases rule: append_tx_cases[of i t d st]) auto
  have uniq: "x = e" if "x \<in> set (ev_rows st2)" "vd_idempotency_key x = vd_idempotency_key d" for x
  proof -
    let ?rs = "filter (\<lambda>e. vd_idempotency_key e \<noteq> None) (ev_rows st2)"
    have "distinct (map vd_idempotency_key ?rs)" using ok by (simp add: events_ok_def filter_map o_def)
    then show ?thesis using key_unique[of vd_idempotency_key ?rs x e] that key assms(4,5) by auto
  qed
  have "fetchone (\<lambda>x. vd_idempotency_key x = vd_idempotency_key d') (ev_rows st2) = Some e"
  proof (cases "fetchone (\<lambda>x. vd_idempotency_key x = vd_idempotency_key d') (ev_rows st2)")
    case None
    then show ?thesis using key assms(4,6) by auto
  next
    case (Some x)
    then show ?thesis using uniq[of x] assms(6) fetchone_SomeD[OF Some] by simp
  qed
  then show ?thesis using assms(5,6) by (auto simp: append_tx_def)
qed

theorem append_replay_safe_witness:
  "append_tx ''b'' 7 (ex_event_draft\<lparr>vd_run_id := Some ''r''\<rparr>) ex_log = (Inr (mk_event ex_event_draft ''a'' 1 5, False), ex_log)"
  by (rule append_replay_safe[OF rtranclp.rtrancl_refl ex_log_append rtranclp.rtrancl_refl])
    (simp_all add: ex_event_draft_ok, simp_all add: ex_log_def ex_event_draft_def)

text \<open>Retention keeps the evidence. A prune removes exactly the events ingested before the horizon that no
  open finding names as its sample, reports how many, and leaves every high-water mark as it was.\<close>

lemma prune_events_exact:
  "let (n, st') = prune_events older_than fs st in
     ev_marks st' = ev_marks st \<and> length (ev_rows st) = length (ev_rows st') + n
   \<and> (\<forall>e. e \<in> set (ev_rows st') \<longleftrightarrow> e \<in> set (ev_rows st) \<and>
        (older_than \<le> ve_ingested_at e
         \<or> (\<exists>f \<in> set fs. fi_state f = OPEN \<and> fi_sample_event_id f = Some (ve_event_id e))))"
proof -
  have "length xs = length (filter (\<lambda>x. \<not> P x) xs) + length (filter P xs)" for P and xs :: "worker_event list"
    by (induction xs) auto
  from this[of "ev_rows st" "prunable_event older_than fs"] show ?thesis
    by (auto simp: prune_events_def rowcount_def) (auto simp: prunable_event_def)
qed

lemma find_producer: "parse_producer (producer_value p) = Inr p"
  by (cases p) (simp_all add: parse_producer_def)

lemma find_confidence: "parse_confidence (confidence_value c) = Inr c"
  by (cases c) (simp_all add: parse_confidence_def)

lemma find_decision: "parse_decision (map_option decision_kind_value k) = Inr k"
proof (cases k)
  case (Some x)
  then show ?thesis by (cases x) (simp_all add: parse_decision_def ALL_DECISION_KINDS_def)
qed (simp add: parse_decision_def)

lemma find_kind: "parse_kind (kind_value k) = Inr k"
proof (cases k)
  case (EK x)
  then show ?thesis by (cases x) (simp_all add: parse_kind_def ALL_EVENT_KINDS_def)
next
  case (DK x)
  then show ?thesis by (cases x) (simp_all add: parse_kind_def ALL_EVENT_KINDS_def ALL_DECISION_KINDS_def)
qed

text \<open>Rows round-trip through the text columns. An event written to the table and read back is the same
  event; the read raises exactly for an event the model class would refuse (an empty id or terminal, a
  number below one, a decision row without its decision, an observation with a decision or evidence).\<close>

lemma event_row_roundtrip:
  "row_to_event (event_to_row e) = WorkerEvent e
   \<and> (WorkerEvent e = Inr e \<longleftrightarrow> ve_event_id e \<noteq> [] \<and> 1 \<le> ve_seq e \<and> vd_terminal_id e \<noteq> []
        \<and> (case vd_kind e of DK k \<Rightarrow> vd_decision e = Some k
            | EK _ \<Rightarrow> vd_decision e = None \<and> vd_evidence e = None))"
proof -
  have "row_to_event (event_to_row e) = WorkerEvent e"
    by (cases e) (simp add: row_to_event_def event_to_row_def find_kind find_producer find_confidence find_decision)
  moreover have "WorkerEvent e = Inr e \<longleftrightarrow> ve_event_id e \<noteq> [] \<and> 1 \<le> ve_seq e \<and> vd_terminal_id e \<noteq> []
        \<and> (case vd_kind e of DK k \<Rightarrow> vd_decision e = Some k
            | EK _ \<Rightarrow> vd_decision e = None \<and> vd_evidence e = None)"
    by (auto simp: WorkerEvent_def EventDraft_def check_decision_shape_def event_draft.defs
        split: any_kind.splits option.splits)
  ultimately show ?thesis by blast
qed

end
