(* ===== verification/State_Store.thy ===== *)
theory State_Store
  imports Worker_State_Machine
begin

text \<open>
  The stored projection of a terminal and who owns which column of it: \<open>adapters/store/state.py\<close>. The
  table \<open>worker_state_shadow\<close> is a list of rows with primary key \<open>terminal_id\<close>. The projector writes the
  five projected columns, the liveness probe four of the others and the rollout tailer the last one,
  each as one \<open>INSERT ... ON CONFLICT DO UPDATE\<close>. With it, the two small in-memory maps the projector
  reads and writes: the registry of authoritative sources (\<open>StaticSourceRegistry\<close> of
  \<open>app/worker_truth/projector.py\<close>) and the gate of \<open>app/worker_truth/health.py\<close>.
\<close>

section \<open>The table\<close>

record projection =
  pj_terminal_id :: string
  pj_state :: worker_state
  pj_since :: time
  pj_last_event_seq :: int
  pj_degraded_reason :: "degraded_reason option"
  pj_prior_state :: "worker_state option"
  pj_last_probe_at :: "time option"
  pj_last_source_probe_at :: "time option"
  pj_pane_pid :: "int option"
  pj_pane_present :: bool
  pj_miss_count :: int

type_synonym sstore = "projection list"

definition UNSET_SINCE :: time where "UNSET_SINCE = 0"

definition ProjectedState :: "string \<Rightarrow> time \<Rightarrow> projection" where
  "ProjectedState terminal_id since =
     \<lparr>pj_terminal_id = terminal_id, pj_state = STARTING, pj_since = since, pj_last_event_seq = 0,
      pj_degraded_reason = None, pj_prior_state = None, pj_last_probe_at = None,
      pj_last_source_probe_at = None, pj_pane_pid = None, pj_pane_present = False, pj_miss_count = 0\<rparr>"

definition get_state :: "string \<Rightarrow> sstore \<Rightarrow> projection option" where
  "get_state terminal_id ss = fetchone (\<lambda>r. pj_terminal_id r = terminal_id) ss"

text \<open>\<open>INSERT ... ON CONFLICT(terminal_id) DO UPDATE\<close>.\<close>

definition insert_or_update :: "projection \<Rightarrow> (projection \<Rightarrow> projection) \<Rightarrow> sstore \<Rightarrow> sstore" where
  "insert_or_update new f ss =
     (if \<exists>r \<in> set ss. pj_terminal_id r = pj_terminal_id new
      then update_where (\<lambda>r. pj_terminal_id r = pj_terminal_id new) f ss
      else ss @ [new])"

definition projected_columns :: "projection \<Rightarrow> projection \<Rightarrow> projection" where
  "projected_columns p r =
     r\<lparr>pj_state := pj_state p, pj_since := pj_since p, pj_last_event_seq := pj_last_event_seq p,
       pj_degraded_reason := pj_degraded_reason p, pj_prior_state := pj_prior_state p\<rparr>"

definition upsert :: "projection \<Rightarrow> sstore \<Rightarrow> sstore" where
  "upsert p = insert_or_update p (projected_columns p)"

definition touch_probe :: "string \<Rightarrow> time \<Rightarrow> bool \<Rightarrow> int option \<Rightarrow> int \<Rightarrow> sstore \<Rightarrow> sstore" where
  "touch_probe terminal_id probed_at pane_present pane_pid miss_count =
     insert_or_update
       ((ProjectedState terminal_id probed_at)\<lparr>pj_last_probe_at := Some probed_at,
          pj_pane_present := pane_present, pj_pane_pid := pane_pid, pj_miss_count := miss_count\<rparr>)
       (\<lambda>r. r\<lparr>pj_last_probe_at := Some probed_at, pj_pane_present := pane_present,
              pj_pane_pid := pane_pid, pj_miss_count := miss_count\<rparr>)"

definition touch_source_probe :: "string \<Rightarrow> time \<Rightarrow> sstore \<Rightarrow> sstore" where
  "touch_source_probe terminal_id probed_at =
     insert_or_update ((ProjectedState terminal_id probed_at)\<lparr>pj_last_source_probe_at := Some probed_at\<rparr>)
       (\<lambda>r. r\<lparr>pj_last_source_probe_at := Some probed_at\<rparr>)"

definition all_terminals :: "sstore \<Rightarrow> projection list" where
  "all_terminals ss = sort_key pj_terminal_id ss"

section \<open>The registry of authoritative sources\<close>

record registry =
  sr_terminal_ids :: "string set"
  sr_fallback_disabled_ids :: "string set"

definition StaticSourceRegistry :: registry where
  "StaticSourceRegistry = \<lparr>sr_terminal_ids = {}, sr_fallback_disabled_ids = {}\<rparr>"

definition registry_add :: "string \<Rightarrow> registry \<Rightarrow> registry" where
  "registry_add t r = r\<lparr>sr_terminal_ids := insert t (sr_terminal_ids r)\<rparr>"

definition registry_discard :: "string \<Rightarrow> registry \<Rightarrow> registry" where
  "registry_discard t r = r\<lparr>sr_terminal_ids := sr_terminal_ids r - {t}\<rparr>"

definition registry_forget :: "string \<Rightarrow> registry \<Rightarrow> registry" where
  "registry_forget t r =
     r\<lparr>sr_terminal_ids := sr_terminal_ids r - {t},
       sr_fallback_disabled_ids := sr_fallback_disabled_ids r - {t}\<rparr>"

definition set_fallback_disabled :: "string \<Rightarrow> registry \<Rightarrow> registry" where
  "set_fallback_disabled t r = r\<lparr>sr_fallback_disabled_ids := insert t (sr_fallback_disabled_ids r)\<rparr>"

definition clear_fallback_disabled :: "string \<Rightarrow> registry \<Rightarrow> registry" where
  "clear_fallback_disabled t r = r\<lparr>sr_fallback_disabled_ids := sr_fallback_disabled_ids r - {t}\<rparr>"

definition is_authoritative :: "string \<Rightarrow> registry \<Rightarrow> bool" where
  "is_authoritative t r \<longleftrightarrow> t \<in> sr_terminal_ids r"

definition fallback_disabled :: "string \<Rightarrow> registry \<Rightarrow> bool" where
  "fallback_disabled t r \<longleftrightarrow> t \<in> sr_fallback_disabled_ids r"

section \<open>The gate\<close>

text \<open>\<open>SourceHealth\<close>: the dictionary of marks. \<open>admits\<close> is the provider allowlist, outside this component: an
  argument that answers or raises.\<close>

type_synonym health = "string \<Rightarrow> bool option"

definition health_mark :: "string \<Rightarrow> bool \<Rightarrow> health \<Rightarrow> health" where
  "health_mark t projected h = h(t := Some projected)"

definition health_forget :: "string \<Rightarrow> health \<Rightarrow> health" where
  "health_forget t h = h(t := None)"

definition health_reset :: "health \<Rightarrow> health" where
  "health_reset h = (\<lambda>_. None)"

definition is_projected :: "(string \<Rightarrow> bool result) option \<Rightarrow> string \<Rightarrow> health \<Rightarrow> bool" where
  "is_projected admits t h =
     (if h t \<noteq> Some True then False
      else case admits of
             None \<Rightarrow> True
           | Some f \<Rightarrow> (case f t of Inl _ \<Rightarrow> False | Inr b \<Rightarrow> b))"

section \<open>Facts\<close>

definition states_ok :: "sstore \<Rightarrow> bool" where
  "states_ok ss \<longleftrightarrow> distinct (map pj_terminal_id ss)"

lemma get_state_SomeD: "get_state t ss = Some r \<Longrightarrow> r \<in> set ss \<and> pj_terminal_id r = t"
  unfolding get_state_def by (rule fetchone_SomeD)

lemma get_state_key: "states_ok ss \<Longrightarrow> r \<in> set ss \<Longrightarrow> get_state (pj_terminal_id r) ss = Some r"
  by (simp add: get_state_def states_ok_def fetchone_key)

lemma get_state_None: "get_state t ss = None \<longleftrightarrow> t \<notin> pj_terminal_id ` set ss"
  by (auto simp: get_state_def)

lemma fetchone_append: "fetchone P (xs @ ys) = (case fetchone P xs of Some x \<Rightarrow> Some x | None \<Rightarrow> fetchone P ys)"
  by (induction xs) (auto simp: fetchone_def)

lemma fetchone_single: "fetchone P [x] = (if P x then Some x else None)"
  by (simp add: fetchone_def)

lemma insert_or_update_ok:
  assumes "states_ok ss" "\<And>r. pj_terminal_id (f r) = pj_terminal_id r"
  shows "states_ok (insert_or_update new f ss)"
  using assms map_update_where_key[of pj_terminal_id f]
  by (auto simp: insert_or_update_def states_ok_def)

text \<open>Reading after a write: the row written, or the row that was there.\<close>

lemma get_insert_or_update:
  assumes "\<And>r. pj_terminal_id (f r) = pj_terminal_id r"
  shows "get_state t (insert_or_update new f ss) =
    (if t = pj_terminal_id new then Some (case get_state t ss of None \<Rightarrow> new | Some r \<Rightarrow> f r)
     else get_state t ss)"
proof (cases "\<exists>r \<in> set ss. pj_terminal_id r = pj_terminal_id new")
  case True
  have "get_state t (insert_or_update new f ss) =
      map_option (\<lambda>r. if pj_terminal_id r = pj_terminal_id new then f r else r) (get_state t ss)"
    using True unfolding get_state_def insert_or_update_def
    by (simp add: fetchone_update_where[of "\<lambda>r. pj_terminal_id r = t" f] assms)
  then show ?thesis
    using True get_state_SomeD[of t ss] get_state_None[of t ss]
    by (cases "get_state t ss") (auto simp: image_iff split: option.splits)
next
  case False
  then have n: "fetchone (\<lambda>r. pj_terminal_id r = pj_terminal_id new) ss = None" by simp
  have i: "insert_or_update new f ss = ss @ [new]" using False by (simp add: insert_or_update_def)
  show ?thesis
  proof (cases "t = pj_terminal_id new")
    case True
    show ?thesis unfolding i get_state_def fetchone_append True n by (simp add: fetchone_single)
  next
    case False
    then show ?thesis
      unfolding i get_state_def fetchone_append
      by (cases "fetchone (\<lambda>r. pj_terminal_id r = t) ss") (simp_all only: fetchone_single, simp_all)
  qed
qed

lemma set_insert_or_update:
  "r' \<in> set (insert_or_update new f ss) \<Longrightarrow>
     r' \<in> set ss \<or> r' = new \<or> (\<exists>r \<in> set ss. pj_terminal_id r = pj_terminal_id new \<and> r' = f r)"
  by (auto simp: insert_or_update_def set_update_where split: if_splits)

lemma ex_update_where:
  "(\<And>r. pj_terminal_id (f r) = pj_terminal_id r) \<Longrightarrow>
   (\<exists>r \<in> set (update_where P f ss). pj_terminal_id r = t) \<longleftrightarrow> (\<exists>r \<in> set ss. pj_terminal_id r = t)"
  by (auto simp: set_update_where)

lemma projected_columns_sel [simp]:
  "pj_terminal_id (projected_columns p r) = pj_terminal_id r"
  "pj_state (projected_columns p r) = pj_state p" "pj_since (projected_columns p r) = pj_since p"
  "pj_last_event_seq (projected_columns p r) = pj_last_event_seq p"
  "pj_degraded_reason (projected_columns p r) = pj_degraded_reason p"
  "pj_prior_state (projected_columns p r) = pj_prior_state p"
  "pj_last_probe_at (projected_columns p r) = pj_last_probe_at r"
  "pj_last_source_probe_at (projected_columns p r) = pj_last_source_probe_at r"
  "pj_pane_pid (projected_columns p r) = pj_pane_pid r"
  "pj_pane_present (projected_columns p r) = pj_pane_present r"
  "pj_miss_count (projected_columns p r) = pj_miss_count r"
  by (simp_all add: projected_columns_def)

lemma upsert_ok: "states_ok ss \<Longrightarrow> states_ok (upsert p ss)"
  by (simp add: upsert_def insert_or_update_ok)

lemma touch_ok:
  "states_ok ss \<Longrightarrow> states_ok (touch_probe t at present pid miss ss)"
  "states_ok ss \<Longrightarrow> states_ok (touch_source_probe t at ss)"
  by (simp_all add: touch_probe_def touch_source_probe_def insert_or_update_ok)

lemma get_upsert:
  "get_state t (upsert p ss) = (if t = pj_terminal_id p
     then Some (case get_state t ss of None \<Rightarrow> p | Some r \<Rightarrow> projected_columns p r) else get_state t ss)"
  by (simp add: upsert_def get_insert_or_update)

text \<open>Where the row was read from the table and only projected columns were changed, the row read back is the
  row written.\<close>

lemma projected_columns_self:
  "pj_terminal_id p = pj_terminal_id r \<Longrightarrow> pj_last_probe_at p = pj_last_probe_at r \<Longrightarrow>
   pj_last_source_probe_at p = pj_last_source_probe_at r \<Longrightarrow> pj_pane_pid p = pj_pane_pid r \<Longrightarrow>
   pj_pane_present p = pj_pane_present r \<Longrightarrow> pj_miss_count p = pj_miss_count r \<Longrightarrow> projected_columns p r = p"
  by (simp add: projected_columns_def)

section \<open>Properties\<close>

text \<open>Two upserts that touch different columns of an existing row commute.\<close>

lemma insert_or_update_commute:
  assumes "\<exists>r \<in> set ss. pj_terminal_id r = pj_terminal_id a" "\<exists>r \<in> set ss. pj_terminal_id r = pj_terminal_id b"
    and "\<And>r. pj_terminal_id (f r) = pj_terminal_id r" "\<And>r. pj_terminal_id (g r) = pj_terminal_id r"
    and "\<And>r. f (g r) = g (f r)"
  shows "insert_or_update a f (insert_or_update b g ss) = insert_or_update b g (insert_or_update a f ss)"
  using assms ex_update_where[of f] ex_update_where[of g]
  by (simp add: insert_or_update_def) (simp add: update_where_def)

text \<open>The three writers never clobber each other. On a terminal that has a row, a projector write, a
  liveness probe and a tailer poll commute pairwise whatever they write, so every interleaving of them
  leaves the same table; a probe or a poll leaves the projected columns of every row as they were, and a
  projector write leaves the liveness columns of every row that existed.\<close>

theorem writers_commute:
  assumes "get_state t ss \<noteq> None" "pj_terminal_id p = t"
  shows "upsert p (touch_probe t at present pid miss ss) = touch_probe t at present pid miss (upsert p ss)
    \<and> upsert p (touch_source_probe t at' ss) = touch_source_probe t at' (upsert p ss)
    \<and> touch_probe t at present pid miss (touch_source_probe t at' ss)
        = touch_source_probe t at' (touch_probe t at present pid miss ss)
    \<and> map (\<lambda>r. (pj_terminal_id r, pj_state r, pj_since r, pj_last_event_seq r, pj_degraded_reason r, pj_prior_state r))
         (touch_probe t at present pid miss (touch_source_probe t at' ss))
      = map (\<lambda>r. (pj_terminal_id r, pj_state r, pj_since r, pj_last_event_seq r, pj_degraded_reason r, pj_prior_state r)) ss
    \<and> map (\<lambda>r. (pj_terminal_id r, pj_last_probe_at r, pj_last_source_probe_at r, pj_pane_pid r, pj_pane_present r, pj_miss_count r))
         (upsert p ss)
      = map (\<lambda>r. (pj_terminal_id r, pj_last_probe_at r, pj_last_source_probe_at r, pj_pane_pid r, pj_pane_present r, pj_miss_count r)) ss"
proof -
  have ex: "\<exists>r \<in> set ss. pj_terminal_id r = t" using assms(1) by (auto simp: get_state_None)
  have tid: "pj_terminal_id (ProjectedState t u) = t" for u by (simp add: ProjectedState_def)
  have ex2: "\<exists>r \<in> set (touch_source_probe t at' ss). pj_terminal_id r = t"
    using ex by (simp add: touch_source_probe_def insert_or_update_def ex_update_where tid)
  have c1: "upsert p (touch_probe t at present pid miss ss) = touch_probe t at present pid miss (upsert p ss)"
    unfolding upsert_def touch_probe_def
    by (rule insert_or_update_commute) (use ex assms(2) tid in \<open>simp_all add: projected_columns_def\<close>)
  have c2: "upsert p (touch_source_probe t at' ss) = touch_source_probe t at' (upsert p ss)"
    unfolding upsert_def touch_source_probe_def
    by (rule insert_or_update_commute) (use ex assms(2) tid in \<open>simp_all add: projected_columns_def\<close>)
  have c3: "touch_probe t at present pid miss (touch_source_probe t at' ss)
        = touch_source_probe t at' (touch_probe t at present pid miss ss)"
    unfolding touch_probe_def touch_source_probe_def
    by (rule insert_or_update_commute) (use ex tid in simp_all)
  have same: "map h (insert_or_update new f us) = map h us"
    if "\<exists>r \<in> set us. pj_terminal_id r = pj_terminal_id new" "\<And>r. h (f r) = h r" for new f us and h :: "projection \<Rightarrow> 'c"
    using that by (simp add: insert_or_update_def map_update_where_key)
  have c4: "map h (touch_probe t at present pid miss (touch_source_probe t at' ss)) = map h ss"
    if "\<And>r x y z u. h (r\<lparr>pj_last_probe_at := x, pj_pane_present := y, pj_pane_pid := z, pj_miss_count := u\<rparr>) = h r"
      "\<And>r x. h (r\<lparr>pj_last_source_probe_at := x\<rparr>) = h r" for h :: "projection \<Rightarrow> 'c"
  proof -
    have "map h (touch_probe t at present pid miss (touch_source_probe t at' ss)) = map h (touch_source_probe t at' ss)"
      unfolding touch_probe_def by (rule same) (use ex2 tid that in simp_all)
    also have "\<dots> = map h ss" unfolding touch_source_probe_def by (rule same) (use ex tid that in simp_all)
    finally show ?thesis .
  qed
  show ?thesis
    by (intro conjI c1 c2 c3 c4) (simp_all add: upsert_def same ex assms(2))
qed

theorem writers_commute_witness:
  "upsert (ProjectedState ''t'' 3) (touch_source_probe ''t'' 9 [ProjectedState ''t'' 1])
    = touch_source_probe ''t'' 9 (upsert (ProjectedState ''t'' 3) [ProjectedState ''t'' 1])"
  using writers_commute[of "''t''" "[ProjectedState ''t'' 1]" "ProjectedState ''t'' 3" 0 True None 0 9]
  by (simp add: get_state_def fetchone_def ProjectedState_def)

end
