(* ===== verification/Worker_Checks.thy ===== *)
theory Worker_Checks
  imports Event_Log State_Store Delivery_Timing
begin

text \<open>
  The runtime checks of \<open>app/worker_truth/checks.py\<close> and the state they share with the projector, wired as
  \<open>bootstrap.py\<close> wires them: the event log runs the two structural checks on every append, the projector
  drives the durational pane check and the producer check. Everything the checks and the projector write
  is one record. The clock, the id source, the provider allowlist and the legacy monitor are arguments:
  the clock is a function of how often it was read, so two readings in one call may differ.
\<close>

section \<open>The state of the worker-truth component\<close>

record publication =
  pb_terminal_id :: string
  pb_status :: string
  pb_event_id :: "string option"
  pb_worker_state :: string
  pb_since :: time

record pworld =
  pw_events :: estore
  pw_states :: sstore
  pw_findings :: fstore
  pw_registry :: registry
  pw_health :: health
  pw_episodes :: "string \<Rightarrow> (string \<times> string) option"
  pw_ids :: nat
  pw_reads :: nat
  pw_published :: "publication list"

record penv =
  e_clock :: "nat \<Rightarrow> time"
  e_mint :: "nat \<Rightarrow> string"
  e_strict :: bool
  e_cutover :: bool
  e_admits :: "nat \<Rightarrow> string \<Rightarrow> bool result"
  e_reclassify :: "nat \<Rightarrow> string \<Rightarrow> unit result"

type_synonym 'a pact = "(pworld, 'a) action"

definition read_clock :: "penv \<Rightarrow> pworld \<Rightarrow> time \<times> pworld" where
  "read_clock E w = (e_clock E (pw_reads w), w\<lparr>pw_reads := pw_reads w + 1\<rparr>)"

text \<open>\<open>finding_store.record\<close>: the store reads its clock, and mints an id only for an insert.\<close>

definition note_finding ::
  "penv \<Rightarrow> finding_code \<Rightarrow> string \<Rightarrow> string \<Rightarrow> string \<Rightarrow> string \<Rightarrow> unit pact" where
  "note_finding E code tid key detail sample w =
     (let (now, w1) = read_clock E w in
      case record_finding (e_mint E (pw_ids w1)) now code tid key detail (Some sample) (pw_findings w1) of
        (Inl e, _) \<Rightarrow> (Inl e, w1\<lparr>pw_ids := pw_ids w1 + 1\<rparr>)
      | (Inr _, fs) \<Rightarrow>
          (Inr (), w1\<lparr>pw_findings := fs,
             pw_ids := pw_ids w1 + (if rowcount (same_open code tid key) (pw_findings w1) = 0 then 1 else 0)\<rparr>))"

section \<open>The structural checks\<close>

record check_outcome =
  co_dedupe_key :: string
  co_detail :: string
  co_terminal_id :: "string option"
  co_sample_event_id :: "string option"

type_synonym event_check = "worker_event \<Rightarrow> check_outcome option"

definition EVIDENCE_REQUIRING_DECISIONS :: "decision_kind list" where
  "EVIDENCE_REQUIRING_DECISIONS = [STATUS_TRANSITION, STATUS_REASON_CHANGED, STATUS_RECOVERED, FLEET_OVERRIDE]"

definition TRANSITION_ROW_KINDS :: "decision_kind list" where
  "TRANSITION_ROW_KINDS = [STATUS_TRANSITION, STATUS_RECOVERED]"

definition ghost_transition_check :: event_check where
  "ghost_transition_check e =
     (case vd_decision e of
        None \<Rightarrow> None
      | Some decision \<Rightarrow>
          if decision \<notin> set EVIDENCE_REQUIRING_DECISIONS then None
          else if vd_evidence e \<noteq> None \<and> vd_evidence e \<noteq> Some [] then None
          else Some \<lparr>co_dedupe_key = decision_kind_value decision,
                     co_detail = decision_kind_value decision @ '' appended with no evidence event_id'',
                     co_terminal_id = None, co_sample_event_id = None\<rparr>)"

definition bad_transition_check :: event_check where
  "bad_transition_check e =
     (if vd_decision e \<notin> Some ` set TRANSITION_ROW_KINDS then None
      else
        case (payload_str (vd_payload e) ''from'', payload_str (vd_payload e) ''to'') of
          (Some from_raw, Some to_raw) \<Rightarrow>
            (case (worker_state_of from_raw, worker_state_of to_raw) of
               (Inr f, Inr t) \<Rightarrow>
                 if TRANSITIONS (f, t) \<noteq> Some ANOMALOUS then None
                 else Some \<lparr>co_dedupe_key = from_raw @ ''->'' @ to_raw,
                            co_detail = ''anomalous transition '' @ from_raw @ '' -> '' @ to_raw @ '' applied'',
                            co_terminal_id = None, co_sample_event_id = None\<rparr>
             | _ \<Rightarrow> None)
        | _ \<Rightarrow> None)"

text \<open>\<open>CheckRegistry\<close>: the list of registered checks, in order. Neither the checks nor the recording of a
  finding can make an append fail.\<close>

type_synonym check_registry = "(finding_code \<times> event_check) list"

definition register :: "finding_code \<Rightarrow> event_check \<Rightarrow> check_registry \<Rightarrow> check_registry" where
  "register code check reg = reg @ [(code, check)]"

definition register_phase1_checks :: "check_registry \<Rightarrow> check_registry" where
  "register_phase1_checks reg =
     register DIAG_BAD_TRANSITION bad_transition_check
       (register DIAG_GHOST_TRANSITION ghost_transition_check reg)"

fun on_append :: "penv \<Rightarrow> check_registry \<Rightarrow> worker_event \<Rightarrow> pworld \<Rightarrow> pworld" where
  "on_append E [] e w = w"
| "on_append E ((code, check) # reg) e w =
     (case check e of
        None \<Rightarrow> on_append E reg e w
      | Some outcome \<Rightarrow>
          on_append E reg e
            (snd (note_finding E code
               (case co_terminal_id outcome of Some t \<Rightarrow> t | None \<Rightarrow> vd_terminal_id e)
               (co_dedupe_key outcome) (co_detail outcome)
               (case co_sample_event_id outcome of Some i \<Rightarrow> i | None \<Rightarrow> ve_event_id e) w)))"

text \<open>\<open>SqliteEventStore.append\<close>: the clock and the id first, the transaction, then the checks, which a
  recognised retry does not run again.\<close>

definition append_event :: "penv \<Rightarrow> event_draft \<Rightarrow> worker_event pact" where
  "append_event E d w =
     (let (ingested_at, w1) = read_clock E w;
          w2 = w1\<lparr>pw_ids := pw_ids w1 + 1\<rparr> in
      case append_tx (e_mint E (pw_ids w1)) ingested_at d (pw_events w2) of
        (Inl x, _) \<Rightarrow> (Inl x, w2)
      | (Inr (e, False), _) \<Rightarrow> (Inr e, w2)
      | (Inr (e, True), st) \<Rightarrow> (Inr e, on_append E (register_phase1_checks []) e (w2\<lparr>pw_events := st\<rparr>)))"

section \<open>The pane check\<close>

definition RECENT_EVENT_WINDOW :: int where "RECENT_EVENT_WINDOW = 256"

fun onset_first :: "worker_state \<Rightarrow> worker_event \<Rightarrow> worker_event list \<Rightarrow> worker_event" where
  "onset_first mapped first [] = first"
| "onset_first mapped first (row # rows) =
     (case payload_str (vd_payload row) ''latched_status'' of
        None \<Rightarrow> first
      | Some raw \<Rightarrow>
          if legacy_state raw \<noteq> Some mapped then first else onset_first mapped row rows)"

definition onset :: "worker_event list \<Rightarrow> worker_state \<Rightarrow> time \<Rightarrow> time \<times> worker_event" where
  "onset rows mapped state_since =
     (let first = onset_first mapped (last rows) (rev (butlast rows)) in
      (max (ve_ingested_at first) state_since, first))"

text \<open>\<open>f"{age.total_seconds():.0f}"\<close>: whole seconds, a half rounded to the even neighbour.\<close>

definition seconds_0f :: "time \<Rightarrow> string" where
  "seconds_0f us =
     (let q = us div 1000000; r = us mod 1000000 in
      py_str (if r < 500000 \<or> (r = 500000 \<and> even q) then q else q + 1))"

definition pane_disagreement :: "penv \<Rightarrow> string \<Rightarrow> pworld \<Rightarrow> bool \<times> pworld" where
  "pane_disagreement E terminal_id w =
     (case get_state terminal_id (pw_states w) of
        None \<Rightarrow> (False, w)
      | Some projection \<Rightarrow>
          (let rows = read_events (Some terminal_id)
                 (max 0 (high_water terminal_id (pw_events w) - RECENT_EVENT_WINDOW)) None
                 (Some {EK STATUS_PANE_CLASSIFIED}) None (pw_events w) in
           if rows = [] then (False, w)
           else
             case payload_str (vd_payload (last rows)) ''latched_status'' of
               None \<Rightarrow> (False, w)
             | Some raw \<Rightarrow>
                 (case legacy_state raw of
                    None \<Rightarrow> (False, w)
                  | Some mapped \<Rightarrow>
                      if mapped = pj_state projection then (False, w)
                      else
                        (let (start, sample) = onset rows mapped (pj_since projection);
                             (now, w1) = read_clock E w;
                             age = now - start in
                         if age \<le> seconds (PANE_HEARTBEAT_S T0) then (False, w1)
                         else
                           (case note_finding E DIAG_PANE_DISAGREE terminal_id
                              (worker_state_value (pj_state projection) @ ''|'' @ raw)
                              (''projected '' @ worker_state_value (pj_state projection) @ '' vs pane ''
                               @ raw @ '' for '' @ seconds_0f age @ ''s'')
                              (ve_event_id sample) w1 of
                              (Inl _, w2) \<Rightarrow> (False, w2)
                            | (Inr _, w2) \<Rightarrow> (True, w2))))))"

section \<open>The producer check\<close>

definition asserted_state :: "worker_event \<Rightarrow> worker_state option" where
  "asserted_state e =
     (if vd_kind e = EK STATUS_LEGACY_PUBLISHED
      then (case payload_str (vd_payload e) ''latched_status'' of
              None \<Rightarrow> None | Some raw \<Rightarrow> legacy_state raw)
      else implied_state (vd_kind e))"

definition forget_episode :: "string \<Rightarrow> pworld \<Rightarrow> pworld" where
  "forget_episode terminal_id w = w\<lparr>pw_episodes := (pw_episodes w)(terminal_id := None)\<rparr>"

definition producer_disagreement :: "penv \<Rightarrow> worker_event \<Rightarrow> projection \<Rightarrow> pworld \<Rightarrow> bool \<times> pworld" where
  "producer_disagreement E e row w =
     (let standing = pj_state row in
      if vd_confidence e \<noteq> DERIVED then (False, w)
      else
        case asserted_state e of
          None \<Rightarrow> (False, w)
        | Some asserted \<Rightarrow>
            if asserted = standing then (False, forget_episode (vd_terminal_id e) w)
            else
              (let episode = (worker_state_value standing, worker_state_value asserted) in
               if pw_episodes w (vd_terminal_id e) = Some episode then (False, w)
               else
                 (let w1 = w\<lparr>pw_episodes := (pw_episodes w)(vd_terminal_id e := Some episode)\<rparr> in
                  case note_finding E DIAG_PRODUCER_DISAGREE (vd_terminal_id e)
                         (fst episode @ ''|'' @ snd episode)
                         (''projected '' @ fst episode @ '' from the authoritative source while ''
                          @ producer_value (vd_producer e) @ '' asserted '' @ snd episode @ '' (''
                          @ kind_value (vd_kind e) @ '', muted)'')
                         (ve_event_id e) w1 of
                    (Inl _, w2) \<Rightarrow> (False, w2)
                  | (Inr _, w2) \<Rightarrow> (True, w2))))"

definition record_migration_failure :: "penv \<Rightarrow> string \<Rightarrow> string \<Rightarrow> unit pact" where
  "record_migration_failure E stp detail w =
     (let (now, w1) = read_clock E w in
      case record_finding (e_mint E (pw_ids w1)) now DIAG_MIGRATION_FAILED [] stp detail None (pw_findings w1) of
        (Inl e, _) \<Rightarrow> (Inl e, w1\<lparr>pw_ids := pw_ids w1 + 1\<rparr>)
      | (Inr _, fs) \<Rightarrow>
          (Inr (), w1\<lparr>pw_findings := fs,
             pw_ids := pw_ids w1 + (if rowcount (same_open DIAG_MIGRATION_FAILED [] stp) (pw_findings w1) = 0
                                    then 1 else 0)\<rparr>))"

end
