(* ===== verification/Projector.thy ===== *)
theory Projector
  imports Worker_Checks
begin

text \<open>
  The projector of \<open>app/worker_truth/projector.py\<close>, which folds worker events into the stored projection,
  the publisher of \<open>app/worker_truth/publisher.py\<close> it offers applied moves to, and the sweep that degrades
  silent terminals. A fold and the sweep's treatment of one terminal each run under the projector's lock:
  \<open>fold_section\<close> and \<open>sweep_section\<close> are those critical sections, and what happens outside the lock
  (publishing) is a separate action, so that every interleaving of the two writers is a sequence of
  these actions.
\<close>

section \<open>Rendering\<close>

text \<open>\<open>datetime.isoformat\<close> of an aware UTC instant.\<close>

definition zero_pad :: "nat \<Rightarrow> int \<Rightarrow> string" where
  "zero_pad k n = (let ds = py_str n in replicate (k - length ds) CHR ''0'' @ ds)"

definition civil_date :: "int \<Rightarrow> int \<times> int \<times> int" where
  "civil_date days =
     (let z = days + 719468; era = z div 146097; doe = z mod 146097;
          yoe = (doe - doe div 1460 + doe div 36524 - doe div 146096) div 365;
          doy = doe - (365 * yoe + yoe div 4 - yoe div 100);
          mp = (5 * doy + 2) div 153;
          m = (if mp < 10 then mp + 3 else mp - 9) in
      (yoe + era * 400 + (if m \<le> 2 then 1 else 0), m, doy - (153 * mp + 2) div 5 + 1))"

definition isoformat :: "time \<Rightarrow> string" where
  "isoformat t =
     (let us = t mod 1000000; s = t div 1000000; sod = s mod 86400; (y, m, d) = civil_date (s div 86400) in
      zero_pad 4 y @ ''-'' @ zero_pad 2 m @ ''-'' @ zero_pad 2 d @ ''T'' @ zero_pad 2 (sod div 3600) @ '':''
      @ zero_pad 2 (sod div 60 mod 60) @ '':'' @ zero_pad 2 (sod mod 60)
      @ (if us = 0 then [] else ''.'' @ zero_pad 6 us) @ ''+00:00'')"

section \<open>Outcomes and publication\<close>

definition DERIVED_ALWAYS_KINDS :: "event_kind list" where
  "DERIVED_ALWAYS_KINDS = [PROMPT_AWAITING, PROMPT_ANSWERED, USAGE_CAPPED, PROCESS_EXITED, PANE_RECOVERED]"

record outcome =
  po_terminal_id :: string
  po_rule :: string
  po_applied :: bool
  po_from_state :: "worker_state option"
  po_to_state :: "worker_state option"
  po_classification :: "transition_class option"
  po_decision_event_id :: "string option"

definition ProjectionOutcome :: "string \<Rightarrow> string \<Rightarrow> bool \<Rightarrow> outcome" where
  "ProjectionOutcome terminal_id rule applied =
     \<lparr>po_terminal_id = terminal_id, po_rule = rule, po_applied = applied, po_from_state = None,
      po_to_state = None, po_classification = None, po_decision_event_id = None\<rparr>"

record publish_intent =
  pi_terminal_id :: string
  pi_state :: worker_state
  pi_causing_kind :: "any_kind option"
  pi_degraded_reason :: "degraded_reason option"
  pi_event_id :: "string option"
  pi_since :: time

definition intent_of :: "outcome \<Rightarrow> any_kind option \<Rightarrow> pworld \<Rightarrow> publish_intent option" where
  "intent_of oc causing_kind w =
     (if \<not> po_applied oc then None
      else
        case po_to_state oc of
          None \<Rightarrow> None
        | Some s \<Rightarrow>
            (case get_state (po_terminal_id oc) (pw_states w) of
               None \<Rightarrow> None
             | Some current \<Rightarrow>
                 Some \<lparr>pi_terminal_id = po_terminal_id oc, pi_state = s, pi_causing_kind = causing_kind,
                       pi_degraded_reason = pj_degraded_reason current,
                       pi_event_id = po_decision_event_id oc, pi_since = pj_since current\<rparr>))"

text \<open>\<open>StatusPublisher.__call__\<close>: whatever the egress does with the call is swallowed; the log records what
  was handed to it.\<close>

definition publish_status :: "penv \<Rightarrow> publish_intent \<Rightarrow> pworld \<Rightarrow> pworld" where
  "publish_status E i w =
     (if \<not> is_projected (Some (e_admits E (pw_reads w))) (pi_terminal_id i) (pw_health w) then w
      else w\<lparr>pw_published := pw_published w @
        [\<lparr>pb_terminal_id = pi_terminal_id i,
          pb_status = legacy_status (pi_state i) (pi_causing_kind i) (pi_degraded_reason i),
          pb_event_id = pi_event_id i, pb_worker_state = worker_state_value (pi_state i),
          pb_since = pi_since i\<rparr>]\<rparr>)"

text \<open>\<open>_deliver\<close>: the publisher is wired only with the cutover on.\<close>

definition deliver_intent :: "penv \<Rightarrow> publish_intent option \<Rightarrow> pworld \<Rightarrow> pworld" where
  "deliver_intent E intent w =
     (case intent of None \<Rightarrow> w | Some i \<Rightarrow> if e_cutover E then publish_status E i w else w)"

section \<open>Who owns a terminal's status\<close>

definition load :: "string \<Rightarrow> time \<Rightarrow> pworld \<Rightarrow> projection" where
  "load terminal_id at w =
     (case get_state terminal_id (pw_states w) of
        Some existing \<Rightarrow> existing
      | None \<Rightarrow> ProjectedState terminal_id at)"

definition source_healthy :: "penv \<Rightarrow> projection \<Rightarrow> pworld \<Rightarrow> bool \<times> pworld" where
  "source_healthy E row w =
     (case pj_last_source_probe_at row of
        None \<Rightarrow> (False, w)
      | Some probed \<Rightarrow> (let (now, w1) = read_clock E w in (now - probed \<le> seconds (NO_SIGNAL_S T0), w1)))"

definition projected :: "penv \<Rightarrow> string \<Rightarrow> projection \<Rightarrow> pworld \<Rightarrow> bool \<times> pworld" where
  "projected E terminal_id row w =
     (if pj_last_source_probe_at row \<noteq> None \<and> fallback_disabled terminal_id (pw_registry w) then (True, w)
      else if \<not> is_authoritative terminal_id (pw_registry w) then (False, w)
      else source_healthy E row w)"

definition is_muted :: "penv \<Rightarrow> projection \<Rightarrow> worker_event \<Rightarrow> pworld \<Rightarrow> bool \<times> pworld" where
  "is_muted E row e w =
     (if vd_confidence e \<noteq> DERIVED then (False, w)
      else if vd_kind e \<in> EK ` set DERIVED_ALWAYS_KINDS then (False, w)
      else projected E (vd_terminal_id e) row w)"

definition mark_projected :: "penv \<Rightarrow> string \<Rightarrow> projection \<Rightarrow> pworld \<Rightarrow> pworld" where
  "mark_projected E terminal_id row w =
     (let (p, w1) = projected E terminal_id row w in w1\<lparr>pw_health := health_mark terminal_id p (pw_health w1)\<rparr>)"

section \<open>The rules\<close>

definition payload_reason :: "worker_event \<Rightarrow> degraded_reason option" where
  "payload_reason e =
     (case payload_str (vd_payload e) ''degraded_reason'' of
        None \<Rightarrow> None
      | Some raw \<Rightarrow> (case degraded_reason_of raw of Inl _ \<Rightarrow> None | Inr r \<Rightarrow> Some r))"

definition target :: "worker_event \<Rightarrow> worker_state option \<times> degraded_reason option" where
  "target e =
     (if vd_kind e = EK STATUS_LEGACY_PUBLISHED then
        (case payload_str (vd_payload e) ''latched_status'' of
           None \<Rightarrow> (None, None)
         | Some raw \<Rightarrow>
             (let t = legacy_state raw in
              (t, if t = Some DEGRADED then Some RENDER_UNCERTAIN else None)))
      else
        case (if vd_kind e = EK PROMPT_ANSWERED
              then answered_state (payload_str (vd_payload e) ''latched_status'') else None) of
          Some resolved \<Rightarrow> (Some resolved, None)
        | None \<Rightarrow>
            (let t = implied_state (vd_kind e) in
             if t \<noteq> Some DEGRADED then (t, None)
             else
               case payload_reason e of
                 Some override \<Rightarrow> (t, Some override)
               | None \<Rightarrow>
                   if vd_kind e = EK PANE_MISSING then (t, Some PANE_MISSING_REASON)
                   else (t, Some RENDER_UNCERTAIN)))"

definition save_row :: "projection \<Rightarrow> pworld \<Rightarrow> pworld" where
  "save_row row w = w\<lparr>pw_states := upsert row (pw_states w)\<rparr>"

definition decision_draft :: "decision_kind \<Rightarrow> worker_event \<Rightarrow> payload \<Rightarrow> time \<Rightarrow> event_draft" where
  "decision_draft decision cause payload observed_at =
     \<lparr>vd_terminal_id = vd_terminal_id cause, vd_kind = DK decision, vd_producer = SERVER,
      vd_confidence = AUTHORITATIVE, vd_observed_at = observed_at, vd_payload = payload,
      vd_source_ref = None, vd_run_id = vd_run_id cause, vd_msg_id = vd_msg_id cause,
      vd_decision = Some decision, vd_evidence = Some (ve_event_id cause), vd_idempotency_key = None\<rparr>"

definition append_decision ::
  "penv \<Rightarrow> decision_kind \<Rightarrow> worker_event \<Rightarrow> payload \<Rightarrow> time option \<Rightarrow> string pact" where
  "append_decision E decision cause payload observed_at w =
     (let (at, w1) = (case observed_at of Some t \<Rightarrow> (t, w) | None \<Rightarrow> read_clock E w) in
      case EventDraft (decision_draft decision cause payload at) of
        Inl x \<Rightarrow> (Inl x, w1)
      | Inr d \<Rightarrow> andthen (append_event E d) (\<lambda>stored. return_act (ve_event_id stored)) w1)"

definition json_state :: "worker_state \<Rightarrow> json" where
  "json_state s = JStr (worker_state_value s)"

definition json_reason :: "degraded_reason option \<Rightarrow> json" where
  "json_reason r = (case r of None \<Rightarrow> JNull | Some x \<Rightarrow> JStr (degraded_reason_value x))"

definition diagonal ::
  "penv \<Rightarrow> projection \<Rightarrow> worker_event \<Rightarrow> worker_state \<Rightarrow> degraded_reason option \<Rightarrow> outcome pact" where
  "diagonal E row e t reason =
     (case reason of
        Some r \<Rightarrow>
          (if t = DEGRADED \<and> reason_rises (pj_degraded_reason row) r
           then (\<lambda>w. andthen
             (append_decision E STATUS_REASON_CHANGED e
                [(''from_reason'', json_reason (pj_degraded_reason row)),
                 (''to_reason'', JStr (degraded_reason_value r)), (''rule'', JStr ''reason_rise'')] None)
             (\<lambda>decision_id. return_act
                ((ProjectionOutcome (vd_terminal_id e) ''reason_rise'' True)\<lparr>po_from_state := Some (pj_state row),
                   po_to_state := Some t, po_classification := Some NO_OP,
                   po_decision_event_id := Some decision_id\<rparr>))
             (save_row (row\<lparr>pj_degraded_reason := Some r, pj_last_event_seq := ve_seq e\<rparr>) w))
           else (\<lambda>w. (Inr ((ProjectionOutcome (vd_terminal_id e) ''diagonal_noop'' False)\<lparr>
                   po_from_state := Some (pj_state row), po_to_state := Some t, po_classification := Some NO_OP\<rparr>),
                 save_row (row\<lparr>pj_last_event_seq := ve_seq e\<rparr>) w)))
      | None \<Rightarrow>
          (\<lambda>w. (Inr ((ProjectionOutcome (vd_terminal_id e) ''diagonal_noop'' False)\<lparr>
                  po_from_state := Some (pj_state row), po_to_state := Some t, po_classification := Some NO_OP\<rparr>),
                save_row (row\<lparr>pj_last_event_seq := ve_seq e\<rparr>) w)))"

definition transition :: "penv \<Rightarrow> projection \<Rightarrow> worker_event \<Rightarrow> outcome pact" where
  "transition E row e w =
     (case target e of
        (None, _) \<Rightarrow>
          (Inr ((ProjectionOutcome (vd_terminal_id e) ''no_implied_state'' False)\<lparr>po_from_state := Some (pj_state row)\<rparr>),
           save_row (row\<lparr>pj_last_event_seq := ve_seq e\<rparr>) w)
      | (Some t, reason) \<Rightarrow>
          (case validate (e_strict E) (pj_state row) t of
             Inl x \<Rightarrow> (Inl x, w)
           | Inr c \<Rightarrow>
               if c = NO_OP then diagonal E row e t reason w
               else
                 andthen
                   (append_decision E STATUS_TRANSITION e
                      [(''from'', json_state (pj_state row)), (''to'', json_state t), (''rule'', JStr ''applied''),
                       (''classification'', JStr (transition_class_value c)),
                       (''degraded_reason'', json_reason reason)] None)
                   (\<lambda>decision_id. return_act
                      ((ProjectionOutcome (vd_terminal_id e) ''applied'' True)\<lparr>po_from_state := Some (pj_state row),
                         po_to_state := Some t, po_classification := Some c,
                         po_decision_event_id := Some decision_id\<rparr>))
                   (save_row (row\<lparr>pj_state := t, pj_since := ve_ingested_at e, pj_last_event_seq := ve_seq e,
                      pj_degraded_reason := (if t = DEGRADED then reason else None),
                      pj_prior_state := (if t = DEGRADED then Some (pj_state row) else None)\<rparr>) w)))"

definition recover :: "penv \<Rightarrow> projection \<Rightarrow> worker_event \<Rightarrow> outcome pact" where
  "recover E row e w =
     (if pj_state row \<noteq> DEGRADED then
        (Inr ((ProjectionOutcome (vd_terminal_id e) ''recovery_not_degraded'' False)\<lparr>po_from_state := Some (pj_state row)\<rparr>),
         save_row (row\<lparr>pj_last_event_seq := ve_seq e\<rparr>) w)
      else
        (let t = (case pj_prior_state row of Some s \<Rightarrow> s | None \<Rightarrow> IDLE) in
         case validate (e_strict E) (pj_state row) t of
           Inl x \<Rightarrow> (Inl x, w)
         | Inr c \<Rightarrow>
             andthen
               (append_decision E STATUS_RECOVERED e
                  [(''from'', json_state (pj_state row)), (''to'', json_state t), (''rule'', JStr ''recovered''),
                   (''classification'', JStr (transition_class_value c)),
                   (''restored_reason'', json_reason (pj_degraded_reason row))] None)
               (\<lambda>decision_id. return_act
                  ((ProjectionOutcome (vd_terminal_id e) ''recovered'' True)\<lparr>po_from_state := Some (pj_state row),
                     po_to_state := Some t, po_classification := Some c,
                     po_decision_event_id := Some decision_id\<rparr>))
               (save_row (row\<lparr>pj_state := t, pj_since := ve_ingested_at e, pj_last_event_seq := ve_seq e,
                  pj_degraded_reason := None, pj_prior_state := None\<rparr>) w)))"

section \<open>One fold\<close>

definition apply_event :: "penv \<Rightarrow> projection \<Rightarrow> worker_event \<Rightarrow> outcome pact" where
  "apply_event E row e w =
     (let (muted, w1) = is_muted E row e w in
      if muted then
        (Inr ((ProjectionOutcome (vd_terminal_id e) ''derived_muted_by_healthy_source'' False)\<lparr>
                po_from_state := Some (pj_state row)\<rparr>),
         snd (producer_disagreement E e row (save_row (row\<lparr>pj_last_event_seq := ve_seq e\<rparr>) w1)))
      else if vd_kind e = EK PANE_RECOVERED then recover E row e w1
      else transition E row e w1)"

definition fold_section :: "penv \<Rightarrow> worker_event \<Rightarrow> (outcome \<times> publish_intent option) pact" where
  "fold_section E e w =
     (let row = load (vd_terminal_id e) (ve_ingested_at e) w in
      andthen (apply_event E row e)
        (\<lambda>oc w1.
          (let intent = intent_of oc (Some (vd_kind e)) w1 in
           (Inr (oc, intent), snd (pane_disagreement E (vd_terminal_id e) w1))))
        (mark_projected E (vd_terminal_id e) row w))"

definition project :: "penv \<Rightarrow> worker_event \<Rightarrow> outcome pact" where
  "project E e w =
     (if vd_decision e \<noteq> None then (Inr (ProjectionOutcome (vd_terminal_id e) ''decision_row'' False), w)
      else andthen (fold_section E e) (\<lambda>(oc, intent) w1. (Inr oc, deliver_intent E intent w1)) w)"

section \<open>The sweep\<close>

definition last_signal :: "projection \<Rightarrow> time option" where
  "last_signal row =
     (let candidates = map the (filter (\<lambda>s. s \<noteq> None)
            [pj_last_probe_at row, pj_last_source_probe_at row, Some (pj_since row)]) in
      if candidates = [] then None else Some (Max (set candidates)))"

definition last_event :: "string \<Rightarrow> int \<Rightarrow> estore \<Rightarrow> worker_event option" where
  "last_event terminal_id last_event_seq st =
     (if last_event_seq \<le> 0 then None
      else
        (let rows = filter (\<lambda>e. vd_decision e = None)
               (read_events (Some terminal_id) (last_event_seq - 1) None None None st) in
         if rows = [] then None else Some (last rows)))"

definition note_certified_stale :: "penv \<Rightarrow> projection \<Rightarrow> worker_event \<Rightarrow> pworld \<Rightarrow> pworld" where
  "note_certified_stale E row le w =
     (if pj_last_source_probe_at row = None \<or> \<not> fallback_disabled (pj_terminal_id row) (pw_registry w) then w
      else snd (note_finding E DIAG_CERTIFIED_SOURCE_STALE (pj_terminal_id row) (pj_terminal_id row)
        (''certified source silent since '' @ isoformat (ve_ingested_at le) @ ''; projected state held at ''
         @ worker_state_value DEGRADED @ ''('' @ degraded_reason_value NO_SIGNAL @ '')'')
        (ve_event_id le) w))"

definition degrade_no_signal :: "penv \<Rightarrow> projection \<Rightarrow> worker_event \<Rightarrow> time \<Rightarrow> outcome pact" where
  "degrade_no_signal E row le now w =
     (if pj_state row = DEGRADED \<and> \<not> reason_rises (pj_degraded_reason row) NO_SIGNAL then
        (Inr ((ProjectionOutcome (pj_terminal_id row) ''no_signal_already_degraded'' False)\<lparr>
                po_from_state := Some (pj_state row), po_to_state := Some DEGRADED,
                po_classification := Some NO_OP\<rparr>),
         note_certified_stale E row le (save_row row w))
      else
        case validate (e_strict E) (pj_state row) DEGRADED of
          Inl x \<Rightarrow> (Inl x, w)
        | Inr c \<Rightarrow>
            andthen
              (append_decision E STATUS_TRANSITION le
                 [(''from'', json_state (pj_state row)), (''to'', json_state DEGRADED),
                  (''rule'', JStr ''no_signal_sweep''), (''classification'', JStr (transition_class_value c)),
                  (''degraded_reason'', json_reason (Some NO_SIGNAL)),
                  (''silent_since'', JStr (isoformat (ve_ingested_at le)))] (Some now))
              (\<lambda>decision_id w1.
                (Inr ((ProjectionOutcome (pj_terminal_id row) ''no_signal_sweep'' True)\<lparr>
                        po_from_state := Some (pj_state row), po_to_state := Some DEGRADED,
                        po_classification := Some c, po_decision_event_id := Some decision_id\<rparr>),
                 note_certified_stale E row le w1))
              (save_row (row\<lparr>pj_state := DEGRADED, pj_since := now, pj_degraded_reason := Some NO_SIGNAL,
                 pj_prior_state := Some (pj_state row)\<rparr>) w))"

definition sweep_section ::
  "penv \<Rightarrow> time \<Rightarrow> string \<Rightarrow> (outcome option \<times> publish_intent option) pact" where
  "sweep_section E now terminal_id w =
     (case get_state terminal_id (pw_states w) of
        None \<Rightarrow> (Inr (None, None), w\<lparr>pw_health := health_forget terminal_id (pw_health w)\<rparr>)
      | Some row \<Rightarrow>
          (let w1 = mark_projected E terminal_id row w in
           if pj_state row = EXITED then (Inr (None, None), w1)
           else
             case last_signal row of
               None \<Rightarrow> (Inr (None, None), w1)
             | Some heard \<Rightarrow>
                 if now - heard \<le> seconds (NO_SIGNAL_S T0) then (Inr (None, None), w1)
                 else
                   case last_event terminal_id (pj_last_event_seq row) (pw_events w1) of
                     None \<Rightarrow> (Inr (None, None), w1)
                   | Some le \<Rightarrow>
                       andthen (degrade_no_signal E row le now)
                         (\<lambda>oc w2. (Inr (Some oc, intent_of oc None w2), w2)) w1))"

fun sweep_terminals :: "penv \<Rightarrow> time \<Rightarrow> string list \<Rightarrow> outcome list pact" where
  "sweep_terminals E now [] = return_act []"
| "sweep_terminals E now (t # ts) =
     andthen (sweep_section E now t)
       (\<lambda>(oc, intent) w. andthen (sweep_terminals E now ts)
          (\<lambda>os. return_act ((case oc of None \<Rightarrow> [] | Some x \<Rightarrow> [x]) @ os)) (deliver_intent E intent w))"

fun sweep_checks :: "penv \<Rightarrow> string list \<Rightarrow> pworld \<Rightarrow> pworld" where
  "sweep_checks E [] w = w"
| "sweep_checks E (t # ts) w = sweep_checks E ts (snd (pane_disagreement E t w))"

fun reclassify_all :: "penv \<Rightarrow> string list \<Rightarrow> unit pact" where
  "reclassify_all E [] w = (Inr (), w)"
| "reclassify_all E (t # ts) w =
     (if \<not> e_cutover E then reclassify_all E ts w
      else case e_reclassify E (pw_reads w) t of Inl x \<Rightarrow> (Inl x, w) | Inr _ \<Rightarrow> reclassify_all E ts w)"

definition roster :: "pworld \<Rightarrow> string list" where
  "roster w = map pj_terminal_id (all_terminals (pw_states w))"

definition sweep :: "penv \<Rightarrow> outcome list pact" where
  "sweep E w =
     (let (now, w1) = read_clock E w in
      andthen (sweep_terminals E now (roster w1))
        (\<lambda>outcomes w2.
          (let w3 = sweep_checks E (roster w2) w2 in
           andthen (reclassify_all E (roster w3)) (\<lambda>_. return_act outcomes) w3)) w1)"

end
