(* ===== verification/Projector_Lifecycle.thy ===== *)
theory Projector_Lifecycle
  imports Projector
begin

text \<open>
  The lemmas behind the promises of the projector: the locale \<open>note_relation\<close> is the interface between the
  projector and its diagnostics, \<open>pinv\<close> the invariant of the component, \<open>machine\<close> the abstract state machine
  on state, reason and prior state, and each rule of the projector gets one lemma that says what it does
  to the stored row, to the log and to the findings.
\<close>

section \<open>Diagnostics leave the projection alone\<close>

text \<open>The interface between the projector and its diagnostics: a relation that survives sequencing, a clock
  reading, an episode and the recording of one finding survives every check.\<close>

locale note_relation = action_relation R for R :: "pworld \<Rightarrow> pworld \<Rightarrow> bool" +
  fixes E :: penv
  assumes R_reads: "R w (w\<lparr>pw_reads := n\<rparr>)"
    and R_episodes: "R w (w\<lparr>pw_episodes := ep\<rparr>)"
    and R_note: "R w (snd (note_finding E c t k d s w))"
begin

lemma R_clock: "R w (snd (read_clock E w))"
  by (simp add: read_clock_def R_reads)

lemma R_on_append: "R w (on_append E reg e w)"
proof (induction reg arbitrary: w)
  case Nil
  then show ?case by (simp add: R_refl)
next
  case (Cons c reg)
  obtain code check where c: "c = (code, check)" by fastforce
  then show ?case
    using Cons R_trans[OF R_note Cons] by (simp split: option.splits)
qed

lemma R_pane_disagreement: "R w (snd (pane_disagreement E t w))"
proof -
  have "R w (snd (note_finding E c t' k d s (snd (read_clock E w))))" for c t' k d s
    using R_trans[OF R_clock R_note] .
  then have "R w w2" if "note_finding E c t' k d s (snd (read_clock E w)) = (x, w2)" for c t' k d s x w2
    using that by (metis snd_conv)
  then show ?thesis
    using R_clock[of w]
    by (auto simp: pane_disagreement_def Let_def R_refl split: option.splits prod.splits sum.splits)
qed

lemma R_producer_disagreement: "R w (snd (producer_disagreement E e row w))"
proof -
  have "R w w2" if "note_finding E c t' k d s (w\<lparr>pw_episodes := ep\<rparr>) = (x, w2)" for c t' k d s x w2 ep
    using R_trans[OF R_episodes R_note] that by (metis snd_conv)
  then show ?thesis
    by (auto simp: producer_disagreement_def forget_episode_def Let_def R_refl R_episodes
        split: option.splits prod.splits sum.splits)
qed

lemma R_note_certified_stale: "R w (note_certified_stale E row le w)"
  by (simp add: note_certified_stale_def R_refl R_note)

lemma R_projected: "R w (snd (projected E t row w))"
  using R_clock[of w]
  by (auto simp: projected_def source_healthy_def R_refl split: option.splits prod.splits)

lemma R_is_muted: "R w (snd (is_muted E row e w))"
  by (simp add: is_muted_def R_refl R_projected)

lemma R_sweep_checks: "R w (sweep_checks E ts w)"
  by (induction ts arbitrary: w) (auto intro: R_refl R_trans[OF R_pane_disagreement])

lemmas R_parts = R_clock R_on_append R_pane_disagreement R_producer_disagreement
  R_note_certified_stale R_projected R_is_muted R_sweep_checks

end

definition quiet :: "pworld \<Rightarrow> pworld \<Rightarrow> bool" where
  "quiet w w' \<longleftrightarrow> pw_events w' = pw_events w \<and> pw_states w' = pw_states w \<and> pw_registry w' = pw_registry w
     \<and> pw_health w' = pw_health w \<and> pw_published w' = pw_published w \<and> pw_ids w \<le> pw_ids w'"

lemma quietD:
  assumes "quiet w w'"
  shows "pw_events w' = pw_events w" "pw_states w' = pw_states w" "pw_registry w' = pw_registry w"
    "pw_health w' = pw_health w" "pw_published w' = pw_published w" "pw_ids w \<le> pw_ids w'"
  using assms by (simp_all add: quiet_def)

text \<open>The findings stay consistent, and every id in use was minted.\<close>

definition findings_fresh :: "penv \<Rightarrow> pworld \<Rightarrow> bool" where
  "findings_fresh E w \<longleftrightarrow> findings_ok (pw_findings w)
     \<and> (\<forall>f \<in> set (pw_findings w). fi_finding_id f \<in> e_mint E ` {..<pw_ids w})"

lemma record_finding_effect:
  assumes "fid \<notin> fi_finding_id ` set fs"
  shows "\<exists>f fs'. record_finding fid now c t k d s fs = (Inr f, fs') \<and> f \<in> set fs' \<and> same_open c t k f
     \<and> fi_finding_id ` set fs' \<subseteq> insert fid (fi_finding_id ` set fs)
     \<and> (rowcount (same_open c t k) fs \<noteq> 0 \<longrightarrow> fi_finding_id ` set fs' \<subseteq> fi_finding_id ` set fs)"
proof -
  let ?P = "same_open c t k"
  let ?g = "\<lambda>f. f\<lparr>fi_count := fi_count f + 1, fi_last_seen_at := now, fi_detail := d\<rparr>"
  let ?fs1 = "update_where ?P ?g fs"
  define fs2 where "fs2 = (if rowcount ?P fs = 0 then ?fs1 @ [new_finding fid now c t k d s] else ?fs1)"
  have ids: "fi_finding_id ` set ?fs1 = fi_finding_id ` set fs"
    by (simp add: bump_keys(1) flip: set_map)
  have "\<exists>f \<in> set fs2. ?P f"
  proof (cases "rowcount ?P fs = 0")
    case True
    then show ?thesis by (auto simp: fs2_def same_open_def new_finding_def)
  next
    case False
    then obtain f where "f \<in> set fs" "?P f" using rowcount_pos_iff[of ?P fs] by auto
    then have "?g f \<in> set ?fs1" "?P (?g f)" by (force simp: set_update_where, simp add: same_open_def)
    then show ?thesis using False by (auto simp: fs2_def)
  qed
  then obtain f where f: "fetchone ?P fs2 = Some f"
    using fetchone_None_iff[of ?P fs2] by blast
  then have "record_finding fid now c t k d s fs = (Inr f, fs2)"
    using assms by (auto simp: record_finding_def Let_def fs2_def image_iff)
  moreover have "fi_finding_id ` set fs2 = (if rowcount ?P fs = 0 then insert fid (fi_finding_id ` set fs) else fi_finding_id ` set fs)"
    using ids by (simp add: fs2_def new_finding_def)
  ultimately show ?thesis
    using fetchone_SomeD[OF f] by auto
qed

lemma note_finding_effect:
  assumes "inj (e_mint E)" "findings_fresh E w"
  shows "\<exists>w'. note_finding E c t k d s w = (Inr (), w') \<and> findings_fresh E w'
     \<and> (\<exists>f \<in> set (pw_findings w'). same_open c t k f)"
proof -
  let ?fid = "e_mint E (pw_ids w)" and ?now = "e_clock E (pw_reads w)"
  have fresh: "?fid \<notin> fi_finding_id ` set (pw_findings w)"
    using assms by (metis (mono_tags, lifting) findings_fresh_def image_iff inj_image_mem_iff lessThan_iff less_irrefl)
  obtain f fs' where r: "record_finding ?fid ?now c t k d (Some s) (pw_findings w) = (Inr f, fs')"
      "f \<in> set fs'" "same_open c t k f" "fi_finding_id ` set fs' \<subseteq> insert ?fid (fi_finding_id ` set (pw_findings w))"
      "rowcount (same_open c t k) (pw_findings w) \<noteq> 0 \<longrightarrow> fi_finding_id ` set fs' \<subseteq> fi_finding_id ` set (pw_findings w)"
    using record_finding_effect[OF fresh, of ?now c t k d "Some s"] by blast
  have ok: "findings_ok fs'"
    using record_finding_ok[of "pw_findings w" ?fid ?now c t k d "Some s"] assms(2) r(1) by (simp add: findings_fresh_def)
  let ?n = "pw_ids w + (if rowcount (same_open c t k) (pw_findings w) = 0 then 1 else 0)"
  have "fi_finding_id g \<in> e_mint E ` {..<?n}" if g: "g \<in> set fs'" for g
  proof -
    have old: "fi_finding_id ` set (pw_findings w) \<subseteq> e_mint E ` {..<pw_ids w}"
      using assms(2) by (auto simp: findings_fresh_def)
    have "fi_finding_id g \<in> (if rowcount (same_open c t k) (pw_findings w) = 0
        then insert ?fid (e_mint E ` {..<pw_ids w}) else e_mint E ` {..<pw_ids w})"
      using imageI[OF g, of fi_finding_id] r(4,5) old
      by (cases "rowcount (same_open c t k) (pw_findings w) = 0") (simp, blast, simp, blast)
    then show ?thesis by (auto simp: lessThan_Suc split: if_splits)
  qed
  then show ?thesis
    using r(1-3) ok by (auto simp: note_finding_def read_clock_def findings_fresh_def)
qed

text \<open>A calm write: the log, the table, the registry, the marks and the publications are as before, and the
  findings stay consistent.\<close>

definition calm :: "penv \<Rightarrow> pworld \<Rightarrow> pworld \<Rightarrow> bool" where
  "calm E w w' \<longleftrightarrow> quiet w w' \<and> (inj (e_mint E) \<longrightarrow> findings_fresh E w \<longrightarrow> findings_fresh E w')"

interpretation calm: note_relation "calm E" E for E
proof
  fix w c t k d s
  have "quiet w (snd (note_finding E c t k d s w))"
    by (simp add: quiet_def note_finding_def read_clock_def Let_def split: sum.splits prod.splits)
  then show "calm E w (snd (note_finding E c t k d s w))"
    using note_finding_effect[of E w c t k d s] unfolding calm_def by (metis snd_conv)
qed (auto simp: calm_def quiet_def findings_fresh_def)

lemma calmD:
  assumes "calm E w w'"
  shows "pw_events w' = pw_events w" "pw_states w' = pw_states w" "pw_registry w' = pw_registry w"
    "pw_health w' = pw_health w" "pw_published w' = pw_published w" "pw_ids w \<le> pw_ids w'"
  using assms quietD by (auto simp: calm_def)

section \<open>The invariant\<close>

definition row_ok :: "projection \<Rightarrow> bool" where
  "row_ok r \<longleftrightarrow> (pj_state r = DEGRADED \<longleftrightarrow> pj_degraded_reason r \<noteq> None)
     \<and> (pj_state r = DEGRADED \<longleftrightarrow> pj_prior_state r \<noteq> None) \<and> pj_prior_state r \<noteq> Some DEGRADED
     \<and> 0 \<le> pj_last_event_seq r"

definition STATUS_DECISIONS :: "decision_kind list" where
  "STATUS_DECISIONS = [STATUS_TRANSITION, STATUS_REASON_CHANGED, STATUS_RECOVERED]"

text \<open>A status decision cites a minted id, and where the cited event is still stored it is an observation of
  the same terminal that came before the decision.\<close>

definition cites :: "penv \<Rightarrow> nat \<Rightarrow> worker_event list \<Rightarrow> worker_event \<Rightarrow> bool" where
  "cites E n es e \<longleftrightarrow> (\<exists>i. vd_evidence e = Some i \<and> i \<in> e_mint E ` {..<n}
     \<and> (\<forall>x \<in> set es. ve_event_id x = i \<longrightarrow>
          vd_terminal_id x = vd_terminal_id e \<and> vd_decision x = None \<and> ve_seq x < ve_seq e))"

definition pinv :: "penv \<Rightarrow> pworld \<Rightarrow> bool" where
  "pinv E w \<longleftrightarrow> events_ok (pw_events w) \<and> states_ok (pw_states w) \<and> findings_fresh E w
     \<and> (\<forall>r \<in> set (pw_states w). row_ok r \<and> pj_last_event_seq r \<le> high_water (pj_terminal_id r) (pw_events w))
     \<and> (\<forall>e \<in> set (ev_rows (pw_events w)). ve_event_id e \<in> e_mint E ` {..<pw_ids w})
     \<and> (\<forall>e \<in> set (ev_rows (pw_events w)). vd_decision e \<in> Some ` set STATUS_DECISIONS \<longrightarrow>
          cites E (pw_ids w) (ev_rows (pw_events w)) e)"

definition env_ok :: "penv \<Rightarrow> bool" where
  "env_ok E \<longleftrightarrow> inj (e_mint E) \<and> (\<forall>n. e_mint E n \<noteq> [])"

lemma pinvD:
  assumes "pinv E w"
  shows "events_ok (pw_events w)" "states_ok (pw_states w)" "findings_fresh E w"
    "r \<in> set (pw_states w) \<Longrightarrow> row_ok r"
    "r \<in> set (pw_states w) \<Longrightarrow> pj_last_event_seq r \<le> high_water (pj_terminal_id r) (pw_events w)"
    "e \<in> set (ev_rows (pw_events w)) \<Longrightarrow> ve_event_id e \<in> e_mint E ` {..<pw_ids w}"
  using assms by (auto simp: pinv_def)

lemma cites_mono: "cites E n es e \<Longrightarrow> n \<le> k \<Longrightarrow> set es' \<subseteq> set es \<Longrightarrow> cites E k es' e"
  unfolding cites_def by (meson image_mono lessThan_subset_iff subsetD)

lemma minted_mono: "i \<in> e_mint E ` {..<n} \<Longrightarrow> n \<le> k \<Longrightarrow> i \<in> e_mint E ` {..<k}"
  by auto

lemma pinv_calm:
  assumes "env_ok E" "pinv E w" "calm E w w'"
  shows "pinv E w'"
proof -
  have "findings_fresh E w'" using assms by (simp add: calm_def env_ok_def pinv_def)
  then show ?thesis
    using assms(2) calmD[OF assms(3)] cites_mono minted_mono unfolding pinv_def by (metis order_refl)
qed

lemma pinv_fields:
  "pinv E (w\<lparr>pw_health := h\<rparr>) = pinv E w" "pinv E (w\<lparr>pw_registry := g\<rparr>) = pinv E w"
  "pinv E (w\<lparr>pw_published := ps\<rparr>) = pinv E w" "pinv E (w\<lparr>pw_episodes := ep\<rparr>) = pinv E w"
  "pinv E (w\<lparr>pw_reads := n\<rparr>) = pinv E w"
  by (simp_all add: pinv_def findings_fresh_def)

lemma row_ok_columns:
  "row_ok (projected_columns p r) = row_ok p"
  "row_ok (r\<lparr>pj_last_probe_at := a, pj_pane_present := b, pj_pane_pid := c, pj_miss_count := d\<rparr>) = row_ok r"
  "row_ok (r\<lparr>pj_last_source_probe_at := a\<rparr>) = row_ok r" "row_ok (ProjectedState t u)"
  "pj_last_event_seq (ProjectedState t u) = 0" "pj_terminal_id (ProjectedState t u) = t"
  by (simp_all add: row_ok_def ProjectedState_def)

lemma pinv_insert_or_update:
  assumes "pinv E w" "row_ok new" "pj_last_event_seq new \<le> high_water (pj_terminal_id new) (pw_events w)"
    and "\<And>r. pj_terminal_id (f r) = pj_terminal_id r"
    and "\<And>r. r \<in> set (pw_states w) \<Longrightarrow> pj_terminal_id r = pj_terminal_id new \<Longrightarrow>
      row_ok (f r) \<and> pj_last_event_seq (f r) \<le> high_water (pj_terminal_id r) (pw_events w)"
  shows "pinv E (w\<lparr>pw_states := insert_or_update new f (pw_states w)\<rparr>)"
proof -
  have "row_ok r \<and> pj_last_event_seq r \<le> high_water (pj_terminal_id r) (pw_events w)"
    if "r \<in> set (insert_or_update new f (pw_states w))" for r
    using set_insert_or_update[OF that] assms pinvD(4,5)[OF assms(1)] by metis
  then show ?thesis
    using assms(1) insert_or_update_ok[of "pw_states w" f new] assms(4)
    by (simp add: pinv_def findings_fresh_def)
qed

lemma pinv_save_row:
  assumes "pinv E w" "row_ok r" "pj_last_event_seq r \<le> high_water (pj_terminal_id r) (pw_events w)"
  shows "pinv E (save_row r w)"
  unfolding save_row_def upsert_def
  by (rule pinv_insert_or_update) (use assms in \<open>simp_all add: row_ok_columns\<close>)

lemma pinv_touch:
  assumes "pinv E w"
  shows "pinv E (w\<lparr>pw_states := touch_probe t at present pid miss (pw_states w)\<rparr>)"
    "pinv E (w\<lparr>pw_states := touch_source_probe t at (pw_states w)\<rparr>)"
proof -
  have hw: "0 \<le> high_water u (pw_events w)" for u using events_okD(5)[OF pinvD(1)[OF assms]] .
  have old: "row_ok r \<and> pj_last_event_seq r \<le> high_water (pj_terminal_id r) (pw_events w)"
    if "r \<in> set (pw_states w)" for r using pinvD(4,5)[OF assms] that by blast
  show "pinv E (w\<lparr>pw_states := touch_probe t at present pid miss (pw_states w)\<rparr>)"
    unfolding touch_probe_def
    by (rule pinv_insert_or_update[OF assms]) (use hw old in \<open>auto simp: row_ok_columns\<close>)
  show "pinv E (w\<lparr>pw_states := touch_source_probe t at (pw_states w)\<rparr>)"
    unfolding touch_source_probe_def
    by (rule pinv_insert_or_update[OF assms]) (use hw old in \<open>auto simp: row_ok_columns\<close>)
qed

lemma pinv_prune:
  assumes "pinv E w"
  shows "pinv E (w\<lparr>pw_events := snd (prune_events t fs (pw_events w))\<rparr>)"
proof -
  have "set (ev_rows (snd (prune_events t fs (pw_events w)))) \<subseteq> set (ev_rows (pw_events w))"
    "high_water u (snd (prune_events t fs (pw_events w))) = high_water u (pw_events w)" for u
    by (auto simp: prune_events_def high_water_def)
  then show ?thesis
    using assms prune_events_ok[of "pw_events w" t fs] cites_mono
    unfolding pinv_def by (simp add: findings_fresh_def) (meson order_refl subsetD)
qed

section \<open>Appends\<close>

definition after_tx :: "penv \<Rightarrow> event_draft \<Rightarrow> pworld \<Rightarrow> pworld" where
  "after_tx E d w = w\<lparr>pw_reads := pw_reads w + 1, pw_ids := pw_ids w + 1,
     pw_events := snd (append_tx (e_mint E (pw_ids w)) (e_clock E (pw_reads w)) d (pw_events w))\<rparr>"

lemma append_event_calm: "calm E (after_tx E d w) (snd (append_event E d w))"
proof (cases rule: append_tx_cases[of "e_mint E (pw_ids w)" "e_clock E (pw_reads w)" d "pw_events w"])
  case (written e)
  then show ?thesis
    using calm.R_on_append[of E "after_tx E d w" "register_phase1_checks []" e]
    by (simp add: append_event_def after_tx_def read_clock_def)
qed (simp_all add: append_event_def after_tx_def read_clock_def calm.R_refl)

text \<open>An append without an idempotency key always succeeds: the minted id and the next number are free.\<close>

lemma append_event_fresh:
  assumes "env_ok E" "pinv E w" "vd_idempotency_key d = None"
  shows "\<exists>e. e = mk_event d (e_mint E (pw_ids w)) (high_water (vd_terminal_id d) (pw_events w) + 1) (e_clock E (pw_reads w))
     \<and> append_event E d w = (Inr e, on_append E (register_phase1_checks []) e (after_tx E d w))
     \<and> pw_events (after_tx E d w) = (pw_events w)\<lparr>ev_marks := (ev_marks (pw_events w))(vd_terminal_id d := Some (ve_seq e)),
          ev_rows := ev_rows (pw_events w) @ [e]\<rparr>"
proof -
  let ?e = "mk_event d (e_mint E (pw_ids w)) (high_water (vd_terminal_id d) (pw_events w) + 1) (e_clock E (pw_reads w))"
  have "\<not> conflicts ?e x" if x: "x \<in> set (ev_rows (pw_events w))" for x
  proof -
    have "ve_event_id x \<noteq> e_mint E (pw_ids w)"
      using pinvD(6)[OF assms(2) x] assms(1) by (auto simp: env_ok_def dest: injD)
    moreover have "ve_seq x \<le> high_water (vd_terminal_id x) (pw_events w)"
      using events_okD(4)[OF pinvD(1)[OF assms(2)] x] .
    ultimately show ?thesis using assms(3) by (auto simp: conflicts_def)
  qed
  then have "append_tx (e_mint E (pw_ids w)) (e_clock E (pw_reads w)) d (pw_events w) = (Inr (?e, True),
      (pw_events w)\<lparr>ev_marks := (ev_marks (pw_events w))(vd_terminal_id d := Some (ve_seq ?e)),
          ev_rows := ev_rows (pw_events w) @ [?e]\<rparr>)"
    using assms(3) by (auto simp: append_tx_def Let_def)
  then show ?thesis by (simp add: append_event_def after_tx_def read_clock_def)
qed

lemma pinv_after_tx:
  assumes env: "env_ok E" and inv: "pinv E w" and d: "EventDraft d = Inr d"
    and cite: "vd_decision d \<in> Some ` set STATUS_DECISIONS \<Longrightarrow> \<exists>x \<in> set (ev_rows (pw_events w)).
      vd_evidence d = Some (ve_event_id x) \<and> vd_terminal_id x = vd_terminal_id d \<and> vd_decision x = None"
  shows "pinv E (after_tx E d w)"
proof -
  let ?st = "pw_events w" and ?n = "pw_ids w"
  let ?st' = "snd (append_tx (e_mint E ?n) (e_clock E (pw_reads w)) d ?st)"
  have ok: "events_ok ?st'" using append_tx_ok[OF pinvD(1)[OF inv] d] env by (simp add: env_ok_def)
  have marks: "high_water t ?st \<le> high_water t ?st'" for t using append_tx_grows by (simp add: log_grows_def)
  have old: "ve_event_id x \<in> e_mint E ` {..<?n}" if "x \<in> set (ev_rows ?st)" for x using pinvD(6)[OF inv that] .
  have cites_old: "cites E ?n (ev_rows ?st) x" if "x \<in> set (ev_rows ?st)" "vd_decision x \<in> Some ` set STATUS_DECISIONS" for x
    using inv that by (simp add: pinv_def)
  have same: "ve_event_id x \<in> e_mint E ` {..<Suc ?n} \<and>
      (vd_decision x \<in> Some ` set STATUS_DECISIONS \<longrightarrow> cites E (Suc ?n) (ev_rows ?st) x)" if "x \<in> set (ev_rows ?st)" for x
    using minted_mono[OF old[OF that], of "Suc ?n"] cites_mono[OF cites_old[OF that], of "Suc ?n"] by simp
  have new: "ve_event_id x \<in> e_mint E ` {..<Suc ?n} \<and>
      (vd_decision x \<in> Some ` set STATUS_DECISIONS \<longrightarrow> cites E (Suc ?n) (ev_rows ?st') x)" if x: "x \<in> set (ev_rows ?st')" for x
  proof (cases rule: append_tx_cases[of "e_mint E ?n" "e_clock E (pw_reads w)" d ?st])
    case (written e)
    have rows: "set (ev_rows ?st') = insert e (set (ev_rows ?st))" using written(2) by simp
    have fresh: "ve_event_id e \<notin> e_mint E ` {..<?n}" using env by (auto simp: written(1) env_ok_def dest: injD)
    have keep: "cites E (Suc ?n) (ev_rows ?st') y" if "cites E ?n (ev_rows ?st) y" for y
      using that fresh unfolding cites_def rows by (metis insert_iff lessThan_Suc_eq_insert_0 minted_mono le_SucI order_refl)
    show ?thesis
    proof (cases "x \<in> set (ev_rows ?st)")
      case True
      then show ?thesis using same keep cites_old by simp
    next
      case False
      then have e: "x = e" using x rows by simp
      have "cites E ?n (ev_rows ?st) e" if dec: "vd_decision e \<in> Some ` set STATUS_DECISIONS"
      proof -
        obtain y where y: "y \<in> set (ev_rows ?st)" "vd_evidence d = Some (ve_event_id y)"
            "vd_terminal_id y = vd_terminal_id d" "vd_decision y = None"
          using cite dec by (auto simp: written(1))
        have "z = y" if "z \<in> set (ev_rows ?st)" "ve_event_id z = ve_event_id y" for z
          using key_unique[OF events_okD(1)[OF pinvD(1)[OF inv]] that(1) y(1) that(2)] .
        then show ?thesis
          using y old events_okD(4)[OF pinvD(1)[OF inv] y(1)] unfolding cites_def by (auto simp: written(1))
      qed
      then show ?thesis using e keep by (auto simp: written(1))
    qed
  qed (use x same in simp_all)
  show ?thesis
    using inv ok new marks order_trans[OF pinvD(5)[OF inv] marks] minted_mono
    unfolding pinv_def after_tx_def findings_fresh_def by (auto 0 3)
qed

lemma pinv_append_event:
  assumes "env_ok E" "pinv E w" "EventDraft d = Inr d"
    and "vd_decision d \<in> Some ` set STATUS_DECISIONS \<Longrightarrow> \<exists>x \<in> set (ev_rows (pw_events w)).
      vd_evidence d = Some (ve_event_id x) \<and> vd_terminal_id x = vd_terminal_id d \<and> vd_decision x = None"
  shows "pinv E (snd (append_event E d w))"
  using pinv_calm[OF assms(1) pinv_after_tx[OF assms] append_event_calm] .

section \<open>The abstract machine\<close>

text \<open>What one observation means for state, reason and prior state: a recovery restores the prior state, a
  repeated state can only raise the reason, entering \<open>DEGRADED\<close> remembers where from, and leaving it
  forgets both.\<close>

definition worse :: "degraded_reason option \<Rightarrow> degraded_reason option \<Rightarrow> degraded_reason option" where
  "worse r incoming = (case incoming of None \<Rightarrow> r | Some x \<Rightarrow> if reason_rises r x then Some x else r)"

definition machine ::
  "worker_state \<times> degraded_reason option \<times> worker_state option \<Rightarrow> worker_event
   \<Rightarrow> worker_state \<times> degraded_reason option \<times> worker_state option" where
  "machine a e =
     (case a of (s, r, p) \<Rightarrow>
      if vd_kind e = EK PANE_RECOVERED then (case p of Some q \<Rightarrow> (q, None, None) | None \<Rightarrow> (s, r, p))
      else case target e of
        (None, _) \<Rightarrow> (s, r, p)
      | (Some t, reason) \<Rightarrow>
          if t = s then (s, worse r reason, p)
          else if t = DEGRADED then (DEGRADED, reason, Some s) else (t, None, None))"

definition triple :: "projection \<Rightarrow> worker_state \<times> degraded_reason option \<times> worker_state option" where
  "triple r = (pj_state r, pj_degraded_reason r, pj_prior_state r)"

definition next_row :: "bool \<Rightarrow> projection \<Rightarrow> worker_event \<Rightarrow> projection" where
  "next_row muted row e =
     (let (s, r, p) = (if muted then triple row else machine (triple row) e) in
      row\<lparr>pj_state := s, pj_since := (if s = pj_state row then pj_since row else ve_ingested_at e),
          pj_last_event_seq := ve_seq e, pj_degraded_reason := r, pj_prior_state := p\<rparr>)"

lemma target_reason: "target e = (Some t, reason) \<Longrightarrow> t = DEGRADED \<longleftrightarrow> reason \<noteq> None"
  by (auto simp: target_def Let_def split: option.splits if_splits dest!: answered_state_clamped) metis+

lemma validate_eq:
  "validate strict s t = (if strict \<and> TRANSITIONS (s, t) = Some ANOMALOUS then Inl ValueError
     else Inr (the (TRANSITIONS (s, t))))"
  using TRANSITIONS_total[of s t] by (auto simp: validate_def)

lemma next_row_sel [simp]:
  "pj_terminal_id (next_row m row e) = pj_terminal_id row" "pj_last_event_seq (next_row m row e) = ve_seq e"
  "pj_last_probe_at (next_row m row e) = pj_last_probe_at row"
  "pj_last_source_probe_at (next_row m row e) = pj_last_source_probe_at row"
  "pj_pane_pid (next_row m row e) = pj_pane_pid row" "pj_pane_present (next_row m row e) = pj_pane_present row"
  "pj_miss_count (next_row m row e) = pj_miss_count row"
  by (simp_all add: next_row_def split: prod.splits)

lemma next_row_ok:
  assumes "row_ok row" "0 \<le> ve_seq e"
  shows "row_ok (next_row m row e)"
proof -
  have "row_ok (next_row False row e)"
    using assms target_reason[of e]
    by (auto simp: next_row_def machine_def triple_def row_ok_def worse_def
        split: option.splits prod.splits if_splits)
  moreover have "row_ok (next_row True row e)"
    using assms by (auto simp: next_row_def triple_def row_ok_def)
  ultimately show ?thesis by (cases m) simp_all
qed

section \<open>The effect of the rules\<close>

definition observations :: "estore \<Rightarrow> worker_event list" where
  "observations st = filter (\<lambda>e. vd_decision e = None) (ev_rows st)"

definition moved :: "penv \<Rightarrow> projection \<Rightarrow> pworld \<Rightarrow> pworld \<Rightarrow> bool" where
  "moved E r w w' \<longleftrightarrow> pinv E w' \<and> pw_states w' = upsert r (pw_states w) \<and> pw_registry w' = pw_registry w
     \<and> pw_health w' = pw_health w \<and> pw_published w' = pw_published w
     \<and> set (ev_rows (pw_events w)) \<subseteq> set (ev_rows (pw_events w'))
     \<and> observations (pw_events w') = observations (pw_events w)"

lemma moved_save:
  assumes "pinv E w" "row_ok r" "pj_last_event_seq r \<le> high_water (pj_terminal_id r) (pw_events w)"
  shows "moved E r w (save_row r w)"
  using pinv_save_row[OF assms] by (simp add: moved_def save_row_def)

lemma moved_calm:
  assumes "env_ok E" "moved E r w w1" "calm E w1 w2"
  shows "moved E r w w2"
  using assms(2) pinv_calm[OF assms(1) _ assms(3)] calmD[OF assms(3)] by (simp add: moved_def)

definition flagged :: "string \<Rightarrow> worker_state \<Rightarrow> worker_state \<Rightarrow> pworld \<Rightarrow> bool" where
  "flagged tid s t w \<longleftrightarrow> (\<exists>f \<in> set (pw_findings w).
     same_open DIAG_BAD_TRANSITION tid (worker_state_value s @ ''->'' @ worker_state_value t) f)"

lemma on_append_flags:
  assumes "env_ok E" "findings_fresh E w" "vd_decision e \<in> Some ` set TRANSITION_ROW_KINDS"
    "payload_str (vd_payload e) ''from'' = Some (worker_state_value s)"
    "payload_str (vd_payload e) ''to'' = Some (worker_state_value t)" "TRANSITIONS (s, t) = Some ANOMALOUS"
  shows "flagged (vd_terminal_id e) s t (on_append E (register_phase1_checks []) e w)"
proof -
  define w1 where "w1 = on_append E [(DIAG_GHOST_TRANSITION, ghost_transition_check)] e w"
  have "findings_fresh E w1"
    using calm.R_on_append[of E w] assms(1,2) unfolding w1_def calm_def env_ok_def by blast
  then have "flagged (vd_terminal_id e) s t (on_append E [(DIAG_BAD_TRANSITION, bad_transition_check)] e w1)"
    using note_finding_effect[of E w1] assms
    by (auto simp: flagged_def bad_transition_check_def env_ok_def) (metis snd_conv)
  moreover have "on_append E (register_phase1_checks []) e w =
      on_append E [(DIAG_BAD_TRANSITION, bad_transition_check)] e w1"
    by (simp add: w1_def register_phase1_checks_def register_def split: option.splits)
  ultimately show ?thesis by simp
qed

lemma append_decision_effect:
  assumes env: "env_ok E" and m: "moved E r w w1" and c: "cause \<in> set (ev_rows (pw_events w))" "vd_decision cause = None"
    and k: "k \<in> set STATUS_DECISIONS"
  shows "\<exists>i w2. append_decision E k cause p at w1 = (Inr i, w2) \<and> moved E r w w2
     \<and> (\<forall>s t. k \<in> set TRANSITION_ROW_KINDS \<and> payload_str p ''from'' = Some (worker_state_value s)
          \<and> payload_str p ''to'' = Some (worker_state_value t) \<and> TRANSITIONS (s, t) = Some ANOMALOUS
          \<longrightarrow> flagged (vd_terminal_id cause) s t w2)"
proof -
  obtain now w1' where o: "(case at of Some t \<Rightarrow> (t, w1) | None \<Rightarrow> read_clock E w1) = (now, w1')" by fastforce
  have "calm E w1 w1'" using o calm.R_clock[of E w1] by (auto simp: calm.R_refl split: option.splits)
  then have m': "moved E r w w1'" using moved_calm[OF env m] by simp
  let ?d = "decision_draft k cause p now"
  have inv: "pinv E w1'" and c': "cause \<in> set (ev_rows (pw_events w1'))" using m' c by (auto simp: moved_def)
  have d: "EventDraft ?d = Inr ?d"
    using events_okD(3)[OF pinvD(1)[OF inv] c']
    by (auto simp: decision_draft_def EventDraft_def WorkerEvent_def check_decision_shape_def event_draft.defs
        split: if_splits sum.splits)
  obtain e where e: "e = mk_event ?d (e_mint E (pw_ids w1')) (high_water (vd_terminal_id ?d) (pw_events w1') + 1) (e_clock E (pw_reads w1'))"
    "append_event E ?d w1' = (Inr e, on_append E (register_phase1_checks []) e (after_tx E ?d w1'))"
    "pw_events (after_tx E ?d w1') = (pw_events w1')\<lparr>ev_marks := (ev_marks (pw_events w1'))(vd_terminal_id ?d := Some (ve_seq e)),
        ev_rows := ev_rows (pw_events w1') @ [e]\<rparr>"
    using append_event_fresh[OF env inv, of ?d] by (auto simp: decision_draft_def)
  have inv2: "pinv E (after_tx E ?d w1')"
    using pinv_after_tx[OF env inv d] c' c(2) by (auto simp: decision_draft_def)
  then have "moved E r w (after_tx E ?d w1')"
    using m' e(3) by (auto simp: moved_def after_tx_def observations_def e(1) decision_draft_def)
  then have "moved E r w (on_append E (register_phase1_checks []) e (after_tx E ?d w1'))"
    using moved_calm[OF env _ calm.R_on_append] by blast
  moreover have "flagged (vd_terminal_id cause) s t (on_append E (register_phase1_checks []) e (after_tx E ?d w1'))"
    if "k \<in> set TRANSITION_ROW_KINDS" "payload_str p ''from'' = Some (worker_state_value s)"
      "payload_str p ''to'' = Some (worker_state_value t)" "TRANSITIONS (s, t) = Some ANOMALOUS" for s t
    using on_append_flags[OF env pinvD(3)[OF inv2], of e s t] that by (simp add: e(1) decision_draft_def)
  ultimately show ?thesis
    using o d e(2) by (auto simp: append_decision_def andthen_def return_act_def)
qed

definition outcome_ok :: "outcome \<Rightarrow> projection \<Rightarrow> projection \<Rightarrow> pworld \<Rightarrow> bool" where
  "outcome_ok oc row row' w' \<longleftrightarrow> po_terminal_id oc = pj_terminal_id row
     \<and> (po_applied oc \<longleftrightarrow> triple row' \<noteq> triple row)
     \<and> (po_applied oc \<longrightarrow> po_to_state oc = Some (pj_state row'))
     \<and> (TRANSITIONS (pj_state row, pj_state row') = Some ANOMALOUS \<longrightarrow>
          flagged (pj_terminal_id row) (pj_state row) (pj_state row') w')"

lemma not_anomalous [simp]: "TRANSITIONS (s, s) \<noteq> Some ANOMALOUS"
  using TRANSITIONS_diag[of s s] by simp

text \<open>The situation of a fold: the event is a stored observation and the row is one the table could hold.\<close>

definition foldable :: "penv \<Rightarrow> pworld \<Rightarrow> worker_event \<Rightarrow> projection \<Rightarrow> bool" where
  "foldable E w e row \<longleftrightarrow> env_ok E \<and> pinv E w \<and> e \<in> set (ev_rows (pw_events w)) \<and> vd_decision e = None
     \<and> row_ok row \<and> pj_terminal_id row = vd_terminal_id e"

lemma foldable_calm: "foldable E w e row \<Longrightarrow> calm E w w' \<Longrightarrow> foldable E w' e row"
  using pinv_calm[of E w w'] calmD(1)[of E w w'] by (simp add: foldable_def)

lemma foldable_save:
  assumes "foldable E w e row"
  shows "moved E (next_row m row e) w (save_row (next_row m row e) w)"
proof -
  have "1 \<le> ve_seq e" "ve_seq e \<le> high_water (vd_terminal_id e) (pw_events w)"
    using assms events_okD(3,4)[OF pinvD(1)[of E w], of e]
    by (auto simp: foldable_def WorkerEvent_def split: if_splits)
  then show ?thesis
    using assms next_row_ok[of row e m] by (intro moved_save) (auto simp: foldable_def)
qed

lemma foldable_decide:
  assumes "foldable E w e row" "k \<in> set STATUS_DECISIONS"
  shows "\<exists>i w2. append_decision E k e p at (save_row (next_row m row e) w) = (Inr i, w2) \<and> moved E (next_row m row e) w w2
     \<and> (\<forall>s t. k \<in> set TRANSITION_ROW_KINDS \<and> payload_str p ''from'' = Some (worker_state_value s)
          \<and> payload_str p ''to'' = Some (worker_state_value t) \<and> TRANSITIONS (s, t) = Some ANOMALOUS
          \<longrightarrow> flagged (vd_terminal_id e) s t w2)"
  using append_decision_effect[OF _ foldable_save[OF assms(1)] _ _ assms(2)] assms(1) by (simp add: foldable_def)

lemma diagonal_effect:
  assumes f: "foldable E w e row" and k: "vd_kind e \<noteq> EK PANE_RECOVERED" and t: "target e = (Some (pj_state row), reason)"
  shows "\<exists>oc w'. diagonal E row e (pj_state row) reason w = (Inr oc, w') \<and> moved E (next_row False row e) w w'
     \<and> outcome_ok oc row (next_row False row e) w'"
proof (cases "\<exists>r. reason = Some r \<and> reason_rises (pj_degraded_reason row) r")
  case True
  then obtain r where r: "reason = Some r" "reason_rises (pj_degraded_reason row) r" by blast
  have d: "pj_state row = DEGRADED" using target_reason[OF t] r(1) by simp
  have row': "next_row False row e = row\<lparr>pj_degraded_reason := Some r, pj_last_event_seq := ve_seq e\<rparr>"
    using k t r by (simp add: next_row_def machine_def triple_def worse_def)
  have ne: "triple (next_row False row e) \<noteq> triple row"
    using r(2) by (cases "pj_degraded_reason row") (auto simp: row' triple_def)
  let ?p = "[(''from_reason'', json_reason (pj_degraded_reason row)),
    (''to_reason'', JStr (degraded_reason_value r)), (''rule'', JStr ''reason_rise'')]"
  obtain i w2 where a: "append_decision E STATUS_REASON_CHANGED e ?p None (save_row (next_row False row e) w) = (Inr i, w2)"
      "moved E (next_row False row e) w w2"
    using foldable_decide[OF f, of STATUS_REASON_CHANGED ?p None False] by (auto simp: STATUS_DECISIONS_def)
  show ?thesis
    using a ne d r f
    by (simp add: diagonal_def andthen_def return_act_def outcome_ok_def ProjectionOutcome_def row'[symmetric] foldable_def)
      (simp add: row')
next
  case False
  then have row': "next_row False row e = row\<lparr>pj_last_event_seq := ve_seq e\<rparr>"
    using k t by (simp add: next_row_def machine_def triple_def worse_def split: option.splits)
  show ?thesis
    using foldable_save[OF f, of False] False f
    by (auto simp: diagonal_def outcome_ok_def ProjectionOutcome_def row' triple_def foldable_def split: option.splits)
qed

lemma transition_effect:
  assumes f: "foldable E w e row" and k: "vd_kind e \<noteq> EK PANE_RECOVERED"
  shows "if e_strict E \<and> TRANSITIONS (pj_state row, pj_state (next_row False row e)) = Some ANOMALOUS
    then transition E row e w = (Inl ValueError, w)
    else \<exists>oc w'. transition E row e w = (Inr oc, w') \<and> moved E (next_row False row e) w w'
      \<and> outcome_ok oc row (next_row False row e) w'"
proof (cases "target e")
  case (Pair t' reason)
  show ?thesis
  proof (cases t')
    case None
    then have row': "next_row False row e = row\<lparr>pj_last_event_seq := ve_seq e\<rparr>"
      using k Pair by (simp add: next_row_def machine_def triple_def)
    have na: "TRANSITIONS (pj_state row, pj_state row) \<noteq> Some ANOMALOUS" using TRANSITIONS_diag[of "pj_state row" "pj_state row"] by simp
    show ?thesis
      using foldable_save[OF f, of False] f na Pair None
      by (simp add: row' transition_def outcome_ok_def ProjectionOutcome_def triple_def foldable_def)
  next
    case (Some t)
    show ?thesis
    proof (cases "t = pj_state row")
      case True
      then have s: "pj_state (next_row False row e) = pj_state row"
        using k Pair Some by (simp add: next_row_def machine_def triple_def)
      have n: "TRANSITIONS (pj_state row, pj_state row) = Some NO_OP" using TRANSITIONS_diag by simp
      then have v: "validate (e_strict E) (pj_state row) (pj_state row) = Inr NO_OP" by (simp add: validate_eq)
      have "transition E row e w = diagonal E row e (pj_state row) reason w"
        using Pair Some True v by (simp add: transition_def del: validate_NO_OP)
      then show ?thesis
        using diagonal_effect[OF f k, of reason] Pair Some True s n by simp
    next
      case False
      define c where "c = the (TRANSITIONS (pj_state row, t))"
      have c: "TRANSITIONS (pj_state row, t) = Some c" "c \<noteq> NO_OP"
        using TRANSITIONS_total[of "pj_state row" t] TRANSITIONS_diag[of "pj_state row" t] False by (auto simp: c_def)
      have row': "next_row False row e = row\<lparr>pj_state := t, pj_since := ve_ingested_at e, pj_last_event_seq := ve_seq e,
          pj_degraded_reason := (if t = DEGRADED then reason else None),
          pj_prior_state := (if t = DEGRADED then Some (pj_state row) else None)\<rparr>"
        using k Pair Some False by (auto simp: next_row_def machine_def triple_def)
      have ne: "triple (next_row False row e) \<noteq> triple row" using False by (simp add: row' triple_def)
      let ?p = "[(''from'', json_state (pj_state row)), (''to'', json_state t), (''rule'', JStr ''applied''),
        (''classification'', JStr (transition_class_value c)), (''degraded_reason'', json_reason reason)]"
      have p: "payload_str ?p ''from'' = Some (worker_state_value (pj_state row))"
        "payload_str ?p ''to'' = Some (worker_state_value t)"
        by (simp_all add: payload_str_def json_state_def)
      obtain i w2 where a: "append_decision E STATUS_TRANSITION e ?p None (save_row (next_row False row e) w) = (Inr i, w2)"
          "moved E (next_row False row e) w w2" "c = ANOMALOUS \<Longrightarrow> flagged (vd_terminal_id e) (pj_state row) t w2"
        using foldable_decide[OF f, of STATUS_TRANSITION ?p None False] p c(1)
        by (auto simp: STATUS_DECISIONS_def TRANSITION_ROW_KINDS_def)
      show ?thesis
      proof (cases "e_strict E \<and> c = ANOMALOUS")
        case True
        then show ?thesis using Pair Some c by (simp add: transition_def validate_eq row')
      next
        case False
        then have v: "validate (e_strict E) (pj_state row) t = Inr c" using c by (simp add: validate_eq)
        have tr: "transition E row e w = (Inr ((ProjectionOutcome (vd_terminal_id e) ''applied'' True)\<lparr>
            po_from_state := Some (pj_state row), po_to_state := Some t, po_classification := Some c,
            po_decision_event_id := Some i\<rparr>), w2)"
          using Pair Some v c(2) a(1) by (simp add: transition_def andthen_def return_act_def row')
        have "pj_state (next_row False row e) = t" by (simp add: row')
        then show ?thesis
          using tr a(2,3) ne f c(1) False by (auto simp: outcome_ok_def ProjectionOutcome_def foldable_def)
      qed
    qed
  qed
qed

lemma recover_effect:
  assumes f: "foldable E w e row" and k: "vd_kind e = EK PANE_RECOVERED"
  shows "if e_strict E \<and> TRANSITIONS (pj_state row, pj_state (next_row False row e)) = Some ANOMALOUS
    then recover E row e w = (Inl ValueError, w)
    else \<exists>oc w'. recover E row e w = (Inr oc, w') \<and> moved E (next_row False row e) w w'
      \<and> outcome_ok oc row (next_row False row e) w'"
proof (cases "pj_state row = DEGRADED")
  case False
  then have p: "pj_prior_state row = None" using f by (auto simp: foldable_def row_ok_def)
  then have row': "next_row False row e = row\<lparr>pj_last_event_seq := ve_seq e\<rparr>"
    using k by (simp add: next_row_def machine_def triple_def)
  have na: "TRANSITIONS (pj_state row, pj_state row) \<noteq> Some ANOMALOUS" using TRANSITIONS_diag[of "pj_state row" "pj_state row"] by simp
  show ?thesis
    using foldable_save[OF f, of False] f False na
    by (simp add: row' recover_def outcome_ok_def ProjectionOutcome_def triple_def foldable_def)
next
  case True
  then obtain t where t: "pj_prior_state row = Some t" "t \<noteq> DEGRADED" using f by (auto simp: foldable_def row_ok_def)
  define c where "c = the (TRANSITIONS (DEGRADED, t))"
  have c: "TRANSITIONS (DEGRADED, t) = Some c" using TRANSITIONS_total[of DEGRADED t] by (auto simp: c_def)
  have row': "next_row False row e = row\<lparr>pj_state := t, pj_since := ve_ingested_at e, pj_last_event_seq := ve_seq e,
      pj_degraded_reason := None, pj_prior_state := None\<rparr>"
    using k t True by (simp add: next_row_def machine_def triple_def)
  have ne: "triple (next_row False row e) \<noteq> triple row" using t True by (simp add: row' triple_def)
  let ?p = "[(''from'', json_state (pj_state row)), (''to'', json_state t), (''rule'', JStr ''recovered''),
    (''classification'', JStr (transition_class_value c)), (''restored_reason'', json_reason (pj_degraded_reason row))]"
  have p: "payload_str ?p ''from'' = Some (worker_state_value (pj_state row))"
    "payload_str ?p ''to'' = Some (worker_state_value t)"
    by (simp_all add: payload_str_def json_state_def)
  obtain i w2 where a: "append_decision E STATUS_RECOVERED e ?p None (save_row (next_row False row e) w) = (Inr i, w2)"
      "moved E (next_row False row e) w w2" "c = ANOMALOUS \<Longrightarrow> flagged (vd_terminal_id e) (pj_state row) t w2"
    using foldable_decide[OF f, of STATUS_RECOVERED ?p None False] p c True
    by (auto simp: STATUS_DECISIONS_def TRANSITION_ROW_KINDS_def)
  show ?thesis
  proof (cases "e_strict E \<and> c = ANOMALOUS")
    case strict: True
    then show ?thesis using True t c by (simp add: recover_def validate_eq row')
  next
    case False
    then have v: "validate (e_strict E) DEGRADED t = Inr c" using c by (simp add: validate_eq)
    have tr: "recover E row e w = (Inr ((ProjectionOutcome (vd_terminal_id e) ''recovered'' True)\<lparr>
        po_from_state := Some (pj_state row), po_to_state := Some t, po_classification := Some c,
        po_decision_event_id := Some i\<rparr>), w2)"
      using True t v a(1) by (simp add: recover_def andthen_def return_act_def row')
    have "pj_state (next_row False row e) = t" by (simp add: row')
    then show ?thesis
      using tr a(2,3) ne f c(1) False True by (auto simp: outcome_ok_def ProjectionOutcome_def foldable_def)
  qed
qed

definition refuses :: "penv \<Rightarrow> bool \<Rightarrow> projection \<Rightarrow> worker_event \<Rightarrow> bool" where
  "refuses E muted row e \<longleftrightarrow> \<not> muted \<and> e_strict E
     \<and> TRANSITIONS (pj_state row, pj_state (next_row False row e)) = Some ANOMALOUS"

lemma moved_after_calm:
  assumes "calm E w w1" "moved E r w1 w2"
  shows "moved E r w w2"
  using assms calmD[OF assms(1)] by (simp add: moved_def)

lemma apply_event_effect:
  assumes f: "foldable E w e row"
  defines "muted \<equiv> fst (is_muted E row e w)"
  shows "if refuses E muted row e
    then apply_event E row e w = (Inl ValueError, snd (is_muted E row e w))
    else \<exists>oc w'. apply_event E row e w = (Inr oc, w') \<and> moved E (next_row muted row e) w w'
      \<and> outcome_ok oc row (next_row muted row e) w'"
proof -
  obtain m w1 where m: "is_muted E row e w = (m, w1)" by fastforce
  have q: "calm E w w1" using calm.R_is_muted[of E w row e] m by simp
  have f1: "foldable E w1 e row" using foldable_calm[OF f q] .
  show ?thesis
  proof (cases m)
    case True
    have row': "next_row True row e = row\<lparr>pj_last_event_seq := ve_seq e\<rparr>"
      by (simp add: next_row_def triple_def)
    let ?w2 = "snd (producer_disagreement E e row (save_row (next_row True row e) w1))"
    have "moved E (next_row True row e) w1 ?w2"
      using moved_calm[OF _ foldable_save[OF f1] calm.R_producer_disagreement] f by (simp add: foldable_def)
    then have "moved E (next_row True row e) w ?w2" using moved_after_calm[OF q] by simp
    then show ?thesis
      using True m f
      by (simp add: muted_def refuses_def apply_event_def row' outcome_ok_def ProjectionOutcome_def triple_def foldable_def)
  next
    case False
    show ?thesis
    proof (cases "vd_kind e = EK PANE_RECOVERED")
      case True
      then show ?thesis
        using recover_effect[OF f1 True] False m moved_after_calm[OF q]
        by (auto simp: muted_def refuses_def apply_event_def split: if_splits)
    next
      case nr: False
      then show ?thesis
        using transition_effect[OF f1 nr] False m moved_after_calm[OF q]
        by (auto simp: muted_def refuses_def apply_event_def split: if_splits)
    qed
  qed
qed

section \<open>One fold\<close>

text \<open>A flag once raised stays up through every later diagnostic.\<close>

lemma record_finding_keeps_open:
  assumes "f \<in> set fs" "same_open c t k f"
  shows "\<exists>g \<in> set (snd (record_finding fid now c' t' k' d s fs)). same_open c t k g"
proof -
  let ?P = "same_open c' t' k'" and ?g = "\<lambda>f. f\<lparr>fi_count := fi_count f + 1, fi_last_seen_at := now, fi_detail := d\<rparr>"
  let ?fs1 = "update_where ?P ?g fs"
  have "snd (record_finding fid now c' t' k' d s fs) \<in> {fs, ?fs1, ?fs1 @ [new_finding fid now c' t' k' d s]}"
    by (simp add: record_finding_def Let_def split: option.splits)
  moreover have "\<exists>g \<in> set ?fs1. same_open c t k g"
  proof
    show "(if ?P f then ?g f else f) \<in> set ?fs1" using assms(1) by (auto simp: set_update_where)
    show "same_open c t k (if ?P f then ?g f else f)" using assms(2) by (simp add: same_open_def)
  qed
  ultimately show ?thesis using assms by auto
qed

interpretation flags: note_relation "\<lambda>w w'. flagged tid s t w \<longrightarrow> flagged tid s t w'" E for tid s t E
proof
  fix w c t' k d s'
  show "flagged tid s t w \<longrightarrow> flagged tid s t (snd (note_finding E c t' k d s' w))"
    using record_finding_keeps_open[of _ "pw_findings w" DIAG_BAD_TRANSITION tid]
    by (auto simp: flagged_def note_finding_def read_clock_def Let_def split: prod.splits sum.splits) (metis snd_conv)+
qed (auto simp: flagged_def)

lemma mark_projected_effect:
  shows "pw_events (mark_projected E t row w) = pw_events w" "pw_states (mark_projected E t row w) = pw_states w"
    "pw_registry (mark_projected E t row w) = pw_registry w" "pw_published (mark_projected E t row w) = pw_published w"
    "pw_health (mark_projected E t row w) = (pw_health w)(t := Some (fst (projected E t row w)))"
  using calmD[OF calm.R_projected[of E w t row]]
  by (simp_all add: mark_projected_def health_mark_def case_prod_beta)

lemma pinv_mark_projected: "env_ok E \<Longrightarrow> pinv E w \<Longrightarrow> pinv E (mark_projected E t row w)"
  using pinv_calm[OF _ _ calm.R_projected, of E w t row]
  by (simp add: mark_projected_def pinv_fields case_prod_beta)

lemma load_ok: "pinv E w \<Longrightarrow> row_ok (load t at w) \<and> pj_terminal_id (load t at w) = t"
  using pinvD(4)[of E w] by (auto simp: load_def row_ok_columns dest: get_state_SomeD split: option.splits)

lemma get_after_upsert:
  assumes "row = load t at w" "pj_terminal_id row' = t" "pj_last_probe_at row' = pj_last_probe_at row"
    "pj_last_source_probe_at row' = pj_last_source_probe_at row" "pj_pane_pid row' = pj_pane_pid row"
    "pj_pane_present row' = pj_pane_present row" "pj_miss_count row' = pj_miss_count row"
  shows "get_state u (upsert row' (pw_states w)) = (if u = t then Some row' else get_state u (pw_states w))"
proof (cases "get_state t (pw_states w)")
  case None
  then show ?thesis using assms(2) by (simp add: get_upsert)
next
  case (Some r)
  then have "row = r" "pj_terminal_id r = t" using assms(1) by (auto simp: load_def dest: get_state_SomeD)
  then have "projected_columns row' r = row'" using assms by (intro projected_columns_self) simp_all
  then show ?thesis using assms(2) Some by (simp add: get_upsert)
qed

definition fold_row :: "pworld \<Rightarrow> worker_event \<Rightarrow> projection" where
  "fold_row w e = load (vd_terminal_id e) (ve_ingested_at e) w"

definition fold_muted :: "penv \<Rightarrow> pworld \<Rightarrow> worker_event \<Rightarrow> bool" where
  "fold_muted E w e = fst (is_muted E (fold_row w e) e (mark_projected E (vd_terminal_id e) (fold_row w e) w))"

lemma fold_section_effect:
  assumes env: "env_ok E" and inv: "pinv E w" and e: "e \<in> set (ev_rows (pw_events w))" "vd_decision e = None"
  defines "row \<equiv> fold_row w e" and "row' \<equiv> next_row (fold_muted E w e) (fold_row w e) e"
    and "w0 \<equiv> mark_projected E (vd_terminal_id e) (fold_row w e) w"
  shows "if refuses E (fold_muted E w e) row e
    then \<exists>w'. fold_section E e w = (Inl ValueError, w') \<and> calm E w0 w'
    else \<exists>oc w1 w'. fold_section E e w = (Inr (oc, intent_of oc (Some (vd_kind e)) w1), w') \<and> moved E row' w0 w1
      \<and> calm E w1 w' \<and> outcome_ok oc row row' w'"
proof -
  have f: "foldable E w0 e row"
    using env pinv_mark_projected[OF env inv] e load_ok[OF inv, of "vd_terminal_id e" "ve_ingested_at e"]
    by (simp add: foldable_def w0_def row_def fold_row_def mark_projected_effect)
  note eff = apply_event_effect[OF f]
  have m: "fst (is_muted E row e w0) = fold_muted E w e" by (simp add: fold_muted_def row_def w0_def)
  show ?thesis
  proof (cases "refuses E (fold_muted E w e) row e")
    case True
    then show ?thesis
      using eff m calm.R_is_muted[of E w0 row e]
      by (simp add: fold_section_def andthen_def Let_def row_def w0_def fold_row_def)
  next
    case False
    then obtain oc w1 where a: "apply_event E row e w0 = (Inr oc, w1)" "moved E row' w0 w1" "outcome_ok oc row row' w1"
      using eff m by (auto simp: row'_def row_def)
    let ?w' = "snd (pane_disagreement E (vd_terminal_id e) w1)"
    have "outcome_ok oc row row' ?w'"
      using a(3) flags.R_pane_disagreement unfolding outcome_ok_def by blast
    moreover have "fold_section E e w = (Inr (oc, intent_of oc (Some (vd_kind e)) w1), ?w')"
      using a(1) by (simp add: fold_section_def andthen_def Let_def row_def w0_def fold_row_def)
    ultimately show ?thesis using False a(2) calm.R_pane_disagreement[of E w1] by auto
  qed
qed

lemma fold_section_inv:
  assumes "env_ok E" "pinv E w" "e \<in> set (ev_rows (pw_events w))" "vd_decision e = None"
  shows "pinv E (snd (fold_section E e w))"
proof -
  let ?w0 = "mark_projected E (vd_terminal_id e) (fold_row w e) w"
  have w0: "pinv E ?w0" using pinv_mark_projected[OF assms(1,2)] .
  show ?thesis
    using fold_section_effect[OF assms] pinv_calm[OF assms(1) w0] pinv_calm[OF assms(1)]
    by (auto simp: moved_def split: if_splits)
qed

text \<open>Publishing changes only the record of what was published.\<close>

lemma deliver_intent_effect:
  shows "pw_events (deliver_intent E i w) = pw_events w" "pw_states (deliver_intent E i w) = pw_states w"
    "pw_registry (deliver_intent E i w) = pw_registry w" "pw_health (deliver_intent E i w) = pw_health w"
    "pw_findings (deliver_intent E i w) = pw_findings w" "pw_ids (deliver_intent E i w) = pw_ids w"
    "pinv E (deliver_intent E i w) = pinv E w"
  by (simp_all add: deliver_intent_def publish_status_def pinv_fields split: option.splits)

lemma get_after_fold:
  assumes "moved E (next_row m (fold_row w e) e) (mark_projected E (vd_terminal_id e) (fold_row w e) w) w1" "pinv E w"
  shows "get_state u (pw_states w1) =
    (if u = vd_terminal_id e then Some (next_row m (fold_row w e) e) else get_state u (pw_states w))"
  using assms(1) get_after_upsert[of "fold_row w e" "vd_terminal_id e" "ve_ingested_at e" w "next_row m (fold_row w e) e" u]
    load_ok[OF assms(2), of "vd_terminal_id e" "ve_ingested_at e"]
  by (simp add: moved_def mark_projected_effect fold_row_def)

section \<open>The sweep\<close>

text \<open>Silent: not exited, nothing heard on any channel for longer than the horizon, and an observation at or
  after the projection's cursor still in the log.\<close>

definition silent :: "time \<Rightarrow> estore \<Rightarrow> projection \<Rightarrow> bool" where
  "silent now st row \<longleftrightarrow> pj_state row \<noteq> EXITED \<and> pj_since row + seconds (NO_SIGNAL_S T0) < now
     \<and> (\<forall>s. pj_last_probe_at row = Some s \<or> pj_last_source_probe_at row = Some s \<longrightarrow> s + seconds (NO_SIGNAL_S T0) < now)
     \<and> 1 \<le> pj_last_event_seq row
     \<and> (\<exists>x \<in> set (ev_rows st). vd_terminal_id x = pj_terminal_id row \<and> vd_decision x = None
          \<and> pj_last_event_seq row \<le> ve_seq x)"

definition silent_row :: "time \<Rightarrow> projection \<Rightarrow> projection" where
  "silent_row now row = (if pj_state row = DEGRADED then row
     else row\<lparr>pj_state := DEGRADED, pj_since := now, pj_degraded_reason := Some NO_SIGNAL,
              pj_prior_state := Some (pj_state row)\<rparr>)"

lemma last_signal_max:
  "\<exists>h. last_signal row = Some h \<and> (h < b \<longleftrightarrow> pj_since row < b
     \<and> (\<forall>s. pj_last_probe_at row = Some s \<or> pj_last_source_probe_at row = Some s \<longrightarrow> s < b))"
  by (cases "pj_last_probe_at row"; cases "pj_last_source_probe_at row") (auto simp: last_signal_def Let_def)

lemma last_event_Some:
  assumes "events_ok st"
  shows "last_event t n st \<noteq> None \<longleftrightarrow> 1 \<le> n \<and> (\<exists>x \<in> set (ev_rows st). vd_terminal_id x = t \<and> vd_decision x = None \<and> n \<le> ve_seq x)"
    and "last_event t n st = Some x \<Longrightarrow> x \<in> set (ev_rows st) \<and> vd_terminal_id x = t \<and> vd_decision x = None"
proof -
  let ?rows = "filter (\<lambda>e. vd_decision e = None) (read_events (Some t) (n - 1) None None None st)"
  have mem: "x \<in> set ?rows \<longleftrightarrow> x \<in> set (ev_rows st) \<and> vd_terminal_id x = t \<and> vd_decision x = None \<and> (n = 1 \<or> n - 1 < ve_seq x)" for x
    by (auto simp: read_events_def read_where_def Let_def)
  have pos: "1 \<le> ve_seq x" if "x \<in> set (ev_rows st)" for x
    using events_okD(3)[OF assms that] by (auto simp: WorkerEvent_def split: if_splits)
  have "last_event t n st \<noteq> None \<longleftrightarrow> 1 \<le> n \<and> ?rows \<noteq> []" by (auto simp: last_event_def Let_def)
  moreover have "?rows \<noteq> [] \<longleftrightarrow> (\<exists>x. x \<in> set ?rows)" by (metis list.set_sel(1) list.set(1) empty_iff)
  ultimately show "last_event t n st \<noteq> None \<longleftrightarrow> 1 \<le> n \<and> (\<exists>x \<in> set (ev_rows st). vd_terminal_id x = t \<and> vd_decision x = None \<and> n \<le> ve_seq x)"
    unfolding mem using pos by (auto intro: order_trans)
  assume "last_event t n st = Some x"
  then have "x \<in> set ?rows" using last_in_set[of ?rows] by (auto simp: last_event_def Let_def split: if_splits)
  then show "x \<in> set (ev_rows st) \<and> vd_terminal_id x = t \<and> vd_decision x = None" using mem by blast
qed

lemma degrade_effect:
  assumes env: "env_ok E" and inv: "pinv E w" and row: "row \<in> set (pw_states w)" "pj_state row \<noteq> EXITED"
    and le: "le \<in> set (ev_rows (pw_events w))" "vd_terminal_id le = pj_terminal_id row" "vd_decision le = None"
  shows "\<exists>oc w'. degrade_no_signal E row le now w = (Inr oc, w') \<and> moved E (silent_row now row) w w'"
proof (cases "pj_state row = DEGRADED")
  case True
  then obtain r where "pj_degraded_reason row = Some r" using pinvD(4)[OF inv row(1)] by (auto simp: row_ok_def)
  then have "\<not> reason_rises (pj_degraded_reason row) NO_SIGNAL" using NO_SIGNAL_lowest by simp
  moreover have "moved E row w (note_certified_stale E row le (save_row row w))"
    using moved_calm[OF env moved_save calm.R_note_certified_stale] inv pinvD(4,5)[OF inv row(1)] by simp
  ultimately show ?thesis using True by (simp add: degrade_no_signal_def silent_row_def)
next
  case False
  then have v: "validate (e_strict E) (pj_state row) DEGRADED = Inr ALLOWED"
    using row(2) by (cases "pj_state row") (simp_all add: validate_eq TRANSITIONS_def ORDER_def)
  have "row_ok (silent_row now row)" using pinvD(4)[OF inv row(1)] False by (auto simp: row_ok_def silent_row_def)
  then have m: "moved E (silent_row now row) w (save_row (silent_row now row) w)"
    using moved_save[OF inv] pinvD(5)[OF inv row(1)] by (simp add: silent_row_def)
  let ?p = "[(''from'', json_state (pj_state row)), (''to'', json_state DEGRADED),
      (''rule'', JStr ''no_signal_sweep''), (''classification'', JStr (transition_class_value ALLOWED)),
      (''degraded_reason'', json_reason (Some NO_SIGNAL)),
      (''silent_since'', JStr (isoformat (ve_ingested_at le)))]"
  obtain i w2 where a: "append_decision E STATUS_TRANSITION le ?p (Some now) (save_row (silent_row now row) w) = (Inr i, w2)"
      "moved E (silent_row now row) w w2"
    using append_decision_effect[OF env m le(1,3), of STATUS_TRANSITION ?p "Some now"] by (auto simp: STATUS_DECISIONS_def)
  have "moved E (silent_row now row) w (note_certified_stale E row le w2)"
    using moved_calm[OF env a(2) calm.R_note_certified_stale] .
  then show ?thesis
    using False v a(1) by (simp add: degrade_no_signal_def andthen_def silent_row_def)
qed

lemma silent_observations:
  "observations st' = observations st \<Longrightarrow> silent now st' row = silent now st row"
proof -
  assume o: "observations st' = observations st"
  have "x \<in> set (ev_rows st') \<and> vd_decision x = None \<longleftrightarrow> x \<in> set (ev_rows st) \<and> vd_decision x = None" for x
    using arg_cong[OF o, of set] by (auto simp: observations_def)
  then show ?thesis unfolding silent_def by blast
qed

lemma sweep_section_effect:
  assumes env: "env_ok E" and inv: "pinv E w"
  shows "\<exists>res w'. sweep_section E now t w = (Inr res, w') \<and> pinv E w' \<and> observations (pw_events w') = observations (pw_events w)
     \<and> (\<forall>u. get_state u (pw_states w') =
          map_option (\<lambda>r. if u = t \<and> silent now (pw_events w) r then silent_row now r else r) (get_state u (pw_states w)))"
proof (cases "get_state t (pw_states w)")
  case None
  have "map_option (\<lambda>r. if u = t \<and> silent now (pw_events w) r then silent_row now r else r) (get_state u (pw_states w))
      = get_state u (pw_states w)" for u
    using None by (cases "get_state u (pw_states w)") auto
  then show ?thesis using None inv by (simp add: sweep_section_def pinv_fields)
next
  case (Some row)
  let ?w1 = "mark_projected E t row w"
  have row: "row \<in> set (pw_states w)" "pj_terminal_id row = t" using get_state_SomeD[OF Some] by auto
  have inv1: "pinv E ?w1" using pinv_mark_projected[OF env inv] .
  obtain h where h: "last_signal row = Some h" "h < now - seconds (NO_SIGNAL_S T0) \<longleftrightarrow> pj_since row < now - seconds (NO_SIGNAL_S T0)
     \<and> (\<forall>s. pj_last_probe_at row = Some s \<or> pj_last_source_probe_at row = Some s \<longrightarrow> s < now - seconds (NO_SIGNAL_S T0))"
    using last_signal_max by blast
  note le = last_event_Some[OF pinvD(1)[OF inv], of t "pj_last_event_seq row"]
  have sil: "silent now (pw_events w) row \<longleftrightarrow> pj_state row \<noteq> EXITED \<and> \<not> now - h \<le> seconds (NO_SIGNAL_S T0)
      \<and> last_event t (pj_last_event_seq row) (pw_events w) \<noteq> None"
    using h(2) le(1) row(2) unfolding silent_def by (auto simp: algebra_simps)
  show ?thesis
  proof (cases "silent now (pw_events w) row")
    case False
    have ids: "map_option (\<lambda>r. if u = t \<and> silent now (pw_events w) r then silent_row now r else r) (get_state u (pw_states w))
        = get_state u (pw_states w)" for u
      using False Some by (cases "get_state u (pw_states w)") auto
    have "sweep_section E now t w = (Inr (None, None), ?w1)"
      using False sil Some h(1) by (auto simp: sweep_section_def Let_def mark_projected_effect split: option.splits)
    then show ?thesis using inv1 ids by (simp add: mark_projected_effect)
  next
    case True
    then obtain x where x: "last_event t (pj_last_event_seq row) (pw_events w) = Some x" using sil by auto
    obtain oc w2 where d: "degrade_no_signal E row x now ?w1 = (Inr oc, w2)" "moved E (silent_row now row) ?w1 w2"
      using degrade_effect[OF env inv1, of row x now] row le(2)[OF x] True by (auto simp: mark_projected_effect silent_def)
    have "get_state u (pw_states w2) = (if u = t then Some (silent_row now row) else get_state u (pw_states w))" for u
      using d(2) get_after_upsert[of row t 0 w "silent_row now row" u] Some row(2)
      by (simp add: moved_def mark_projected_effect load_def silent_row_def)
    then have g: "get_state u (pw_states w2) =
        map_option (\<lambda>r. if u = t \<and> silent now (pw_events w) r then silent_row now r else r) (get_state u (pw_states w))" for u
      using True Some by (cases "get_state u (pw_states w)") auto
    have "sweep_section E now t w = (Inr (Some oc, intent_of oc None w2), w2)"
      using True sil Some h(1) x d(1) by (simp add: sweep_section_def Let_def mark_projected_effect andthen_def)
    then show ?thesis using g d(2) by (simp add: moved_def mark_projected_effect)
  qed
qed

end
