(* ===== verification/Projector_Promises.thy ===== *)
theory Projector_Promises
  imports Projector_Lifecycle
begin

text \<open>
  What the projector promises along every interleaving of folds, sweep steps, probes, polls, registry
  changes, appends by producers, prunes and resolved findings (\<open>worker_step\<close>): the stored projection is
  consistent and every status decision cites its cause; a fold implements the abstract machine; an
  anomalous move is reported; only the owner of a terminal's status publishes; and a sweep degrades
  exactly the silent terminals.
\<close>

section \<open>Runs of the component\<close>

inductive worker_step :: "penv \<Rightarrow> pworld \<Rightarrow> pworld \<Rightarrow> bool" for E where
  do_produce: "EventDraft d = Inr d \<Longrightarrow> vd_decision d \<notin> Some ` set STATUS_DECISIONS \<Longrightarrow>
    worker_step E w (snd (append_event E d w))"
| do_fold: "e \<in> set (ev_rows (pw_events w)) \<Longrightarrow> vd_decision e = None \<Longrightarrow> worker_step E w (snd (fold_section E e w))"
| do_deliver: "worker_step E w (deliver_intent E i w)"
| do_sweep: "worker_step E w (snd (sweep_section E now t w))"
| do_check: "worker_step E w (snd (pane_disagreement E t w))"
| do_probe: "worker_step E w (w\<lparr>pw_states := touch_probe t at present pid miss (pw_states w)\<rparr>)"
| do_poll: "worker_step E w (w\<lparr>pw_states := touch_source_probe t at (pw_states w)\<rparr>)"
| do_wait: "worker_step E w (w\<lparr>pw_reads := pw_reads w + n\<rparr>)"
| do_registry: "worker_step E w (w\<lparr>pw_registry := g\<rparr>)"
| do_health: "worker_step E w (w\<lparr>pw_health := h\<rparr>)"
| do_forget: "worker_step E w (forget_episode t w)"
| do_prune: "worker_step E w (w\<lparr>pw_events := snd (prune_events t (pw_findings w) (pw_events w))\<rparr>)"
| do_resolve: "worker_step E w (w\<lparr>pw_findings := snd (resolve_finding fid (pw_findings w))\<rparr>)"

definition worker_init :: "pworld \<Rightarrow> bool" where
  "worker_init w \<longleftrightarrow> pw_events w = empty_estore \<and> pw_states w = [] \<and> pw_findings w = []"

lemma pinv_init: "worker_init w \<Longrightarrow> pinv E w"
  by (simp add: worker_init_def pinv_def empty_estore_def events_ok_def high_water_def states_ok_def
      findings_fresh_def findings_ok_def)

lemma pinv_resolve:
  assumes "pinv E w"
  shows "pinv E (w\<lparr>pw_findings := snd (resolve_finding fid (pw_findings w))\<rparr>)"
proof -
  let ?fs = "snd (resolve_finding fid (pw_findings w))"
  have "fi_finding_id ` set ?fs = fi_finding_id ` set (pw_findings w)"
    by (auto simp: resolve_finding_def Let_def map_update_where_key simp flip: set_map)
  then have "fi_finding_id f \<in> e_mint E ` {..<pw_ids w}" if "f \<in> set ?fs" for f
    using pinvD(3)[OF assms] that unfolding findings_fresh_def by (metis imageE imageI)
  then show ?thesis
    using assms resolve_finding_ok[of "pw_findings w" fid] by (simp add: pinv_def findings_fresh_def)
qed

lemma worker_step_inv:
  assumes "env_ok E" "pinv E w" "worker_step E w w'"
  shows "pinv E w'"
  using assms(3)
proof cases
  case (do_produce d)
  then show ?thesis using pinv_append_event[OF assms(1,2), of d] by simp
next
  case (do_fold e)
  then show ?thesis using fold_section_inv[OF assms(1,2)] by simp
next
  case (do_sweep now t)
  then show ?thesis using sweep_section_effect[OF assms(1,2), of now t] by auto
next
  case (do_check t)
  then show ?thesis using pinv_calm[OF assms(1,2) calm.R_pane_disagreement] by simp
qed (use assms(2) in \<open>simp_all add: deliver_intent_effect pinv_touch pinv_fields forget_episode_def pinv_prune pinv_resolve\<close>)

text \<open>The state with its environment: the id source is required to be injective and never empty.\<close>

interpretation worker: transition_system worker_init "\<lambda>w w'. env_ok E \<and> worker_step E w w'" "pinv E" for E
  by unfold_locales (auto intro: pinv_init worker_step_inv)

lemma worker_run_inv:
  assumes "env_ok E" "worker_init w" "(worker_step E)\<^sup>*\<^sup>* w w'"
  shows "pinv E w'"
proof -
  have "(\<lambda>w w'. env_ok E \<and> worker_step E w w')\<^sup>*\<^sup>* w w'" using assms(1,3) by simp
  then show ?thesis using worker.inv_reachable[OF assms(2)] by blast
qed

section \<open>The sweep over the roster\<close>

lemma sweep_terminals_effect:
  assumes env: "env_ok E"
  shows "pinv E w \<Longrightarrow> distinct ts \<Longrightarrow>
   \<exists>os w'. sweep_terminals E now ts w = (Inr os, w') \<and> pinv E w' \<and> observations (pw_events w') = observations (pw_events w)
     \<and> (\<forall>u. get_state u (pw_states w') =
          map_option (\<lambda>r. if u \<in> set ts \<and> silent now (pw_events w) r then silent_row now r else r) (get_state u (pw_states w)))"
proof (induction ts arbitrary: w)
  case Nil
  then show ?case by (simp add: return_act_def option.map_ident)
next
  case (Cons t ts)
  obtain res w1 where 1: "sweep_section E now t w = (Inr res, w1)" "pinv E w1" "observations (pw_events w1) = observations (pw_events w)"
      "\<And>u. get_state u (pw_states w1) =
         map_option (\<lambda>r. if u = t \<and> silent now (pw_events w) r then silent_row now r else r) (get_state u (pw_states w))"
    using sweep_section_effect[OF env Cons.prems(1), of now t] by blast
  let ?w2 = "deliver_intent E (snd res) w1"
  obtain os w3 where 3: "sweep_terminals E now ts ?w2 = (Inr os, w3)" "pinv E w3" "observations (pw_events w3) = observations (pw_events w1)"
      "\<And>u. get_state u (pw_states w3) =
         map_option (\<lambda>r. if u \<in> set ts \<and> silent now (pw_events w1) r then silent_row now r else r) (get_state u (pw_states w1))"
    using Cons.IH[of ?w2] 1(2) Cons.prems(2) by (auto simp: deliver_intent_effect)
  have s: "silent now (pw_events w1) r = silent now (pw_events w) r" for r using silent_observations[OF 1(3)] .
  have "get_state u (pw_states w3) =
      map_option (\<lambda>r. if u \<in> set (t # ts) \<and> silent now (pw_events w) r then silent_row now r else r) (get_state u (pw_states w))" for u
    using 3(4)[of u] 1(4)[of u] Cons.prems(2) by (cases "get_state u (pw_states w)") (auto simp: s)
  then show ?case
    using 1 3 by (auto simp: andthen_def return_act_def case_prod_beta)
qed

lemma reclassify_all_state: "snd (reclassify_all E ts w) = w"
  by (induction ts) (auto split: sum.splits)

lemma roster_distinct: "states_ok (pw_states w) \<Longrightarrow> distinct (roster w)"
  by (simp add: roster_def all_terminals_def states_ok_def distinct_map)

section \<open>An example terminal\<close>

definition ex_env :: "bool \<Rightarrow> penv" where
  "ex_env strict = \<lparr>e_clock = (\<lambda>n. if n < 100 then 7 else 100000000), e_mint = (\<lambda>n. replicate (Suc n) CHR ''a''), e_strict = strict,
     e_cutover = True, e_admits = (\<lambda>_ _. Inr True), e_reclassify = (\<lambda>_ _. Inr ())\<rparr>"

lemma ex_env_ok: "env_ok (ex_env strict)"
  by (auto simp: env_ok_def ex_env_def inj_def dest: arg_cong[of _ _ length])

definition ex_start :: pworld where
  "ex_start = \<lparr>pw_events = empty_estore, pw_states = [], pw_findings = [],
     pw_registry = \<lparr>sr_terminal_ids = {''t''}, sr_fallback_disabled_ids = {}\<rparr>, pw_health = (\<lambda>_. None),
     pw_episodes = (\<lambda>_. None), pw_ids = 0, pw_reads = 0, pw_published = []\<rparr>"

definition ex_draft_of :: "event_kind \<Rightarrow> event_draft" where
  "ex_draft_of k = \<lparr>vd_terminal_id = ''t'', vd_kind = EK k, vd_producer = PANE, vd_confidence = AUTHORITATIVE,
     vd_observed_at = 0, vd_payload = [], vd_source_ref = None, vd_run_id = None, vd_msg_id = None,
     vd_decision = None, vd_evidence = None, vd_idempotency_key = None\<rparr>"

definition ex_event :: "event_kind \<Rightarrow> worker_event" where
  "ex_event k = mk_event (ex_draft_of k) ''a'' 1 7"

text \<open>The log after one observation of kind \<open>k\<close>, with the tailer's poll at \<open>at\<close>.\<close>

definition ex_heard :: "event_kind \<Rightarrow> time \<Rightarrow> pworld" where
  "ex_heard k at = ex_start\<lparr>pw_events := \<lparr>ev_rows = [ex_event k], ev_marks = [''t'' \<mapsto> 1]\<rparr>, pw_ids := 1, pw_reads := 1,
     pw_states := [(ProjectedState ''t'' at)\<lparr>pj_last_source_probe_at := Some at\<rparr>]\<rparr>"

lemma ex_heard_run: "(worker_step (ex_env strict))\<^sup>*\<^sup>* ex_start (ex_heard k at)"
proof -
  have d: "EventDraft (ex_draft_of k) = Inr (ex_draft_of k)" "vd_decision (ex_draft_of k) = None"
    by (simp_all add: ex_draft_of_def EventDraft_def check_decision_shape_def)
  have "append_tx ''a'' 7 (ex_draft_of k) empty_estore
      = (Inr (ex_event k, True), \<lparr>ev_rows = [ex_event k], ev_marks = [''t'' \<mapsto> 1]\<rparr>)"
    by (simp add: append_tx_def ex_draft_of_def empty_estore_def high_water_def ex_event_def Let_def)
  then have a: "snd (append_event (ex_env strict) (ex_draft_of k) ex_start)
      = ex_start\<lparr>pw_events := \<lparr>ev_rows = [ex_event k], ev_marks = [''t'' \<mapsto> 1]\<rparr>, pw_ids := 1, pw_reads := 1\<rparr>"
    by (simp add: append_event_def read_clock_def ex_start_def ex_env_def register_phase1_checks_def register_def
        ghost_transition_check_def bad_transition_check_def ex_event_def ex_draft_of_def)
  have 1: "worker_step (ex_env strict) ex_start (snd (append_event (ex_env strict) (ex_draft_of k) ex_start))"
    by (rule do_produce) (simp_all add: d image_iff)
  have 2: "worker_step (ex_env strict) (snd (append_event (ex_env strict) (ex_draft_of k) ex_start)) (ex_heard k at)"
    using do_poll[of "ex_env strict" "snd (append_event (ex_env strict) (ex_draft_of k) ex_start)" "''t''" at]
    unfolding a by (simp add: ex_heard_def ex_start_def touch_source_probe_def insert_or_update_def)
  show ?thesis using 1 2 by (meson converse_rtranclp_into_rtranclp rtranclp.rtrancl_refl)
qed

lemma ex_init: "worker_init ex_start"
  by (simp add: ex_start_def worker_init_def)

lemma ex_event_stored: "ex_event k \<in> set (ev_rows (pw_events (ex_heard k at)))" "vd_decision (ex_event k) = None"
  by (simp_all add: ex_heard_def ex_event_def ex_draft_of_def)

text \<open>The terminal heard from once, by a recovered pane, while it was starting, and then silent until the sweep
  degraded it.\<close>

definition ex_fold :: "bool \<Rightarrow> pworld" where
  "ex_fold strict = snd (fold_section (ex_env strict) (ex_event PANE_RECOVERED) (ex_heard PANE_RECOVERED 3))"

definition ex_down :: "bool \<Rightarrow> pworld" where
  "ex_down strict = snd (sweep_section (ex_env strict) 100000000 ''t'' (ex_fold strict))"

lemma ex_fold_state:
  shows "(worker_step (ex_env strict))\<^sup>*\<^sup>* ex_start (ex_fold strict)"
    and "observations (pw_events (ex_fold strict)) = [ex_event PANE_RECOVERED]"
    and "get_state ''t'' (pw_states (ex_fold strict)) =
      Some ((ProjectedState ''t'' 3)\<lparr>pj_last_source_probe_at := Some 3, pj_last_event_seq := 1\<rparr>)"
proof -
  let ?E = "ex_env strict" and ?e = "ex_event PANE_RECOVERED" and ?w = "ex_heard PANE_RECOVERED 3"
  have inv: "pinv ?E ?w" using worker_run_inv[OF ex_env_ok ex_init ex_heard_run] .
  show "(worker_step ?E)\<^sup>*\<^sup>* ex_start (ex_fold strict)"
    using rtranclp.rtrancl_into_rtrancl[OF ex_heard_run do_fold[OF ex_event_stored]] by (simp add: ex_fold_def)
  have t: "vd_terminal_id ?e = ''t''" "ve_seq ?e = 1" "vd_kind ?e = EK PANE_RECOVERED"
    by (simp_all add: ex_event_def ex_draft_of_def)
  define row where "row = fold_row ?w ?e"
  have row: "row = (ProjectedState ''t'' 3)\<lparr>pj_last_source_probe_at := Some 3\<rparr>"
    by (simp add: row_def fold_row_def load_def t ex_heard_def get_state_def fetchone_def row_ok_columns)
  have m: "\<not> fold_muted ?E ?w ?e"
    by (simp add: fold_muted_def is_muted_def ex_event_def ex_draft_of_def)
  have nr: "next_row False row ?e = row\<lparr>pj_last_event_seq := 1\<rparr>"
    by (simp add: next_row_def machine_def t row triple_def ProjectedState_def)
  have "\<not> refuses ?E (fold_muted ?E ?w ?e) row ?e" by (simp add: refuses_def nr)
  then obtain oc w1 w' where f: "fold_section ?E ?e ?w = (Inr (oc, intent_of oc (Some (vd_kind ?e)) w1), w')"
      "moved ?E (next_row False row ?e) (mark_projected ?E ''t'' row ?w) w1" "calm ?E w1 w'"
    using fold_section_effect[OF ex_env_ok inv ex_event_stored] m t unfolding row_def by auto
  have w': "ex_fold strict = w'" using f(1) by (simp add: ex_fold_def)
  show "observations (pw_events (ex_fold strict)) = [?e]"
    using f(2) calmD(1)[OF f(3)] ex_event_stored(2)[of PANE_RECOVERED]
    by (simp add: w' moved_def mark_projected_effect observations_def ex_heard_def)
  show "get_state ''t'' (pw_states (ex_fold strict)) =
      Some ((ProjectedState ''t'' 3)\<lparr>pj_last_source_probe_at := Some 3, pj_last_event_seq := 1\<rparr>)"
    using get_after_fold[of ?E False ?w ?e w1 "''t''"] f(2) inv calmD(2)[OF f(3)]
    by (simp add: w' t nr flip: row_def) (simp add: row)
qed

lemma ex_silent:
  "silent 100000000 (pw_events (ex_fold strict)) ((ProjectedState ''t'' 3)\<lparr>pj_last_source_probe_at := Some 3, pj_last_event_seq := 1\<rparr>)"
proof -
  have "ex_event PANE_RECOVERED \<in> set (observations (pw_events (ex_fold strict)))" by (simp add: ex_fold_state(2))
  then have "\<exists>x \<in> set (ev_rows (pw_events (ex_fold strict))). vd_terminal_id x = ''t'' \<and> vd_decision x = None \<and> 1 \<le> ve_seq x"
    by (intro bexI[of _ "ex_event PANE_RECOVERED"]) (auto simp: observations_def, auto simp: ex_event_def ex_draft_of_def)
  then show ?thesis by (simp add: silent_def ProjectedState_def seconds_def T0_def)
qed

lemma ex_down_state:
  shows "(worker_step (ex_env strict))\<^sup>*\<^sup>* ex_start (ex_down strict)"
    and "ex_event PANE_RECOVERED \<in> set (ev_rows (pw_events (ex_down strict)))"
    and "\<exists>row. get_state ''t'' (pw_states (ex_down strict)) = Some row \<and> pj_state row = DEGRADED \<and> pj_prior_state row = Some STARTING"
proof -
  let ?E = "ex_env strict" and ?w = "ex_fold strict"
  show "(worker_step ?E)\<^sup>*\<^sup>* ex_start (ex_down strict)"
    using rtranclp.rtrancl_into_rtrancl[OF ex_fold_state(1) do_sweep] by (simp add: ex_down_def)
  have inv: "pinv ?E ?w" using worker_run_inv[OF ex_env_ok ex_init ex_fold_state(1)] .
  have e: "ex_event PANE_RECOVERED \<in> set (observations (pw_events ?w))" by (simp add: ex_fold_state(2))
  obtain res w' where s: "sweep_section ?E 100000000 ''t'' ?w = (Inr res, w')" "observations (pw_events w') = observations (pw_events ?w)"
      "get_state ''t'' (pw_states w') = map_option (\<lambda>r. if ''t'' = ''t'' \<and> silent 100000000 (pw_events ?w) r
         then silent_row 100000000 r else r) (get_state ''t'' (pw_states ?w))"
    using sweep_section_effect[OF ex_env_ok inv, of 100000000 "''t''"] by blast
  have w': "ex_down strict = w'" using s(1) by (simp add: ex_down_def)
  show "ex_event PANE_RECOVERED \<in> set (ev_rows (pw_events (ex_down strict)))"
    using e unfolding s(2)[symmetric] w' by (simp add: observations_def)
  show "\<exists>row. get_state ''t'' (pw_states (ex_down strict)) = Some row \<and> pj_state row = DEGRADED \<and> pj_prior_state row = Some STARTING"
    using s(3) ex_silent by (simp add: w' ex_fold_state(3)) (simp add: silent_row_def ProjectedState_def)
qed

section \<open>One call of the projector\<close>

lemma project_effect:
  assumes "env_ok E" "worker_init w0" "(worker_step E)\<^sup>*\<^sup>* w0 w"
    and "e \<in> set (ev_rows (pw_events w))" "vd_decision e = None"
  obtains (refused) w' where "refuses E (fold_muted E w e) (fold_row w e) e" "project E e w = (Inl ValueError, w')"
      "calm E (mark_projected E (vd_terminal_id e) (fold_row w e) w) w'"
    | (folded) oc w1 w' where "\<not> refuses E (fold_muted E w e) (fold_row w e) e"
      "project E e w = (Inr oc, deliver_intent E (intent_of oc (Some (vd_kind e)) w1) w')"
      "pw_health w1 = (pw_health w)(vd_terminal_id e := Some (fst (projected E (vd_terminal_id e) (fold_row w e) w)))"
      "pw_published w1 = pw_published w"
      "\<And>u. get_state u (pw_states w1) = (if u = vd_terminal_id e then Some (next_row (fold_muted E w e) (fold_row w e) e)
         else get_state u (pw_states w))"
      "calm E w1 w'" "outcome_ok oc (fold_row w e) (next_row (fold_muted E w e) (fold_row w e) e) w'"
      "pj_terminal_id (fold_row w e) = vd_terminal_id e"
proof -
  have inv: "pinv E w" using worker_run_inv[OF assms(1-3)] .
  let ?row = "fold_row w e" and ?m = "fold_muted E w e"
  let ?row' = "next_row ?m ?row e" and ?w0 = "mark_projected E (vd_terminal_id e) ?row w"
  note eff = fold_section_effect[OF assms(1) inv assms(4,5)]
  show ?thesis
  proof (cases "refuses E ?m ?row e")
    case True
    then obtain w' where w': "fold_section E e w = (Inl ValueError, w')" "calm E ?w0 w'" using eff by auto
    then have "project E e w = (Inl ValueError, w')" using assms(5) by (simp add: project_def andthen_def)
    then show ?thesis using refused True w'(2) by blast
  next
    case False
    then obtain oc w1 w' where f: "fold_section E e w = (Inr (oc, intent_of oc (Some (vd_kind e)) w1), w')"
        "moved E ?row' ?w0 w1" "calm E w1 w'" "outcome_ok oc ?row ?row' w'"
      using eff by auto
    have "project E e w = (Inr oc, deliver_intent E (intent_of oc (Some (vd_kind e)) w1) w')"
      using f(1) assms(5) by (simp add: project_def andthen_def)
    moreover have "pw_health w1 = (pw_health w)(vd_terminal_id e := Some (fst (projected E (vd_terminal_id e) ?row w)))"
      "pw_published w1 = pw_published w"
      using f(2) by (simp_all add: moved_def mark_projected_effect)
    moreover have "pj_terminal_id ?row = vd_terminal_id e" using load_ok[OF inv] by (simp add: fold_row_def)
    ultimately show ?thesis using folded False get_after_fold[OF f(2) inv] f(3,4) by blast
  qed
qed

section \<open>Properties\<close>

text \<open>(C19) The projection is always consistent and always justified. In every state the component can reach,
  from empty tables and however its writers interleave: a terminal has one row; a row is degraded exactly
  when it carries a reason and exactly when it remembers a prior state, which is itself never degraded;
  its cursor never passes the highest number issued; and every status decision in the log cites an event
  id (so the ghost check never fires on it), which, where that event is still stored, is an earlier
  observation of the same terminal and not another decision.\<close>

theorem projection_consistent:
  assumes "env_ok E" "worker_init w0" "(worker_step E)\<^sup>*\<^sup>* w0 w"
  shows "distinct (map pj_terminal_id (pw_states w))
    \<and> (\<forall>r \<in> set (pw_states w). (pj_state r = DEGRADED \<longleftrightarrow> pj_degraded_reason r \<noteq> None)
         \<and> (pj_state r = DEGRADED \<longleftrightarrow> pj_prior_state r \<noteq> None) \<and> pj_prior_state r \<noteq> Some DEGRADED
         \<and> 0 \<le> pj_last_event_seq r \<and> pj_last_event_seq r \<le> high_water (pj_terminal_id r) (pw_events w))
    \<and> (\<forall>e \<in> set (ev_rows (pw_events w)).
         vd_decision e \<in> {Some STATUS_TRANSITION, Some STATUS_REASON_CHANGED, Some STATUS_RECOVERED} \<longrightarrow>
         ghost_transition_check e = None
         \<and> (\<exists>i. vd_evidence e = Some i \<and> (\<forall>x \<in> set (ev_rows (pw_events w)). ve_event_id x = i \<longrightarrow>
              vd_terminal_id x = vd_terminal_id e \<and> vd_decision x = None \<and> ve_seq x < ve_seq e)))"
proof -
  have inv: "pinv E w" using worker_run_inv[OF assms] .
  have c: "cites E (pw_ids w) (ev_rows (pw_events w)) e"
    if "e \<in> set (ev_rows (pw_events w))" "vd_decision e \<in> Some ` set STATUS_DECISIONS" for e
    using inv that by (simp add: pinv_def)
  have g: "ghost_transition_check e = None" if "cites E n es e" for n es e
    using that assms(1) by (auto simp: cites_def ghost_transition_check_def env_ok_def split: option.splits) metis
  have "distinct (map pj_terminal_id (pw_states w))" using pinvD(2)[OF inv] by (simp add: states_ok_def)
  moreover have "ghost_transition_check e = None
         \<and> (\<exists>i. vd_evidence e = Some i \<and> (\<forall>x \<in> set (ev_rows (pw_events w)). ve_event_id x = i \<longrightarrow>
              vd_terminal_id x = vd_terminal_id e \<and> vd_decision x = None \<and> ve_seq x < ve_seq e))"
    if "e \<in> set (ev_rows (pw_events w))"
      "vd_decision e \<in> {Some STATUS_TRANSITION, Some STATUS_REASON_CHANGED, Some STATUS_RECOVERED}" for e
    using c[OF that(1)] that(2) g[of _ _ e] unfolding cites_def by (auto simp: STATUS_DECISIONS_def)
  moreover have "\<forall>r \<in> set (pw_states w). (pj_state r = DEGRADED \<longleftrightarrow> pj_degraded_reason r \<noteq> None)
         \<and> (pj_state r = DEGRADED \<longleftrightarrow> pj_prior_state r \<noteq> None) \<and> pj_prior_state r \<noteq> Some DEGRADED
         \<and> 0 \<le> pj_last_event_seq r \<and> pj_last_event_seq r \<le> high_water (pj_terminal_id r) (pw_events w)"
    using pinvD(4,5)[OF inv] unfolding row_ok_def by blast
  ultimately show ?thesis by blast
qed

theorem projection_consistent_witness:
  "\<exists>r \<in> set (pw_states (ex_heard TURN_STARTED 3)). pj_state r \<noteq> DEGRADED \<and> pj_prior_state r = None"
  using projection_consistent[OF ex_env_ok ex_init ex_heard_run, of TURN_STARTED 3]
  by (simp add: ex_heard_def ProjectedState_def)

text \<open>(C20) A fold implements the abstract machine. From every reachable state and for every stored observation,
  whatever the clock reads in between, folding it returns unless the strict mode refuses an anomalous
  move, in which case it raises and neither the table nor the log changes. Otherwise the terminal's row
  becomes the machine's next state, or stays where it is with only its cursor advanced when the event is
  muted; \<open>since\<close> moves exactly when the state does; no other row changes; and the outcome says applied
  exactly when state, reason or prior state changed.\<close>

theorem fold_refines_machine:
  assumes "env_ok E" "worker_init w0" "(worker_step E)\<^sup>*\<^sup>* w0 w"
    and "e \<in> set (ev_rows (pw_events w))" "vd_decision e = None"
  shows "let row = fold_row w e; muted = fold_muted E w e;
             (s, r, p) = (if muted then triple row else machine (triple row) e);
             row' = row\<lparr>pj_state := s, pj_since := (if s = pj_state row then pj_since row else ve_ingested_at e),
                        pj_last_event_seq := ve_seq e, pj_degraded_reason := r, pj_prior_state := p\<rparr> in
     if e_strict E \<and> TRANSITIONS (pj_state row, s) = Some ANOMALOUS
     then \<exists>w'. project E e w = (Inl ValueError, w') \<and> pw_states w' = pw_states w \<and> pw_events w' = pw_events w
     else \<exists>oc w'. project E e w = (Inr oc, w') \<and> (po_applied oc \<longleftrightarrow> (s, r, p) \<noteq> triple row)
        \<and> (\<forall>u. get_state u (pw_states w') = (if u = vd_terminal_id e then Some row' else get_state u (pw_states w)))"
proof -
  let ?row = "fold_row w e" and ?m = "fold_muted E w e"
  let ?row' = "next_row ?m ?row e" and ?w0 = "mark_projected E (vd_terminal_id e) ?row w"
  have goal: "if refuses E ?m ?row e
     then \<exists>w'. project E e w = (Inl ValueError, w') \<and> pw_states w' = pw_states w \<and> pw_events w' = pw_events w
     else \<exists>oc w'. project E e w = (Inr oc, w') \<and> (po_applied oc \<longleftrightarrow> triple ?row' \<noteq> triple ?row)
        \<and> (\<forall>u. get_state u (pw_states w') = (if u = vd_terminal_id e then Some ?row' else get_state u (pw_states w)))"
  proof (cases rule: project_effect[OF assms])
    case (1 w')
    then show ?thesis using calmD[OF 1(3)] by (simp add: mark_projected_effect)
  next
    case (2 oc w1 w')
    then show ?thesis using calmD[OF 2(6)] by (simp add: deliver_intent_effect outcome_ok_def)
  qed
  obtain s r p where srp: "(if ?m then triple ?row else machine (triple ?row) e) = (s, r, p)" by (metis prod_cases3)
  have row': "?row' = ?row\<lparr>pj_state := s, pj_since := (if s = pj_state ?row then pj_since ?row else ve_ingested_at e),
      pj_last_event_seq := ve_seq e, pj_degraded_reason := r, pj_prior_state := p\<rparr>"
    by (simp add: next_row_def srp)
  then have t: "triple ?row' = (s, r, p)" by (simp add: triple_def)
  have ref: "refuses E ?m ?row e \<longleftrightarrow> e_strict E \<and> TRANSITIONS (pj_state ?row, s) = Some ANOMALOUS"
  proof (cases ?m)
    case True
    then have "s = pj_state ?row" using srp by (simp add: triple_def)
    then show ?thesis using True by (simp add: refuses_def)
  next
    case False
    then have "pj_state (next_row False ?row e) = s" using row' by simp
    then show ?thesis using False by (simp add: refuses_def)
  qed
  show ?thesis using goal[unfolded ref t] unfolding Let_def srp prod.case row'[symmetric] .
qed

theorem fold_refines_machine_witness:
  "\<exists>r. get_state ''t'' (pw_states (snd (project (ex_env True) (ex_event TURN_STARTED) (ex_heard TURN_STARTED 3)))) = Some r
     \<and> pj_state r = BUSY \<and> pj_since r = 7"
proof -
  define row where "row = fold_row (ex_heard TURN_STARTED 3) (ex_event TURN_STARTED)"
  have row: "row = (ProjectedState ''t'' 3)\<lparr>pj_last_source_probe_at := Some 3\<rparr>"
    by (simp add: row_def fold_row_def load_def ex_heard_def ex_event_def ex_draft_of_def get_state_def fetchone_def row_ok_columns)
  have m: "\<not> fold_muted (ex_env True) (ex_heard TURN_STARTED 3) (ex_event TURN_STARTED)"
    by (simp add: fold_muted_def is_muted_def ex_event_def ex_draft_of_def)
  have mc: "machine (triple row) (ex_event TURN_STARTED) = (BUSY, None, None)" "pj_state row = STARTING"
    by (simp_all add: row machine_def triple_def target_def ProjectedState_def ex_event_def ex_draft_of_def)
  have k: "vd_terminal_id (ex_event TURN_STARTED) = ''t''" "ve_ingested_at (ex_event TURN_STARTED) = 7"
    by (simp_all add: ex_event_def ex_draft_of_def)
  have tr: "TRANSITIONS (STARTING, BUSY) \<noteq> Some ANOMALOUS" by (simp add: TRANSITIONS_def ORDER_def)
  show ?thesis
    using fold_refines_machine[OF ex_env_ok[of True] ex_init ex_heard_run ex_event_stored(1)[of TURN_STARTED 3] ex_event_stored(2)]
    unfolding row_def[symmetric] by (auto simp: Let_def m mc k tr)
qed

text \<open>An anomalous move is applied and reported. Where the strict mode is off, folding an observation whose
  move has no edge in the transition table still moves the row, and leaves an open finding for exactly
  that pair of states on that terminal.\<close>

theorem anomalous_move_reported:
  assumes "env_ok E" "worker_init w0" "(worker_step E)\<^sup>*\<^sup>* w0 w"
    and "e \<in> set (ev_rows (pw_events w))" "vd_decision e = None"
    and "\<not> e_strict E" "\<not> fold_muted E w e"
    and "machine (triple (fold_row w e)) e = (s, r, p)" "TRANSITIONS (pj_state (fold_row w e), s) = Some ANOMALOUS"
  shows "\<exists>oc w' row f. project E e w = (Inr oc, w') \<and> get_state (vd_terminal_id e) (pw_states w') = Some row \<and> pj_state row = s
     \<and> f \<in> set (pw_findings w') \<and> fi_code f = DIAG_BAD_TRANSITION \<and> fi_state f = OPEN \<and> fi_terminal_id f = vd_terminal_id e
     \<and> fi_dedupe_key f = worker_state_value (pj_state (fold_row w e)) @ ''->'' @ worker_state_value s"
proof (cases rule: project_effect[OF assms(1-5)])
  case (1 w')
  then show ?thesis using assms(6) by (simp add: refuses_def)
next
  case (2 oc w1 w')
  have s: "pj_state (next_row (fold_muted E w e) (fold_row w e) e) = s"
    using assms(7,8) by (simp add: next_row_def)
  then have "flagged (vd_terminal_id e) (pj_state (fold_row w e)) s w'"
    using 2(7,8) assms(9) by (simp add: outcome_ok_def)
  then show ?thesis
    using 2(2,5) calmD(2)[OF 2(6)] s by (auto simp: flagged_def same_open_def deliver_intent_effect)
qed

text \<open>Recovery of a starting worker is treated as an anomaly. When a terminal was degraded while it was
  still starting and its pane recovers, restoring the prior state has no edge in the transition table:
  in strict mode every such recovery raises and the row stays degraded, and otherwise the row is restored
  but a bad-transition finding is opened for a move the projector itself decided on.\<close>

lemma recovery_of_starting_worker:
  assumes "env_ok E" "worker_init w0" "(worker_step E)\<^sup>*\<^sup>* w0 w"
    and "e \<in> set (ev_rows (pw_events w))" "vd_decision e = None" "vd_kind e = EK PANE_RECOVERED"
    and "get_state (vd_terminal_id e) (pw_states w) = Some row" "pj_state row = DEGRADED" "pj_prior_state row = Some STARTING"
  shows "if e_strict E
    then \<exists>w'. project E e w = (Inl ValueError, w') \<and> get_state (vd_terminal_id e) (pw_states w') = Some row
    else \<exists>oc w' row' f. project E e w = (Inr oc, w') \<and> get_state (vd_terminal_id e) (pw_states w') = Some row' \<and> pj_state row' = STARTING
      \<and> f \<in> set (pw_findings w') \<and> fi_code f = DIAG_BAD_TRANSITION \<and> fi_state f = OPEN
      \<and> fi_terminal_id f = vd_terminal_id e \<and> fi_dedupe_key f = ''degraded->starting''"
proof -
  have r: "fold_row w e = row" using assms(7) by (simp add: fold_row_def load_def)
  have m: "\<not> fold_muted E w e" using assms(6) by (simp add: fold_muted_def is_muted_def DERIVED_ALWAYS_KINDS_def)
  have s: "pj_state (next_row False row e) = STARTING"
    using assms(6,9) by (simp add: next_row_def machine_def triple_def)
  have a: "TRANSITIONS (DEGRADED, STARTING) = Some ANOMALOUS" by (simp add: TRANSITIONS_anomalous)
  show ?thesis
  proof (cases rule: project_effect[OF assms(1-5)])
    case (1 w')
    then show ?thesis using calmD(2)[OF 1(3)] assms(7) by (simp add: mark_projected_effect refuses_def)
  next
    case (2 oc w1 w')
    then have ns: "\<not> e_strict E" using m r s a assms(8) by (simp add: refuses_def)
    have "flagged (vd_terminal_id e) DEGRADED STARTING w'"
      using 2(7,8) m r s a assms(8) by (simp add: outcome_ok_def)
    then show ?thesis
      using 2(2,5) calmD(2)[OF 2(6)] s m r ns by (auto simp: flagged_def same_open_def deliver_intent_effect)
  qed
qed

lemma recovery_of_starting_worker_witness:
  "(\<exists>w'. project (ex_env True) (ex_event PANE_RECOVERED) (ex_down True) = (Inl ValueError, w'))
   \<and> (\<exists>f \<in> set (pw_findings (snd (project (ex_env False) (ex_event PANE_RECOVERED) (ex_down False)))).
        fi_dedupe_key f = ''degraded->starting'')"
proof -
  have t: "vd_terminal_id (ex_event PANE_RECOVERED) = ''t''" "vd_kind (ex_event PANE_RECOVERED) = EK PANE_RECOVERED"
    "vd_decision (ex_event PANE_RECOVERED) = None"
    by (simp_all add: ex_event_def ex_draft_of_def)
  have st: "e_strict (ex_env b) = b" for b by (simp add: ex_env_def)
  note rcv = recovery_of_starting_worker[OF ex_env_ok ex_init ex_down_state(1,2) t(3,2), unfolded t(1) st]
  obtain r1 r2 where "get_state ''t'' (pw_states (ex_down True)) = Some r1" "pj_state r1 = DEGRADED" "pj_prior_state r1 = Some STARTING"
    "get_state ''t'' (pw_states (ex_down False)) = Some r2" "pj_state r2 = DEGRADED" "pj_prior_state r2 = Some STARTING"
    using ex_down_state(3) by metis
  then show ?thesis using rcv[of True r1] rcv[of False r2] by auto
qed

theorem anomalous_move_reported_witness:
  "\<exists>f \<in> set (pw_findings (snd (project (ex_env False) (ex_event PANE_RECOVERED) (ex_down False)))).
     fi_code f = DIAG_BAD_TRANSITION \<and> fi_state f = OPEN"
proof -
  have t: "vd_terminal_id (ex_event PANE_RECOVERED) = ''t''" "vd_kind (ex_event PANE_RECOVERED) = EK PANE_RECOVERED"
    "vd_decision (ex_event PANE_RECOVERED) = None"
    by (simp_all add: ex_event_def ex_draft_of_def)
  obtain row where row: "get_state ''t'' (pw_states (ex_down False)) = Some row" "pj_state row = DEGRADED" "pj_prior_state row = Some STARTING"
    using ex_down_state(3) by blast
  have r: "fold_row (ex_down False) (ex_event PANE_RECOVERED) = row" using row t by (simp add: fold_row_def load_def)
  have "\<not> fold_muted (ex_env False) (ex_down False) (ex_event PANE_RECOVERED)"
    using t by (simp add: fold_muted_def is_muted_def DERIVED_ALWAYS_KINDS_def)
  moreover have "machine (triple row) (ex_event PANE_RECOVERED) = (STARTING, None, None)"
    "TRANSITIONS (pj_state row, STARTING) = Some ANOMALOUS"
    using row t by (simp_all add: machine_def triple_def TRANSITIONS_anomalous)
  ultimately show ?thesis
    using anomalous_move_reported[OF ex_env_ok[of False] ex_init ex_down_state(1,2) t(3)] r
    by (fastforce simp: ex_env_def)
qed

text \<open>(C30) Only the owner publishes, and it publishes what it stored. One fold hands at most one status to the
  legacy egress, and does so exactly when the cutover is on, the move was applied and changed something,
  the terminal's source owns its status (a certified source that ever spoke, or a registered source whose
  last poll is within the horizon) and the provider allowlist admits it at that instant. What it hands
  over is the stored row: its state, its \<open>since\<close> and the legacy word for them.\<close>

theorem only_the_owner_publishes:
  assumes "env_ok E" "worker_init w0" "(worker_step E)\<^sup>*\<^sup>* w0 w"
    and "e \<in> set (ev_rows (pw_events w))" "vd_decision e = None"
  shows "\<exists>n i row'. let w' = snd (project E e w); t = vd_terminal_id e; row = fold_row w e;
      owns = (case pj_last_source_probe_at row of None \<Rightarrow> False
        | Some at \<Rightarrow> t \<in> sr_fallback_disabled_ids (pw_registry w)
            \<or> (t \<in> sr_terminal_ids (pw_registry w) \<and> e_clock E (pw_reads w) \<le> at + seconds (NO_SIGNAL_S T0))) in
      (\<exists>oc. fst (project E e w) = Inr oc \<and> get_state t (pw_states w') = Some row' \<or> fst (project E e w) = Inl ValueError \<and> row' = row)
    \<and> pw_published w' = pw_published w @
        (if e_cutover E \<and> owns \<and> e_admits E n t = Inr True \<and> triple row' \<noteq> triple row
         then [\<lparr>pb_terminal_id = t, pb_status = legacy_status (pj_state row') (Some (vd_kind e)) (pj_degraded_reason row'),
                pb_event_id = i, pb_worker_state = worker_state_value (pj_state row'), pb_since = pj_since row'\<rparr>]
         else [])"
proof -
  let ?t = "vd_terminal_id e" and ?row = "fold_row w e"
  let ?owns = "case pj_last_source_probe_at ?row of None \<Rightarrow> False
        | Some at \<Rightarrow> ?t \<in> sr_fallback_disabled_ids (pw_registry w)
            \<or> (?t \<in> sr_terminal_ids (pw_registry w) \<and> e_clock E (pw_reads w) \<le> at + seconds (NO_SIGNAL_S T0))"
  have owns: "fst (projected E ?t ?row w) = ?owns"
    by (auto simp: projected_def source_healthy_def fallback_disabled_def is_authoritative_def read_clock_def
        split: option.splits)
  show ?thesis
  proof (cases rule: project_effect[OF assms])
    case (1 w')
    then show ?thesis
      using calmD(5)[OF 1(3)] by (intro exI[of _ 0] exI[of _ None] exI[of _ ?row]) (simp add: mark_projected_effect)
  next
    case (2 oc w1 w')
    let ?row' = "next_row (fold_muted E w e) ?row e"
    let ?w'' = "deliver_intent E (intent_of oc (Some (vd_kind e)) w1) w'"
    have oc: "po_terminal_id oc = ?t" "po_applied oc \<longleftrightarrow> triple ?row' \<noteq> triple ?row" "po_applied oc \<Longrightarrow> po_to_state oc = Some (pj_state ?row')"
      using 2(7,8) by (auto simp: outcome_ok_def)
    have get: "get_state ?t (pw_states ?w'') = Some ?row'" using 2(5) calmD(2)[OF 2(6)] by (simp add: deliver_intent_effect)
    have int: "intent_of oc (Some (vd_kind e)) w1 = (if triple ?row' \<noteq> triple ?row then Some \<lparr>pi_terminal_id = ?t, pi_state = pj_state ?row',
        pi_causing_kind = Some (vd_kind e), pi_degraded_reason = pj_degraded_reason ?row',
        pi_event_id = po_decision_event_id oc, pi_since = pj_since ?row'\<rparr> else None)"
      using oc 2(5) by (simp add: intent_of_def)
    have proj: "is_projected (Some (e_admits E (pw_reads w'))) ?t (pw_health w') \<longleftrightarrow> ?owns \<and> e_admits E (pw_reads w') ?t = Inr True"
      unfolding calmD(4)[OF 2(6)] 2(3) owns[symmetric] by (auto simp: is_projected_def split: sum.splits)
    have "pw_published ?w'' = pw_published w @
        (if e_cutover E \<and> ?owns \<and> e_admits E (pw_reads w') ?t = Inr True \<and> triple ?row' \<noteq> triple ?row
         then [\<lparr>pb_terminal_id = ?t, pb_status = legacy_status (pj_state ?row') (Some (vd_kind e)) (pj_degraded_reason ?row'),
                pb_event_id = po_decision_event_id oc, pb_worker_state = worker_state_value (pj_state ?row'), pb_since = pj_since ?row'\<rparr>]
         else [])"
      using proj calmD(5)[OF 2(6)] 2(4) unfolding int by (simp add: deliver_intent_def publish_status_def)
    then show ?thesis
      unfolding 2(2) snd_conv fst_conv Let_def using get
      by (intro exI[of _ "pw_reads w'"] exI[of _ "po_decision_event_id oc"] exI[of _ ?row'] conjI) blast+
  qed
qed

theorem only_the_owner_publishes_witness:
  "\<exists>b. pw_published (snd (project (ex_env True) (ex_event TURN_STARTED) (ex_heard TURN_STARTED 3))) = [b]
     \<and> pb_status b = ''processing'' \<and> pb_worker_state b = ''busy''"
proof -
  let ?E = "ex_env True" and ?e = "ex_event TURN_STARTED" and ?w = "ex_heard TURN_STARTED 3"
  have e: "vd_terminal_id ?e = ''t''" "vd_kind ?e = EK TURN_STARTED" "vd_confidence ?e = AUTHORITATIVE" "vd_payload ?e = []"
    by (simp_all add: ex_event_def ex_draft_of_def)
  have row: "fold_row ?w ?e = (ProjectedState ''t'' 3)\<lparr>pj_last_source_probe_at := Some 3\<rparr>"
    by (simp add: fold_row_def load_def ex_heard_def e get_state_def fetchone_def row_ok_columns)
  have mc: "machine (triple ((ProjectedState ''t'' 3)\<lparr>pj_last_source_probe_at := Some 3\<rparr>)) ?e = (BUSY, None, None)"
    by (simp add: machine_def triple_def target_def ProjectedState_def e)
  have owns: "''t'' \<in> sr_terminal_ids (pw_registry ?w)" "e_clock ?E (pw_reads ?w) \<le> 3 + seconds (NO_SIGNAL_S T0)"
    "e_cutover ?E" "e_admits ?E n t = Inr True" "pw_published ?w = []" for n t
    by (simp_all add: ex_heard_def ex_start_def ex_env_def seconds_def T0_def)
  have b: "\<not> fold_muted ?E ?w ?e" by (simp add: fold_muted_def is_muted_def e)
  obtain oc w' where p: "project ?E ?e ?w = (Inr oc, w')" "get_state ''t'' (pw_states w') = Some (next_row False (fold_row ?w ?e) ?e)"
  proof (cases rule: project_effect[OF ex_env_ok[of True] ex_init ex_heard_run ex_event_stored(1)[of TURN_STARTED 3] ex_event_stored(2)])
    case (1 w')
    then show ?thesis by (simp add: refuses_def next_row_def row mc row_ok_columns) (simp add: ProjectedState_def TRANSITIONS_def ORDER_def)
  next
    case (2 oc w1 w')
    then show ?thesis using that b calmD(2)[OF 2(6)] by (simp add: deliver_intent_effect e)
  qed
  have nr: "pj_state (next_row False (fold_row ?w ?e) ?e) = BUSY" "pj_degraded_reason (next_row False (fold_row ?w ?e) ?e) = None"
    "triple (next_row False (fold_row ?w ?e) ?e) \<noteq> triple (fold_row ?w ?e)" "pj_last_source_probe_at (fold_row ?w ?e) = Some 3"
    by (simp_all add: row next_row_def mc) (simp add: triple_def ProjectedState_def)
  show ?thesis
    using only_the_owner_publishes[OF ex_env_ok[of True] ex_init ex_heard_run ex_event_stored(1)[of TURN_STARTED 3] ex_event_stored(2)]
      owns nr by (auto simp: Let_def p e legacy_status_def)
qed

text \<open>(C28) A sweep degrades exactly the silent terminals. From every reachable state a sweep visits the whole
  roster without failing, whatever the strict mode and whatever the legacy monitor does with the re-drive
  at its end. Afterwards a terminal that is not exited, of which nothing was heard on any channel for
  longer than the horizon and whose last observation is still in the log is degraded, for \<open>NO_SIGNAL\<close> and
  remembering its state if it was not degraded before; and every other row is exactly as it was.\<close>

theorem sweep_degrades_silent:
  assumes "env_ok E" "worker_init w0" "(worker_step E)\<^sup>*\<^sup>* w0 w"
  shows "let now = e_clock E (pw_reads w); st = pw_states (snd (sweep E w)) in
    (\<forall>t. get_state t st = map_option (\<lambda>r. if silent now (pw_events w) r then silent_row now r else r) (get_state t (pw_states w)))
    \<and> (\<exists>os w'. sweep_terminals E now (roster w) (w\<lparr>pw_reads := pw_reads w + 1\<rparr>) = (Inr os, w'))"
proof -
  let ?now = "e_clock E (pw_reads w)" and ?w1 = "w\<lparr>pw_reads := pw_reads w + 1\<rparr>"
  have inv: "pinv E w" using worker_run_inv[OF assms] .
  then have inv1: "pinv E ?w1" by (simp add: pinv_fields)
  have d: "distinct (roster ?w1)" using roster_distinct pinvD(2)[OF inv] by simp
  obtain os w2 where 2: "sweep_terminals E ?now (roster ?w1) ?w1 = (Inr os, w2)"
      "\<And>u. get_state u (pw_states w2) =
          map_option (\<lambda>r. if u \<in> set (roster ?w1) \<and> silent ?now (pw_events w) r then silent_row ?now r else r) (get_state u (pw_states w))"
    using sweep_terminals_effect[OF assms(1) inv1 d, of ?now] by auto
  have ros: "u \<in> set (roster ?w1)" if "get_state u (pw_states w) = Some r" for u r
    using get_state_SomeD[OF that] by (auto simp: roster_def all_terminals_def)
  have "snd (sweep E w) = sweep_checks E (roster w2) w2"
    using 2(1) reclassify_all_state
    by (auto simp: sweep_def read_clock_def andthen_def return_act_def Let_def split: prod.splits sum.splits) (metis snd_conv)+
  then have st: "pw_states (snd (sweep E w)) = pw_states w2" using calmD(2)[OF calm.R_sweep_checks] by simp
  have "get_state t (pw_states w2) = map_option (\<lambda>r. if silent ?now (pw_events w) r then silent_row ?now r else r) (get_state t (pw_states w))" for t
    using 2(2)[of t] ros by (cases "get_state t (pw_states w)") auto
  moreover have "roster ?w1 = roster w" by (simp add: roster_def)
  ultimately show ?thesis using 2(1) by (simp add: st Let_def)
qed

theorem sweep_degrades_silent_witness:
  "\<exists>w r. get_state ''t'' (pw_states (snd (sweep (ex_env True) w))) = Some r \<and> pj_state r = DEGRADED
     \<and> pj_prior_state r = Some STARTING"
proof -
  let ?E = "ex_env True" and ?w = "(ex_fold True)\<lparr>pw_reads := pw_reads (ex_fold True) + 100\<rparr>"
  have run: "(worker_step ?E)\<^sup>*\<^sup>* ex_start ?w"
    using rtranclp.rtrancl_into_rtrancl[OF ex_fold_state(1) do_wait] .
  have now: "e_clock ?E (pw_reads ?w) = 100000000" by (simp add: ex_env_def)
  have "get_state ''t'' (pw_states ?w) = get_state ''t'' (pw_states (ex_fold True))" "pw_events ?w = pw_events (ex_fold True)" by simp_all
  then have "get_state ''t'' (pw_states (snd (sweep ?E ?w))) = Some (silent_row 100000000
      ((ProjectedState ''t'' 3)\<lparr>pj_last_source_probe_at := Some 3, pj_last_event_seq := 1\<rparr>))"
    using sweep_degrades_silent[OF ex_env_ok[of True] ex_init run] ex_silent[of True] ex_fold_state(3)[of True]
    unfolding Let_def now by simp
  then show ?thesis by (intro exI[of _ ?w]) (simp add: silent_row_def ProjectedState_def)
qed

end
