(* ===== verification/Gate_Domain.thy ===== *)
theory Gate_Domain
  imports CAO_Prelude
begin

text \<open>
  The gate record's pure domain: the vocabularies, rows and rules of \<open>core/gate.py\<close>. A run is a loop of
  review rounds, a round is one turn of it, a dispatch is one assignment under a round (or under none), a
  question is how a suspended assignment asks its supervisor. Everything here is a value or a total
  function; the tables are in \<open>Gate_Store\<close>.

  A text is the sequence of its UTF-8 bytes. The hash function of the library is a parameter of the
  definitions that use it, from the bytes fed to the rendered digest. The prose of an exception is not
  modelled, its class and its code are.
\<close>

section \<open>Vocabularies\<close>

datatype run_state = Run_OPEN | Run_AWAITING_ANSWER | Run_CLOSED_YES | Run_CLOSED_NO | Run_ABANDONED

datatype round_state =
  Round_OPEN | Round_BUILT | Round_ADJUDICATING | Round_YES | Round_NO | Round_ABANDONED

datatype effect_kind = SPAWN | MERGE | PUSH | REDEPLOY

datatype effect_outcome = APPLIED | REFUSED | UNCERTAIN

datatype dispatch_role = BUILDER | LEDGER | ADJUDICATE | OTHER

datatype dispatch_state =
  D_PREPARED | D_DISPATCHED | D_AWAITING_ANSWER | D_RETURNED | D_FAILED | D_ABANDONED

datatype severity = BLOCKER | SHOULD | NIT

datatype disposition_kind = FIXED | WITHDRAWN

datatype consumer_state = UPDATED | NOT_APPLICABLE | DEFERRED

datatype question_state = Q_PENDING | Q_ESCALATED | Q_ANSWERED | Q_EXPIRED

datatype continuation_kind = ASSIGNMENT | JOURNAL_CHECKPOINT

datatype notice_intent_state = N_PENDING | N_SENT | N_FAILED

datatype answer_delivery_state = AD_PENDING | AD_SENT | AD_CONSUMED | AD_FAILED

datatype notice_class = EXPECTED | ANOMALY

datatype question_refusal =
    DISPATCH_UNKNOWN | DISPATCH_SETTLED | QUESTION_EMPTY | QUESTION_OPEN | QUESTION_NOT_FOUND
  | QUESTION_SETTLED | QUESTION_EXPIRED | OWNER_MISMATCH | EPOCH_SUPERSEDED | ANSWER_CONFLICT
  | DEFAULT_REQUIRED | ILLEGAL_TRANSITION

text \<open>What a gate command raises: the domain error, its subclass with a code, pydantic's validation error
  and SQLite's integrity error.\<close>

datatype gate_error = GateError | GateQuestionError question_refusal | ValidationError | StoreIntegrityError

type_synonym 'a gate_result = "gate_error + 'a"

section \<open>Values\<close>

record repo_binding =
  rb_name :: string
  rb_commit :: string

record diff_entry =
  de_pre_path :: "string option"
  de_post_path :: "string option"
  de_mode :: string
  de_pre_object_id :: "string option"
  de_post_object_id :: "string option"
  de_deleted :: bool

record artifact_manifest =
  am_manifest_version :: int
  am_repo_bindings :: "repo_binding list"
  am_base_sha :: string
  am_head_sha :: string
  am_branch :: string
  am_worktree_path :: string
  am_entries :: "diff_entry list"
  am_blueprint_sha :: string
  am_ac_list_sha :: string

record execution_target =
  et_host :: string
  et_scratch_root :: string

record effect_intent =
  ei_effect_id :: string
  ei_kind :: effect_kind
  ei_round_id :: "string option"
  ei_dispatch_id :: "string option"
  ei_approval_ref :: "string option"
  ei_requested_at :: time

record effect_result =
  er_effect_id :: string
  er_outcome :: effect_outcome
  er_evidence_ref :: string
  er_settled_at :: "time option"

record dispatch =
  di_dispatch_id :: string
  di_round_id :: "string option"
  di_role :: dispatch_role
  di_position :: string
  di_routing_revision :: string
  di_conversation_id :: "string option"
  di_terminal_incarnation :: "string option"
  di_request_id :: string
  di_effect_id :: "string option"
  di_pins :: "string list"
  di_brief_blob_sha :: string
  di_state :: dispatch_state
  di_outcome :: "string option"

record disposition =
  dp_kind :: disposition_kind
  dp_reviewed_artifact_sha :: string
  dp_killer_test :: "string option"
  dp_killer_mutant :: "string option"
  dp_actor :: "string option"
  dp_reason :: "string option"
  dp_at :: time

record open_finding =
  of_finding_id :: string
  of_raised_in_round :: string
  of_severity :: severity
  of_statement :: string
  of_dispositions :: "disposition list"

definition finding_is_open :: "open_finding \<Rightarrow> bool" where
  "finding_is_open f \<longleftrightarrow> length (of_dispositions f) = 0"

record consumer_disposition =
  cd_symbol :: string
  cd_site :: string
  cd_state :: consumer_state

record consumer_coverage =
  cc_xref_sha :: string
  cc_reviewed_artifact_sha :: string
  cc_consumers :: "consumer_disposition list"
  cc_unresolved_dynamic :: "string list"

record gate_run =
  ru_run_id :: string
  ru_wp :: string
  ru_lane :: string
  ru_workflow_source_sha :: string
  ru_input_sha :: string
  ru_owner_conversation :: string
  ru_owner_epoch :: int
  ru_max_rounds :: int
  ru_row_version :: int
  ru_state :: run_state

text \<open>The field constraints of \<open>GateRun\<close>: building a value that breaks one raises.\<close>

definition valid_run :: "gate_run \<Rightarrow> bool" where
  "valid_run r \<longleftrightarrow> ru_run_id r \<noteq> [] \<and> ru_wp r \<noteq> [] \<and> ru_lane r \<noteq> [] \<and> ru_owner_conversation r \<noteq> []
     \<and> 0 \<le> ru_owner_epoch r \<and> 0 < ru_max_rounds r \<and> 1 \<le> ru_row_version r"

record gate_round =
  ro_round_id :: string
  ro_run_id :: string
  ro_round_no :: int
  ro_predecessor_round_id :: "string option"
  ro_build_inputs :: artifact_manifest
  ro_review_snapshot :: "artifact_manifest option"
  ro_execution_target :: execution_target
  ro_test_command :: string
  ro_evidence_tier :: string
  ro_fixture_corpus_sha :: "string option"
  ro_fixture_frame_count :: "int option"
  ro_subject_sha :: "string option"
  ro_report_bytes_sha :: "string option"
  ro_verdict_report_sha :: "string option"
  ro_state :: round_state
  ro_generation :: int
  ro_row_version :: int
  ro_created_at :: time
  ro_closed_at :: "time option"

definition valid_round :: "gate_round \<Rightarrow> bool" where
  "valid_round r \<longleftrightarrow> ro_round_id r \<noteq> [] \<and> ro_run_id r \<noteq> [] \<and> 1 \<le> ro_round_no r \<and> 0 \<le> ro_generation r
     \<and> 1 \<le> ro_row_version r"

section \<open>Invariants and transitions\<close>

definition validate_max_rounds :: "int \<Rightarrow> int gate_result" where
  "validate_max_rounds max_rounds = (if max_rounds \<le> 0 then Inl GateError else Inr max_rounds)"

text \<open>The content address: the bytes fed to the hash, then the hash.\<close>

definition feed :: "string \<times> string \<Rightarrow> string" where
  "feed = (\<lambda>(label, value). label @ [CHR 0x00] @ value @ [CHR 0x1E])"

definition or_empty :: "string option \<Rightarrow> string" where
  "or_empty x = (case x of None \<Rightarrow> [] | Some s \<Rightarrow> s)"

definition binding_text :: "repo_binding \<Rightarrow> string" where
  "binding_text b = rb_name b @ ''@'' @ rb_commit b"

definition entry_text :: "diff_entry \<Rightarrow> string" where
  "entry_text e = py_join ''|'' [or_empty (de_pre_path e), or_empty (de_post_path e), de_mode e,
     or_empty (de_pre_object_id e), or_empty (de_post_object_id e), if de_deleted e then ''1'' else ''0'']"

definition artifact_records :: "artifact_manifest \<Rightarrow> (string \<times> string) list" where
  "artifact_records m =
     [(''manifest_version'', py_str (am_manifest_version m))]
     @ map (\<lambda>b. (''repo'', binding_text b)) (am_repo_bindings m)
     @ [(''base'', am_base_sha m), (''head'', am_head_sha m), (''branch'', am_branch m)]
     @ map (\<lambda>e. (''entry'', entry_text e)) (am_entries m)
     @ [(''blueprint'', am_blueprint_sha m), (''ac_list'', am_ac_list_sha m)]"

definition compute_artifact_sha :: "(string \<Rightarrow> string) \<Rightarrow> artifact_manifest \<Rightarrow> string" where
  "compute_artifact_sha sha256 m = sha256 (concat (map feed (artifact_records m)))"

definition render_scratch_root :: "execution_target \<Rightarrow> string \<Rightarrow> string gate_result" where
  "render_scratch_root target round_id =
     (if round_id = [] then Inl GateError
      else if startswith (et_host target) ''grok-box'' \<or> startswith (et_host target) ''box-''
        then Inr (''~/box-scratch/'' @ round_id @ ''/'')
      else if et_host target = ''laptop'' then Inr (''/data/cao-scratch/'' @ round_id @ ''/'')
      else Inl GateError)"

fun legal_run :: "run_state \<Rightarrow> run_state list" where
  "legal_run Run_OPEN = [Run_CLOSED_YES, Run_CLOSED_NO, Run_ABANDONED]"
| "legal_run Run_AWAITING_ANSWER = [Run_OPEN, Run_ABANDONED]"
| "legal_run Run_CLOSED_YES = []"
| "legal_run Run_CLOSED_NO = []"
| "legal_run Run_ABANDONED = []"

definition next_run_state :: "run_state \<Rightarrow> run_state \<Rightarrow> run_state gate_result" where
  "next_run_state current target =
     (if target = Run_AWAITING_ANSWER then Inl GateError
      else if target \<notin> set (legal_run current) then Inl GateError else Inr target)"

fun legal_round :: "round_state \<Rightarrow> round_state list" where
  "legal_round Round_OPEN = [Round_BUILT, Round_ABANDONED]"
| "legal_round Round_BUILT = [Round_ADJUDICATING, Round_ABANDONED]"
| "legal_round Round_ADJUDICATING = [Round_YES, Round_NO, Round_ABANDONED]"
| "legal_round Round_YES = []"
| "legal_round Round_NO = []"
| "legal_round Round_ABANDONED = []"

definition next_round_state :: "round_state \<Rightarrow> round_state \<Rightarrow> round_state gate_result" where
  "next_round_state current target =
     (if target \<notin> set (legal_round current) then Inl GateError else Inr target)"

definition run_awaiting_answer :: "dispatch_state list \<Rightarrow> bool" where
  "run_awaiting_answer states \<longleftrightarrow> list_ex (\<lambda>s. s = D_AWAITING_ANSWER) states"

text \<open>Python's truth of an optional text: \<open>None\<close> and the empty text are false.\<close>

definition truthy :: "string option \<Rightarrow> bool" where
  "truthy x \<longleftrightarrow> or_empty x \<noteq> []"

definition validate_disposition :: "disposition \<Rightarrow> disposition gate_result" where
  "validate_disposition d =
     (if dp_kind d = FIXED
      then (if dp_reviewed_artifact_sha d = [] then Inl GateError
            else if \<not> truthy (dp_killer_test d) \<or> \<not> truthy (dp_killer_mutant d) then Inl GateError
            else Inr d)
      else (if \<not> truthy (dp_actor d) \<or> \<not> truthy (dp_reason d) then Inl GateError else Inr d))"

definition may_accept_round ::
  "(string \<Rightarrow> string) \<Rightarrow> gate_round \<Rightarrow> string \<Rightarrow> string \<Rightarrow> string \<Rightarrow> unit gate_result"
where
  "may_accept_round sha256 round declared_subject_sha declared_report_bytes_sha cas_report_bytes_sha =
     (if ro_state round \<noteq> Round_YES then Inl GateError
      else case ro_review_snapshot round of
             None \<Rightarrow> Inl GateError
           | Some snapshot \<Rightarrow>
               if declared_subject_sha \<noteq> compute_artifact_sha sha256 snapshot then Inl GateError
               else if declared_report_bytes_sha \<noteq> cas_report_bytes_sha then Inl GateError
               else Inr ())"

definition epoch_supersedes :: "int \<Rightarrow> int \<Rightarrow> bool" where
  "epoch_supersedes current_epoch new_epoch \<longleftrightarrow> current_epoch < new_epoch"

section \<open>Questions\<close>

record round_question =
  qu_question_id :: string
  qu_dispatch_id :: string
  qu_round_id :: "string option"
  qu_client_request_id :: string
  qu_owner_conversation :: string
  qu_owner_epoch :: int
  qu_continuation_kind :: continuation_kind
  qu_continuation_ref :: string
  qu_asked_at :: time
  qu_expires_at :: time
  qu_question :: string
  qu_options :: "string list"
  qu_answer_schema :: "string option"
  qu_default_answer :: "string option"
  qu_blocking :: bool
  qu_state :: question_state
  qu_answer_event_id :: "string option"
  qu_consumed_at :: "time option"
  qu_user_prompt_id :: "string option"
  qu_dispatch_prior_state :: "dispatch_state option"
  qu_row_version :: int

definition valid_question :: "round_question \<Rightarrow> bool" where
  "valid_question q \<longleftrightarrow> qu_question_id q \<noteq> [] \<and> qu_dispatch_id q \<noteq> [] \<and> qu_client_request_id q \<noteq> []
     \<and> qu_owner_conversation q \<noteq> [] \<and> 0 \<le> qu_owner_epoch q \<and> qu_question q \<noteq> [] \<and> 1 \<le> qu_row_version q"

definition is_open :: "round_question \<Rightarrow> bool" where
  "is_open q \<longleftrightarrow> qu_state q = Q_PENDING \<or> qu_state q = Q_ESCALATED"

record question_answer =
  qa_answer_event_id :: string
  qa_question_id :: string
  qa_answer :: string
  qa_answered_by :: string
  qa_answered_at :: time
  qa_client_request_id :: string

definition valid_answer :: "question_answer \<Rightarrow> bool" where
  "valid_answer a \<longleftrightarrow> qa_answer_event_id a \<noteq> [] \<and> qa_question_id a \<noteq> [] \<and> qa_answered_by a \<noteq> []
     \<and> qa_client_request_id a \<noteq> []"

record answer_admissibility =
  aa_admissible :: bool
  aa_code :: "question_refusal option"

definition LIVE_DISPATCH_STATES :: "dispatch_state list" where
  "LIVE_DISPATCH_STATES = [D_PREPARED, D_DISPATCHED, D_AWAITING_ANSWER]"

definition dispatch_may_be_suspended :: "dispatch_state \<Rightarrow> bool" where
  "dispatch_may_be_suspended state \<longleftrightarrow> state \<in> set LIVE_DISPATCH_STATES"

fun legal_question :: "question_state \<Rightarrow> question_state list" where
  "legal_question Q_PENDING = [Q_ESCALATED, Q_ANSWERED, Q_EXPIRED]"
| "legal_question Q_ESCALATED = [Q_ANSWERED, Q_EXPIRED]"
| "legal_question Q_ANSWERED = []"
| "legal_question Q_EXPIRED = []"

definition next_question_state :: "question_state \<Rightarrow> question_state \<Rightarrow> question_state gate_result" where
  "next_question_state current target =
     (if target \<notin> set (legal_question current) then Inl (GateQuestionError ILLEGAL_TRANSITION)
      else Inr target)"

text \<open>\<open>not s.strip()\<close>: every character is whitespace. The ASCII whitespace characters are one byte, the
  other whitespace characters of Unicode two or three.\<close>

definition ascii_spaces :: "nat list" where
  "ascii_spaces = [9, 10, 11, 12, 13, 28, 29, 30, 31, 32]"

definition two_byte_spaces :: "(nat \<times> nat) list" where
  "two_byte_spaces = [(0xC2, 0x85), (0xC2, 0xA0)]"

definition three_byte_spaces :: "(nat \<times> nat \<times> nat) list" where
  "three_byte_spaces = (0xE1, 0x9A, 0x80) # map (\<lambda>k. (0xE2, 0x80, k)) ([0x80..<0x8B] @ [0xA8, 0xA9, 0xAF])
     @ [(0xE2, 0x81, 0x9F), (0xE3, 0x80, 0x80)]"

fun blank_bytes :: "nat list \<Rightarrow> bool" where
  "blank_bytes [] = True"
| "blank_bytes (a # s) =
     (if a \<in> set ascii_spaces then blank_bytes s
      else case s of
             [] \<Rightarrow> False
           | b # s2 \<Rightarrow>
               if (a, b) \<in> set two_byte_spaces then blank_bytes s2
               else (case s2 of [] \<Rightarrow> False
                     | c # s3 \<Rightarrow> (a, b, c) \<in> set three_byte_spaces \<and> blank_bytes s3))"

definition blank :: "string \<Rightarrow> bool" where
  "blank s = blank_bytes (map of_char s)"

definition validate_ask ::
  "bool \<Rightarrow> string option \<Rightarrow> string \<Rightarrow> time \<Rightarrow> time \<Rightarrow> unit gate_result"
where
  "validate_ask blocking default_answer question asked_at expires_at =
     (if blank question then Inl (GateQuestionError QUESTION_EMPTY)
      else if \<not> blocking \<and> (default_answer = None \<or> default_answer = Some [])
        then Inl (GateQuestionError DEFAULT_REQUIRED)
      else if expires_at \<le> asked_at then Inl (GateQuestionError QUESTION_EXPIRED)
      else Inr ())"

definition answer_admissible :: "round_question \<Rightarrow> string \<Rightarrow> int \<Rightarrow> time \<Rightarrow> answer_admissibility" where
  "answer_admissible q caller_conversation caller_epoch now =
     (if qu_state q = Q_ANSWERED \<or> qu_state q = Q_EXPIRED
        then \<lparr>aa_admissible = False, aa_code = Some QUESTION_SETTLED\<rparr>
      else if qu_expires_at q \<le> now then \<lparr>aa_admissible = False, aa_code = Some QUESTION_EXPIRED\<rparr>
      else if caller_conversation \<noteq> qu_owner_conversation q
        then \<lparr>aa_admissible = False, aa_code = Some OWNER_MISMATCH\<rparr>
      else if epoch_supersedes caller_epoch (qu_owner_epoch q)
        then \<lparr>aa_admissible = False, aa_code = Some EPOCH_SUPERSEDED\<rparr>
      else \<lparr>aa_admissible = True, aa_code = None\<rparr>)"

section \<open>Facts\<close>

lemma legal_run_waiting [simp]: "Run_AWAITING_ANSWER \<notin> set (legal_run s)"
  by (cases s) auto

lemma next_run_state_Inr: "next_run_state a b = Inr c \<longleftrightarrow> c = b \<and> b \<in> set (legal_run a)"
  by (auto simp: next_run_state_def)

lemma next_round_state_Inr: "next_round_state a b = Inr c \<longleftrightarrow> c = b \<and> b \<in> set (legal_round a)"
  by (auto simp: next_round_state_def)

lemma next_question_state_Inr: "next_question_state a b = Inr c \<longleftrightarrow> c = b \<and> b \<in> set (legal_question a)"
  by (auto simp: next_question_state_def)

lemma open_or_settled: "is_open q \<longleftrightarrow> qu_state q \<noteq> Q_ANSWERED \<and> qu_state q \<noteq> Q_EXPIRED"
  by (cases "qu_state q") (auto simp: is_open_def)

lemma legal_question_open:
  "Q_ANSWERED \<in> set (legal_question s) \<longleftrightarrow> s = Q_PENDING \<or> s = Q_ESCALATED"
  "Q_EXPIRED \<in> set (legal_question s) \<longleftrightarrow> s = Q_PENDING \<or> s = Q_ESCALATED"
  "Q_ESCALATED \<in> set (legal_question s) \<longleftrightarrow> s = Q_PENDING"
  by (cases s; simp)+

lemma admissible_iff:
  "aa_admissible (answer_admissible q conv ep now) \<longleftrightarrow>
     is_open q \<and> now < qu_expires_at q \<and> conv = qu_owner_conversation q \<and> qu_owner_epoch q \<le> ep"
  by (auto simp: answer_admissible_def open_or_settled epoch_supersedes_def)

lemma refusal_code:
  "\<not> aa_admissible (answer_admissible q conv ep now) \<Longrightarrow> \<exists>c. aa_code (answer_admissible q conv ep now) = Some c"
  by (auto simp: answer_admissible_def split: if_splits)

subsection \<open>The bytes of a content address\<close>

text \<open>Records whose label has no NUL and whose value has no record separator can be read back from the
  bytes, so the bytes determine the list of records.\<close>

definition clean_record :: "string \<times> string \<Rightarrow> bool" where
  "clean_record r \<longleftrightarrow> CHR 0x00 \<notin> set (fst r) \<and> CHR 0x1E \<notin> set (snd r)"

lemma feed_inj:
  assumes "clean_record r" "clean_record r'" "feed r @ xs = feed r' @ ys"
  shows "r = r' \<and> xs = ys"
proof -
  obtain l v where r: "r = (l, v)" by fastforce
  obtain l' v' where r': "r' = (l', v')" by fastforce
  have "l @ CHR 0x00 # (v @ CHR 0x1E # xs) = l' @ CHR 0x00 # (v' @ CHR 0x1E # ys)"
    using assms(3) by (simp add: r r' feed_def)
  then have l: "l = l'" "v @ CHR 0x1E # xs = v' @ CHR 0x1E # ys"
    using assms(1,2) sep_split_eq[of "CHR 0x00" l l'] by (auto simp: clean_record_def r r')
  then have "v = v' \<and> xs = ys"
    using assms(1,2) sep_split_eq[of "CHR 0x1E" v v'] by (auto simp: clean_record_def r r')
  with l show ?thesis by (simp add: r r')
qed

lemma feed_not_Nil: "feed r \<noteq> []"
  by (cases r) (simp add: feed_def)

lemma feeds_inj:
  "list_all clean_record rs \<Longrightarrow> list_all clean_record rs' \<Longrightarrow>
   concat (map feed rs) = concat (map feed rs') \<Longrightarrow> rs = rs'"
proof (induction rs arbitrary: rs')
  case Nil
  then show ?case using feed_not_Nil by (cases rs') auto
next
  case (Cons r rs)
  then show ?case
  proof (cases rs')
    case Nil
    then show ?thesis using Cons.prems feed_not_Nil by auto
  next
    case (Cons r' rest)
    then have "r = r' \<and> concat (map feed rs) = concat (map feed rest)"
      using Cons.prems feed_inj[of r r'] by auto
    then show ?thesis using Cons Cons.prems Cons.IH[of rest] by auto
  qed
qed

text \<open>What the address is meant to cover: everything but the worktree path, with an absent path or object
  id read as the empty text.\<close>

definition entry_content :: "diff_entry \<Rightarrow> string list \<times> bool" where
  "entry_content e = ([or_empty (de_pre_path e), or_empty (de_post_path e), de_mode e,
     or_empty (de_pre_object_id e), or_empty (de_post_object_id e)], de_deleted e)"

definition manifest_content ::
  "artifact_manifest \<Rightarrow> int \<times> (string \<times> string) list \<times> string list \<times> (string list \<times> bool) list \<times> string list"
where
  "manifest_content m = (am_manifest_version m, map (\<lambda>b. (rb_name b, rb_commit b)) (am_repo_bindings m),
     [am_base_sha m, am_head_sha m, am_branch m], map entry_content (am_entries m),
     [am_blueprint_sha m, am_ac_list_sha m])"

definition clean_binding :: "repo_binding \<Rightarrow> bool" where
  "clean_binding b \<longleftrightarrow> CHR ''@'' \<notin> set (rb_name b) \<and> CHR 0x1E \<notin> set (rb_name b) \<union> set (rb_commit b)"

definition clean_entry :: "diff_entry \<Rightarrow> bool" where
  "clean_entry e \<longleftrightarrow> (\<forall>s \<in> set (fst (entry_content e)). CHR ''|'' \<notin> set s \<and> CHR 0x1E \<notin> set s)"

definition clean_manifest :: "artifact_manifest \<Rightarrow> bool" where
  "clean_manifest m \<longleftrightarrow> list_all clean_binding (am_repo_bindings m) \<and> list_all clean_entry (am_entries m)
     \<and> (\<forall>s \<in> {am_base_sha m, am_head_sha m, am_branch m, am_blueprint_sha m, am_ac_list_sha m}. CHR 0x1E \<notin> set s)"

lemma binding_text_inj:
  "clean_binding b \<Longrightarrow> clean_binding b' \<Longrightarrow>
   binding_text b = binding_text b' \<longleftrightarrow> (rb_name b, rb_commit b) = (rb_name b', rb_commit b')"
  using sep_split_eq[of "CHR ''@''" "rb_name b" "rb_name b'" "rb_commit b" "rb_commit b'"]
  by (auto simp: binding_text_def clean_binding_def)

lemma py_join_inj:
  "length xs = length ys \<Longrightarrow> \<forall>s \<in> set xs \<union> set ys. c \<notin> set s \<Longrightarrow> py_join [c] xs = py_join [c] ys \<Longrightarrow> xs = ys"
proof (induction "[c]" xs arbitrary: ys rule: py_join.induct)
  case 1
  then show ?case by simp
next
  case (2 x)
  then show ?case by (cases ys) auto
next
  case (3 x y zs)
  then obtain x' y' zs' where ys: "ys = x' # y' # zs'"
    by (metis Suc_length_conv)
  have "x = x' \<and> py_join [c] (y # zs) = py_join [c] (y' # zs')"
    using 3(3,4) ys sep_split_eq[of c x x'] by auto
  moreover from this have "y # zs = y' # zs'" using 3(1)[of "y' # zs'"] 3(2,3) ys by auto
  ultimately show ?case using ys by simp
qed

definition flag_text :: "bool \<Rightarrow> string" where
  "flag_text b = (if b then ''1'' else ''0'')"

lemma flag_text_simps [simp]:
  "flag_text a = flag_text b \<longleftrightarrow> a = b" "CHR ''|'' \<notin> set (flag_text a)" "CHR 0x1E \<notin> set (flag_text a)"
  by (simp_all add: flag_text_def)

lemma entry_text_fields: "entry_text e = py_join ''|'' (fst (entry_content e) @ [flag_text (snd (entry_content e))])"
  by (simp add: entry_text_def entry_content_def flag_text_def)

lemma entry_text_inj:
  assumes "clean_entry e" "clean_entry e'"
  shows "entry_text e = entry_text e' \<longleftrightarrow> entry_content e = entry_content e'"
proof
  let ?f = "\<lambda>e. fst (entry_content e) @ [flag_text (snd (entry_content e))]"
  assume "entry_text e = entry_text e'"
  then have "py_join ''|'' (?f e) = py_join ''|'' (?f e')" by (simp only: entry_text_fields)
  moreover have "\<forall>s \<in> set (?f e) \<union> set (?f e'). CHR ''|'' \<notin> set s"
    using assms by (auto simp: clean_entry_def)
  ultimately have "?f e = ?f e'" by (intro py_join_inj) (simp_all add: entry_content_def)
  then show "entry_content e = entry_content e'" by (simp add: prod_eq_iff)
qed (simp add: entry_text_fields)

lemma py_join_chars: "set (py_join sep xs) \<subseteq> set sep \<union> (\<Union>x \<in> set xs. set x)"
  by (induction sep xs rule: py_join.induct) auto

lemma entry_text_clean: "clean_entry e \<Longrightarrow> CHR 0x1E \<notin> set (entry_text e)"
  using py_join_chars[of "''|''" "fst (entry_content e) @ [flag_text (snd (entry_content e))]"]
  by (fastforce simp: entry_text_fields clean_entry_def)

lemma map_inj_on_eq:
  "list_all P xs \<Longrightarrow> list_all P ys \<Longrightarrow> (\<And>x y. P x \<Longrightarrow> P y \<Longrightarrow> f x = f y \<longleftrightarrow> g x = g y) \<Longrightarrow>
   map f xs = map f ys \<longleftrightarrow> map g xs = map g ys"
proof (induction xs arbitrary: ys)
  case Nil
  then show ?case by simp
next
  case (Cons x xs)
  then show ?case by (cases ys) auto
qed

lemma py_str_clean: "CHR 0x1E \<notin> set (py_str i)"
proof -
  have "CHR 0x1E \<notin> set (nat_digits n)" for n
    using nat_digits_chars[of n] by auto
  then show ?thesis by (simp add: py_str_def)
qed

lemma artifact_records_clean: "clean_manifest m \<Longrightarrow> list_all clean_record (artifact_records m)"
  by (auto simp: clean_manifest_def artifact_records_def clean_record_def list_all_iff py_str_clean
      clean_binding_def binding_text_def entry_text_clean)

lemma records_with_label:
  "filter (\<lambda>r. fst r = ''repo'') (artifact_records m) = map (\<lambda>b. (''repo'', binding_text b)) (am_repo_bindings m)"
  "filter (\<lambda>r. fst r = ''entry'') (artifact_records m) = map (\<lambda>e. (''entry'', entry_text e)) (am_entries m)"
  "filter (\<lambda>r. fst r \<noteq> ''repo'' \<and> fst r \<noteq> ''entry'') (artifact_records m) =
     [(''manifest_version'', py_str (am_manifest_version m)), (''base'', am_base_sha m), (''head'', am_head_sha m),
      (''branch'', am_branch m), (''blueprint'', am_blueprint_sha m), (''ac_list'', am_ac_list_sha m)]"
  by (simp_all add: artifact_records_def filter_map comp_def)

lemma artifact_records_inj:
  assumes "clean_manifest m" "clean_manifest m'"
  shows "artifact_records m = artifact_records m' \<longleftrightarrow> manifest_content m = manifest_content m'"
proof -
  have b: "map binding_text (am_repo_bindings m) = map binding_text (am_repo_bindings m') \<longleftrightarrow>
      map (\<lambda>b. (rb_name b, rb_commit b)) (am_repo_bindings m) = map (\<lambda>b. (rb_name b, rb_commit b)) (am_repo_bindings m')"
    by (rule map_inj_on_eq[of clean_binding])
      (use assms in \<open>auto simp: clean_manifest_def binding_text_inj\<close>)
  have e: "map entry_text (am_entries m) = map entry_text (am_entries m') \<longleftrightarrow>
      map entry_content (am_entries m) = map entry_content (am_entries m')"
    by (rule map_inj_on_eq[of clean_entry])
      (use assms in \<open>auto simp: clean_manifest_def entry_text_inj\<close>)
  have pair: "map (\<lambda>b. (''repo'', binding_text b)) bs = map (Pair ''repo'') (map binding_text bs)"
    "map (\<lambda>e. (''entry'', entry_text e)) es = map (Pair ''entry'') (map entry_text es)" for bs es
    by simp_all
  have inj: "map (Pair l) xs = map (Pair l) ys \<longleftrightarrow> xs = ys" for l :: string and xs ys :: "string list"
    by (simp add: inj_map_eq_map inj_def)
  show ?thesis
  proof
    assume eq: "artifact_records m = artifact_records m'"
    note parts = records_with_label[of m, unfolded eq records_with_label[of m']]
    show "manifest_content m = manifest_content m'"
      using parts b e unfolding pair inj by (auto simp: manifest_content_def intro: py_str_inj)
  next
    assume "manifest_content m = manifest_content m'"
    then show "artifact_records m = artifact_records m'"
      using iffD2[OF b] iffD2[OF e] unfolding artifact_records_def pair by (simp add: manifest_content_def)
  qed
qed

section \<open>Properties\<close>

text \<open>A content address identifies what was reviewed. For two manifests whose fields do not contain the
  separator characters, and between whose byte strings the hash has no collision, the addresses agree
  exactly when the manifests agree on the version, the ordered repositories and commits, base, head and
  branch, the ordered diff entries with both paths, mode, both object ids and the deletion flag, the
  blueprint and the acceptance list. The worktree path is not covered.\<close>

theorem artifact_address_identifies:
  assumes "clean_manifest m" "clean_manifest m'"
    and "inj_on sha256 {concat (map feed (artifact_records m)), concat (map feed (artifact_records m'))}"
  shows "compute_artifact_sha sha256 m = compute_artifact_sha sha256 m' \<longleftrightarrow> manifest_content m = manifest_content m'"
proof -
  have "compute_artifact_sha sha256 m = compute_artifact_sha sha256 m' \<longleftrightarrow>
      concat (map feed (artifact_records m)) = concat (map feed (artifact_records m'))"
    unfolding compute_artifact_sha_def using inj_on_eq_iff[OF assms(3)] by simp
  also have "\<dots> \<longleftrightarrow> artifact_records m = artifact_records m'"
    using feeds_inj[OF artifact_records_clean[OF assms(1)] artifact_records_clean[OF assms(2)]] by auto
  also have "\<dots> \<longleftrightarrow> manifest_content m = manifest_content m'"
    by (rule artifact_records_inj[OF assms(1,2)])
  finally show ?thesis .
qed

definition ex_entry :: "string \<Rightarrow> string \<Rightarrow> diff_entry" where
  "ex_entry pre post = \<lparr>de_pre_path = Some pre, de_post_path = Some post, de_mode = ''100644'',
     de_pre_object_id = Some ''0a'', de_post_object_id = Some ''0b'', de_deleted = False\<rparr>"

definition ex_manifest :: "diff_entry list \<Rightarrow> artifact_manifest" where
  "ex_manifest es = \<lparr>am_manifest_version = 1, am_repo_bindings = [\<lparr>rb_name = ''root'', rb_commit = ''c1''\<rparr>],
     am_base_sha = ''b'', am_head_sha = ''h'', am_branch = ''main'', am_worktree_path = ''/w'', am_entries = es,
     am_blueprint_sha = ''bp'', am_ac_list_sha = ''ac''\<rparr>"

theorem artifact_address_identifies_witness:
  "compute_artifact_sha id (ex_manifest [ex_entry ''a'' ''a'', ex_entry ''b'' ''b''])
    \<noteq> compute_artifact_sha id (ex_manifest [ex_entry ''b'' ''b'', ex_entry ''a'' ''a''])"
proof -
  let ?m = "ex_manifest [ex_entry ''a'' ''a'', ex_entry ''b'' ''b'']"
  let ?m' = "ex_manifest [ex_entry ''b'' ''b'', ex_entry ''a'' ''a'']"
  have "clean_manifest ?m" "clean_manifest ?m'"
    by (simp_all add: clean_manifest_def ex_manifest_def ex_entry_def clean_binding_def clean_entry_def
        entry_content_def or_empty_def)
  then have "compute_artifact_sha id ?m = compute_artifact_sha id ?m' \<longleftrightarrow> manifest_content ?m = manifest_content ?m'"
    by (rule artifact_address_identifies) simp
  then show ?thesis
    by (simp add: manifest_content_def ex_manifest_def ex_entry_def entry_content_def or_empty_def)
qed

text \<open>The hypothesis on separators is needed: a path may contain the bar that separates the fields of an
  entry, and then two different diffs have one address whatever the hash is.\<close>

lemma artifact_address_collides:
  "compute_artifact_sha sha256 (ex_manifest [ex_entry ''a|b'' ''c'']) = compute_artifact_sha sha256 (ex_manifest [ex_entry ''a'' ''b|c''])
   \<and> manifest_content (ex_manifest [ex_entry ''a|b'' ''c'']) \<noteq> manifest_content (ex_manifest [ex_entry ''a'' ''b|c''])"
  by (simp add: compute_artifact_sha_def artifact_records_def entry_text_def ex_manifest_def ex_entry_def
      or_empty_def manifest_content_def entry_content_def)

end
