(* ===== verification/Gate_Store.thy ===== *)
theory Gate_Store
  imports Gate_Domain
begin

text \<open>
  The gate's tables and the class \<open>SqliteGateStore\<close> of \<open>adapters/store/gate.py\<close>: one definition per method,
  one list of rows per table, in insertion order. Every mutator is one \<open>BEGIN IMMEDIATE\<close> transaction: an
  exception inside it leaves the tables as they were.

  A manifest, a list of pins and a list of options are stored as JSON and read back whole; the model keeps
  the value. The rows of runs, questions and findings can hold values their pydantic classes refuse (a claim
  may write any conversation and epoch, a finding may be raised with an empty statement), so reading them
  validates; the other rows are written from a constructed value and no statement changes a constrained
  field of them. The column \<open>created_at\<close> of a run is written and never read, and is left out. Ids made
  by \<open>new_ulid\<close> and readings of the clock are arguments.
\<close>

section \<open>Tables\<close>

record finding_row =
  fr_finding_id :: string
  fr_raised_in_round :: string
  fr_run_id :: string
  fr_severity :: severity
  fr_statement :: string
  fr_created_at :: time

record disposition_row =
  dr_finding_id :: string
  dr_seq :: int
  dr_disposition :: disposition

record coverage_row =
  cr_round_id :: string
  cr_coverage :: consumer_coverage

record notice_intent =
  ni_question_id :: string
  ni_state :: notice_intent_state
  ni_msg_id :: "string option"
  ni_attempts :: int
  ni_last_error :: "string option"
  ni_settled_at :: "time option"

record delivery_intent =
  ad_answer_event_id :: string
  ad_state :: answer_delivery_state
  ad_settled_at :: "time option"

record ownership_transfer =
  ot_transfer_id :: string
  ot_prior_conversation :: string
  ot_prior_epoch :: int
  ot_new_conversation :: string
  ot_new_epoch :: int
  ot_run_id :: "string option"
  ot_runs_rewritten :: nat
  ot_questions_rewritten :: nat
  ot_claimed_by :: string
  ot_claimed_at :: time
  ot_client_request_id :: string

record gstore =
  gs_runs :: "gate_run list"
  gs_rounds :: "gate_round list"
  gs_dispatches :: "dispatch list"
  gs_intents :: "effect_intent list"
  gs_results :: "effect_result list"
  gs_findings :: "finding_row list"
  gs_dispositions :: "disposition_row list"
  gs_coverage :: "coverage_row list"
  gs_questions :: "round_question list"
  gs_answers :: "question_answer list"
  gs_deliveries :: "delivery_intent list"
  gs_notices :: "notice_intent list"
  gs_transfers :: "ownership_transfer list"

definition empty_gstore :: gstore where
  "empty_gstore = \<lparr>gs_runs = [], gs_rounds = [], gs_dispatches = [], gs_intents = [], gs_results = [],
     gs_findings = [], gs_dispositions = [], gs_coverage = [], gs_questions = [], gs_answers = [],
     gs_deliveries = [], gs_notices = [], gs_transfers = []\<rparr>"

type_synonym 'a gate_action = "gstore \<Rightarrow> 'a gate_result \<times> gstore"

definition transaction :: "'a gate_action \<Rightarrow> 'a gate_action" where
  "transaction body s = (case body s of (Inl e, _) \<Rightarrow> (Inl e, s) | (Inr x, t) \<Rightarrow> (Inr x, t))"

text \<open>\<open>INSERT ... ON CONFLICT(key) DO UPDATE\<close> of every other column.\<close>

definition replace_row :: "('r \<Rightarrow> 'k) \<Rightarrow> 'r \<Rightarrow> 'r list \<Rightarrow> 'r list" where
  "replace_row key r rs =
     (if key r \<in> key ` set rs then update_where (\<lambda>x. key x = key r) (\<lambda>_. r) rs else rs @ [r])"

section \<open>Reading rows\<close>

definition row_to_run :: "gate_run \<Rightarrow> gate_run gate_result" where
  "row_to_run r = (if valid_run r then Inr r else Inl ValidationError)"

definition row_to_question :: "round_question \<Rightarrow> round_question gate_result" where
  "row_to_question q = (if valid_question q then Inr q else Inl ValidationError)"

definition restored_state :: "round_question \<Rightarrow> dispatch_state" where
  "restored_state q = (case qu_dispatch_prior_state q of Some d \<Rightarrow> d | None \<Rightarrow> D_DISPATCHED)"

text \<open>\<open>[convert(r) for r in rows]\<close>: the first row that does not convert raises.\<close>

fun convert_rows :: "('r \<Rightarrow> 'e + 'a) \<Rightarrow> 'r list \<Rightarrow> 'e + 'a list" where
  "convert_rows f [] = Inr []"
| "convert_rows f (r # rs) =
     (case f r of Inl e \<Rightarrow> Inl e
      | Inr x \<Rightarrow> (case convert_rows f rs of Inl e \<Rightarrow> Inl e | Inr xs \<Rightarrow> Inr (x # xs)))"

definition get_run_locked :: "string \<Rightarrow> gstore \<Rightarrow> gate_run gate_result" where
  "get_run_locked run_id s =
     (case fetchone (\<lambda>r. ru_run_id r = run_id) (gs_runs s) of None \<Rightarrow> Inl GateError | Some r \<Rightarrow> row_to_run r)"

definition get_round_locked :: "string \<Rightarrow> gstore \<Rightarrow> gate_round gate_result" where
  "get_round_locked round_id s =
     (case fetchone (\<lambda>r. ro_round_id r = round_id) (gs_rounds s) of None \<Rightarrow> Inl GateError | Some r \<Rightarrow> Inr r)"

definition load_question_locked :: "string \<Rightarrow> gstore \<Rightarrow> round_question gate_result" where
  "load_question_locked question_id s =
     (case fetchone (\<lambda>q. qu_question_id q = question_id) (gs_questions s) of
        None \<Rightarrow> Inl (GateQuestionError QUESTION_NOT_FOUND) | Some q \<Rightarrow> row_to_question q)"

definition load_finding_locked :: "string \<Rightarrow> gstore \<Rightarrow> open_finding gate_result" where
  "load_finding_locked finding_id s =
     (case fetchone (\<lambda>f. fr_finding_id f = finding_id) (gs_findings s) of
        None \<Rightarrow> Inl GateError
      | Some f \<Rightarrow>
          if fr_finding_id f = [] \<or> fr_raised_in_round f = [] \<or> fr_statement f = [] then Inl ValidationError
          else Inr \<lparr>of_finding_id = fr_finding_id f, of_raised_in_round = fr_raised_in_round f,
                    of_severity = fr_severity f, of_statement = fr_statement f,
                    of_dispositions = map dr_disposition
                      (sort_key dr_seq (filter (\<lambda>d. dr_finding_id d = finding_id) (gs_dispositions s)))\<rparr>)"

section \<open>Runs and rounds\<close>

definition open_run ::
  "string \<Rightarrow> string \<Rightarrow> string \<Rightarrow> string \<Rightarrow> int \<Rightarrow> int \<Rightarrow> string \<Rightarrow> string \<Rightarrow> gate_run gate_action"
where
  "open_run new_id wp lane owner_conversation owner_epoch max_rounds workflow_source_sha input_sha s =
     (case validate_max_rounds max_rounds of
        Inl e \<Rightarrow> (Inl e, s)
      | Inr _ \<Rightarrow>
          let run = \<lparr>ru_run_id = new_id, ru_wp = wp, ru_lane = lane, ru_workflow_source_sha = workflow_source_sha,
                ru_input_sha = input_sha, ru_owner_conversation = owner_conversation, ru_owner_epoch = owner_epoch,
                ru_max_rounds = max_rounds, ru_row_version = 1, ru_state = Run_OPEN\<rparr> in
          if \<not> valid_run run then (Inl ValidationError, s)
          else if new_id \<in> ru_run_id ` set (gs_runs s) then (Inl StoreIntegrityError, s)
          else (Inr run, s\<lparr>gs_runs := gs_runs s @ [run]\<rparr>))"

definition max_round_no :: "string \<Rightarrow> gstore \<Rightarrow> int" where
  "max_round_no run_id s =
     (case sql_max (map ro_round_no (filter (\<lambda>r. ro_run_id r = run_id) (gs_rounds s))) of
        None \<Rightarrow> 0 | Some m \<Rightarrow> m)"

definition new_round ::
  "string \<Rightarrow> time \<Rightarrow> string \<Rightarrow> int \<Rightarrow> artifact_manifest \<Rightarrow> execution_target \<Rightarrow> string option \<Rightarrow> string \<Rightarrow> string
   \<Rightarrow> int \<Rightarrow> gate_round"
where
  "new_round new_id now run_id round_no build_inputs execution_target predecessor test_command evidence_tier
     generation =
     \<lparr>ro_round_id = new_id, ro_run_id = run_id, ro_round_no = round_no, ro_predecessor_round_id = predecessor,
      ro_build_inputs = build_inputs, ro_review_snapshot = None, ro_execution_target = execution_target,
      ro_test_command = test_command, ro_evidence_tier = evidence_tier, ro_fixture_corpus_sha = None,
      ro_fixture_frame_count = None, ro_subject_sha = None, ro_report_bytes_sha = None,
      ro_verdict_report_sha = None, ro_state = Round_OPEN, ro_generation = generation, ro_row_version = 1,
      ro_created_at = now, ro_closed_at = None\<rparr>"

definition open_round ::
  "string \<Rightarrow> time \<Rightarrow> string \<Rightarrow> artifact_manifest \<Rightarrow> execution_target \<Rightarrow> string option \<Rightarrow> string \<Rightarrow> string \<Rightarrow> int
   \<Rightarrow> gate_round gate_action"
where
  "open_round new_id now run_id build_inputs execution_target predecessor test_command evidence_tier generation s =
     (let round = new_round new_id now run_id (max_round_no run_id s + 1) build_inputs execution_target predecessor
            test_command evidence_tier generation in
      if \<not> valid_round round then (Inl ValidationError, s)
      else if new_id \<in> ro_round_id ` set (gs_rounds s)
           \<or> (run_id, ro_round_no round) \<in> (\<lambda>r. (ro_run_id r, ro_round_no r)) ` set (gs_rounds s)
        then (Inl StoreIntegrityError, s)
      else (Inr round, s\<lparr>gs_rounds := gs_rounds s @ [round]\<rparr>))"

text \<open>The shape the guarded round writes share: the row must exist, a rule on the current row may refuse,
  and the update matches the id and the expected version.\<close>

definition update_round ::
  "string \<Rightarrow> int \<Rightarrow> (gate_round \<Rightarrow> unit gate_result) \<Rightarrow> (gate_round \<Rightarrow> gate_round) \<Rightarrow> gate_round gate_action"
where
  "update_round round_id expected_row_version rule f s =
     (case get_round_locked round_id s of
        Inl e \<Rightarrow> (Inl e, s)
      | Inr current \<Rightarrow>
          (case rule current of
             Inl e \<Rightarrow> (Inl e, s)
           | Inr _ \<Rightarrow>
               let P = (\<lambda>r. ro_round_id r = round_id \<and> ro_row_version r = expected_row_version);
                   t = s\<lparr>gs_rounds := update_where P (\<lambda>r. (f r)\<lparr>ro_row_version := ro_row_version r + 1\<rparr>) (gs_rounds s)\<rparr> in
               if rowcount P (gs_rounds s) = 0 then (Inl GateError, s)
               else (case get_round_locked round_id t of Inl e \<Rightarrow> (Inl e, s) | Inr r \<Rightarrow> (Inr r, t))))"

definition freeze_review_snapshot :: "string \<Rightarrow> artifact_manifest \<Rightarrow> int \<Rightarrow> gate_round gate_action" where
  "freeze_review_snapshot round_id snapshot expected_row_version =
     update_round round_id expected_row_version
       (\<lambda>current. if ro_review_snapshot current \<noteq> None then Inl GateError
          else map_sum id (\<lambda>_. ()) (next_round_state (ro_state current) Round_BUILT))
       (\<lambda>r. r\<lparr>ro_review_snapshot := Some snapshot, ro_state := Round_BUILT\<rparr>)"

definition transition_round :: "string \<Rightarrow> round_state \<Rightarrow> int \<Rightarrow> time \<Rightarrow> gate_round gate_action" where
  "transition_round round_id target expected_row_version now =
     update_round round_id expected_row_version
       (\<lambda>current. map_sum id (\<lambda>_. ()) (next_round_state (ro_state current) target))
       (\<lambda>r. r\<lparr>ro_state := target,
              ro_closed_at := (if target \<in> {Round_YES, Round_NO, Round_ABANDONED} then Some now else None)\<rparr>)"

definition set_round_report :: "string \<Rightarrow> string \<Rightarrow> string \<Rightarrow> string \<Rightarrow> int \<Rightarrow> gate_round gate_action" where
  "set_round_report round_id subject_sha report_bytes_sha verdict_report_sha expected_row_version =
     update_round round_id expected_row_version (\<lambda>_. Inr ())
       (\<lambda>r. r\<lparr>ro_subject_sha := Some subject_sha, ro_report_bytes_sha := Some report_bytes_sha,
              ro_verdict_report_sha := Some verdict_report_sha\<rparr>)"

definition transition_run :: "string \<Rightarrow> run_state \<Rightarrow> int \<Rightarrow> gate_run gate_action" where
  "transition_run run_id target expected_row_version s =
     (case get_run_locked run_id s of
        Inl e \<Rightarrow> (Inl e, s)
      | Inr current \<Rightarrow>
          (case next_run_state (ru_state current) target of
             Inl e \<Rightarrow> (Inl e, s)
           | Inr _ \<Rightarrow>
               let P = (\<lambda>r. ru_run_id r = run_id \<and> ru_row_version r = expected_row_version);
                   t = s\<lparr>gs_runs := update_where P
                     (\<lambda>r. r\<lparr>ru_state := target, ru_row_version := ru_row_version r + 1\<rparr>) (gs_runs s)\<rparr> in
               if rowcount P (gs_runs s) = 0 then (Inl GateError, s)
               else (case get_run_locked run_id t of Inl e \<Rightarrow> (Inl e, s) | Inr r \<Rightarrow> (Inr r, t))))"

section \<open>Dispatches, effects, findings\<close>

definition record_dispatch :: "dispatch \<Rightarrow> dispatch gate_action" where
  "record_dispatch d s = (Inr d, s\<lparr>gs_dispatches := replace_row di_dispatch_id d (gs_dispatches s)\<rparr>)"

definition get_dispatch :: "string \<Rightarrow> gstore \<Rightarrow> dispatch option" where
  "get_dispatch dispatch_id s = fetchone (\<lambda>d. di_dispatch_id d = dispatch_id) (gs_dispatches s)"

definition ensure_dispatch :: "dispatch \<Rightarrow> bool gate_action" where
  "ensure_dispatch d s =
     (Inr (di_dispatch_id d \<notin> di_dispatch_id ` set (gs_dispatches s)),
      s\<lparr>gs_dispatches := insert_ignore di_dispatch_id d (gs_dispatches s)\<rparr>)"

definition record_effect_intent :: "effect_intent \<Rightarrow> effect_intent gate_action" where
  "record_effect_intent i s =
     (let t = s\<lparr>gs_intents := insert_ignore ei_effect_id i (gs_intents s)\<rparr> in
      (Inr (the (fetchone (\<lambda>x. ei_effect_id x = ei_effect_id i) (gs_intents t))), t))"

definition record_effect_result :: "effect_result \<Rightarrow> effect_result gate_action" where
  "record_effect_result r s =
     (if er_effect_id r \<notin> ei_effect_id ` set (gs_intents s) then (Inl GateError, s)
      else (Inr r, s\<lparr>gs_results := replace_row er_effect_id r (gs_results s)\<rparr>))"

text \<open>The finding's value is built after the commit: an empty statement raises there and the row stays.\<close>

definition raise_gate_finding :: "string \<Rightarrow> time \<Rightarrow> string \<Rightarrow> severity \<Rightarrow> string \<Rightarrow> open_finding gate_action" where
  "raise_gate_finding new_id now raised_in_round sev statement s =
     (case fetchone (\<lambda>r. ro_round_id r = raised_in_round) (gs_rounds s) of
        None \<Rightarrow> (Inl GateError, s)
      | Some round \<Rightarrow>
          if new_id \<in> fr_finding_id ` set (gs_findings s) then (Inl StoreIntegrityError, s)
          else
            let t = s\<lparr>gs_findings := gs_findings s @
                  [\<lparr>fr_finding_id = new_id, fr_raised_in_round = raised_in_round, fr_run_id = ro_run_id round,
                    fr_severity = sev, fr_statement = statement, fr_created_at = now\<rparr>]\<rparr> in
            if new_id = [] \<or> raised_in_round = [] \<or> statement = [] then (Inl ValidationError, t)
            else (Inr \<lparr>of_finding_id = new_id, of_raised_in_round = raised_in_round, of_severity = sev,
                       of_statement = statement, of_dispositions = []\<rparr>, t))"

definition next_seq :: "string \<Rightarrow> gstore \<Rightarrow> int" where
  "next_seq finding_id s =
     (case sql_max (map dr_seq (filter (\<lambda>d. dr_finding_id d = finding_id) (gs_dispositions s))) of
        None \<Rightarrow> 1 | Some m \<Rightarrow> m + 1)"

definition append_disposition :: "string \<Rightarrow> disposition \<Rightarrow> open_finding gate_action" where
  "append_disposition finding_id d s =
     (if finding_id \<notin> fr_finding_id ` set (gs_findings s) then (Inl GateError, s)
      else if (finding_id, next_seq finding_id s) \<in> (\<lambda>d. (dr_finding_id d, dr_seq d)) ` set (gs_dispositions s)
        then (Inl StoreIntegrityError, s)
      else
        let t = s\<lparr>gs_dispositions := gs_dispositions s @
              [\<lparr>dr_finding_id = finding_id, dr_seq = next_seq finding_id s, dr_disposition = d\<rparr>]\<rparr> in
        case load_finding_locked finding_id t of Inl e \<Rightarrow> (Inl e, s) | Inr f \<Rightarrow> (Inr f, t))"

definition set_consumer_coverage :: "string \<Rightarrow> consumer_coverage \<Rightarrow> unit gate_action" where
  "set_consumer_coverage round_id c s =
     (if round_id \<notin> ro_round_id ` set (gs_rounds s) then (Inl GateError, s)
      else (Inr (), s\<lparr>gs_coverage := replace_row cr_round_id \<lparr>cr_round_id = round_id, cr_coverage = c\<rparr> (gs_coverage s)\<rparr>))"

section \<open>Questions\<close>

record ask =
  as_dispatch_id :: string
  as_round_id :: "string option"
  as_client_request_id :: string
  as_owner_conversation :: string
  as_owner_epoch :: int
  as_continuation_kind :: continuation_kind
  as_continuation_ref :: string
  as_question :: string
  as_options :: "string list"
  as_blocking :: bool
  as_asked_at :: time
  as_expires_at :: time
  as_answer_schema :: "string option"
  as_default_answer :: "string option"

definition new_question :: "string \<Rightarrow> ask \<Rightarrow> round_question" where
  "new_question new_id a =
     \<lparr>qu_question_id = new_id, qu_dispatch_id = as_dispatch_id a, qu_round_id = as_round_id a,
      qu_client_request_id = as_client_request_id a, qu_owner_conversation = as_owner_conversation a,
      qu_owner_epoch = as_owner_epoch a, qu_continuation_kind = as_continuation_kind a,
      qu_continuation_ref = as_continuation_ref a, qu_asked_at = as_asked_at a, qu_expires_at = as_expires_at a,
      qu_question = as_question a, qu_options = as_options a, qu_answer_schema = as_answer_schema a,
      qu_default_answer = as_default_answer a, qu_blocking = as_blocking a, qu_state = Q_PENDING,
      qu_answer_event_id = None, qu_consumed_at = None, qu_user_prompt_id = None,
      qu_dispatch_prior_state = None, qu_row_version = 1\<rparr>"

definition set_dispatch_state :: "string \<Rightarrow> (dispatch_state \<Rightarrow> bool) \<Rightarrow> dispatch_state \<Rightarrow> gstore \<Rightarrow> gstore" where
  "set_dispatch_state dispatch_id P state s =
     s\<lparr>gs_dispatches := update_where (\<lambda>d. di_dispatch_id d = dispatch_id \<and> P (di_state d))
        (\<lambda>d. d\<lparr>di_state := state\<rparr>) (gs_dispatches s)\<rparr>"

definition insert_question :: "round_question \<Rightarrow> dispatch_state \<Rightarrow> gstore \<Rightarrow> gstore" where
  "insert_question record prior_state s =
     set_dispatch_state (qu_dispatch_id record) (\<lambda>_. True) D_AWAITING_ANSWER
       (s\<lparr>gs_questions := gs_questions s @ [record\<lparr>qu_dispatch_prior_state := Some prior_state\<rparr>],
          gs_notices := gs_notices s @ [\<lparr>ni_question_id = qu_question_id record, ni_state = N_PENDING,
            ni_msg_id = None, ni_attempts = 0, ni_last_error = None, ni_settled_at = None\<rparr>]\<rparr>)"

definition ask_question :: "string \<Rightarrow> ask \<Rightarrow> (round_question \<times> bool) gate_action" where
  "ask_question new_id a s =
     (case fetchone (\<lambda>q. qu_client_request_id q = as_client_request_id a \<and> qu_dispatch_id q = as_dispatch_id a)
             (gs_questions s) of
        Some prior \<Rightarrow> (case row_to_question prior of Inl e \<Rightarrow> (Inl e, s) | Inr q \<Rightarrow> (Inr (q, True), s))
      | None \<Rightarrow>
          (case get_dispatch (as_dispatch_id a) s of
             None \<Rightarrow> (Inl (GateQuestionError DISPATCH_UNKNOWN), s)
           | Some d \<Rightarrow>
               if \<not> dispatch_may_be_suspended (di_state d) then (Inl (GateQuestionError DISPATCH_SETTLED), s)
               else if \<exists>q \<in> set (gs_questions s). qu_dispatch_id q = as_dispatch_id a \<and> is_open q
                 then (Inl (GateQuestionError QUESTION_OPEN), s)
               else
                 let record = new_question new_id a in
                 if \<not> valid_question record then (Inl ValidationError, s)
                 else if new_id \<in> qu_question_id ` set (gs_questions s)
                   then (Inl (GateQuestionError QUESTION_OPEN), s)
                 else if new_id \<in> ni_question_id ` set (gs_notices s) then (Inl StoreIntegrityError, s)
                 else (Inr (record, False), insert_question record (di_state d) s)))"

definition get_question :: "string \<Rightarrow> gstore \<Rightarrow> round_question option gate_result" where
  "get_question question_id s =
     (case fetchone (\<lambda>q. qu_question_id q = question_id) (gs_questions s) of
        None \<Rightarrow> Inr None | Some r \<Rightarrow> map_sum id Some (row_to_question r))"

definition open_question_for_dispatch :: "string \<Rightarrow> gstore \<Rightarrow> round_question option gate_result" where
  "open_question_for_dispatch dispatch_id s =
     (case fetchone (\<lambda>q. qu_dispatch_id q = dispatch_id \<and> is_open q) (gs_questions s) of
        None \<Rightarrow> Inr None | Some r \<Rightarrow> map_sum id Some (row_to_question r))"

definition set_question :: "(round_question \<Rightarrow> bool) \<Rightarrow> (round_question \<Rightarrow> round_question) \<Rightarrow> gstore \<Rightarrow> gstore" where
  "set_question P f s = s\<lparr>gs_questions := update_where P f (gs_questions s)\<rparr>"

definition settle_answered :: "string \<Rightarrow> round_question \<Rightarrow> round_question" where
  "settle_answered event_id q =
     q\<lparr>qu_state := Q_ANSWERED, qu_answer_event_id := Some event_id, qu_row_version := qu_row_version q + 1\<rparr>"

definition insert_answer :: "question_answer \<Rightarrow> gstore \<Rightarrow> gstore" where
  "insert_answer event s =
     (set_question (\<lambda>q. qu_question_id q = qa_question_id event \<and> is_open q)
        (settle_answered (qa_answer_event_id event)) s)
       \<lparr>gs_answers := gs_answers s @ [event],
        gs_deliveries := gs_deliveries s @ [\<lparr>ad_answer_event_id = qa_answer_event_id event, ad_state = AD_PENDING,
          ad_settled_at = None\<rparr>]\<rparr>"

definition answer_question ::
  "string \<Rightarrow> string \<Rightarrow> string \<Rightarrow> string \<Rightarrow> string \<Rightarrow> string \<Rightarrow> int \<Rightarrow> time \<Rightarrow> (round_question \<times> question_answer) gate_action"
where
  "answer_question new_id question_id answer answered_by client_request_id caller_conversation caller_epoch now s =
     (case load_question_locked question_id s of
        Inl e \<Rightarrow> (Inl e, s)
      | Inr record \<Rightarrow>
          (case fetchone (\<lambda>a. qa_question_id a = question_id \<and> qa_client_request_id a = client_request_id)
                  (gs_answers s) of
             Some recorded \<Rightarrow>
               if qa_answer recorded \<noteq> answer then (Inl (GateQuestionError ANSWER_CONFLICT), s)
               else (Inr (record, recorded), s)
           | None \<Rightarrow>
               let verdict = answer_admissible record caller_conversation caller_epoch now;
                   event = \<lparr>qa_answer_event_id = new_id, qa_question_id = question_id, qa_answer = answer,
                     qa_answered_by = answered_by, qa_answered_at = now, qa_client_request_id = client_request_id\<rparr> in
               if \<not> aa_admissible verdict then (Inl (GateQuestionError (the (aa_code verdict))), s)
               else (case next_question_state (qu_state record) Q_ANSWERED of
                       Inl e \<Rightarrow> (Inl e, s)
                     | Inr _ \<Rightarrow>
                         if \<not> valid_answer event then (Inl ValidationError, s)
                         else if new_id \<in> qa_answer_event_id ` set (gs_answers s) then (Inl StoreIntegrityError, s)
                         else if rowcount (\<lambda>q. qu_question_id q = question_id \<and> is_open q) (gs_questions s) \<noteq> 1
                           then (Inl (GateQuestionError QUESTION_SETTLED), s)
                         else if new_id \<in> ad_answer_event_id ` set (gs_deliveries s) then (Inl StoreIntegrityError, s)
                         else (Inr (settle_answered new_id record, event), insert_answer event s))))"

definition settle_escalated :: "round_question \<Rightarrow> round_question" where
  "settle_escalated q = q\<lparr>qu_state := Q_ESCALATED, qu_row_version := qu_row_version q + 1\<rparr>"

definition escalate_question :: "string \<Rightarrow> time \<Rightarrow> round_question gate_action" where
  "escalate_question question_id now s =
     (case load_question_locked question_id s of
        Inl e \<Rightarrow> (Inl e, s)
      | Inr record \<Rightarrow>
          if qu_expires_at record \<le> now then (Inl (GateQuestionError QUESTION_EXPIRED), s)
          else (case next_question_state (qu_state record) Q_ESCALATED of
                  Inl e \<Rightarrow> (Inl e, s)
                | Inr _ \<Rightarrow>
                    (Inr (settle_escalated record),
                     set_question (\<lambda>q. qu_question_id q = question_id \<and> qu_state q = Q_PENDING) settle_escalated s)))"

definition settle_expired :: "round_question \<Rightarrow> round_question" where
  "settle_expired q = q\<lparr>qu_state := Q_EXPIRED, qu_row_version := qu_row_version q + 1\<rparr>"

definition release_dispatch :: "round_question \<Rightarrow> gstore \<Rightarrow> gstore" where
  "release_dispatch q = set_dispatch_state (qu_dispatch_id q) (\<lambda>d. d = D_AWAITING_ANSWER) (restored_state q)"

fun expire_loop :: "round_question list \<Rightarrow> round_question list gate_action" where
  "expire_loop [] s = (Inr [], s)"
| "expire_loop (row # rows) s =
     (case row_to_question row of
        Inl e \<Rightarrow> (Inl e, s)
      | Inr record \<Rightarrow>
          let P = (\<lambda>q. qu_question_id q = qu_question_id record \<and> is_open q) in
          if rowcount P (gs_questions s) \<noteq> 1 then expire_loop rows s
          else (case expire_loop rows (release_dispatch record (set_question P settle_expired s)) of
                  (Inl e, t) \<Rightarrow> (Inl e, t)
                | (Inr expired, t) \<Rightarrow> (Inr (settle_expired record # expired), t)))"

definition overdue :: "time \<Rightarrow> round_question \<Rightarrow> bool" where
  "overdue now q \<longleftrightarrow> is_open q \<and> qu_expires_at q \<le> now"

definition expire_due_questions :: "time \<Rightarrow> round_question list gate_action" where
  "expire_due_questions now = transaction (\<lambda>s. expire_loop (filter (overdue now) (gs_questions s)) s)"

definition mark_notice_sent :: "string \<Rightarrow> string \<Rightarrow> time \<Rightarrow> gstore \<Rightarrow> gstore" where
  "mark_notice_sent question_id msg_id now s =
     s\<lparr>gs_notices := update_where (\<lambda>n. ni_question_id n = question_id)
        (\<lambda>n. n\<lparr>ni_state := N_SENT, ni_msg_id := Some msg_id, ni_attempts := ni_attempts n + 1,
               ni_last_error := None, ni_settled_at := Some now\<rparr>) (gs_notices s)\<rparr>"

definition mark_notice_failed :: "string \<Rightarrow> string \<Rightarrow> gstore \<Rightarrow> gstore" where
  "mark_notice_failed question_id error s =
     s\<lparr>gs_notices := update_where (\<lambda>n. ni_question_id n = question_id)
        (\<lambda>n. n\<lparr>ni_state := N_FAILED, ni_attempts := ni_attempts n + 1,
               ni_last_error := Some (take 500 error)\<rparr>) (gs_notices s)\<rparr>"

definition record_consumed :: "question_answer \<Rightarrow> time \<Rightarrow> gstore \<Rightarrow> gstore" where
  "record_consumed a now s =
     (set_question (\<lambda>q. qu_question_id q = qa_question_id a) (\<lambda>q. q\<lparr>qu_consumed_at := Some now\<rparr>) s)
       \<lparr>gs_deliveries := update_where (\<lambda>d. ad_answer_event_id d = qa_answer_event_id a)
          (\<lambda>d. d\<lparr>ad_state := AD_CONSUMED, ad_settled_at := Some now\<rparr>) (gs_deliveries s)\<rparr>"

definition mark_answer_consumed :: "string \<Rightarrow> time \<Rightarrow> unit gate_action" where
  "mark_answer_consumed answer_event_id now s =
     (case fetchone (\<lambda>a. qa_answer_event_id a = answer_event_id) (gs_answers s) of
        None \<Rightarrow> (Inl (GateQuestionError QUESTION_NOT_FOUND), s)
      | Some a \<Rightarrow>
          let t = record_consumed a now s in
          case load_question_locked (qa_question_id a) t of
            Inl e \<Rightarrow> (Inl e, s)
          | Inr q \<Rightarrow> (Inr (), release_dispatch q t))"

definition questions_for_owner ::
  "string option \<Rightarrow> question_state list \<Rightarrow> string option \<Rightarrow> int \<Rightarrow> gstore \<Rightarrow> round_question list gate_result"
where
  "questions_for_owner owner_conversation states round_id limit s =
     convert_rows row_to_question (sql_limit limit (rev (sort_key qu_question_id
       (filter (\<lambda>q. (case owner_conversation of None \<Rightarrow> True | Some c \<Rightarrow> qu_owner_conversation q = c)
                 \<and> (states = [] \<or> qu_state q \<in> set states)
                 \<and> (case round_id of None \<Rightarrow> True | Some r \<Rightarrow> qu_round_id q = Some r)) (gs_questions s)))))"

section \<open>Ownership\<close>

record claim_ownership_result =
  co_accepted :: bool
  co_runs_rewritten :: nat
  co_questions_rewritten :: nat
  co_transfer_id :: "string option"

definition claimed_run :: "string \<Rightarrow> string option \<Rightarrow> gate_run \<Rightarrow> bool" where
  "claimed_run prior_conversation run_id r \<longleftrightarrow>
     ru_owner_conversation r = prior_conversation \<and> (case run_id of None \<Rightarrow> True | Some i \<Rightarrow> ru_run_id r = i)"

definition claimed_question :: "string \<Rightarrow> string option \<Rightarrow> gate_round list \<Rightarrow> round_question \<Rightarrow> bool" where
  "claimed_question prior_conversation run_id rounds q \<longleftrightarrow>
     qu_owner_conversation q = prior_conversation \<and> is_open q
     \<and> (case run_id of None \<Rightarrow> True
        | Some i \<Rightarrow> \<exists>r \<in> set rounds. ro_run_id r = i \<and> qu_round_id q = Some (ro_round_id r))"

definition claim_ownership ::
  "string \<Rightarrow> time \<Rightarrow> string \<Rightarrow> string \<Rightarrow> int \<Rightarrow> string option \<Rightarrow> string \<Rightarrow> string \<Rightarrow> claim_ownership_result gate_action"
where
  "claim_ownership new_id now prior_conversation new_conversation new_epoch run_id client_request_id claimed_by s =
     (case fetchone (\<lambda>t. ot_client_request_id t = client_request_id) (gs_transfers s) of
        Some t \<Rightarrow> (Inr \<lparr>co_accepted = True, co_runs_rewritten = ot_runs_rewritten t,
                      co_questions_rewritten = ot_questions_rewritten t, co_transfer_id = Some (ot_transfer_id t)\<rparr>, s)
      | None \<Rightarrow>
          let highest = sql_max (map ru_owner_epoch
                (filter (\<lambda>r. ru_owner_conversation r = prior_conversation) (gs_runs s)));
              prior_epoch = (case highest of None \<Rightarrow> - 1 | Some m \<Rightarrow> m);
              R = claimed_run prior_conversation run_id;
              Q = claimed_question prior_conversation run_id (gs_rounds s) in
          if 0 \<le> prior_epoch \<and> \<not> epoch_supersedes prior_epoch new_epoch
            then (Inr \<lparr>co_accepted = False, co_runs_rewritten = 0, co_questions_rewritten = 0, co_transfer_id = None\<rparr>, s)
          else if new_id \<in> ot_transfer_id ` set (gs_transfers s) then (Inl StoreIntegrityError, s)
          else
            (Inr \<lparr>co_accepted = True, co_runs_rewritten = rowcount R (gs_runs s),
                  co_questions_rewritten = rowcount Q (gs_questions s), co_transfer_id = Some new_id\<rparr>,
             s\<lparr>gs_runs := update_where R (\<lambda>r. r\<lparr>ru_owner_conversation := new_conversation,
                  ru_owner_epoch := new_epoch, ru_row_version := ru_row_version r + 1\<rparr>) (gs_runs s),
               gs_questions := update_where Q (\<lambda>q. q\<lparr>qu_owner_conversation := new_conversation,
                  qu_owner_epoch := new_epoch, qu_row_version := qu_row_version q + 1\<rparr>) (gs_questions s),
               gs_transfers := gs_transfers s @ [\<lparr>ot_transfer_id = new_id, ot_prior_conversation = prior_conversation,
                  ot_prior_epoch = max prior_epoch 0, ot_new_conversation = new_conversation, ot_new_epoch = new_epoch,
                  ot_run_id = run_id, ot_runs_rewritten = rowcount R (gs_runs s),
                  ot_questions_rewritten = rowcount Q (gs_questions s), ot_claimed_by = claimed_by,
                  ot_claimed_at = now, ot_client_request_id = client_request_id\<rparr>]\<rparr>))"

section \<open>Reads\<close>

definition get_run :: "string \<Rightarrow> gstore \<Rightarrow> gate_run option gate_result" where
  "get_run run_id s =
     (case fetchone (\<lambda>r. ru_run_id r = run_id) (gs_runs s) of
        None \<Rightarrow> Inr None | Some r \<Rightarrow> map_sum id Some (row_to_run r))"

definition get_round :: "string \<Rightarrow> gstore \<Rightarrow> gate_round option" where
  "get_round round_id s = fetchone (\<lambda>r. ro_round_id r = round_id) (gs_rounds s)"

definition rounds_for_run :: "string \<Rightarrow> gstore \<Rightarrow> gate_round list" where
  "rounds_for_run run_id s = sort_key ro_round_no (filter (\<lambda>r. ro_run_id r = run_id) (gs_rounds s))"

definition open_findings_for_run :: "string \<Rightarrow> gstore \<Rightarrow> open_finding list gate_result" where
  "open_findings_for_run run_id s =
     map_sum id (filter finding_is_open)
       (convert_rows (\<lambda>f. load_finding_locked (fr_finding_id f) s)
          (sort_key fr_created_at (filter (\<lambda>f. fr_run_id f = run_id) (gs_findings s))))"

record round_projection =
  rp_run :: gate_run
  rp_round :: gate_round
  rp_dispatches :: "dispatch list"
  rp_effect_intents :: "effect_intent list"
  rp_effect_results :: "effect_result list"
  rp_open_findings :: "open_finding list"
  rp_consumer_coverage :: "consumer_coverage list"
  rp_questions :: "round_question list"

definition project_round :: "string \<Rightarrow> gstore \<Rightarrow> round_projection option gate_result" where
  "project_round round_id s =
     (case get_round round_id s of
        None \<Rightarrow> Inr None
      | Some round \<Rightarrow>
          (case get_run (ro_run_id round) s of
             Inl e \<Rightarrow> Inl e
           | Inr None \<Rightarrow> Inr None
           | Inr (Some run) \<Rightarrow>
               let dispatches = filter (\<lambda>d. di_round_id d = Some round_id) (gs_dispatches s);
                   intents = filter (\<lambda>i. ei_round_id i = Some round_id) (gs_intents s);
                   effect_ids = set (map ei_effect_id intents) \<union> set (List.map_filter di_effect_id dispatches);
                   results = List.map_filter (\<lambda>e. fetchone (\<lambda>r. er_effect_id r = e) (gs_results s))
                     (sorted_list_of_set effect_ids) in
               case open_findings_for_run (ro_run_id round) s of
                 Inl e \<Rightarrow> Inl e
               | Inr findings \<Rightarrow>
                   (case convert_rows row_to_question
                           (sort_key qu_question_id (filter (\<lambda>q. qu_round_id q = Some round_id) (gs_questions s))) of
                      Inl e \<Rightarrow> Inl e
                    | Inr questions \<Rightarrow>
                        Inr (Some \<lparr>rp_run = run, rp_round = round, rp_dispatches = dispatches,
                          rp_effect_intents = intents, rp_effect_results = results, rp_open_findings = findings,
                          rp_consumer_coverage = map cr_coverage (filter (\<lambda>c. cr_round_id c = round_id) (gs_coverage s)),
                          rp_questions = questions\<rparr>))))"

end
