(* ===== verification/Gate_Service.thy ===== *)
theory Gate_Service
  imports Gate_Store
begin

text \<open>
  The commands over the gate's tables: \<open>GateRoundService\<close> of \<open>app/gate/service.py\<close> and
  \<open>GateQuestionService\<close> of \<open>app/gate/questions.py\<close>. A command reads, applies the domain's rules and calls the
  store one or more times; each store call is a transaction of its own, so a command that raises half-way
  leaves the transactions it has committed.

  The notifier is a port: a function that may raise, may return no message id, or returns one. The lines
  it is handed are the rendering of the question and the identity line, which are its arguments here.
\<close>

section \<open>Rounds\<close>

definition require_round :: "string \<Rightarrow> gate_round gate_action" where
  "require_round round_id s =
     (case get_round round_id s of None \<Rightarrow> (Inl GateError, s) | Some r \<Rightarrow> (Inr r, s))"

definition require_run :: "string \<Rightarrow> gate_run gate_action" where
  "require_run run_id s =
     (case get_run run_id s of
        Inl e \<Rightarrow> (Inl e, s) | Inr None \<Rightarrow> (Inl GateError, s) | Inr (Some run) \<Rightarrow> (Inr run, s))"

definition check :: "'a gate_result \<Rightarrow> 'a gate_action" where
  "check r s = (r, s)"

definition open_run_command ::
  "string \<Rightarrow> string \<Rightarrow> string \<Rightarrow> string \<Rightarrow> int \<Rightarrow> int \<Rightarrow> string \<Rightarrow> string \<Rightarrow> gate_run gate_action"
where
  "open_run_command new_id wp lane owner_conversation owner_epoch max_rounds workflow_source_sha input_sha =
     andthen (check (validate_max_rounds max_rounds))
       (\<lambda>_. open_run new_id wp lane owner_conversation owner_epoch max_rounds workflow_source_sha input_sha)"

definition open_round_command ::
  "string \<Rightarrow> time \<Rightarrow> string \<Rightarrow> artifact_manifest \<Rightarrow> execution_target \<Rightarrow> string option \<Rightarrow> string \<Rightarrow> string \<Rightarrow> int
   \<Rightarrow> gate_round gate_action"
where
  "open_round_command new_id now run_id build_inputs execution_target predecessor test_command evidence_tier generation =
     andthen (require_run run_id) (\<lambda>run s.
       if ru_state run \<noteq> Run_OPEN then (Inl GateError, s)
       else
         let existing = filter (\<lambda>r. ro_state r \<noteq> Round_ABANDONED) (rounds_for_run run_id s) in
         if int (length existing) \<ge> ru_max_rounds run then (Inl GateError, s)
         else open_round new_id now run_id build_inputs execution_target predecessor test_command evidence_tier
                generation s)"

definition freeze_review_snapshot_command :: "string \<Rightarrow> artifact_manifest \<Rightarrow> gate_round gate_action" where
  "freeze_review_snapshot_command round_id snapshot =
     andthen (require_round round_id) (\<lambda>round.
       if ro_review_snapshot round \<noteq> None then check (Inl GateError)
       else andthen (check (next_round_state (ro_state round) Round_BUILT))
              (\<lambda>_. freeze_review_snapshot round_id snapshot (ro_row_version round)))"

definition begin_adjudication :: "time \<Rightarrow> string \<Rightarrow> gate_round gate_action" where
  "begin_adjudication now round_id =
     andthen (require_round round_id) (\<lambda>round.
       andthen (check (next_round_state (ro_state round) Round_ADJUDICATING))
         (\<lambda>_. transition_round round_id Round_ADJUDICATING (ro_row_version round) now))"

definition settle_adjudication ::
  "time \<Rightarrow> string \<Rightarrow> bool \<Rightarrow> string \<Rightarrow> string \<Rightarrow> string \<Rightarrow> gate_round gate_action"
where
  "settle_adjudication now round_id verdict_yes subject_sha report_bytes_sha verdict_report_sha =
     andthen (require_round round_id) (\<lambda>round.
       let target = (if verdict_yes then Round_YES else Round_NO) in
       andthen (check (next_round_state (ro_state round) target)) (\<lambda>_.
         andthen (set_round_report round_id subject_sha report_bytes_sha verdict_report_sha (ro_row_version round))
           (\<lambda>stamped. transition_round round_id target (ro_row_version stamped) now)))"

definition accept_round :: "(string \<Rightarrow> string) \<Rightarrow> string \<Rightarrow> string \<Rightarrow> string \<Rightarrow> string \<Rightarrow> unit gate_action" where
  "accept_round sha256 round_id declared_subject_sha declared_report_bytes_sha cas_report_bytes_sha =
     andthen (require_round round_id) (\<lambda>round.
       check (may_accept_round sha256 round declared_subject_sha declared_report_bytes_sha cas_report_bytes_sha))"

definition abandon_run :: "string \<Rightarrow> gate_run gate_action" where
  "abandon_run run_id =
     andthen (require_run run_id) (\<lambda>run.
       andthen (check (next_run_state (ru_state run) Run_ABANDONED))
         (\<lambda>_. transition_run run_id Run_ABANDONED (ru_row_version run)))"

definition close_run :: "string \<Rightarrow> bool \<Rightarrow> gate_run gate_action" where
  "close_run run_id verdict_yes =
     andthen (require_run run_id) (\<lambda>run.
       let target = (if verdict_yes then Run_CLOSED_YES else Run_CLOSED_NO) in
       andthen (check (next_run_state (ru_state run) target))
         (\<lambda>_. transition_run run_id target (ru_row_version run)))"

definition close_finding :: "string \<Rightarrow> disposition \<Rightarrow> open_finding gate_action" where
  "close_finding finding_id d =
     andthen (check (validate_disposition d)) (\<lambda>_. append_disposition finding_id d)"

definition run_effective_state :: "string \<Rightarrow> run_state gate_action" where
  "run_effective_state run_id =
     andthen (require_run run_id) (\<lambda>run s.
       if ru_state run \<noteq> Run_OPEN then (Inr (ru_state run), s)
       else (case convert_rows (\<lambda>r. project_round (ro_round_id r) s) (rounds_for_run run_id s) of
               Inl e \<Rightarrow> (Inl e, s)
             | Inr projections \<Rightarrow>
                 let states = concat (map (\<lambda>p. case p of None \<Rightarrow> [] | Some q \<Rightarrow> map di_state (rp_dispatches q)) projections) in
                 (Inr (if run_awaiting_answer states then Run_AWAITING_ANSWER else Run_OPEN), s)))"

section \<open>Questions\<close>

datatype envelope_kind = E_RESULT | E_QUESTION | E_VIOLATION | E_CONDITION

record identity_ref =
  id_who :: string
  id_context :: string
  id_ref :: string

definition valid_identity :: "identity_ref \<Rightarrow> bool" where
  "valid_identity i \<longleftrightarrow> id_who i \<noteq> [] \<and> id_ref i \<noteq> []"

type_synonym notifier = "round_question \<Rightarrow> envelope_kind \<Rightarrow> notice_class \<Rightarrow> identity_ref \<Rightarrow> string + string option"

definition identity_of :: "round_question \<Rightarrow> gstore \<Rightarrow> identity_ref gate_result" where
  "identity_of record s =
     (case (case qu_round_id record of None \<Rightarrow> Inr None | Some r \<Rightarrow> project_round r s) of
        Inl e \<Rightarrow> Inl e
      | Inr projection \<Rightarrow>
          let i = (case projection of
                None \<Rightarrow> \<lparr>id_who = ''cao-gate'', id_context = [], id_ref = qu_question_id record\<rparr>
              | Some p \<Rightarrow> \<lparr>id_who = ru_lane (rp_run p),
                          id_context = ru_wp (rp_run p) @ '' r'' @ py_str (ro_round_no (rp_round p)),
                          id_ref = qu_question_id record\<rparr>) in
          if valid_identity i then Inr i else Inl ValidationError)"

definition classification :: "envelope_kind \<Rightarrow> notice_class" where
  "classification kind = (if kind = E_QUESTION then EXPECTED else ANOMALY)"

definition notify :: "notifier option \<Rightarrow> time \<Rightarrow> round_question \<Rightarrow> envelope_kind \<Rightarrow> unit gate_action" where
  "notify notifier now record kind s =
     (case notifier of
        None \<Rightarrow> (Inr (), s)
      | Some n \<Rightarrow>
          (case identity_of record s of
             Inl e \<Rightarrow> (Inl e, s)
           | Inr identity \<Rightarrow>
               (case n record kind (classification kind) identity of
                  Inl exc \<Rightarrow> (Inr (), mark_notice_failed (qu_question_id record) exc s)
                | Inr None \<Rightarrow> (Inr (), mark_notice_failed (qu_question_id record) ''notifier returned no id'' s)
                | Inr (Some msg_id) \<Rightarrow> (Inr (), mark_notice_sent (qu_question_id record) msg_id now s))))"

definition other_dispatch :: "string \<Rightarrow> string \<Rightarrow> string option \<Rightarrow> dispatch" where
  "other_dispatch dispatch_id position round_id =
     \<lparr>di_dispatch_id = dispatch_id, di_round_id = round_id, di_role = OTHER, di_position = position,
      di_routing_revision = [], di_conversation_id = None, di_terminal_incarnation = None,
      di_request_id = dispatch_id, di_effect_id = None, di_pins = [], di_brief_blob_sha = [],
      di_state = D_PREPARED, di_outcome = None\<rparr>"

definition ensure_other_dispatch :: "string \<Rightarrow> string \<Rightarrow> string option \<Rightarrow> bool gate_action" where
  "ensure_other_dispatch dispatch_id position round_id s =
     (if dispatch_id = [] \<or> position = [] then (Inl ValidationError, s)
      else ensure_dispatch (other_dispatch dispatch_id position round_id) s)"

definition timed_ask :: "time \<Rightarrow> int \<Rightarrow> ask \<Rightarrow> ask" where
  "timed_ask now expires_in_s a =
     a\<lparr>as_asked_at := now, as_expires_at := now + seconds expires_in_s,
       as_continuation_ref := (if as_continuation_ref a = [] then as_dispatch_id a else as_continuation_ref a)\<rparr>"

definition ask_command ::
  "notifier option \<Rightarrow> string \<Rightarrow> time \<Rightarrow> time \<Rightarrow> int \<Rightarrow> string option \<Rightarrow> ask \<Rightarrow> (round_question \<times> bool) gate_action"
where
  "ask_command notifier new_id now sent_at expires_in_s position a0 =
     (let a = timed_ask now expires_in_s a0 in
      andthen (check (validate_ask (as_blocking a) (as_default_answer a) (as_question a) (as_asked_at a) (as_expires_at a)))
        (\<lambda>_. andthen (case position of
                        None \<Rightarrow> return_act False
                      | Some p \<Rightarrow> ensure_other_dispatch (as_dispatch_id a) p (as_round_id a))
        (\<lambda>_. andthen (ask_question new_id a)
        (\<lambda>(record, replayed).
           if replayed then return_act (record, replayed)
           else andthen (notify notifier sent_at record E_QUESTION) (\<lambda>_. return_act (record, replayed))))))"

definition escalate :: "notifier option \<Rightarrow> time \<Rightarrow> time \<Rightarrow> string \<Rightarrow> round_question gate_action" where
  "escalate notifier now sent_at question_id =
     andthen (escalate_question question_id now) (\<lambda>record.
       andthen (notify notifier sent_at record E_QUESTION) (\<lambda>_. return_act record))"

fun notify_all :: "notifier option \<Rightarrow> time \<Rightarrow> round_question list \<Rightarrow> unit gate_action" where
  "notify_all notifier sent_at [] = return_act ()"
| "notify_all notifier sent_at (q # qs) =
     andthen (notify notifier sent_at q E_CONDITION) (\<lambda>_. notify_all notifier sent_at qs)"

definition sweep_expired :: "notifier option \<Rightarrow> time \<Rightarrow> time \<Rightarrow> round_question list gate_action" where
  "sweep_expired notifier now sent_at =
     andthen (expire_due_questions now) (\<lambda>expired.
       andthen (notify_all notifier sent_at expired) (\<lambda>_. return_act expired))"

definition require_question :: "string \<Rightarrow> round_question gate_action" where
  "require_question question_id s =
     (case get_question question_id s of
        Inl e \<Rightarrow> (Inl e, s)
      | Inr None \<Rightarrow> (Inl (GateQuestionError QUESTION_NOT_FOUND), s)
      | Inr (Some q) \<Rightarrow> (Inr q, s))"

definition is_suspended :: "string \<Rightarrow> gstore \<Rightarrow> bool gate_result" where
  "is_suspended dispatch_id s = map_sum id (\<lambda>q. q \<noteq> None) (open_question_for_dispatch dispatch_id s)"

end
