(* ===== verification/Gate_Lifecycle.thy ===== *)
theory Gate_Lifecycle
  imports Gate_Service "HOL-Library.Sublist"
begin

text \<open>
  What the gate's tables keep and how their rows may change: the invariant of the thirteen tables, the
  relation between an earlier and a later state (rows keep their identity, versions only rise and name their
  row, settled rows stay settled, the append-only tables only grow), and the proof that every store
  transaction respects both.
\<close>

section \<open>Numbered rows\<close>

text \<open>Rows numbered one, two, three under each key, in insertion order.\<close>

definition numbered :: "('r \<Rightarrow> 'k) \<Rightarrow> ('r \<Rightarrow> int) \<Rightarrow> 'r list \<Rightarrow> bool" where
  "numbered key no rs \<longleftrightarrow> (\<forall>k. map no (filter (\<lambda>r. key r = k) rs) =
     map (\<lambda>i. int i + 1) [0..<length (filter (\<lambda>r. key r = k) rs)])"

lemma sql_max_upto: "sql_max (map (\<lambda>i. int i + 1) [0..<n]) = (if n = 0 then None else Some (int n))"
proof (cases n)
  case (Suc m)
  have "Max ((\<lambda>i. int i + 1) ` {0..<Suc m}) = int m + 1"
    by (rule Max_eqI) auto
  then show ?thesis using Suc by (simp add: sql_max_def del: upt_Suc)
qed (simp add: sql_max_def)

lemma numbered_max:
  "numbered key no rs \<Longrightarrow> sql_max (map no (filter (\<lambda>r. key r = k) rs)) =
     (if filter (\<lambda>r. key r = k) rs = [] then None else Some (int (length (filter (\<lambda>r. key r = k) rs))))"
  by (simp add: numbered_def sql_max_upto)

lemma numbered_append:
  assumes "numbered key no rs" "no r = int (length (filter (\<lambda>x. key x = key r) rs)) + 1"
  shows "numbered key no (rs @ [r])"
  unfolding numbered_def
proof
  fix k
  show "map no (filter (\<lambda>r. key r = k) (rs @ [r])) =
      map (\<lambda>i. int i + 1) [0..<length (filter (\<lambda>r. key r = k) (rs @ [r]))]"
    using assms by (cases "key r = k") (auto simp: numbered_def)
qed

lemma numbered_cong:
  assumes "\<And>r. key (f r) = key r" "\<And>r. no (f r) = no r"
  shows "numbered key no (update_where P f rs) \<longleftrightarrow> numbered key no rs"
proof -
  have "map g (filter (\<lambda>r. key r = k) (update_where P f rs)) = map g (filter (\<lambda>r. key r = k) rs)"
    if "\<And>r. g (f r) = g r" for k and g :: "'a \<Rightarrow> int"
    using that assms(1) by (induction rs) (auto simp: update_where_def)
  moreover have "length (filter (\<lambda>r. key r = k) (update_where P f rs)) = length (filter (\<lambda>r. key r = k) rs)" for k
    using assms(1) by (induction rs) (auto simp: update_where_def)
  ultimately show ?thesis using assms(2) by (simp add: numbered_def)
qed

lemma numbered_fresh:
  assumes "numbered key no rs"
  shows "(k, int (length (filter (\<lambda>x. key x = k) rs)) + 1) \<notin> (\<lambda>r. (key r, no r)) ` set rs"
proof
  assume "(k, int (length (filter (\<lambda>x. key x = k) rs)) + 1) \<in> (\<lambda>r. (key r, no r)) ` set rs"
  then have "int (length (filter (\<lambda>x. key x = k) rs)) + 1 \<in> set (map no (filter (\<lambda>x. key x = k) rs))"
    by auto
  then show False using assms unfolding numbered_def by auto
qed

section \<open>The invariant\<close>

definition runs_ok :: "gstore \<Rightarrow> bool" where
  "runs_ok s \<longleftrightarrow> distinct (map ru_run_id (gs_runs s))
     \<and> (\<forall>r \<in> set (gs_runs s). ru_state r \<noteq> Run_AWAITING_ANSWER \<and> 0 < ru_max_rounds r)"

definition round_ok :: "gate_round \<Rightarrow> bool" where
  "round_ok r \<longleftrightarrow>
     (ro_review_snapshot r = None \<longleftrightarrow> ro_state r = Round_OPEN)
     \<and> (ro_state r \<in> {Round_YES, Round_NO} \<longrightarrow>
          ro_subject_sha r \<noteq> None \<and> ro_report_bytes_sha r \<noteq> None \<and> ro_verdict_report_sha r \<noteq> None)
     \<and> (ro_closed_at r \<noteq> None \<longleftrightarrow> ro_state r \<in> {Round_YES, Round_NO})
     \<and> ro_state r \<noteq> Round_ABANDONED"

definition rounds_ok :: "gstore \<Rightarrow> bool" where
  "rounds_ok s \<longleftrightarrow> distinct (map ro_round_id (gs_rounds s)) \<and> numbered ro_run_id ro_round_no (gs_rounds s)
     \<and> (\<forall>r \<in> set (gs_rounds s). round_ok r \<and> ro_run_id r \<in> ru_run_id ` set (gs_runs s))"

definition effects_ok :: "gstore \<Rightarrow> bool" where
  "effects_ok s \<longleftrightarrow> distinct (map ei_effect_id (gs_intents s)) \<and> distinct (map er_effect_id (gs_results s))
     \<and> er_effect_id ` set (gs_results s) \<subseteq> ei_effect_id ` set (gs_intents s)"

definition finding_rows_ok :: "gstore \<Rightarrow> bool" where
  "finding_rows_ok s \<longleftrightarrow> distinct (map fr_finding_id (gs_findings s))
     \<and> numbered dr_finding_id dr_seq (gs_dispositions s)
     \<and> (\<forall>f \<in> set (gs_findings s). (fr_raised_in_round f, fr_run_id f) \<in> (\<lambda>r. (ro_round_id r, ro_run_id r)) ` set (gs_rounds s))
     \<and> (\<forall>d \<in> set (gs_dispositions s). dr_finding_id d \<in> fr_finding_id ` set (gs_findings s)
          \<and> validate_disposition (dr_disposition d) = Inr (dr_disposition d))"

definition question_ok :: "question_answer list \<Rightarrow> round_question \<Rightarrow> bool" where
  "question_ok answers q \<longleftrightarrow>
     (case qu_answer_event_id q of
        None \<Rightarrow> qu_state q \<noteq> Q_ANSWERED
      | Some e \<Rightarrow> qu_state q = Q_ANSWERED
          \<and> (\<exists>a \<in> set answers. qa_answer_event_id a = e \<and> qa_question_id a = qu_question_id q))
     \<and> (\<exists>d. qu_dispatch_prior_state q = Some d \<and> dispatch_may_be_suspended d)"

definition request_key :: "round_question \<Rightarrow> string \<times> string" where
  "request_key q = (qu_client_request_id q, qu_dispatch_id q)"

definition questions_ok :: "gstore \<Rightarrow> bool" where
  "questions_ok s \<longleftrightarrow> distinct (map qu_question_id (gs_questions s))
     \<and> distinct (map qu_dispatch_id (filter is_open (gs_questions s)))
     \<and> distinct (map request_key (gs_questions s))
     \<and> map ni_question_id (gs_notices s) = map qu_question_id (gs_questions s)
     \<and> (\<forall>q \<in> set (gs_questions s). question_ok (gs_answers s) q \<and> qu_dispatch_id q \<in> di_dispatch_id ` set (gs_dispatches s))"

definition answers_ok :: "gstore \<Rightarrow> bool" where
  "answers_ok s \<longleftrightarrow> distinct (map qa_answer_event_id (gs_answers s))
     \<and> map ad_answer_event_id (gs_deliveries s) = map qa_answer_event_id (gs_answers s)
     \<and> (\<forall>a \<in> set (gs_answers s). \<exists>q \<in> set (gs_questions s).
          qu_question_id q = qa_question_id a \<and> qu_answer_event_id q = Some (qa_answer_event_id a))"

definition gate_ok :: "gstore \<Rightarrow> bool" where
  "gate_ok s \<longleftrightarrow> runs_ok s \<and> rounds_ok s \<and> effects_ok s \<and> finding_rows_ok s \<and> questions_ok s \<and> answers_ok s
     \<and> distinct (map di_dispatch_id (gs_dispatches s)) \<and> distinct (map cr_round_id (gs_coverage s))
     \<and> distinct (map ot_client_request_id (gs_transfers s))"

section \<open>How rows change\<close>

definition run_row_evolves :: "gate_run \<Rightarrow> gate_run \<Rightarrow> bool" where
  "run_row_evolves r r' \<longleftrightarrow> ru_wp r' = ru_wp r \<and> ru_lane r' = ru_lane r \<and> ru_max_rounds r' = ru_max_rounds r
     \<and> ru_row_version r \<le> ru_row_version r' \<and> (ru_row_version r' = ru_row_version r \<longrightarrow> r' = r)
     \<and> (legal_run (ru_state r) = [] \<longrightarrow> ru_state r' = ru_state r)"

definition round_evolves :: "gate_round \<Rightarrow> gate_round \<Rightarrow> bool" where
  "round_evolves r r' \<longleftrightarrow> ro_run_id r' = ro_run_id r \<and> ro_round_no r' = ro_round_no r
     \<and> ro_build_inputs r' = ro_build_inputs r \<and> ro_execution_target r' = ro_execution_target r
     \<and> (ro_review_snapshot r \<noteq> None \<longrightarrow> ro_review_snapshot r' = ro_review_snapshot r)
     \<and> ro_row_version r \<le> ro_row_version r' \<and> (ro_row_version r' = ro_row_version r \<longrightarrow> r' = r)
     \<and> (legal_round (ro_state r) = [] \<longrightarrow> r' = r)"

definition asked_columns :: "round_question \<Rightarrow> string \<times> string option \<times> string \<times> time \<times> time \<times> string \<times> dispatch_state option" where
  "asked_columns q = (qu_dispatch_id q, qu_round_id q, qu_client_request_id q, qu_asked_at q, qu_expires_at q,
     qu_question q, qu_dispatch_prior_state q)"

definition settled_columns :: "round_question \<Rightarrow> question_state \<times> string option \<times> string \<times> int \<times> int" where
  "settled_columns q = (qu_state q, qu_answer_event_id q, qu_owner_conversation q, qu_owner_epoch q, qu_row_version q)"

definition question_evolves :: "round_question \<Rightarrow> round_question \<Rightarrow> bool" where
  "question_evolves q q' \<longleftrightarrow> asked_columns q' = asked_columns q
     \<and> (\<not> is_open q \<longrightarrow> settled_columns q' = settled_columns q)
     \<and> (qu_state q = Q_ESCALATED \<longrightarrow> qu_state q' \<noteq> Q_PENDING)
     \<and> qu_row_version q \<le> qu_row_version q'"

definition table_evolves :: "('r \<Rightarrow> 'k) \<Rightarrow> ('r \<Rightarrow> 'r \<Rightarrow> bool) \<Rightarrow> 'r list \<Rightarrow> 'r list \<Rightarrow> bool" where
  "table_evolves key R xs ys \<longleftrightarrow> (\<forall>x \<in> set xs. \<exists>y \<in> set ys. key y = key x \<and> R x y)"

definition gate_evolves :: "gstore \<Rightarrow> gstore \<Rightarrow> bool" where
  "gate_evolves s t \<longleftrightarrow> table_evolves ru_run_id run_row_evolves (gs_runs s) (gs_runs t)
     \<and> table_evolves ro_round_id round_evolves (gs_rounds s) (gs_rounds t)
     \<and> table_evolves qu_question_id question_evolves (gs_questions s) (gs_questions t)
     \<and> prefix (gs_answers s) (gs_answers t) \<and> prefix (gs_intents s) (gs_intents t)
     \<and> prefix (gs_findings s) (gs_findings t) \<and> prefix (gs_dispositions s) (gs_dispositions t)
     \<and> prefix (gs_transfers s) (gs_transfers t)"

definition gate_good :: "gstore \<Rightarrow> gstore \<Rightarrow> bool" where
  "gate_good s t \<longleftrightarrow> (gate_ok s \<longrightarrow> gate_ok t \<and> gate_evolves s t)"

lemma run_row_evolves_refl [simp]: "run_row_evolves r r"
  by (simp add: run_row_evolves_def)

lemma round_evolves_refl [simp]: "round_evolves r r"
  by (simp add: round_evolves_def)

lemma question_evolves_refl [simp]: "question_evolves q q"
  by (simp add: question_evolves_def)

lemma run_row_evolves_trans: "run_row_evolves a b \<Longrightarrow> run_row_evolves b c \<Longrightarrow> run_row_evolves a c"
  unfolding run_row_evolves_def by (auto simp: order_antisym)

lemma round_evolves_trans: "round_evolves a b \<Longrightarrow> round_evolves b c \<Longrightarrow> round_evolves a c"
  unfolding round_evolves_def by (auto simp: order_antisym)

lemma question_evolves_trans:
  assumes "question_evolves a b" "question_evolves b c"
  shows "question_evolves a c"
proof -
  have st: "qu_state q = fst (settled_columns q)" for q by (simp add: settled_columns_def)
  have "\<not> is_open b" if "\<not> is_open a" using that assms(1) by (auto simp: question_evolves_def is_open_def st)
  moreover have "qu_state c \<noteq> Q_PENDING" if "qu_state a = Q_ESCALATED"
  proof (cases "is_open b")
    case True
    then have "qu_state b = Q_ESCALATED" using that assms(1) by (auto simp: question_evolves_def is_open_def)
    then show ?thesis using assms(2) by (simp add: question_evolves_def)
  next
    case False
    then show ?thesis using assms(2) by (auto simp: question_evolves_def is_open_def st)
  qed
  ultimately show ?thesis using assms by (auto simp: question_evolves_def)
qed

lemma table_evolves_refl: "(\<And>x. R x x) \<Longrightarrow> table_evolves key R xs xs"
  by (auto simp: table_evolves_def)

lemma table_evolves_trans:
  "table_evolves key R xs ys \<Longrightarrow> table_evolves key R ys zs \<Longrightarrow> (\<And>a b c. R a b \<Longrightarrow> R b c \<Longrightarrow> R a c) \<Longrightarrow>
   table_evolves key R xs zs"
  unfolding table_evolves_def by metis

lemma table_evolves_append: "(\<And>x. R x x) \<Longrightarrow> table_evolves key R xs (xs @ ys)"
  by (auto simp: table_evolves_def)

lemma table_evolves_update:
  "(\<And>x. key (f x) = key x) \<Longrightarrow> (\<And>x. x \<in> set xs \<Longrightarrow> P x \<Longrightarrow> R x (f x)) \<Longrightarrow> (\<And>x. R x x) \<Longrightarrow>
   table_evolves key R xs (update_where P f xs)"
  unfolding table_evolves_def
proof
  fix x
  assume a: "\<And>x. key (f x) = key x" "\<And>x. x \<in> set xs \<Longrightarrow> P x \<Longrightarrow> R x (f x)" "\<And>x. R x x" and x: "x \<in> set xs"
  let ?y = "if P x then f x else x"
  have "?y \<in> set (update_where P f xs)" using x by (simp add: set_update_where)
  moreover have "key ?y = key x \<and> R x ?y" using a x by simp
  ultimately show "\<exists>y \<in> set (update_where P f xs). key y = key x \<and> R x y" by blast
qed

lemmas evolve_refls = table_evolves_refl[of run_row_evolves] table_evolves_refl[of round_evolves]
  table_evolves_refl[of question_evolves]

lemma gate_evolves_refl: "gate_evolves s s"
  by (simp add: gate_evolves_def evolve_refls)

lemma gate_evolves_trans: "gate_evolves a b \<Longrightarrow> gate_evolves b c \<Longrightarrow> gate_evolves a c"
  unfolding gate_evolves_def
  by (intro conjI; elim conjE;
      (erule (1) prefix_order.trans | erule (1) table_evolves_trans,
       blast intro: run_row_evolves_trans round_evolves_trans question_evolves_trans))

lemma gate_good_refl [simp]: "gate_good s s"
  by (simp add: gate_good_def gate_evolves_refl)

lemma gate_good_trans: "gate_good a b \<Longrightarrow> gate_good b c \<Longrightarrow> gate_good a c"
  unfolding gate_good_def using gate_evolves_trans by blast

section \<open>Preservation\<close>

lemma image_update_where: "(\<And>r. h (f r) = h r) \<Longrightarrow> h ` set (update_where P f rs) = h ` set rs"
  using map_update_where_key[of h f P rs] by (metis list.set_map)

lemma gate_okD:
  assumes "gate_ok s"
  shows "runs_ok s" "rounds_ok s" "effects_ok s" "finding_rows_ok s" "questions_ok s" "answers_ok s"
    "distinct (map di_dispatch_id (gs_dispatches s))" "distinct (map cr_round_id (gs_coverage s))"
    "distinct (map ot_client_request_id (gs_transfers s))"
  using assms by (simp_all add: gate_ok_def)

text \<open>A write that leaves the other tables alone needs only its own conditions.\<close>

lemma gate_good_runs:
  assumes keep: "\<And>r. ru_run_id (f r) = ru_run_id r"
    and each: "\<And>r. r \<in> set (gs_runs s) \<Longrightarrow> P r \<Longrightarrow> gate_ok s \<Longrightarrow>
      run_row_evolves r (f r) \<and> ru_state (f r) \<noteq> Run_AWAITING_ANSWER \<and> ru_max_rounds (f r) = ru_max_rounds r"
  shows "gate_good s (s\<lparr>gs_runs := update_where P f (gs_runs s)\<rparr>)"
  unfolding gate_good_def
proof
  assume ok: "gate_ok s"
  have "runs_ok (s\<lparr>gs_runs := update_where P f (gs_runs s)\<rparr>)"
    using gate_okD(1)[OF ok] each ok
    by (auto simp: runs_ok_def map_update_where_key[of ru_run_id f] keep set_update_where)
  moreover have "rounds_ok (s\<lparr>gs_runs := update_where P f (gs_runs s)\<rparr>)"
    using gate_okD(2)[OF ok] image_update_where[of ru_run_id f] keep by (simp add: rounds_ok_def)
  moreover have "gate_evolves s (s\<lparr>gs_runs := update_where P f (gs_runs s)\<rparr>)"
    using table_evolves_update[of ru_run_id f "gs_runs s" P run_row_evolves] keep each ok
    by (simp add: gate_evolves_def evolve_refls)
  ultimately show "gate_ok (s\<lparr>gs_runs := update_where P f (gs_runs s)\<rparr>)
      \<and> gate_evolves s (s\<lparr>gs_runs := update_where P f (gs_runs s)\<rparr>)"
    using ok by (simp add: gate_ok_def effects_ok_def finding_rows_ok_def questions_ok_def answers_ok_def)
qed

lemma gate_good_rounds:
  assumes keep: "\<And>r. ro_round_id (f r) = ro_round_id r" "\<And>r. ro_run_id (f r) = ro_run_id r"
      "\<And>r. ro_round_no (f r) = ro_round_no r"
    and each: "\<And>r. r \<in> set (gs_rounds s) \<Longrightarrow> P r \<Longrightarrow> gate_ok s \<Longrightarrow> round_ok r \<Longrightarrow> round_evolves r (f r) \<and> round_ok (f r)"
  shows "gate_good s (s\<lparr>gs_rounds := update_where P f (gs_rounds s)\<rparr>)"
  unfolding gate_good_def
proof
  assume ok: "gate_ok s"
  let ?t = "s\<lparr>gs_rounds := update_where P f (gs_rounds s)\<rparr>"
  have rok: "round_ok r" if "r \<in> set (gs_rounds s)" for r using that ok by (simp add: gate_ok_def rounds_ok_def)
  have "rounds_ok ?t"
    using gate_okD(2)[OF ok] each ok
    by (auto simp: rounds_ok_def map_update_where_key[of ro_round_id f] keep set_update_where numbered_cong)
  moreover have "finding_rows_ok ?t"
    using gate_okD(4)[OF ok] image_update_where[of "\<lambda>r. (ro_round_id r, ro_run_id r)" f] keep
    by (simp add: finding_rows_ok_def)
  moreover have "gate_evolves s ?t"
    using table_evolves_update[of ro_round_id f "gs_rounds s" P round_evolves] keep each ok rok
    by (simp add: gate_evolves_def evolve_refls)
  ultimately show "gate_ok ?t \<and> gate_evolves s ?t"
    using ok by (simp add: gate_ok_def effects_ok_def runs_ok_def questions_ok_def answers_ok_def)
qed

lemma open_run_good: "gate_good s (snd (open_run new_id wp lane owner ep max_rounds src inp s))"
proof (cases "snd (open_run new_id wp lane owner ep max_rounds src inp s) = s")
  case False
  define run where "run = \<lparr>ru_run_id = new_id, ru_wp = wp, ru_lane = lane, ru_workflow_source_sha = src,
    ru_input_sha = inp, ru_owner_conversation = owner, ru_owner_epoch = ep, ru_max_rounds = max_rounds,
    ru_row_version = 1, ru_state = Run_OPEN\<rparr>"
  have t: "snd (open_run new_id wp lane owner ep max_rounds src inp s) = s\<lparr>gs_runs := gs_runs s @ [run]\<rparr>"
    and new: "new_id \<notin> ru_run_id ` set (gs_runs s)" "0 < max_rounds"
    using False by (auto simp: open_run_def Let_def run_def validate_max_rounds_def split: if_splits)
  have sel: "ru_run_id run = new_id" "ru_max_rounds run = max_rounds" "ru_state run = Run_OPEN"
    by (simp_all add: run_def)
  show ?thesis
    unfolding t gate_good_def using new
    by (auto simp: gate_ok_def runs_ok_def rounds_ok_def effects_ok_def finding_rows_ok_def questions_ok_def
        answers_ok_def gate_evolves_def evolve_refls table_evolves_append sel)
qed simp

lemma open_round_good:
  assumes "run_id \<in> ru_run_id ` set (gs_runs s)"
  shows "gate_good s (snd (open_round new_id now run_id inp tgt pred cmd tier gen s))"
proof (cases "snd (open_round new_id now run_id inp tgt pred cmd tier gen s) = s")
  case False
  define r where "r = new_round new_id now run_id (max_round_no run_id s + 1) inp tgt pred cmd tier gen"
  have t: "snd (open_round new_id now run_id inp tgt pred cmd tier gen s) = s\<lparr>gs_rounds := gs_rounds s @ [r]\<rparr>"
    and new: "new_id \<notin> ro_round_id ` set (gs_rounds s)"
    using False by (auto simp: open_round_def Let_def r_def split: if_splits)
  have sel: "ro_round_id r = new_id" "ro_run_id r = run_id" "ro_round_no r = max_round_no run_id s + 1" "round_ok r"
    by (simp_all add: r_def new_round_def round_ok_def)
  have no: "numbered ro_run_id ro_round_no (gs_rounds s @ [r])" if "rounds_ok s"
    by (rule numbered_append) (use that in \<open>auto simp: rounds_ok_def sel max_round_no_def numbered_max\<close>)
  show ?thesis
    unfolding t gate_good_def using new assms no
    by (auto simp: gate_ok_def runs_ok_def rounds_ok_def effects_ok_def finding_rows_ok_def questions_ok_def
        answers_ok_def gate_evolves_def evolve_refls table_evolves_append sel)
qed simp

text \<open>What a caller knows of the row whose version it read.\<close>

definition held :: "string \<Rightarrow> int \<Rightarrow> (gate_round \<Rightarrow> bool) \<Rightarrow> gstore \<Rightarrow> bool" where
  "held round_id version Q s \<longleftrightarrow>
     (\<forall>r \<in> set (gs_rounds s). ro_round_id r = round_id \<and> ro_row_version r = version \<longrightarrow> Q r)"

lemma update_round_good:
  assumes keep: "\<And>r. ro_round_id (f r) = ro_round_id r" "\<And>r. ro_run_id (f r) = ro_run_id r"
      "\<And>r. ro_round_no (f r) = ro_round_no r" "\<And>r. ro_row_version (f r) = ro_row_version r"
    and each: "\<And>r. r \<in> set (gs_rounds s) \<Longrightarrow> rule r = Inr () \<Longrightarrow> ro_round_id r = i \<Longrightarrow> ro_row_version r = v \<Longrightarrow> round_ok r \<Longrightarrow>
      (let r' = (f r)\<lparr>ro_row_version := v + 1\<rparr> in round_evolves r r' \<and> round_ok r')"
  shows "gate_good s (snd (update_round i v rule f s))"
proof (cases "snd (update_round i v rule f s) = s")
  case False
  let ?P = "\<lambda>r. ro_round_id r = i \<and> ro_row_version r = v"
  let ?g = "\<lambda>r. (f r)\<lparr>ro_row_version := ro_row_version r + 1\<rparr>"
  obtain current where cur: "fetchone (\<lambda>r. ro_round_id r = i) (gs_rounds s) = Some current" "rule current = Inr ()"
    and t: "snd (update_round i v rule f s) = s\<lparr>gs_rounds := update_where ?P ?g (gs_rounds s)\<rparr>"
    using False by (auto simp: update_round_def get_round_locked_def Let_def split: option.splits sum.splits if_splits)
  have only: "r = current" if "gate_ok s" "r \<in> set (gs_rounds s)" "ro_round_id r = i" for r
    using that cur(1) fetchone_key_eq[of ro_round_id "gs_rounds s" r i] by (simp add: gate_ok_def rounds_ok_def)
  show ?thesis
    unfolding t
  proof (rule gate_good_rounds)
    fix r
    assume r: "r \<in> set (gs_rounds s)" "?P r" "gate_ok s" "round_ok r"
    then have "rule r = Inr ()" using only cur(2) by simp
    then show "round_evolves r (?g r) \<and> round_ok (?g r)"
      using each[of r] r by (simp add: Let_def)
  qed (simp_all add: keep)
qed simp

lemma freeze_good: "gate_good s (snd (freeze_review_snapshot i m v s))"
  unfolding freeze_review_snapshot_def
  by (rule update_round_good)
    (auto simp: Let_def round_evolves_def round_ok_def next_round_state_def split: if_splits)

lemma transition_round_good:
  assumes "target \<in> {Round_ADJUDICATING, Round_YES, Round_NO}"
    and "target \<noteq> Round_ADJUDICATING \<Longrightarrow> held i v (\<lambda>r. ro_subject_sha r \<noteq> None \<and> ro_report_bytes_sha r \<noteq> None
           \<and> ro_verdict_report_sha r \<noteq> None) s"
  shows "gate_good s (snd (transition_round i target v now s))"
  unfolding transition_round_def
proof (rule update_round_good)
  fix r
  assume r: "r \<in> set (gs_rounds s)" "ro_round_id r = i" "ro_row_version r = v" "round_ok r"
    and legal: "map_sum id (\<lambda>_. ()) (next_round_state (ro_state r) target) = Inr ()"
  have "target \<in> set (legal_round (ro_state r))"
    using legal by (simp add: next_round_state_def split: if_splits)
  then show "let r' = r\<lparr>ro_state := target, ro_closed_at := if target \<in> {Round_YES, Round_NO, Round_ABANDONED}
         then Some now else None\<rparr>\<lparr>ro_row_version := v + 1\<rparr> in round_evolves r r' \<and> round_ok r'"
    using r assms by (cases "ro_state r") (auto simp: Let_def round_evolves_def round_ok_def held_def)
qed simp_all

lemma set_round_report_good:
  assumes "held i v (\<lambda>r. ro_state r = Round_ADJUDICATING) s"
  shows "gate_good s (snd (set_round_report i a b c v s))"
  unfolding set_round_report_def
  by (rule update_round_good)
    (use assms in \<open>auto simp: Let_def round_evolves_def round_ok_def held_def\<close>)

lemma transition_run_good: "gate_good s (snd (transition_run i target v s))"
proof (cases "snd (transition_run i target v s) = s")
  case False
  let ?P = "\<lambda>r. ru_run_id r = i \<and> ru_row_version r = v"
  let ?g = "\<lambda>r. r\<lparr>ru_state := target, ru_row_version := ru_row_version r + 1\<rparr>"
  obtain current where cur: "fetchone (\<lambda>r. ru_run_id r = i) (gs_runs s) = Some current"
      "target \<in> set (legal_run (ru_state current))"
    and t: "snd (transition_run i target v s) = s\<lparr>gs_runs := update_where ?P ?g (gs_runs s)\<rparr>"
    using False by (auto simp: transition_run_def get_run_locked_def row_to_run_def next_run_state_Inr Let_def
        split: option.splits sum.splits if_splits)
  have only: "r = current" if "gate_ok s" "r \<in> set (gs_runs s)" "ru_run_id r = i" for r
    using that cur(1) fetchone_key_eq[of ru_run_id "gs_runs s" r i] by (simp add: gate_ok_def runs_ok_def)
  have "target \<noteq> Run_AWAITING_ANSWER" using cur(2) by auto
  then show ?thesis
    unfolding t using only cur(2) by (intro gate_good_runs) (auto simp: run_row_evolves_def)
qed simp

lemmas gate_parts = gate_ok_def runs_ok_def rounds_ok_def effects_ok_def finding_rows_ok_def questions_ok_def
  answers_ok_def gate_evolves_def

lemma replace_row_keys:
  "key ` set (replace_row key r rs) = insert (key r) (key ` set rs)"
  "distinct (map key rs) \<Longrightarrow> distinct (map key (replace_row key r rs))"
proof -
  have m: "map key (replace_row key r rs) = (if key r \<in> key ` set rs then map key rs else map key rs @ [key r])"
    by (simp add: replace_row_def update_where_def comp_def cong: map_cong)
  then show "distinct (map key rs) \<Longrightarrow> distinct (map key (replace_row key r rs))"
    by (simp split: if_splits)
  have "key ` set (replace_row key r rs) = set (map key (replace_row key r rs))" by simp
  then show "key ` set (replace_row key r rs) = insert (key r) (key ` set rs)"
    unfolding m by (auto split: if_splits)
qed

lemma gate_good_dispatches:
  assumes "distinct (map di_dispatch_id (gs_dispatches s)) \<Longrightarrow> distinct (map di_dispatch_id ds)"
    and "di_dispatch_id ` set (gs_dispatches s) \<subseteq> di_dispatch_id ` set ds"
  shows "gate_good s (s\<lparr>gs_dispatches := ds\<rparr>)"
  unfolding gate_good_def using assms by (auto simp: gate_parts evolve_refls)

lemma record_dispatch_good: "gate_good s (snd (record_dispatch d s))"
  by (simp add: record_dispatch_def) (rule gate_good_dispatches; simp add: replace_row_keys subset_insertI)

lemma ensure_dispatch_good: "gate_good s (snd (ensure_dispatch d s))"
  by (simp add: ensure_dispatch_def)
    (rule gate_good_dispatches; simp add: insert_ignore_keys distinct_insert_ignore subset_insertI)

lemma set_dispatch_state_good: "gate_good s (set_dispatch_state i P d s)"
  unfolding set_dispatch_state_def
  by (rule gate_good_dispatches) (simp_all add: map_update_where_key image_update_where)

lemma insert_ignore_prefix: "prefix rs (insert_ignore key r rs)"
  by (simp add: insert_ignore_def)

lemma record_effect_intent_good: "gate_good s (snd (record_effect_intent i s))"
  unfolding gate_good_def
  by (auto simp: gate_parts evolve_refls record_effect_intent_def Let_def insert_ignore_keys distinct_insert_ignore
      insert_ignore_prefix)

lemma record_effect_result_good: "gate_good s (snd (record_effect_result r s))"
  unfolding gate_good_def
  by (auto simp: gate_parts evolve_refls record_effect_result_def replace_row_keys)

lemma set_consumer_coverage_good: "gate_good s (snd (set_consumer_coverage i c s))"
  unfolding gate_good_def
  by (auto simp: gate_parts evolve_refls set_consumer_coverage_def replace_row_keys)

lemma raise_gate_finding_good: "gate_good s (snd (raise_gate_finding new_id now i sev st s))"
proof (cases "snd (raise_gate_finding new_id now i sev st s) = s")
  case False
  obtain round where round: "fetchone (\<lambda>r. ro_round_id r = i) (gs_rounds s) = Some round"
    and new: "new_id \<notin> fr_finding_id ` set (gs_findings s)"
    and t: "snd (raise_gate_finding new_id now i sev st s) = s\<lparr>gs_findings := gs_findings s @
       [\<lparr>fr_finding_id = new_id, fr_raised_in_round = i, fr_run_id = ro_run_id round, fr_severity = sev,
         fr_statement = st, fr_created_at = now\<rparr>]\<rparr>"
    using False by (auto simp: raise_gate_finding_def Let_def split: option.splits if_splits)
  have "(i, ro_run_id round) \<in> (\<lambda>r. (ro_round_id r, ro_run_id r)) ` set (gs_rounds s)"
    using fetchone_SomeD[OF round] by auto
  then show ?thesis
    unfolding t gate_good_def using new by (auto simp: gate_parts evolve_refls)
qed simp

lemma append_disposition_good:
  assumes "validate_disposition d = Inr d"
  shows "gate_good s (snd (append_disposition i d s))"
proof (cases "snd (append_disposition i d s) = s")
  case False
  define r where "r = \<lparr>dr_finding_id = i, dr_seq = next_seq i s, dr_disposition = d\<rparr>"
  have t: "snd (append_disposition i d s) = s\<lparr>gs_dispositions := gs_dispositions s @ [r]\<rparr>"
    and ex: "i \<in> fr_finding_id ` set (gs_findings s)"
    using False by (auto simp: append_disposition_def Let_def r_def split: sum.splits if_splits)
  have sel: "dr_finding_id r = i" "dr_seq r = next_seq i s" "dr_disposition r = d" by (simp_all add: r_def)
  have "numbered dr_finding_id dr_seq (gs_dispositions s @ [r])" if "finding_rows_ok s"
    by (rule numbered_append) (use that in \<open>auto simp: finding_rows_ok_def sel next_seq_def numbered_max\<close>)
  then show ?thesis
    unfolding t gate_good_def using ex assms by (auto simp: gate_parts evolve_refls sel)
qed simp

text \<open>Questions.\<close>

lemma distinct_open_update:
  assumes "\<And>q. qu_dispatch_id (f q) = qu_dispatch_id q" "\<And>q. q \<in> set qs \<Longrightarrow> P q \<Longrightarrow> is_open (f q) \<Longrightarrow> is_open q"
    and "distinct (map qu_dispatch_id (filter is_open qs))"
  shows "distinct (map qu_dispatch_id (filter is_open (update_where P f qs)))"
    (is "distinct (map _ (?u qs))")
proof -
  have "set (map qu_dispatch_id (?u qs)) \<subseteq> set (map qu_dispatch_id (filter is_open qs))
      \<and> distinct (map qu_dispatch_id (?u qs))"
    using assms(2,3)
  proof (induction qs)
    case (Cons q qs)
    then have "set (map qu_dispatch_id (?u qs)) \<subseteq> set (map qu_dispatch_id (filter is_open qs))
        \<and> distinct (map qu_dispatch_id (?u qs))"
      by (auto split: if_splits)
    moreover have "is_open (f q) \<Longrightarrow> P q \<Longrightarrow> is_open q" using Cons.prems(1) by simp
    ultimately show ?case
      using Cons.prems(2) by (auto simp: update_where_def assms(1) split: if_splits)
  qed (simp add: update_where_def)
  then show ?thesis by simp
qed

lemma gate_good_questions:
  assumes keep: "\<And>q. qu_question_id (f q) = qu_question_id q" "\<And>q. qu_dispatch_id (f q) = qu_dispatch_id q"
      "\<And>q. request_key (f q) = request_key q"
    and each: "\<And>q. q \<in> set (gs_questions s) \<Longrightarrow> P q \<Longrightarrow> question_ok (gs_answers s) q \<Longrightarrow>
      question_evolves q (f q) \<and> question_ok (gs_answers s) (f q) \<and> (is_open (f q) \<longrightarrow> is_open q)
      \<and> qu_answer_event_id (f q) = qu_answer_event_id q"
  shows "gate_good s (set_question P f s)"
  unfolding gate_good_def
proof
  assume ok: "gate_ok s"
  let ?t = "set_question P f s"
  have t: "?t = s\<lparr>gs_questions := update_where P f (gs_questions s)\<rparr>" by (simp add: set_question_def)
  have qok: "question_ok (gs_answers s) q" if "q \<in> set (gs_questions s)" for q
    using that ok by (simp add: gate_ok_def questions_ok_def)
  have "questions_ok ?t"
    using gate_okD(5)[OF ok] distinct_open_update[of f "gs_questions s" P] each qok
    by (auto simp: t questions_ok_def map_update_where_key[of qu_question_id f]
        map_update_where_key[of request_key f] keep set_update_where)
  moreover have "answers_ok ?t"
  proof -
    have "\<exists>q \<in> set (update_where P f (gs_questions s)). qu_question_id q = qa_question_id a
        \<and> qu_answer_event_id q = Some (qa_answer_event_id a)" if a: "a \<in> set (gs_answers s)" for a
    proof -
      obtain q where q: "q \<in> set (gs_questions s)" "qu_question_id q = qa_question_id a"
        "qu_answer_event_id q = Some (qa_answer_event_id a)"
        using a gate_okD(6)[OF ok] by (auto simp: answers_ok_def)
      let ?q = "if P q then f q else q"
      have "?q \<in> set (update_where P f (gs_questions s))" using q(1) by (simp add: set_update_where)
      moreover have "qu_question_id ?q = qa_question_id a" "qu_answer_event_id ?q = Some (qa_answer_event_id a)"
        using q keep each[OF q(1) _ qok[OF q(1)]] by simp_all
      ultimately show ?thesis by blast
    qed
    then show ?thesis using gate_okD(6)[OF ok] by (simp add: t answers_ok_def)
  qed
  moreover have "gate_evolves s ?t"
    using table_evolves_update[of qu_question_id f "gs_questions s" P question_evolves] keep each qok
    by (simp add: t gate_evolves_def evolve_refls)
  ultimately show "gate_ok ?t \<and> gate_evolves s ?t"
    using ok by (simp add: t gate_ok_def effects_ok_def runs_ok_def rounds_ok_def finding_rows_ok_def)
qed

lemma insert_question_good:
  assumes "\<forall>q \<in> set (gs_questions s). qu_dispatch_id q = qu_dispatch_id r \<longrightarrow> \<not> is_open q"
    and "qu_question_id r \<notin> qu_question_id ` set (gs_questions s)" "request_key r \<notin> request_key ` set (gs_questions s)"
    and "qu_dispatch_id r \<in> di_dispatch_id ` set (gs_dispatches s)"
    and "dispatch_may_be_suspended d" "qu_answer_event_id r = None" "qu_state r = Q_PENDING"
  shows "gate_good s (insert_question r d s)"
proof -
  let ?n = "\<lparr>ni_question_id = qu_question_id r, ni_state = N_PENDING, ni_msg_id = None, ni_attempts = 0,
    ni_last_error = None, ni_settled_at = None\<rparr>"
  let ?q = "r\<lparr>qu_dispatch_prior_state := Some d\<rparr>"
  let ?t = "s\<lparr>gs_questions := gs_questions s @ [?q], gs_notices := gs_notices s @ [?n]\<rparr>"
  have "gate_good s ?t"
    unfolding gate_good_def using assms
    by (auto simp: gate_parts evolve_refls table_evolves_append question_ok_def is_open_def request_key_def)
  then show ?thesis
    unfolding insert_question_def using set_dispatch_state_good gate_good_trans by blast
qed

lemma get_dispatch_SomeD: "get_dispatch i s = Some d \<Longrightarrow> d \<in> set (gs_dispatches s) \<and> di_dispatch_id d = i"
  unfolding get_dispatch_def by (rule fetchone_SomeD)

text \<open>The outcomes of an ask that leaves a new row.\<close>

lemma ask_question_new:
  assumes "snd (ask_question new_id a s) \<noteq> s \<or> (\<exists>r. fst (ask_question new_id a s) = Inr (r, False))"
  obtains d where "get_dispatch (as_dispatch_id a) s = Some d" "dispatch_may_be_suspended (di_state d)"
    "\<forall>q \<in> set (gs_questions s). qu_dispatch_id q = as_dispatch_id a \<longrightarrow> \<not> is_open q"
    "new_id \<notin> qu_question_id ` set (gs_questions s)" "valid_question (new_question new_id a)"
    "\<forall>q \<in> set (gs_questions s). qu_client_request_id q = as_client_request_id a \<longrightarrow> qu_dispatch_id q \<noteq> as_dispatch_id a"
    "ask_question new_id a s = (Inr (new_question new_id a, False), insert_question (new_question new_id a) (di_state d) s)"
  using assms
  by (auto simp: ask_question_def Let_def split: option.splits sum.splits if_splits)

lemma ask_question_good: "gate_good s (snd (ask_question new_id a s))"
proof (cases "snd (ask_question new_id a s) = s")
  case False
  then obtain d where d: "get_dispatch (as_dispatch_id a) s = Some d" "dispatch_may_be_suspended (di_state d)"
    "\<forall>q \<in> set (gs_questions s). qu_dispatch_id q = as_dispatch_id a \<longrightarrow> \<not> is_open q"
    "new_id \<notin> qu_question_id ` set (gs_questions s)"
    "\<forall>q \<in> set (gs_questions s). qu_client_request_id q = as_client_request_id a \<longrightarrow> qu_dispatch_id q \<noteq> as_dispatch_id a"
    and eq: "ask_question new_id a s = (Inr (new_question new_id a, False), insert_question (new_question new_id a) (di_state d) s)"
    by (rule ask_question_new[OF disjI1])
  have "as_dispatch_id a \<in> di_dispatch_id ` set (gs_dispatches s)"
    using get_dispatch_SomeD[OF d(1)] by (metis imageI)
  then show ?thesis
    using d unfolding eq snd_conv
    by (intro insert_question_good) (auto simp: new_question_def request_key_def)
qed simp

lemma settle_sel [simp]:
  "qu_question_id (settle_answered e q) = qu_question_id q" "qu_dispatch_id (settle_answered e q) = qu_dispatch_id q"
  "asked_columns (settle_answered e q) = asked_columns q" "qu_state (settle_answered e q) = Q_ANSWERED"
  "qu_answer_event_id (settle_answered e q) = Some e" "qu_row_version (settle_answered e q) = qu_row_version q + 1"
  "qu_dispatch_prior_state (settle_answered e q) = qu_dispatch_prior_state q"
  "qu_question_id (settle_escalated q) = qu_question_id q" "qu_dispatch_id (settle_escalated q) = qu_dispatch_id q"
  "asked_columns (settle_escalated q) = asked_columns q" "qu_state (settle_escalated q) = Q_ESCALATED"
  "qu_answer_event_id (settle_escalated q) = qu_answer_event_id q" "qu_row_version (settle_escalated q) = qu_row_version q + 1"
  "qu_dispatch_prior_state (settle_escalated q) = qu_dispatch_prior_state q"
  "qu_question_id (settle_expired q) = qu_question_id q" "qu_dispatch_id (settle_expired q) = qu_dispatch_id q"
  "asked_columns (settle_expired q) = asked_columns q" "qu_state (settle_expired q) = Q_EXPIRED"
  "qu_answer_event_id (settle_expired q) = qu_answer_event_id q" "qu_row_version (settle_expired q) = qu_row_version q + 1"
  "qu_dispatch_prior_state (settle_expired q) = qu_dispatch_prior_state q"
  "request_key (settle_answered e q) = request_key q" "request_key (settle_escalated q) = request_key q"
  "request_key (settle_expired q) = request_key q"
  by (simp_all add: settle_answered_def settle_escalated_def settle_expired_def asked_columns_def request_key_def)

lemma escalate_question_good: "gate_good s (snd (escalate_question i now s))"
proof (cases "snd (escalate_question i now s) = s")
  case False
  then have t: "snd (escalate_question i now s) =
      set_question (\<lambda>q. qu_question_id q = i \<and> qu_state q = Q_PENDING) settle_escalated s"
    by (auto simp: escalate_question_def split: sum.splits if_splits)
  show ?thesis
    unfolding t by (rule gate_good_questions)
      (auto simp: question_evolves_def question_ok_def is_open_def split: option.splits)
qed simp

lemma expire_one_good: "gate_good s (set_question (\<lambda>q. qu_question_id q = i \<and> is_open q) settle_expired s)"
  by (rule gate_good_questions) (auto simp: question_evolves_def question_ok_def is_open_def split: option.splits)

lemma expire_loop_good: "gate_good s (snd (expire_loop rows s))"
proof (induction rows s rule: expire_loop.induct)
  case (2 row rows s)
  show ?case
  proof (cases "row_to_question row")
    case (Inr q)
    let ?P = "\<lambda>x. qu_question_id x = qu_question_id q \<and> is_open x"
    let ?s = "release_dispatch q (set_question ?P settle_expired s)"
    have "gate_good s ?s"
      unfolding release_dispatch_def using expire_one_good set_dispatch_state_good gate_good_trans by blast
    then show ?thesis
      using 2(1)[OF Inr refl] gate_good_trans[OF _ 2(2)[OF Inr refl]] Inr
      by (auto simp: Let_def split: sum.splits prod.splits)
  qed simp
qed simp

lemma expire_due_questions_good: "gate_good s (snd (expire_due_questions now s))"
  using expire_loop_good[of s "filter (overdue now) (gs_questions s)"]
  by (auto simp: expire_due_questions_def transaction_def split: sum.splits prod.splits)

lemma mark_notice_good: "gate_good s (mark_notice_sent i m now s)" "gate_good s (mark_notice_failed i e s)"
  unfolding gate_good_def
  by (simp_all add: gate_parts evolve_refls mark_notice_sent_def mark_notice_failed_def map_update_where_key)

lemma record_consumed_good: "gate_good s (record_consumed a now s)"
proof -
  let ?f = "\<lambda>d. d\<lparr>ad_state := AD_CONSUMED, ad_settled_at := Some now\<rparr>"
  have 1: "gate_good s (set_question (\<lambda>q. qu_question_id q = qa_question_id a) (\<lambda>q. q\<lparr>qu_consumed_at := Some now\<rparr>) s)"
    by (rule gate_good_questions)
      (auto simp: question_evolves_def question_ok_def is_open_def asked_columns_def settled_columns_def request_key_def split: option.splits)
  have 2: "gate_good u (u\<lparr>gs_deliveries := update_where P ?f (gs_deliveries u)\<rparr>)" for u P
    unfolding gate_good_def by (simp add: gate_parts evolve_refls map_update_where_key)
  have "gs_deliveries (set_question P f s) = gs_deliveries s" for P f by (simp add: set_question_def)
  then show ?thesis
    unfolding record_consumed_def using gate_good_trans[OF 1 2] by simp
qed

lemma mark_answer_consumed_good: "gate_good s (snd (mark_answer_consumed e now s))"
  using record_consumed_good set_dispatch_state_good gate_good_trans
  by (fastforce simp: mark_answer_consumed_def Let_def release_dispatch_def split: option.splits sum.splits)

lemma insert_answer_good:
  assumes q: "q \<in> set (gs_questions s)" "qu_question_id q = qa_question_id a" "is_open q"
    and new: "qa_answer_event_id a \<notin> qa_answer_event_id ` set (gs_answers s)"
  shows "gate_good s (insert_answer a s)"
  unfolding gate_good_def
proof
  assume ok: "gate_ok s"
  let ?P = "\<lambda>q. qu_question_id q = qa_question_id a \<and> is_open q"
  let ?f = "settle_answered (qa_answer_event_id a)"
  let ?t = "insert_answer a s"
  have qs: "gs_questions ?t = update_where ?P ?f (gs_questions s)" and ans: "gs_answers ?t = gs_answers s @ [a]"
    by (simp_all add: insert_answer_def set_question_def)
  have qok: "question_ok (gs_answers s) x" if "x \<in> set (gs_questions s)" for x
    using that ok by (simp add: gate_ok_def questions_ok_def)
  have "questions_ok ?t"
  proof -
    have "question_ok (gs_answers s @ [a]) x'" if "x' \<in> set (gs_questions ?t)" for x'
    proof -
      from that obtain x where x: "x \<in> set (gs_questions s)" "x' = (if ?P x then ?f x else x)"
        unfolding qs set_update_where by auto
      show ?thesis
        using qok[OF x(1)] x(2) by (cases "?P x") (auto simp: question_ok_def split: option.splits)
    qed
    moreover have "distinct (map qu_dispatch_id (filter is_open (gs_questions ?t)))"
      unfolding qs by (rule distinct_open_update) (use gate_okD(5)[OF ok] in \<open>auto simp: questions_ok_def is_open_def\<close>)
    moreover have "map qu_question_id (gs_questions ?t) = map qu_question_id (gs_questions s)"
      unfolding qs by (rule map_update_where_key) simp
    moreover have "map request_key (gs_questions ?t) = map request_key (gs_questions s)"
      unfolding qs by (rule map_update_where_key) simp
    moreover have "qu_dispatch_id x \<in> di_dispatch_id ` set (gs_dispatches s)" if "x \<in> set (gs_questions ?t)" for x
      using that gate_okD(5)[OF ok] unfolding qs set_update_where questions_ok_def by auto
    moreover have "gs_notices ?t = gs_notices s" "gs_dispatches ?t = gs_dispatches s"
      by (simp_all add: insert_answer_def set_question_def)
    ultimately show ?thesis
      using gate_okD(5)[OF ok] unfolding questions_ok_def ans by simp
  qed
  moreover have "answers_ok ?t"
  proof -
    have "\<exists>x \<in> set (gs_questions ?t). qu_question_id x = qa_question_id b \<and> qu_answer_event_id x = Some (qa_answer_event_id b)"
      if b: "b \<in> set (gs_answers s @ [a])" for b
    proof (cases "b \<in> set (gs_answers s)")
      case True
      then obtain x where x: "x \<in> set (gs_questions s)" "qu_question_id x = qa_question_id b"
        "qu_answer_event_id x = Some (qa_answer_event_id b)"
        using gate_okD(6)[OF ok] by (auto simp: answers_ok_def)
      then have "\<not> is_open x" using qok[OF x(1)] by (auto simp: question_ok_def is_open_def)
      then show ?thesis using x unfolding qs set_update_where by force
    next
      case False
      with b have "b = a" by simp
      moreover have "?f q \<in> set (gs_questions ?t)" unfolding qs set_update_where using q by force
      ultimately show ?thesis using q by (intro bexI[of _ "?f q"]) simp_all
    qed
    then show ?thesis
      using gate_okD(6)[OF ok] new unfolding answers_ok_def ans
      by (simp add: insert_answer_def set_question_def)
  qed
  moreover have "gate_evolves s ?t"
  proof -
    have "table_evolves qu_question_id question_evolves (gs_questions s) (gs_questions ?t)"
      unfolding qs by (rule table_evolves_update) (auto simp: question_evolves_def is_open_def)
    then show ?thesis by (simp add: gate_evolves_def evolve_refls insert_answer_def set_question_def)
  qed
  ultimately show "gate_ok ?t \<and> gate_evolves s ?t"
    using ok by (simp add: gate_ok_def runs_ok_def rounds_ok_def effects_ok_def finding_rows_ok_def
        insert_answer_def set_question_def)
qed

text \<open>The outcome of an answer that leaves a new row.\<close>

lemma answer_question_new:
  assumes "snd (answer_question new_id i ans who req conv ep now s) \<noteq> s"
  obtains q where "q \<in> set (gs_questions s)" "qu_question_id q = i" "valid_question q"
    "fetchone (\<lambda>q. qu_question_id q = i) (gs_questions s) = Some q"
    "aa_admissible (answer_admissible q conv ep now)" "new_id \<notin> qa_answer_event_id ` set (gs_answers s)"
    "answer_question new_id i ans who req conv ep now s =
       (Inr (settle_answered new_id q, \<lparr>qa_answer_event_id = new_id, qa_question_id = i, qa_answer = ans,
          qa_answered_by = who, qa_answered_at = now, qa_client_request_id = req\<rparr>),
        insert_answer \<lparr>qa_answer_event_id = new_id, qa_question_id = i, qa_answer = ans,
          qa_answered_by = who, qa_answered_at = now, qa_client_request_id = req\<rparr> s)"
proof -
  from assms obtain q where q: "fetchone (\<lambda>q. qu_question_id q = i) (gs_questions s) = Some q" "valid_question q"
    by (auto simp: answer_question_def load_question_locked_def row_to_question_def Let_def
        split: option.splits sum.splits if_splits)
  then have l: "load_question_locked i s = Inr q" by (simp add: load_question_locked_def row_to_question_def)
  let ?old = "fetchone (\<lambda>a. qa_question_id a = i \<and> qa_client_request_id a = req) (gs_answers s)"
  have none: "?old = None"
    using assms unfolding answer_question_def l by (cases ?old) simp_all
  note rules = answer_question_def l none Let_def sum.case option.case
  have ok: "aa_admissible (answer_admissible q conv ep now)" "new_id \<notin> qa_answer_event_id ` set (gs_answers s)"
    using assms unfolding rules by (simp_all split: sum.splits if_splits)
  show ?thesis
    by (rule that[of q])
      (use ok q(2) fetchone_SomeD[OF q(1)] in simp_all,
       use assms q(1) in \<open>simp_all add: rules split: sum.splits if_splits\<close>)
qed

lemma answer_question_good: "gate_good s (snd (answer_question new_id i ans who req conv ep now s))"
proof (cases "snd (answer_question new_id i ans who req conv ep now s) = s")
  case False
  obtain q where q: "q \<in> set (gs_questions s)" "qu_question_id q = i"
    "aa_admissible (answer_admissible q conv ep now)" "new_id \<notin> qa_answer_event_id ` set (gs_answers s)"
    and t: "answer_question new_id i ans who req conv ep now s =
       (Inr (settle_answered new_id q, \<lparr>qa_answer_event_id = new_id, qa_question_id = i, qa_answer = ans,
          qa_answered_by = who, qa_answered_at = now, qa_client_request_id = req\<rparr>),
        insert_answer \<lparr>qa_answer_event_id = new_id, qa_question_id = i, qa_answer = ans,
          qa_answered_by = who, qa_answered_at = now, qa_client_request_id = req\<rparr> s)"
    by (rule answer_question_new[OF False])
  show ?thesis
    unfolding t snd_conv by (rule insert_answer_good[of q]) (use q in \<open>simp_all add: admissible_iff\<close>)
qed simp

text \<open>The state an accepted claim leaves.\<close>

definition claimed_state :: "ownership_transfer \<Rightarrow> gstore \<Rightarrow> gstore" where
  "claimed_state tr s =
     s\<lparr>gs_runs := update_where (claimed_run (ot_prior_conversation tr) (ot_run_id tr))
          (\<lambda>r. r\<lparr>ru_owner_conversation := ot_new_conversation tr, ru_owner_epoch := ot_new_epoch tr,
                 ru_row_version := ru_row_version r + 1\<rparr>) (gs_runs s),
       gs_questions := update_where (claimed_question (ot_prior_conversation tr) (ot_run_id tr) (gs_rounds s))
          (\<lambda>q. q\<lparr>qu_owner_conversation := ot_new_conversation tr, qu_owner_epoch := ot_new_epoch tr,
                 qu_row_version := qu_row_version q + 1\<rparr>) (gs_questions s),
       gs_transfers := gs_transfers s @ [tr]\<rparr>"

lemma claim_ownership_new:
  assumes "snd (claim_ownership new_id now prior new ep run_id req who s) \<noteq> s"
  obtains tr where "ot_prior_conversation tr = prior" "ot_new_conversation tr = new" "ot_new_epoch tr = ep"
    "ot_run_id tr = run_id" "ot_client_request_id tr = req" "ot_transfer_id tr = new_id"
    "\<forall>x \<in> set (gs_transfers s). ot_client_request_id x \<noteq> req"
    "\<forall>r \<in> set (gs_runs s). ru_owner_conversation r = prior \<longrightarrow> 0 \<le> ru_owner_epoch r \<longrightarrow> ru_owner_epoch r < ep"
    "snd (claim_ownership new_id now prior new ep run_id req who s) = claimed_state tr s"
proof -
  let ?es = "map ru_owner_epoch (filter (\<lambda>r. ru_owner_conversation r = prior) (gs_runs s))"
  let ?top = "case sql_max ?es of None \<Rightarrow> - 1 | Some m \<Rightarrow> m"
  let ?tr = "\<lparr>ot_transfer_id = new_id, ot_prior_conversation = prior, ot_prior_epoch = max ?top 0,
    ot_new_conversation = new, ot_new_epoch = ep, ot_run_id = run_id,
    ot_runs_rewritten = rowcount (claimed_run prior run_id) (gs_runs s),
    ot_questions_rewritten = rowcount (claimed_question prior run_id (gs_rounds s)) (gs_questions s),
    ot_claimed_by = who, ot_claimed_at = now, ot_client_request_id = req\<rparr>"
  have none: "\<forall>x \<in> set (gs_transfers s). ot_client_request_id x \<noteq> req"
    and top: "0 \<le> ?top \<Longrightarrow> ?top < ep"
    and t: "snd (claim_ownership new_id now prior new ep run_id req who s) = claimed_state ?tr s"
    using assms unfolding claim_ownership_def Let_def claimed_state_def
    by (auto simp: epoch_supersedes_def split: option.splits if_splits)
  have "ru_owner_epoch r < ep" if r: "r \<in> set (gs_runs s)" "ru_owner_conversation r = prior" "0 \<le> ru_owner_epoch r" for r
  proof -
    have mem: "ru_owner_epoch r \<in> set ?es" using r by auto
    then have "?es \<noteq> []" by (metis empty_iff list.set(1))
    then have m: "sql_max ?es = Some (Max (set ?es))" by (simp only: sql_max_def if_False)
    have "ru_owner_epoch r \<le> Max (set ?es)" using mem by (intro Max_ge) simp_all
    then show ?thesis using top r(3) m by simp
  qed
  then show ?thesis using that[of ?tr] none t by simp
qed

lemma claimed_state_good:
  assumes "\<forall>x \<in> set (gs_transfers s). ot_client_request_id x \<noteq> ot_client_request_id tr"
  shows "gate_good s (claimed_state tr s)"
proof -
  let ?R = "claimed_run (ot_prior_conversation tr) (ot_run_id tr)"
  let ?f = "\<lambda>r. r\<lparr>ru_owner_conversation := ot_new_conversation tr, ru_owner_epoch := ot_new_epoch tr,
    ru_row_version := ru_row_version r + 1\<rparr>"
  let ?Q = "claimed_question (ot_prior_conversation tr) (ot_run_id tr) (gs_rounds s)"
  let ?g = "\<lambda>q. q\<lparr>qu_owner_conversation := ot_new_conversation tr, qu_owner_epoch := ot_new_epoch tr,
    qu_row_version := qu_row_version q + 1\<rparr>"
  let ?s1 = "s\<lparr>gs_runs := update_where ?R ?f (gs_runs s)\<rparr>"
  have 1: "gate_good s ?s1"
    by (rule gate_good_runs) (auto simp: run_row_evolves_def gate_ok_def runs_ok_def)
  have 2: "gate_good ?s1 (set_question ?Q ?g ?s1)"
    by (rule gate_good_questions)
      (auto simp: question_evolves_def question_ok_def is_open_def asked_columns_def claimed_question_def request_key_def
        split: option.splits)
  have 3: "gate_good u (u\<lparr>gs_transfers := gs_transfers u @ [tr]\<rparr>)"
    if "\<forall>x \<in> set (gs_transfers u). ot_client_request_id x \<noteq> ot_client_request_id tr" for u
    unfolding gate_good_def using that by (auto simp: gate_parts evolve_refls)
  have "claimed_state tr s = (set_question ?Q ?g ?s1)\<lparr>gs_transfers := gs_transfers (set_question ?Q ?g ?s1) @ [tr]\<rparr>"
    by (simp add: claimed_state_def set_question_def)
  then show ?thesis
    using gate_good_trans[OF gate_good_trans[OF 1 2] 3] assms by (simp add: set_question_def)
qed

lemma claim_ownership_good: "gate_good s (snd (claim_ownership new_id now prior new ep run_id req who s))"
proof (cases "snd (claim_ownership new_id now prior new ep run_id req who s) = s")
  case False
  obtain tr where "ot_client_request_id tr = req" "\<forall>x \<in> set (gs_transfers s). ot_client_request_id x \<noteq> req"
    "snd (claim_ownership new_id now prior new ep run_id req who s) = claimed_state tr s"
    by (rule claim_ownership_new[OF False])
  then show ?thesis using claimed_state_good by simp
qed simp

end
