(* ===== verification/Gate_Steps.thy ===== *)
theory Gate_Steps
  imports Gate_Lifecycle
begin

text \<open>
  The gate as a transition system. A step is one store transaction as the services issue it, so a run of
  steps is any interleaving of the commands of any number of callers; every command of \<open>Gate_Service\<close> is
  such a run. The invariant and the history relation of \<open>Gate_Lifecycle\<close> hold along every run.
\<close>

section \<open>Steps\<close>

text \<open>Two premises record what a service has read before it writes: a report is stamped at a version whose
  row is being adjudicated, a verdict is written at the version the stamp returned. By the history relation
  a row is determined by its id and version, so such knowledge does not go stale.\<close>

inductive gate_step :: "gstore \<Rightarrow> gstore \<Rightarrow> bool" where
  run_opened: "gate_step s (snd (open_run new_id wp lane owner ep max_rounds src inp s))"
| round_opened: "run_id \<in> ru_run_id ` set (gs_runs s) \<Longrightarrow>
    gate_step s (snd (open_round new_id now run_id inputs tgt pred cmd tier gen s))"
| snapshot_frozen: "gate_step s (snd (freeze_review_snapshot i m v s))"
| adjudication_begun: "gate_step s (snd (transition_round i Round_ADJUDICATING v now s))"
| report_stamped: "held i v (\<lambda>r. ro_state r = Round_ADJUDICATING) s \<Longrightarrow> gate_step s (snd (set_round_report i a b c v s))"
| verdict_given: "target \<in> {Round_YES, Round_NO} \<Longrightarrow>
    held i v (\<lambda>r. ro_subject_sha r \<noteq> None \<and> ro_report_bytes_sha r \<noteq> None \<and> ro_verdict_report_sha r \<noteq> None) s \<Longrightarrow>
    gate_step s (snd (transition_round i target v now s))"
| run_moved: "gate_step s (snd (transition_run i run_target v s))"
| dispatch_recorded: "gate_step s (snd (record_dispatch d s))"
| dispatch_ensured: "gate_step s (snd (ensure_dispatch d s))"
| intent_recorded: "gate_step s (snd (record_effect_intent e s))"
| result_recorded: "gate_step s (snd (record_effect_result er s))"
| finding_raised: "gate_step s (snd (raise_gate_finding new_id now i sev st s))"
| disposition_appended: "validate_disposition dp = Inr dp \<Longrightarrow> gate_step s (snd (append_disposition i dp s))"
| coverage_set: "gate_step s (snd (set_consumer_coverage i cc s))"
| question_asked: "gate_step s (snd (ask_question new_id ak s))"
| question_answered: "gate_step s (snd (answer_question new_id i ans who req conv ep now s))"
| question_escalated: "gate_step s (snd (escalate_question i now s))"
| questions_expired: "gate_step s (snd (expire_due_questions now s))"
| notice_sent: "gate_step s (mark_notice_sent i m now s)"
| notice_failed: "gate_step s (mark_notice_failed i err s)"
| answer_consumed: "gate_step s (snd (mark_answer_consumed i now s))"
| ownership_claimed: "gate_step s (snd (claim_ownership new_id now prior new ep run_id_opt req who s))"

lemma begin_adjudication_good: "gate_good s (snd (transition_round i Round_ADJUDICATING v now s))"
  by (rule transition_round_good) simp_all

lemma gate_step_good: "gate_step s t \<Longrightarrow> gate_good s t"
  by (induction rule: gate_step.induct)
    (simp_all add: begin_adjudication_good open_run_good open_round_good freeze_good transition_round_good set_round_report_good
      transition_run_good record_dispatch_good ensure_dispatch_good record_effect_intent_good
      record_effect_result_good raise_gate_finding_good append_disposition_good set_consumer_coverage_good
      ask_question_good answer_question_good escalate_question_good expire_due_questions_good mark_notice_good
      mark_answer_consumed_good claim_ownership_good)

lemma empty_gate_ok: "gate_ok empty_gstore"
  by (simp add: gate_parts empty_gstore_def numbered_def)

interpretation gate: transition_system "\<lambda>s. s = empty_gstore" gate_step gate_ok
  using gate_step_good by unfold_locales (auto simp: empty_gate_ok gate_good_def)

lemma gate_run_evolves: "gate_step\<^sup>*\<^sup>* s t \<Longrightarrow> gate_ok s \<Longrightarrow> gate_evolves s t"
  using gate.rel_steps[of s t gate_evolves] gate_step_good gate_evolves_refl gate_evolves_trans
  by (metis gate_good_def)

text \<open>The later version of a row.\<close>

lemma evolved_row:
  assumes "table_evolves key R xs ys" "distinct (map key ys)" "x \<in> set xs" "y \<in> set ys" "key y = key x"
  shows "R x y"
  using assms key_unique[of key ys] by (fastforce simp: table_evolves_def)

lemma later_round:
  assumes "gate_ok s" "gate_step\<^sup>*\<^sup>* s t" "r \<in> set (gs_rounds s)" "r' \<in> set (gs_rounds t)" "ro_round_id r' = ro_round_id r"
  shows "round_evolves r r'"
  using evolved_row[of ro_round_id round_evolves "gs_rounds s" "gs_rounds t"] assms gate_run_evolves[of s t]
    gate.inv_steps[of s t] by (simp add: gate_evolves_def gate_ok_def rounds_ok_def)

lemma later_question:
  assumes "gate_ok s" "gate_step\<^sup>*\<^sup>* s t" "q \<in> set (gs_questions s)"
  obtains q' where "q' \<in> set (gs_questions t)" "qu_question_id q' = qu_question_id q" "question_evolves q q'"
  using gate_run_evolves[OF assms(2,1)] assms(3) by (auto simp: gate_evolves_def table_evolves_def)

text \<open>What was read of a row at some version still holds wherever that version is found.\<close>

lemma held_stable:
  assumes "gate_ok s" "gate_step\<^sup>*\<^sup>* s t" "r \<in> set (gs_rounds s)" "Q r"
  shows "held (ro_round_id r) (ro_row_version r) Q t"
  unfolding held_def using later_round[OF assms(1-3)] assms(4) by (auto simp: round_evolves_def)

section \<open>Commands are runs of transactions\<close>

interpretation gate_runs: action_relation "gate_step\<^sup>*\<^sup>*"
  by unfold_locales auto

lemma check_run: "within gate_step\<^sup>*\<^sup>* (check r)"
  by (simp add: within_def check_def)

lemma require_run_within: "within gate_step\<^sup>*\<^sup>* (require_round i)" "within gate_step\<^sup>*\<^sup>* (require_run j)"
  by (auto simp: within_def require_round_def require_run_def split: option.splits sum.splits)

lemma notify_run: "within gate_step\<^sup>*\<^sup>* (notify n now q k)"
  by (auto simp: within_def notify_def intro: gate_step.intros split: option.splits sum.splits)

lemma notify_all_run: "within gate_step\<^sup>*\<^sup>* (notify_all n now qs)"
  by (induction qs) (auto intro: gate_runs.within_andthen gate_runs.within_return notify_run)

text \<open>The commands of the two services.\<close>

inductive gate_command :: "gstore \<Rightarrow> gstore \<Rightarrow> bool" where
  "gate_command s (snd (open_run_command new_id wp lane owner ep max_rounds src inp s))"
| "gate_command s (snd (open_round_command new_id now run_id inputs tgt pred cmd tier gen s))"
| "gate_command s (snd (freeze_review_snapshot_command i m s))"
| "gate_command s (snd (begin_adjudication now i s))"
| "gate_command s (snd (settle_adjudication now i yes a b c s))"
| "gate_command s (snd (accept_round sha256 i a b c s))"
| "gate_command s (snd (abandon_run i s))"
| "gate_command s (snd (close_run i yes s))"
| "gate_command s (snd (record_dispatch d s))"
| "gate_command s (snd (record_effect_intent e s))"
| "gate_command s (snd (record_effect_result er s))"
| "gate_command s (snd (raise_gate_finding new_id now i sev st s))"
| "gate_command s (snd (close_finding i dp s))"
| "gate_command s (snd (set_consumer_coverage i cc s))"
| "gate_command s (snd (claim_ownership new_id now prior new ep run_id_opt req who s))"
| "gate_command s (snd (ask_command n new_id now sent_at expires_in_s pos ak s))"
| "gate_command s (snd (answer_question new_id i ans who req conv ep now s))"
| "gate_command s (snd (escalate n now sent_at i s))"
| "gate_command s (snd (mark_answer_consumed i now s))"
| "gate_command s (snd (sweep_expired n now sent_at s))"

lemma andthen_check: "andthen (check r) f s = (case r of Inl e \<Rightarrow> (Inl e, s) | Inr x \<Rightarrow> f x s)"
  by (simp add: andthen_def check_def split: sum.splits)

lemma andthen_require_round:
  "andthen (require_round i) f s = (case get_round i s of None \<Rightarrow> (Inl GateError, s) | Some r \<Rightarrow> f r s)"
  by (simp add: andthen_def require_round_def split: option.splits)

lemma andthen_require_run:
  "andthen (require_run i) f s =
     (case get_run i s of Inl e \<Rightarrow> (Inl e, s) | Inr None \<Rightarrow> (Inl GateError, s) | Inr (Some r) \<Rightarrow> f r s)"
  by (simp add: andthen_def require_run_def split: option.splits sum.splits)

lemmas command_simps = andthen_check andthen_require_round andthen_require_run

lemma get_run_SomeD: "get_run i s = Inr (Some r) \<Longrightarrow> r \<in> set (gs_runs s) \<and> ru_run_id r = i"
  using fetchone_SomeD[of "\<lambda>r. ru_run_id r = i" "gs_runs s"]
  by (auto simp: get_run_def row_to_run_def split: option.splits if_splits)

lemma get_round_SomeD: "get_round i s = Some r \<Longrightarrow> r \<in> set (gs_rounds s) \<and> ro_round_id r = i"
  unfolding get_round_def by (rule fetchone_SomeD)

lemma open_round_command_run: "gate_step\<^sup>*\<^sup>* s (snd (open_round_command new_id now run_id inputs tgt pred cmd tier gen s))"
proof -
  have "gate_step s (snd (open_round new_id now run_id inputs tgt pred cmd tier gen s))"
    if "get_run run_id s = Inr (Some r)" for r
    using get_run_SomeD[OF that] by (intro round_opened) (metis imageI)
  then show ?thesis
    by (auto simp: open_round_command_def command_simps Let_def split: option.splits sum.splits)
qed

text \<open>Settling an adjudication: the stamp's premise is what the command has just read, the verdict's premise
  is what the stamp returned.\<close>

lemma set_round_report_Inr:
  assumes ok: "gate_ok s" and eq: "set_round_report i a b c v s = (Inr r, t)"
  shows "r \<in> set (gs_rounds t) \<and> ro_round_id r = i \<and> ro_subject_sha r = Some a \<and> ro_report_bytes_sha r = Some b
     \<and> ro_verdict_report_sha r = Some c \<and> ro_row_version r = v + 1"
proof -
  let ?P = "\<lambda>r. ro_round_id r = i \<and> ro_row_version r = v"
  let ?f = "\<lambda>r. r\<lparr>ro_subject_sha := Some a, ro_report_bytes_sha := Some b, ro_verdict_report_sha := Some c,
    ro_row_version := ro_row_version r + 1\<rparr>"
  have t: "t = s\<lparr>gs_rounds := update_where ?P ?f (gs_rounds s)\<rparr>"
    and cnt: "rowcount ?P (gs_rounds s) \<noteq> 0" and get: "fetchone (\<lambda>r. ro_round_id r = i) (gs_rounds t) = Some r"
    using eq by (auto simp: set_round_report_def update_round_def get_round_locked_def Let_def
        split: option.splits sum.splits if_splits)
  obtain x where x: "x \<in> set (gs_rounds s)" "?P x" using cnt rowcount_pos_iff[of ?P] by auto
  have "distinct (map ro_round_id (gs_rounds t))"
    using ok by (simp add: t map_update_where_key gate_ok_def rounds_ok_def)
  moreover have "?f x \<in> set (gs_rounds t)" using x by (force simp: t set_update_where)
  ultimately have "r = ?f x"
    using get fetchone_SomeD[OF get] key_unique[of ro_round_id "gs_rounds t" r "?f x"] x by simp
  then show ?thesis using x fetchone_SomeD[OF get] by simp
qed

lemma settle_adjudication_run:
  assumes ok: "gate_ok s"
  shows "gate_step\<^sup>*\<^sup>* s (snd (settle_adjudication now i yes a b c s))"
proof (cases "\<exists>r. get_round i s = Some r \<and> next_round_state (ro_state r) (if yes then Round_YES else Round_NO) \<noteq> Inl GateError")
  case True
  then obtain r where r: "get_round i s = Some r" and st: "ro_state r = Round_ADJUDICATING"
    by (cases "ro_state (the (get_round i s))") (auto simp: next_round_state_def split: if_splits)
  let ?target = "if yes then Round_YES else Round_NO"
  have "held i (ro_row_version r) (\<lambda>r. ro_state r = Round_ADJUDICATING) s"
    using held_stable[OF ok rtranclp.rtrancl_refl, of r] get_round_SomeD[OF r] st by auto
  then have step: "gate_step s (snd (set_round_report i a b c (ro_row_version r) s))" by (rule report_stamped)
  obtain res t where rep: "set_round_report i a b c (ro_row_version r) s = (res, t)" by fastforce
  have cmd: "settle_adjudication now i yes a b c s =
      (case res of Inl e \<Rightarrow> (Inl e, t) | Inr x \<Rightarrow> transition_round i ?target (ro_row_version x) now t)"
  proof -
    have m: "andthen (set_round_report i a b c (ro_row_version r)) f s = (case res of Inl e \<Rightarrow> (Inl e, t) | Inr x \<Rightarrow> f x t)" for f
      by (simp add: andthen_def rep split: sum.splits)
    show ?thesis
      using r st by (simp add: settle_adjudication_def command_simps Let_def next_round_state_def m)
  qed
  show ?thesis
  proof (cases res)
    case (Inl e)
    then show ?thesis using step by (simp add: cmd rep)
  next
    case (Inr x)
    have okt: "gate_ok t" using gate.inv_steps[OF r_into_rtranclp[of gate_step, OF step] ok] by (simp add: rep)
    have x: "x \<in> set (gs_rounds t)" "ro_round_id x = i" "ro_subject_sha x \<noteq> None" "ro_report_bytes_sha x \<noteq> None"
      "ro_verdict_report_sha x \<noteq> None"
      using set_round_report_Inr[OF ok rep[unfolded Inr]] by auto
    have "held i (ro_row_version x) (\<lambda>r. ro_subject_sha r \<noteq> None \<and> ro_report_bytes_sha r \<noteq> None \<and> ro_verdict_report_sha r \<noteq> None) t"
      using held_stable[OF okt rtranclp.rtrancl_refl x(1)] x by auto
    then have "gate_step t (snd (transition_round i ?target (ro_row_version x) now t))"
      by (intro verdict_given) simp_all
    then show ?thesis using step by (simp add: cmd Inr rep)
  qed
next
  case False
  then have "snd (settle_adjudication now i yes a b c s) = s"
    by (auto simp: settle_adjudication_def command_simps Let_def next_round_state_def split: option.splits)
  then show ?thesis by simp
qed

lemma ask_command_run: "gate_step\<^sup>*\<^sup>* s (snd (ask_command n new_id now sent_at ex pos ak s))"
proof -
  have e: "within gate_step\<^sup>*\<^sup>* (ensure_other_dispatch i p r)" for i p r
    by (auto simp: within_def ensure_other_dispatch_def intro: gate_step.intros)
  have a: "within gate_step\<^sup>*\<^sup>* (ask_question new_id ak')" for ak'
    by (auto simp: within_def intro: gate_step.intros)
  have "within gate_step\<^sup>*\<^sup>* (ask_command n new_id now sent_at ex pos ak)"
    unfolding ask_command_def Let_def
    by (intro gate_runs.within_andthen check_run a)
      (simp_all add: e notify_run gate_runs.within_andthen gate_runs.within_return split: option.splits prod.splits)
  then show ?thesis by (rule withinD)
qed

lemma escalate_run: "gate_step\<^sup>*\<^sup>* s (snd (escalate n now sent_at i s))"
proof -
  have "within gate_step\<^sup>*\<^sup>* (escalate_question i now)" by (auto simp: within_def intro: gate_step.intros)
  then have "within gate_step\<^sup>*\<^sup>* (escalate n now sent_at i)"
    unfolding escalate_def by (intro gate_runs.within_andthen notify_run gate_runs.within_return)
  then show ?thesis by (rule withinD)
qed

lemma sweep_expired_run: "gate_step\<^sup>*\<^sup>* s (snd (sweep_expired n now sent_at s))"
proof -
  have "within gate_step\<^sup>*\<^sup>* (expire_due_questions now)" by (auto simp: within_def intro: gate_step.intros)
  then have "within gate_step\<^sup>*\<^sup>* (sweep_expired n now sent_at)"
    unfolding sweep_expired_def by (intro gate_runs.within_andthen notify_all_run gate_runs.within_return)
  then show ?thesis by (rule withinD)
qed

lemma validate_disposition_self: "validate_disposition d = Inr x \<Longrightarrow> x = d"
  by (auto simp: validate_disposition_def split: if_splits)

lemma command_is_run:
  assumes "gate_command s t" "gate_ok s"
  shows "gate_step\<^sup>*\<^sup>* s t"
  using assms
  by (cases rule: gate_command.cases)
    (auto simp: open_run_command_def freeze_review_snapshot_command_def begin_adjudication_def accept_round_def
      abandon_run_def close_run_def close_finding_def command_simps check_def Let_def
      intro!: open_round_command_run settle_adjudication_run ask_command_run escalate_run sweep_expired_run
      intro: gate_step.intros dest: validate_disposition_self split: option.splits sum.splits)

end
