(* ===== verification/Gate_Promises.thy ===== *)
theory Gate_Promises
  imports Gate_Steps
begin

text \<open>
  What the gate promises: the invariant of its tables, how a question is asked once and settled once, what
  an accepted round binds, what a stale writer may do, what the expiry sweep does exactly, and what a claim of
  ownership takes away.
\<close>

section \<open>An example\<close>

definition ex_ask :: "string \<Rightarrow> ask" where
  "ex_ask req = \<lparr>as_dispatch_id = ''d'', as_round_id = Some ''r1'', as_client_request_id = req,
     as_owner_conversation = ''c'', as_owner_epoch = 1, as_continuation_kind = ASSIGNMENT,
     as_continuation_ref = ''d'', as_question = ''which?'', as_options = [], as_blocking = True,
     as_asked_at = 10, as_expires_at = 100, as_answer_schema = None, as_default_answer = None\<rparr>"

definition ex_target :: execution_target where
  "ex_target = \<lparr>et_host = ''laptop'', et_scratch_root = []\<rparr>"

definition ex_opened :: gstore where
  "ex_opened = snd (record_dispatch (other_dispatch ''d'' ''p'' (Some ''r1''))
     (snd (open_round ''r1'' 5 ''R'' (ex_manifest []) ex_target None [] [] 0
       (snd (open_run ''R'' ''wp'' ''lane'' ''c'' 1 2 [] [] empty_gstore)))))"

definition ex_asked :: gstore where
  "ex_asked = snd (ask_question ''q1'' (ex_ask ''k1'') ex_opened)"

definition ex_answered :: gstore where
  "ex_answered = snd (answer_question ''a1'' ''q1'' ''this'' ''boss'' ''k2'' ''c'' 1 50 ex_asked)"

definition ex_run :: gate_run where
  "ex_run = \<lparr>ru_run_id = ''R'', ru_wp = ''wp'', ru_lane = ''lane'', ru_workflow_source_sha = [], ru_input_sha = [],
     ru_owner_conversation = ''c'', ru_owner_epoch = 1, ru_max_rounds = 2, ru_row_version = 1, ru_state = Run_OPEN\<rparr>"

definition ex_round :: gate_round where
  "ex_round = new_round ''r1'' 5 ''R'' 1 (ex_manifest []) ex_target None [] [] 0"

definition ex_answer_event :: question_answer where
  "ex_answer_event = \<lparr>qa_answer_event_id = ''a1'', qa_question_id = ''q1'', qa_answer = ''this'', qa_answered_by = ''boss'',
     qa_answered_at = 50, qa_client_request_id = ''k2''\<rparr>"

lemma ex_opened_eq: "ex_opened = empty_gstore\<lparr>gs_runs := [ex_run], gs_rounds := [ex_round],
    gs_dispatches := [other_dispatch ''d'' ''p'' (Some ''r1'')]\<rparr>"
  by (simp add: ex_opened_def ex_run_def ex_round_def open_run_def open_round_def record_dispatch_def replace_row_def
      validate_max_rounds_def valid_run_def valid_round_def max_round_no_def sql_max_def new_round_def empty_gstore_def Let_def)

lemma ex_asked_eq:
  "ask_question ''q1'' (ex_ask ''k1'') ex_opened = (Inr (new_question ''q1'' (ex_ask ''k1''), False), ex_asked)"
  "ex_asked = insert_question (new_question ''q1'' (ex_ask ''k1'')) D_PREPARED ex_opened"
  by (simp_all add: ex_asked_def ex_opened_eq ask_question_def get_dispatch_def fetchone_def empty_gstore_def
      other_dispatch_def dispatch_may_be_suspended_def LIVE_DISPATCH_STATES_def new_question_def ex_ask_def valid_question_def Let_def)

lemma ex_gate_reach: "gate_step\<^sup>*\<^sup>* empty_gstore ex_opened" "gate_step\<^sup>*\<^sup>* empty_gstore ex_asked"
  "gate_step\<^sup>*\<^sup>* ex_asked ex_answered" "gate_step\<^sup>*\<^sup>* ex_opened ex_asked"
proof -
  let ?s1 = "snd (open_run ''R'' ''wp'' ''lane'' ''c'' 1 2 [] [] empty_gstore)"
  have "''R'' \<in> ru_run_id ` set (gs_runs ?s1)"
    by (simp add: open_run_def validate_max_rounds_def valid_run_def empty_gstore_def Let_def)
  then have "gate_step ?s1 (snd (open_round ''r1'' 5 ''R'' (ex_manifest []) ex_target None [] [] 0 ?s1))"
    by (rule round_opened)
  then have "gate_step\<^sup>*\<^sup>* empty_gstore (snd (open_round ''r1'' 5 ''R'' (ex_manifest []) ex_target None [] [] 0 ?s1))"
    using rtranclp.rtrancl_into_rtrancl[OF r_into_rtranclp[of gate_step, OF run_opened]] by blast
  then show 1: "gate_step\<^sup>*\<^sup>* empty_gstore ex_opened"
    unfolding ex_opened_def by (rule rtranclp.rtrancl_into_rtrancl) (rule dispatch_recorded)
  show 2: "gate_step\<^sup>*\<^sup>* ex_opened ex_asked" unfolding ex_asked_def by (rule r_into_rtranclp, rule question_asked)
  show "gate_step\<^sup>*\<^sup>* empty_gstore ex_asked" using 1 2 by simp
  show "gate_step\<^sup>*\<^sup>* ex_asked ex_answered" unfolding ex_answered_def by (rule r_into_rtranclp, rule question_answered)
qed

lemma ex_answered_eq:
  "answer_question ''a1'' ''q1'' ''this'' ''boss'' ''k2'' ''c'' 1 50 ex_asked
     = (Inr (settle_answered ''a1'' ((new_question ''q1'' (ex_ask ''k1''))\<lparr>qu_dispatch_prior_state := Some D_PREPARED\<rparr>), ex_answer_event), ex_answered)"
  "ex_answered = insert_answer ex_answer_event ex_asked"
  by (simp_all add: ex_answered_def ex_asked_eq ex_opened_eq answer_question_def load_question_locked_def row_to_question_def
      fetchone_def empty_gstore_def insert_question_def set_dispatch_state_def new_question_def ex_ask_def valid_question_def
      answer_admissible_def epoch_supersedes_def next_question_state_def valid_answer_def rowcount_def is_open_def ex_answer_event_def Let_def)

lemma gate_reach_ok: "gate_step\<^sup>*\<^sup>* empty_gstore s \<Longrightarrow> gate_ok s"
  using gate.inv_reachable by blast

lemma ex_question_answered:
  "settle_answered ''a1'' ((new_question ''q1'' (ex_ask ''k1''))\<lparr>qu_dispatch_prior_state := Some D_PREPARED\<rparr>) \<in> set (gs_questions ex_answered)"
  by (simp add: ex_answered_eq ex_asked_eq ex_opened_eq insert_answer_def set_question_def insert_question_def
      set_dispatch_state_def empty_gstore_def ex_answer_event_def new_question_def update_where_def is_open_def)

section \<open>Properties\<close>

text \<open>(C7) The gate's tables stay consistent under every interleaving. In every state that any sequence of
  store transactions of any number of callers reaches: the primary keys are unique; the rounds of a run
  are numbered one, two, three without a gap, each has its run, has a frozen snapshot exactly when it has left
  the open state, carries all three report hashes when it has a verdict and a closing instant exactly then;
  no run row holds the waiting state; every effect result has its intent; every finding names a round of its
  run and every disposition carries its evidence; a dispatch has at most one open question and one question
  per request id; every question has its notice row; and answered questions, answers and delivery rows
  correspond one to one.\<close>

theorem gate_invariant:
  assumes "gate_step\<^sup>*\<^sup>* empty_gstore s"
  shows "gate_ok s"
  using assms by (rule gate_reach_ok)

theorem gate_invariant_witness: "gate_ok ex_answered \<and> gs_answers ex_answered = [ex_answer_event]"
  using gate_invariant[OF rtranclp_trans[OF ex_gate_reach(2,3)]]
  by (simp add: ex_answered_eq ex_asked_eq ex_opened_eq insert_answer_def set_question_def insert_question_def
      set_dispatch_state_def empty_gstore_def)

text \<open>Answers per question.\<close>

lemma answers_of_question:
  assumes ok: "gate_ok s" and q: "q \<in> set (gs_questions s)"
  shows "length (filter (\<lambda>a. qa_question_id a = qu_question_id q) (gs_answers s)) = (if qu_state q = Q_ANSWERED then 1 else 0)"
proof -
  let ?as = "filter (\<lambda>a. qa_question_id a = qu_question_id q) (gs_answers s)"
  have dist: "distinct (map qa_answer_event_id ?as)"
    using gate_okD(6)[OF ok] by (simp add: answers_ok_def distinct_map_filter_key)
  have ev: "qu_answer_event_id q = Some (qa_answer_event_id a)" if a: "a \<in> set ?as" for a
  proof -
    obtain q' where q': "q' \<in> set (gs_questions s)" "qu_question_id q' = qa_question_id a"
      "qu_answer_event_id q' = Some (qa_answer_event_id a)"
      using a gate_okD(6)[OF ok] by (auto simp: answers_ok_def)
    then have "q' = q"
      using key_unique[of qu_question_id "gs_questions s" q' q] q a gate_okD(5)[OF ok] by (simp add: questions_ok_def)
    with q' show ?thesis by simp
  qed
  have qok: "question_ok (gs_answers s) q" using q gate_okD(5)[OF ok] by (simp add: questions_ok_def)
  show ?thesis
  proof (cases "qu_answer_event_id q")
    case None
    then have "?as = []" using ev by (metis last_in_set option.distinct(1))
    then show ?thesis using qok None by (simp add: question_ok_def)
  next
    case (Some e)
    then have st: "qu_state q = Q_ANSWERED" and ex: "\<exists>a. a \<in> set ?as"
      using qok by (auto simp: question_ok_def)
    have "\<forall>x \<in> set (map qa_answer_event_id ?as). x = e" using ev Some by auto
    then have "length (map qa_answer_event_id ?as) \<le> 1"
      using dist by (metis One_nat_def card.empty card_mono card_insert_if distinct_card empty_iff finite.emptyI
          finite.insertI insertI1 subsetI)
    moreover have "?as \<noteq> []" using ex by (metis empty_iff list.set(1))
    ultimately show ?thesis using st by (cases ?as) auto
  qed
qed

text \<open>(C16) A question settles exactly once. When a question is answered or expired, then in every later
  state, whatever any caller does, it is the same question with the same outcome, the same answer event, owner,
  epoch and version; no answer is added to it; and it has exactly one recorded answer if it was answered and
  none if it expired. An answer and an expiry therefore never both win.\<close>

theorem question_settles_once:
  assumes "gate_step\<^sup>*\<^sup>* empty_gstore s" "gate_step\<^sup>*\<^sup>* s t"
    and "q \<in> set (gs_questions s)" "\<not> is_open q"
  shows "\<exists>q' \<in> set (gs_questions t). qu_question_id q' = qu_question_id q \<and> asked_columns q' = asked_columns q
    \<and> settled_columns q' = settled_columns q
    \<and> filter (\<lambda>a. qa_question_id a = qu_question_id q) (gs_answers t) = filter (\<lambda>a. qa_question_id a = qu_question_id q) (gs_answers s)
    \<and> length (filter (\<lambda>a. qa_question_id a = qu_question_id q) (gs_answers t)) = (if qu_state q = Q_ANSWERED then 1 else 0)"
proof -
  have ok: "gate_ok s" "gate_ok t" using assms(1,2) gate_reach_ok rtranclp_trans[OF assms(1,2)] by blast+
  obtain q' where q': "q' \<in> set (gs_questions t)" "qu_question_id q' = qu_question_id q" "question_evolves q q'"
    using later_question[OF ok(1) assms(2,3)] .
  then have same: "asked_columns q' = asked_columns q" "settled_columns q' = settled_columns q"
    using assms(4) by (simp_all add: question_evolves_def)
  then have st: "qu_state q' = qu_state q" by (simp add: settled_columns_def)
  let ?P = "\<lambda>a. qa_question_id a = qu_question_id q"
  have len: "length (filter ?P (gs_answers s)) = length (filter ?P (gs_answers t))"
    using answers_of_question[OF ok(1) assms(3)] answers_of_question[OF ok(2) q'(1)] q'(2) st by simp
  obtain zs where "gs_answers t = gs_answers s @ zs"
    using gate_run_evolves[OF assms(2) ok(1)] by (auto simp: gate_evolves_def prefix_def)
  then have "filter ?P (gs_answers t) = filter ?P (gs_answers s)" using len by simp
  then show ?thesis
    using q' same answers_of_question[OF ok(2) q'(1)] st by (intro bexI[of _ q']) simp_all
qed

theorem question_settles_once_witness:
  "\<exists>q' \<in> set (gs_questions (snd (expire_due_questions 500 ex_answered))). qu_question_id q' = ''q1'' \<and> qu_state q' = Q_ANSWERED"
proof -
  let ?q = "settle_answered ''a1'' ((new_question ''q1'' (ex_ask ''k1''))\<lparr>qu_dispatch_prior_state := Some D_PREPARED\<rparr>)"
  have "gate_step\<^sup>*\<^sup>* ex_answered (snd (expire_due_questions 500 ex_answered))"
    by (rule r_into_rtranclp) (rule questions_expired)
  from question_settles_once[OF rtranclp_trans[OF ex_gate_reach(2,3)] this ex_question_answered]
  show ?thesis by (auto simp: is_open_def settled_columns_def new_question_def)
qed

text \<open>A guarded write at a version its row does not have changes nothing.\<close>

lemma update_round_stale:
  assumes "gate_ok t" "r \<in> set (gs_rounds t)" "ro_row_version r \<noteq> v"
    and "\<And>x e. rule x = Inl e \<Longrightarrow> e = GateError"
  shows "update_round (ro_round_id r) v rule f t = (Inl GateError, t)"
proof -
  have "fetchone (\<lambda>x. ro_round_id x = ro_round_id r) (gs_rounds t) = Some r"
    using assms(1,2) by (simp add: fetchone_key gate_ok_def rounds_ok_def)
  moreover have "rowcount (\<lambda>x. ro_round_id x = ro_round_id r \<and> ro_row_version x = v) (gs_rounds t) = 0"
    using assms(1-3) key_unique[of ro_round_id "gs_rounds t" _ r]
    by (auto simp: rowcount_def filter_empty_conv gate_ok_def rounds_ok_def)
  ultimately show ?thesis
    using assms(4) by (auto simp: update_round_def get_round_locked_def Let_def split: sum.splits)
qed

text \<open>A stale writer is refused. When a round row has changed in any way since a caller read it, every
  guarded write of that caller at the version it read (freezing a snapshot, moving the round, stamping a
  report) raises and leaves every table as it is; versions only rise, so the version it read never comes back.\<close>

theorem stale_writer_refused:
  assumes "gate_step\<^sup>*\<^sup>* empty_gstore s" "gate_step\<^sup>*\<^sup>* s t"
    and "r \<in> set (gs_rounds s)" "r' \<in> set (gs_rounds t)" "ro_round_id r' = ro_round_id r" "r' \<noteq> r"
  shows "ro_row_version r < ro_row_version r'
    \<and> freeze_review_snapshot (ro_round_id r) m (ro_row_version r) t = (Inl GateError, t)
    \<and> transition_round (ro_round_id r) target (ro_row_version r) now t = (Inl GateError, t)
    \<and> set_round_report (ro_round_id r) a b c (ro_row_version r) t = (Inl GateError, t)"
proof -
  have ok: "gate_ok s" "gate_ok t" using gate_reach_ok[OF assms(1)] gate_reach_ok[OF rtranclp_trans[OF assms(1,2)]] .
  have ev: "round_evolves r r'" using later_round[OF ok(1) assms(2-5)] .
  then have v: "ro_row_version r < ro_row_version r'" using assms(6) by (auto simp: round_evolves_def)
  have st: "update_round (ro_round_id r) (ro_row_version r) rule f t = (Inl GateError, t)"
    if "\<And>x e. rule x = Inl e \<Longrightarrow> e = GateError" for rule f
    using update_round_stale[OF ok(2) assms(4), of "ro_row_version r" rule f] v that assms(5) by simp
  show ?thesis
    unfolding freeze_review_snapshot_def transition_round_def set_round_report_def
    by (intro conjI v st) (auto simp: next_round_state_def split: if_splits)
qed

definition ex_frozen :: gstore where
  "ex_frozen = snd (freeze_review_snapshot ''r1'' (ex_manifest []) 1 ex_opened)"

definition ex_frozen_round :: gate_round where
  "ex_frozen_round = ex_round\<lparr>ro_review_snapshot := Some (ex_manifest []), ro_state := Round_BUILT, ro_row_version := 2\<rparr>"

lemma ex_frozen_eq: "freeze_review_snapshot ''r1'' (ex_manifest []) 1 ex_opened = (Inr ex_frozen_round, ex_frozen)"
  "gs_rounds ex_frozen = [ex_frozen_round]"
  by (simp_all add: ex_frozen_def ex_frozen_round_def freeze_review_snapshot_def update_round_def get_round_locked_def
      fetchone_def ex_opened_eq ex_round_def new_round_def next_round_state_def rowcount_def update_where_def Let_def)

lemma ex_frozen_run: "gate_step\<^sup>*\<^sup>* ex_opened ex_frozen"
  unfolding ex_frozen_def by (rule r_into_rtranclp) (rule snapshot_frozen)

theorem stale_writer_refused_witness:
  "freeze_review_snapshot ''r1'' (ex_manifest [ex_entry ''a'' ''b'']) 1 ex_frozen = (Inl GateError, ex_frozen)"
  using stale_writer_refused[OF ex_gate_reach(1) ex_frozen_run, of ex_round ex_frozen_round]
  by (simp add: ex_frozen_eq ex_opened_eq ex_frozen_round_def ex_round_def new_round_def)

text \<open>(C17) Accepting binds the bytes that were frozen. Once a round has a frozen snapshot, then in every later
  state an acceptance that declares the address of some manifest succeeds only if that manifest has the content
  of the frozen one (for manifests without separator characters and no hash collision between the two), the
  declared report hash is the one the content store holds, and the round has a YES verdict with all report
  hashes recorded; the snapshot and the build inputs are still those of the freeze, and nothing is written.\<close>

theorem accept_binds_frozen_manifest:
  assumes "gate_step\<^sup>*\<^sup>* empty_gstore s" "gate_step\<^sup>*\<^sup>* s t"
    and "r \<in> set (gs_rounds s)" "ro_review_snapshot r = Some m"
    and "accept_round sha256 (ro_round_id r) (compute_artifact_sha sha256 m') declared cas t = (Inr (), t')"
    and "clean_manifest m" "clean_manifest m'"
    and "inj_on sha256 {concat (map feed (artifact_records m)), concat (map feed (artifact_records m'))}"
  shows "t' = t \<and> declared = cas \<and> manifest_content m' = manifest_content m
    \<and> (\<exists>r' \<in> set (gs_rounds t). ro_round_id r' = ro_round_id r \<and> ro_state r' = Round_YES
         \<and> ro_review_snapshot r' = Some m \<and> ro_build_inputs r' = ro_build_inputs r
         \<and> ro_subject_sha r' \<noteq> None \<and> ro_report_bytes_sha r' \<noteq> None)"
proof -
  have ok: "gate_ok s" "gate_ok t" using gate_reach_ok[OF assms(1)] gate_reach_ok[OF rtranclp_trans[OF assms(1,2)]] .
  obtain r' where get: "get_round (ro_round_id r) t = Some r'"
    and may: "may_accept_round sha256 r' (compute_artifact_sha sha256 m') declared cas = Inr ()" and t': "t' = t"
    using assms(5) by (auto simp: accept_round_def command_simps check_def split: option.splits)
  have r': "r' \<in> set (gs_rounds t)" "ro_round_id r' = ro_round_id r" using get_round_SomeD[OF get] by simp_all
  have ev: "round_evolves r r'" using later_round[OF ok(1) assms(2,3) r'] .
  then have snap: "ro_review_snapshot r' = Some m" "ro_build_inputs r' = ro_build_inputs r"
    using assms(4) by (simp_all add: round_evolves_def)
  have yes: "ro_state r' = Round_YES" "compute_artifact_sha sha256 m' = compute_artifact_sha sha256 m" "declared = cas"
    using may snap by (auto simp: may_accept_round_def split: if_splits)
  have concat: "compute_artifact_sha sha256 m = compute_artifact_sha sha256 m' \<longleftrightarrow>
      concat (map feed (artifact_records m)) = concat (map feed (artifact_records m'))"
    unfolding compute_artifact_sha_def using inj_on_eq_iff[OF assms(8)] by simp
  have "artifact_records m = artifact_records m'"
    using feeds_inj[OF artifact_records_clean[OF assms(6)] artifact_records_clean[OF assms(7)]] concat yes(2) by simp
  then have "manifest_content m' = manifest_content m"
    using artifact_records_inj[OF assms(6,7)] by simp
  moreover have "round_ok r'" using ok(2) r'(1) by (simp add: gate_ok_def rounds_ok_def)
  then have "ro_subject_sha r' \<noteq> None \<and> ro_report_bytes_sha r' \<noteq> None" using yes(1) by (simp add: round_ok_def)
  ultimately show ?thesis using t' yes snap r' by blast
qed

definition ex_settled :: gstore where
  "ex_settled = snd (settle_adjudication 30 ''r1'' True ''sub'' ''rep'' ''ver'' (snd (begin_adjudication 20 ''r1'' ex_frozen)))"

lemma ex_settled_run: "gate_step\<^sup>*\<^sup>* ex_frozen ex_settled"
proof -
  let ?t = "snd (begin_adjudication 20 ''r1'' ex_frozen)"
  have ok: "gate_ok ex_frozen" using gate_reach_ok[OF rtranclp_trans[OF ex_gate_reach(1) ex_frozen_run]] .
  have "gate_command ex_frozen ?t" by (rule gate_command.intros)
  then have 1: "gate_step\<^sup>*\<^sup>* ex_frozen ?t" using command_is_run ok by blast
  have "gate_command ?t ex_settled" unfolding ex_settled_def by (rule gate_command.intros)
  then have "gate_step\<^sup>*\<^sup>* ?t ex_settled" using command_is_run gate.inv_steps[OF 1 ok] by blast
  with 1 show ?thesis by simp
qed

lemma ex_accept: "accept_round id ''r1'' (compute_artifact_sha id (ex_manifest [])) ''rep'' ''rep'' ex_settled = (Inr (), ex_settled)"
proof -
  have rr: "gs_rounds ex_settled = [ex_frozen_round\<lparr>ro_state := Round_YES, ro_row_version := 5, ro_closed_at := Some 30,
      ro_subject_sha := Some ''sub'', ro_report_bytes_sha := Some ''rep'', ro_verdict_report_sha := Some ''ver''\<rparr>]"
    by (simp add: ex_settled_def begin_adjudication_def settle_adjudication_def command_simps andthen_def get_round_def
        ex_frozen_eq fetchone_def ex_frozen_round_def ex_round_def new_round_def next_round_state_def transition_round_def
        update_round_def get_round_locked_def rowcount_def update_where_def set_round_report_def check_def require_round_def Let_def)
  show ?thesis
    by (simp add: accept_round_def command_simps get_round_def rr fetchone_def ex_frozen_round_def ex_round_def
        new_round_def may_accept_round_def check_def)
qed

theorem accept_binds_frozen_manifest_witness:
  "accept_round id ''r1'' (compute_artifact_sha id (ex_manifest [])) ''rep'' ''rep'' ex_settled = (Inr (), ex_settled)
   \<and> (\<exists>r' \<in> set (gs_rounds ex_settled). ro_round_id r' = ''r1'' \<and> ro_review_snapshot r' = Some (ex_manifest []))"
proof -
  have id: "ro_round_id ex_frozen_round = ''r1''" by (simp add: ex_frozen_round_def ex_round_def new_round_def)
  have cl: "clean_manifest (ex_manifest [])"
    by (simp add: clean_manifest_def ex_manifest_def clean_binding_def)
  have mem: "ex_frozen_round \<in> set (gs_rounds ex_frozen)" "ro_review_snapshot ex_frozen_round = Some (ex_manifest [])"
    by (simp_all add: ex_frozen_eq ex_frozen_round_def)
  from accept_binds_frozen_manifest[OF rtranclp_trans[OF ex_gate_reach(1) ex_frozen_run] ex_settled_run mem
      ex_accept[folded id] cl cl]
  show ?thesis using ex_accept id by auto
qed

text \<open>The expiry loop as one pass over the two tables it writes.\<close>

definition release_of :: "round_question \<Rightarrow> dispatch list \<Rightarrow> dispatch list" where
  "release_of q = update_where (\<lambda>d. di_dispatch_id d = qu_dispatch_id q \<and> di_state d = D_AWAITING_ANSWER)
     (\<lambda>d. d\<lparr>di_state := restored_state q\<rparr>)"

definition expire_question_row :: "round_question \<Rightarrow> round_question list \<Rightarrow> round_question list" where
  "expire_question_row q = update_where (\<lambda>x. qu_question_id x = qu_question_id q \<and> is_open x) settle_expired"

lemma expire_step:
  "release_dispatch q (set_question (\<lambda>x. qu_question_id x = qu_question_id q \<and> is_open x) settle_expired s)
   = s\<lparr>gs_questions := expire_question_row q (gs_questions s), gs_dispatches := release_of q (gs_dispatches s)\<rparr>"
  by (simp add: release_dispatch_def set_dispatch_state_def set_question_def expire_question_row_def release_of_def)

lemma rowcount_one:
  assumes "distinct (map key rs)" "r \<in> set rs" "G r"
  shows "rowcount (\<lambda>x. key x = key r \<and> G x) rs = 1"
proof -
  have "filter (\<lambda>x. key x = key r \<and> G x) rs = [r]"
    using assms
  proof (induction rs)
    case (Cons x rs)
    then show ?case
    proof (cases "x = r")
      case True
      then have "filter (\<lambda>y. key y = key r \<and> G y) rs = []" using Cons.prems by (simp add: filter_empty_conv) (metis imageI)
      then show ?thesis using True Cons.prems by simp
    next
      case False
      then show ?thesis using Cons by auto
    qed
  qed simp
  then show ?thesis by (simp add: rowcount_def)
qed

lemma expire_loop_fold:
  "distinct (map qu_question_id (gs_questions s)) \<Longrightarrow> distinct (map qu_question_id rows) \<Longrightarrow>
   \<forall>q \<in> set rows. q \<in> set (gs_questions s) \<and> is_open q \<and> valid_question q \<Longrightarrow>
   expire_loop rows s = (Inr (map settle_expired rows),
     s\<lparr>gs_questions := fold expire_question_row rows (gs_questions s), gs_dispatches := fold release_of rows (gs_dispatches s)\<rparr>)"
proof (induction rows arbitrary: s)
  case (Cons q rows)
  let ?t = "s\<lparr>gs_questions := expire_question_row q (gs_questions s), gs_dispatches := release_of q (gs_dispatches s)\<rparr>"
  have one: "rowcount (\<lambda>x. qu_question_id x = qu_question_id q \<and> is_open x) (gs_questions s) = 1"
    using rowcount_one[of qu_question_id "gs_questions s" q is_open] Cons.prems by simp
  have "expire_loop rows ?t = (Inr (map settle_expired rows),
     ?t\<lparr>gs_questions := fold expire_question_row rows (gs_questions ?t), gs_dispatches := fold release_of rows (gs_dispatches ?t)\<rparr>)"
  proof (rule Cons.IH)
    show "distinct (map qu_question_id (gs_questions ?t))"
      using Cons.prems(1) by (simp add: expire_question_row_def map_update_where_key)
    show "\<forall>x \<in> set rows. x \<in> set (gs_questions ?t) \<and> is_open x \<and> valid_question x"
    proof
      fix x assume x: "x \<in> set rows"
      then have "qu_question_id x \<noteq> qu_question_id q" using Cons.prems(2) by simp (metis imageI)
      then show "x \<in> set (gs_questions ?t) \<and> is_open x \<and> valid_question x"
        using Cons.prems(3) x by (force simp: expire_question_row_def set_update_where)
    qed
  qed (use Cons.prems in simp)
  moreover have "row_to_question q = Inr q" using Cons.prems(3) by (simp add: row_to_question_def)
  ultimately show ?case
    using one by (simp add: Let_def expire_step)
qed simp

lemma fold_release:
  assumes "distinct (map qu_dispatch_id rows)"
  shows "fold release_of rows ds = map (\<lambda>d. if di_state d = D_AWAITING_ANSWER
     then (case find (\<lambda>q. qu_dispatch_id q = di_dispatch_id d) rows of None \<Rightarrow> d | Some q \<Rightarrow> d\<lparr>di_state := restored_state q\<rparr>)
     else d) ds"
proof -
  let ?u = "\<lambda>q d. if di_dispatch_id d = qu_dispatch_id q \<and> di_state d = D_AWAITING_ANSWER then d\<lparr>di_state := restored_state q\<rparr> else d"
  have "fold ?u rows d = (if di_state d = D_AWAITING_ANSWER
     then (case find (\<lambda>q. qu_dispatch_id q = di_dispatch_id d) rows of None \<Rightarrow> d | Some q \<Rightarrow> d\<lparr>di_state := restored_state q\<rparr>)
     else d)" for d
  proof (cases "find (\<lambda>q. qu_dispatch_id q = di_dispatch_id d) rows")
    case None
    then have "fold ?u rows d = d" by (intro fold_untouched) (auto simp: find_None_iff)
    then show ?thesis using None by simp
  next
    case (Some q)
    then have q: "q \<in> set rows" "qu_dispatch_id q = di_dispatch_id d" by (auto simp: find_Some_iff)
    have other: "qu_dispatch_id x \<noteq> di_dispatch_id d" if "x \<in> set rows" "x \<noteq> q" for x
      using that q assms key_unique[of qu_dispatch_id rows x q] by auto
    have "fold ?u rows d = ?u q d"
    proof (rule fold_touch_once)
      show "distinct rows" using assms by (simp add: distinct_map)
      show "?u x d = d" "?u x (?u q d) = ?u q d" if "x \<in> set rows" "x \<noteq> q" for x
        using other[OF that] by auto
    qed (rule q(1))
    then show ?thesis using Some q by simp
  qed
  then show ?thesis
    unfolding release_of_def update_where_eq_map fold_map_swap by (intro map_cong refl)
qed

lemma expiry_sweep_eq:
  assumes ok: "gate_ok s" and "\<forall>q \<in> set (gs_questions s). overdue now q \<longrightarrow> valid_question q"
  shows "\<exists>t. expire_due_questions now s = (Inr (map settle_expired (filter (overdue now) (gs_questions s))), t)
    \<and> gs_questions t = map (\<lambda>q. if overdue now q then settle_expired q else q) (gs_questions s)
    \<and> gs_dispatches t = map (\<lambda>d. if di_state d = D_AWAITING_ANSWER
         then (case find (\<lambda>q. qu_dispatch_id q = di_dispatch_id d) (filter (overdue now) (gs_questions s)) of
                 None \<Rightarrow> d | Some q \<Rightarrow> d\<lparr>di_state := restored_state q\<rparr>)
         else d) (gs_dispatches s)
    \<and> expire_due_questions now t = (Inr [], t)"
proof -
  let ?rows = "filter (overdue now) (gs_questions s)"
  have ids: "distinct (map qu_question_id (gs_questions s))" and
    opens: "distinct (map qu_dispatch_id (filter is_open (gs_questions s)))"
    using ok by (simp_all add: gate_ok_def questions_ok_def)
  let ?t = "s\<lparr>gs_questions := fold expire_question_row ?rows (gs_questions s), gs_dispatches := fold release_of ?rows (gs_dispatches s)\<rparr>"
  have "expire_loop ?rows s = (Inr (map settle_expired ?rows), ?t)"
    by (rule expire_loop_fold) (use ids assms(2) in \<open>auto simp: distinct_map_filter_key overdue_def\<close>)
  then have run: "expire_due_questions now s = (Inr (map settle_expired ?rows), ?t)"
    by (simp add: expire_due_questions_def transaction_def)
  have "?rows = filter (overdue now) (filter is_open (gs_questions s))"
    by (auto simp: overdue_def intro: filter_cong)
  then have disp: "distinct (map qu_dispatch_id ?rows)"
    using opens distinct_map_filter_key[of qu_dispatch_id "filter is_open (gs_questions s)" "overdue now"] by simp
  have qs: "fold expire_question_row ?rows (gs_questions s) = map (\<lambda>q. if overdue now q then settle_expired q else q) (gs_questions s)"
    using fold_update_by_key[OF ids, of "\<lambda>_. settle_expired" is_open "overdue now"]
    unfolding expire_question_row_def by (simp add: overdue_def cong: if_cong)
  have "filter (overdue now) (gs_questions ?t) = []"
    by (auto simp: qs filter_empty_conv overdue_def is_open_def)
  then have "expire_due_questions now ?t = (Inr [], ?t)"
    by (simp only: expire_due_questions_def transaction_def expire_loop.simps prod.case sum.case)
  then show ?thesis
    using run qs fold_release[OF disp] by (intro exI[of _ ?t]) simp
qed

text \<open>(C26) The expiry sweep settles exactly the overdue questions and releases exactly their dispatches. In a
  reachable state whose overdue rows can be read, the sweep returns the overdue questions in table order, each
  marked expired; the loop of guarded updates equals one pass over the table; every other question is
  untouched; a dispatch that waits on an overdue question goes back to the state the ask suspended and every
  other dispatch stays as it was; no overdue question is left, and a second sweep finds nothing.\<close>

theorem expiry_sweep_exact:
  assumes "gate_step\<^sup>*\<^sup>* empty_gstore s" and "\<forall>q \<in> set (gs_questions s). overdue now q \<longrightarrow> valid_question q"
  shows "\<exists>t. expire_due_questions now s = (Inr (map settle_expired (filter (overdue now) (gs_questions s))), t)
    \<and> gs_questions t = map (\<lambda>q. if overdue now q then settle_expired q else q) (gs_questions s)
    \<and> gs_dispatches t = map (\<lambda>d. if di_state d = D_AWAITING_ANSWER
         then (case find (\<lambda>q. qu_dispatch_id q = di_dispatch_id d) (filter (overdue now) (gs_questions s)) of
                 None \<Rightarrow> d | Some q \<Rightarrow> d\<lparr>di_state := restored_state q\<rparr>)
         else d) (gs_dispatches s)
    \<and> expire_due_questions now t = (Inr [], t)"
  using expiry_sweep_eq[OF gate_reach_ok[OF assms(1)] assms(2)] .

theorem expiry_sweep_exact_witness:
  "\<exists>t. expire_due_questions 100 ex_asked = (Inr (map settle_expired (gs_questions ex_asked)), t)
    \<and> map di_state (gs_dispatches ex_asked) = [D_AWAITING_ANSWER] \<and> map di_state (gs_dispatches t) = [D_PREPARED]"
proof -
  let ?q = "(new_question ''q1'' (ex_ask ''k1''))\<lparr>qu_dispatch_prior_state := Some D_PREPARED\<rparr>"
  have qs: "gs_questions ex_asked = [?q]"
    and ds: "gs_dispatches ex_asked = [(other_dispatch ''d'' ''p'' (Some ''r1''))\<lparr>di_state := D_AWAITING_ANSWER\<rparr>]"
    by (simp_all add: ex_asked_eq ex_opened_eq insert_question_def set_dispatch_state_def empty_gstore_def
        update_where_def other_dispatch_def new_question_def ex_ask_def)
  have "valid_question ?q" "overdue 100 ?q"
    by (simp_all add: valid_question_def overdue_def is_open_def new_question_def ex_ask_def)
  then show ?thesis
    using expiry_sweep_exact[OF ex_gate_reach(2), of 100]
    by (auto simp: qs ds restored_state_def other_dispatch_def new_question_def ex_ask_def)
qed

text \<open>The row an ask left is found again by its request id and dispatch, in every later state.\<close>

lemma request_key_asked: "request_key q = (fst (snd (snd (asked_columns q))), fst (asked_columns q))"
  by (simp add: request_key_def asked_columns_def)

lemma found_again:
  assumes "gate_ok u" "q \<in> set (gs_questions u)" "request_key q = (as_client_request_id a, as_dispatch_id a)"
  shows "ask_question new_id a u = (case row_to_question q of Inl e \<Rightarrow> (Inl e, u) | Inr x \<Rightarrow> (Inr (x, True), u))"
proof -
  have "fetchone (\<lambda>x. request_key x = request_key q) (gs_questions u) = Some q"
    using assms(1,2) by (intro fetchone_key) (simp_all add: gate_ok_def questions_ok_def)
  moreover have "(\<lambda>x. request_key x = request_key q) =
      (\<lambda>x. qu_client_request_id x = as_client_request_id a \<and> qu_dispatch_id x = as_dispatch_id a)"
    by (auto simp: assms(3)) (simp_all add: request_key_def)
  ultimately show ?thesis by (simp add: ask_question_def)
qed

lemma blocked_while_open:
  assumes "q \<in> set (gs_questions u)" "is_open q" "qu_dispatch_id q = as_dispatch_id b"
  shows "snd (ask_question new_id b u) = u"
  using assms by (auto simp: ask_question_def Let_def split: option.splits sum.splits)

text \<open>An ask is made once and holds its slot. After an ask has left a new question, then in every later
  state: retrying it with the same request id changes nothing, never makes a second question, and when it
  returns it returns that very question flagged as a replay; and while the question is open, no ask on the
  same dispatch, under any request id, changes anything.\<close>

theorem ask_once:
  assumes "gate_step\<^sup>*\<^sup>* empty_gstore s" "ask_question new_id a s = (Inr (q, False), t)" "gate_step\<^sup>*\<^sup>* t u"
  shows "\<exists>q' \<in> set (gs_questions u). qu_question_id q' = new_id \<and> asked_columns q' = asked_columns (q\<lparr>qu_dispatch_prior_state := qu_dispatch_prior_state q'\<rparr>)
    \<and> ask_question id2 a u = (if valid_question q' then (Inr (q', True), u) else (Inl ValidationError, u))
    \<and> (is_open q' \<longrightarrow> (\<forall>id3 b. as_dispatch_id b = as_dispatch_id a \<longrightarrow> snd (ask_question id3 b u) = u))"
proof -
  have new: "snd (ask_question new_id a s) \<noteq> s \<or> (\<exists>r. fst (ask_question new_id a s) = Inr (r, False))"
    using assms(2) by simp
  obtain d :: dispatch where eq: "ask_question new_id a s =
      (Inr (new_question new_id a, False), insert_question (new_question new_id a) (di_state d) s)"
    by (rule ask_question_new[OF new]) (rule that)
  then have q: "q = new_question new_id a" and t: "t = insert_question q (di_state d) s" using assms(2) by simp_all
  have st: "gate_step\<^sup>*\<^sup>* s t"
    using question_asked[of s new_id a] assms(2) by (metis r_into_rtranclp snd_conv)
  have okt: "gate_ok t" using gate_reach_ok[OF rtranclp_trans[OF assms(1) st]] .
  have oku: "gate_ok u" using gate_reach_ok[OF rtranclp_trans[OF rtranclp_trans[OF assms(1) st] assms(3)]] .
  let ?q = "q\<lparr>qu_dispatch_prior_state := Some (di_state d)\<rparr>"
  have mem: "?q \<in> set (gs_questions t)" by (simp add: t insert_question_def set_dispatch_state_def)
  obtain q' where q': "q' \<in> set (gs_questions u)" "qu_question_id q' = qu_question_id ?q" "question_evolves ?q q'"
    using later_question[OF okt assms(3) mem] .
  then have asked: "asked_columns q' = asked_columns ?q" by (simp add: question_evolves_def)
  then have key: "request_key q' = (as_client_request_id a, as_dispatch_id a)"
    by (simp add: request_key_asked) (simp add: asked_columns_def q new_question_def)
  have prior: "qu_dispatch_prior_state q' = Some (di_state d)"
    using asked by (simp add: asked_columns_def)
  have disp: "qu_dispatch_id q' = as_dispatch_id a" using key by (simp add: request_key_def)
  have "ask_question id2 a u = (if valid_question q' then (Inr (q', True), u) else (Inl ValidationError, u))"
    using found_again[OF oku q'(1) key] by (simp add: row_to_question_def)
  moreover have "snd (ask_question id3 b u) = u" if "is_open q'" "as_dispatch_id b = as_dispatch_id a" for id3 b
    using blocked_while_open[OF q'(1) that(1)] that(2) disp by simp
  ultimately show ?thesis
    using q' asked prior by (intro bexI[of _ q']) (simp_all add: q new_question_def)
qed

theorem ask_once_witness:
  "\<exists>q' \<in> set (gs_questions ex_answered). qu_question_id q' = ''q1'' \<and> ask_question ''q2'' (ex_ask ''k1'') ex_answered = (Inr (q', True), ex_answered)"
proof -
  have "gate_step\<^sup>*\<^sup>* ex_asked ex_answered" by (rule ex_gate_reach)
  from ask_once[OF ex_gate_reach(1) ex_asked_eq(1) this, of "''q2''"]
  obtain q' where q': "q' \<in> set (gs_questions ex_answered)" "qu_question_id q' = ''q1''"
    "ask_question ''q2'' (ex_ask ''k1'') ex_answered = (if valid_question q' then (Inr (q', True), ex_answered) else (Inl ValidationError, ex_answered))"
    by blast
  have "valid_question x" if "x \<in> set (gs_questions ex_answered)" for x
    using that by (auto simp: ex_answered_eq ex_asked_eq ex_opened_eq insert_answer_def set_question_def insert_question_def
      set_dispatch_state_def empty_gstore_def ex_answer_event_def new_question_def update_where_def is_open_def ex_ask_def
      valid_question_def settle_answered_def)
  then show ?thesis using q' by auto
qed

text \<open>(C35) A claim takes the prior owner's authority away. After an accepted claim of everything a conversation
  owned, no run and no open question is owned by it any more, every such question belongs to the new
  conversation at the new epoch, the new epoch exceeds the epoch of every run taken over, and whatever the
  prior conversation then answers to an open question is refused and changes nothing.\<close>

theorem claim_fences_prior_owner:
  assumes "claim_ownership new_id now prior new ep None req who s = (Inr res, t)"
    and "co_accepted res" "\<forall>x \<in> set (gs_transfers s). ot_client_request_id x \<noteq> req" "new \<noteq> prior"
  shows "(\<forall>r \<in> set (gs_runs t). ru_owner_conversation r \<noteq> prior)
    \<and> (\<forall>q \<in> set (gs_questions t). is_open q \<longrightarrow> qu_owner_conversation q \<noteq> prior)
    \<and> (\<forall>q \<in> set (gs_questions s). is_open q \<and> qu_owner_conversation q = prior \<longrightarrow>
         (\<exists>q' \<in> set (gs_questions t). qu_question_id q' = qu_question_id q \<and> is_open q'
            \<and> qu_owner_conversation q' = new \<and> qu_owner_epoch q' = ep))
    \<and> (\<forall>r \<in> set (gs_runs s). ru_owner_conversation r = prior \<and> 0 \<le> ru_owner_epoch r \<longrightarrow> ru_owner_epoch r < ep)
    \<and> snd (answer_question id2 i ans by' req2 prior ep2 now2 t) = t"
proof -
  have ne: "snd (claim_ownership new_id now prior new ep None req who s) \<noteq> s"
  proof
    assume "snd (claim_ownership new_id now prior new ep None req who s) = s"
    then have "gs_transfers t = gs_transfers s" using assms(1) by simp
    moreover have none: "fetchone (\<lambda>t. ot_client_request_id t = req) (gs_transfers s) = None" using assms(3) by simp
    ultimately show False
      using assms(1,2) unfolding claim_ownership_def Let_def none option.case by (auto split: if_splits)
  qed
  obtain tr where tr: "ot_prior_conversation tr = prior" "ot_new_conversation tr = new" "ot_new_epoch tr = ep" "ot_run_id tr = None"
    and ep: "\<forall>r \<in> set (gs_runs s). ru_owner_conversation r = prior \<longrightarrow> 0 \<le> ru_owner_epoch r \<longrightarrow> ru_owner_epoch r < ep"
    and t: "snd (claim_ownership new_id now prior new ep None req who s) = claimed_state tr s"
    by (rule claim_ownership_new[OF ne])
  let ?g = "\<lambda>q. q\<lparr>qu_owner_conversation := new, qu_owner_epoch := ep, qu_row_version := qu_row_version q + 1\<rparr>"
  have t: "t = claimed_state tr s" using t assms(1) by simp
  have Q: "claimed_question prior None rs = (\<lambda>q. qu_owner_conversation q = prior \<and> is_open q)" for rs
    by (rule ext) (simp add: claimed_question_def)
  have qs: "gs_questions t = update_where (\<lambda>q. qu_owner_conversation q = prior \<and> is_open q) ?g (gs_questions s)"
    by (simp add: t claimed_state_def tr Q)
  have 1: "\<forall>r \<in> set (gs_runs t). ru_owner_conversation r \<noteq> prior"
    using assms(4) by (auto simp: t claimed_state_def tr claimed_run_def set_update_where)
  have 2: "\<forall>q \<in> set (gs_questions t). is_open q \<longrightarrow> qu_owner_conversation q \<noteq> prior"
    using assms(4) by (auto simp: qs set_update_where)
  have "\<exists>q' \<in> set (gs_questions t). qu_question_id q' = qu_question_id q \<and> is_open q' \<and> qu_owner_conversation q' = new \<and> qu_owner_epoch q' = ep"
    if "q \<in> set (gs_questions s)" "is_open q" "qu_owner_conversation q = prior" for q
    using that by (intro bexI[of _ "?g q"]) (force simp: qs set_update_where is_open_def)+
  moreover have "snd (answer_question id2 i ans by' req2 prior ep2 now2 t) = t"
  proof (rule ccontr)
    assume "snd (answer_question id2 i ans by' req2 prior ep2 now2 t) \<noteq> t"
    then obtain q where "q \<in> set (gs_questions t)" "aa_admissible (answer_admissible q prior ep2 now2)"
      by (rule answer_question_new)
    then show False using 2 by (auto simp: admissible_iff)
  qed
  ultimately show ?thesis using 1 2 ep by blast
qed

lemma ex_claim:
  "\<exists>res t. claim_ownership ''t1'' 60 ''c'' ''n'' 2 None ''k9'' ''n'' ex_asked = (Inr res, t) \<and> co_accepted res"
  "gs_transfers ex_asked = []"
  by (simp_all add: claim_ownership_def Let_def ex_asked_eq ex_opened_eq insert_question_def set_dispatch_state_def
      empty_gstore_def fetchone_def sql_max_def ex_run_def epoch_supersedes_def)

theorem claim_fences_prior_owner_witness:
  "\<exists>res t. claim_ownership ''t1'' 60 ''c'' ''n'' 2 None ''k9'' ''n'' ex_asked = (Inr res, t)
     \<and> snd (answer_question ''a1'' ''q1'' ''yes'' ''c'' ''k5'' ''c'' 7 70 t) = t"
proof -
  obtain res t where rt: "claim_ownership ''t1'' 60 ''c'' ''n'' 2 None ''k9'' ''n'' ex_asked = (Inr res, t)" "co_accepted res"
    using ex_claim(1) by blast
  have "snd (answer_question ''a1'' ''q1'' ''yes'' ''c'' ''k5'' ''c'' 7 70 t) = t"
    using claim_fences_prior_owner[OF rt] ex_claim(2) by simp
  with rt show ?thesis by blast
qed

text \<open>Every command is a sequence of transactions. Whatever a command of either service does in a reachable
  state, also when it raises half-way, is a run of the store transactions above, so every property of runs
  holds of any interleaving of commands.\<close>

lemma commands_are_transactions:
  assumes "gate_step\<^sup>*\<^sup>* empty_gstore s" "gate_command s t"
  shows "gate_step\<^sup>*\<^sup>* s t \<and> gate_ok t"
  using command_is_run[OF assms(2) gate_reach_ok[OF assms(1)]] gate_reach_ok[OF rtranclp_trans[OF assms(1)]] by blast

lemma commands_are_transactions_witness:
  "gate_ok (snd (settle_adjudication 30 ''r1'' True ''sub'' ''rep'' ''ver'' ex_frozen))"
  using commands_are_transactions[OF rtranclp_trans[OF ex_gate_reach(1) ex_frozen_run] gate_command.intros(5)] by blast

section \<open>The bound on rounds\<close>

definition gate_shape :: "gstore \<Rightarrow> string list \<times> (string \<times> int) list" where
  "gate_shape s = (map ro_run_id (gs_rounds s), map (\<lambda>r. (ru_run_id r, ru_max_rounds r)) (gs_runs s))"

definition same_shape :: "gstore \<Rightarrow> gstore \<Rightarrow> bool" where
  "same_shape s t \<longleftrightarrow> gate_shape t = gate_shape s"

interpretation shape: action_relation same_shape
  by unfold_locales (simp_all add: same_shape_def)

definition rounds_within :: "gstore \<Rightarrow> bool" where
  "rounds_within s \<longleftrightarrow> (\<forall>(i, m) \<in> set (snd (gate_shape s)). int (count_list (fst (gate_shape s)) i) \<le> m)"

lemma set_dispatch_shape [simp]: "gate_shape (set_dispatch_state i P d s) = gate_shape s"
  by (simp add: gate_shape_def set_dispatch_state_def)

lemma set_question_shape [simp]: "gate_shape (set_question P f s) = gate_shape s"
  by (simp add: gate_shape_def set_question_def)

lemma update_round_shape:
  assumes "\<And>r. ro_run_id (f r) = ro_run_id r"
  shows "same_shape s (snd (update_round i v rule f s))"
  using assms
  by (auto simp: same_shape_def gate_shape_def update_round_def Let_def map_update_where_key
      split: sum.splits if_splits)

lemma round_writes_shape:
  "within same_shape (freeze_review_snapshot i m v)" "within same_shape (transition_round i target v now)"
  "within same_shape (set_round_report i a b c v)"
  unfolding within_def freeze_review_snapshot_def transition_round_def set_round_report_def
  by (auto intro!: update_round_shape)

lemma transition_run_shape: "within same_shape (transition_run i target v)"
  by (auto simp: within_def same_shape_def gate_shape_def transition_run_def Let_def map_update_where_key
      split: sum.splits if_splits)

lemma plain_writes_shape:
  "within same_shape (record_dispatch d)" "within same_shape (ensure_dispatch d)"
  "within same_shape (record_effect_intent e)" "within same_shape (record_effect_result er)"
  "within same_shape (raise_gate_finding new_id now i sev st)" "within same_shape (append_disposition i dp)"
  "within same_shape (set_consumer_coverage i cc)"
  by (auto simp: within_def same_shape_def gate_shape_def record_dispatch_def ensure_dispatch_def
      record_effect_intent_def record_effect_result_def raise_gate_finding_def append_disposition_def
      set_consumer_coverage_def Let_def split: option.splits sum.splits)

lemma expire_loop_shape: "gate_shape (snd (expire_loop rows s)) = gate_shape s"
  by (induction rows arbitrary: s)
    (simp_all add: Let_def release_dispatch_def case_prod_beta split: sum.splits)

lemma question_writes_shape:
  "within same_shape (ask_question new_id ak)" "within same_shape (answer_question id1 i ans who req conv ep now)"
  "within same_shape (escalate_question i now)" "within same_shape (expire_due_questions now)"
  "within same_shape (mark_answer_consumed i now)"
proof -
  have q: "gate_shape (s\<lparr>gs_questions := x, gs_notices := y\<rparr>) = gate_shape s"
    "gate_shape (s\<lparr>gs_answers := u\<rparr>) = gate_shape s"
    "gate_shape (s\<lparr>gs_deliveries := v\<rparr>) = gate_shape s" for s x y u v
    by (simp_all add: gate_shape_def)
  show "within same_shape (ask_question new_id ak)"
    by (auto simp: within_def same_shape_def ask_question_def Let_def insert_question_def q split: option.splits sum.splits)
  show "within same_shape (escalate_question i now)"
    by (auto simp: within_def same_shape_def escalate_question_def split: sum.splits)
  show "within same_shape (expire_due_questions now)"
    by (simp add: within_def expire_due_questions_def transaction_def same_shape_def case_prod_beta expire_loop_shape
        split: sum.splits)
  show "within same_shape (mark_answer_consumed i now)"
    by (auto simp: within_def same_shape_def mark_answer_consumed_def record_consumed_def release_dispatch_def Let_def q
        split: option.splits sum.splits)
  show "within same_shape (answer_question id1 i ans who req conv ep now)"
    unfolding within_def
  proof
    fix s
    show "same_shape s (snd (answer_question id1 i ans who req conv ep now s))"
    proof (cases "snd (answer_question id1 i ans who req conv ep now s) = s")
      case False
      show ?thesis
        by (rule answer_question_new[OF False]) (simp add: same_shape_def insert_answer_def q)
    qed (simp add: same_shape_def)
  qed
qed

lemma claim_shape: "within same_shape (claim_ownership new_id now prior new ep run_id req who)"
  unfolding within_def
proof
  fix s
  show "same_shape s (snd (claim_ownership new_id now prior new ep run_id req who s))"
  proof (cases "snd (claim_ownership new_id now prior new ep run_id req who s) = s")
    case False
    show ?thesis
      by (rule claim_ownership_new[OF False])
        (simp add: same_shape_def gate_shape_def claimed_state_def map_update_where_key)
  qed (simp add: same_shape_def)
qed

lemma read_shape: "within same_shape (check r)" "within same_shape (require_round i)" "within same_shape (require_run j)"
  by (auto simp: within_def same_shape_def check_def require_round_def require_run_def split: option.splits sum.splits)

lemma notify_shape: "within same_shape (notify n now q k)"
  by (auto simp: within_def same_shape_def gate_shape_def notify_def mark_notice_sent_def mark_notice_failed_def
      split: option.splits sum.splits)

lemma notify_all_shape: "within same_shape (notify_all n now qs)"
  by (induction qs) (auto intro: shape.within_andthen shape.within_return notify_shape)

lemma ensure_shape: "within same_shape (ensure_other_dispatch i p r)"
  using plain_writes_shape(2) by (auto simp: within_def ensure_other_dispatch_def same_shape_def)

lemmas shape_rules = shape.within_andthen shape.within_return round_writes_shape transition_run_shape
  plain_writes_shape question_writes_shape claim_shape read_shape notify_shape notify_all_shape ensure_shape

lemma ask_command_shape: "within same_shape (ask_command n new_id now sent_at ex pos ak)"
  unfolding ask_command_def Let_def
  by (intro shape.within_andthen read_shape question_writes_shape)
    (simp_all add: shape_rules split: option.splits prod.splits)

lemma sweep_shape: "within same_shape (sweep_expired n now sent_at)" "within same_shape (escalate n now sent_at i)"
  unfolding sweep_expired_def escalate_def by (intro shape_rules)+

lemma round_commands_shape:
  "within same_shape (freeze_review_snapshot_command i m)" "within same_shape (begin_adjudication now i)"
  "within same_shape (settle_adjudication now i yes a b c)" "within same_shape (accept_round sha256 i a b c)"
  "within same_shape (abandon_run i)" "within same_shape (close_run i yes)" "within same_shape (close_finding i dp)"
  unfolding freeze_review_snapshot_command_def begin_adjudication_def settle_adjudication_def accept_round_def
    abandon_run_def close_run_def close_finding_def Let_def
  by (intro shape_rules | simp add: shape_rules)+

text \<open>All commands but the two that open a run or a round.\<close>

lemma command_shape:
  assumes "gate_command s t"
  shows "same_shape s t \<or> (\<exists>new_id wp lane owner ep m src inp. t = snd (open_run_command new_id wp lane owner ep m src inp s))
    \<or> (\<exists>new_id now i inputs tgt pred cmd tier gen. t = snd (open_round_command new_id now i inputs tgt pred cmd tier gen s))"
  using assms
  by (cases rule: gate_command.cases)
    (blast intro: withinD[OF ask_command_shape] withinD[OF sweep_shape(1)] withinD[OF sweep_shape(2)]
      withinD[OF round_commands_shape(1)] withinD[OF round_commands_shape(2)] withinD[OF round_commands_shape(3)]
      withinD[OF round_commands_shape(4)] withinD[OF round_commands_shape(5)] withinD[OF round_commands_shape(6)]
      withinD[OF round_commands_shape(7)] withinD[OF plain_writes_shape(1)] withinD[OF plain_writes_shape(3)]
      withinD[OF plain_writes_shape(4)] withinD[OF plain_writes_shape(5)] withinD[OF plain_writes_shape(7)]
      withinD[OF question_writes_shape(2)] withinD[OF question_writes_shape(5)] withinD[OF claim_shape])+

lemma open_run_within:
  assumes "gate_ok s" "rounds_within s"
  shows "rounds_within (snd (open_run_command new_id wp lane owner ep m src inp s))"
proof (cases "snd (open_run_command new_id wp lane owner ep m src inp s) = s")
  case False
  then obtain r where r: "snd (open_run_command new_id wp lane owner ep m src inp s) = s\<lparr>gs_runs := gs_runs s @ [r]\<rparr>"
    "ru_run_id r = new_id" "ru_max_rounds r = m" and m: "0 < m" and new: "new_id \<notin> ru_run_id ` set (gs_runs s)"
    by (auto simp: open_run_command_def command_simps open_run_def Let_def validate_max_rounds_def split: if_splits)
  have "new_id \<notin> set (map ro_run_id (gs_rounds s))"
    using new assms(1) by (auto simp: gate_ok_def rounds_ok_def)
  then have "count_list (map ro_run_id (gs_rounds s)) new_id = 0" by (simp add: count_list_0_iff)
  then show ?thesis using assms(2) r m by (auto simp: rounds_within_def gate_shape_def)
qed (use assms in simp)

lemma count_list_map: "count_list (map f xs) y = length (filter (\<lambda>x. f x = y) xs)"
  by (induction xs) auto

lemma open_round_within:
  assumes ok: "gate_ok s" "rounds_within s"
  shows "rounds_within (snd (open_round_command new_id now i inputs tgt pred cmd tier gen s))"
proof (cases "snd (open_round_command new_id now i inputs tgt pred cmd tier gen s) = s")
  case False
  then obtain run x where run: "get_run i s = Inr (Some run)"
      "int (length (filter (\<lambda>r. ro_state r \<noteq> Round_ABANDONED) (rounds_for_run i s))) < ru_max_rounds run"
    and t: "snd (open_round_command new_id now i inputs tgt pred cmd tier gen s) = s\<lparr>gs_rounds := gs_rounds s @ [x]\<rparr>"
    and x: "ro_run_id x = i"
    by (auto simp: open_round_command_def command_simps open_round_def Let_def new_round_def split: option.splits sum.splits if_splits)
  have "filter (\<lambda>r. ro_state r \<noteq> Round_ABANDONED) (rounds_for_run i s) = rounds_for_run i s"
    using ok(1) by (auto simp: filter_id_conv rounds_for_run_def gate_ok_def rounds_ok_def round_ok_def)
  then have lt: "int (count_list (map ro_run_id (gs_rounds s)) i) < ru_max_rounds run"
    using run(2) by (simp add: rounds_for_run_def count_list_map)
  have "y = run" if "y \<in> set (gs_runs s)" "ru_run_id y = i" for y
    using that get_run_SomeD[OF run(1)] key_unique[of ru_run_id "gs_runs s" y run] ok(1)
    by (auto simp: gate_ok_def runs_ok_def)
  then show ?thesis
    using ok(2) lt unfolding t rounds_within_def gate_shape_def by (auto simp: x)
qed (use assms in simp)

lemma empty_within: "rounds_within empty_gstore"
  by (simp add: rounds_within_def gate_shape_def empty_gstore_def)

lemma same_shape_within: "same_shape s t \<Longrightarrow> rounds_within s \<Longrightarrow> rounds_within t"
  by (simp add: same_shape_def rounds_within_def)

lemma command_within: "gate_command s t \<Longrightarrow> gate_ok s \<Longrightarrow> rounds_within s \<Longrightarrow> gate_ok t \<and> rounds_within t"
  using command_shape[of s t] gate.inv_steps[OF command_is_run, of s t] open_run_within[of s] open_round_within[of s]
    same_shape_within[of s t] by blast

interpretation commands: transition_system "\<lambda>s. s = empty_gstore" gate_command "\<lambda>s. gate_ok s \<and> rounds_within s"
  by unfold_locales (auto simp: empty_gate_ok empty_within dest: command_within)

text \<open>A run never holds more rounds than its bound, as long as commands run one at a time. In every state
  that a sequence of commands of the two services reaches from the empty tables, each run has at most
  \<open>max_rounds\<close> rounds, numbered from one upwards.\<close>

theorem rounds_bounded:
  assumes "gate_command\<^sup>*\<^sup>* empty_gstore s" "run \<in> set (gs_runs s)"
  shows "int (length (rounds_for_run (ru_run_id run) s)) \<le> ru_max_rounds run
    \<and> map ro_round_no (rounds_for_run (ru_run_id run) s) = map (\<lambda>k. int k + 1) [0..<length (rounds_for_run (ru_run_id run) s)]"
proof -
  have ok: "gate_ok s" "rounds_within s" using commands.inv_reachable[OF refl assms(1)] by simp_all
  let ?rs = "filter (\<lambda>r. ro_run_id r = ru_run_id run) (gs_rounds s)"
  have len: "int (length ?rs) \<le> ru_max_rounds run"
    using ok(2) assms(2) by (auto simp: rounds_within_def gate_shape_def count_list_map)
  have no: "map ro_round_no ?rs = map (\<lambda>k. int k + 1) [0..<length ?rs]"
    using ok(1) by (simp add: gate_ok_def rounds_ok_def numbered_def)
  then have "sorted (map ro_round_no ?rs)" by (simp add: sorted_iff_nth_mono)
  then have "sort_key ro_round_no ?rs = ?rs" by (simp add: sort_key_id_if_sorted)
  then show ?thesis using len no by (simp add: rounds_for_run_def)
qed

lemma ex_commands: "gate_command\<^sup>*\<^sup>* empty_gstore ex_opened"
proof -
  let ?s1 = "snd (open_run_command ''R'' ''wp'' ''lane'' ''c'' 1 2 [] [] empty_gstore)"
  let ?s2 = "snd (open_round_command ''r1'' 5 ''R'' (ex_manifest []) ex_target None [] [] 0 ?s1)"
  have s1: "?s1 = snd (open_run ''R'' ''wp'' ''lane'' ''c'' 1 2 [] [] empty_gstore)"
    by (simp add: open_run_command_def command_simps validate_max_rounds_def)
  have s1': "?s1 = empty_gstore\<lparr>gs_runs := [ex_run]\<rparr>"
    unfolding s1 by (simp add: open_run_def validate_max_rounds_def valid_run_def Let_def ex_run_def empty_gstore_def)
  have "valid_run ex_run" by (simp add: valid_run_def ex_run_def)
  then have s2: "?s2 = snd (open_round ''r1'' 5 ''R'' (ex_manifest []) ex_target None [] [] 0 ?s1)"
    unfolding s1' by (simp add: open_round_command_def command_simps get_run_def row_to_run_def fetchone_def ex_run_def
        rounds_for_run_def empty_gstore_def Let_def)
  have "gate_command\<^sup>*\<^sup>* empty_gstore ?s2"
    by (rule converse_rtranclp_into_rtranclp, rule gate_command.intros(1), rule r_into_rtranclp, rule gate_command.intros(2))
  moreover have "ex_opened = snd (record_dispatch (other_dispatch ''d'' ''p'' (Some ''r1'')) ?s2)"
    by (simp only: ex_opened_def s1 s2[unfolded s1])
  then have "gate_command ?s2 ex_opened" by (rule ssubst) (rule gate_command.intros(9))
  ultimately show ?thesis by (rule rtranclp.rtrancl_into_rtrancl)
qed

theorem rounds_bounded_witness:
  "int (length (rounds_for_run ''R'' ex_opened)) \<le> 2 \<and> map ro_round_no (rounds_for_run ''R'' ex_opened) = [1]"
  using rounds_bounded[OF ex_commands, of ex_run]
  by (simp add: ex_opened_eq ex_run_def rounds_for_run_def ex_round_def new_round_def)

end
