(* ===== verification/Gate_Edges.thy ===== *)
theory Gate_Edges
  imports Gate_Promises
begin

text \<open>
  The waiting state of a run as a projection over its dispatches, and three situations the gate's rules do not
  cover: two callers that open a round at the same time, a question asked before the previous answer was
  received, and a finding raised with an empty statement.
\<close>

section \<open>Reading a run\<close>

lemma convert_rows_total:
  "(\<And>r. r \<in> set rs \<Longrightarrow> f r = Inr (g r)) \<Longrightarrow> convert_rows f rs = Inr (map g rs)"
  by (induction rs) auto

lemma convert_rows_raises: "r \<in> set rs \<Longrightarrow> f r = Inl e \<Longrightarrow> \<exists>e'. convert_rows f rs = Inl e'"
  by (induction rs) (auto split: sum.splits)

text \<open>The rows a projection of a run reads can be read.\<close>

definition readable :: "string \<Rightarrow> gstore \<Rightarrow> bool" where
  "readable run_id s \<longleftrightarrow> (\<forall>q \<in> set (gs_questions s). valid_question q)
     \<and> (\<forall>f \<in> set (gs_findings s). fr_run_id f = run_id \<longrightarrow>
          fr_finding_id f \<noteq> [] \<and> fr_raised_in_round f \<noteq> [] \<and> fr_statement f \<noteq> [])"

lemma load_finding_total:
  assumes "gate_ok s" "f \<in> set (gs_findings s)" "fr_finding_id f \<noteq> []" "fr_raised_in_round f \<noteq> []" "fr_statement f \<noteq> []"
  shows "\<exists>x. load_finding_locked (fr_finding_id f) s = Inr x"
proof -
  have "fetchone (\<lambda>x. fr_finding_id x = fr_finding_id f) (gs_findings s) = Some f"
    using assms(1,2) by (simp add: fetchone_key gate_ok_def finding_rows_ok_def)
  then show ?thesis using assms(3-5) by (simp add: load_finding_locked_def)
qed

lemma findings_total:
  assumes "gate_ok s" "readable i s"
  shows "\<exists>fs. open_findings_for_run i s = Inr fs"
proof -
  let ?rows = "sort_key fr_created_at (filter (\<lambda>f. fr_run_id f = i) (gs_findings s))"
  have "\<exists>x. load_finding_locked (fr_finding_id f) s = Inr x" if "f \<in> set ?rows" for f
    using that load_finding_total[OF assms(1), of f] assms(2) by (auto simp: readable_def)
  then have "convert_rows (\<lambda>f. load_finding_locked (fr_finding_id f) s) ?rows
      = Inr (map (\<lambda>f. projr (load_finding_locked (fr_finding_id f) s)) ?rows)"
    by (intro convert_rows_total) (metis sum.sel(2))
  then show ?thesis by (simp add: open_findings_for_run_def)
qed

lemma project_round_total:
  assumes ok: "gate_ok s" and r: "r \<in> set (gs_rounds s)" and run: "run \<in> set (gs_runs s)" "ru_run_id run = ro_run_id r"
    and v: "valid_run run" "readable (ro_run_id r) s"
  shows "\<exists>p. project_round (ro_round_id r) s = Inr (Some p)
    \<and> rp_dispatches p = filter (\<lambda>d. di_round_id d = Some (ro_round_id r)) (gs_dispatches s)"
proof -
  have get: "get_round (ro_round_id r) s = Some r"
    using ok r by (simp add: get_round_def fetchone_key gate_ok_def rounds_ok_def)
  have "fetchone (\<lambda>x. ru_run_id x = ro_run_id r) (gs_runs s) = Some run"
    using ok run by (intro fetchone_key_eq) (simp_all add: gate_ok_def runs_ok_def)
  then have getrun: "get_run (ro_run_id r) s = Inr (Some run)"
    using v(1) by (simp add: get_run_def row_to_run_def)
  obtain fs where fs: "open_findings_for_run (ro_run_id r) s = Inr fs" using findings_total[OF ok v(2)] by blast
  let ?qs = "sort_key qu_question_id (filter (\<lambda>q. qu_round_id q = Some (ro_round_id r)) (gs_questions s))"
  have "convert_rows row_to_question ?qs = Inr (map (\<lambda>q. q) ?qs)"
    by (rule convert_rows_total) (use v(2) in \<open>auto simp: readable_def row_to_question_def\<close>)
  then show ?thesis using get getrun fs by (simp add: project_round_def Let_def)
qed

text \<open>The waiting state is never stale. For an open run whose rows can be read, the effective state is
  computed without an exception and without a write, and it is the waiting state exactly when some dispatch
  under one of the run's rounds is waiting for an answer in the tables at that moment; the run row itself never
  says so.\<close>

theorem effective_state_is_projection:
  assumes "gate_step\<^sup>*\<^sup>* empty_gstore s" "run \<in> set (gs_runs s)" "valid_run run" "ru_state run = Run_OPEN"
    and "readable (ru_run_id run) s"
  shows "run_effective_state (ru_run_id run) s =
    (Inr (if \<exists>d \<in> set (gs_dispatches s). di_state d = D_AWAITING_ANSWER
             \<and> (\<exists>r \<in> set (gs_rounds s). ro_run_id r = ru_run_id run \<and> di_round_id d = Some (ro_round_id r))
          then Run_AWAITING_ANSWER else Run_OPEN), s)"
proof -
  have ok: "gate_ok s" using gate_reach_ok[OF assms(1)] .
  have "fetchone (\<lambda>x. ru_run_id x = ru_run_id run) (gs_runs s) = Some run"
    using ok assms(2) by (simp add: fetchone_key gate_ok_def runs_ok_def)
  then have get: "get_run (ru_run_id run) s = Inr (Some run)" using assms(3) by (simp add: get_run_def row_to_run_def)
  let ?rs = "rounds_for_run (ru_run_id run) s"
  let ?ds = "\<lambda>r. filter (\<lambda>d. di_round_id d = Some (ro_round_id r)) (gs_dispatches s)"
  have each: "\<exists>p. project_round (ro_round_id r) s = Inr (Some p) \<and> rp_dispatches p = ?ds r" if "r \<in> set ?rs" for r
    using project_round_total[OF ok, of r run] that assms(2,3,5) by (simp add: rounds_for_run_def)
  then have conv: "convert_rows (\<lambda>r. project_round (ro_round_id r) s) ?rs = Inr (map (\<lambda>r. projr (project_round (ro_round_id r) s)) ?rs)"
    by (intro convert_rows_total) (metis sum.sel(2))
  let ?states = "concat (map (\<lambda>p. case p of None \<Rightarrow> [] | Some q \<Rightarrow> map di_state (rp_dispatches q))
      (map (\<lambda>r. projr (project_round (ro_round_id r) s)) ?rs))"
  have "(case projr (project_round (ro_round_id r) s) of None \<Rightarrow> [] | Some q \<Rightarrow> map di_state (rp_dispatches q)) = map di_state (?ds r)"
    if "r \<in> set ?rs" for r
    using each[OF that] by auto
  then have "?states = concat (map (\<lambda>r. map di_state (?ds r)) ?rs)" by (simp cong: map_cong)
  then have "run_awaiting_answer ?states \<longleftrightarrow> (\<exists>d \<in> set (gs_dispatches s). di_state d = D_AWAITING_ANSWER
       \<and> (\<exists>r \<in> set (gs_rounds s). ro_run_id r = ru_run_id run \<and> di_round_id d = Some (ro_round_id r)))"
    by (auto simp: run_awaiting_answer_def list_ex_iff rounds_for_run_def image_iff) (metis, metis)
  then show ?thesis
    using get assms(4) conv by (simp add: run_effective_state_def command_simps Let_def)
qed

lemma ex_asked_tables:
  "gs_runs ex_asked = [ex_run]" "gs_rounds ex_asked = [ex_round]" "gs_findings ex_asked = []"
  "gs_questions ex_asked = [(new_question ''q1'' (ex_ask ''k1''))\<lparr>qu_dispatch_prior_state := Some D_PREPARED\<rparr>]"
  "gs_dispatches ex_asked = [(other_dispatch ''d'' ''p'' (Some ''r1''))\<lparr>di_state := D_AWAITING_ANSWER\<rparr>]"
  by (simp_all add: ex_asked_eq ex_opened_eq insert_question_def set_dispatch_state_def empty_gstore_def update_where_def
      new_question_def ex_ask_def other_dispatch_def)

theorem effective_state_is_projection_witness: "run_effective_state ''R'' ex_asked = (Inr Run_AWAITING_ANSWER, ex_asked)"
proof -
  have "valid_run ex_run" "ru_run_id ex_run = ''R''" "ru_state ex_run = Run_OPEN" by (simp_all add: valid_run_def ex_run_def)
  moreover have "readable ''R'' ex_asked"
    by (simp add: readable_def ex_asked_tables valid_question_def new_question_def ex_ask_def)
  ultimately show ?thesis
    using effective_state_is_projection[OF ex_gate_reach(2), of ex_run]
    by (simp add: ex_asked_tables ex_round_def new_round_def other_dispatch_def ex_run_def)
qed

section \<open>Two callers at once\<close>

text \<open>The bound on rounds is checked by the service in its own reads and not by the store's transaction: when
  two callers have both passed the check, both rounds are opened.\<close>

definition ex_one :: gstore where
  "ex_one = empty_gstore\<lparr>gs_runs := [ex_run\<lparr>ru_max_rounds := 1\<rparr>]\<rparr>"

lemma concurrent_open_rounds_exceed:
  defines "s1 \<equiv> snd (open_round ''r1'' 5 ''R'' (ex_manifest []) ex_target None [] [] 0 ex_one)"
  shows "fst (open_round_command ''r1'' 5 ''R'' (ex_manifest []) ex_target None [] [] 0 ex_one) = Inr ex_round
    \<and> fst (open_round_command ''r2'' 6 ''R'' (ex_manifest []) ex_target None [] [] 0 ex_one) \<noteq> Inl GateError
    \<and> length (rounds_for_run ''R'' (snd (open_round ''r2'' 6 ''R'' (ex_manifest []) ex_target None [] [] 0 s1))) = 2
    \<and> map ru_max_rounds (gs_runs s1) = [1]"
  by (simp add: s1_def ex_one_def open_round_command_def command_simps get_run_def row_to_run_def fetchone_def ex_run_def
      valid_run_def rounds_for_run_def empty_gstore_def open_round_def max_round_no_def sql_max_def new_round_def valid_round_def
      ex_round_def Let_def)

section \<open>A question before the previous answer was received\<close>

text \<open>(C36) A question asked while its dispatch still waits on an unreceived answer leaves the dispatch waiting
  when it expires. The ask records the waiting state as the state to go back to, so the sweep that expires the
  question restores the waiting state: afterwards the dispatch reads as waiting and has no open question, and
  no later sweep changes that.\<close>

theorem overlapping_ask_sticks:
  assumes "gate_step\<^sup>*\<^sup>* empty_gstore s" "get_dispatch (as_dispatch_id a) s = Some d" "di_state d = D_AWAITING_ANSWER"
    and "ask_question new_id a s = (Inr (q, False), t)"
    and "as_expires_at a \<le> now" "\<forall>x \<in> set (gs_questions t). overdue now x \<longrightarrow> valid_question x"
  shows "\<exists>u. snd (expire_due_questions now t) = u
    \<and> get_dispatch (as_dispatch_id a) u = Some d
    \<and> (\<forall>x \<in> set (gs_questions u). qu_dispatch_id x = as_dispatch_id a \<longrightarrow> \<not> is_open x)
    \<and> expire_due_questions now u = (Inr [], u)"
proof -
  have new: "snd (ask_question new_id a s) \<noteq> s \<or> (\<exists>r. fst (ask_question new_id a s) = Inr (r, False))"
    using assms(4) by simp
  obtain d' :: dispatch where d': "get_dispatch (as_dispatch_id a) s = Some d'"
    and closed: "\<forall>q \<in> set (gs_questions s). qu_dispatch_id q = as_dispatch_id a \<longrightarrow> \<not> is_open q"
    and eq: "ask_question new_id a s = (Inr (new_question new_id a, False), insert_question (new_question new_id a) (di_state d') s)"
    by (rule ask_question_new[OF new]) (rule that)
  let ?q = "(new_question new_id a)\<lparr>qu_dispatch_prior_state := Some D_AWAITING_ANSWER\<rparr>"
  have t: "t = insert_question (new_question new_id a) D_AWAITING_ANSWER s" using assms(2-4) d' eq by auto
  have nd: "qu_dispatch_id (new_question new_id a) = as_dispatch_id a" by (simp add: new_question_def)
  have qs: "gs_questions t = gs_questions s @ [?q]"
    and ds: "gs_dispatches t = update_where (\<lambda>x. di_dispatch_id x = as_dispatch_id a) (\<lambda>x. x\<lparr>di_state := D_AWAITING_ANSWER\<rparr>) (gs_dispatches s)"
    by (simp_all add: t insert_question_def set_dispatch_state_def nd)
  have st: "gate_step\<^sup>*\<^sup>* s t" using question_asked[of s new_id a] assms(4) by (metis r_into_rtranclp snd_conv)
  have okt: "gate_ok t" using gate_reach_ok[OF rtranclp_trans[OF assms(1) st]] .
  have od: "overdue now ?q" using assms(5) by (simp add: overdue_def is_open_def new_question_def)
  obtain u where u: "snd (expire_due_questions now t) = u" "expire_due_questions now u = (Inr [], u)"
    and uq: "gs_questions u = map (\<lambda>q. if overdue now q then settle_expired q else q) (gs_questions t)"
    and ud: "gs_dispatches u = map (\<lambda>d. if di_state d = D_AWAITING_ANSWER
         then (case find (\<lambda>q. qu_dispatch_id q = di_dispatch_id d) (filter (overdue now) (gs_questions t)) of
                 None \<Rightarrow> d | Some q \<Rightarrow> d\<lparr>di_state := restored_state q\<rparr>) else d) (gs_dispatches t)"
    using expiry_sweep_eq[OF okt assms(6)] by auto
  have only: "x = ?q" if "x \<in> set (filter (overdue now) (gs_questions t))" "qu_dispatch_id x = as_dispatch_id a" for x
    using that closed by (auto simp: qs overdue_def split: if_splits)
  have dm: "d \<in> set (gs_dispatches s)" "di_dispatch_id d = as_dispatch_id a" using get_dispatch_SomeD[OF assms(2)] by simp_all
  have find: "find (\<lambda>q. qu_dispatch_id q = as_dispatch_id a) (filter (overdue now) (gs_questions t)) = Some ?q"
  proof -
    have "\<exists>x. find (\<lambda>q. qu_dispatch_id q = as_dispatch_id a) (filter (overdue now) (gs_questions t)) = Some x"
      using od nd by (cases "find (\<lambda>q. qu_dispatch_id q = as_dispatch_id a) (filter (overdue now) (gs_questions t))")
        (auto simp: find_None_iff qs)
    then show ?thesis using only by (metis (mono_tags, lifting) find_Some_iff nth_mem)
  qed
  have "d \<in> set (gs_dispatches t)"
    using dm assms(3) by (force simp: ds set_update_where)
  then have "d \<in> set (gs_dispatches u)"
    using assms(3) find dm(2) by (force simp: ud restored_state_def)
  moreover have "gate_ok u"
    using expire_due_questions_good[of t now] okt u(1) by (simp add: gate_good_def)
  ultimately have "get_dispatch (as_dispatch_id a) u = Some d"
    using dm(2) fetchone_key_eq[of di_dispatch_id "gs_dispatches u" d] by (simp add: get_dispatch_def gate_ok_def)
  moreover have "\<forall>x \<in> set (gs_questions u). qu_dispatch_id x = as_dispatch_id a \<longrightarrow> \<not> is_open x"
    using closed od nd by (auto simp: uq qs is_open_def)
  ultimately show ?thesis using u by blast
qed

definition ex_second :: gstore where
  "ex_second = snd (ask_question ''q2'' (ex_ask ''k7'') ex_answered)"

lemma ex_answered_tables:
  "gs_questions ex_answered = [settle_answered ''a1'' ((new_question ''q1'' (ex_ask ''k1''))\<lparr>qu_dispatch_prior_state := Some D_PREPARED\<rparr>)]"
  "gs_dispatches ex_answered = [(other_dispatch ''d'' ''p'' (Some ''r1''))\<lparr>di_state := D_AWAITING_ANSWER\<rparr>]"
  "map ni_question_id (gs_notices ex_answered) = [''q1'']"
  by (simp_all add: ex_answered_eq insert_answer_def set_question_def ex_asked_tables update_where_def ex_answer_event_def
      new_question_def is_open_def) (simp add: ex_asked_eq ex_opened_eq insert_question_def set_dispatch_state_def empty_gstore_def
      new_question_def)

lemma ex_second_eq:
  "ask_question ''q2'' (ex_ask ''k7'') ex_answered = (Inr (new_question ''q2'' (ex_ask ''k7''), False), ex_second)"
  "gs_questions ex_second = gs_questions ex_answered @ [(new_question ''q2'' (ex_ask ''k7''))\<lparr>qu_dispatch_prior_state := Some D_AWAITING_ANSWER\<rparr>]"
proof -
  have n: "''q2'' \<notin> ni_question_id ` set (gs_notices ex_answered)"
    using arg_cong[OF ex_answered_tables(3), of set] by simp
  show 1: "ask_question ''q2'' (ex_ask ''k7'') ex_answered = (Inr (new_question ''q2'' (ex_ask ''k7''), False), ex_second)"
    using n by (simp add: ex_second_def ask_question_def get_dispatch_def ex_answered_tables fetchone_def other_dispatch_def
        dispatch_may_be_suspended_def LIVE_DISPATCH_STATES_def new_question_def ex_ask_def settle_answered_def
        is_open_def valid_question_def Let_def)
  then show "gs_questions ex_second = gs_questions ex_answered @ [(new_question ''q2'' (ex_ask ''k7''))\<lparr>qu_dispatch_prior_state := Some D_AWAITING_ANSWER\<rparr>]"
    using n by (simp add: ex_second_def ask_question_def get_dispatch_def ex_answered_tables fetchone_def other_dispatch_def
        dispatch_may_be_suspended_def LIVE_DISPATCH_STATES_def new_question_def ex_ask_def settle_answered_def
        is_open_def valid_question_def Let_def insert_question_def set_dispatch_state_def)
qed

theorem overlapping_ask_sticks_witness:
  "\<exists>u. snd (expire_due_questions 100 ex_second) = u
    \<and> get_dispatch ''d'' u = Some ((other_dispatch ''d'' ''p'' (Some ''r1''))\<lparr>di_state := D_AWAITING_ANSWER\<rparr>)
    \<and> (\<forall>x \<in> set (gs_questions u). qu_dispatch_id x = ''d'' \<longrightarrow> \<not> is_open x)"
proof -
  let ?d = "(other_dispatch ''d'' ''p'' (Some ''r1''))\<lparr>di_state := D_AWAITING_ANSWER\<rparr>"
  have a: "as_dispatch_id (ex_ask ''k7'') = ''d''" "as_expires_at (ex_ask ''k7'') \<le> 100" by (simp_all add: ex_ask_def)
  have d: "get_dispatch (as_dispatch_id (ex_ask ''k7'')) ex_answered = Some ?d" "di_state ?d = D_AWAITING_ANSWER"
    by (simp_all add: a get_dispatch_def ex_answered_tables fetchone_def other_dispatch_def)
  have v: "\<forall>x \<in> set (gs_questions ex_second). overdue 100 x \<longrightarrow> valid_question x"
    by (simp add: ex_second_eq ex_answered_tables overdue_def is_open_def valid_question_def new_question_def ex_ask_def)
  from overlapping_ask_sticks[OF rtranclp_trans[OF ex_gate_reach(2,3)] d ex_second_eq(1) a(2) v]
  show ?thesis by (auto simp: a)
qed

section \<open>A finding without a statement\<close>

text \<open>A finding raised with an empty statement blocks its run. The row is committed before the value
  is validated: the call raises and the row stays, and from then on, in every later state, no round of that
  run can be projected, so no brief of it can be rendered and its waiting state cannot be computed.\<close>

theorem empty_finding_blocks_run:
  assumes "gate_step\<^sup>*\<^sup>* empty_gstore s" "r \<in> set (gs_rounds s)" "new_id \<notin> fr_finding_id ` set (gs_findings s)"
    and "gate_step\<^sup>*\<^sup>* (snd (raise_gate_finding new_id now (ro_round_id r) sev [] s)) t"
    and "x \<in> set (gs_rounds t)" "ro_run_id x = ro_run_id r"
  shows "fst (raise_gate_finding new_id now (ro_round_id r) sev [] s) = Inl ValidationError
    \<and> (\<forall>p. project_round (ro_round_id x) t \<noteq> Inr (Some p))"
proof -
  let ?f = "\<lparr>fr_finding_id = new_id, fr_raised_in_round = ro_round_id r, fr_run_id = ro_run_id r, fr_severity = sev,
    fr_statement = [], fr_created_at = now\<rparr>"
  let ?s = "snd (raise_gate_finding new_id now (ro_round_id r) sev [] s)"
  have ok: "gate_ok s" using gate_reach_ok[OF assms(1)] .
  have "fetchone (\<lambda>y. ro_round_id y = ro_round_id r) (gs_rounds s) = Some r"
    using ok assms(2) by (simp add: fetchone_key gate_ok_def rounds_ok_def)
  then have raised: "raise_gate_finding new_id now (ro_round_id r) sev [] s = (Inl ValidationError, s\<lparr>gs_findings := gs_findings s @ [?f]\<rparr>)"
    using assms(3) by (simp add: raise_gate_finding_def Let_def)
  have oks: "gate_ok ?s" using raise_gate_finding_good[of s new_id now "ro_round_id r" sev "[]"] ok by (simp add: gate_good_def)
  have okt: "gate_ok t" using gate.inv_steps[OF assms(4) oks] .
  have mem: "?f \<in> set (gs_findings t)"
    using gate_run_evolves[OF assms(4) oks] by (auto simp: gate_evolves_def raised prefix_def)
  have "fetchone (\<lambda>y. fr_finding_id y = new_id) (gs_findings t) = Some ?f"
    using okt mem by (intro fetchone_key_eq) (simp_all add: gate_ok_def finding_rows_ok_def)
  then have load: "load_finding_locked new_id t = Inl ValidationError" by (simp add: load_finding_locked_def)
  have "\<exists>e. convert_rows (\<lambda>f. load_finding_locked (fr_finding_id f) t)
      (sort_key fr_created_at (filter (\<lambda>f. fr_run_id f = ro_run_id x) (gs_findings t))) = Inl e"
    by (rule convert_rows_raises[of ?f]) (use mem assms(6) load in simp_all)
  then obtain e where e: "open_findings_for_run (ro_run_id x) t = Inl e" by (auto simp: open_findings_for_run_def)
  have "get_round (ro_round_id x) t = Some x"
    using okt assms(5) by (simp add: get_round_def fetchone_key gate_ok_def rounds_ok_def)
  then have "project_round (ro_round_id x) t \<noteq> Inr (Some p)" for p
    by (simp add: project_round_def e Let_def split: sum.splits option.splits)
  then show ?thesis by (simp add: raised)
qed

theorem empty_finding_blocks_run_witness:
  "\<forall>p. project_round ''r1'' (snd (raise_gate_finding ''f'' 9 ''r1'' NIT [] ex_opened)) \<noteq> Inr (Some p)"
proof -
  have r: "ex_round \<in> set (gs_rounds ex_opened)" "ro_round_id ex_round = ''r1''" "''f'' \<notin> fr_finding_id ` set (gs_findings ex_opened)"
    by (simp_all add: ex_opened_eq ex_round_def new_round_def empty_gstore_def)
  have "ex_round \<in> set (gs_rounds (snd (raise_gate_finding ''f'' 9 ''r1'' NIT [] ex_opened)))"
    by (simp add: ex_opened_eq raise_gate_finding_def Let_def fetchone_def empty_gstore_def ex_round_def new_round_def)
  with empty_finding_blocks_run[OF ex_gate_reach(1) r(1,3), of 9 NIT _ ex_round] r(2) show ?thesis by simp
qed

end
