(* ===== verification/Receiver_Screen.thy ===== *)
theory Receiver_Screen
  imports CAO_Prelude "HOL-Library.Multiset"
begin

text \<open>
  The provider-blind classification law for composited terminal screens
  (\<open>kernel/receiver_state/classification.py\<close>) and the status enumeration of \<open>models/terminal.py\<close> it
  answers in. A provider turns a screen into signals, one per physical row it recognises; the law turns
  the signals of this frame and of the previous one into one status.
\<close>

section \<open>Statuses and signals\<close>

datatype terminal_status =
    TS_UNKNOWN | TS_IDLE | TS_PROCESSING | TS_COMPLETED | TS_WAITING_USER_ANSWER
  | TS_RENDER_UNCERTAIN | TS_ERROR

datatype signal_class = Sig_Waiting | Sig_Error | Sig_Progress | Sig_Completion | Sig_Chrome | Sig_None

datatype temporal_policy = Corroborable | Exempt | No_Policy

record anchor_spec =
  an_provider_signal :: string
  an_temporal_policy :: temporal_policy

record screen_signal =
  sg_class :: signal_class
  sg_provider :: string
  sg_row :: int
  sg_bytes :: "string option"
  sg_policy :: temporal_policy

text \<open>The constructor with its \<open>__post_init__\<close>.\<close>

definition mk_screen_signal ::
  "signal_class \<Rightarrow> string \<Rightarrow> int \<Rightarrow> string option \<Rightarrow> temporal_policy \<Rightarrow> screen_signal result"
where
  "mk_screen_signal cls name row bytes policy =
     (if policy = Corroborable \<and> bytes = None then Inl ValueError
      else Inr \<lparr> sg_class = cls, sg_provider = name, sg_row = row, sg_bytes = bytes,
                 sg_policy = policy \<rparr>)"

record screen_classification =
  cl_status :: terminal_status
  cl_class :: signal_class
  cl_provider :: "string option"
  cl_row :: "int option"

record screen_result =
  sr_classification :: screen_classification
  sr_signals :: "screen_signal list"

section \<open>Corroboration by the previous frame\<close>

text \<open>A progress signal takes part in the comparison of two frames when its policy says so: by default
  the corroborable ones, with an anchor those of the anchor's name and policy.\<close>

definition corroborated :: "anchor_spec option \<Rightarrow> screen_signal \<Rightarrow> bool" where
  "corroborated anchor s =
     (case anchor of
        None \<Rightarrow> sg_class s = Sig_Progress \<and> sg_policy s = Corroborable \<and> sg_bytes s \<noteq> None
      | Some a \<Rightarrow> sg_class s = Sig_Progress \<and> sg_provider s = an_provider_signal a
                  \<and> sg_policy s = an_temporal_policy a \<and> sg_bytes s \<noteq> None)"

text \<open>\<open>Counter(\<dots>)\<close> over the rows of the previous frame.\<close>

definition prior_rows :: "anchor_spec option \<Rightarrow> screen_signal list \<Rightarrow> string multiset" where
  "prior_rows anchor prior = mset (map (the \<circ> sg_bytes) (filter (corroborated anchor) prior))"

text \<open>The loop over the candidates from the top row down: a row the previous frame still has a copy of
  uses that copy up and is demoted.\<close>

fun demote_loop :: "(nat \<times> screen_signal) list \<Rightarrow> string multiset \<Rightarrow> nat list" where
  "demote_loop [] remaining = []"
| "demote_loop ((position, s) # rest) remaining =
     (if the (sg_bytes s) \<in># remaining
      then position # demote_loop rest (remaining - {# the (sg_bytes s) #})
      else demote_loop rest remaining)"

definition candidate_order :: "anchor_spec option \<Rightarrow> screen_signal list \<Rightarrow> (nat \<times> screen_signal) list" where
  "candidate_order anchor signals =
     sort_key (\<lambda>item. (sg_row (snd item), fst item))
       (filter (\<lambda>item. corroborated anchor (snd item)) (enumerate 0 signals))"

definition demoted ::
  "screen_signal list \<Rightarrow> screen_signal list \<Rightarrow> anchor_spec option \<Rightarrow> nat list"
where
  "demoted signals prior anchor =
     demote_loop (candidate_order anchor signals) (prior_rows anchor prior)"

definition effective ::
  "screen_signal list \<Rightarrow> screen_signal list \<Rightarrow> anchor_spec option \<Rightarrow> screen_signal list"
where
  "effective signals prior anchor =
     (let d = demoted signals prior anchor in
      map snd (filter (\<lambda>item. fst item \<notin> set d) (enumerate 0 signals)))"

section \<open>The screen law\<close>

text \<open>\<open>_select\<close>: the lowest row on the screen (the greatest index), then the first of the smallest
  names. It is called on a list that is not empty.\<close>

definition select_signal :: "screen_signal list \<Rightarrow> screen_signal" where
  "select_signal signals =
     (let row = Max (set (map sg_row signals)) in
      arg_min_list sg_provider (filter (\<lambda>s. sg_row s = row) signals))"

definition verdict_of :: "terminal_status \<Rightarrow> screen_signal \<Rightarrow> screen_classification" where
  "verdict_of status s =
     \<lparr> cl_status = status, cl_class = sg_class s, cl_provider = Some (sg_provider s),
       cl_row = Some (sg_row s) \<rparr>"

definition of_class :: "signal_class \<Rightarrow> screen_signal list \<Rightarrow> screen_signal list" where
  "of_class c = filter (\<lambda>s. sg_class s = c)"

definition flow_signals :: "screen_signal list \<Rightarrow> screen_signal list" where
  "flow_signals = filter (\<lambda>s. sg_class s \<in> {Sig_Progress, Sig_Completion})"

definition classify_flow :: "screen_signal list \<Rightarrow> screen_classification" where
  "classify_flow flow =
     (let newest_row = Max (set (map sg_row flow));
          newest = filter (\<lambda>s. sg_row s = newest_row) flow;
          progress = of_class Sig_Progress newest;
          selected = select_signal (if progress \<noteq> [] then progress else newest)
      in verdict_of (if sg_class selected = Sig_Progress then TS_PROCESSING else TS_COMPLETED) selected)"

definition classify_effective :: "screen_signal list \<Rightarrow> screen_classification" where
  "classify_effective eff =
     (if of_class Sig_Waiting eff \<noteq> [] then
        verdict_of TS_WAITING_USER_ANSWER (select_signal (of_class Sig_Waiting eff))
      else if of_class Sig_Error eff \<noteq> [] then
        verdict_of TS_ERROR (select_signal (of_class Sig_Error eff))
      else if flow_signals eff \<noteq> [] then classify_flow (flow_signals eff)
      else if of_class Sig_Chrome eff \<noteq> [] then
        verdict_of TS_IDLE (select_signal (of_class Sig_Chrome eff))
      else \<lparr> cl_status = TS_UNKNOWN, cl_class = Sig_None, cl_provider = None, cl_row = None \<rparr>)"

definition classify_screen_signals ::
  "screen_signal list \<Rightarrow> screen_signal list \<Rightarrow> anchor_spec option \<Rightarrow> screen_classification"
where
  "classify_screen_signals signals prior anchor =
     classify_effective (effective signals prior anchor)"

definition screen_classification_result ::
  "screen_signal list \<Rightarrow> screen_signal list \<Rightarrow> anchor_spec option \<Rightarrow> screen_result"
where
  "screen_classification_result signals prior anchor =
     \<lparr> sr_classification = classify_screen_signals signals prior anchor, sr_signals = signals \<rparr>"

section \<open>Demotion, counted\<close>

text \<open>A candidate is demoted exactly when the candidates with the same row text before it are fewer than
  the copies of that text in the previous frame.\<close>

abbreviation item_bytes :: "nat \<times> screen_signal \<Rightarrow> string" where
  "item_bytes i \<equiv> the (sg_bytes (snd i))"

abbreviation item_row :: "nat \<times> screen_signal \<Rightarrow> int" where
  "item_row i \<equiv> sg_row (snd i)"

lemma demote_loop_subset: "set (demote_loop items remaining) \<subseteq> fst ` set items"
  by (induction items remaining rule: demote_loop.induct) auto

lemma demote_loop_mem:
  "distinct (map fst (as @ x # bs)) \<Longrightarrow>
   fst x \<in> set (demote_loop (as @ x # bs) remaining)
     \<longleftrightarrow> length (filter (\<lambda>i. item_bytes i = item_bytes x) as) < count remaining (item_bytes x)"
proof (induction as arbitrary: remaining)
  case Nil
  have "fst x \<notin> set (demote_loop bs r)" for r
    using demote_loop_subset[of bs r] Nil by auto
  then show ?case by (cases x) (auto simp: count_greater_zero_iff)
next
  case (Cons a as)
  obtain p s where a: "a = (p, s)" by fastforce
  have ne: "fst x \<noteq> p" using Cons.prems a by auto
  have IH: "fst x \<in> set (demote_loop (as @ x # bs) r)
    \<longleftrightarrow> length (filter (\<lambda>i. item_bytes i = item_bytes x) as) < count r (item_bytes x)" for r
    using Cons by simp
  show ?case
  proof (cases "the (sg_bytes s) \<in># remaining")
    case True
    then have "0 < count remaining (the (sg_bytes s))" by simp
    with True ne show ?thesis by (auto simp: a IH)
  next
    case False
    then have "count remaining (the (sg_bytes s)) = 0" by (simp add: count_eq_zero_iff)
    with False ne show ?thesis by (auto simp: a IH)
  qed
qed

text \<open>So a row text survives at a row exactly when the frame holds more copies of it down to that row
  than the previous frame held at all.\<close>

lemma survivor_iff:
  assumes dist: "distinct (map fst items)" and sorted: "sorted (map item_row items)"
  shows "(\<exists>x \<in> set items. item_row x = r \<and> item_bytes x = b \<and> fst x \<notin> set (demote_loop items remaining))
    \<longleftrightarrow> (\<exists>x \<in> set items. item_row x = r \<and> item_bytes x = b)
        \<and> count remaining b < length (filter (\<lambda>i. item_bytes i = b \<and> item_row i \<le> r) items)"
    (is "?L \<longleftrightarrow> ?R")
proof
  assume ?L
  then obtain x where x: "x \<in> set items" "item_row x = r" "item_bytes x = b"
    "fst x \<notin> set (demote_loop items remaining)" by blast
  then obtain as bs where split: "items = as @ x # bs" by (meson split_list)
  have "count remaining b \<le> length (filter (\<lambda>i. item_bytes i = b) as)"
    using demote_loop_mem[of as x bs remaining] x dist split by simp
  moreover have "filter (\<lambda>i. item_bytes i = b \<and> item_row i \<le> r) as = filter (\<lambda>i. item_bytes i = b) as"
    using sorted split x(2) by (intro filter_cong) (auto simp: sorted_append)
  ultimately have "count remaining b < length (filter (\<lambda>i. item_bytes i = b \<and> item_row i \<le> r) items)"
    using x(2,3) by (simp add: split)
  with x show ?R by blast
next
  assume R: ?R
  then obtain y where y: "y \<in> set items" "item_row y = r" "item_bytes y = b" by blast
  then have "\<exists>i \<in> set items. item_bytes i = b \<and> item_row i \<le> r" by auto
  then obtain as x bs where split: "items = as @ x # bs"
    and x: "item_bytes x = b" "item_row x \<le> r"
    and last: "\<forall>i \<in> set bs. \<not> (item_bytes i = b \<and> item_row i \<le> r)"
    by (elim split_list_last_propE) auto
  have row: "item_row x = r"
  proof -
    have "y \<in> set as \<or> y = x" using y last split by auto
    then have "r \<le> item_row x" using y sorted split by (fastforce simp: sorted_append)
    with x show ?thesis by simp
  qed
  have "filter (\<lambda>i. item_bytes i = b \<and> item_row i \<le> r) bs = []"
    using last by (auto simp: filter_empty_conv)
  then have "length (filter (\<lambda>i. item_bytes i = b \<and> item_row i \<le> r) items)
      = Suc (length (filter (\<lambda>i. item_bytes i = b \<and> item_row i \<le> r) as))"
    using x by (simp add: split)
  moreover have "length (filter (\<lambda>i. item_bytes i = b \<and> item_row i \<le> r) as)
      \<le> length (filter (\<lambda>i. item_bytes i = b) as)"
    by (induction as) auto
  ultimately have "count remaining b \<le> length (filter (\<lambda>i. item_bytes i = b) as)"
    using R by simp
  then have "fst x \<notin> set (demote_loop items remaining)"
    using demote_loop_mem[of as x bs remaining] x dist split by simp
  then show ?L using split row x by auto
qed

lemma candidate_order_set:
  "set (candidate_order anchor signals)
   = {i \<in> set (enumerate 0 signals). corroborated anchor (snd i)}"
  by (auto simp: candidate_order_def)

lemma candidate_order_distinct: "distinct (map fst (candidate_order anchor signals))"
proof -
  have "mset (map fst (candidate_order anchor signals))
      = mset (map fst (filter (\<lambda>i. corroborated anchor (snd i)) (enumerate 0 signals)))"
    by (simp add: candidate_order_def)
  moreover have "distinct (map fst (filter (\<lambda>i. corroborated anchor (snd i)) (enumerate 0 signals)))"
    by (simp add: distinct_map_filter)
  ultimately show ?thesis using mset_eq_imp_distinct_iff by metis
qed

lemma candidate_order_sorted: "sorted (map item_row (candidate_order anchor signals))"
proof -
  let ?key = "\<lambda>item. (sg_row (snd item), fst item)"
  have "sorted (map ?key (candidate_order anchor signals))"
    by (simp add: candidate_order_def)
  then have "sorted_wrt (\<lambda>x y. ?key x \<le> ?key y) (candidate_order anchor signals)"
    by (simp add: sorted_map)
  then have "sorted_wrt (\<lambda>x y. item_row x \<le> item_row y) (candidate_order anchor signals)"
    by (rule sorted_wrt_mono_rel[rotated]) auto
  then show ?thesis by (simp add: sorted_map)
qed

lemma length_filter_enumerate:
  "length (filter (\<lambda>i. P (snd i)) (enumerate n xs)) = length (filter P xs)"
  by (induction xs arbitrary: n) auto

lemma candidate_order_count:
  "length (filter (\<lambda>i. P (snd i)) (candidate_order anchor signals))
   = length (filter (\<lambda>s. corroborated anchor s \<and> P s) signals)"
proof -
  have "mset (filter (\<lambda>i. P (snd i)) (candidate_order anchor signals))
      = mset (filter (\<lambda>i. corroborated anchor (snd i) \<and> P (snd i)) (enumerate 0 signals))"
    by (simp add: candidate_order_def filter_filter_mset conj_commute mset_filter)
  then have "length (filter (\<lambda>i. P (snd i)) (candidate_order anchor signals))
      = length (filter (\<lambda>i. corroborated anchor (snd i) \<and> P (snd i)) (enumerate 0 signals))"
    by (rule mset_eq_length)
  also have "\<dots> = length (filter (\<lambda>s. corroborated anchor s \<and> P s) signals)"
    by (rule length_filter_enumerate)
  finally show ?thesis .
qed

section \<open>The law as a function of row sets\<close>

text \<open>The reference: a row shows live progress when it carries a progress signal that does not take part
  in the comparison, or one whose text the frame shows more often down to that row than the previous
  frame did. The law then reads four sets of rows.\<close>

definition shown_down_to :: "anchor_spec option \<Rightarrow> screen_signal list \<Rightarrow> string \<Rightarrow> int \<Rightarrow> nat" where
  "shown_down_to anchor signals b r =
     length (filter (\<lambda>s. corroborated anchor s \<and> sg_bytes s = Some b \<and> sg_row s \<le> r) signals)"

definition live_progress ::
  "screen_signal list \<Rightarrow> screen_signal list \<Rightarrow> anchor_spec option \<Rightarrow> screen_signal \<Rightarrow> bool"
where
  "live_progress signals prior anchor s \<longleftrightarrow>
     sg_class s = Sig_Progress \<and>
     (corroborated anchor s \<longrightarrow>
        count (prior_rows anchor prior) (the (sg_bytes s))
          < shown_down_to anchor signals (the (sg_bytes s)) (sg_row s))"

definition rows_where :: "(screen_signal \<Rightarrow> bool) \<Rightarrow> screen_signal list \<Rightarrow> int set" where
  "rows_where P signals = sg_row ` set (filter P signals)"

definition screen_law ::
  "screen_signal list \<Rightarrow> screen_signal list \<Rightarrow> anchor_spec option
     \<Rightarrow> terminal_status \<times> signal_class \<times> int option"
where
  "screen_law signals prior anchor =
     (let rows = (\<lambda>c. rows_where (\<lambda>s. sg_class s = c) signals);
          live = rows_where (live_progress signals prior anchor) signals;
          flow = live \<union> rows Sig_Completion
      in if rows Sig_Waiting \<noteq> {} then (TS_WAITING_USER_ANSWER, Sig_Waiting, Some (Max (rows Sig_Waiting)))
         else if rows Sig_Error \<noteq> {} then (TS_ERROR, Sig_Error, Some (Max (rows Sig_Error)))
         else if flow \<noteq> {} then
           (if Max flow \<in> live then (TS_PROCESSING, Sig_Progress, Some (Max flow))
            else (TS_COMPLETED, Sig_Completion, Some (Max flow)))
         else if rows Sig_Chrome \<noteq> {} then (TS_IDLE, Sig_Chrome, Some (Max (rows Sig_Chrome)))
         else (TS_UNKNOWN, Sig_None, None))"

lemma select_signal_in:
  assumes "signals \<noteq> []"
  shows "select_signal signals \<in> set signals"
    and "sg_row (select_signal signals) = Max (sg_row ` set signals)"
proof -
  let ?row = "Max (set (map sg_row signals))"
  let ?at = "filter (\<lambda>s. sg_row s = ?row) signals"
  have "?row \<in> set (map sg_row signals)" using assms by (intro Max_in) auto
  then have "?at \<noteq> []" by (auto simp: filter_empty_conv)
  then have "select_signal signals \<in> set ?at"
    unfolding select_signal_def Let_def by (rule arg_min_list_in)
  then show "select_signal signals \<in> set signals"
    and "sg_row (select_signal signals) = Max (sg_row ` set signals)" by auto
qed

lemma set_of_class [simp]: "set (of_class c xs) = {s \<in> set xs. sg_class s = c}"
  by (auto simp: of_class_def)

lemma of_class_Nil: "of_class c xs = [] \<longleftrightarrow> rows_where (\<lambda>s. sg_class s = c) xs = {}"
  by (auto simp: of_class_def rows_where_def filter_empty_conv)

lemma select_of_class:
  assumes "of_class c xs \<noteq> []"
  shows "sg_class (select_signal (of_class c xs)) = c"
    and "sg_row (select_signal (of_class c xs)) = Max (rows_where (\<lambda>s. sg_class s = c) xs)"
  using select_signal_in[OF assms] by (auto simp: rows_where_def of_class_def)

text \<open>What survives demotion: every signal that is not a demoted candidate.\<close>

lemma in_enumerate: "s \<in> set xs \<longleftrightarrow> (\<exists>p. (p, s) \<in> set (enumerate n xs))"
  by (induction xs arbitrary: n) auto

lemma enumerate_unique:
  "(p, s) \<in> set (enumerate n xs) \<Longrightarrow> (p, s') \<in> set (enumerate n xs) \<Longrightarrow> s = s'"
  by (auto simp: in_set_enumerate_eq)

lemma in_effective:
  "s \<in> set (effective signals prior anchor) \<longleftrightarrow>
   (\<exists>p. (p, s) \<in> set (enumerate 0 signals) \<and> p \<notin> set (demoted signals prior anchor))"
  by (force simp: effective_def Let_def)

lemma demoted_corroborated:
  assumes "p \<in> set (demoted signals prior anchor)" and "(p, s) \<in> set (enumerate 0 signals)"
  shows "corroborated anchor s"
proof -
  obtain s' where "(p, s') \<in> set (candidate_order anchor signals)"
    using assms(1) demote_loop_subset by (fastforce simp: demoted_def)
  then have "(p, s') \<in> set (enumerate 0 signals)" "corroborated anchor s'"
    by (auto simp: candidate_order_set)
  with assms(2) show ?thesis using enumerate_unique by metis
qed

lemma effective_free:
  "\<not> corroborated anchor s \<Longrightarrow> s \<in> set (effective signals prior anchor) \<longleftrightarrow> s \<in> set signals"
  using demoted_corroborated in_effective in_enumerate by metis

lemma corroboratedD:
  assumes "corroborated anchor s"
  shows "sg_class s = Sig_Progress" and "\<exists>b. sg_bytes s = Some b"
  using assms by (auto simp: corroborated_def split: option.splits)

lemma effective_rows_other:
  assumes "c \<noteq> Sig_Progress"
  shows "rows_where (\<lambda>s. sg_class s = c) (effective signals prior anchor)
    = rows_where (\<lambda>s. sg_class s = c) signals"
proof -
  have "s \<in> set (effective signals prior anchor) \<longleftrightarrow> s \<in> set signals" if "sg_class s = c" for s
    using that assms corroboratedD(1) by (intro effective_free) auto
  then show ?thesis by (auto simp: rows_where_def)
qed

lemma shown_down_to_order:
  "length (filter (\<lambda>i. item_bytes i = b \<and> item_row i \<le> r) (candidate_order anchor signals))
   = shown_down_to anchor signals b r"
proof -
  have "filter (\<lambda>s. corroborated anchor s \<and> the (sg_bytes s) = b \<and> sg_row s \<le> r) signals
      = filter (\<lambda>s. corroborated anchor s \<and> sg_bytes s = Some b \<and> sg_row s \<le> r) signals"
    using corroboratedD(2) by (intro filter_cong) fastforce+
  then show ?thesis
    using candidate_order_count[of "\<lambda>s. the (sg_bytes s) = b \<and> sg_row s \<le> r" anchor signals]
    by (simp add: shown_down_to_def)
qed

lemma candidate_survives:
  "(\<exists>s. corroborated anchor s \<and> sg_row s = r \<and> sg_bytes s = Some b
        \<and> s \<in> set (effective signals prior anchor))
   \<longleftrightarrow> (\<exists>s \<in> set signals. corroborated anchor s \<and> sg_row s = r \<and> sg_bytes s = Some b)
       \<and> count (prior_rows anchor prior) b < shown_down_to anchor signals b r"
    (is "?L \<longleftrightarrow> ?R")
proof -
  let ?items = "candidate_order anchor signals"
  have bytes: "sg_bytes s = Some b \<longleftrightarrow> the (sg_bytes s) = b" if "corroborated anchor s" for s
    using corroboratedD(2)[OF that] by auto
  have "?L \<longleftrightarrow> (\<exists>p s. (p, s) \<in> set (enumerate 0 signals) \<and> corroborated anchor s \<and> sg_row s = r
      \<and> the (sg_bytes s) = b \<and> p \<notin> set (demoted signals prior anchor))"
    using bytes in_effective by metis
  also have "\<dots> \<longleftrightarrow> (\<exists>x \<in> set ?items. item_row x = r \<and> item_bytes x = b
      \<and> fst x \<notin> set (demote_loop ?items (prior_rows anchor prior)))"
    by (auto simp: candidate_order_set demoted_def)
  also have "\<dots> \<longleftrightarrow> (\<exists>x \<in> set ?items. item_row x = r \<and> item_bytes x = b)
      \<and> count (prior_rows anchor prior) b < shown_down_to anchor signals b r"
    unfolding shown_down_to_order[symmetric]
    by (rule survivor_iff[OF candidate_order_distinct candidate_order_sorted])
  also have "(\<exists>x \<in> set ?items. item_row x = r \<and> item_bytes x = b)
      \<longleftrightarrow> (\<exists>p s. (p, s) \<in> set (enumerate 0 signals) \<and> corroborated anchor s \<and> sg_row s = r \<and> the (sg_bytes s) = b)"
    by (auto simp: candidate_order_set)
  also have "\<dots> \<longleftrightarrow> (\<exists>s \<in> set signals. corroborated anchor s \<and> sg_row s = r \<and> sg_bytes s = Some b)"
    using in_enumerate[of _ signals 0] bytes by metis
  finally show ?thesis .
qed

lemma effective_rows_progress:
  "rows_where (\<lambda>s. sg_class s = Sig_Progress) (effective signals prior anchor)
   = rows_where (live_progress signals prior anchor) signals"
proof (intro set_eqI iffI)
  fix r
  assume "r \<in> rows_where (\<lambda>s. sg_class s = Sig_Progress) (effective signals prior anchor)"
  then obtain s where s: "s \<in> set (effective signals prior anchor)" "sg_class s = Sig_Progress" "sg_row s = r"
    by (auto simp: rows_where_def)
  show "r \<in> rows_where (live_progress signals prior anchor) signals"
  proof (cases "corroborated anchor s")
    case True
    then obtain b where "sg_bytes s = Some b" using corroboratedD(2) by blast
    with True s obtain s' where "s' \<in> set signals" "corroborated anchor s'" "sg_row s' = r" "sg_bytes s' = Some b"
      "count (prior_rows anchor prior) b < shown_down_to anchor signals b r"
      using candidate_survives[of anchor r b signals prior] by blast
    then show ?thesis using corroboratedD(1) by (force simp: rows_where_def live_progress_def)
  next
    case False
    then show ?thesis using s effective_free by (force simp: rows_where_def live_progress_def)
  qed
next
  fix r
  assume "r \<in> rows_where (live_progress signals prior anchor) signals"
  then obtain s where s: "s \<in> set signals" "live_progress signals prior anchor s" "sg_row s = r"
    by (auto simp: rows_where_def)
  show "r \<in> rows_where (\<lambda>s. sg_class s = Sig_Progress) (effective signals prior anchor)"
  proof (cases "corroborated anchor s")
    case True
    then obtain b where "sg_bytes s = Some b" using corroboratedD(2) by blast
    with True s obtain s' where "s' \<in> set (effective signals prior anchor)" "corroborated anchor s'" "sg_row s' = r"
      using candidate_survives[of anchor r b signals prior] by (auto simp: live_progress_def)
    then show ?thesis using corroboratedD(1) by (force simp: rows_where_def)
  next
    case False
    then show ?thesis using s effective_free by (force simp: rows_where_def live_progress_def)
  qed
qed

lemma flow_rows:
  "sg_row ` set (flow_signals xs)
   = rows_where (\<lambda>s. sg_class s = Sig_Progress) xs \<union> rows_where (\<lambda>s. sg_class s = Sig_Completion) xs"
  by (auto simp: flow_signals_def rows_where_def)

lemma classify_flow_law:
  fixes c :: screen_classification
  assumes ne: "flow_signals xs \<noteq> []" and c: "c = classify_flow (flow_signals xs)"
  defines "live \<equiv> rows_where (\<lambda>s. sg_class s = Sig_Progress) xs"
    and "flow \<equiv> sg_row ` set (flow_signals xs)"
  shows "(cl_status c, cl_class c, cl_row c)
      = (if Max flow \<in> live then (TS_PROCESSING, Sig_Progress, Some (Max flow))
         else (TS_COMPLETED, Sig_Completion, Some (Max flow)))"
proof -
  let ?newest = "filter (\<lambda>s. sg_row s = Max flow) (flow_signals xs)"
  let ?progress = "of_class Sig_Progress ?newest"
  let ?sel = "select_signal (if ?progress \<noteq> [] then ?progress else ?newest)"
  have "Max flow \<in> flow" using ne by (auto simp: flow_def)
  then have new: "?newest \<noteq> []" by (auto simp: flow_def filter_empty_conv)
  have prog: "?progress \<noteq> [] \<longleftrightarrow> Max flow \<in> live"
    by (force simp: live_def rows_where_def of_class_def flow_signals_def filter_empty_conv image_iff)
  have in_new: "?sel \<in> set ?newest"
    using select_signal_in(1)[OF new] select_signal_in(1)[of ?progress] by auto
  have cls: "sg_class ?sel = (if ?progress \<noteq> [] then Sig_Progress else Sig_Completion)"
  proof (cases "?progress \<noteq> []")
    case True
    then show ?thesis using select_of_class(1)[OF True] by simp
  next
    case False
    then have "sg_class ?sel \<noteq> Sig_Progress"
      using in_new by (auto simp: of_class_def filter_empty_conv)
    then show ?thesis using False in_new by (auto simp: flow_signals_def)
  qed
  have "c = verdict_of (if sg_class ?sel = Sig_Progress then TS_PROCESSING else TS_COMPLETED) ?sel"
    by (simp add: c classify_flow_def flow_def Let_def)
  then show ?thesis using cls prog in_new by (simp add: verdict_of_def)
qed

lemma classify_effective_law:
  fixes c :: screen_classification
  assumes c: "c = classify_effective eff"
  defines "rows \<equiv> \<lambda>k. rows_where (\<lambda>s. sg_class s = k) eff"
  shows "(cl_status c, cl_class c, cl_row c)
    = (let flow = rows Sig_Progress \<union> rows Sig_Completion
       in if rows Sig_Waiting \<noteq> {} then (TS_WAITING_USER_ANSWER, Sig_Waiting, Some (Max (rows Sig_Waiting)))
          else if rows Sig_Error \<noteq> {} then (TS_ERROR, Sig_Error, Some (Max (rows Sig_Error)))
          else if flow \<noteq> {} then
            (if Max flow \<in> rows Sig_Progress then (TS_PROCESSING, Sig_Progress, Some (Max flow))
             else (TS_COMPLETED, Sig_Completion, Some (Max flow)))
          else if rows Sig_Chrome \<noteq> {} then (TS_IDLE, Sig_Chrome, Some (Max (rows Sig_Chrome)))
          else (TS_UNKNOWN, Sig_None, None))"
proof -
  have nil: "of_class k eff \<noteq> [] \<longleftrightarrow> rows k \<noteq> {}" for k
    by (simp add: of_class_Nil rows_def)
  have sel: "(cl_status (verdict_of st (select_signal (of_class k eff))),
      cl_class (verdict_of st (select_signal (of_class k eff))),
      cl_row (verdict_of st (select_signal (of_class k eff)))) = (st, k, Some (Max (rows k)))"
    if "rows k \<noteq> {}" for k st
    using that nil select_of_class[of k eff] by (simp add: verdict_of_def rows_def)
  have flow: "flow_signals eff \<noteq> [] \<longleftrightarrow> rows Sig_Progress \<union> rows Sig_Completion \<noteq> {}"
    using flow_rows[of eff] by (auto simp: rows_def)
  show ?thesis
    using sel[of Sig_Waiting TS_WAITING_USER_ANSWER] sel[of Sig_Error TS_ERROR] sel[of Sig_Chrome TS_IDLE]
      classify_flow_law[of eff c] flow flow_rows[of eff]
    by (auto simp: c classify_effective_def nil Let_def rows_def)
qed

lemma screen_law_eq:
  "(cl_status (classify_screen_signals signals prior anchor),
    cl_class (classify_screen_signals signals prior anchor),
    cl_row (classify_screen_signals signals prior anchor)) = screen_law signals prior anchor"
  unfolding classify_screen_signals_def classify_effective_law[OF refl]
  by (simp add: screen_law_def effective_rows_other effective_rows_progress Let_def)

lemma screen_law_fst:
  "fst (screen_law signals prior anchor) = cl_status (classify_screen_signals signals prior anchor)"
  by (simp flip: screen_law_eq)

text \<open>(C34) The law equals its reference. For every frame, every previous frame and every anchor, the
  status, the deciding class and the deciding row are those the reference reads from the sets of rows:
  waiting before error before the newest of live progress and completion before chrome, progress winning
  a tie on its row.\<close>

theorem screen_law_exact:
  "(cl_status (classify_screen_signals signals prior anchor),
    cl_class (classify_screen_signals signals prior anchor),
    cl_row (classify_screen_signals signals prior anchor)) = screen_law signals prior anchor"
  by (rule screen_law_eq)

text \<open>So the order in which a provider emits its signals does not matter.\<close>

lemma rows_where_perm: "mset xs = mset ys \<Longrightarrow> rows_where P xs = rows_where P ys"
  by (metis mset_filter rows_where_def set_mset_mset)

lemma live_progress_perm:
  assumes "mset xs = mset ys" and "mset ps = mset qs"
  shows "live_progress xs ps anchor = live_progress ys qs anchor"
proof -
  have "shown_down_to anchor xs b r = shown_down_to anchor ys b r" for b r
    using assms(1) by (metis mset_filter mset_eq_length shown_down_to_def)
  moreover have "prior_rows anchor ps = prior_rows anchor qs"
    using assms(2) by (simp add: prior_rows_def mset_filter)
  ultimately show ?thesis by (simp add: live_progress_def fun_eq_iff)
qed

lemma screen_law_perm:
  assumes "mset xs = mset ys" and "mset ps = mset qs"
  shows "screen_law xs ps anchor = screen_law ys qs anchor"
  using rows_where_perm[OF assms(1)] live_progress_perm[OF assms]
  by (simp add: screen_law_def)

lemma count_prior_rows:
  "count (prior_rows anchor signals) b
   = length (filter (\<lambda>s. corroborated anchor s \<and> sg_bytes s = Some b) signals)"
proof -
  have "count (mset (map (the \<circ> sg_bytes) xs)) b = length (filter (\<lambda>s. the (sg_bytes s) = b) xs)"
    for xs :: "screen_signal list"
    by (induction xs) auto
  then have "count (prior_rows anchor signals) b
      = length (filter (\<lambda>s. the (sg_bytes s) = b \<and> corroborated anchor s) signals)"
    unfolding prior_rows_def by (simp only: filter_filter) (meson conj_commute)
  also have "filter (\<lambda>s. the (sg_bytes s) = b \<and> corroborated anchor s) signals
      = filter (\<lambda>s. corroborated anchor s \<and> sg_bytes s = Some b) signals"
    using corroboratedD(2) by (intro filter_cong) fastforce+
  finally show ?thesis .
qed

lemma shown_le_count: "shown_down_to anchor signals b r \<le> count (prior_rows anchor signals) b"
  unfolding shown_down_to_def count_prior_rows by (induction signals) auto

definition ex_spinner :: "screen_signal list" where
  "ex_spinner = [\<lparr> sg_class = Sig_Progress, sg_provider = ''spinner'', sg_row = 20,
     sg_bytes = Some ''working (12s)'', sg_policy = Corroborable \<rparr>,
    \<lparr> sg_class = Sig_Chrome, sg_provider = ''prompt'', sg_row = 23, sg_bytes = None,
     sg_policy = No_Policy \<rparr>]"

text \<open>A frozen frame is not progress. When every progress signal of a frame takes part in the
  comparison and the previous frame shows each of the compared rows at least as often, no progress
  survives, wherever the rows moved to: the law never answers that the receiver is processing.\<close>

theorem frozen_frame_not_processing:
  assumes "\<forall>s \<in> set signals. sg_class s = Sig_Progress \<longrightarrow> corroborated anchor s"
    and "prior_rows anchor signals \<subseteq># prior_rows anchor prior"
  shows "cl_status (classify_screen_signals signals prior anchor) \<noteq> TS_PROCESSING"
proof -
  have "\<not> live_progress signals prior anchor s" if "s \<in> set signals" for s
    using that assms(1) mset_subset_eq_count[OF assms(2)] shown_le_count le_trans
    unfolding live_progress_def by (meson not_le)
  then have "rows_where (live_progress signals prior anchor) signals = {}"
    by (auto simp: rows_where_def)
  then have "fst (screen_law signals prior anchor) \<noteq> TS_PROCESSING"
    by (simp add: screen_law_def Let_def)
  then show ?thesis by (simp flip: screen_law_fst)
qed

theorem frozen_frame_not_processing_witness:
  "cl_status (classify_screen_signals ex_spinner ex_spinner None) \<noteq> TS_PROCESSING
   \<and> cl_status (classify_screen_signals ex_spinner [] None) = TS_PROCESSING"
  using frozen_frame_not_processing[of ex_spinner None ex_spinner]
  by (simp add: ex_spinner_def corroborated_def) code_simp

end
