(* ===== verification/Receiver_Store.thy ===== *)
theory Receiver_Store
  imports Receiver_Screen "HOL-Library.AList"
begin

text \<open>
  The process-local store of receiver observations (\<open>kernel/receiver_state/store.py\<close>): two slots per
  terminal incarnation, one for the incremental monitor and one for fresh probes, the tokens that
  authorise a fresh read, and the read projection consumers see.

  The literal types of the source are not enforced when the program runs, so they are strings here and
  the checks of the source are real branches. A monotonic instant is an integer number of nanoseconds;
  the least step between two tokens, \<open>1e-6\<close> seconds, is 1000 of them. A call made under the lock is one
  step. The dictionary of entries is an association list without repeated keys.
\<close>

type_synonym mono = int

section \<open>Observations\<close>

record probe_evidence =
  pe_probed_at :: string
  pe_columns :: int
  pe_rows :: int
  pe_frame_rows_hash :: string
  pe_frame_source :: string
  pe_result_status :: string
  pe_law_signal :: "string \<times> string option \<times> int option"
  pe_identity_proof_failure :: "string option"
  pe_temporal_demotion :: "(int \<times> string) option"
  pe_transient_api_error :: "bool option"
  pe_idle_reason :: "string option"
  pe_injection_hazard :: "string option"
  pe_probe_failure :: "string option"

record projection_evidence =
  pv_event_id :: string
  pv_worker_state :: string
  pv_since :: string

record native_evidence =
  ne_agent_status :: string
  ne_resolved_status :: terminal_status
  ne_native_event_gen :: int
  ne_received_at :: mono

record freshness_proof =
  fp_kind :: string
  fp_detail :: "string option"

definition FRESHNESS_KINDS :: "string list" where
  "FRESHNESS_KINDS = [''not_probed'', ''identity_ok'', ''identity_failed'', ''probe_failed'']"

definition PASS_OUTCOMES :: "string list" where
  "PASS_OUTCOMES = [''accepted'', ''no_change'', ''stale_seq'', ''unknown_suppressed'', ''sticky_rejected'',
     ''forced'', ''probe'', ''aborted'', ''native'']"

definition INELIGIBLE_OUTCOMES :: "string list" where
  "INELIGIBLE_OUTCOMES = [''stale_seq'', ''aborted'']"

definition mk_freshness_proof :: "string \<Rightarrow> string option \<Rightarrow> freshness_proof result" where
  "mk_freshness_proof kind detail =
     (if kind \<notin> set FRESHNESS_KINDS then Inl ValueError
      else Inr \<lparr> fp_kind = kind, fp_detail = detail \<rparr>)"

definition identity_ok :: "freshness_proof \<Rightarrow> bool" where
  "identity_ok p \<longleftrightarrow> fp_kind p = ''identity_ok''"

record receiver_state =
  rv_terminal_id :: string
  rv_lifecycle_generation :: int
  rv_window_identity :: string
  rv_observation_epoch :: string
  rv_observation_sequence :: int
  rv_provider :: string
  rv_frame_source :: string
  rv_captured_at :: mono
  rv_frame_hash :: "string option"
  rv_latched_status :: terminal_status
  rv_pass_outcome :: string
  rv_freshness_proof :: freshness_proof
  rv_origin :: string
  rv_raw_classification :: "screen_result option"
  rv_probe_evidence :: "probe_evidence option"
  rv_native_evidence :: "native_evidence option"
  rv_projection_evidence :: "projection_evidence option"
  rv_freshness_eligible :: bool

type_synonym receiver_key = "string \<times> int \<times> string"

definition rv_key :: "receiver_state \<Rightarrow> receiver_key" where
  "rv_key v = (rv_terminal_id v, rv_lifecycle_generation v, rv_window_identity v)"

text \<open>\<open>__post_init__\<close>: the checks of the constructor in their order. The eligibility flag is computed,
  whatever the fields said.\<close>

definition native_origin :: "receiver_state \<Rightarrow> bool" where
  "native_origin v \<longleftrightarrow> rv_origin v \<in> {''native'', ''native_poll''}"

definition post_init :: "receiver_state \<Rightarrow> receiver_state result" where
  "post_init raw =
     (if rv_pass_outcome raw \<notin> set PASS_OUTCOMES then Inl ValueError
      else
        let v = raw \<lparr> rv_freshness_eligible := rv_pass_outcome raw \<notin> set INELIGIBLE_OUTCOMES \<rparr>
        in if rv_frame_source v = ''fresh_capture'' \<and> rv_pass_outcome v \<noteq> ''probe'' then Inl ValueError
        else if rv_frame_source v = ''native'' \<and> rv_pass_outcome v \<noteq> ''native'' then Inl ValueError
        else if rv_frame_source v = ''incremental'' \<and> rv_pass_outcome v \<in> {''probe'', ''native''}
          then Inl ValueError
        else if rv_frame_source v \<noteq> ''native'' \<and> rv_pass_outcome v = ''native'' then Inl ValueError
        else if native_origin v \<noteq> (rv_native_evidence v \<noteq> None) then Inl ValueError
        else if native_origin v \<and> (rv_raw_classification v \<noteq> None \<or> rv_probe_evidence v \<noteq> None)
          then Inl ValueError
        else if native_origin v \<and> rv_frame_hash v \<noteq> None then Inl ValueError
        else if \<not> native_origin v \<and> rv_native_evidence v \<noteq> None then Inl ValueError
        else if rv_origin v = ''forced'' \<and> rv_raw_classification v \<noteq> None then Inl ValueError
        else if rv_frame_source v = ''incremental'' \<and> rv_probe_evidence v \<noteq> None then Inl ValueError
        else Inr v)"

definition constructed :: "receiver_state \<Rightarrow> bool" where
  "constructed v \<longleftrightarrow> post_init v = Inr v"

section \<open>Slots\<close>

type_synonym fresh_token = "string \<times> mono"

record slot =
  sl_latest :: "receiver_state option"
  sl_eligible_at :: "mono option"
  sl_token :: "fresh_token option"

definition empty_slot :: slot where
  "empty_slot = \<lparr> sl_latest = None, sl_eligible_at = None, sl_token = None \<rparr>"

definition slot_publish :: "receiver_state \<Rightarrow> fresh_token option \<Rightarrow> slot \<Rightarrow> slot" where
  "slot_publish v token s =
     \<lparr> sl_latest = Some v,
       sl_eligible_at = (if rv_freshness_eligible v then Some (rv_captured_at v) else sl_eligible_at s),
       sl_token = token \<rparr>"

record slots =
  sl_incremental :: slot
  sl_fresh :: slot

definition empty_slots :: slots where
  "empty_slots = \<lparr> sl_incremental = empty_slot, sl_fresh = empty_slot \<rparr>"

datatype receiver_slot = Slot_Incremental | Slot_Fresh

definition pass_outcome_for_source :: "string \<Rightarrow> string \<Rightarrow> string" where
  "pass_outcome_for_source source settled =
     (if settled = ''aborted'' then ''aborted''
      else if source = ''forced'' then ''forced''
      else settled)"

definition apply_recovery_overlay :: "terminal_status \<Rightarrow> string option \<Rightarrow> terminal_status" where
  "apply_recovery_overlay status recovery =
     (if recovery \<notin> {None, Some ''rebound''} then TS_ERROR else status)"

section \<open>The store\<close>

record receiver_store =
  rs_entries :: "(receiver_key \<times> slots) list"
  rs_last_stamp :: "string \<Rightarrow> mono option"

definition new_receiver_store :: receiver_store where
  "new_receiver_store = \<lparr> rs_entries = [], rs_last_stamp = (\<lambda>_. None) \<rparr>"

definition entry :: "receiver_store \<Rightarrow> receiver_key \<Rightarrow> slots option" where
  "entry st k = map_of (rs_entries st) k"

text \<open>\<open>setdefault\<close> followed by writes to the object it returns.\<close>

definition with_entry :: "receiver_key \<Rightarrow> (slots \<Rightarrow> slots) \<Rightarrow> receiver_store \<Rightarrow> receiver_store" where
  "with_entry k f st =
     st \<lparr> rs_entries := AList.update k (f (case entry st k of Some s \<Rightarrow> s | None \<Rightarrow> empty_slots))
                          (rs_entries st) \<rparr>"

definition mint_token :: "mono \<Rightarrow> string \<Rightarrow> string \<Rightarrow> receiver_store \<Rightarrow> fresh_token \<times> receiver_store" where
  "mint_token now terminal_id epoch st =
     (let stamp = (case rs_last_stamp st terminal_id of
                     None \<Rightarrow> now
                   | Some previous \<Rightarrow> max now (previous + 1000))
      in ((epoch, stamp), st \<lparr> rs_last_stamp := (rs_last_stamp st)(terminal_id \<mapsto> stamp) \<rparr>))"

definition destination :: "receiver_state \<Rightarrow> receiver_slot option \<Rightarrow> receiver_slot" where
  "destination v slot =
     (case slot of
        Some s \<Rightarrow> s
      | None \<Rightarrow> if rv_frame_source v = ''incremental'' then Slot_Incremental else Slot_Fresh)"

definition publish_observation ::
  "receiver_state \<Rightarrow> fresh_token option \<Rightarrow> receiver_slot option \<Rightarrow> receiver_store
     \<Rightarrow> unit result \<times> receiver_store"
where
  "publish_observation v token slot st =
     (case destination v slot of
        Slot_Incremental \<Rightarrow>
          if token \<noteq> None then (Inl ValueError, with_entry (rv_key v) id st)
          else (Inr (), with_entry (rv_key v)
                          (\<lambda>s. s \<lparr> sl_incremental := slot_publish v None (sl_incremental s) \<rparr>) st)
      | Slot_Fresh \<Rightarrow>
          (Inr (), with_entry (rv_key v)
                     (\<lambda>s. s \<lparr> sl_fresh := slot_publish v token (sl_fresh s) \<rparr>) st))"

definition coherent_pair :: "receiver_state \<Rightarrow> receiver_state \<Rightarrow> bool" where
  "coherent_pair f i \<longleftrightarrow>
     rv_key f = rv_key i \<and> rv_observation_epoch f = rv_observation_epoch i
     \<and> rv_observation_sequence f = rv_observation_sequence i \<and> rv_provider f = rv_provider i
     \<and> rv_captured_at f = rv_captured_at i \<and> rv_latched_status f = rv_latched_status i
     \<and> rv_origin f = rv_origin i \<and> rv_native_evidence f = rv_native_evidence i
     \<and> rv_freshness_proof f = rv_freshness_proof i"

definition publish_native_pair ::
  "receiver_state \<Rightarrow> receiver_state \<Rightarrow> fresh_token \<Rightarrow> receiver_store \<Rightarrow> unit result \<times> receiver_store"
where
  "publish_native_pair f i token st =
     (if rv_frame_source f \<noteq> ''native'' \<or> rv_frame_source i \<noteq> ''native'' then (Inl ValueError, st)
      else if rv_origin f \<noteq> ''native_poll'' \<or> rv_origin i \<noteq> ''native_poll'' then (Inl ValueError, st)
      else if \<not> coherent_pair f i then (Inl ValueError, st)
      else if fst token \<noteq> rv_observation_epoch f then (Inl ValueError, st)
      else (Inr (), with_entry (rv_key f)
                      (\<lambda>s. s \<lparr> sl_fresh := slot_publish f (Some token) (sl_fresh s),
                              sl_incremental := slot_publish i None (sl_incremental s) \<rparr>) st))"

definition prior_classification ::
  "receiver_key \<Rightarrow> bool \<Rightarrow> receiver_store \<Rightarrow> screen_result option"
where
  "prior_classification k prefer_fresh st =
     (case entry st k of
        None \<Rightarrow> None
      | Some s \<Rightarrow>
          let ordered = (if prefer_fresh then [sl_fresh s, sl_incremental s]
                         else [sl_incremental s, sl_fresh s]);
              held = List.map_filter (\<lambda>sl. Option.bind (sl_latest sl) rv_raw_classification) ordered
          in (case held of [] \<Rightarrow> None | c # _ \<Rightarrow> Some c))"

section \<open>The read projection\<close>

record observation_view =
  ov_terminal_id :: string
  ov_lifecycle_generation :: int
  ov_window_identity :: string
  ov_observation_epoch :: string
  ov_observation_sequence :: int
  ov_provider :: string
  ov_frame_source :: string
  ov_captured_at :: mono
  ov_frame_hash :: "string option"
  ov_latched_status :: terminal_status
  ov_pass_outcome :: string
  ov_freshness_proof :: freshness_proof
  ov_freshness_eligible :: bool
  ov_origin :: string
  ov_raw_classification :: "screen_result option"
  ov_probe_evidence :: "probe_evidence option"
  ov_native_evidence :: "native_evidence option"

definition ov_key :: "observation_view \<Rightarrow> receiver_key" where
  "ov_key v = (ov_terminal_id v, ov_lifecycle_generation v, ov_window_identity v)"

definition view_of :: "receiver_state \<Rightarrow> string option \<Rightarrow> observation_view" where
  "view_of v recovery =
     \<lparr> ov_terminal_id = rv_terminal_id v, ov_lifecycle_generation = rv_lifecycle_generation v,
       ov_window_identity = rv_window_identity v, ov_observation_epoch = rv_observation_epoch v,
       ov_observation_sequence = rv_observation_sequence v, ov_provider = rv_provider v,
       ov_frame_source = rv_frame_source v, ov_captured_at = rv_captured_at v,
       ov_frame_hash = rv_frame_hash v,
       ov_latched_status = apply_recovery_overlay (rv_latched_status v) recovery,
       ov_pass_outcome = rv_pass_outcome v, ov_freshness_proof = rv_freshness_proof v,
       ov_freshness_eligible = rv_freshness_eligible v, ov_origin = rv_origin v,
       ov_raw_classification = rv_raw_classification v, ov_probe_evidence = rv_probe_evidence v,
       ov_native_evidence = rv_native_evidence v \<rparr>"

text \<open>\<open>snapshot_view\<close>; the instant \<open>now\<close> is the argument of the caller or the clock's reading.\<close>

definition snapshot_view ::
  "receiver_key \<Rightarrow> bool \<Rightarrow> int \<Rightarrow> string option \<Rightarrow> mono \<Rightarrow> fresh_token option \<Rightarrow> receiver_store
     \<Rightarrow> observation_view option result"
where
  "snapshot_view k require_fresh max_age recovery now token st =
     (if max_age < 0 then Inl ValueError
      else case entry st k of
        None \<Rightarrow> Inr None
      | Some s \<Rightarrow>
          let sl = (if require_fresh then sl_fresh s else sl_incremental s) in
          (case (sl_latest sl, sl_eligible_at sl) of
             (Some v, Some eligible_at) \<Rightarrow>
               if require_fresh \<and> (token = None \<or> token \<noteq> sl_token sl) then Inr None
               else if require_fresh \<and> \<not> identity_ok (rv_freshness_proof v) then Inr None
               else if now - eligible_at > max_age then Inr None
               else Inr (Some (view_of v recovery))
           | _ \<Rightarrow> Inr None))"

definition invalidate :: "receiver_key \<Rightarrow> receiver_store \<Rightarrow> bool \<times> receiver_store" where
  "invalidate k st =
     (entry st k \<noteq> None, st \<lparr> rs_entries := AList.delete k (rs_entries st) \<rparr>)"

definition invalidate_terminal :: "string \<Rightarrow> receiver_store \<Rightarrow> nat \<times> receiver_store" where
  "invalidate_terminal terminal_id st =
     (let keys = filter (\<lambda>k. fst k = terminal_id) (map fst (rs_entries st))
      in (length keys, st \<lparr> rs_entries := fold AList.delete keys (rs_entries st) \<rparr>))"

end
