(* ===== verification/Receiver_Promises.thy ===== *)
theory Receiver_Promises
  imports Receiver_Store
begin

text \<open>
  The receiver store as a transition system: its steps, its invariant, and what a consumer may rely on.
  The steps are the calls the status monitor makes: it publishes observations its constructor accepted,
  and a fresh publication carries a token minted for that terminal before.
\<close>

section \<open>Reading an entry back\<close>

lemma entry_with_entry [simp]:
  "entry (with_entry k f st) k' =
     (if k' = k then Some (f (case entry st k of Some s \<Rightarrow> s | None \<Rightarrow> empty_slots)) else entry st k')"
  by (simp add: entry_def with_entry_def update_conv')

lemma entry_stamp [simp]: "entry (st \<lparr> rs_last_stamp := m \<rparr>) = entry st"
  by (simp add: entry_def fun_eq_iff)

lemma stamp_with_entry [simp]: "rs_last_stamp (with_entry k f st) = rs_last_stamp st"
  by (simp add: with_entry_def)

lemma entry_invalidate [simp]:
  "entry (snd (invalidate k st)) k' = (if k' = k then None else entry st k')"
  by (simp add: invalidate_def entry_def delete_conv')

lemma map_of_fold_delete:
  "map_of (fold AList.delete ks al) k = (if k \<in> set ks then None else map_of al k)"
  by (induction ks arbitrary: al) (auto simp: delete_conv')

lemma entry_None_iff: "entry st k = None \<longleftrightarrow> k \<notin> fst ` set (rs_entries st)"
  by (simp add: entry_def map_of_eq_None_iff)

lemma entry_invalidate_terminal [simp]:
  "entry (snd (invalidate_terminal t st)) k' = (if fst k' = t then None else entry st k')"
  using entry_None_iff[of st k']
  by (auto simp: invalidate_terminal_def Let_def entry_def map_of_fold_delete)

lemma distinct_fold_delete:
  "distinct (map fst al) \<Longrightarrow> distinct (map fst (fold AList.delete ks al))"
  by (induction ks arbitrary: al) (auto simp: distinct_delete)

section \<open>Steps\<close>

definition minted :: "receiver_store \<Rightarrow> string \<Rightarrow> fresh_token \<Rightarrow> bool" where
  "minted st terminal t \<longleftrightarrow> (case rs_last_stamp st terminal of None \<Rightarrow> False | Some l \<Rightarrow> snd t \<le> l)"

datatype receiver_op =
    Op_Mint mono string string
  | Op_Publish receiver_state "fresh_token option" "receiver_slot option"
  | Op_Native receiver_state receiver_state fresh_token
  | Op_Invalidate receiver_key
  | Op_Invalidate_Terminal string

fun run_op :: "receiver_op \<Rightarrow> receiver_store \<Rightarrow> receiver_store" where
  "run_op (Op_Mint now t e) st = snd (mint_token now t e st)"
| "run_op (Op_Publish v token slot) st = snd (publish_observation v token slot st)"
| "run_op (Op_Native f i token) st = snd (publish_native_pair f i token st)"
| "run_op (Op_Invalidate k) st = snd (invalidate k st)"
| "run_op (Op_Invalidate_Terminal t) st = snd (invalidate_terminal t st)"

fun op_ok :: "receiver_store \<Rightarrow> receiver_op \<Rightarrow> bool" where
  "op_ok st (Op_Publish v token slot) \<longleftrightarrow>
     constructed v \<and> (case token of None \<Rightarrow> True | Some t \<Rightarrow> minted st (rv_terminal_id v) t)"
| "op_ok st (Op_Native f i token) \<longleftrightarrow>
     constructed f \<and> constructed i \<and> minted st (rv_terminal_id f) token"
| "op_ok st _ \<longleftrightarrow> True"

definition receiver_step :: "receiver_store \<Rightarrow> receiver_store \<Rightarrow> bool" where
  "receiver_step st st' \<longleftrightarrow> (\<exists>x. op_ok st x \<and> st' = run_op x st)"

section \<open>The invariant\<close>

definition slot_ok :: "receiver_key \<Rightarrow> slot \<Rightarrow> bool" where
  "slot_ok k sl \<longleftrightarrow>
     (case sl_latest sl of
        None \<Rightarrow> sl_eligible_at sl = None \<and> sl_token sl = None
      | Some v \<Rightarrow> rv_key v = k \<and> constructed v
                  \<and> (rv_freshness_eligible v \<longrightarrow> sl_eligible_at sl = Some (rv_captured_at v)))"

definition slots_ok :: "receiver_store \<Rightarrow> receiver_key \<Rightarrow> slots \<Rightarrow> bool" where
  "slots_ok st k s \<longleftrightarrow>
     slot_ok k (sl_incremental s) \<and> slot_ok k (sl_fresh s) \<and> sl_token (sl_incremental s) = None
     \<and> (case sl_token (sl_fresh s) of None \<Rightarrow> True | Some t \<Rightarrow> minted st (fst k) t)"

definition receiver_ok :: "receiver_store \<Rightarrow> bool" where
  "receiver_ok st \<longleftrightarrow>
     distinct (map fst (rs_entries st)) \<and> (\<forall>k s. entry st k = Some s \<longrightarrow> slots_ok st k s)"

lemma fst_rv_key [simp]: "fst (rv_key v) = rv_terminal_id v"
  by (simp add: rv_key_def)

lemma slot_ok_empty [simp]: "slot_ok k empty_slot"
  by (simp add: slot_ok_def empty_slot_def)

lemma slots_ok_empty [simp]: "slots_ok st k empty_slots"
  by (simp add: slots_ok_def empty_slots_def) (simp add: empty_slot_def)

lemma slot_ok_publish:
  "constructed v \<Longrightarrow> rv_key v = k \<Longrightarrow> slot_ok k (slot_publish v t sl)"
  by (simp add: slot_ok_def slot_publish_def)

lemma token_publish [simp]: "sl_token (slot_publish v t sl) = t"
  by (simp add: slot_publish_def)

lemma minted_grows:
  "(\<And>l. rs_last_stamp st x = Some l \<Longrightarrow> \<exists>l'. rs_last_stamp st' x = Some l' \<and> l \<le> l') \<Longrightarrow>
   minted st x t \<Longrightarrow> minted st' x t"
  by (fastforce simp: minted_def split: option.splits)

lemma mint_stamp_grows:
  "rs_last_stamp st x = Some l \<Longrightarrow>
   \<exists>l'. rs_last_stamp (snd (mint_token now t e st)) x = Some l' \<and> l \<le> l'"
  by (auto simp: mint_token_def Let_def)

lemma receiver_okD: "receiver_ok st \<Longrightarrow> entry st k = Some s \<Longrightarrow> slots_ok st k s"
  unfolding receiver_ok_def by blast

lemma receiver_okI:
  "distinct (map fst (rs_entries st)) \<Longrightarrow> (\<And>k s. entry st k = Some s \<Longrightarrow> slots_ok st k s) \<Longrightarrow> receiver_ok st"
  unfolding receiver_ok_def by blast

lemma slots_ok_stamp: "rs_last_stamp st' = rs_last_stamp st \<Longrightarrow> slots_ok st' k s = slots_ok st k s"
  by (simp add: slots_ok_def minted_def cong: option.case_cong)

lemma receiver_ok_shrink:
  assumes "receiver_ok st" and "distinct (map fst (rs_entries st'))"
    and "rs_last_stamp st' = rs_last_stamp st"
    and "\<And>k s. entry st' k = Some s \<Longrightarrow> entry st k = Some s"
  shows "receiver_ok st'"
  using assms(2) receiver_okD[OF assms(1) assms(4)] slots_ok_stamp[OF assms(3)]
  by (intro receiver_okI) auto

lemma receiver_ok_entry:
  assumes "receiver_ok st" and "slots_ok st k (f (case entry st k of Some s \<Rightarrow> s | None \<Rightarrow> empty_slots))"
  shows "receiver_ok (with_entry k f st)"
proof (rule receiver_okI)
  show "distinct (map fst (rs_entries (with_entry k f st)))"
    using assms(1) by (simp add: receiver_ok_def with_entry_def distinct_update)
  show "slots_ok (with_entry k f st) k' s" if "entry (with_entry k f st) k' = Some s" for k' s
  proof (cases "k' = k")
    case True
    then show ?thesis using that assms(2) by (simp add: slots_ok_stamp[OF stamp_with_entry])
  next
    case False
    then show ?thesis using that receiver_okD[OF assms(1)] by (simp add: slots_ok_stamp[OF stamp_with_entry])
  qed
qed

lemma receiver_ok_old:
  "receiver_ok st \<Longrightarrow> slots_ok st k (case entry st k of Some s \<Rightarrow> s | None \<Rightarrow> empty_slots)"
  by (auto split: option.splits intro: receiver_okD)

lemma publish_ok:
  assumes "receiver_ok st" and "op_ok st (Op_Publish v token slot)"
  shows "receiver_ok (snd (publish_observation v token slot st))"
  using assms receiver_ok_old[OF assms(1), of "rv_key v"]
  by (cases "destination v slot")
     (auto simp: publish_observation_def slots_ok_def slot_ok_publish intro!: receiver_ok_entry
        split: option.splits)

lemma native_ok:
  assumes "receiver_ok st" and "op_ok st (Op_Native f i token)"
  shows "receiver_ok (snd (publish_native_pair f i token st))"
proof (cases "coherent_pair f i")
  case True
  then have key: "rv_key i = rv_key f" by (simp add: coherent_pair_def)
  show ?thesis
    using assms receiver_ok_old[OF assms(1), of "rv_key f"]
    by (auto simp: publish_native_pair_def slots_ok_def slot_ok_publish key intro!: receiver_ok_entry)
next
  case False
  then show ?thesis using assms(1) by (simp add: publish_native_pair_def)
qed

lemma mint_ok:
  assumes "receiver_ok st"
  shows "receiver_ok (snd (mint_token now t e st))"
proof -
  have "slots_ok (snd (mint_token now t e st)) k s" if "slots_ok st k s" for k s
    using that minted_grows[OF mint_stamp_grows[of st "fst k" _ now t e]]
    by (auto simp: slots_ok_def split: option.splits)
  then show ?thesis
    using receiver_okD[OF assms] assms
    by (intro receiver_okI) (auto simp: receiver_ok_def mint_token_def Let_def)
qed

lemma invalidate_ok: "receiver_ok st \<Longrightarrow> receiver_ok (snd (invalidate k st))"
  by (rule receiver_ok_shrink[of st])
     (auto simp: receiver_ok_def invalidate_def distinct_delete entry_def delete_conv' split: if_splits)

lemma invalidate_terminal_ok: "receiver_ok st \<Longrightarrow> receiver_ok (snd (invalidate_terminal t st))"
  by (rule receiver_ok_shrink[of st])
     (auto simp: receiver_ok_def invalidate_terminal_def Let_def distinct_fold_delete entry_def
        map_of_fold_delete split: if_splits)

lemma receiver_step_ok: "receiver_ok st \<Longrightarrow> receiver_step st st' \<Longrightarrow> receiver_ok st'"
  unfolding receiver_step_def
  using publish_ok native_ok mint_ok invalidate_ok invalidate_terminal_ok
  by (elim exE conjE) (rename_tac x; case_tac x; simp)

lemma receiver_ok_new: "receiver_ok new_receiver_store"
  by (simp add: receiver_ok_def new_receiver_store_def entry_def)

interpretation receiver: transition_system "\<lambda>st. st = new_receiver_store" receiver_step receiver_ok
  using receiver_ok_new receiver_step_ok by unfold_locales auto

section \<open>Examples\<close>

text \<open>One worker, observed by the incremental monitor and by a fresh probe.\<close>

definition ex_observation :: "string \<Rightarrow> string \<Rightarrow> string \<Rightarrow> mono \<Rightarrow> terminal_status \<Rightarrow> receiver_state" where
  "ex_observation source outcome origin at status =
     \<lparr> rv_terminal_id = ''w1'', rv_lifecycle_generation = 1, rv_window_identity = ''@3'',
       rv_observation_epoch = ''e1'', rv_observation_sequence = 7, rv_provider = ''codex'',
       rv_frame_source = source, rv_captured_at = at, rv_frame_hash = None, rv_latched_status = status,
       rv_pass_outcome = outcome, rv_freshness_proof = \<lparr> fp_kind = ''identity_ok'', fp_detail = None \<rparr>,
       rv_origin = origin, rv_raw_classification = None, rv_probe_evidence = None,
       rv_native_evidence = None, rv_projection_evidence = None,
       rv_freshness_eligible = outcome \<notin> set INELIGIBLE_OUTCOMES \<rparr>"

definition ex_probe :: receiver_state where
  "ex_probe = ex_observation ''fresh_capture'' ''probe'' ''probe'' 5000 TS_IDLE"

definition ex_accepted :: receiver_state where
  "ex_accepted = ex_observation ''incremental'' ''accepted'' ''incremental'' 1000 TS_IDLE"

definition ex_aborted :: receiver_state where
  "ex_aborted = ex_observation ''incremental'' ''aborted'' ''incremental'' 9000 TS_PROCESSING"

definition ex_key :: receiver_key where
  "ex_key = (''w1'', 1, ''@3'')"

definition ex_minted :: receiver_store where
  "ex_minted = snd (mint_token 4000 ''w1'' ''e1'' new_receiver_store)"

lemma ex_receiver_mint: "mint_token 4000 ''w1'' ''e1'' new_receiver_store = ((''e1'', 4000), ex_minted)"
  by (simp add: ex_minted_def mint_token_def new_receiver_store_def)

lemma ex_observation_constructed:
  "constructed ex_probe" "constructed ex_accepted" "constructed ex_aborted"
  by (simp_all add: constructed_def post_init_def ex_probe_def ex_accepted_def ex_aborted_def
      ex_observation_def PASS_OUTCOMES_def INELIGIBLE_OUTCOMES_def native_origin_def)

lemma ex_probe_id: "rv_terminal_id ex_probe = ''w1''"
  by (simp add: ex_probe_def ex_observation_def)

section \<open>What a consumer may rely on\<close>

text \<open>The store is consistent. In every reachable state an entry is found under one key only, every
  slot holds an observation the constructor accepted, of that very incarnation, with the instant of the
  last eligible capture; the incremental slot never carries a token, and the token of the fresh slot was
  minted for that terminal.\<close>

theorem receiver_store_invariant:
  assumes "receiver_step\<^sup>*\<^sup>* new_receiver_store st"
  shows "receiver_ok st"
  using assms by (rule receiver.inv_reachable[OF refl])

theorem receiver_store_invariant_witness:
  "receiver_ok (snd (publish_observation ex_probe (Some (''e1'', 4000)) None ex_minted))"
proof (rule receiver_store_invariant)
  have "receiver_step new_receiver_store ex_minted"
    unfolding receiver_step_def ex_minted_def
    by (rule exI[of _ "Op_Mint 4000 ''w1'' ''e1''"]) simp
  moreover have "receiver_step ex_minted (snd (publish_observation ex_probe (Some (''e1'', 4000)) None ex_minted))"
    unfolding receiver_step_def
    by (rule exI[of _ "Op_Publish ex_probe (Some (''e1'', 4000)) None"])
       (use ex_observation_constructed(1) in \<open>simp add: minted_def ex_minted_def mint_token_def
          new_receiver_store_def ex_probe_id\<close>)
  ultimately show "receiver_step\<^sup>*\<^sup>* new_receiver_store
      (snd (publish_observation ex_probe (Some (''e1'', 4000)) None ex_minted))" by auto
qed

text \<open>A token is new: it is above every stamp handed out for the terminal, so no slot holds it.\<close>

lemma mint_token_new:
  "mint_token now x e st = (t, st1) \<Longrightarrow> \<not> minted st x t"
  by (auto simp: mint_token_def minted_def Let_def split: option.splits)

lemma mint_token_entry: "mint_token now x e st = (t, st1) \<Longrightarrow> entry st1 = entry st"
  by (auto simp: mint_token_def Let_def)

text \<open>The calls of a history that put an observation into the fresh slot of a key under a token.\<close>

definition published_fresh :: "receiver_op list \<Rightarrow> fresh_token \<Rightarrow> receiver_key \<Rightarrow> receiver_state \<Rightarrow> bool" where
  "published_fresh ops t k v \<longleftrightarrow> rv_key v = k \<and>
     ((\<exists>slot. Op_Publish v (Some t) slot \<in> set ops \<and> destination v slot = Slot_Fresh)
      \<or> (\<exists>i. Op_Native v i t \<in> set ops))"

lemma published_fresh_Cons: "published_fresh ops t k v \<Longrightarrow> published_fresh (x # ops) t k v"
  by (auto simp: published_fresh_def)

definition holds_token :: "receiver_store \<Rightarrow> receiver_key \<Rightarrow> fresh_token \<Rightarrow> receiver_state option \<Rightarrow> bool" where
  "holds_token st k t l \<longleftrightarrow>
     (\<exists>s. entry st k = Some s \<and> sl_token (sl_fresh s) = Some t \<and> sl_latest (sl_fresh s) = l)"

lemma latest_publish [simp]: "sl_latest (slot_publish v t sl) = Some v"
  by (simp add: slot_publish_def)

lemma token_of_empty [simp]: "sl_token (sl_fresh empty_slots) = None"
  by (simp add: empty_slots_def empty_slot_def)

lemma run_op_holds:
  assumes "holds_token (run_op x st) k t l"
  shows "holds_token st k t l \<or> (\<exists>v. l = Some v \<and> published_fresh [x] t k v)"
proof (cases x)
  case (Op_Mint now tid e)
  then show ?thesis using assms by (auto simp: holds_token_def mint_token_def Let_def)
next
  case (Op_Publish v token slot)
  then show ?thesis
    using assms
    by (cases "destination v slot")
       (auto simp: holds_token_def publish_observation_def published_fresh_def split: if_splits option.splits)
next
  case (Op_Native f i token)
  then show ?thesis
    using assms by (auto simp: holds_token_def publish_native_pair_def published_fresh_def split: if_splits)
qed (use assms in \<open>auto simp: holds_token_def split: if_splits\<close>)

lemma fold_run_op_holds:
  "holds_token (fold run_op ops st) k t l \<Longrightarrow>
   holds_token st k t l \<or> (\<exists>v. l = Some v \<and> published_fresh ops t k v)"
proof (induction ops arbitrary: st)
  case Nil
  then show ?case by simp
next
  case (Cons x ops)
  then have "holds_token (run_op x st) k t l \<or> (\<exists>v. l = Some v \<and> published_fresh ops t k v)" by simp
  then show ?case
    using run_op_holds[of x st k t l] published_fresh_Cons by (auto simp: published_fresh_def)
qed

lemma snapshot_view_fresh:
  assumes "snapshot_view k True max_age recovery now (Some t) st = Inr (Some view)"
  shows "\<exists>v. holds_token st k t (Some v) \<and> identity_ok (rv_freshness_proof v) \<and> view = view_of v recovery"
  using assms by (auto simp: snapshot_view_def holds_token_def Let_def split: option.splits if_splits)

text \<open>(C13) A fresh read sees its own probe. Mint a token for a terminal, let any calls follow in any order,
  other probes of the same terminal included; a read that requires freshness and presents the token
  answers, if it answers at all, with an observation that was published under that very token after it
  was minted, and whose identity proof succeeded. No other operation's frame is ever authorised by it.\<close>

theorem fresh_read_is_own_publication:
  assumes "receiver_step\<^sup>*\<^sup>* new_receiver_store st"
    and "mint_token now (fst k) epoch st = (t, st1)"
    and "snapshot_view k True max_age recovery now' (Some t) (fold run_op ops st1) = Inr (Some view)"
  shows "\<exists>v. published_fresh ops t k v \<and> identity_ok (rv_freshness_proof v) \<and> view = view_of v recovery"
proof -
  obtain v where v: "holds_token (fold run_op ops st1) k t (Some v)" "identity_ok (rv_freshness_proof v)"
    "view = view_of v recovery"
    using snapshot_view_fresh[OF assms(3)] by blast
  have "\<not> holds_token st1 k t (Some v)"
  proof
    assume "holds_token st1 k t (Some v)"
    then obtain s where "entry st k = Some s" "sl_token (sl_fresh s) = Some t"
      using mint_token_entry[OF assms(2)] by (auto simp: holds_token_def)
    then have "minted st (fst k) t"
      using receiver_okD[OF receiver.inv_reachable[OF refl assms(1)]] by (fastforce simp: slots_ok_def)
    then show False using mint_token_new[OF assms(2)] by blast
  qed
  then show ?thesis using fold_run_op_holds[OF v(1)] v by blast
qed

theorem fresh_read_is_own_publication_witness:
  "\<exists>v. published_fresh [Op_Publish ex_accepted None None, Op_Publish ex_probe (Some (''e1'', 4000)) None]
         (''e1'', 4000) ex_key v
       \<and> identity_ok (rv_freshness_proof v) \<and> view_of ex_probe None = view_of v None"
proof (rule fresh_read_is_own_publication[OF _ _])
  show "receiver_step\<^sup>*\<^sup>* new_receiver_store new_receiver_store" by simp
  show "mint_token 4000 (fst ex_key) ''e1'' new_receiver_store = ((''e1'', 4000), ex_minted)"
    using ex_receiver_mint by (simp add: ex_key_def)
  show "snapshot_view ex_key True 2000 None 6000 (Some (''e1'', 4000))
      (fold run_op [Op_Publish ex_accepted None None, Op_Publish ex_probe (Some (''e1'', 4000)) None] ex_minted)
      = Inr (Some (view_of ex_probe None))"
    by (simp add: snapshot_view_def publish_observation_def destination_def ex_probe_def ex_accepted_def
        ex_observation_def slot_publish_def INELIGIBLE_OUTCOMES_def rv_key_def ex_key_def identity_ok_def
        Let_def)
qed

text \<open>Slots and incarnations do not interfere. Publishing an observation changes neither what the
  other slot of its incarnation answers nor what any other incarnation answers, whether the call returns
  or raises.\<close>

theorem publication_is_isolated:
  assumes "k \<noteq> rv_key v \<or> require_fresh \<noteq> (destination v slot = Slot_Fresh)"
  shows "snapshot_view k require_fresh max_age recovery now token (snd (publish_observation v t slot st))
    = snapshot_view k require_fresh max_age recovery now token st"
  using assms
  by (cases "destination v slot")
     (auto simp: snapshot_view_def publish_observation_def Let_def empty_slots_def empty_slot_def
        split: option.splits)

theorem publication_is_isolated_witness:
  "snapshot_view ex_key False 2000 None 6000 None (snd (publish_observation ex_probe None None ex_minted))
    = snapshot_view ex_key False 2000 None 6000 None ex_minted"
  using publication_is_isolated[of ex_key ex_probe False None]
  by (simp add: destination_def ex_probe_def ex_observation_def)

text \<open>A rejected pass does not renew freshness. After an eligible observation, one of an ineligible
  outcome (a stale sequence, an aborted pass) on the incremental slot is what a read answers, but only
  as long as the eligible one is young enough: the later capture instant does not count.\<close>

theorem rejected_pass_keeps_age:
  assumes "rv_freshness_eligible u" and "\<not> rv_freshness_eligible v"
    and "rv_key u = rv_key v"
    and "destination u None = Slot_Incremental" and "destination v None = Slot_Incremental"
    and "0 \<le> max_age"
  shows "snapshot_view (rv_key v) False max_age recovery now token
      (snd (publish_observation v None None (snd (publish_observation u None None st))))
    = Inr (if now - rv_captured_at u \<le> max_age then Some (view_of v recovery) else None)"
  using assms by (simp add: snapshot_view_def publish_observation_def slot_publish_def Let_def)

theorem rejected_pass_keeps_age_witness:
  "snapshot_view (rv_key ex_aborted) False 20000 None 9000 None
      (snd (publish_observation ex_aborted None None (snd (publish_observation ex_accepted None None new_receiver_store))))
    = Inr (Some (view_of ex_aborted None))
   \<and> snapshot_view (rv_key ex_aborted) False 7000 None 9000 None
      (snd (publish_observation ex_aborted None None (snd (publish_observation ex_accepted None None new_receiver_store))))
    = Inr None"
  using rejected_pass_keeps_age[of ex_accepted ex_aborted 20000 None 9000]
    rejected_pass_keeps_age[of ex_accepted ex_aborted 7000 None 9000]
  by (simp add: destination_def ex_accepted_def ex_aborted_def ex_observation_def rv_key_def
      INELIGIBLE_OUTCOMES_def)

text \<open>A rejected publication leaves an entry behind, so a later invalidation reports that it removed
  one.\<close>

lemma rejected_publication_leaves_entry:
  assumes "entry st (rv_key v) = None" and "destination v slot = Slot_Incremental"
  shows "fst (publish_observation v (Some t) slot st) = Inl ValueError
    \<and> fst (invalidate (rv_key v) (snd (publish_observation v (Some t) slot st)))
    \<and> \<not> fst (invalidate (rv_key v) st)"
  using assms by (simp add: publish_observation_def invalidate_def)

text \<open>Deleting a terminal forgets every incarnation of it and no other.\<close>

lemma invalidate_terminal_views:
  "snapshot_view k f a r n t (snd (invalidate_terminal x st))
   = (if fst k = x then (if a < 0 then Inl ValueError else Inr None) else snapshot_view k f a r n t st)"
  by (simp add: snapshot_view_def)

end
