(* ===== verification/Workflow_Journal.thy ===== *)
theory Workflow_Journal
  imports CAO_Prelude
begin

text \<open>
  The durable run journal of the workflow engine (\<open>services/workflow_journal.py\<close>), the run and step
  vocabulary it stores (\<open>models/workflow_runtime.py\<close>), and the two generation helpers of
  \<open>services/workflow_service.py\<close>. Four tables: runs, steps, events and the high-water mark of the event
  sequence. Every function is one connection and one transaction, hence one step here; opening the
  connection, the migrators and the logging are not modelled. JSON columns are texts.
\<close>

section \<open>Vocabulary\<close>

datatype recovery_decision = Rerun | Skip

datatype halt_rule =
    INTERRUPTED_NO_POLICY | ENVELOPE_ABSENT | PROVENANCE_UNVERIFIABLE | POLICY_MANUAL
  | OUTCOME_FAILED | ENVELOPE_LOSSY

text \<open>The exceptions the workflow code raises, as values.\<close>

datatype workflow_error =
    WF_ValueError | WF_KeyError | WF_IntegrityError | WF_StaleGeneration | WF_NotBuiltYet | WF_ReplayDivergence
  | WF_DecisionRequired halt_rule | WF_ResumeNotAllowed | WF_ResumeCorrupt | WF_NotApproved
  | WF_EngineError | WF_RuntimeError | WF_StepFailed

definition parse_recovery_decision :: "string \<Rightarrow> workflow_error + recovery_decision" where
  "parse_recovery_decision value =
     (if value = ''rerun'' then Inr Rerun
      else if value = ''skip'' then Inr Skip
      else Inl WF_ValueError)"

section \<open>Rows\<close>

record workflow_run_row =
  wr_run_id :: string
  wr_workflow_name :: string
  wr_spec_snapshot :: string
  wr_inputs_json :: string
  wr_state :: string
  wr_current_step_id :: "string option"
  wr_started_at :: string
  wr_finished_at :: "string option"
  wr_tier :: string
  wr_generation :: string
  wr_manifest_json :: "string option"

record step_row =
  ws_run_id :: string
  ws_step_id :: string
  ws_state :: string
  ws_attempts :: int
  ws_output_json :: "string option"
  ws_error :: "string option"
  ws_updated_at :: string
  ws_call_fingerprint :: "string option"
  ws_terminal_id :: "string option"
  ws_reprompted :: "int option"
  ws_error_kind :: "string option"
  ws_result_json :: "string option"

record event_fields =
  ef_step_id :: "string option"
  ef_attempt :: "int option"
  ef_state :: "string option"
  ef_elapsed_ms :: "int option"
  ef_provider :: "string option"
  ef_agent_profile :: "string option"
  ef_engine :: "string option"
  ef_terminal_id :: "string option"
  ef_terminal_offset_start :: "int option"
  ef_terminal_offset_len :: "int option"
  ef_error_kind :: "string option"
  ef_reason :: "string option"
  ef_validation_result :: "string option"
  ef_output_ref :: "string option"
  ef_iteration :: "int option"
  ef_which_guard_fired :: "string option"

record wf_event_row =
  we_run_id :: string
  we_seq :: int
  we_event_type :: string
  we_schema_version :: int
  we_ts :: string
  we_fields :: event_fields

record gap_marker =
  gm_after_seq :: int
  gm_before_seq :: int
  gm_missing_count :: int
  gm_reason :: string

record run_summary =
  rn_run_id :: string
  rn_workflow_name :: string
  rn_state :: string
  rn_tier :: string
  rn_started_at :: string
  rn_finished_at :: "string option"
  rn_current_step_id :: "string option"

record journal =
  j_runs :: "workflow_run_row list"
  j_steps :: "step_row list"
  j_events :: "wf_event_row list"
  j_seq :: "(string \<times> int) list"

definition empty_journal :: journal where
  "empty_journal = \<lparr> j_runs = [], j_steps = [], j_events = [], j_seq = [] \<rparr>"

definition step_key :: "step_row \<Rightarrow> string \<times> string" where
  "step_key s = (ws_run_id s, ws_step_id s)"

definition at_step :: "string \<Rightarrow> string \<Rightarrow> step_row \<Rightarrow> bool" where
  "at_step run_id step_id s \<longleftrightarrow> ws_run_id s = run_id \<and> ws_step_id s = step_id"

section \<open>Writing runs\<close>

definition new_run_row ::
  "string \<Rightarrow> string \<Rightarrow> string \<Rightarrow> string \<Rightarrow> string \<Rightarrow> string \<Rightarrow> string \<Rightarrow> string \<Rightarrow> string option \<Rightarrow> workflow_run_row"
where
  "new_run_row run_id name snapshot inputs state started_at tier generation manifest =
     \<lparr> wr_run_id = run_id, wr_workflow_name = name, wr_spec_snapshot = snapshot, wr_inputs_json = inputs,
       wr_state = state, wr_current_step_id = None, wr_started_at = started_at, wr_finished_at = None,
       wr_tier = tier, wr_generation = generation, wr_manifest_json = manifest \<rparr>"

definition insert_run :: "workflow_run_row \<Rightarrow> journal \<Rightarrow> (workflow_error + unit) \<times> journal" where
  "insert_run row j =
     (if wr_run_id row \<in> wr_run_id ` set (j_runs j) then (Inl WF_IntegrityError, j)
      else (Inr (), j \<lparr> j_runs := j_runs j @ [row] \<rparr>))"

text \<open>\<open>INSERT OR REPLACE\<close>: a row with the same key goes, the new row is appended, and the columns the
  statement does not name take their defaults.\<close>

definition seeded_step :: "string \<Rightarrow> string \<Rightarrow> string \<Rightarrow> string \<Rightarrow> step_row" where
  "seeded_step run_id step_id state updated_at =
     \<lparr> ws_run_id = run_id, ws_step_id = step_id, ws_state = state, ws_attempts = 0, ws_output_json = None,
       ws_error = None, ws_updated_at = updated_at, ws_call_fingerprint = None, ws_terminal_id = None,
       ws_reprompted = None, ws_error_kind = None, ws_result_json = None \<rparr>"

definition replace_step :: "step_row \<Rightarrow> step_row list \<Rightarrow> step_row list" where
  "replace_step row rows = filter (\<lambda>s. step_key s \<noteq> step_key row) rows @ [row]"

definition insert_steps :: "string \<Rightarrow> (string \<times> string) list \<Rightarrow> string \<Rightarrow> journal \<Rightarrow> journal" where
  "insert_steps run_id steps updated_at j =
     j \<lparr> j_steps := fold (\<lambda>(step_id, state). replace_step (seeded_step run_id step_id state updated_at))
                     steps (j_steps j) \<rparr>"

definition insert_run_with_steps ::
  "workflow_run_row \<Rightarrow> (string \<times> string) list \<Rightarrow> string \<Rightarrow> journal \<Rightarrow> (workflow_error + unit) \<times> journal"
where
  "insert_run_with_steps row steps updated_at j =
     (case insert_run row j of
        (Inl e, _) \<Rightarrow> (Inl e, j)
      | (Inr _, j1) \<Rightarrow> (Inr (), insert_steps (wr_run_id row) steps updated_at j1))"

definition compare_and_set_run_manifest :: "string \<Rightarrow> string \<Rightarrow> string \<Rightarrow> journal \<Rightarrow> bool \<times> journal" where
  "compare_and_set_run_manifest run_id expected manifest j =
     (let P = (\<lambda>r. wr_run_id r = run_id \<and> wr_manifest_json r = Some expected) in
      (rowcount P (j_runs j) = 1,
       j \<lparr> j_runs := update_where P (\<lambda>r. r \<lparr> wr_manifest_json := Some manifest \<rparr>) (j_runs j) \<rparr>))"

definition update_run_current_step :: "string \<Rightarrow> string option \<Rightarrow> journal \<Rightarrow> journal" where
  "update_run_current_step run_id step j =
     j \<lparr> j_runs := update_where (\<lambda>r. wr_run_id r = run_id) (\<lambda>r. r \<lparr> wr_current_step_id := step \<rparr>) (j_runs j) \<rparr>"

definition update_run_state :: "string \<Rightarrow> string \<Rightarrow> string option \<Rightarrow> journal \<Rightarrow> journal" where
  "update_run_state run_id state finished_at j =
     j \<lparr> j_runs := update_where (\<lambda>r. wr_run_id r = run_id)
                    (\<lambda>r. r \<lparr> wr_state := state, wr_finished_at := finished_at \<rparr>) (j_runs j) \<rparr>"

definition settle_run_state_if_running :: "string \<Rightarrow> string \<Rightarrow> string option \<Rightarrow> journal \<Rightarrow> bool \<times> journal" where
  "settle_run_state_if_running run_id state finished_at j =
     (let P = (\<lambda>r. wr_run_id r = run_id \<and> wr_state r = ''running'') in
      (rowcount P (j_runs j) > 0,
       j \<lparr> j_runs := update_where P (\<lambda>r. r \<lparr> wr_state := state, wr_finished_at := finished_at \<rparr>)
                      (j_runs j) \<rparr>))"

definition update_run_generation :: "string \<Rightarrow> string \<Rightarrow> journal \<Rightarrow> journal" where
  "update_run_generation run_id generation j =
     j \<lparr> j_runs := update_where (\<lambda>r. wr_run_id r = run_id) (\<lambda>r. r \<lparr> wr_generation := generation \<rparr>)
                    (j_runs j) \<rparr>"

section \<open>Reading runs and steps\<close>

definition get_run_row :: "string \<Rightarrow> journal \<Rightarrow> workflow_run_row option" where
  "get_run_row run_id j = fetchone (\<lambda>r. wr_run_id r = run_id) (j_runs j)"

definition get_steps :: "string \<Rightarrow> journal \<Rightarrow> step_row list" where
  "get_steps run_id j = filter (\<lambda>s. ws_run_id s = run_id) (j_steps j)"

definition get_step :: "string \<Rightarrow> string \<Rightarrow> journal \<Rightarrow> step_row option" where
  "get_step run_id step_id j = fetchone (at_step run_id step_id) (j_steps j)"

definition summary_of :: "workflow_run_row \<Rightarrow> run_summary" where
  "summary_of r =
     \<lparr> rn_run_id = wr_run_id r, rn_workflow_name = wr_workflow_name r, rn_state = wr_state r,
       rn_tier = wr_tier r, rn_started_at = wr_started_at r, rn_finished_at = wr_finished_at r,
       rn_current_step_id = wr_current_step_id r \<rparr>"

definition newest_first :: "workflow_run_row list \<Rightarrow> workflow_run_row list" where
  "newest_first rs = rev (sort_key (\<lambda>r. (wr_started_at r, wr_run_id r)) rs)"

definition list_runs :: "string option \<Rightarrow> int \<Rightarrow> int \<Rightarrow> journal \<Rightarrow> run_summary list" where
  "list_runs state limit offset j =
     (let limit' = max 1 (min limit 500); offset' = max 0 offset;
          chosen = filter (\<lambda>r. case state of None \<Rightarrow> True | Some s \<Rightarrow> wr_state r = s) (j_runs j)
      in map summary_of (take (nat limit') (drop (nat offset') (newest_first chosen))))"

definition list_run_ids_by_age :: "journal \<Rightarrow> (string \<times> string) list" where
  "list_run_ids_by_age j = map (\<lambda>r. (wr_run_id r, wr_started_at r)) (newest_first (j_runs j))"

definition check_generation :: "string \<Rightarrow> string \<Rightarrow> journal \<Rightarrow> workflow_error + unit" where
  "check_generation run_id generation j =
     (case get_run_row run_id j of
        None \<Rightarrow> Inl WF_KeyError
      | Some r \<Rightarrow> if generation \<noteq> wr_generation r then Inl WF_StaleGeneration else Inr ())"

section \<open>Writing steps\<close>

definition update_step ::
  "string \<Rightarrow> string \<Rightarrow> string \<Rightarrow> int \<Rightarrow> string \<Rightarrow> string option \<Rightarrow> string option \<Rightarrow> string option
     \<Rightarrow> journal \<Rightarrow> journal"
where
  "update_step run_id step_id state attempts updated_at output error kind j =
     j \<lparr> j_steps := update_where (at_step run_id step_id)
           (\<lambda>s. s \<lparr> ws_state := state, ws_attempts := attempts, ws_output_json := output, ws_error := error,
                   ws_error_kind := kind, ws_updated_at := updated_at \<rparr>) (j_steps j) \<rparr>"

text \<open>\<open>INSERT \<dots> ON CONFLICT(run_id, step_id) DO UPDATE SET f\<close>.\<close>

definition upsert_step :: "step_row \<Rightarrow> (step_row \<Rightarrow> step_row) \<Rightarrow> step_row list \<Rightarrow> step_row list" where
  "upsert_step row f rows =
     (if step_key row \<in> step_key ` set rows
      then update_where (at_step (ws_run_id row) (ws_step_id row)) f rows
      else rows @ [row])"

definition append_step :: "string \<Rightarrow> string \<Rightarrow> string \<Rightarrow> string \<Rightarrow> string \<Rightarrow> journal \<Rightarrow> journal" where
  "append_step run_id step_id state updated_at fingerprint j =
     j \<lparr> j_steps := upsert_step
           ((seeded_step run_id step_id state updated_at) \<lparr> ws_call_fingerprint := Some fingerprint \<rparr>)
           (\<lambda>s. s \<lparr> ws_state := state, ws_updated_at := updated_at \<rparr>) (j_steps j) \<rparr>"

definition begin_step :: "string \<Rightarrow> string \<Rightarrow> string \<Rightarrow> string \<Rightarrow> journal \<Rightarrow> journal" where
  "begin_step run_id step_id updated_at fingerprint j =
     j \<lparr> j_steps := upsert_step
           ((seeded_step run_id step_id ''running'' updated_at) \<lparr> ws_call_fingerprint := Some fingerprint \<rparr>)
           (\<lambda>s. s \<lparr> ws_state := ''running'', ws_updated_at := updated_at,
                   ws_call_fingerprint := (if ws_state s \<noteq> ''completed'' then Some fingerprint
                                           else ws_call_fingerprint s) \<rparr>) (j_steps j) \<rparr>"

definition settle_step ::
  "string \<Rightarrow> string \<Rightarrow> string \<Rightarrow> string \<Rightarrow> string option \<Rightarrow> string option \<Rightarrow> string option
     \<Rightarrow> journal \<Rightarrow> bool \<times> journal"
where
  "settle_step run_id step_id state updated_at result output error j =
     (get_step run_id step_id j \<noteq> None,
      j \<lparr> j_steps := upsert_step
            ((seeded_step run_id step_id state updated_at)
               \<lparr> ws_attempts := 1, ws_output_json := output, ws_error := error, ws_result_json := result \<rparr>)
            (\<lambda>s. s \<lparr> ws_state := state, ws_attempts := ws_attempts s + 1, ws_output_json := output,
                    ws_error := error, ws_updated_at := updated_at, ws_result_json := result \<rparr>)
            (j_steps j) \<rparr>)"

definition lookup_replay :: "string \<Rightarrow> string \<Rightarrow> string \<Rightarrow> journal \<Rightarrow> workflow_error + step_row option" where
  "lookup_replay run_id step_id fingerprint j =
     (case get_step run_id step_id j of
        None \<Rightarrow> Inr None
      | Some s \<Rightarrow>
          if ws_state s \<noteq> ''completed'' then Inr None
          else if ws_call_fingerprint s \<noteq> Some fingerprint then Inl WF_ReplayDivergence
          else Inr (Some s))"

section \<open>Recovery decisions\<close>

fun decision_state :: "recovery_decision \<Rightarrow> string" where
  "decision_state Rerun = ''rerun_authorized''"
| "decision_state Skip = ''replay_authorized''"

definition AUTHORISED :: "string list" where
  "AUTHORISED = map decision_state [Rerun, Skip]"

definition set_step_state :: "string \<Rightarrow> string \<Rightarrow> string \<Rightarrow> step_row list \<Rightarrow> step_row list" where
  "set_step_state run_id step_id state = update_where (at_step run_id step_id) (\<lambda>s. s \<lparr> ws_state := state \<rparr>)"

text \<open>The whole map is validated before anything is written.\<close>

fun resolve_decisions ::
  "(string \<times> string) list \<Rightarrow> string list \<Rightarrow> workflow_error + (string \<times> string) list"
where
  "resolve_decisions [] known = Inr []"
| "resolve_decisions ((step_id, value) # rest) known =
     (if step_id \<notin> set known then Inl WF_ValueError
      else case parse_recovery_decision value of
        Inl e \<Rightarrow> Inl WF_ValueError
      | Inr d \<Rightarrow> (case resolve_decisions rest known of
                    Inl e \<Rightarrow> Inl e
                  | Inr resolved \<Rightarrow> Inr ((step_id, decision_state d) # resolved)))"

definition write_states :: "string \<Rightarrow> (string \<times> string) list \<Rightarrow> step_row list \<Rightarrow> step_row list" where
  "write_states run_id resolved =
     fold (\<lambda>(step_id, state). set_step_state run_id step_id state) resolved"

definition prior_states :: "string \<Rightarrow> journal \<Rightarrow> (string \<times> string) list" where
  "prior_states run_id j = map (\<lambda>s. (ws_step_id s, ws_state s)) (get_steps run_id j)"

definition apply_decisions ::
  "string \<Rightarrow> (string \<times> string) list \<Rightarrow> journal \<Rightarrow> (workflow_error + (string \<times> string) list) \<times> journal"
where
  "apply_decisions run_id decisions j =
     (if decisions = [] then (Inr [], j)
      else
        let prior = prior_states run_id j in
        (case resolve_decisions decisions (map fst prior) of
           Inl e \<Rightarrow> (Inl e, j)
         | Inr resolved \<Rightarrow>
             (Inr (map (\<lambda>(step_id, _). (step_id, the (map_of prior step_id))) resolved),
              j \<lparr> j_steps := write_states run_id resolved (j_steps j) \<rparr>)))"

text \<open>One consent taken back: a compare-and-set from whichever authorised state the row still holds.\<close>

definition revoke_step :: "string \<Rightarrow> string \<Rightarrow> string \<Rightarrow> step_row list \<Rightarrow> bool \<times> step_row list" where
  "revoke_step run_id step_id prior rows =
     (if prior \<in> set AUTHORISED then (False, rows)
      else case find (\<lambda>a. \<exists>s \<in> set rows. at_step run_id step_id s \<and> ws_state s = a) AUTHORISED of
        None \<Rightarrow> (False, rows)
      | Some a \<Rightarrow>
          (True, update_where (\<lambda>s. at_step run_id step_id s \<and> ws_state s = a)
                   (\<lambda>s. s \<lparr> ws_state := prior \<rparr>) rows))"

fun revoke_loop :: "string \<Rightarrow> (string \<times> string) list \<Rightarrow> step_row list \<Rightarrow> string list \<times> step_row list" where
  "revoke_loop run_id [] rows = ([], rows)"
| "revoke_loop run_id ((step_id, prior) # rest) rows =
     (let (hit, rows1) = revoke_step run_id step_id prior rows;
          (revoked, rows2) = revoke_loop run_id rest rows1
      in (if hit then step_id # revoked else revoked, rows2))"

definition revoke_unconsumed_decisions ::
  "string \<Rightarrow> (string \<times> string) list \<Rightarrow> journal \<Rightarrow> string list \<times> journal"
where
  "revoke_unconsumed_decisions run_id prior j =
     (let (revoked, rows) = revoke_loop run_id prior (j_steps j)
      in (revoked, j \<lparr> j_steps := rows \<rparr>))"

section \<open>Events\<close>

definition append_run_event ::
  "string \<Rightarrow> int \<Rightarrow> string \<Rightarrow> int \<Rightarrow> string \<Rightarrow> event_fields \<Rightarrow> journal \<Rightarrow> (workflow_error + unit) \<times> journal"
where
  "append_run_event run_id seq event_type version ts extra j =
     (if \<exists>e \<in> set (j_events j). we_run_id e = run_id \<and> we_seq e = seq then (Inl WF_IntegrityError, j)
      else (Inr (), j \<lparr> j_events := j_events j @
              [\<lparr> we_run_id = run_id, we_seq = seq, we_event_type = event_type, we_schema_version = version,
                 we_ts = ts, we_fields = extra \<rparr>] \<rparr>))"

definition persist_high_water :: "string \<Rightarrow> int \<Rightarrow> journal \<Rightarrow> journal" where
  "persist_high_water run_id seq j =
     j \<lparr> j_seq := (if run_id \<in> fst ` set (j_seq j)
                   then update_where (\<lambda>m. fst m = run_id) (\<lambda>m. (fst m, max (snd m) seq)) (j_seq j)
                   else j_seq j @ [(run_id, seq)]) \<rparr>"

definition read_run_events :: "string \<Rightarrow> int option \<Rightarrow> journal \<Rightarrow> wf_event_row list" where
  "read_run_events run_id after j =
     sort_key we_seq (filter (\<lambda>e. we_run_id e = run_id
        \<and> (case after of None \<Rightarrow> True | Some a \<Rightarrow> a < we_seq e)) (j_events j))"

definition is_terminal_run :: "string \<Rightarrow> journal \<Rightarrow> bool" where
  "is_terminal_run run_id j \<longleftrightarrow>
     (case get_run_row run_id j of
        None \<Rightarrow> False
      | Some r \<Rightarrow> wr_state r \<in> {''completed'', ''failed'', ''cancelled''})"

definition persisted_high_water :: "string \<Rightarrow> journal \<Rightarrow> int" where
  "persisted_high_water run_id j =
     (case fetchone (\<lambda>m. fst m = run_id) (j_seq j) of None \<Rightarrow> 0 | Some m \<Rightarrow> snd m)"

definition max_event_seq :: "string \<Rightarrow> journal \<Rightarrow> int" where
  "max_event_seq run_id j =
     (case sql_max (map we_seq (filter (\<lambda>e. we_run_id e = run_id) (j_events j))) of
        None \<Rightarrow> 0 | Some m \<Rightarrow> m)"

fun scan_gaps :: "int \<Rightarrow> wf_event_row list \<Rightarrow> gap_marker list \<times> int" where
  "scan_gaps prev [] = ([], prev)"
| "scan_gaps prev (row # rest) =
     (let (gaps, final) = scan_gaps (we_seq row) rest in
      (if prev + 1 < we_seq row
       then \<lparr> gm_after_seq = prev, gm_before_seq = we_seq row, gm_missing_count = we_seq row - prev - 1,
              gm_reason = ''append_failed'' \<rparr> # gaps
       else gaps, final))"

definition read_events_with_gaps :: "string \<Rightarrow> int option \<Rightarrow> journal \<Rightarrow> wf_event_row list \<times> gap_marker list" where
  "read_events_with_gaps run_id after j =
     (let rows = read_run_events run_id after j;
          start = (case after of None \<Rightarrow> 0 | Some a \<Rightarrow> max a 0);
          (gaps, prev) = scan_gaps start rows;
          high_water = persisted_high_water run_id j
      in (rows,
          if is_terminal_run run_id j \<and> prev < high_water
          then gaps @ [\<lparr> gm_after_seq = prev, gm_before_seq = high_water + 1,
                        gm_missing_count = high_water - prev, gm_reason = ''append_failed_trailing'' \<rparr>]
          else gaps))"

section \<open>Deleting a run\<close>

definition delete_run_events :: "string \<Rightarrow> journal \<Rightarrow> journal" where
  "delete_run_events run_id j = j \<lparr> j_events := filter (\<lambda>e. we_run_id e \<noteq> run_id) (j_events j) \<rparr>"

definition delete_run :: "string \<Rightarrow> journal \<Rightarrow> journal" where
  "delete_run run_id j =
     (delete_run_events run_id j)
       \<lparr> j_seq := filter (\<lambda>m. fst m \<noteq> run_id) (j_seq j),
         j_steps := filter (\<lambda>s. ws_run_id s \<noteq> run_id) (j_steps j),
         j_runs := filter (\<lambda>r. wr_run_id r \<noteq> run_id) (j_runs j) \<rparr>"

section \<open>The keys of the tables\<close>

definition journal_ok :: "journal \<Rightarrow> bool" where
  "journal_ok j \<longleftrightarrow>
     distinct (map wr_run_id (j_runs j)) \<and> distinct (map step_key (j_steps j))
     \<and> distinct (map (\<lambda>e. (we_run_id e, we_seq e)) (j_events j)) \<and> distinct (map fst (j_seq j))"

end
