(* ===== verification/Step_Replay.thy ===== *)
theory Step_Replay
  imports Workflow_Journal
begin

text \<open>
  The replay gate of script runs (\<open>services/step_replay.py\<close>) with what it reads: the recovery policies
  and the result envelope of \<open>models/workflow.py\<close>, the scheme of a stored fingerprint
  (\<open>services/step_fingerprint.py\<close>) and the envelope reader (\<open>services/step_result.py\<close>). The JSON reader of
  the validation library is the argument \<open>parse\<close>; the prose of a decision's reason is not modelled.
\<close>

section \<open>Vocabulary\<close>

datatype recovery_policy = IDEMPOTENT | RECONCILE | MANUAL

definition parse_policy :: "string option \<Rightarrow> workflow_error + recovery_policy option" where
  "parse_policy value =
     (if value = None \<or> value = Some '''' then Inr None
      else if value = Some ''idempotent'' then Inr (Some IDEMPOTENT)
      else if value = Some ''reconcile'' then Inr (Some RECONCILE)
      else if value = Some ''manual'' then Inr (Some MANUAL)
      else Inl WF_ValueError)"

record envelope =
  en_last_message :: string
  en_status :: string
  en_terminal_id :: "string option"
  en_truncated :: bool
  en_redacted :: bool

datatype scheme = V2 | Legacy | Absent

definition scheme_of :: "string option \<Rightarrow> scheme" where
  "scheme_of stored =
     (case stored of
        None \<Rightarrow> Absent
      | Some s \<Rightarrow> if startswith s ''v2:'' then V2 else Legacy)"

definition parse_envelope :: "(string \<Rightarrow> envelope option) \<Rightarrow> string option \<Rightarrow> envelope option" where
  "parse_envelope parse stored = (case stored of None \<Rightarrow> None | Some s \<Rightarrow> parse s)"

datatype replay_verdict = EXECUTE | REPLAY | DIVERGED | DECISION_REQUIRED

record replay_decision =
  rd_verdict :: replay_verdict
  rd_envelope :: "envelope option"
  rd_rule :: "halt_rule option"

definition reexecution_permitted :: "recovery_policy option \<Rightarrow> bool" where
  "reexecution_permitted policy \<longleftrightarrow> policy \<in> {Some IDEMPOTENT, Some RECONCILE}"

abbreviation execute_decision :: replay_decision where
  "execute_decision \<equiv> \<lparr> rd_verdict = EXECUTE, rd_envelope = None, rd_rule = None \<rparr>"

abbreviation halt_decision :: "halt_rule \<Rightarrow> replay_decision" where
  "halt_decision rule \<equiv> \<lparr> rd_verdict = DECISION_REQUIRED, rd_envelope = None, rd_rule = Some rule \<rparr>"

section \<open>The ten rules\<close>

text \<open>The rules over the row that the one journal read returned, first match wins.\<close>

definition decide_settled ::
  "(string \<Rightarrow> envelope option) \<Rightarrow> string \<Rightarrow> recovery_policy option \<Rightarrow> step_row \<Rightarrow> replay_decision"
where
  "decide_settled parse fingerprint policy row =
     (case parse_envelope parse (ws_result_json row) of
        None \<Rightarrow> halt_decision ENVELOPE_ABSENT
      | Some env \<Rightarrow>
          if scheme_of (ws_call_fingerprint row) \<noteq> V2 then
            (if reexecution_permitted policy then execute_decision
             else halt_decision PROVENANCE_UNVERIFIABLE)
          else if ws_call_fingerprint row \<noteq> Some fingerprint then
            \<lparr> rd_verdict = DIVERGED, rd_envelope = None, rd_rule = None \<rparr>
          else if policy = Some MANUAL \<and> ws_state row \<noteq> ''replay_authorized'' then
            halt_decision POLICY_MANUAL
          else if ws_state row = ''failed'' then halt_decision OUTCOME_FAILED
          else if (en_truncated env \<or> en_redacted env) \<and> ws_state row \<noteq> ''replay_authorized'' then
            halt_decision ENVELOPE_LOSSY
          else \<lparr> rd_verdict = REPLAY, rd_envelope = Some env, rd_rule = None \<rparr>)"

definition decide_row ::
  "(string \<Rightarrow> envelope option) \<Rightarrow> string \<Rightarrow> recovery_policy option \<Rightarrow> step_row option \<Rightarrow> replay_decision"
where
  "decide_row parse fingerprint policy stored =
     (case stored of
        None \<Rightarrow> execute_decision
      | Some row \<Rightarrow>
          if ws_state row = ''rerun_authorized'' then execute_decision
          else if ws_state row = ''running'' then
            (if reexecution_permitted policy then execute_decision
             else halt_decision INTERRUPTED_NO_POLICY)
          else decide_settled parse fingerprint policy row)"

definition decide ::
  "(string \<Rightarrow> envelope option) \<Rightarrow> string \<Rightarrow> string \<Rightarrow> string \<Rightarrow> recovery_policy option \<Rightarrow> journal
     \<Rightarrow> workflow_error + replay_decision"
where
  "decide parse run_id step_id fingerprint policy j =
     (if scheme_of (Some fingerprint) \<noteq> V2 then Inl WF_ValueError
      else Inr (decide_row parse fingerprint policy (get_step run_id step_id j)))"

section \<open>What the gate promises\<close>

text \<open>The stored result of a row is usable for a call when the row has ended, its envelope is readable, it
  was recorded under the current scheme for exactly this call, and either a human accepted it or it is an
  unabridged success of a step that asked for no human.\<close>

definition usable_result ::
  "(string \<Rightarrow> envelope option) \<Rightarrow> string \<Rightarrow> recovery_policy option \<Rightarrow> step_row \<Rightarrow> envelope \<Rightarrow> bool"
where
  "usable_result parse fingerprint policy row env \<longleftrightarrow>
     ws_state row \<notin> {''rerun_authorized'', ''running''}
     \<and> parse_envelope parse (ws_result_json row) = Some env
     \<and> ws_call_fingerprint row = Some fingerprint
     \<and> (ws_state row = ''replay_authorized''
        \<or> (policy \<noteq> Some MANUAL \<and> ws_state row \<noteq> ''failed'' \<and> \<not> en_truncated env \<and> \<not> en_redacted env))"

text \<open>(C10) A step is answered from the journal exactly when its stored result is usable. For a fingerprint
  under the current scheme the gate answers REPLAY with an envelope if and only if the row read is usable
  for this call with that envelope: an interrupted step, an unreadable or foreign result, a failure or an
  abridged text is never replayed unless a human accepted the stored result, and even then only for the
  same call.\<close>

theorem replay_exact:
  assumes "scheme_of (Some fingerprint) = V2"
  shows "(\<exists>rule. decide parse run_id step_id fingerprint policy j
            = Inr \<lparr> rd_verdict = REPLAY, rd_envelope = Some env, rd_rule = rule \<rparr>)
    \<longleftrightarrow> (\<exists>row. get_step run_id step_id j = Some row \<and> usable_result parse fingerprint policy row env)"
  using assms
  by (auto simp: decide_def decide_row_def decide_settled_def usable_result_def
      split: option.splits if_splits)

definition ex_completed :: journal where
  "ex_completed = snd (settle_step ''r1'' ''plan'' ''completed'' ''t2'' (Some ''done'') None None
     (begin_step ''r1'' ''plan'' ''t1'' ''v2:abc'' empty_journal))"

definition ex_parse :: "string \<Rightarrow> envelope option" where
  "ex_parse s = (if s = ''done'' then Some \<lparr> en_last_message = ''ok'', en_status = ''completed'',
     en_terminal_id = Some ''w1'', en_truncated = False, en_redacted = False \<rparr> else None)"

lemma ex_completed_row:
  "get_step ''r1'' ''plan'' ex_completed = Some (seeded_step ''r1'' ''plan'' ''completed'' ''t2''
     \<lparr> ws_attempts := 1, ws_call_fingerprint := Some ''v2:abc'', ws_result_json := Some ''done'' \<rparr>)"
  by (simp add: ex_completed_def settle_step_def begin_step_def upsert_step_def seeded_step_def step_key_def
      empty_journal_def get_step_def fetchone_def at_step_def update_where_def)

theorem replay_exact_witness:
  "\<exists>rule. decide ex_parse ''r1'' ''plan'' ''v2:abc'' None ex_completed
     = Inr \<lparr> rd_verdict = REPLAY, rd_envelope = ex_parse ''done'', rd_rule = rule \<rparr>"
proof -
  let ?env = "\<lparr> en_last_message = ''ok'', en_status = ''completed'', en_terminal_id = Some ''w1'',
     en_truncated = False, en_redacted = False \<rparr>"
  have "\<exists>rule. decide ex_parse ''r1'' ''plan'' ''v2:abc'' None ex_completed
     = Inr \<lparr> rd_verdict = REPLAY, rd_envelope = Some ?env, rd_rule = rule \<rparr>"
    by (subst replay_exact)
       (simp_all add: scheme_of_def startswith_def ex_completed_row usable_result_def seeded_step_def
          parse_envelope_def ex_parse_def)
  then show ?thesis by (simp add: ex_parse_def)
qed

text \<open>The shape of a decision: an envelope exactly with REPLAY, a rule exactly with a halt.\<close>

lemma decision_shape:
  assumes "decide parse run_id step_id fingerprint policy j = Inr d"
  shows "(rd_envelope d \<noteq> None \<longleftrightarrow> rd_verdict d = REPLAY) \<and> (rd_rule d \<noteq> None \<longleftrightarrow> rd_verdict d = DECISION_REQUIRED)"
  using assms by (auto simp: decide_def decide_row_def decide_settled_def split: option.splits if_splits)

text \<open>Without a declared permission a step runs only when it was never dispatched or a human said so.\<close>

lemma execute_only_fresh_or_authorised:
  assumes "decide parse run_id step_id fingerprint policy j = Inr d" and "rd_verdict d = EXECUTE"
    and "\<not> reexecution_permitted policy"
  shows "case get_step run_id step_id j of None \<Rightarrow> True | Some row \<Rightarrow> ws_state row = ''rerun_authorized''"
  using assms by (auto simp: decide_def decide_row_def decide_settled_def split: option.splits if_splits)

text \<open>Every human decision resolves the halt it answers: after \<open>rerun\<close> the gate executes, and after
  \<open>skip\<close> it replays when the stored result is that of this call and readable.\<close>

lemma decision_resolves_halt:
  assumes "scheme_of (Some fingerprint) = V2" and "get_step run_id step_id j = Some row"
  shows "ws_state row = ''rerun_authorized'' \<Longrightarrow>
      decide parse run_id step_id fingerprint policy j = Inr execute_decision"
    and "ws_state row = ''replay_authorized'' \<Longrightarrow> ws_call_fingerprint row = Some fingerprint \<Longrightarrow>
      parse_envelope parse (ws_result_json row) = Some env \<Longrightarrow>
      decide parse run_id step_id fingerprint policy j
        = Inr \<lparr> rd_verdict = REPLAY, rd_envelope = Some env, rd_rule = None \<rparr>"
  using assms by (simp_all add: decide_def decide_row_def decide_settled_def)

end
