(* ===== verification/Workflow_Spec.thy ===== *)
theory Workflow_Spec
  imports Workflow_Journal
begin

text \<open>
  The declarative workflow grammar of \<open>models/workflow.py\<close> (the spec, its validator with every rule, the
  depth check of an output schema, the reserved constructs). JSON values are a datatype (numbers are
  integers); the meta-schema check of the JSON-Schema library is the argument \<open>wellformed\<close>; the YAML
  reader is not modelled. An error is a value that names the rule, not its message.
\<close>

section \<open>Specs\<close>

datatype input_type = T_String | T_Int | T_Bool | T_Path

datatype input_value = V_Str string | V_Int int | V_Bool bool

record input_decl =
  id_type :: input_type
  id_required :: bool
  id_default :: "input_value option"

datatype workflow_mode = Sequential | Parallel | Pipeline | Loop

datatype failure_policy = Halt | Continue

record workflow_step =
  wp_id :: string
  wp_provider :: string
  wp_agent :: string
  wp_prompt :: string
  wp_engine :: "string option"
  wp_output_schema :: "json option"
  wp_when :: "string option"
  wp_until :: "string option"
  wp_max_iterations :: "int option"
  wp_on_stall :: "string option"
  wp_on_no_progress :: "string option"
  wp_on_failure :: "failure_policy option"
  wp_retries :: "int option"

record workflow_spec =
  sp_name :: string
  sp_description :: string
  sp_mode :: workflow_mode
  sp_inputs :: "(string \<times> input_decl) list"
  sp_steps :: "workflow_step list"

definition is_loop :: "workflow_step \<Rightarrow> bool" where
  "is_loop s \<longleftrightarrow> wp_until s \<noteq> None \<or> wp_max_iterations s \<noteq> None \<or> wp_on_stall s \<noteq> None \<or> wp_on_no_progress s \<noteq> None"

text \<open>\<open>WORKFLOW_NAME_RE\<close>, \<open>^[A-Za-z0-9_-]{1,64}$\<close>, under \<open>fullmatch\<close> and under \<open>match\<close>. The dollar sign also
  matches before a line feed at the end, so \<open>match\<close> accepts one more text per name.\<close>

definition name_char :: "char \<Rightarrow> bool" where
  "name_char c \<longleftrightarrow> (let n = of_char c :: nat in
     (65 \<le> n \<and> n \<le> 90) \<or> (97 \<le> n \<and> n \<le> 122) \<or> (48 \<le> n \<and> n \<le> 57) \<or> c = CHR ''_'' \<or> c = CHR ''-'')"

definition name_fullmatch :: "string \<Rightarrow> bool" where
  "name_fullmatch s \<longleftrightarrow> 1 \<le> length s \<and> length s \<le> 64 \<and> list_all name_char s"

definition name_match :: "string \<Rightarrow> bool" where
  "name_match s \<longleftrightarrow> name_fullmatch s \<or> (s \<noteq> [] \<and> last s = CHR 0x0A \<and> name_fullmatch (butlast s))"

section \<open>The grammar\<close>

definition WORKFLOW_MAX_STEPS :: nat where "WORKFLOW_MAX_STEPS = 100"
definition WORKFLOW_MAX_INPUTS :: nat where "WORKFLOW_MAX_INPUTS = 64"
definition WORKFLOW_MAX_RETRIES :: int where "WORKFLOW_MAX_RETRIES = 10"
definition WORKFLOW_DEFAULT_STEP_RETRIES :: int where "WORKFLOW_DEFAULT_STEP_RETRIES = 3"
definition WORKFLOW_OUTPUT_SCHEMA_MAX_DEPTH :: int where "WORKFLOW_OUTPUT_SCHEMA_MAX_DEPTH = 8"

datatype schema_error = Too_Deep | Not_Wellformed

datatype grammar_error =
    Bad_Name string
  | Bad_Step_Id string
  | Duplicate_Step string
  | No_Steps
  | Too_Many_Steps nat
  | Too_Many_Inputs nat
  | Bad_Default string
  | Bad_Schema string schema_error
  | Bad_Retries string int
  | Missing_Guards string "string list"

definition default_matches_type :: "input_value \<Rightarrow> input_type \<Rightarrow> bool" where
  "default_matches_type value declared =
     (case declared of
        T_Bool \<Rightarrow> (case value of V_Bool _ \<Rightarrow> True | _ \<Rightarrow> False)
      | T_Int \<Rightarrow> (case value of V_Int _ \<Rightarrow> True | _ \<Rightarrow> False)
      | _ \<Rightarrow> (case value of V_Str _ \<Rightarrow> True | _ \<Rightarrow> False))"

fun max_of :: "int list \<Rightarrow> int" where
  "max_of [] = 0"
| "max_of [x] = x"
| "max_of (x # y # xs) = max x (max_of (y # xs))"

fun schema_depth :: "int option \<Rightarrow> int \<Rightarrow> json \<Rightarrow> int" where
  "schema_depth cap depth node =
     (if (case cap of None \<Rightarrow> False | Some c \<Rightarrow> c < depth) then depth
      else case node of
        JObj kvs \<Rightarrow>
          if kvs = [] then depth else max_of (map (\<lambda>kv. schema_depth cap (depth + 1) (snd kv)) kvs)
      | JArr vs \<Rightarrow> if vs = [] then depth else max_of (map (schema_depth cap (depth + 1)) vs)
      | _ \<Rightarrow> depth)"

declare schema_depth.simps [simp del]

definition check_output_schema :: "(json \<Rightarrow> bool) \<Rightarrow> json \<Rightarrow> schema_error option" where
  "check_output_schema wellformed schema =
     (if WORKFLOW_OUTPUT_SCHEMA_MAX_DEPTH < schema_depth (Some WORKFLOW_OUTPUT_SCHEMA_MAX_DEPTH) 1 schema
      then Some Too_Deep
      else if \<not> wellformed schema then Some Not_Wellformed
      else None)"

fun step_name_errors :: "string set \<Rightarrow> workflow_step list \<Rightarrow> grammar_error list" where
  "step_name_errors seen [] = []"
| "step_name_errors seen (s # steps) =
     (if name_fullmatch (wp_id s) then [] else [Bad_Step_Id (wp_id s)])
     @ (if wp_id s \<in> seen then [Duplicate_Step (wp_id s)] else [])
     @ step_name_errors (insert (wp_id s) seen) steps"

definition missing_guards :: "workflow_step \<Rightarrow> string list" where
  "missing_guards s =
     (if wp_max_iterations s = None then [''max_iterations''] else [])
     @ (if wp_on_stall s = None then [''on_stall''] else [])
     @ (if wp_on_no_progress s = None then [''on_no_progress''] else [])"

definition grammar_errors :: "(json \<Rightarrow> bool) \<Rightarrow> workflow_spec \<Rightarrow> grammar_error list" where
  "grammar_errors wellformed spec =
     (if name_fullmatch (sp_name spec) then [] else [Bad_Name (sp_name spec)])
     @ step_name_errors {} (sp_steps spec)
     @ (if length (sp_steps spec) < 1 then [No_Steps] else [])
     @ (if WORKFLOW_MAX_STEPS < length (sp_steps spec) then [Too_Many_Steps (length (sp_steps spec))] else [])
     @ (if WORKFLOW_MAX_INPUTS < length (sp_inputs spec) then [Too_Many_Inputs (length (sp_inputs spec))] else [])
     @ concat (map (\<lambda>(key, decl).
          case id_default decl of
            None \<Rightarrow> []
          | Some v \<Rightarrow> if default_matches_type v (id_type decl) then [] else [Bad_Default key]) (sp_inputs spec))
     @ concat (map (\<lambda>s.
          case wp_output_schema s of
            None \<Rightarrow> []
          | Some schema \<Rightarrow> (case check_output_schema wellformed schema of
                             None \<Rightarrow> [] | Some e \<Rightarrow> [Bad_Schema (wp_id s) e])) (sp_steps spec))
     @ concat (map (\<lambda>s.
          case wp_retries s of
            None \<Rightarrow> []
          | Some n \<Rightarrow> if 0 \<le> n \<and> n \<le> WORKFLOW_MAX_RETRIES then [] else [Bad_Retries (wp_id s) n]) (sp_steps spec))
     @ concat (map (\<lambda>s.
          if is_loop s \<and> missing_guards s \<noteq> [] then [Missing_Guards (wp_id s) (missing_guards s)] else [])
          (sp_steps spec))"

definition validate_grammar :: "(json \<Rightarrow> bool) \<Rightarrow> workflow_spec \<Rightarrow> grammar_error list + workflow_spec" where
  "validate_grammar wellformed spec =
     (let errors = grammar_errors wellformed spec in if errors \<noteq> [] then Inl errors else Inr spec)"

section \<open>Reserved constructs\<close>

definition TIER_REGISTRY :: "(string \<times> string) list" where
  "TIER_REGISTRY =
     [(''parallel'', ''N7''), (''pipeline'', ''N7''), (''loop'', ''N8''), (''until'', ''N8''),
      (''max_iterations'', ''N8''), (''on_stall'', ''N8''), (''on_no_progress'', ''N8''),
      (''when'', ''reserved''), (''rich_templating'', ''reserved'')]"

definition WORKFLOW_SHIPPED_UNITS :: "string list" where
  "WORKFLOW_SHIPPED_UNITS = []"

definition is_reserved :: "string \<Rightarrow> bool" where
  "is_reserved construct =
     (case map_of TIER_REGISTRY construct of
        None \<Rightarrow> False
      | Some unit \<Rightarrow> unit \<notin> set WORKFLOW_SHIPPED_UNITS)"

fun mode_value :: "workflow_mode \<Rightarrow> string" where
  "mode_value Sequential = ''sequential''"
| "mode_value Parallel = ''parallel''"
| "mode_value Pipeline = ''pipeline''"
| "mode_value Loop = ''loop''"

definition step_constructs :: "workflow_step \<Rightarrow> string list" where
  "step_constructs s =
     (if wp_when s \<noteq> None then [''when''] else [])
     @ (if wp_until s \<noteq> None then [''until''] else [])
     @ (if wp_max_iterations s \<noteq> None then [''max_iterations''] else [])
     @ (if wp_on_stall s \<noteq> None then [''on_stall''] else [])
     @ (if wp_on_no_progress s \<noteq> None then [''on_no_progress''] else [])"

definition add_new :: "string \<Rightarrow> string list \<Rightarrow> string list" where
  "add_new token used = (if token \<in> set used then used else used @ [token])"

definition constructs_used :: "workflow_spec \<Rightarrow> string list" where
  "constructs_used spec =
     fold add_new (concat (map step_constructs (sp_steps spec)))
       (if sp_mode spec \<noteq> Sequential then [mode_value (sp_mode spec)] else [])"

definition reserved_constructs :: "workflow_spec \<Rightarrow> string list" where
  "reserved_constructs spec = filter is_reserved (constructs_used spec)"

section \<open>What the validator accepts\<close>

definition grammatical :: "(json \<Rightarrow> bool) \<Rightarrow> workflow_spec \<Rightarrow> bool" where
  "grammatical wellformed spec \<longleftrightarrow>
     name_fullmatch (sp_name spec)
     \<and> (\<forall>s \<in> set (sp_steps spec). name_fullmatch (wp_id s)) \<and> distinct (map wp_id (sp_steps spec))
     \<and> 1 \<le> length (sp_steps spec) \<and> length (sp_steps spec) \<le> 100 \<and> length (sp_inputs spec) \<le> 64
     \<and> (\<forall>(key, decl) \<in> set (sp_inputs spec). \<forall>v. id_default decl = Some v \<longrightarrow> default_matches_type v (id_type decl))
     \<and> (\<forall>s \<in> set (sp_steps spec). \<forall>schema. wp_output_schema s = Some schema \<longrightarrow>
          wellformed schema \<and> schema_depth None 1 schema \<le> 8)
     \<and> (\<forall>s \<in> set (sp_steps spec). \<forall>n. wp_retries s = Some n \<longrightarrow> 0 \<le> n \<and> n \<le> 10)
     \<and> (\<forall>s \<in> set (sp_steps spec). is_loop s \<longrightarrow>
          wp_max_iterations s \<noteq> None \<and> wp_on_stall s \<noteq> None \<and> wp_on_no_progress s \<noteq> None)"

lemma max_of_ge: "x \<in> set xs \<Longrightarrow> x \<le> max_of xs"
  by (induction xs rule: max_of.induct) auto

lemma max_of_in: "xs \<noteq> [] \<Longrightarrow> max_of xs \<in> set xs"
  by (induction xs rule: max_of.induct) (auto simp: max_def)

lemma max_of_less_iff: "xs \<noteq> [] \<Longrightarrow> c < max_of xs \<longleftrightarrow> (\<exists>x \<in> set xs. c < x)"
  using max_of_ge max_of_in by (metis less_le_trans)

lemma schema_depth_ge: "depth \<le> schema_depth cap depth node"
proof (induction cap depth node rule: schema_depth.induct)
  case (1 cap depth node)
  show ?case
  proof (cases "(case cap of None \<Rightarrow> False | Some c \<Rightarrow> c < depth)")
    case False
    show ?thesis
    proof (cases node)
      case (JArr vs)
      show ?thesis
      proof (cases vs)
        case (Cons v vs')
        then have "depth + 1 \<le> schema_depth cap (depth + 1) v" using 1(1)[OF False JArr, of v] by simp
        also have "\<dots> \<le> max_of (map (schema_depth cap (depth + 1)) vs)" using Cons by (intro max_of_ge) simp
        finally show ?thesis using False JArr Cons by (subst schema_depth.simps) simp
      qed (use False JArr in \<open>subst schema_depth.simps, simp\<close>)
    next
      case (JObj kvs)
      show ?thesis
      proof (cases kvs)
        case (Cons kv kvs')
        then have "depth + 1 \<le> schema_depth cap (depth + 1) (snd kv)" using 1(2)[OF False JObj, of kv] by simp
        also have "\<dots> \<le> max_of (map (\<lambda>kv. schema_depth cap (depth + 1) (snd kv)) kvs)" using Cons by (intro max_of_ge) simp
        finally show ?thesis using False JObj Cons by (subst schema_depth.simps) simp
      qed (use False JObj in \<open>subst schema_depth.simps, simp\<close>)
    qed (use False in \<open>subst schema_depth.simps, simp\<close>)+
  qed (subst schema_depth.simps, simp)
qed

text \<open>The walk that gives up below the cap answers the question the full walk answers.\<close>

lemma schema_depth_cap: "c < schema_depth (Some c) depth node \<longleftrightarrow> c < schema_depth None depth node"
proof (induction "Some c" depth node rule: schema_depth.induct)
  case (1 depth node)
  show ?case
  proof (cases "c < depth")
    case True
    then show ?thesis using schema_depth_ge[of depth "Some c" node] schema_depth_ge[of depth None node] by simp
  next
    case False
    show ?thesis
    proof (cases node)
      case (JArr vs)
      show ?thesis
        by (subst (1 2) schema_depth.simps) (use False JArr 1(1) in \<open>auto simp: max_of_less_iff\<close>)
    next
      case (JObj kvs)
      show ?thesis
        by (subst (1 2) schema_depth.simps) (use False JObj 1(2) in \<open>auto simp: max_of_less_iff\<close>)
    qed (subst (1 2) schema_depth.simps, use False in simp)+
  qed
qed

lemma step_name_errors_Nil:
  "step_name_errors seen steps = [] \<longleftrightarrow>
     (\<forall>s \<in> set steps. name_fullmatch (wp_id s)) \<and> wp_id ` set steps \<inter> seen = {} \<and> distinct (map wp_id steps)"
  by (induction steps arbitrary: seen) auto

text \<open>What the engine relies on.\<close>

lemma accepted_distinct: "validate_grammar wellformed spec = Inr spec \<Longrightarrow> distinct (map wp_id (sp_steps spec))"
  by (simp add: validate_grammar_def grammar_errors_def step_name_errors_Nil Let_def split: if_splits)

lemma accepted_retries:
  "validate_grammar wellformed spec = Inr spec \<Longrightarrow> s \<in> set (sp_steps spec) \<Longrightarrow> wp_retries s = Some n \<Longrightarrow> 0 \<le> n \<and> n \<le> 10"
  by (fastforce simp: validate_grammar_def grammar_errors_def WORKFLOW_MAX_RETRIES_def Let_def split: if_splits option.splits)

text \<open>(C24) The validator accepts exactly the grammatical specs: valid and distinct names, the size caps, defaults
  of their declared type, well-formed schemas whose full nesting depth is within the cap (though the walk
  stops at the cap), retry budgets in range, and all three guards on every loop. Otherwise it reports at
  least one error.\<close>

theorem validate_grammar_exact:
  "validate_grammar wellformed spec = (if grammatical wellformed spec then Inr spec else Inl (grammar_errors wellformed spec))
   \<and> (grammatical wellformed spec \<longleftrightarrow> grammar_errors wellformed spec = [])"
proof -
  have schema: "check_output_schema wellformed schema = None \<longleftrightarrow> wellformed schema \<and> schema_depth None 1 schema \<le> 8" for schema
    using schema_depth_cap[of 8 1 schema] by (auto simp: check_output_schema_def WORKFLOW_OUTPUT_SCHEMA_MAX_DEPTH_def)
  have lists: "(if P then [] else [e]) = [] \<longleftrightarrow> P" "(if P then [e] else []) = [] \<longleftrightarrow> \<not> P"
    "concat (map f xs) = [] \<longleftrightarrow> (\<forall>x \<in> set xs. f x = [])" for P :: bool and e :: grammar_error and f :: "'a \<Rightarrow> 'b list" and xs
    by auto
  have default: "(case id_default decl of None \<Rightarrow> []
        | Some v \<Rightarrow> if default_matches_type v (id_type decl) then [] else [Bad_Default key]) = []
      \<longleftrightarrow> (\<forall>v. id_default decl = Some v \<longrightarrow> default_matches_type v (id_type decl))" for key decl
    by (simp split: option.splits)
  have schemas: "(case wp_output_schema s of None \<Rightarrow> []
        | Some schema \<Rightarrow> (case check_output_schema wellformed schema of None \<Rightarrow> [] | Some e \<Rightarrow> [Bad_Schema (wp_id s) e])) = []
      \<longleftrightarrow> (\<forall>schema. wp_output_schema s = Some schema \<longrightarrow> wellformed schema \<and> schema_depth None 1 schema \<le> 8)" for s
    unfolding schema[symmetric] by (simp split: option.splits)
  have retries: "(case wp_retries s of None \<Rightarrow> []
        | Some n \<Rightarrow> if 0 \<le> n \<and> n \<le> WORKFLOW_MAX_RETRIES then [] else [Bad_Retries (wp_id s) n]) = []
      \<longleftrightarrow> (\<forall>n. wp_retries s = Some n \<longrightarrow> 0 \<le> n \<and> n \<le> 10)" for s
    by (simp add: WORKFLOW_MAX_RETRIES_def split: option.splits)
  have guards: "is_loop s \<and> missing_guards s \<noteq> [] \<longleftrightarrow> \<not> (is_loop s \<longrightarrow>
      wp_max_iterations s \<noteq> None \<and> wp_on_stall s \<noteq> None \<and> wp_on_no_progress s \<noteq> None)" for s
    by (auto simp: missing_guards_def)
  have "grammar_errors wellformed spec = [] \<longleftrightarrow> grammatical wellformed spec"
    unfolding grammar_errors_def grammatical_def append_is_Nil_conv step_name_errors_Nil lists case_prod_beta
      default schemas retries guards WORKFLOW_MAX_STEPS_def WORKFLOW_MAX_INPUTS_def
    by (simp add: not_less Suc_le_eq conj_ac)
  then show ?thesis by (simp add: validate_grammar_def Let_def)
qed

text \<open>The key check of the run surfaces uses \<open>match\<close> where the grammar uses \<open>fullmatch\<close>.\<close>

lemma name_match_accepts_line_feed: "name_match ''r1\<newline>'' \<and> \<not> name_fullmatch ''r1\<newline>''"
  by code_simp

end
