(* ===== verification/Workflow_Order.thy ===== *)
theory Workflow_Order
  imports Workflow_Spec
begin

text \<open>
  The sequencing order of a workflow, \<open>_topological_order\<close> in \<open>services/workflow_service.py\<close>: a depth-first
  search with marks over the needs of the steps, its termination and its correctness.
\<close>

section \<open>The sequencing order\<close>

datatype mark = Visiting | Done

type_synonym topo = "(string \<Rightarrow> mark option) \<times> string list"

text \<open>\<open>_visit\<close> with fuel for its recursion; \<open>None\<close> is running out of it.\<close>

fun visit :: "nat \<Rightarrow> (string \<Rightarrow> string list) \<Rightarrow> string list \<Rightarrow> string \<Rightarrow> topo \<Rightarrow> (workflow_error + topo) option"
and visit_deps ::
  "nat \<Rightarrow> (string \<Rightarrow> string list) \<Rightarrow> string list \<Rightarrow> string list \<Rightarrow> topo \<Rightarrow> (workflow_error + topo) option"
where
  "visit 0 deps known sid st = None"
| "visit (Suc n) deps known sid (visited, order) =
     (case visited sid of
        Some Done \<Rightarrow> Some (Inr (visited, order))
      | Some Visiting \<Rightarrow> Some (Inl WF_ValueError)
      | None \<Rightarrow>
          (case visit_deps n deps known (deps sid) (visited(sid \<mapsto> Visiting), order) of
             None \<Rightarrow> None
           | Some (Inl e) \<Rightarrow> Some (Inl e)
           | Some (Inr (visited', order')) \<Rightarrow> Some (Inr (visited'(sid \<mapsto> Done), order' @ [sid]))))"
| "visit_deps n deps known [] st = Some (Inr st)"
| "visit_deps n deps known (d # ds) st =
     (if d \<notin> set known then Some (Inl WF_ValueError)
      else case visit n deps known d st of
        None \<Rightarrow> None
      | Some (Inl e) \<Rightarrow> Some (Inl e)
      | Some (Inr st') \<Rightarrow> visit_deps n deps known ds st')"

fun decl_index :: "string list \<Rightarrow> string \<Rightarrow> nat" where
  "decl_index [] d = 0"
| "decl_index (s # ids) d = (if d \<in> set ids then Suc (decl_index ids d) else 0)"

definition sorted_needs :: "(workflow_step \<Rightarrow> string list) \<Rightarrow> workflow_step list \<Rightarrow> string \<Rightarrow> string list" where
  "sorted_needs needs steps sid =
     (case find (\<lambda>s. wp_id s = sid) (rev steps) of
        None \<Rightarrow> []
      | Some s \<Rightarrow> sort_key (decl_index (map wp_id steps)) (needs s))"

text \<open>The step model has no \<open>needs\<close> field yet and the code reads it with \<open>getattr\<close>: the argument \<open>needs\<close>.
  The fuel is one more than the number of steps.\<close>

definition topological_order ::
  "(workflow_step \<Rightarrow> string list) \<Rightarrow> workflow_spec \<Rightarrow> (workflow_error + workflow_step list) option"
where
  "topological_order needs spec =
     (let steps = sp_steps spec; ids = map wp_id steps in
      (case visit_deps (Suc (length ids)) (sorted_needs needs steps) ids ids (Map.empty, []) of
         None \<Rightarrow> None
       | Some (Inl e) \<Rightarrow> Some (Inl e)
       | Some (Inr (_, order)) \<Rightarrow>
           Some (Inr (map (\<lambda>sid. the (find (\<lambda>s. wp_id s = sid) (rev steps))) order))))"

section \<open>What the search keeps\<close>

definition edges :: "(string \<Rightarrow> string list) \<Rightarrow> string list \<Rightarrow> (string \<times> string) set" where
  "edges deps known = {(s, d). s \<in> set known \<and> d \<in> set (deps s)}"

text \<open>Every step of an order comes after all it needs.\<close>

fun ordered :: "(string \<Rightarrow> string list) \<Rightarrow> string set \<Rightarrow> string list \<Rightarrow> bool" where
  "ordered deps before [] \<longleftrightarrow> True"
| "ordered deps before (s # ss) \<longleftrightarrow> set (deps s) \<subseteq> before \<and> ordered deps (insert s before) ss"

lemma ordered_append:
  "ordered deps before (xs @ ys) \<longleftrightarrow> ordered deps before xs \<and> ordered deps (before \<union> set xs) ys"
  by (induction xs arbitrary: before) auto

definition search_ok :: "(string \<Rightarrow> string list) \<Rightarrow> string list \<Rightarrow> topo \<Rightarrow> bool" where
  "search_ok deps known st \<longleftrightarrow>
     (case st of (visited, order) \<Rightarrow>
        dom visited \<subseteq> set known \<and> set order = {s. visited s = Some Done} \<and> distinct order
        \<and> ordered deps {} order)"

text \<open>A call leaves the open marks as they were and only adds finished ones.\<close>

definition grows :: "topo \<Rightarrow> topo \<Rightarrow> bool" where
  "grows st st' \<longleftrightarrow>
     (\<forall>s. fst st' s = Some Visiting \<longleftrightarrow> fst st s = Some Visiting)
     \<and> (\<forall>s. fst st s = Some Done \<longrightarrow> fst st' s = Some Done)"

definition bad_needs :: "(string \<Rightarrow> string list) \<Rightarrow> string list \<Rightarrow> bool" where
  "bad_needs deps known \<longleftrightarrow>
     (\<exists>s \<in> set known. \<not> set (deps s) \<subseteq> set known) \<or> \<not> acyclic (edges deps known)"

definition unmarked :: "string list \<Rightarrow> topo \<Rightarrow> nat" where
  "unmarked known st = card {s \<in> set known. fst st s = None}"

lemma unmarked_mark:
  assumes "visited s = None" and "s \<in> set known"
  shows "Suc (unmarked known (visited(s \<mapsto> m), order)) = unmarked known (visited, order')"
proof -
  have "{x \<in> set known. visited x = None} = insert s {x \<in> set known. (visited(s \<mapsto> m)) x = None}" using assms by auto
  then show ?thesis by (simp add: unmarked_def)
qed

lemma unmarked_grows: "grows st st' \<Longrightarrow> unmarked known st' \<le> unmarked known st"
  unfolding unmarked_def
proof (rule card_mono)
  assume "grows st st'"
  show "{s \<in> set known. fst st' s = None} \<subseteq> {s \<in> set known. fst st s = None}"
  proof clarsimp
    fix s assume "fst st' s = None"
    then show "fst st s = None" using \<open>grows st st'\<close> by (cases "fst st s") (auto simp: grows_def split: mark.splits, metis mark.exhaust option.distinct(1))
  qed
qed simp

lemma grows_refl [simp]: "grows st st" by (simp add: grows_def)

lemma grows_trans: "grows st st' \<Longrightarrow> grows st' st'' \<Longrightarrow> grows st st''" by (simp add: grows_def)

text \<open>What a search from a step, or over a list of needs, promises: with enough fuel it ends; it fails only
  when the needs are bad; and otherwise everything it was asked for is finished.\<close>

definition ends_well ::
  "(string \<Rightarrow> string list) \<Rightarrow> string list \<Rightarrow> topo \<Rightarrow> string set \<Rightarrow> (workflow_error + topo) option \<Rightarrow> bool"
where
  "ends_well deps known st wanted r \<longleftrightarrow>
     (case r of
        None \<Rightarrow> False
      | Some (Inl e) \<Rightarrow> bad_needs deps known
      | Some (Inr st') \<Rightarrow> search_ok deps known st' \<and> grows st st' \<and> (\<forall>s \<in> wanted. fst st' s = Some Done))"

abbreviation leads_to :: "(string \<Rightarrow> string list) \<Rightarrow> string list \<Rightarrow> topo \<Rightarrow> string \<Rightarrow> bool" where
  "leads_to deps known st sid \<equiv> \<forall>v. fst st v = Some Visiting \<longrightarrow> (v, sid) \<in> (edges deps known)\<^sup>+"

lemma visit_ends_well:
  "search_ok deps known st \<Longrightarrow> sid \<in> set known \<Longrightarrow> leads_to deps known st sid \<Longrightarrow> unmarked known st < n \<Longrightarrow>
     ends_well deps known st {sid} (visit n deps known sid st)"
  "search_ok deps known st \<Longrightarrow> (\<And>d. d \<in> set ds \<Longrightarrow> leads_to deps known st d) \<Longrightarrow>
     (\<not> set ds \<subseteq> set known \<Longrightarrow> bad_needs deps known) \<Longrightarrow> unmarked known st < n \<Longrightarrow>
     ends_well deps known st (set ds) (visit_deps n deps known ds st)"
proof (induction n deps known sid st and n deps known ds st rule: visit_visit_deps.induct)
  case (2 n deps known sid visited order)
  show ?case
  proof (cases "visited sid")
    case None
    let ?st = "(visited(sid \<mapsto> Visiting), order)"
    have u: "unmarked known ?st < n"
      using unmarked_mark[where m = Visiting and order = order and order' = order and visited = visited and s = sid and known = known] None 2(3) 2(5) by simp
    have ok: "search_ok deps known ?st" using 2(2,3) None by (auto simp: search_ok_def)
    have lead: "leads_to deps known ?st d" if "d \<in> set (deps sid)" for d
    proof -
      have e: "(sid, d) \<in> edges deps known" using that 2(3) by (simp add: edges_def)
      then show ?thesis using 2(4) by (auto intro: trancl.intros(2))
    qed
    have "ends_well deps known ?st (set (deps sid)) (visit_deps n deps known (deps sid) ?st)"
      using 2(1)[OF None ok lead _ u] 2(3) by (auto simp: bad_needs_def)
    then show ?thesis
    proof (cases "visit_deps n deps known (deps sid) ?st")
      case (Some r)
      then show ?thesis
      proof (cases r)
        case (Inr st')
        obtain visited' order' where st': "st' = (visited', order')" by fastforce
        have post: "search_ok deps known (visited', order')" "grows ?st (visited', order')"
          "\<forall>s \<in> set (deps sid). visited' s = Some Done"
          using \<open>ends_well _ _ ?st _ _\<close> Some Inr st' by (simp_all add: ends_well_def)
        have open_mark: "visited' sid = Some Visiting" using post(2) by (simp add: grows_def)
        have "search_ok deps known (visited'(sid \<mapsto> Done), order' @ [sid])"
          using post(1,3) open_mark 2(3) by (auto simp: search_ok_def ordered_append)
        moreover have "grows (visited, order) (visited'(sid \<mapsto> Done), order' @ [sid])"
          using post(2) None by (auto simp: grows_def)
        ultimately show ?thesis using Some Inr st' None by (simp add: ends_well_def)
      qed (use None \<open>ends_well _ _ ?st _ _\<close> in \<open>simp add: ends_well_def\<close>)
    qed (simp add: ends_well_def)
  next
    case (Some m)
    then show ?thesis
      using 2(2,4) by (cases m) (auto simp: ends_well_def bad_needs_def acyclic_def)
  qed
next
  case (4 n deps known d ds st)
  show ?case
  proof (cases "d \<in> set known")
    case True
    have first: "ends_well deps known st {d} (visit n deps known d st)"
      using 4(1)[OF _ 4(3) True _ 4(6)] 4(4) True by simp
    show ?thesis
    proof (cases "visit n deps known d st")
      case (Some r)
      then show ?thesis
      proof (cases r)
        case (Inr st')
        have post: "search_ok deps known st'" "grows st st'" "fst st' d = Some Done"
          using first Some Inr by (simp_all add: ends_well_def)
        have "ends_well deps known st' (set ds) (visit_deps n deps known ds st')"
        proof (rule 4(2))
          show "leads_to deps known st' x" if "x \<in> set ds" for x
            using 4(4)[of x] that post(2) by (simp add: grows_def)
          show "unmarked known st' < n" using unmarked_grows[OF post(2), of known] 4(6) by simp
        qed (use True Some Inr post 4(5) in auto)
        then show ?thesis
          using True Some Inr post(2,3) grows_trans
          by (auto simp: ends_well_def grows_def split: option.splits sum.splits)
      qed (use first True in \<open>simp add: ends_well_def\<close>)
    qed (use first in \<open>simp add: ends_well_def\<close>)
  qed (use 4(5) in \<open>simp add: ends_well_def\<close>)
qed (simp_all add: ends_well_def)

section \<open>The order is right, and there is one whenever there can be\<close>

lemma topological_search:
  "ends_well (sorted_needs needs (sp_steps spec)) (map wp_id (sp_steps spec)) (Map.empty, []) (set (map wp_id (sp_steps spec)))
     (visit_deps (Suc (length (map wp_id (sp_steps spec)))) (sorted_needs needs (sp_steps spec)) (map wp_id (sp_steps spec))
        (map wp_id (sp_steps spec)) (Map.empty, []))"
proof (rule visit_ends_well(2))
  show "unmarked (map wp_id (sp_steps spec)) (Map.empty, []) < Suc (length (map wp_id (sp_steps spec)))"
    using card_length[of "map wp_id (sp_steps spec)"] by (simp add: unmarked_def)
qed (simp_all add: search_ok_def)

text \<open>(C22) Sequencing always ends. Whatever the needs of the steps are, cyclic or unknown ones included, one unit of
  fuel more than there are steps is enough for the depth-first search: it returns an order or an error.\<close>

theorem topological_order_terminates: "topological_order needs spec \<noteq> None"
  using topological_search[of needs spec]
  by (auto simp: topological_order_def ends_well_def Let_def split: option.splits sum.splits)

definition needs_ok :: "(workflow_step \<Rightarrow> string list) \<Rightarrow> workflow_step list \<Rightarrow> bool" where
  "needs_ok needs steps \<longleftrightarrow>
     (\<forall>s \<in> set steps. set (needs s) \<subseteq> wp_id ` set steps)
     \<and> acyclic {(x, d). \<exists>s \<in> set steps. x = wp_id s \<and> d \<in> set (needs s)}"

definition after_needs :: "(workflow_step \<Rightarrow> string list) \<Rightarrow> workflow_step list \<Rightarrow> bool" where
  "after_needs needs order \<longleftrightarrow> (\<forall>xs s ys. order = xs @ s # ys \<longrightarrow> set (needs s) \<subseteq> wp_id ` set xs)"

lemma takeWhile_shorter: "x \<in> set xs \<Longrightarrow> \<not> P x \<Longrightarrow> length (takeWhile P xs) < length xs"
  by (induction xs) auto

lemma ordered_acyclic:
  assumes "ordered deps {} order" and "distinct order"
  shows "acyclic (edges deps order)"
proof -
  let ?pos = "\<lambda>x. length (takeWhile (\<lambda>y. y \<noteq> x) order)"
  have "?pos d < ?pos s" if s: "s \<in> set order" and d: "d \<in> set (deps s)" for s d
  proof -
    obtain xs ys where o: "order = xs @ s # ys" using s by (meson split_list)
    then have dx: "d \<in> set xs" using assms(1) d by (auto simp: ordered_append)
    have "s \<notin> set xs" using assms(2) o by simp
    then have "takeWhile (\<lambda>y. y \<noteq> s) order = xs" unfolding o by (subst takeWhile_append2) auto
    moreover have "takeWhile (\<lambda>y. y \<noteq> d) order = takeWhile (\<lambda>y. y \<noteq> d) xs" unfolding o using dx by simp
    ultimately show ?thesis using dx takeWhile_shorter[of d xs "\<lambda>y. y \<noteq> d"] by auto
  qed
  then have "(edges deps order)\<inverse> \<subseteq> inv_image less_than ?pos" by (auto simp: edges_def)
  then have "wf ((edges deps order)\<inverse>)" using wf_subset wf_inv_image[OF wf_less_than] by blast
  then show ?thesis using wf_acyclic acyclic_converse by blast
qed

lemma ordered_split:
  "ordered deps {} order \<Longrightarrow> order = xs @ s # ys \<Longrightarrow> set (deps s) \<subseteq> set xs"
  by (auto simp: ordered_append)

lemma find_key:
  assumes "distinct (map key xs)" and "x \<in> set xs"
  shows "find (\<lambda>y. key y = key x) (rev xs) = Some x"
  using fetchone_key[of key "rev xs" x] assms by (simp add: fetchone_def rev_map[symmetric])

lemma set_sorted_needs:
  assumes "distinct (map wp_id steps)" and "s \<in> set steps"
  shows "set (sorted_needs needs steps (wp_id s)) = set (needs s)"
  using find_key[OF assms] by (simp add: sorted_needs_def)

lemma bad_needs_iff:
  assumes "distinct (map wp_id steps)"
  shows "bad_needs (sorted_needs needs steps) (map wp_id steps) \<longleftrightarrow> \<not> needs_ok needs steps"
proof -
  have "edges (sorted_needs needs steps) (map wp_id steps) = {(x, d). \<exists>s \<in> set steps. x = wp_id s \<and> d \<in> set (needs s)}"
    using set_sorted_needs[OF assms] by (auto simp: edges_def)
  then show ?thesis using set_sorted_needs[OF assms] by (auto simp: bad_needs_def needs_ok_def)
qed

text \<open>From a finished search, mapped back to the steps.\<close>

lemma search_lists:
  fixes steps defines "step_of \<equiv> \<lambda>sid. the (find (\<lambda>s. wp_id s = sid) (rev steps))"
  assumes "distinct (map wp_id steps)" and "ordered (sorted_needs needs steps) {} order" and "distinct order"
    and "set order = set (map wp_id steps)"
  shows "needs_ok needs steps \<and> distinct (map step_of order) \<and> set (map step_of order) = set steps
    \<and> after_needs needs (map step_of order)"
proof -
  let ?ids = "map wp_id steps" and ?deps = "sorted_needs needs steps"
  have step_back: "step_of (wp_id s) = s" if "s \<in> set steps" for s using find_key[OF assms(2) that] by (simp add: step_of_def)
  have ids: "map wp_id (map step_of order) = order"
    using assms(5) step_back by (auto intro!: map_idI)
  have set_order: "set (map step_of order) = set steps"
    using assms(5) step_back by (force simp: image_iff)
  have "edges ?deps order = edges ?deps ?ids" using assms(5) by (simp add: edges_def)
  then have "acyclic (edges ?deps ?ids)" using ordered_acyclic[OF assms(3,4)] by simp
  moreover have "set (?deps s) \<subseteq> set ?ids" if "s \<in> set ?ids" for s
  proof -
    have "s \<in> set order" using that assms(5) by simp
    then obtain xs ys where o: "order = xs @ s # ys" by (meson split_list)
    then have "set xs \<subseteq> set order" by auto
    then show ?thesis using ordered_split[OF assms(3) o] unfolding assms(5) by (rule subset_trans[rotated])
  qed
  ultimately have "\<not> bad_needs ?deps ?ids" unfolding bad_needs_def by blast
  then have "needs_ok needs steps" using bad_needs_iff[OF assms(2), of needs] by simp
  moreover have "after_needs needs (map step_of order)"
    unfolding after_needs_def
  proof (intro allI impI)
    fix xs s ys assume o: "map step_of order = xs @ s # ys"
    then have "order = map wp_id xs @ wp_id s # map wp_id ys" using ids by (metis list.simps(9) map_append)
    from ordered_split[OF assms(3) this] have "set (?deps (wp_id s)) \<subseteq> wp_id ` set xs" by simp
    moreover have "s \<in> set steps" using set_order o by (metis in_set_conv_decomp)
    ultimately show "set (needs s) \<subseteq> wp_id ` set xs" using set_sorted_needs[OF assms(2)] by simp
  qed
  moreover have "distinct (map step_of order)" using ids assms(4) by (metis distinct_map)
  ultimately show ?thesis using set_order by simp
qed

text \<open>(C15) The order is right, and there is one exactly when there can be. For a spec with distinct step ids, an
  order is returned if and only if every need is a step of the spec and the needs have no cycle; the order
  then lists every step exactly once, each after all it needs. Otherwise the answer is an error.\<close>

theorem topological_order_exact:
  assumes "distinct (map wp_id (sp_steps spec))"
  shows "case topological_order needs spec of
      None \<Rightarrow> False
    | Some (Inl e) \<Rightarrow> \<not> needs_ok needs (sp_steps spec)
    | Some (Inr order) \<Rightarrow> needs_ok needs (sp_steps spec) \<and> distinct order \<and> set order = set (sp_steps spec)
        \<and> after_needs needs order"
proof -
  let ?steps = "sp_steps spec" and ?ids = "map wp_id (sp_steps spec)"
  let ?deps = "sorted_needs needs ?steps" and ?step = "\<lambda>sid. the (find (\<lambda>s. wp_id s = sid) (rev ?steps))"
  let ?r = "visit_deps (Suc (length ?ids)) ?deps ?ids ?ids (Map.empty, [])"
  have ends: "ends_well ?deps ?ids (Map.empty, []) (set ?ids) ?r" by (rule topological_search)
  have step_back: "?step (wp_id s) = s" if "s \<in> set ?steps" for s using find_key[OF assms that] by simp
  show ?thesis
  proof (cases ?r)
    case (Some res)
    show ?thesis
    proof (cases res)
      case (Inl e)
      then show ?thesis using ends Some bad_needs_iff[OF assms, of needs]
        by (simp add: topological_order_def ends_well_def Let_def)
    next
      case (Inr st)
      obtain visited order where st: "st = (visited, order)" by fastforce
      have "search_ok ?deps ?ids (visited, order)" "\<forall>s \<in> set ?ids. visited s = Some Done"
        using ends Some Inr st by (simp_all add: ends_well_def)
      then have ord: "ordered ?deps {} order" "distinct order" "set order = set ?ids"
        by (auto simp: search_ok_def dom_def)
      note lists = search_lists[OF assms ord]
      show ?thesis using Some Inr st lists by (simp add: topological_order_def Let_def)
    qed
  qed (use ends in \<open>simp add: ends_well_def\<close>)
qed

text \<open>With the grammar as it is, where a step has no needs, the order is the declaration order.\<close>

lemma visit_no_needs:
  "distinct ids \<Longrightarrow> set ids \<subseteq> set known \<Longrightarrow> \<forall>s \<in> set ids. visited s = None \<Longrightarrow>
    visit_deps (Suc (Suc n)) (\<lambda>_. []) known ids (visited, order)
      = Some (Inr (\<lambda>s. if s \<in> set ids then Some Done else visited s, order @ ids))"
proof (induction ids arbitrary: visited order)
  case (Cons s ids)
  have "visit (Suc (Suc n)) (\<lambda>_. []) known s (visited, order) = Some (Inr (visited(s \<mapsto> Done), order @ [s]))"
    using Cons.prems by simp
  moreover have "visit_deps (Suc (Suc n)) (\<lambda>_. []) known ids (visited(s \<mapsto> Done), order @ [s])
      = Some (Inr (\<lambda>x. if x \<in> set ids then Some Done else (visited(s \<mapsto> Done)) x, (order @ [s]) @ ids))"
    using Cons.prems by (intro Cons.IH) auto
  moreover have "(\<lambda>x. if x \<in> set ids then Some Done else (visited(s \<mapsto> Done)) x)
      = (\<lambda>x. if x \<in> set (s # ids) then Some Done else visited x)"
    by (auto simp: fun_eq_iff)
  ultimately show ?case using Cons.prems by simp
qed simp

lemma declaration_order:
  assumes "distinct (map wp_id (sp_steps spec))"
  shows "topological_order (\<lambda>_. []) spec = Some (Inr (sp_steps spec))"
proof (cases "sp_steps spec")
  case (Cons s steps)
  let ?ids = "map wp_id (sp_steps spec)"
  have deps: "sorted_needs (\<lambda>_. []) (sp_steps spec) = (\<lambda>_. [])" by (auto simp: sorted_needs_def fun_eq_iff split: option.splits)
  have "visit_deps (Suc (Suc (length steps))) (\<lambda>_. []) ?ids ?ids (Map.empty, [])
      = Some (Inr (\<lambda>s. if s \<in> set ?ids then Some Done else None, [] @ ?ids))"
    using assms by (intro visit_no_needs) auto
  moreover have "map (\<lambda>sid. the (find (\<lambda>s. wp_id s = sid) (rev (sp_steps spec)))) ?ids = sp_steps spec"
    using find_key[OF assms(1)] by (simp add: map_idI)
  moreover have "Suc (length ?ids) = Suc (Suc (length steps))" using Cons by simp
  ultimately show ?thesis unfolding topological_order_def deps Let_def by simp
qed (simp add: topological_order_def)

definition ex_step :: "string \<Rightarrow> workflow_step" where
  "ex_step sid = \<lparr> wp_id = sid, wp_provider = ''codex'', wp_agent = ''dev'', wp_prompt = ''go'', wp_engine = None,
     wp_output_schema = None, wp_when = None, wp_until = None, wp_max_iterations = None, wp_on_stall = None,
     wp_on_no_progress = None, wp_on_failure = None, wp_retries = None \<rparr>"

definition ex_spec :: "string list \<Rightarrow> workflow_spec" where
  "ex_spec ids = \<lparr> sp_name = ''wf'', sp_description = [], sp_mode = Sequential, sp_inputs = [], sp_steps = map ex_step ids \<rparr>"

definition ex_needs :: "workflow_step \<Rightarrow> string list" where
  "ex_needs s = (if wp_id s = ''a'' then [''c''] else if wp_id s = ''c'' then [''b''] else [])"

theorem topological_order_exact_witness:
  "needs_ok ex_needs (sp_steps (ex_spec [''a'', ''b'', ''c'']))
   \<and> topological_order ex_needs (ex_spec [''a'', ''b'', ''c'']) = Some (Inr (map ex_step [''b'', ''c'', ''a'']))"
proof -
  have r: "topological_order ex_needs (ex_spec [''a'', ''b'', ''c'']) = Some (Inr (map ex_step [''b'', ''c'', ''a'']))"
    by code_simp
  have "distinct (map wp_id (sp_steps (ex_spec [''a'', ''b'', ''c''])))" by code_simp
  from topological_order_exact[OF this, of ex_needs] r show ?thesis by simp
qed

end
