(* ===== verification/Workflow_Values.thy ===== *)
theory Workflow_Values
  imports Workflow_Order
begin

text \<open>
  What flows between the steps of a workflow: the inputs of a run and their validation, the prompt
  templates (\<open>services/workflow_service.py\<close>) and the store of the structured outputs
  (\<open>services/step_output_store.py\<close>, \<open>models/workflow_runtime.py\<close>). The path validator of the terminal client
  and the JSON-Schema validator are arguments; a message of an error is not modelled.
\<close>

section \<open>Python's rendering of a value\<close>

definition hex_digit :: "nat \<Rightarrow> char" where
  "hex_digit n = (if n < 10 then char_of (48 + n) else char_of (87 + n))"

definition repr_char :: "char \<Rightarrow> char \<Rightarrow> string" where
  "repr_char quote c = (let n = of_char c :: nat in
     (if c = quote \<or> n = 92 then [char_of (92 :: nat), c]
      else if n = 10 then [char_of (92 :: nat), CHR ''n'']
      else if n = 13 then [char_of (92 :: nat), CHR ''r'']
      else if n = 9 then [char_of (92 :: nat), CHR ''t'']
      else if n < 32 \<or> (127 \<le> n \<and> n \<le> 160) \<or> n = 173
        then [char_of (92 :: nat), CHR ''x'', hex_digit (n div 16), hex_digit (n mod 16)]
      else [c]))"

definition repr_str :: "string \<Rightarrow> string" where
  "repr_str s =
     (let quote = (if char_of (39 :: nat) \<in> set s \<and> char_of (34 :: nat) \<notin> set s
                   then char_of (34 :: nat) else char_of (39 :: nat))
      in [quote] @ concat (map (repr_char quote) s) @ [quote])"

fun py_repr :: "json \<Rightarrow> string" where
  "py_repr JNull = ''None''"
| "py_repr (JBool b) = (if b then ''True'' else ''False'')"
| "py_repr (JInt n) = py_str n"
| "py_repr (JStr s) = repr_str s"
| "py_repr (JArr vs) = ''['' @ py_join '', '' (map py_repr vs) @ '']''"
| "py_repr (JObj kvs) = ''{'' @ py_join '', '' (map (\<lambda>kv. repr_str (fst kv) @ '': '' @ py_repr (snd kv)) kvs) @ ''}''"

definition str_of :: "json \<Rightarrow> string" where
  "str_of v = (case v of JStr s \<Rightarrow> s | _ \<Rightarrow> py_repr v)"

section \<open>Inputs\<close>

fun value_json :: "input_value \<Rightarrow> json" where
  "value_json (V_Str s) = JStr s"
| "value_json (V_Int n) = JInt n"
| "value_json (V_Bool b) = JBool b"

definition typed_value :: "(string \<Rightarrow> workflow_error + string) \<Rightarrow> input_type \<Rightarrow> json \<Rightarrow> workflow_error + json" where
  "typed_value resolve_path declared value =
     (case declared of
        T_Bool \<Rightarrow> (case value of JBool _ \<Rightarrow> Inr value | _ \<Rightarrow> Inl WF_ValueError)
      | T_Int \<Rightarrow> (case value of JInt _ \<Rightarrow> Inr value | _ \<Rightarrow> Inl WF_ValueError)
      | T_String \<Rightarrow> (case value of JStr _ \<Rightarrow> Inr value | _ \<Rightarrow> Inl WF_ValueError)
      | T_Path \<Rightarrow> (case value of
                    JStr s \<Rightarrow> (case resolve_path s of Inl e \<Rightarrow> Inl e | Inr path \<Rightarrow> Inr (JStr path))
                  | _ \<Rightarrow> Inl WF_ValueError))"

text \<open>The value an input takes: the given one, the default, or none for an optional input.\<close>

definition chosen_value :: "(string \<times> json) list \<Rightarrow> string \<Rightarrow> input_decl \<Rightarrow> workflow_error + json option" where
  "chosen_value inputs name decl =
     (case map_of inputs name of
        Some v \<Rightarrow> Inr (Some v)
      | None \<Rightarrow>
          (case id_default decl of
             Some v \<Rightarrow> Inr (Some (value_json v))
           | None \<Rightarrow> if id_required decl then Inl WF_ValueError else Inr None))"

fun resolve_inputs ::
  "(string \<Rightarrow> workflow_error + string) \<Rightarrow> (string \<times> json) list \<Rightarrow> (string \<times> input_decl) list
     \<Rightarrow> workflow_error + (string \<times> json) list"
where
  "resolve_inputs resolve_path inputs [] = Inr []"
| "resolve_inputs resolve_path inputs ((name, decl) # decls) =
     (case chosen_value inputs name decl of
        Inl e \<Rightarrow> Inl e
      | Inr None \<Rightarrow> resolve_inputs resolve_path inputs decls
      | Inr (Some v) \<Rightarrow>
          (case typed_value resolve_path (id_type decl) v of
             Inl e \<Rightarrow> Inl e
           | Inr v' \<Rightarrow>
               (case resolve_inputs resolve_path inputs decls of
                  Inl e \<Rightarrow> Inl e
                | Inr resolved \<Rightarrow> Inr ((name, v') # resolved))))"

definition validate_inputs ::
  "(string \<Rightarrow> workflow_error + string) \<Rightarrow> (string \<times> input_decl) list \<Rightarrow> (string \<times> json) list
     \<Rightarrow> workflow_error + (string \<times> json) list"
where
  "validate_inputs resolve_path decls inputs =
     (case resolve_inputs resolve_path inputs decls of
        Inl e \<Rightarrow> Inl e
      | Inr resolved \<Rightarrow>
          if \<exists>name \<in> fst ` set inputs. name \<notin> fst ` set decls then Inl WF_ValueError else Inr resolved)"

fun has_type :: "input_type \<Rightarrow> json \<Rightarrow> bool" where
  "has_type T_Bool (JBool _) = True"
| "has_type T_Int (JInt _) = True"
| "has_type T_String (JStr _) = True"
| "has_type T_Path (JStr _) = True"
| "has_type _ _ = False"

lemma typed_value_has_type: "typed_value resolve_path t v = Inr v' \<Longrightarrow> has_type t v' \<and> has_type t v"
  by (cases t; cases v) (auto simp: typed_value_def split: sum.splits)

lemma resolve_inputs_typed:
  "resolve_inputs resolve_path inputs decls = Inr resolved \<Longrightarrow>
     \<forall>(name, v) \<in> set resolved. \<exists>decl. (name, decl) \<in> set decls \<and> has_type (id_type decl) v
       \<and> (\<exists>v0. chosen_value inputs name decl = Inr (Some v0) \<and> typed_value resolve_path (id_type decl) v0 = Inr v)"
  by (induction resolve_path inputs decls arbitrary: resolved rule: resolve_inputs.induct)
    (fastforce split: sum.splits option.splits dest: typed_value_has_type)+

lemma resolve_inputs_names:
  "resolve_inputs resolve_path inputs decls = Inr resolved \<Longrightarrow>
     map fst resolved = map fst (filter (\<lambda>(name, decl). chosen_value inputs name decl \<noteq> Inr None) decls)
     \<and> (\<forall>(name, decl) \<in> set decls. chosen_value inputs name decl \<noteq> Inl WF_ValueError)"
  by (induction resolve_path inputs decls arbitrary: resolved rule: resolve_inputs.induct)
    (auto split: sum.splits option.splits)

text \<open>What a resolved input stands for: the value itself, of the declared type, and for a path the path the
  validator made of it.\<close>

definition stands_for :: "(string \<Rightarrow> workflow_error + string) \<Rightarrow> input_type \<Rightarrow> json \<Rightarrow> json \<Rightarrow> bool" where
  "stands_for resolve_path t v v' \<longleftrightarrow>
     has_type t v \<and> has_type t v'
     \<and> (if t = T_Path then \<exists>s path. v = JStr s \<and> resolve_path s = Inr path \<and> v' = JStr path else v' = v)"

lemma typed_value_stands_for: "typed_value resolve_path t v = Inr v' \<Longrightarrow> stands_for resolve_path t v v'"
  by (cases t; cases v) (auto simp: typed_value_def stands_for_def split: sum.splits)

text \<open>(C23) What a run starts with is what was given, well typed. When the inputs of a run are accepted, every
  declared input has at most one resolved value, and it is the one it should have: a given value always
  wins, the default is taken only where nothing was given, and an optional input with neither is absent. Each
  resolved value has the declared type and is the value chosen, or for a path what the path validator made
  of it. Every required input, every one with a default and every given one is there, and nothing that was
  not declared.\<close>

theorem accepted_inputs_well_typed:
  assumes "validate_inputs resolve_path decls inputs = Inr resolved" and "distinct (map fst decls)"
  shows "distinct (map fst resolved)
    \<and> (\<forall>(name, v) \<in> set resolved. \<exists>decl. (name, decl) \<in> set decls \<and> has_type (id_type decl) v)
    \<and> (\<forall>(name, decl) \<in> set decls. id_required decl \<or> id_default decl \<noteq> None \<longrightarrow> name \<in> fst ` set resolved)
    \<and> fst ` set inputs \<subseteq> fst ` set resolved
    \<and> (\<forall>(name, decl) \<in> set decls.
        (case map_of inputs name of
           Some v \<Rightarrow> \<exists>v'. map_of resolved name = Some v' \<and> stands_for resolve_path (id_type decl) v v'
         | None \<Rightarrow>
             (case id_default decl of
                Some d \<Rightarrow> \<exists>v'. map_of resolved name = Some v' \<and> stands_for resolve_path (id_type decl) (value_json d) v'
              | None \<Rightarrow> map_of resolved name = None)))"
proof -
  have r: "resolve_inputs resolve_path inputs decls = Inr resolved" and
    known: "fst ` set inputs \<subseteq> fst ` set decls"
    using assms(1) by (auto simp: validate_inputs_def split: sum.splits if_splits)
  note names = resolve_inputs_names[OF r]
  have dist: "distinct (map fst resolved)" using names assms(2) by (simp add: distinct_map_filter)
  have same: "decl = decl'" if "(name, decl) \<in> set decls" "(name, decl') \<in> set decls" for name decl decl'
    using assms(2) that by (metis map_of_is_SomeI option.inject)
  have resolves: "\<exists>v'. map_of resolved name = Some v' \<and> stands_for resolve_path (id_type decl) v0 v'"
    if decl: "(name, decl) \<in> set decls" and chosen: "chosen_value inputs name decl = Inr (Some v0)" for name decl v0
  proof -
    have "(name, decl) \<in> set (filter (\<lambda>(name, decl). chosen_value inputs name decl \<noteq> Inr None) decls)"
      using decl chosen by simp
    then have "name \<in> set (map fst resolved)" using names by (metis (no_types, lifting) fst_conv image_eqI set_map)
    then obtain v' where v': "(name, v') \<in> set resolved" by auto
    then obtain decl' v1 where "(name, decl') \<in> set decls" "chosen_value inputs name decl' = Inr (Some v1)"
        "typed_value resolve_path (id_type decl') v1 = Inr v'"
      using resolve_inputs_typed[OF r] by fast
    then have "typed_value resolve_path (id_type decl) v0 = Inr v'" using same[OF decl] chosen by auto
    then show ?thesis using v' dist typed_value_stands_for by auto
  qed
  have absent: "map_of resolved name = None"
    if decl: "(name, decl) \<in> set decls" and chosen: "chosen_value inputs name decl = Inr None" for name decl
  proof -
    have "name \<notin> fst ` set resolved"
    proof
      assume "name \<in> fst ` set resolved"
      then obtain v' where "(name, v') \<in> set resolved" by auto
      then obtain decl' v0 where "(name, decl') \<in> set decls" "chosen_value inputs name decl' = Inr (Some v0)"
        using resolve_inputs_typed[OF r] by fast
      then show False using same[OF decl] chosen by auto
    qed
    then show ?thesis by (simp add: map_of_eq_None_iff)
  qed
  have no_error: "chosen_value inputs name decl \<noteq> Inl WF_ValueError" if "(name, decl) \<in> set decls" for name decl
    using names that by blast
  have exact: "case map_of inputs name of
           Some v \<Rightarrow> \<exists>v'. map_of resolved name = Some v' \<and> stands_for resolve_path (id_type decl) v v'
         | None \<Rightarrow>
             (case id_default decl of
                Some d \<Rightarrow> \<exists>v'. map_of resolved name = Some v' \<and> stands_for resolve_path (id_type decl) (value_json d) v'
              | None \<Rightarrow> map_of resolved name = None)"
    if decl: "(name, decl) \<in> set decls" for name decl
    using resolves[OF decl] absent[OF decl] no_error[OF decl]
    by (auto simp: chosen_value_def split: option.splits if_splits)
  have present: "name \<in> fst ` set resolved"
    if decl: "(name, decl) \<in> set decls" and due: "id_required decl \<or> id_default decl \<noteq> None \<or> name \<in> fst ` set inputs"
    for name decl
  proof -
    have "map_of inputs name \<noteq> None \<or> id_default decl \<noteq> None"
    proof (rule ccontr)
      assume neither: "\<not> (map_of inputs name \<noteq> None \<or> id_default decl \<noteq> None)"
      then have "name \<notin> fst ` set inputs" by (simp add: map_of_eq_None_iff)
      then have "id_required decl" using due neither by simp
      then show False using neither no_error[OF decl] by (simp add: chosen_value_def)
    qed
    then have "map_of resolved name \<noteq> None" using exact[OF decl] by (auto split: option.splits)
    then show ?thesis by (simp add: map_of_eq_None_iff)
  qed
  show ?thesis
  proof (intro conjI)
    show "distinct (map fst resolved)" by (rule dist)
    show "\<forall>(name, v) \<in> set resolved. \<exists>decl. (name, decl) \<in> set decls \<and> has_type (id_type decl) v"
      using resolve_inputs_typed[OF r] by blast
    show "\<forall>(name, decl) \<in> set decls. id_required decl \<or> id_default decl \<noteq> None \<longrightarrow> name \<in> fst ` set resolved"
      using present by blast
    show "fst ` set inputs \<subseteq> fst ` set resolved"
    proof
      fix name assume given: "name \<in> fst ` set inputs"
      then obtain decl where "(name, decl) \<in> set decls" using known by auto
      then show "name \<in> fst ` set resolved" using present given by blast
    qed
  qed (use exact in \<open>simp add: case_prod_beta\<close>)
qed

theorem accepted_inputs_well_typed_witness:
  "validate_inputs Inr [(''target'', \<lparr> id_type = T_Path, id_required = True, id_default = None \<rparr>),
       (''depth'', \<lparr> id_type = T_Int, id_required = False, id_default = Some (V_Int 2) \<rparr>)]
       [(''depth'', JInt 5), (''target'', JStr ''/tmp'')]
     = Inr [(''target'', JStr ''/tmp''), (''depth'', JInt 5)]
   \<and> fst ` set [(''depth'', JInt 5), (''target'', JStr ''/tmp'')]
       \<subseteq> fst ` set [(''target'', JStr ''/tmp''), (''depth'', JInt 5)]"
proof -
  let ?decls = "[(''target'', \<lparr> id_type = T_Path, id_required = True, id_default = None \<rparr>),
       (''depth'', \<lparr> id_type = T_Int, id_required = False, id_default = Some (V_Int 2) \<rparr>)]"
  have r: "validate_inputs Inr ?decls [(''depth'', JInt 5), (''target'', JStr ''/tmp'')]
      = Inr [(''target'', JStr ''/tmp''), (''depth'', JInt 5)]"
    by code_simp
  have "distinct (map fst ?decls)" by simp
  from accepted_inputs_well_typed[OF r this] r show ?thesis by blast
qed

section \<open>The output store\<close>

record step_output =
  so_run_id :: string
  so_step_id :: string
  so_output :: "(string \<times> json) list"
  so_validated :: bool
  so_errors :: "string list"

record output_store =
  os_max_entries :: nat
  os_entries :: "((string \<times> string) \<times> step_output) list"

definition WORKFLOW_OUTPUT_STORE_MAX_ENTRIES :: nat where
  "WORKFLOW_OUTPUT_STORE_MAX_ENTRIES = 10000"

definition new_output_store :: "nat \<Rightarrow> output_store" where
  "new_output_store n = \<lparr> os_max_entries = n, os_entries = [] \<rparr>"

definition put :: "string \<times> string \<Rightarrow> step_output \<Rightarrow> output_store \<Rightarrow> output_store" where
  "put key rec s =
     (let entries = filter (\<lambda>e. fst e \<noteq> key) (os_entries s) @ [(key, rec)]
      in s \<lparr> os_entries := drop (length entries - os_max_entries s) entries \<rparr>)"

definition get_output :: "string \<times> string \<Rightarrow> output_store \<Rightarrow> step_output option" where
  "get_output key s = map_of (os_entries s) key"

definition valid_key_part :: "string \<Rightarrow> bool" where
  "valid_key_part s \<longleftrightarrow> s \<noteq> ''.'' \<and> s \<noteq> ''..'' \<and> name_match s"

text \<open>\<open>check\<close> is the schema validator: a malformed schema, or the collapsed error if there is one.\<close>

definition record_step_output ::
  "(json \<Rightarrow> (string \<times> json) list \<Rightarrow> string option option) \<Rightarrow> string \<Rightarrow> string \<Rightarrow> (string \<times> json) list \<Rightarrow> json option
     \<Rightarrow> output_store \<Rightarrow> (workflow_error + step_output) \<times> output_store"
where
  "record_step_output check run_id step_id out schema s =
     (if \<not> valid_key_part run_id \<or> \<not> valid_key_part step_id then (Inl WF_ValueError, s)
      else case (case schema of None \<Rightarrow> Some None | Some sch \<Rightarrow> check sch out) of
        None \<Rightarrow> (Inl WF_ValueError, s)
      | Some problem \<Rightarrow>
          let rec = \<lparr> so_run_id = run_id, so_step_id = step_id, so_output = out, so_validated = (problem = None),
                      so_errors = (case problem of None \<Rightarrow> [] | Some e \<Rightarrow> [e]) \<rparr>
          in (Inr rec, put (run_id, step_id) rec s))"

text \<open>The reference: of a history of writes, the last write of every key, in the order of those writes.\<close>

fun latest :: "('k \<times> 'v) list \<Rightarrow> ('k \<times> 'v) list" where
  "latest [] = []"
| "latest (e # es) = (if fst e \<in> fst ` set es then latest es else e # latest es)"

definition newest :: "nat \<Rightarrow> 'a list \<Rightarrow> 'a list" where
  "newest n xs = drop (length xs - n) xs"

lemma latest_snoc: "latest (es @ [e]) = filter (\<lambda>x. fst x \<noteq> fst e) (latest es) @ [e]"
  by (induction es) auto

lemma latest_keys: "fst ` set (latest es) = fst ` set es" "distinct (map fst (latest es))"
  by (induction es) auto

lemma filter_key_once:
  assumes "distinct (map fst xs)"
  shows "length xs \<le> Suc (length (filter (\<lambda>x. fst x \<noteq> k) xs))"
  using assms
proof (induction xs)
  case (Cons x xs)
  show ?case
  proof (cases "fst x = k")
    case True
    then have "filter (\<lambda>x. fst x \<noteq> k) xs = xs" using Cons.prems by (auto simp: filter_id_conv image_iff)
    then show ?thesis by simp
  qed (use Cons in simp)
qed simp

lemma newest_replace:
  assumes "distinct (map fst xs)"
  shows "newest n (filter (\<lambda>x. fst x \<noteq> k) (newest n xs) @ [(k, v)]) = newest n (filter (\<lambda>x. fst x \<noteq> k) xs @ [(k, v)])"
proof (cases "length xs \<le> n")
  case True
  then show ?thesis by (simp add: newest_def)
next
  case False
  define old where "old = take (length xs - n) xs"
  define new where "new = newest n xs"
  have xs: "xs = old @ new" by (simp add: old_def new_def newest_def)
  have len: "length new = n" using False by (simp add: new_def newest_def)
  let ?f = "filter (\<lambda>x. fst x \<noteq> k)"
  have dn: "distinct (map fst new)" using assms xs by simp
  have "n \<le> Suc (length (?f new))" using filter_key_once[OF dn, of k] len by simp
  then have "newest n ((?f old @ ?f new) @ [(k, v)]) = newest n (?f new @ [(k, v)])"
    by (simp add: newest_def)
  then show ?thesis by (simp add: new_def[symmetric]) (simp add: xs)
qed

lemma put_entries:
  "os_entries (put key rec s) = newest (os_max_entries s) (filter (\<lambda>e. fst e \<noteq> key) (os_entries s) @ [(key, rec)])"
  by (simp add: put_def newest_def Let_def)

lemma put_max [simp]: "os_max_entries (put key rec s) = os_max_entries s"
  by (simp add: put_def Let_def)

text \<open>The capped store is exactly the newest outputs. After any writes, a store with a cap holds the last
  write of the keys written most recently, as many as the cap allows, in the order of those writes: a
  rewritten key counts as new, and nothing but the oldest is ever evicted.\<close>

theorem store_holds_the_newest:
  "os_entries (fold (\<lambda>(key, rec). put key rec) writes (new_output_store cap)) = newest cap (latest writes)"
proof -
  have cap: "os_max_entries (fold (\<lambda>(key, rec). put key rec) ws (new_output_store cap)) = cap" for ws
    by (induction ws rule: rev_induct) (auto simp: new_output_store_def)
  show ?thesis
  proof (induction writes rule: rev_induct)
    case (snoc w ws)
    obtain key rec where w: "w = (key, rec)" by fastforce
    have "os_entries (fold (\<lambda>(key, rec). put key rec) (ws @ [w]) (new_output_store cap))
        = newest cap (filter (\<lambda>e. fst e \<noteq> key) (newest cap (latest ws)) @ [(key, rec)])"
      using snoc by (simp add: w put_entries cap)
    also have "\<dots> = newest cap (filter (\<lambda>e. fst e \<noteq> key) (latest ws) @ [(key, rec)])"
      using latest_keys(2) by (rule newest_replace)
    finally show ?case by (simp add: latest_snoc w)
  qed (simp add: newest_def new_output_store_def)
qed

end
