(* ===== verification/Script_Run.thy ===== *)
theory Script_Run
  imports Step_Replay Workflow_Values
begin

text \<open>
  Script runs: the run-step route with its callbacks' guard, its fence, its replay branch and its settling
  arms (\<open>api/main.py\<close>, \<open>run_step\<close>), the bookkeeping callbacks, the start, the end, the cancellation and the
  resume of a run with recovery decisions (\<open>services/script_runner.py\<close>).

  What the agent does is an argument of a call, its outcome: whether a terminal was ready, whether the step
  succeeded, failed in an arm that settles or in one that does not, or never came back. The text of a stored
  envelope (redaction, bounding, JSON) is the argument \<open>store\<close>, the JSON reader \<open>parse\<close>. Every bookkeeping
  write is best-effort in the source, so a call also says what its writes do, and so do the events of a
  resume. The route awaits between its guard, the gate, the terminal and the end of the agent, and a resume
  awaits at every write: those sections are events of their own, and a history is any interleaving of events.
  A cancellation and the settlement of a drive are one event each, although they await their two writes: those
  are in the run row and the record alone, and never in a step row.
\<close>

section \<open>State\<close>

text \<open>\<open>StepRunState\<close> in the live record of the run.\<close>

record step_run_state =
  st_state :: string
  st_attempts :: int
  st_terminal_id :: "string option"
  st_output :: "(string \<times> bool) option"
  st_error :: "string option"
  st_call_fingerprint :: "string option"

definition running_state :: step_run_state where
  "running_state = \<lparr> st_state = ''running'', st_attempts = 0, st_terminal_id = None, st_output = None,
     st_error = None, st_call_fingerprint = None \<rparr>"

text \<open>\<open>ScriptRunRecord\<close>, and the records the server process has built for the run. The callbacks of a call hold
  on to the record they found, so a record is named by its position; \<open>sw_live\<close> is the one in \<open>run_registry\<close>.\<close>

record script_record =
  sr_state :: string
  sr_cancelled :: bool
  sr_generation :: string
  sr_states :: "string \<Rightarrow> step_run_state option"

definition fresh_script_record :: "string \<Rightarrow> script_record" where
  "fresh_script_record generation = \<lparr> sr_state = ''running'', sr_cancelled = False, sr_generation = generation,
     sr_states = (\<lambda>_. None) \<rparr>"

text \<open>One call of the route. The last three fields say what the database does to it.\<close>

record step_call =
  sc_step_id :: string
  sc_fingerprint :: string
  sc_policy :: "recovery_policy option"
  sc_generation :: string
  sc_now :: string
  sc_read_error :: "string option"
  sc_begin_ok :: bool
  sc_settle_ok :: bool

text \<open>How far a call has come: past the guard and the fence, let through to the agent, its terminal ready,
  answered. \<open>fl_record\<close> is the record its callbacks hold; without one the call has no callbacks.\<close>

datatype call_stage = Entered | Let_Through | Started | Answered

record call_in_flight =
  fl_call :: step_call
  fl_record :: "nat option"
  fl_stage :: call_stage

text \<open>Who drives the run. The run is in \<open>_active_drives\<close> in every phase but the first. A resume keeps the run
  row it read on arrival; once decisions were applied it keeps what it granted, with the prior states.\<close>

datatype drive_phase =
    No_Drive
  | First_Drive nat
  | Resume_Admitted workflow_run_row "(string \<times> string) list"
  | Resume_Granted workflow_run_row "(string \<times> string) list"
  | Resume_Registered nat "(string \<times> string) list"
  | Resume_Driving nat "(string \<times> string) list"
  | Resume_Ending "nat option" "(string \<times> string) list"

fun granted_of :: "drive_phase \<Rightarrow> (string \<times> string) list" where
  "granted_of (Resume_Granted row granted) = granted"
| "granted_of (Resume_Registered r granted) = granted"
| "granted_of (Resume_Driving r granted) = granted"
| "granted_of (Resume_Ending r granted) = granted"
| "granted_of phase = []"

text \<open>The last four fields are history, for every step: how often its agent was started, how often a rerun of
  it was granted, how many starts left no running row, and how many calls the gate let through while another
  call of the step stood between the gate and its start.\<close>

record script_world =
  sw_journal :: journal
  sw_records :: "script_record list"
  sw_live :: "nat option"
  sw_drive :: drive_phase
  sw_flight :: "call_in_flight list"
  sw_dispatched :: "string \<Rightarrow> nat"
  sw_reruns :: "string \<Rightarrow> nat"
  sw_unrecorded :: "string \<Rightarrow> nat"
  sw_overlaps :: "string \<Rightarrow> nat"

definition count_one :: "string \<Rightarrow> (string \<Rightarrow> nat) \<Rightarrow> string \<Rightarrow> nat" where
  "count_one sid n = n(sid := Suc (n sid))"

record step_response =
  sp_terminal_id :: string
  sp_last_message :: string
  sp_status :: string
  sp_replayed :: bool

text \<open>The agent's part. A step that fails may have had its terminal ready or not, its error may name a
  terminal or not, and some of the route's arms do not settle it.\<close>

datatype agent_outcome =
    Agent_Ok string string string "(string \<times> bool) option"
  | Agent_Fails "string option" "string option" string bool
  | Agent_Dies "string option"

fun outcome_ready :: "agent_outcome \<Rightarrow> string option" where
  "outcome_ready (Agent_Ok terminal message status returned) = Some terminal"
| "outcome_ready (Agent_Fails ready terminal error settles) = ready"
| "outcome_ready (Agent_Dies ready) = ready"

section \<open>The callbacks\<close>

definition record_step :: "nat \<Rightarrow> string \<Rightarrow> script_world \<Rightarrow> step_run_state option" where
  "record_step r sid w = (if r < length (sw_records w) then sr_states (sw_records w ! r) sid else None)"

definition put_record_step :: "nat \<Rightarrow> string \<Rightarrow> step_run_state \<Rightarrow> script_world \<Rightarrow> script_world" where
  "put_record_step r sid st w =
     w \<lparr> sw_records := (sw_records w)[r := (sw_records w ! r) \<lparr> sr_states :=
           (sr_states (sw_records w ! r))(sid \<mapsto> st) \<rparr>] \<rparr>"

definition seen_step :: "nat \<Rightarrow> string \<Rightarrow> script_world \<Rightarrow> step_run_state" where
  "seen_step r sid w = (case record_step r sid w of None \<Rightarrow> running_state | Some st \<Rightarrow> st)"

text \<open>\<open>make_step_terminal_recorder\<close>: the terminal is ready, the agent is about to run. A call without a record
  has no callback, so nothing is written about it.\<close>

definition terminal_ready ::
  "string \<Rightarrow> nat option \<Rightarrow> step_call \<Rightarrow> string \<Rightarrow> script_world \<Rightarrow> script_world"
where
  "terminal_ready run_id rec c terminal w =
     (let sid = sc_step_id c;
          started = w \<lparr> sw_dispatched := count_one sid (sw_dispatched w) \<rparr>;
          unseen = started \<lparr> sw_unrecorded := count_one sid (sw_unrecorded w) \<rparr>
      in (case rec of
            None \<Rightarrow> unseen
          | Some r \<Rightarrow>
              put_record_step r sid
                ((seen_step r sid w) \<lparr> st_terminal_id := Some terminal, st_call_fingerprint := Some (sc_fingerprint c) \<rparr>)
                (if sc_begin_ok c
                 then started \<lparr> sw_journal := begin_step run_id sid (sc_now c) (sc_fingerprint c) (sw_journal w) \<rparr>
                 else unseen)))"

text \<open>\<open>record_step_completion\<close>.\<close>

definition settled_state ::
  "string option \<Rightarrow> string option \<Rightarrow> (string \<times> bool) option \<Rightarrow> step_run_state \<Rightarrow> step_run_state"
where
  "settled_state terminal error returned st =
     (let st1 = st \<lparr> st_terminal_id := (if terminal = None then st_terminal_id st else terminal),
                    st_attempts := st_attempts st + 1 \<rparr>
      in (case error of
            Some e \<Rightarrow> st1 \<lparr> st_state := ''failed'', st_error := Some e \<rparr>
          | None \<Rightarrow>
              (case returned of
                 None \<Rightarrow> st1 \<lparr> st_state := ''completed'', st_error := None \<rparr>
               | Some (out, validated) \<Rightarrow>
                   st1 \<lparr> st_output := Some (out, validated), st_error := None,
                         st_state := (if validated then ''completed'' else ''completed_unvalidated'') \<rparr>)))"

definition settle_call ::
  "(string \<Rightarrow> string \<Rightarrow> string option \<Rightarrow> string) \<Rightarrow> string \<Rightarrow> nat option \<Rightarrow> step_call \<Rightarrow> string option
     \<Rightarrow> string option \<Rightarrow> string option \<Rightarrow> string option \<Rightarrow> (string \<times> bool) option \<Rightarrow> script_world \<Rightarrow> script_world"
where
  "settle_call store run_id rec c terminal error message status returned w =
     (case rec of
        None \<Rightarrow> w
      | Some r \<Rightarrow>
          let sid = sc_step_id c;
              st = settled_state terminal error returned (seen_step r sid w);
              result = store (case message of None \<Rightarrow> '''' | Some m \<Rightarrow> m)
                         (case status of None \<Rightarrow> st_state st | Some s \<Rightarrow> s) (st_terminal_id st);
              settled = snd (settle_step run_id sid (st_state st) (sc_now c) (Some result)
                               (map_option fst (st_output st)) (st_error st) (sw_journal w))
          in put_record_step r sid st (if sc_settle_ok c then w \<lparr> sw_journal := settled \<rparr> else w))"

text \<open>\<open>record_step_replay\<close>: the replayed step enters the live record from its durable row, with no terminal.\<close>

definition STEP_STATES :: "string list" where
  "STEP_STATES = [''pending'', ''running'', ''completed'', ''failed'', ''cancelled'', ''skipped'',
     ''completed_unvalidated'', ''rerun_authorized'', ''replay_authorized'']"

definition record_replay :: "string \<Rightarrow> nat \<Rightarrow> step_call \<Rightarrow> script_world \<Rightarrow> script_world" where
  "record_replay run_id r c w =
     (case get_step run_id (sc_step_id c) (sw_journal w) of
        None \<Rightarrow> w
      | Some row \<Rightarrow>
          put_record_step r (sc_step_id c)
            \<lparr> st_state = (if ws_state row \<in> set STEP_STATES then ws_state row else ''running''),
              st_attempts = ws_attempts row, st_terminal_id = None,
              st_output = map_option (\<lambda>out. (out, True)) (ws_output_json row),
              st_error = ws_error row, st_call_fingerprint = ws_call_fingerprint row \<rparr> w)"

section \<open>The route\<close>

text \<open>The guard of the three callbacks, and then the fence. Without a live record the call goes on, with no
  callbacks and past the gate.\<close>

definition enter_call :: "string \<Rightarrow> step_call \<Rightarrow> script_world \<Rightarrow> workflow_error + nat option" where
  "enter_call run_id c w =
     (case check_generation run_id (sc_generation c) (sw_journal w) of
        Inl e \<Rightarrow> Inl e
      | Inr _ \<Rightarrow> Inr (sw_live w))"

text \<open>The replay branch: an answer, or none when the call goes on to the agent. A failing read of the journal
  reaches the general arm, which settles; the other arms of the branch do not.\<close>

definition gate_call ::
  "(string \<Rightarrow> envelope option) \<Rightarrow> (string \<Rightarrow> string \<Rightarrow> string option \<Rightarrow> string) \<Rightarrow> string \<Rightarrow> nat option \<Rightarrow> step_call
     \<Rightarrow> script_world \<Rightarrow> (workflow_error + step_response) option \<times> script_world"
where
  "gate_call parse store run_id rec c w =
     (case rec of
        None \<Rightarrow> (None, w)
      | Some r \<Rightarrow>
          (case sc_read_error c of
             Some e \<Rightarrow> (Some (Inl WF_StepFailed), settle_call store run_id rec c None (Some e) None None None w)
           | None \<Rightarrow>
               (case decide parse run_id (sc_step_id c) (sc_fingerprint c) (sc_policy c) (sw_journal w) of
                  Inl e \<Rightarrow> (Some (Inl e), w)
                | Inr d \<Rightarrow>
                    (case rd_verdict d of
                       REPLAY \<Rightarrow>
                         (case Option.bind (rd_envelope d) en_terminal_id of
                            None \<Rightarrow> (Some (Inl WF_RuntimeError),
                                     settle_call store run_id rec c None (Some ''no terminal id'') None None None w)
                          | Some t \<Rightarrow>
                              (Some (Inr \<lparr> sp_terminal_id = t, sp_last_message = en_last_message (the (rd_envelope d)),
                                 sp_status = en_status (the (rd_envelope d)), sp_replayed = True \<rparr>),
                               record_replay run_id r c w))
                     | DIVERGED \<Rightarrow> (Some (Inl WF_ReplayDivergence), w)
                     | DECISION_REQUIRED \<Rightarrow> (Some (Inl (WF_DecisionRequired (the (rd_rule d)))), w)
                     | EXECUTE \<Rightarrow> (None, w)))))"

text \<open>What follows \<open>run_agent_step\<close>: the success arm and the settling and other arms of the route.\<close>

definition answer_call ::
  "(string \<Rightarrow> string \<Rightarrow> string option \<Rightarrow> string) \<Rightarrow> string \<Rightarrow> nat option \<Rightarrow> step_call \<Rightarrow> agent_outcome
     \<Rightarrow> script_world \<Rightarrow> (workflow_error + step_response) \<times> script_world"
where
  "answer_call store run_id rec c outcome w =
     (case outcome of
        Agent_Ok terminal message status returned \<Rightarrow>
          (Inr \<lparr> sp_terminal_id = terminal, sp_last_message = message, sp_status = status,
                 sp_replayed = False \<rparr>,
           settle_call store run_id rec c (Some terminal) None (Some message) (Some status) returned w)
      | Agent_Fails ready terminal error settles \<Rightarrow>
          (Inl WF_StepFailed,
           if settles then settle_call store run_id rec c terminal (Some error) None None None w else w)
      | Agent_Dies ready \<Rightarrow> (Inl WF_StepFailed, w))"

definition execute_step ::
  "(string \<Rightarrow> string \<Rightarrow> string option \<Rightarrow> string) \<Rightarrow> string \<Rightarrow> nat option \<Rightarrow> step_call \<Rightarrow> agent_outcome
     \<Rightarrow> script_world \<Rightarrow> (workflow_error + step_response) \<times> script_world"
where
  "execute_step store run_id rec c outcome w =
     answer_call store run_id rec c outcome
       (case outcome_ready outcome of None \<Rightarrow> w | Some t \<Rightarrow> terminal_ready run_id rec c t w)"

text \<open>The whole route, for a call that nothing interrupts.\<close>

definition run_step ::
  "(string \<Rightarrow> envelope option) \<Rightarrow> (string \<Rightarrow> string \<Rightarrow> string option \<Rightarrow> string) \<Rightarrow> string \<Rightarrow> step_call
     \<Rightarrow> agent_outcome \<Rightarrow> script_world \<Rightarrow> (workflow_error + step_response) \<times> script_world"
where
  "run_step parse store run_id c outcome w =
     (case enter_call run_id c w of
        Inl e \<Rightarrow> (Inl e, w)
      | Inr rec \<Rightarrow>
          (case gate_call parse store run_id rec c w of
             (Some answer, w1) \<Rightarrow> (answer, w1)
           | (None, w1) \<Rightarrow> execute_step store run_id rec c outcome w1))"

section \<open>Starting, ending and cancelling a run\<close>

definition py_int :: "string \<Rightarrow> int option" where
  "py_int s = (if s \<noteq> [] \<and> (\<forall>c \<in> set s. 48 \<le> (of_char c :: nat) \<and> (of_char c :: nat) \<le> 57)
     then Some (int (foldl (\<lambda>a c. 10 * a + digit_val c) 0 s)) else None)"

text \<open>\<open>_bump\<close>. Of the texts \<open>int\<close> accepts only the plain digits are modelled, the form every writer of the
  column uses; any other text restarts at 2.\<close>

definition bump :: "string \<Rightarrow> string" where
  "bump generation = (case py_int generation of Some n \<Rightarrow> py_str (n + 1) | None \<Rightarrow> ''2'')"

text \<open>\<open>run_script_workflow\<close> up to its drive: the lint gate, the approval gate, the live record, and the run row,
  whose insertion is best-effort.\<close>

definition start_script_run ::
  "bool \<Rightarrow> bool \<Rightarrow> workflow_run_row \<Rightarrow> bool \<Rightarrow> script_world \<Rightarrow> (workflow_error + unit) \<times> script_world"
where
  "start_script_run lint_ok approved row insert_ok w =
     (if \<not> valid_key_part (wr_run_id row) then (Inl WF_ValueError, w)
      else if \<not> lint_ok then (Inl WF_ValueError, w)
      else if \<not> approved then (Inl WF_NotApproved, w)
      else (Inr (), w \<lparr> sw_records := sw_records w @ [fresh_script_record ''1''], sw_live := Some (length (sw_records w)),
              sw_drive := First_Drive (length (sw_records w)),
              sw_journal := (if insert_ok then snd (insert_run row (sw_journal w)) else sw_journal w) \<rparr>))"

text \<open>How a drive ends: the process exits, with zero or not, outlives its bound, cannot be spawned, or the drive
  itself is cancelled before it settles anything. The flags say which of the writes are carried out.\<close>

datatype drive_end = Exited bool bool | Timed_Out bool bool | Spawn_Failed bool | Drive_Cancelled

definition settle_record :: "string \<Rightarrow> nat \<Rightarrow> string \<Rightarrow> bool \<Rightarrow> string \<Rightarrow> script_world \<Rightarrow> script_world" where
  "settle_record run_id r state ok now w =
     w \<lparr> sw_records := (sw_records w)[r := (sw_records w ! r) \<lparr> sr_state := state \<rparr>],
         sw_journal := (if ok then update_run_state run_id state (Some now) (sw_journal w) else sw_journal w) \<rparr>"

definition fence_record :: "string \<Rightarrow> nat \<Rightarrow> bool \<Rightarrow> script_world \<Rightarrow> script_world" where
  "fence_record run_id r ok w =
     (let g = bump (sr_generation (sw_records w ! r))
      in w \<lparr> sw_records := (sw_records w)[r := (sw_records w ! r) \<lparr> sr_generation := g \<rparr>],
             sw_journal := (if ok then update_run_generation run_id g (sw_journal w) else sw_journal w) \<rparr>)"

definition finish_drive :: "string \<Rightarrow> nat \<Rightarrow> drive_end \<Rightarrow> string \<Rightarrow> script_world \<Rightarrow> script_world" where
  "finish_drive run_id r how now w =
     (case how of
        Exited zero ok \<Rightarrow>
          let rec = sw_records w ! r
          in settle_record run_id r
               (if sr_cancelled rec \<or> sr_state rec = ''cancelled'' then ''cancelled''
                else if zero then ''completed'' else ''failed'') ok now w
      | Timed_Out fenced ok \<Rightarrow> settle_record run_id r ''failed'' ok now (fence_record run_id r fenced w)
      | Spawn_Failed ok \<Rightarrow> settle_record run_id r ''failed'' ok now w
      | Drive_Cancelled \<Rightarrow> w)"

text \<open>The cancel route: without a record it marks the row alone and bumps no generation; with one it is
  \<open>cancel_script_run\<close>. The declarative record that a status read rebuilds from the journal is no script record
  and is not modelled.\<close>

definition ENDED_RUN_STATES :: "string list" where
  "ENDED_RUN_STATES = [''completed'', ''failed'', ''cancelled'']"

definition cancel_script_run :: "string \<Rightarrow> bool \<Rightarrow> bool \<Rightarrow> string \<Rightarrow> script_world \<Rightarrow> script_world" where
  "cancel_script_run run_id fenced ok now w =
     (case sw_live w of
        None \<Rightarrow>
          (case get_run_row run_id (sw_journal w) of
             None \<Rightarrow> w
           | Some row \<Rightarrow>
               if wr_state row \<in> set ENDED_RUN_STATES then w
               else w \<lparr> sw_journal := update_run_state run_id ''cancelled'' (Some now) (sw_journal w) \<rparr>)
      | Some r \<Rightarrow>
          if sr_state (sw_records w ! r) \<in> set ENDED_RUN_STATES \<or> sr_cancelled (sw_records w ! r) then w
          else settle_record run_id r ''cancelled'' ok now
                 (fence_record run_id r fenced
                   (w \<lparr> sw_records := (sw_records w)[r := (sw_records w ! r) \<lparr> sr_cancelled := True \<rparr>] \<rparr>)))"

section \<open>Resuming a run\<close>

definition resumable :: "workflow_run_row \<Rightarrow> bool" where
  "resumable row \<longleftrightarrow> wr_state row \<noteq> ''completed''"

definition RUN_STATES :: "string list" where
  "RUN_STATES = [''running'', ''cancelling'', ''completed'', ''failed'', ''cancelled'']"

text \<open>Gate 5: no authorisation may be on the run that this resume does not answer afresh.\<close>

definition consent_answered :: "string \<Rightarrow> (string \<times> string) list \<Rightarrow> journal \<Rightarrow> bool" where
  "consent_answered run_id decisions j \<longleftrightarrow>
     (\<forall>s \<in> set (get_steps run_id j). ws_state s \<in> set AUTHORISED \<longrightarrow> ws_step_id s \<in> fst ` set decisions)"

definition count_reruns :: "(string \<times> string) list \<Rightarrow> (string \<Rightarrow> nat) \<Rightarrow> string \<Rightarrow> nat" where
  "count_reruns decisions n sid = n sid + length (filter (\<lambda>d. d = (sid, ''rerun'')) decisions)"

text \<open>The key, and the six gates. Gate 2, the drive claim, is the phase. The run row was read an await before that
  gate, so what was read is an argument, and may have been overwritten since.\<close>

definition resume_gates ::
  "(string \<Rightarrow> bool) \<Rightarrow> (workflow_run_row \<Rightarrow> bool) \<Rightarrow> string \<Rightarrow> workflow_run_row option
     \<Rightarrow> (string \<times> string) list \<Rightarrow> script_world \<Rightarrow> workflow_error + workflow_run_row"
where
  "resume_gates snapshot_ok approved run_id row_read decisions w =
     (if \<not> valid_key_part run_id then Inl WF_ValueError
      else case row_read of
        None \<Rightarrow> Inl WF_KeyError
      | Some row \<Rightarrow>
          if sw_drive w \<noteq> No_Drive then Inl WF_ResumeNotAllowed
          else if wr_state row \<notin> set RUN_STATES then Inl WF_ValueError
          else if \<not> resumable row then Inl WF_ResumeNotAllowed
          else if \<not> snapshot_ok (wr_spec_snapshot row) then Inl WF_ResumeCorrupt
          else if \<not> consent_answered run_id decisions (sw_journal w) then Inl WF_ResumeNotAllowed
          else if \<not> approved row then Inl WF_NotApproved
          else Inr row)"

definition admit_resume ::
  "(string \<Rightarrow> bool) \<Rightarrow> (workflow_run_row \<Rightarrow> bool) \<Rightarrow> string \<Rightarrow> workflow_run_row option
     \<Rightarrow> (string \<times> string) list \<Rightarrow> script_world \<Rightarrow> script_world"
where
  "admit_resume snapshot_ok approved run_id row_read decisions w =
     (case resume_gates snapshot_ok approved run_id row_read decisions w of
        Inl e \<Rightarrow> w
      | Inr row \<Rightarrow> w \<lparr> sw_drive := Resume_Admitted row decisions \<rparr>)"

text \<open>A write that is awaited in a thread is carried out, or raises, or is carried out while the task that awaits it
  is cancelled, so that the task never learns of it.\<close>

datatype write_fate = Carried_Out | Write_Raises | Task_Cancelled

text \<open>The decisions are applied in one transaction, or refused; a refusal releases the claim, with nothing
  granted. A task that is cancelled meanwhile knows of no grant, and releases the claim too.\<close>

definition grant_decisions :: "string \<Rightarrow> write_fate \<Rightarrow> script_world \<Rightarrow> script_world" where
  "grant_decisions run_id fate w =
     (case sw_drive w of
        Resume_Admitted row decisions \<Rightarrow>
          if fate = Write_Raises then w \<lparr> sw_drive := No_Drive \<rparr>
          else (case apply_decisions run_id decisions (sw_journal w) of
             (Inl e, _) \<Rightarrow> w \<lparr> sw_drive := No_Drive \<rparr>
           | (Inr granted, j) \<Rightarrow>
               w \<lparr> sw_drive := (if fate = Task_Cancelled then No_Drive else Resume_Granted row granted), sw_journal := j,
                   sw_reruns := count_reruns decisions (sw_reruns w) \<rparr>)
      | _ \<Rightarrow> w)"

text \<open>The generation is bumped and persisted, and only then the fresh record is registered. A failing write
  raises and a cancelled task stops: the resume goes to its end with nothing registered.\<close>

definition register_resume :: "string \<Rightarrow> write_fate \<Rightarrow> script_world \<Rightarrow> script_world" where
  "register_resume run_id fate w =
     (case sw_drive w of
        Resume_Granted row granted \<Rightarrow>
          if fate = Write_Raises then w \<lparr> sw_drive := Resume_Ending None granted \<rparr>
          else
            let g = bump (wr_generation row); r = length (sw_records w)
            in if fate = Task_Cancelled
            then w \<lparr> sw_journal := update_run_generation run_id g (sw_journal w), sw_drive := Resume_Ending None granted \<rparr>
            else w \<lparr> sw_journal := update_run_generation run_id g (sw_journal w),
                   sw_records := sw_records w @ [fresh_script_record g], sw_live := Some r,
                   sw_drive := Resume_Registered r granted \<rparr>
      | _ \<Rightarrow> w)"

text \<open>The row is reopened, best-effort, and the frozen script written to its file. When that raises, the bumped
  generation, the registered record and the reopened row stay.\<close>

definition redrive :: "string \<Rightarrow> bool \<Rightarrow> bool \<Rightarrow> script_world \<Rightarrow> script_world" where
  "redrive run_id reopened materialised w =
     (case sw_drive w of
        Resume_Registered r granted \<Rightarrow>
          w \<lparr> sw_journal := (if reopened then update_run_state run_id ''running'' None (sw_journal w) else sw_journal w),
              sw_drive := (if materialised then Resume_Driving r granted else Resume_Ending (Some r) granted) \<rparr>
      | _ \<Rightarrow> w)"

definition end_script_drive :: "string \<Rightarrow> drive_end \<Rightarrow> string \<Rightarrow> script_world \<Rightarrow> script_world" where
  "end_script_drive run_id how now w =
     (case sw_drive w of
        First_Drive r \<Rightarrow> (finish_drive run_id r how now w) \<lparr> sw_drive := No_Drive \<rparr>
      | Resume_Driving r granted \<Rightarrow>
          (finish_drive run_id r how now w) \<lparr> sw_drive := Resume_Ending (Some r) granted \<rparr>
      | _ \<Rightarrow> w)"

text \<open>The \<open>finally\<close> block: the drive claim is released and what was not consumed is revoked, in the journal and
  in the record of this resume. The revocation is best-effort: when its write raises, what was granted stays.\<close>

definition mirror_revoked ::
  "(string \<times> string) list \<Rightarrow> string list \<Rightarrow> (string \<Rightarrow> step_run_state option) \<Rightarrow> string \<Rightarrow> step_run_state option"
where
  "mirror_revoked granted revoked states sid =
     (if sid \<in> set revoked \<and> the (map_of granted sid) \<in> set STEP_STATES
      then map_option (\<lambda>st. st \<lparr> st_state := the (map_of granted sid) \<rparr>) (states sid)
      else states sid)"

definition finish_resume :: "string \<Rightarrow> bool \<Rightarrow> script_world \<Rightarrow> script_world" where
  "finish_resume run_id revoke_ok w =
     (case sw_drive w of
        Resume_Ending rec granted \<Rightarrow>
          if \<not> revoke_ok then w \<lparr> sw_drive := No_Drive \<rparr>
          else
            let (revoked, j) = revoke_unconsumed_decisions run_id granted (sw_journal w);
                w1 = w \<lparr> sw_drive := No_Drive, sw_journal := j \<rparr>
            in (case rec of
                  None \<Rightarrow> w1
                | Some r \<Rightarrow> w1 \<lparr> sw_records := (sw_records w)[r := (sw_records w ! r) \<lparr> sr_states :=
                      mirror_revoked granted revoked (sr_states (sw_records w ! r)) \<rparr>] \<rparr>)
      | _ \<Rightarrow> w)"

section \<open>Events and histories\<close>

datatype script_event =
    Call_Enters step_call
  | Call_Gated nat
  | Call_Ready nat string
  | Call_Answered nat agent_outcome
  | Drive_Ends drive_end string
  | Run_Cancelled bool bool string
  | Resume_Arrives "workflow_run_row option" "(string \<times> string) list"
  | Decisions_Applied write_fate
  | Generation_Written write_fate
  | Row_Reopened bool bool
  | Resume_Ends bool
  | Server_Restarts

definition set_stage :: "nat \<Rightarrow> call_stage \<Rightarrow> script_world \<Rightarrow> script_world" where
  "set_stage n stage w =
     w \<lparr> sw_flight := (sw_flight w)[n := (sw_flight w ! n) \<lparr> fl_stage := stage \<rparr>] \<rparr>"

text \<open>A gated call of the step that was let through and whose agent has not started.\<close>

definition awaits_start :: "string \<Rightarrow> call_in_flight \<Rightarrow> bool" where
  "awaits_start sid f \<longleftrightarrow> sc_step_id (fl_call f) = sid \<and> fl_record f \<noteq> None \<and> fl_stage f = Let_Through"

definition waiting_calls :: "string \<Rightarrow> script_world \<Rightarrow> nat" where
  "waiting_calls sid w = length (filter (awaits_start sid) (sw_flight w))"

definition pass_gate ::
  "(string \<Rightarrow> envelope option) \<Rightarrow> (string \<Rightarrow> string \<Rightarrow> string option \<Rightarrow> string) \<Rightarrow> string \<Rightarrow> nat \<Rightarrow> script_world
     \<Rightarrow> script_world"
where
  "pass_gate parse store run_id n w =
     (let f = sw_flight w ! n; sid = sc_step_id (fl_call f) in
      case gate_call parse store run_id (fl_record f) (fl_call f) w of
        (Some answer, w1) \<Rightarrow> set_stage n Answered w1
      | (None, w1) \<Rightarrow>
          (set_stage n Let_Through w1) \<lparr> sw_overlaps :=
             (if fl_record f \<noteq> None \<and> 0 < waiting_calls sid w then count_one sid (sw_overlaps w)
              else sw_overlaps w) \<rparr>)"

definition in_stage :: "nat \<Rightarrow> call_stage set \<Rightarrow> script_world \<Rightarrow> bool" where
  "in_stage n stages w \<longleftrightarrow> n < length (sw_flight w) \<and> fl_stage (sw_flight w ! n) \<in> stages"

text \<open>An event that is not due leaves the world alone. A restart of the server loses the records, the calls in
  flight and the resume under way, with its \<open>finally\<close>; the journal stays, and the script may live on.\<close>

fun script_step ::
  "(string \<Rightarrow> envelope option) \<Rightarrow> (string \<Rightarrow> string \<Rightarrow> string option \<Rightarrow> string) \<Rightarrow> (string \<Rightarrow> bool)
     \<Rightarrow> (workflow_run_row \<Rightarrow> bool) \<Rightarrow> string \<Rightarrow> script_event \<Rightarrow> script_world \<Rightarrow> script_world"
where
  "script_step parse store snapshot_ok approved run_id (Call_Enters c) w =
     (case enter_call run_id c w of
        Inl e \<Rightarrow> w
      | Inr rec \<Rightarrow> w \<lparr> sw_flight := sw_flight w @ [\<lparr> fl_call = c, fl_record = rec, fl_stage = Entered \<rparr>] \<rparr>)"
| "script_step parse store snapshot_ok approved run_id (Call_Gated n) w =
     (if in_stage n {Entered} w then pass_gate parse store run_id n w else w)"
| "script_step parse store snapshot_ok approved run_id (Call_Ready n terminal) w =
     (if in_stage n {Let_Through} w
      then let f = sw_flight w ! n
           in set_stage n Started (terminal_ready run_id (fl_record f) (fl_call f) terminal w)
      else w)"
| "script_step parse store snapshot_ok approved run_id (Call_Answered n outcome) w =
     (if in_stage n (if outcome_ready outcome = None then {Let_Through} else {Started}) w
      then let f = sw_flight w ! n
           in set_stage n Answered (snd (answer_call store run_id (fl_record f) (fl_call f) outcome w))
      else w)"
| "script_step parse store snapshot_ok approved run_id (Drive_Ends how now) w = end_script_drive run_id how now w"
| "script_step parse store snapshot_ok approved run_id (Run_Cancelled fenced ok now) w =
     cancel_script_run run_id fenced ok now w"
| "script_step parse store snapshot_ok approved run_id (Resume_Arrives row_read decisions) w =
     admit_resume snapshot_ok approved run_id row_read decisions w"
| "script_step parse store snapshot_ok approved run_id (Decisions_Applied fate) w = grant_decisions run_id fate w"
| "script_step parse store snapshot_ok approved run_id (Generation_Written fate) w = register_resume run_id fate w"
| "script_step parse store snapshot_ok approved run_id (Row_Reopened reopened materialised) w =
     redrive run_id reopened materialised w"
| "script_step parse store snapshot_ok approved run_id (Resume_Ends revoke_ok) w = finish_resume run_id revoke_ok w"
| "script_step parse store snapshot_ok approved run_id Server_Restarts w =
     w \<lparr> sw_records := [], sw_live := None, sw_drive := No_Drive, sw_flight := [] \<rparr>"

definition run_script ::
  "(string \<Rightarrow> envelope option) \<Rightarrow> (string \<Rightarrow> string \<Rightarrow> string option \<Rightarrow> string) \<Rightarrow> (string \<Rightarrow> bool)
     \<Rightarrow> (workflow_run_row \<Rightarrow> bool) \<Rightarrow> string \<Rightarrow> script_event list \<Rightarrow> script_world \<Rightarrow> script_world"
where
  "run_script parse store snapshot_ok approved run_id = fold (script_step parse store snapshot_ok approved run_id)"

end
