(* ===== verification/Script_Promises.thy ===== *)
theory Script_Promises
  imports Script_Run
begin

text \<open>
  What the journal, the replay gate and the resume promise together, over every history of a run: consent to
  repeat a step is good for one attempt, and it does not outlive the resume it was given to. Where the source
  falls short of that (a start without a running row, a call without a live record, overlapping calls of one
  step, a revocation that fails, consent granted over consent) the exception is part of the statement, and a
  history at the end of the theory shows that it happens.
\<close>

section \<open>Reading a step back\<close>

lemma get_step_steps [simp]: "get_step r s (j \<lparr> j_steps := rows \<rparr>) = fetchone (at_step r s) rows"
  by (simp add: get_step_def)

lemma fetchone_upsert_other:
  assumes "\<not> (ws_run_id row = r \<and> ws_step_id row = s)" and "\<And>x. step_key (f x) = step_key x"
  shows "fetchone (at_step r s) (upsert_step row f rows) = fetchone (at_step r s) rows"
proof -
  have keep: "at_step r s (f x) \<longleftrightarrow> at_step r s x" for x
    using assms(2)[of x] by (simp add: at_step_def step_key_def)
  have "fetchone (at_step r s) (update_where (at_step (ws_run_id row) (ws_step_id row)) f rows)
      = map_option (\<lambda>x. if at_step (ws_run_id row) (ws_step_id row) x then f x else x)
          (fetchone (at_step r s) rows)"
    by (rule fetchone_update_where) (rule keep)
  also have "\<dots> = fetchone (at_step r s) rows"
  proof (cases "fetchone (at_step r s) rows")
    case (Some x)
    then have "at_step r s x" using fetchone_SomeD by metis
    then show ?thesis using Some assms(1) by (auto simp: at_step_def)
  next
    case None
    show ?thesis unfolding None by simp
  qed
  finally have upd: "fetchone (at_step r s) (update_where (at_step (ws_run_id row) (ws_step_id row)) f rows)
      = fetchone (at_step r s) rows" .
  have "\<not> at_step r s row" using assms(1) by (simp add: at_step_def)
  then have "fetchone (at_step r s) (rows @ [row]) = fetchone (at_step r s) rows"
    by (simp add: fetchone_filter split: list.splits)
  with upd show ?thesis by (simp add: upsert_step_def)
qed

lemma fetchone_upsert_same:
  assumes "ws_run_id row = r" "ws_step_id row = s" and "\<And>x. step_key (f x) = step_key x"
  shows "fetchone (at_step r s) (upsert_step row f rows)
    = Some (case fetchone (at_step r s) rows of None \<Rightarrow> row | Some x \<Rightarrow> f x)"
proof (cases "fetchone (at_step r s) rows")
  case None
  then have no: "\<forall>x \<in> set rows. \<not> at_step r s x" by simp
  then have "step_key row \<notin> step_key ` set rows"
    using assms(1,2) by (auto simp: at_step_def step_key_def)
  moreover have "filter (at_step r s) rows = []" using no by (simp add: filter_empty_conv)
  ultimately show ?thesis
    using None assms(1,2) by (simp add: upsert_step_def fetchone_filter at_step_def)
next
  case (Some x)
  then have x: "x \<in> set rows" "at_step r s x" using fetchone_SomeD by metis+
  then have "step_key row = step_key x"
    using assms(1,2) by (simp add: at_step_def step_key_def)
  then have "step_key row \<in> step_key ` set rows" using x(1) by (rule image_eqI)
  moreover have "at_step r s (f y) \<longleftrightarrow> at_step r s y" for y
    using assms(3)[of y] by (simp add: at_step_def step_key_def)
  ultimately show ?thesis
    using Some x assms(1,2) by (simp add: upsert_step_def fetchone_update_where)
qed

lemma step_key_updates [simp]:
  "step_key (x \<lparr> ws_state := a \<rparr>) = step_key x"
  "step_key (x \<lparr> ws_state := a, ws_updated_at := b, ws_call_fingerprint := c \<rparr>) = step_key x"
  "step_key (x \<lparr> ws_state := a, ws_attempts := n, ws_output_json := d, ws_error := e, ws_updated_at := b,
      ws_result_json := g \<rparr>) = step_key x"
  by (simp_all add: step_key_def)

lemma seeded_simps [simp]:
  "ws_run_id (seeded_step r s st t) = r" "ws_step_id (seeded_step r s st t) = s"
  "ws_state (seeded_step r s st t) = st"
  by (simp_all add: seeded_step_def)

lemma get_step_begin:
  "get_step r s (begin_step r' s' now fp j) =
     (if r = r' \<and> s = s'
      then Some (case get_step r s j of
             None \<Rightarrow> (seeded_step r s ''running'' now) \<lparr> ws_call_fingerprint := Some fp \<rparr>
           | Some x \<Rightarrow> x \<lparr> ws_state := ''running'', ws_updated_at := now,
               ws_call_fingerprint := (if ws_state x \<noteq> ''completed'' then Some fp else ws_call_fingerprint x) \<rparr>)
      else get_step r s j)"
  by (auto simp: begin_step_def get_step_def fetchone_upsert_same fetchone_upsert_other)

lemma get_step_settle:
  "get_step r s (snd (settle_step r' s' st now res out err j)) =
     (if r = r' \<and> s = s'
      then Some (case get_step r s j of
             None \<Rightarrow> (seeded_step r s st now) \<lparr> ws_attempts := 1, ws_output_json := out, ws_error := err,
                       ws_result_json := res \<rparr>
           | Some x \<Rightarrow> x \<lparr> ws_state := st, ws_attempts := ws_attempts x + 1, ws_output_json := out,
               ws_error := err, ws_updated_at := now, ws_result_json := res \<rparr>)
      else get_step r s j)"
  by (auto simp: settle_step_def get_step_def fetchone_upsert_same fetchone_upsert_other)

lemma fetchone_set_state:
  "fetchone (at_step r s) (set_step_state r' s' st rows) =
     (if r = r' \<and> s = s' then map_option (\<lambda>x. x \<lparr> ws_state := st \<rparr>) (fetchone (at_step r s) rows)
      else fetchone (at_step r s) rows)"
proof -
  have "fetchone (at_step r s) (set_step_state r' s' st rows)
    = map_option (\<lambda>x. if at_step r' s' x then x \<lparr> ws_state := st \<rparr> else x) (fetchone (at_step r s) rows)"
    unfolding set_step_state_def by (rule fetchone_update_where) (simp add: at_step_def)
  also have "\<dots> = (if r = r' \<and> s = s' then map_option (\<lambda>x. x \<lparr> ws_state := st \<rparr>) (fetchone (at_step r s) rows)
      else fetchone (at_step r s) rows)"
  proof (cases "fetchone (at_step r s) rows")
    case None
    show ?thesis unfolding None by simp
  next
    case (Some x)
    then have "at_step r s x" using fetchone_SomeD by metis
    then show ?thesis using Some by (auto simp: at_step_def)
  qed
  finally show ?thesis .
qed

section \<open>What the sections leave alone\<close>

lemma put_record_step_sel [simp]:
  "sw_journal (put_record_step r sid st w) = sw_journal w"
  "sw_live (put_record_step r sid st w) = sw_live w"
  "sw_drive (put_record_step r sid st w) = sw_drive w"
  "sw_flight (put_record_step r sid st w) = sw_flight w"
  "sw_dispatched (put_record_step r sid st w) = sw_dispatched w"
  "sw_reruns (put_record_step r sid st w) = sw_reruns w"
  "sw_unrecorded (put_record_step r sid st w) = sw_unrecorded w"
  "sw_overlaps (put_record_step r sid st w) = sw_overlaps w"
  by (simp_all add: put_record_step_def)

lemma set_stage_sel [simp]:
  "sw_journal (set_stage n stage w) = sw_journal w"
  "sw_drive (set_stage n stage w) = sw_drive w"
  "sw_dispatched (set_stage n stage w) = sw_dispatched w"
  "sw_reruns (set_stage n stage w) = sw_reruns w"
  "sw_unrecorded (set_stage n stage w) = sw_unrecorded w"
  "sw_overlaps (set_stage n stage w) = sw_overlaps w"
  by (simp_all add: set_stage_def)

lemma settle_call_sel [simp]:
  "sw_drive (settle_call store run_id rec c t e m s r w) = sw_drive w"
  "sw_flight (settle_call store run_id rec c t e m s r w) = sw_flight w"
  "sw_dispatched (settle_call store run_id rec c t e m s r w) = sw_dispatched w"
  "sw_reruns (settle_call store run_id rec c t e m s r w) = sw_reruns w"
  "sw_unrecorded (settle_call store run_id rec c t e m s r w) = sw_unrecorded w"
  "sw_overlaps (settle_call store run_id rec c t e m s r w) = sw_overlaps w"
  by (simp_all add: settle_call_def Let_def split: option.split)

lemma record_replay_sel [simp]:
  "sw_journal (record_replay run_id r c w) = sw_journal w"
  "sw_drive (record_replay run_id r c w) = sw_drive w"
  "sw_flight (record_replay run_id r c w) = sw_flight w"
  "sw_dispatched (record_replay run_id r c w) = sw_dispatched w"
  "sw_reruns (record_replay run_id r c w) = sw_reruns w"
  "sw_unrecorded (record_replay run_id r c w) = sw_unrecorded w"
  "sw_overlaps (record_replay run_id r c w) = sw_overlaps w"
  by (simp_all add: record_replay_def split: option.split)

lemma terminal_ready_sel [simp]:
  "sw_drive (terminal_ready run_id rec c t w) = sw_drive w"
  "sw_flight (terminal_ready run_id rec c t w) = sw_flight w"
  "sw_reruns (terminal_ready run_id rec c t w) = sw_reruns w"
  "sw_overlaps (terminal_ready run_id rec c t w) = sw_overlaps w"
  "sw_dispatched (terminal_ready run_id rec c t w) = count_one (sc_step_id c) (sw_dispatched w)"
  "sw_unrecorded (terminal_ready run_id rec c t w) =
     (if rec \<noteq> None \<and> sc_begin_ok c then sw_unrecorded w else count_one (sc_step_id c) (sw_unrecorded w))"
  "sw_journal (terminal_ready run_id rec c t w) =
     (if rec \<noteq> None \<and> sc_begin_ok c then begin_step run_id (sc_step_id c) (sc_now c) (sc_fingerprint c) (sw_journal w)
      else sw_journal w)"
  by (simp_all add: terminal_ready_def Let_def split: option.split)

text \<open>The gate either answers, after at most one settlement or hydration, or it changes nothing; and a gated
  call goes on only on the verdict EXECUTE.\<close>

lemma gate_call_cases:
  obtains answer where "gate_call parse store run_id rec c w = (Some answer, w)"
  | answer r where "gate_call parse store run_id rec c w = (Some answer, record_replay run_id r c w)"
  | answer e where "gate_call parse store run_id rec c w
      = (Some answer, settle_call store run_id rec c None (Some e) None None None w)"
  | "rec = None" "gate_call parse store run_id rec c w = (None, w)"
  | d where "decide parse run_id (sc_step_id c) (sc_fingerprint c) (sc_policy c) (sw_journal w) = Inr d"
      "rd_verdict d = EXECUTE" "gate_call parse store run_id rec c w = (None, w)"
proof (cases rec)
  case None
  then show thesis by (intro that(4)) (simp_all add: gate_call_def)
next
  case rec: (Some r)
  show thesis
  proof (cases "sc_read_error c")
    case (Some e)
    then show thesis using that(3) rec by (simp add: gate_call_def)
  next
    case none: None
    show thesis
    proof (cases "decide parse run_id (sc_step_id c) (sc_fingerprint c) (sc_policy c) (sw_journal w)")
      case (Inl e)
      then show thesis using that(1) rec none by (simp add: gate_call_def)
    next
      case (Inr d)
      show thesis
      proof (cases "rd_verdict d")
        case EXECUTE
        then show thesis using that(5) rec none Inr by (simp add: gate_call_def)
      next
        case REPLAY
        then show thesis
          using that(2,3) rec none Inr
          by (cases "Option.bind (rd_envelope d) en_terminal_id") (simp_all add: gate_call_def)
      qed (use that(1) rec none Inr in \<open>simp_all add: gate_call_def\<close>)
    qed
  qed
qed

lemma gate_call_sel [simp]:
  "sw_drive (snd (gate_call parse store run_id rec c w)) = sw_drive w"
  "sw_flight (snd (gate_call parse store run_id rec c w)) = sw_flight w"
  by (rule gate_call_cases[of parse store run_id rec c w]; simp)+

lemma pass_gate_sel:
  "sw_journal (pass_gate parse store run_id n w)
     = sw_journal (snd (gate_call parse store run_id (fl_record (sw_flight w ! n)) (fl_call (sw_flight w ! n)) w))"
  "sw_drive (pass_gate parse store run_id n w) = sw_drive w"
proof -
  let ?f = "sw_flight w ! n"
  have "sw_journal (pass_gate parse store run_id n w)
       = sw_journal (snd (gate_call parse store run_id (fl_record ?f) (fl_call ?f) w))
     \<and> sw_drive (pass_gate parse store run_id n w)
       = sw_drive (snd (gate_call parse store run_id (fl_record ?f) (fl_call ?f) w))"
  proof (cases "gate_call parse store run_id (fl_record ?f) (fl_call ?f) w")
    case (Pair a w1)
    then show ?thesis by (cases a) (simp_all add: pass_gate_def Let_def)
  qed
  then show "sw_journal (pass_gate parse store run_id n w)
       = sw_journal (snd (gate_call parse store run_id (fl_record ?f) (fl_call ?f) w))"
    and "sw_drive (pass_gate parse store run_id n w) = sw_drive w" by simp_all
qed

lemma answer_call_cases:
  obtains "snd (answer_call store run_id rec c outcome w) = w"
  | t e m s r where "snd (answer_call store run_id rec c outcome w) = settle_call store run_id rec c t e m s r w"
proof (cases outcome)
  case (Agent_Ok t m s r)
  then show thesis by (intro that(2)) (simp add: answer_call_def)
next
  case (Agent_Fails ready t e settles)
  then show thesis using that(1) that(2) by (cases settles) (simp_all add: answer_call_def)
next
  case (Agent_Dies ready)
  then show thesis by (intro that(1)) (simp add: answer_call_def)
qed

text \<open>What drives, cancellations and the stages of a resume write is in the run rows.\<close>

lemma steps_of_run_updates [simp]:
  "j_steps (update_run_state r st fin j) = j_steps j" "j_steps (update_run_generation r g j) = j_steps j"
  by (simp_all add: update_run_state_def update_run_generation_def)

lemma fence_record_sel [simp]:
  "j_steps (sw_journal (fence_record run_id r ok w)) = j_steps (sw_journal w)"
  "sw_drive (fence_record run_id r ok w) = sw_drive w"
  "sw_flight (fence_record run_id r ok w) = sw_flight w"
  "sw_dispatched (fence_record run_id r ok w) = sw_dispatched w"
  "sw_reruns (fence_record run_id r ok w) = sw_reruns w"
  "sw_unrecorded (fence_record run_id r ok w) = sw_unrecorded w"
  "sw_overlaps (fence_record run_id r ok w) = sw_overlaps w"
  by (simp_all add: fence_record_def Let_def)

lemma settle_record_sel [simp]:
  "j_steps (sw_journal (settle_record run_id r st ok now w)) = j_steps (sw_journal w)"
  "sw_drive (settle_record run_id r st ok now w) = sw_drive w"
  "sw_flight (settle_record run_id r st ok now w) = sw_flight w"
  "sw_dispatched (settle_record run_id r st ok now w) = sw_dispatched w"
  "sw_reruns (settle_record run_id r st ok now w) = sw_reruns w"
  "sw_unrecorded (settle_record run_id r st ok now w) = sw_unrecorded w"
  "sw_overlaps (settle_record run_id r st ok now w) = sw_overlaps w"
  by (simp_all add: settle_record_def)

lemma finish_drive_sel [simp]:
  "j_steps (sw_journal (finish_drive run_id r how now w)) = j_steps (sw_journal w)"
  "sw_drive (finish_drive run_id r how now w) = sw_drive w"
  "sw_flight (finish_drive run_id r how now w) = sw_flight w"
  "sw_dispatched (finish_drive run_id r how now w) = sw_dispatched w"
  "sw_reruns (finish_drive run_id r how now w) = sw_reruns w"
  "sw_unrecorded (finish_drive run_id r how now w) = sw_unrecorded w"
  "sw_overlaps (finish_drive run_id r how now w) = sw_overlaps w"
  by (simp_all add: finish_drive_def Let_def split: drive_end.split)

text \<open>The events that touch neither the step rows nor the calls.\<close>

fun run_row_event :: "script_event \<Rightarrow> bool" where
  "run_row_event (Drive_Ends how now) = True"
| "run_row_event (Run_Cancelled fenced ok now) = True"
| "run_row_event (Resume_Arrives row_read decisions) = True"
| "run_row_event (Generation_Written fate) = True"
| "run_row_event (Row_Reopened reopened materialised) = True"
| "run_row_event e = False"

lemma run_row_event_sel:
  assumes "run_row_event e"
  shows "j_steps (sw_journal (script_step parse store snapshot_ok approved run_id e w)) = j_steps (sw_journal w)"
    and "sw_flight (script_step parse store snapshot_ok approved run_id e w) = sw_flight w"
    and "granted_of (sw_drive (script_step parse store snapshot_ok approved run_id e w)) = granted_of (sw_drive w)"
    and "sw_dispatched (script_step parse store snapshot_ok approved run_id e w) = sw_dispatched w"
    and "sw_reruns (script_step parse store snapshot_ok approved run_id e w) = sw_reruns w"
    and "sw_unrecorded (script_step parse store snapshot_ok approved run_id e w) = sw_unrecorded w"
    and "sw_overlaps (script_step parse store snapshot_ok approved run_id e w) = sw_overlaps w"
  using assms
  by (cases e; auto simp: end_script_drive_def cancel_script_run_def admit_resume_def resume_gates_def register_resume_def
      redrive_def Let_def split: drive_phase.splits option.splits sum.splits if_splits)+

section \<open>One attempt per consent\<close>

text \<open>The attempts a step still has: one when it was never dispatched, one when a rerun is authorised.\<close>

definition credit :: "string \<Rightarrow> string \<Rightarrow> journal \<Rightarrow> nat" where
  "credit run_id sid j =
     (case get_step run_id sid j of
        None \<Rightarrow> 1
      | Some row \<Rightarrow> if ws_state row = ''rerun_authorized'' then 1 else 0)"

text \<open>The author of the step did not declare that it may be repeated.\<close>

definition careful :: "string \<Rightarrow> step_call \<Rightarrow> bool" where
  "careful sid c \<longleftrightarrow> (sc_step_id c = sid \<longrightarrow> \<not> reexecution_permitted (sc_policy c))"

fun careful_event :: "string \<Rightarrow> script_event \<Rightarrow> bool" where
  "careful_event sid (Call_Enters c) = careful sid c"
| "careful_event sid e = True"

text \<open>A call between the gate and its start holds the attempt that the journal still shows; a second one is an
  overlap.\<close>

definition within_consent :: "string \<Rightarrow> string \<Rightarrow> script_world \<Rightarrow> bool" where
  "within_consent run_id sid w \<longleftrightarrow>
     sw_dispatched w sid + max (credit run_id sid (sw_journal w)) (waiting_calls sid w)
       \<le> sw_reruns w sid + 1 + sw_unrecorded w sid + sw_overlaps w sid
     \<and> (\<forall>f \<in> set (sw_flight w). careful sid (fl_call f))"

lemma within_mono:
  assumes "within_consent run_id sid w" and "sw_dispatched w' sid = sw_dispatched w sid"
    and "credit run_id sid (sw_journal w') \<le> credit run_id sid (sw_journal w)"
    and "waiting_calls sid w' \<le> waiting_calls sid w"
    and "sw_reruns w' sid = sw_reruns w sid" "sw_unrecorded w' sid = sw_unrecorded w sid"
    and "sw_overlaps w' sid = sw_overlaps w sid"
    and "\<forall>f \<in> set (sw_flight w'). careful sid (fl_call f)"
  shows "within_consent run_id sid w'"
  using assms unfolding within_consent_def by linarith

lemma length_filter_update:
  "n < length xs \<Longrightarrow> length (filter P (xs[n := y])) + (if P (xs ! n) then 1 else 0)
     = length (filter P xs) + (if P y then 1 else 0)"
proof (induction xs arbitrary: n)
  case (Cons x xs)
  then show ?case by (cases n) auto
qed simp

lemma waiting_set_stage:
  assumes "n < length (sw_flight w)"
  shows "waiting_calls sid (set_stage n stage w) + (if awaits_start sid (sw_flight w ! n) then 1 else 0)
    = waiting_calls sid w
      + (if sc_step_id (fl_call (sw_flight w ! n)) = sid \<and> fl_record (sw_flight w ! n) \<noteq> None \<and> stage = Let_Through
         then 1 else 0)"
  using length_filter_update[OF assms, of "awaits_start sid" "(sw_flight w ! n) \<lparr> fl_stage := stage \<rparr>"]
  by (simp add: waiting_calls_def set_stage_def awaits_start_def)

lemma waiting_flight: "sw_flight w' = sw_flight w \<Longrightarrow> waiting_calls sid w' = waiting_calls sid w"
  by (simp add: waiting_calls_def)

lemma careful_set_stage:
  assumes "\<forall>f \<in> set (sw_flight w). careful sid (fl_call f)"
  shows "\<forall>f \<in> set (sw_flight (set_stage n stage w)). careful sid (fl_call f)"
proof (cases "n < length (sw_flight w)")
  case True
  then show ?thesis
    using assms set_update_subset_insert[of "sw_flight w" n "(sw_flight w ! n) \<lparr> fl_stage := stage \<rparr>"]
    by (auto simp: set_stage_def)
next
  case False
  then show ?thesis using assms by (simp add: set_stage_def list_update_beyond)
qed

lemma settled_not_authorised:
  "st_state (settled_state t e r st) \<notin> {''rerun_authorized'', ''replay_authorized'', ''running''}"
  by (auto simp: settled_state_def Let_def split: option.splits)

lemma settle_credit:
  "credit run_id sid (sw_journal (settle_call store run_id rec c t e m s r w)) \<le> credit run_id sid (sw_journal w)"
proof (cases rec)
  case (Some i)
  show ?thesis
    using settled_not_authorised[of t e r "seen_step i (sc_step_id c) w"] Some
    by (auto simp: settle_call_def Let_def credit_def get_step_settle split: option.split)
qed (simp add: settle_call_def)

lemma enter_within:
  assumes "within_consent run_id sid w" and "careful sid c"
  shows "within_consent run_id sid (w \<lparr> sw_flight := sw_flight w @ [\<lparr> fl_call = c, fl_record = rec, fl_stage = Entered \<rparr>] \<rparr>)"
  using assms by (auto simp: within_consent_def waiting_calls_def awaits_start_def)

lemma gated_within:
  assumes within: "within_consent run_id sid w" and stage: "in_stage n {Entered} w"
  shows "within_consent run_id sid (pass_gate parse store run_id n w)"
proof -
  let ?f = "sw_flight w ! n" let ?c = "fl_call ?f"
  have n: "n < length (sw_flight w)" and entered: "fl_stage ?f = Entered" using stage by (auto simp: in_stage_def)
  have careful: "\<forall>f \<in> set (sw_flight w). careful sid (fl_call f)" using within by (simp add: within_consent_def)
  have answered: "within_consent run_id sid (set_stage n Answered w1)"
    if "sw_flight w1 = sw_flight w" "sw_dispatched w1 = sw_dispatched w" "sw_reruns w1 = sw_reruns w"
      "sw_unrecorded w1 = sw_unrecorded w" "sw_overlaps w1 = sw_overlaps w"
      "credit run_id sid (sw_journal w1) \<le> credit run_id sid (sw_journal w)" for w1
    using that n waiting_set_stage[of n w1 sid Answered] waiting_flight[of w1 w sid] careful
      careful_set_stage[of w1 sid n Answered]
    by (intro within_mono[OF within]) simp_all
  have through: "within_consent run_id sid ((set_stage n Let_Through w) \<lparr> sw_overlaps :=
        (if fl_record ?f \<noteq> None \<and> 0 < waiting_calls (sc_step_id ?c) w then count_one (sc_step_id ?c) (sw_overlaps w)
         else sw_overlaps w) \<rparr>)"
    if "fl_record ?f = None \<or> (\<exists>d. decide parse run_id (sc_step_id ?c) (sc_fingerprint ?c) (sc_policy ?c) (sw_journal w)
        = Inr d \<and> rd_verdict d = EXECUTE)"
  proof -
    have one: "credit run_id sid (sw_journal w) = 1" if "sc_step_id ?c = sid" "fl_record ?f \<noteq> None"
    proof -
      have "careful sid ?c" using careful n nth_mem by blast
      with that show ?thesis
        using \<open>fl_record ?f = None \<or> _\<close> execute_only_fresh_or_authorised
        by (fastforce simp: careful_def credit_def split: option.splits)
    qed
    have "waiting_calls sid (w \<lparr> sw_overlaps := v \<rparr>) = waiting_calls sid w" for v w
      by (simp add: waiting_calls_def)
    then show ?thesis
      using within one waiting_set_stage[OF n, of sid Let_Through] entered careful_set_stage[OF careful, of n Let_Through]
      by (auto simp: within_consent_def awaits_start_def count_one_def max_def split: if_splits)
  qed
  show ?thesis
  proof (rule gate_call_cases[of parse store run_id "fl_record ?f" ?c w])
    fix answer e assume "gate_call parse store run_id (fl_record ?f) ?c w
        = (Some answer, settle_call store run_id (fl_record ?f) ?c None (Some e) None None None w)"
    then show ?thesis using answered settle_credit by (simp add: pass_gate_def Let_def)
  qed (use answered through in \<open>auto simp: pass_gate_def Let_def\<close>)
qed

lemma ready_within:
  assumes within: "within_consent run_id sid w" and stage: "in_stage n {Let_Through} w"
  shows "within_consent run_id sid
    (set_stage n Started (terminal_ready run_id (fl_record (sw_flight w ! n)) (fl_call (sw_flight w ! n)) t w))"
proof -
  let ?f = "sw_flight w ! n" let ?c = "fl_call ?f"
  let ?w = "terminal_ready run_id (fl_record ?f) ?c t w"
  have n: "n < length (sw_flight w)" and through: "fl_stage ?f = Let_Through" using stage by (auto simp: in_stage_def)
  have careful: "\<forall>f \<in> set (sw_flight w). careful sid (fl_call f)" using within by (simp add: within_consent_def)
  have waiting: "waiting_calls sid (set_stage n Started ?w)
      + (if sc_step_id ?c = sid \<and> fl_record ?f \<noteq> None then 1 else 0) = waiting_calls sid w"
    using waiting_set_stage[of n ?w sid Started] waiting_flight[of ?w w sid] n through by (simp add: awaits_start_def)
  have credit: "credit run_id sid (sw_journal ?w) =
      (if sc_step_id ?c = sid \<and> fl_record ?f \<noteq> None \<and> sc_begin_ok ?c then 0 else credit run_id sid (sw_journal w))"
    by (auto simp: credit_def get_step_begin split: option.split)
  show ?thesis
    using within waiting credit careful_set_stage[of ?w sid n Started] careful
    by (auto simp: within_consent_def count_one_def max_def split: if_splits)
qed

lemma answered_within:
  assumes within: "within_consent run_id sid w" and stage: "in_stage n stages w"
  shows "within_consent run_id sid
    (set_stage n Answered (snd (answer_call store run_id rec c outcome w)))"
proof -
  have n: "n < length (sw_flight w)" using stage by (simp add: in_stage_def)
  have careful: "\<forall>f \<in> set (sw_flight w). careful sid (fl_call f)" using within by (simp add: within_consent_def)
  show ?thesis
  proof (rule answer_call_cases[of store run_id rec c outcome w])
    assume "snd (answer_call store run_id rec c outcome w) = w"
    then show ?thesis
      using waiting_set_stage[OF n, of sid Answered] careful_set_stage[OF careful, of n Answered]
      by (intro within_mono[OF within]) (simp_all split: if_splits)
  next
    fix t e m s r assume *: "snd (answer_call store run_id rec c outcome w) = settle_call store run_id rec c t e m s r w"
    let ?w = "settle_call store run_id rec c t e m s r w"
    show ?thesis
      using * n waiting_set_stage[of n ?w sid Answered] waiting_flight[of ?w w sid]
        careful careful_set_stage[of ?w sid n Answered] settle_credit[of run_id sid store rec c t e m s r w]
      by (intro within_mono[OF within]) (simp_all split: if_splits)
  qed
qed

text \<open>A decision for a step gives it at most one attempt.\<close>

lemma credit_set_state:
  "credit run_id sid (j \<lparr> j_steps := set_step_state run_id s st rows \<rparr>)
     \<le> credit run_id sid (j \<lparr> j_steps := rows \<rparr>) + (if s = sid \<and> st = ''rerun_authorized'' then 1 else 0)"
  by (auto simp: credit_def fetchone_set_state split: option.splits)

lemma resolve_credit:
  "resolve_decisions decisions known = Inr resolved \<Longrightarrow>
   credit run_id sid (j \<lparr> j_steps := write_states run_id resolved rows \<rparr>)
     \<le> credit run_id sid (j \<lparr> j_steps := rows \<rparr>) + length (filter (\<lambda>d. d = (sid, ''rerun'')) decisions)"
proof (induction decisions arbitrary: resolved rows)
  case Nil
  then show ?case by (simp add: write_states_def)
next
  case (Cons x decisions)
  obtain s v where x: "x = (s, v)" by fastforce
  from Cons.prems obtain d rest where d: "parse_recovery_decision v = Inr d" "resolve_decisions decisions known = Inr rest"
    "resolved = (s, decision_state d) # rest"
    by (auto simp: x split: if_splits sum.splits)
  have "credit run_id sid (j \<lparr> j_steps := write_states run_id rest (set_step_state run_id s (decision_state d) rows) \<rparr>)
    \<le> credit run_id sid (j \<lparr> j_steps := set_step_state run_id s (decision_state d) rows \<rparr>)
       + length (filter (\<lambda>d. d = (sid, ''rerun'')) decisions)"
    by (rule Cons.IH[OF d(2)])
  also have "credit run_id sid (j \<lparr> j_steps := set_step_state run_id s (decision_state d) rows \<rparr>)
    \<le> credit run_id sid (j \<lparr> j_steps := rows \<rparr>) + (if s = sid \<and> v = ''rerun'' then 1 else 0)"
    using credit_set_state[where s = s and sid = sid and st = "decision_state d" and j = j and run_id = run_id and rows = rows] d(1)
    by (auto simp: parse_recovery_decision_def split: if_splits)
  finally show ?case by (auto simp: x d(3) write_states_def split: if_splits)
qed

lemma revoke_step_credit:
  "credit run_id sid (j \<lparr> j_steps := snd (revoke_step run_id s prior rows) \<rparr>)
     \<le> credit run_id sid (j \<lparr> j_steps := rows \<rparr>)"
proof -
  have "fetchone (at_step run_id sid) (update_where (\<lambda>s'. at_step run_id s s' \<and> ws_state s' = a)
          (\<lambda>s. s \<lparr> ws_state := prior \<rparr>) rows)
      = map_option (\<lambda>x. if at_step run_id s x \<and> ws_state x = a then x \<lparr> ws_state := prior \<rparr> else x)
          (fetchone (at_step run_id sid) rows)" for a
    by (rule fetchone_update_where) (simp add: at_step_def)
  then show ?thesis
    by (auto simp: revoke_step_def credit_def AUTHORISED_def split: option.splits)
qed

lemma revoke_loop_credit:
  "credit run_id sid (j \<lparr> j_steps := snd (revoke_loop run_id prior rows) \<rparr>)
     \<le> credit run_id sid (j \<lparr> j_steps := rows \<rparr>)"
proof (induction prior arbitrary: rows)
  case (Cons x prior)
  obtain s v where "x = (s, v)" by fastforce
  then show ?case
    using Cons[of "snd (revoke_step run_id s v rows)"] revoke_step_credit[where run_id = run_id and sid = sid and j = j and s = s and prior = v and rows = rows]
    by (simp add: case_prod_beta Let_def)
qed simp

lemma credit_steps: "j_steps j' = j_steps j \<Longrightarrow> credit run_id sid j' = credit run_id sid j"
  by (simp add: credit_def get_step_def)

lemma finish_resume_sel [simp]:
  "sw_flight (finish_resume run_id ok w) = sw_flight w"
  "sw_dispatched (finish_resume run_id ok w) = sw_dispatched w"
  "sw_reruns (finish_resume run_id ok w) = sw_reruns w"
  "sw_unrecorded (finish_resume run_id ok w) = sw_unrecorded w"
  "sw_overlaps (finish_resume run_id ok w) = sw_overlaps w"
  by (simp_all add: finish_resume_def Let_def case_prod_beta split: drive_phase.split option.split)

lemma finish_resume_journal:
  "sw_journal (finish_resume run_id ok w) =
     (case sw_drive w of
        Resume_Ending rec granted \<Rightarrow>
          if ok then (sw_journal w) \<lparr> j_steps := snd (revoke_loop run_id granted (j_steps (sw_journal w))) \<rparr>
          else sw_journal w
      | _ \<Rightarrow> sw_journal w)"
  by (simp add: finish_resume_def revoke_unconsumed_decisions_def Let_def case_prod_beta
      split: drive_phase.split option.split)

lemma finish_within:
  assumes "within_consent run_id sid w"
  shows "within_consent run_id sid (finish_resume run_id ok w)"
proof -
  have "credit run_id sid (sw_journal (finish_resume run_id ok w)) \<le> credit run_id sid (sw_journal w)"
    using revoke_loop_credit[where run_id = run_id and sid = sid and j = "sw_journal w" and rows = "j_steps (sw_journal w)"]
    by (simp add: finish_resume_journal split: drive_phase.split)
  then show ?thesis
    using assms waiting_flight[of "finish_resume run_id ok w" w sid]
    by (intro within_mono[OF assms]) (simp_all add: within_consent_def)
qed

lemma grant_within:
  assumes "within_consent run_id sid w"
  shows "within_consent run_id sid (grant_decisions run_id fate w)"
proof -
  have drop: "within_consent run_id sid (w \<lparr> sw_drive := d \<rparr>)" for d
    using assms by (simp add: within_consent_def waiting_calls_def)
  have granted: "within_consent run_id sid (w \<lparr> sw_drive := d, sw_journal := j,
      sw_reruns := count_reruns decisions (sw_reruns w) \<rparr>)"
    if ap: "apply_decisions run_id decisions (sw_journal w) = (Inr granted, j)" for decisions granted j d
  proof -
    have "credit run_id sid j \<le> credit run_id sid (sw_journal w)
        + length (filter (\<lambda>d. d = (sid, ''rerun'')) decisions)"
    proof (cases "decisions = []")
      case False
      with ap obtain resolved where r:
        "resolve_decisions decisions (map fst (prior_states run_id (sw_journal w))) = Inr resolved"
        "j = (sw_journal w) \<lparr> j_steps := write_states run_id resolved (j_steps (sw_journal w)) \<rparr>"
        by (auto simp: apply_decisions_def Let_def split: sum.splits)
      show ?thesis
        using resolve_credit[OF r(1), where j = "sw_journal w" and rows = "j_steps (sw_journal w)"] by (simp add: r(2))
    qed (use ap in \<open>simp add: apply_decisions_def\<close>)
    then show ?thesis using assms by (auto simp: within_consent_def waiting_calls_def count_reruns_def)
  qed
  show ?thesis
    using assms drop granted by (auto simp: grant_decisions_def split: drive_phase.split prod.split sum.split)
qed

lemma script_step_within:
  assumes "within_consent run_id sid w" and "careful_event sid e"
  shows "within_consent run_id sid (script_step parse store snapshot_ok approved run_id e w)"
proof (cases "run_row_event e")
  case True
  note sel = run_row_event_sel[OF True, where parse = parse and store = store and snapshot_ok = snapshot_ok
      and approved = approved and run_id = run_id and w = w]
  show ?thesis
    using assms(1) sel(4-7) credit_steps[OF sel(1), of run_id sid] waiting_flight[OF sel(2), of sid]
    by (intro within_mono[OF assms(1)]) (simp_all add: sel(2) within_consent_def)
next
  case False
  show ?thesis
  proof (cases e)
    case (Call_Enters c)
    then show ?thesis using assms enter_within by (auto split: sum.split)
  next
    case (Call_Gated n)
    then show ?thesis using assms(1) gated_within by simp
  next
    case (Call_Ready n t)
    then show ?thesis using assms(1) ready_within by (simp add: Let_def)
  next
    case (Call_Answered n outcome)
    then show ?thesis using assms(1) answered_within by (simp add: Let_def)
  next
    case Server_Restarts
    then show ?thesis
      using assms(1) by (auto simp: within_consent_def waiting_calls_def)
  qed (use assms(1) False grant_within finish_within in simp_all)
qed

lemma run_script_within:
  assumes "within_consent run_id sid w" and "\<forall>e \<in> set events. careful_event sid e"
  shows "within_consent run_id sid (run_script parse store snapshot_ok approved run_id events w)"
  using assms
proof (induction events arbitrary: w)
  case (Cons e events)
  have "within_consent run_id sid (script_step parse store snapshot_ok approved run_id e w)"
    using Cons.prems by (intro script_step_within) auto
  then show ?case using Cons by (simp add: run_script_def)
qed (simp add: run_script_def)

text \<open>A run as it starts, and the events of a call that nothing interrupts.\<close>

definition ex_script_run :: workflow_run_row where
  "ex_script_run = new_run_row ''r1'' ''wf'' ''snap'' ''{}'' ''running'' ''t0'' ''script'' ''1'' None"

definition ex_idle_world :: "journal \<Rightarrow> script_world" where
  "ex_idle_world j = \<lparr> sw_journal = j, sw_records = [], sw_live = None, sw_drive = No_Drive, sw_flight = [],
     sw_dispatched = (\<lambda>_. 0), sw_reruns = (\<lambda>_. 0), sw_unrecorded = (\<lambda>_. 0), sw_overlaps = (\<lambda>_. 0) \<rparr>"

definition ex_script_world :: script_world where
  "ex_script_world = snd (start_script_run True True ex_script_run True (ex_idle_world empty_journal))"

definition ex_call :: "string \<Rightarrow> step_call" where
  "ex_call generation = \<lparr> sc_step_id = ''plan'', sc_fingerprint = ''v2:abc'', sc_policy = None,
     sc_generation = generation, sc_now = ''t'', sc_read_error = None, sc_begin_ok = True, sc_settle_ok = True \<rparr>"

definition whole_call :: "nat \<Rightarrow> step_call \<Rightarrow> agent_outcome \<Rightarrow> script_event list" where
  "whole_call n c outcome = [Call_Enters c, Call_Gated n]
     @ (case outcome_ready outcome of None \<Rightarrow> [] | Some t \<Rightarrow> [Call_Ready n t]) @ [Call_Answered n outcome]"

definition whole_resume :: "string \<Rightarrow> (string \<times> string) list \<Rightarrow> script_event list" where
  "whole_resume generation decisions = [Resume_Arrives (Some (ex_script_run \<lparr> wr_generation := generation \<rparr>)) decisions,
     Decisions_Applied Carried_Out, Generation_Written Carried_Out, Row_Reopened True True]"

abbreviation script_history :: "script_event list \<Rightarrow> script_world \<Rightarrow> script_world" where
  "script_history \<equiv> run_script ex_parse (\<lambda>m s t. m) (\<lambda>_. True) (\<lambda>_. True) ''r1''"

text \<open>(C5) One consent, one attempt. Take a step whose author did not declare that repeating it is safe, in a
  run whose journal has never seen it. Then let anything happen, in any order: calls of the route enter, pass
  the gate, get a terminal and are answered, each write carried out or failing; the drive ends, the run is
  cancelled, resumes with any decisions are refused, fail at any of their writes or drive the script again;
  the server restarts at any moment and a script of before goes on calling. The agent of the step is started
  at most once, plus once for every rerun of it a human granted, plus once for every start that left no
  running row (the best-effort write failed, or the call found no live record and passed the gate by), plus
  once for every call the gate let through while another call of the step stood between the gate and its
  start. The last two are the cases in which the source does start a step again without consent; the
  histories at the end of the theory show each of them.\<close>

theorem one_attempt_per_consent:
  assumes "get_step run_id sid (sw_journal w) = None" and "sw_dispatched w sid = 0" and "sw_flight w = []"
    and "\<forall>e \<in> set events. careful_event sid e"
  shows "sw_dispatched (run_script parse store snapshot_ok approved run_id events w) sid
    \<le> 1 + sw_reruns (run_script parse store snapshot_ok approved run_id events w) sid
        + sw_unrecorded (run_script parse store snapshot_ok approved run_id events w) sid
        + sw_overlaps (run_script parse store snapshot_ok approved run_id events w) sid"
proof -
  have "within_consent run_id sid w"
    using assms(1-3) by (simp add: within_consent_def credit_def waiting_calls_def)
  from run_script_within[OF this assms(4), of parse store snapshot_ok approved] show ?thesis
    by (simp add: within_consent_def)
qed

text \<open>The agent dies, the server restarts, a human grants a rerun, the agent dies again; the third call of the
  step is halted at the gate. Two starts for one consent, and nothing else to charge.\<close>

definition ex_died :: "script_event list" where
  "ex_died = whole_call 0 (ex_call ''1'') (Agent_Dies (Some ''w1'')) @ [Server_Restarts]
     @ whole_resume ''1'' [(''plan'', ''rerun'')] @ whole_call 0 (ex_call ''2'') (Agent_Dies (Some ''w2''))
     @ whole_call 1 (ex_call ''2'') (Agent_Dies (Some ''w3'')) @ [Drive_Ends (Exited False True) ''t9'', Resume_Ends True]"

theorem one_attempt_per_consent_witness:
  "sw_dispatched (script_history ex_died ex_script_world) ''plan'' = 2
   \<and> sw_unrecorded (script_history ex_died ex_script_world) ''plan'' + sw_overlaps (script_history ex_died ex_script_world) ''plan'' = 0
   \<and> sw_dispatched (script_history ex_died ex_script_world) ''plan''
      \<le> 1 + sw_reruns (script_history ex_died ex_script_world) ''plan''
        + sw_unrecorded (script_history ex_died ex_script_world) ''plan'' + sw_overlaps (script_history ex_died ex_script_world) ''plan''"
proof (intro conjI)
  show "sw_dispatched (script_history ex_died ex_script_world) ''plan'' = 2" by code_simp
  show "sw_unrecorded (script_history ex_died ex_script_world) ''plan'' + sw_overlaps (script_history ex_died ex_script_world) ''plan'' = 0"
    by code_simp
  show "sw_dispatched (script_history ex_died ex_script_world) ''plan''
      \<le> 1 + sw_reruns (script_history ex_died ex_script_world) ''plan''
        + sw_unrecorded (script_history ex_died ex_script_world) ''plan'' + sw_overlaps (script_history ex_died ex_script_world) ''plan''"
  proof (rule one_attempt_per_consent)
    show "get_step ''r1'' ''plan'' (sw_journal ex_script_world) = None" by code_simp
    show "sw_dispatched ex_script_world ''plan'' = 0" by code_simp
    show "sw_flight ex_script_world = []"
      by (simp add: ex_script_world_def ex_idle_world_def start_script_run_def)
    show "\<forall>e \<in> set ex_died. careful_event ''plan'' e"
      by (simp add: ex_died_def whole_call_def whole_resume_def careful_def ex_call_def reexecution_permitted_def)
  qed
qed

section \<open>Consent ends with the resume it was given to\<close>

definition authorised :: "string \<Rightarrow> string \<Rightarrow> journal \<Rightarrow> bool" where
  "authorised run_id sid j \<longleftrightarrow>
     (case get_step run_id sid j of None \<Rightarrow> False | Some row \<Rightarrow> ws_state row \<in> set AUTHORISED)"

abbreviation keys_ok :: "step_row list \<Rightarrow> bool" where
  "keys_ok rows \<equiv> distinct (map step_key rows)"

lemma at_step_iff: "at_step r s x \<longleftrightarrow> step_key x = (r, s)"
  by (simp add: at_step_def step_key_def)

lemma keys_update_where [simp]:
  "(\<And>x. step_key (f x) = step_key x) \<Longrightarrow> map step_key (update_where P f rows) = map step_key rows"
  by (rule map_update_where_key)

lemma keys_upsert:
  assumes "keys_ok rows" and "\<And>x. step_key (f x) = step_key x"
  shows "keys_ok (upsert_step row f rows)"
  using assms by (auto simp: upsert_step_def)

lemma keys_begin: "keys_ok (j_steps j) \<Longrightarrow> keys_ok (j_steps (begin_step r s n f j))"
  by (simp add: begin_step_def keys_upsert)

lemma keys_settle: "keys_ok (j_steps j) \<Longrightarrow> keys_ok (j_steps (snd (settle_step r s st n res out err j)))"
  by (simp add: settle_step_def keys_upsert)

lemma keys_write_states [simp]: "map step_key (write_states run_id resolved rows) = map step_key rows"
  unfolding write_states_def
  by (induction resolved arbitrary: rows) (auto simp: set_step_state_def)

text \<open>A property of the journal that every bookkeeping write of a call and of a drive keeps is kept by every event
  that neither applies decisions nor revokes them.\<close>

locale journal_property =
  fixes run_id :: string and P :: "journal \<Rightarrow> bool"
  assumes begin_keeps: "P j \<Longrightarrow> P (begin_step run_id sid now fp j)"
    and settle_keeps: "P j \<Longrightarrow> st \<notin> {''rerun_authorized'', ''replay_authorized'', ''running''} \<Longrightarrow>
      P (snd (settle_step run_id sid st now res out err j))"
    and steps_keep: "P j \<Longrightarrow> j_steps j' = j_steps j \<Longrightarrow> P j'"
begin

lemma ready_keeps: "P (sw_journal w) \<Longrightarrow> P (sw_journal (terminal_ready run_id rec c t w))"
  by (simp add: begin_keeps)

lemma settles_keep: "P (sw_journal w) \<Longrightarrow> P (sw_journal (settle_call store run_id rec c t e m s r w))"
proof (cases rec)
  case (Some i)
  show "P (sw_journal w) \<Longrightarrow> ?thesis"
    using settled_not_authorised[of t e r "seen_step i (sc_step_id c) w"] Some
    by (simp add: settle_call_def Let_def settle_keeps)
qed (simp add: settle_call_def)

lemma gate_keeps: "P (sw_journal w) \<Longrightarrow> P (sw_journal (snd (gate_call parse store run_id rec c w)))"
  by (rule gate_call_cases[of parse store run_id rec c w]) (simp_all add: settles_keep)

lemma answer_keeps: "P (sw_journal w) \<Longrightarrow> P (sw_journal (snd (answer_call store run_id rec c outcome w)))"
  by (rule answer_call_cases[of store run_id rec c outcome w]) (simp_all add: settles_keep)

lemma pass_keeps: "P (sw_journal w) \<Longrightarrow> P (sw_journal (pass_gate parse store run_id n w))"
  by (simp add: pass_gate_sel gate_keeps)

lemma event_keeps:
  assumes "P (sw_journal w)" and "e \<noteq> Decisions_Applied ok" and "e \<noteq> Resume_Ends True"
    and "\<And>ok. e = Decisions_Applied ok \<Longrightarrow> False"
  shows "P (sw_journal (script_step parse store snapshot_ok approved run_id e w))"
proof (cases "run_row_event e")
  case True
  then show ?thesis using assms(1) run_row_event_sel(1) steps_keep by blast
next
  case False
  show ?thesis
  proof (cases e)
    case (Resume_Ends ok)
    then show ?thesis using assms(1,3) by (simp add: finish_resume_journal split: drive_phase.split)
  qed (use assms False in \<open>auto simp: ready_keeps pass_keeps answer_keeps Let_def begin_keeps split: sum.split\<close>)
qed

end

lemma authorised_begin: "\<not> authorised r sid j \<Longrightarrow> \<not> authorised r sid (begin_step r s n f j)"
  by (auto simp: authorised_def get_step_begin AUTHORISED_def split: option.splits)

lemma authorised_settle:
  "\<not> authorised r sid j \<Longrightarrow> st \<notin> {''rerun_authorized'', ''replay_authorized'', ''running''} \<Longrightarrow>
   \<not> authorised r sid (snd (settle_step r s st n res out err j))"
  by (auto simp: authorised_def get_step_settle AUTHORISED_def split: option.splits)

lemma authorised_steps: "j_steps j' = j_steps j \<Longrightarrow> authorised r s j' = authorised r s j"
  by (simp add: authorised_def get_step_def)

text \<open>The laws on the model: no such event authorises anything, and each keeps the key of the table.\<close>

interpretation unauthorised: journal_property run_id "\<lambda>j. \<not> authorised run_id sid j" for run_id sid
proof unfold_locales
  show "\<not> authorised run_id sid (begin_step run_id s now fp j)" if "\<not> authorised run_id sid j" for j s now fp
    using that by (rule authorised_begin)
  show "\<not> authorised run_id sid (snd (settle_step run_id s st now res out err j))"
    if "\<not> authorised run_id sid j" "st \<notin> {''rerun_authorized'', ''replay_authorized'', ''running''}"
    for j s st now res out err
    using that by (rule authorised_settle)
  show "\<not> authorised run_id sid j'" if "\<not> authorised run_id sid j" "j_steps j' = j_steps j" for j j'
    using that authorised_steps by blast
qed

interpretation keyed: journal_property run_id "\<lambda>j. keys_ok (j_steps j)" for run_id
  by unfold_locales (simp_all add: keys_begin keys_settle)

text \<open>With the key in place a revocation is one guarded update.\<close>

lemma revoke_step_eq:
  assumes "keys_ok rows" and "prior \<notin> set AUTHORISED"
  shows "snd (revoke_step r s prior rows)
    = update_where (\<lambda>x. at_step r s x \<and> ws_state x \<in> set AUTHORISED) (\<lambda>x. x \<lparr> ws_state := prior \<rparr>) rows"
proof (cases "find (\<lambda>a. \<exists>x \<in> set rows. at_step r s x \<and> ws_state x = a) AUTHORISED")
  case None
  then have "\<forall>x \<in> set rows. \<not> (at_step r s x \<and> ws_state x \<in> set AUTHORISED)"
    by (auto simp: find_None_iff)
  then have "update_where (\<lambda>x. at_step r s x \<and> ws_state x \<in> set AUTHORISED) (\<lambda>x. x \<lparr> ws_state := prior \<rparr>) rows = rows"
    unfolding update_where_def by (intro map_idI) auto
  with None assms(2) show ?thesis by (simp add: revoke_step_def)
next
  case (Some a)
  then obtain x where x: "x \<in> set rows" "at_step r s x" "ws_state x = a" and a: "a \<in> set AUTHORISED"
    by (auto simp: find_Some_iff)
  have "at_step r s y \<Longrightarrow> y = x" if "y \<in> set rows" for y
    using that x(1,2) key_unique[OF assms(1)] by (simp add: at_step_iff)
  then have "update_where (\<lambda>x. at_step r s x \<and> ws_state x = a) (\<lambda>x. x \<lparr> ws_state := prior \<rparr>) rows
      = update_where (\<lambda>x. at_step r s x \<and> ws_state x \<in> set AUTHORISED) (\<lambda>x. x \<lparr> ws_state := prior \<rparr>) rows"
    unfolding update_where_def using x(3) a by (intro map_cong) auto
  with Some assms(2) show ?thesis by (simp add: revoke_step_def)
qed

definition restore_row :: "string \<Rightarrow> (string \<times> string) \<Rightarrow> step_row \<Rightarrow> step_row" where
  "restore_row r g x = (if at_step r (fst g) x \<and> ws_state x \<in> set AUTHORISED then x \<lparr> ws_state := snd g \<rparr> else x)"

lemma step_key_restore [simp]: "step_key (restore_row r g x) = step_key x"
  by (simp add: restore_row_def)

lemma revoke_loop_eq:
  assumes "keys_ok rows" and "\<forall>g \<in> set granted. snd g \<notin> set AUTHORISED"
  shows "snd (revoke_loop r granted rows) = map (\<lambda>x. fold (restore_row r) granted x) rows"
  using assms
proof (induction granted arbitrary: rows)
  case (Cons g granted)
  obtain s prior where g: "g = (s, prior)" by fastforce
  have "snd (revoke_step r s prior rows) = map (restore_row r g) rows"
    using revoke_step_eq[OF Cons.prems(1)] Cons.prems(2) by (simp add: g update_where_def restore_row_def)
  moreover have "keys_ok (map (restore_row r g) rows)" using Cons.prems(1) by (simp add: comp_def)
  ultimately show ?case
    using Cons.IH[of "map (restore_row r g) rows"] Cons.prems(2)
    by (simp add: g case_prod_beta Let_def comp_def)
qed simp

definition write_row :: "string \<Rightarrow> (string \<times> string) \<Rightarrow> step_row \<Rightarrow> step_row" where
  "write_row r g x = (if at_step r (fst g) x then x \<lparr> ws_state := snd g \<rparr> else x)"

lemma write_states_eq:
  "write_states r resolved rows
   = map (\<lambda>x. fold (write_row r) resolved x) rows"
proof (induction resolved arbitrary: rows)
  case (Cons x resolved)
  then show ?case
    by (cases x) (simp add: write_states_def set_step_state_def update_where_def comp_def write_row_def)
qed (simp add: write_states_def)

lemma fold_restore_other:
  "ws_step_id x \<notin> fst ` set granted \<or> ws_run_id x \<noteq> r \<Longrightarrow> fold (restore_row r) granted x = x"
  by (induction granted) (auto simp: restore_row_def at_step_def)

lemma fold_write_other:
  "ws_step_id x \<notin> fst ` set resolved \<or> ws_run_id x \<noteq> r \<Longrightarrow>
   fold (write_row r) resolved x = x"
  by (induction resolved) (auto simp: write_row_def at_step_def)

lemma resolved_states:
  "resolve_decisions decisions known = Inr resolved \<Longrightarrow>
   map fst resolved = map fst decisions \<and> (\<forall>g \<in> set resolved. snd g \<in> set AUTHORISED) \<and> (\<forall>d \<in> set decisions. fst d \<in> set known)"
  by (induction decisions arbitrary: resolved)
     (fastforce simp: AUTHORISED_def parse_recovery_decision_def split: if_splits sum.splits)+

lemma map_of_prior: "map_of (prior_states r j) s = map_option ws_state (get_step r s j)"
proof -
  have "map_of (map (\<lambda>x. (ws_step_id x, ws_state x)) (filter (\<lambda>x. ws_run_id x = r) rows)) s
      = map_option ws_state (fetchone (at_step r s) rows)" for rows
    by (induction rows) (auto simp: fetchone_def at_step_def)
  then show ?thesis by (simp add: prior_states_def get_steps_def get_step_def)
qed

lemma fold_write_then_restore:
  assumes dist: "distinct (map fst resolved)" and auth: "\<forall>g \<in> set resolved. snd g \<in> set AUTHORISED"
    and prior: "\<And>s st. (s, st) \<in> set resolved \<Longrightarrow> ws_step_id x = s \<Longrightarrow> ws_run_id x = r \<Longrightarrow> p s = ws_state x"
  shows "fold (restore_row r) (map (\<lambda>(s, _). (s, p s)) resolved)
      (fold (write_row r) resolved x) = x"
proof (cases "ws_run_id x = r \<and> ws_step_id x \<in> fst ` set resolved")
  case False
  then have "fold (write_row r) resolved x = x"
    by (intro fold_write_other) auto
  moreover have "fold (restore_row r) (map (\<lambda>(s, _). (s, p s)) resolved) x = x"
    using False by (intro fold_restore_other) (auto simp: image_iff)
  ultimately show ?thesis by simp
next
  case True
  then obtain st where st: "(ws_step_id x, st) \<in> set resolved" by fastforce
  then obtain as bs where split: "resolved = as @ (ws_step_id x, st) # bs" by (meson split_list)
  with dist have out: "ws_step_id x \<notin> fst ` set as" "ws_step_id x \<notin> fst ` set bs" by auto
  let ?y = "x \<lparr> ws_state := st \<rparr>"
  have w: "fold (write_row r) resolved x = ?y"
    using True out fold_write_other[of x as r] fold_write_other[of ?y bs r]
    by (simp add: split write_row_def at_step_def)
  have "st \<in> set AUTHORISED" using auth st by fastforce
  moreover have "p (ws_step_id x) = ws_state x" using prior[OF st] True by simp
  moreover have "fold (restore_row r) (map (\<lambda>(s, _). (s, p s)) as) ?y = ?y"
    using out(1) by (intro fold_restore_other) (auto simp: image_iff)
  moreover have "fold (restore_row r) (map (\<lambda>(s, _). (s, p s)) bs) x = x"
    using out(2) by (intro fold_restore_other) (auto simp: image_iff)
  ultimately show ?thesis
    using True by (simp add: w) (simp add: split restore_row_def at_step_def)
qed

text \<open>(C37) Granting and revoking is a round trip. When decisions are applied to a run none of whose decided
  steps was authorised already, and nothing consumes them, revoking what was granted restores the journal
  exactly: the whole row of every step, also the evidence of earlier attempts.\<close>

theorem grant_revoke_roundtrip:
  assumes "apply_decisions run_id decisions j = (Inr granted, j1)"
    and "keys_ok (j_steps j)" and "distinct (map fst decisions)"
    and "\<forall>g \<in> set granted. snd g \<notin> set AUTHORISED"
  shows "snd (revoke_unconsumed_decisions run_id granted j1) = j"
proof (cases "decisions = []")
  case True
  then show ?thesis using assms(1) by (simp add: apply_decisions_def revoke_unconsumed_decisions_def)
next
  case False
  let ?prior = "prior_states run_id j"
  from assms(1) False obtain resolved where r: "resolve_decisions decisions (map fst ?prior) = Inr resolved"
    and g: "granted = map (\<lambda>(s, _). (s, the (map_of ?prior s))) resolved"
    and j1: "j1 = j \<lparr> j_steps := write_states run_id resolved (j_steps j) \<rparr>"
    by (auto simp: apply_decisions_def Let_def split: sum.splits)
  note res = resolved_states[OF r]
  have row: "the (map_of ?prior (ws_step_id x)) = ws_state x"
    if "x \<in> set (j_steps j)" "ws_run_id x = run_id" for x
  proof -
    have "fetchone (\<lambda>y. step_key y = step_key x) (j_steps j) = Some x" using assms(2) that(1) by (rule fetchone_key)
    moreover have "at_step run_id (ws_step_id x) = (\<lambda>y. step_key y = step_key x)"
      using that(2) by (auto simp: fun_eq_iff at_step_def step_key_def)
    ultimately show ?thesis by (simp add: map_of_prior get_step_def)
  qed
  have "keys_ok (write_states run_id resolved (j_steps j))" using assms(2) by simp
  then have "snd (revoke_loop run_id granted (write_states run_id resolved (j_steps j)))
      = map (fold (restore_row run_id) granted) (write_states run_id resolved (j_steps j))"
    using revoke_loop_eq assms(4) by metis
  also have "\<dots> = j_steps j"
    unfolding write_states_eq map_map
  proof (rule map_idI)
    fix x assume x: "x \<in> set (j_steps j)"
    have "fold (restore_row run_id) granted (fold (write_row run_id) resolved x) = x"
      unfolding g
    proof (rule fold_write_then_restore)
      show "distinct (map fst resolved)" using res assms(3) by simp
      show "\<forall>g \<in> set resolved. snd g \<in> set AUTHORISED" using res by blast
      show "the (map_of ?prior s) = ws_state x" if "ws_step_id x = s" "ws_run_id x = run_id" for s
        using row[OF x that(2)] that(1) by simp
    qed
    then show "(fold (restore_row run_id) granted \<circ> fold (write_row run_id) resolved) x = x" by simp
  qed
  finally show ?thesis by (simp add: revoke_unconsumed_decisions_def case_prod_beta Let_def j1)
qed

theorem grant_revoke_roundtrip_witness:
  "apply_decisions ''r1'' [(''plan'', ''skip'')] ex_completed \<noteq> (Inr [(''plan'', ''completed'')], ex_completed)
   \<and> snd (revoke_unconsumed_decisions ''r1'' [(''plan'', ''completed'')]
        (snd (apply_decisions ''r1'' [(''plan'', ''skip'')] ex_completed))) = ex_completed"
proof
  show "apply_decisions ''r1'' [(''plan'', ''skip'')] ex_completed \<noteq> (Inr [(''plan'', ''completed'')], ex_completed)"
    by code_simp
  have "fst (apply_decisions ''r1'' [(''plan'', ''skip'')] ex_completed) = Inr [(''plan'', ''completed'')]"
    by code_simp
  then have "apply_decisions ''r1'' [(''plan'', ''skip'')] ex_completed
      = (Inr [(''plan'', ''completed'')], snd (apply_decisions ''r1'' [(''plan'', ''skip'')] ex_completed))"
    by (metis prod.collapse)
  then show "snd (revoke_unconsumed_decisions ''r1'' [(''plan'', ''completed'')]
        (snd (apply_decisions ''r1'' [(''plan'', ''skip'')] ex_completed))) = ex_completed"
  proof (rule grant_revoke_roundtrip)
    show "keys_ok (j_steps ex_completed)" by code_simp
    show "distinct (map fst [(''plan'', ''skip'')])" by simp
    show "\<forall>g \<in> set [(''plan'', ''completed'')]. snd g \<notin> set AUTHORISED" by code_simp
  qed
qed

text \<open>A revocation never authorises, and it takes back what was granted over an unauthorised state.\<close>

lemma fetchone_map_key:
  assumes "\<And>x. step_key (f x) = step_key x"
  shows "fetchone (at_step r s) (map f rows) = map_option f (fetchone (at_step r s) rows)"
  using assms by (induction rows) (auto simp: fetchone_def at_step_iff)

lemma revoke_step_authorised:
  "authorised r sid (j \<lparr> j_steps := snd (revoke_step r s prior rows) \<rparr>) \<Longrightarrow> authorised r sid (j \<lparr> j_steps := rows \<rparr>)"
proof -
  have "fetchone (at_step r sid) (update_where (\<lambda>s'. at_step r s s' \<and> ws_state s' = a)
          (\<lambda>s. s \<lparr> ws_state := prior \<rparr>) rows)
      = map_option (\<lambda>x. if at_step r s x \<and> ws_state x = a then x \<lparr> ws_state := prior \<rparr> else x)
          (fetchone (at_step r sid) rows)" for a
    by (rule fetchone_update_where) (simp add: at_step_def)
  then show "authorised r sid (j \<lparr> j_steps := snd (revoke_step r s prior rows) \<rparr>) \<Longrightarrow>
      authorised r sid (j \<lparr> j_steps := rows \<rparr>)"
    by (auto simp: revoke_step_def authorised_def simp del: fetchone_None_iff split: option.splits if_splits)
qed

lemma revoke_loop_authorised:
  "authorised r sid (j \<lparr> j_steps := snd (revoke_loop r granted rows) \<rparr>) \<Longrightarrow> authorised r sid (j \<lparr> j_steps := rows \<rparr>)"
proof (induction granted arbitrary: rows)
  case (Cons g granted)
  obtain s p where g: "g = (s, p)" by fastforce
  have "authorised r sid (j \<lparr> j_steps := snd (revoke_loop r granted (snd (revoke_step r s p rows))) \<rparr>)"
    using Cons.prems by (simp add: g case_prod_beta Let_def)
  then have "authorised r sid (j \<lparr> j_steps := snd (revoke_step r s p rows) \<rparr>)" by (rule Cons.IH)
  then show ?case by (rule revoke_step_authorised)
qed simp

lemma keys_revoke_step: "keys_ok rows \<Longrightarrow> keys_ok (snd (revoke_step r s prior rows))"
  by (auto simp: revoke_step_def split: option.splits)

lemma keys_revoke_loop: "keys_ok rows \<Longrightarrow> keys_ok (snd (revoke_loop r granted rows))"
proof (induction granted arbitrary: rows)
  case (Cons g granted)
  obtain s p where g: "g = (s, p)" by fastforce
  show ?case using Cons.IH[OF keys_revoke_step[OF Cons.prems]] by (simp add: g case_prod_beta Let_def)
qed simp

lemma revoke_loop_takes_back:
  assumes "keys_ok rows" and "(sid, prior) \<in> set granted" and "prior \<notin> set AUTHORISED"
  shows "\<not> authorised r sid (j \<lparr> j_steps := snd (revoke_loop r granted rows) \<rparr>)"
  using assms
proof (induction granted arbitrary: rows)
  case (Cons g granted)
  obtain s p where g: "g = (s, p)" by fastforce
  let ?rows = "snd (revoke_step r s p rows)"
  show ?case
  proof (cases "g = (sid, prior)")
    case True
    then have "?rows = map (restore_row r g) rows"
      using revoke_step_eq[OF Cons.prems(1,3)] by (simp add: g update_where_def restore_row_def)
    then have "\<not> authorised r sid (j \<lparr> j_steps := ?rows \<rparr>)"
      using True Cons.prems(3) fetchone_SomeD[of "at_step r sid" rows]
      by (auto simp: authorised_def fetchone_map_key restore_row_def split: option.splits)
    then show ?thesis
      using revoke_loop_authorised[where rows = ?rows and granted = granted and j = j and r = r and sid = sid]
      by (auto simp: g case_prod_beta Let_def)
  next
    case False
    then show ?thesis
      using Cons.IH[OF keys_revoke_step[OF Cons.prems(1)]] Cons.prems(2,3) by (auto simp: g case_prod_beta Let_def)
  qed
qed simp

lemma apply_decisions_effect:
  assumes "apply_decisions run_id decisions j = (Inr granted, j1)"
  shows "map step_key (j_steps j1) = map step_key (j_steps j)"
    and "sid \<in> fst ` set decisions \<Longrightarrow> \<exists>row. get_step run_id sid j = Some row \<and> (sid, ws_state row) \<in> set granted"
    and "sid \<notin> fst ` set decisions \<Longrightarrow> authorised run_id sid j1 = authorised run_id sid j"
proof -
  let ?prior = "prior_states run_id j"
  have *: "map step_key (j_steps j1) = map step_key (j_steps j)
    \<and> (sid \<in> fst ` set decisions \<longrightarrow> (\<exists>row. get_step run_id sid j = Some row \<and> (sid, ws_state row) \<in> set granted))
    \<and> (sid \<notin> fst ` set decisions \<longrightarrow> authorised run_id sid j1 = authorised run_id sid j)"
  proof (cases "decisions = []")
    case True
    then show ?thesis using assms by (auto simp: apply_decisions_def)
  next
    case False
    from assms False obtain resolved where r: "resolve_decisions decisions (map fst ?prior) = Inr resolved"
      and g: "granted = map (\<lambda>(s, _). (s, the (map_of ?prior s))) resolved"
      and j1: "j1 = j \<lparr> j_steps := write_states run_id resolved (j_steps j) \<rparr>"
      by (auto simp: apply_decisions_def Let_def split: sum.splits)
    note res = resolved_states[OF r]
    have fst_eq: "fst ` set resolved = fst ` set decisions" using res by (metis list.set_map)
    have decided: "\<exists>row. get_step run_id sid j = Some row \<and> (sid, ws_state row) \<in> set granted"
      if dec: "sid \<in> fst ` set decisions"
    proof -
      have "sid \<in> fst ` set ?prior" using dec res by auto
      then obtain st where st: "map_of ?prior sid = Some st" by (metis map_of_eq_None_iff not_None_eq)
      then obtain row where row: "get_step run_id sid j = Some row" "ws_state row = st"
        by (auto simp: map_of_prior)
      have "sid \<in> fst ` set resolved" using dec fst_eq by simp
      then obtain v where "(sid, v) \<in> set resolved" by force
      then have "(sid, the (map_of ?prior sid)) \<in> set granted" by (force simp: g)
      with row st show ?thesis by simp
    qed
    have other: "authorised run_id sid j1 = authorised run_id sid j" if "sid \<notin> fst ` set decisions"
    proof -
      have "fetchone (at_step run_id sid) (write_states run_id resolved (j_steps j))
          = map_option (fold (write_row run_id) resolved) (fetchone (at_step run_id sid) (j_steps j))"
        unfolding write_states_eq
      proof (rule fetchone_map_key)
        show "step_key (fold (write_row run_id) resolved x) = step_key x" for x
          by (induction resolved arbitrary: x) (auto simp: write_row_def)
      qed
      also have "\<dots> = fetchone (at_step run_id sid) (j_steps j)"
      proof (cases "fetchone (at_step run_id sid) (j_steps j)")
        case None
        show ?thesis unfolding None by simp
      next
        case (Some x)
        then have "ws_step_id x = sid" using fetchone_SomeD[OF Some] by (simp add: at_step_def)
        then show ?thesis using Some that fst_eq fold_write_other[of x resolved run_id] by simp
      qed
      finally show ?thesis by (simp add: authorised_def j1 get_step_def)
    qed
    show ?thesis using decided other by (simp add: j1)
  qed
  then show "map step_key (j_steps j1) = map step_key (j_steps j)"
    and "sid \<in> fst ` set decisions \<Longrightarrow> \<exists>row. get_step run_id sid j = Some row \<and> (sid, ws_state row) \<in> set granted"
    and "sid \<notin> fst ` set decisions \<Longrightarrow> authorised run_id sid j1 = authorised run_id sid j"
    by blast+
qed

text \<open>What a resume under way has granted over a state that was no authorisation is the only consent it is
  answerable for.\<close>

definition answerable :: "string \<Rightarrow> script_world \<Rightarrow> bool" where
  "answerable sid w \<longleftrightarrow> (\<exists>g \<in> set (granted_of (sw_drive w)). fst g = sid \<and> snd g \<notin> set AUTHORISED)"

definition consent_held :: "string \<Rightarrow> string \<Rightarrow> script_world \<Rightarrow> bool" where
  "consent_held run_id sid w \<longleftrightarrow>
     keys_ok (j_steps (sw_journal w)) \<and> (authorised run_id sid (sw_journal w) \<longrightarrow> answerable sid w)"

text \<open>No crash of the server, no revocation whose write fails, and no resume whose task is cancelled while its decisions
  are written.\<close>

fun undisturbed :: "script_event \<Rightarrow> bool" where
  "undisturbed Server_Restarts = False"
| "undisturbed (Resume_Ends revoke_ok) = revoke_ok"
| "undisturbed (Decisions_Applied fate) = (fate \<noteq> Task_Cancelled)"
| "undisturbed e = True"

lemma call_events_keep_drive:
  "\<not> run_row_event e \<Longrightarrow> (\<And>ok. e \<noteq> Decisions_Applied ok) \<Longrightarrow> (\<And>ok. e \<noteq> Resume_Ends ok) \<Longrightarrow> e \<noteq> Server_Restarts \<Longrightarrow>
   sw_drive (script_step parse store snapshot_ok approved run_id e w) = sw_drive w"
proof (cases e)
  case (Call_Gated n)
  then show ?thesis by (simp add: pass_gate_sel)
next
  case (Call_Answered n outcome)
  let ?f = "sw_flight w ! n"
  have "sw_drive (snd (answer_call store run_id (fl_record ?f) (fl_call ?f) outcome w)) = sw_drive w"
    by (rule answer_call_cases[of store run_id "fl_record ?f" "fl_call ?f" outcome w]) simp_all
  then show ?thesis using Call_Answered by (simp add: Let_def)
qed (auto simp: Let_def split: sum.split)

lemma grant_held:
  assumes "consent_held run_id sid w" and "fate \<noteq> Task_Cancelled"
  shows "consent_held run_id sid (grant_decisions run_id fate w)"
proof (cases "sw_drive w")
  case (Resume_Admitted row decisions)
  have un: "\<not> authorised run_id sid (sw_journal w)"
    using assms(1) Resume_Admitted by (simp add: consent_held_def answerable_def)
  have keys: "keys_ok (j_steps (sw_journal w))" using assms by (simp add: consent_held_def)
  show ?thesis
  proof (cases "apply_decisions run_id decisions (sw_journal w)")
    case (Pair res j)
    show ?thesis
    proof (cases res)
      case (Inl e)
      then show ?thesis using un keys Pair Resume_Admitted by (simp add: grant_decisions_def consent_held_def)
    next
      case (Inr granted)
      note eff = apply_decisions_effect[OF Pair[unfolded Inr]]
      have held: "\<exists>g \<in> set granted. fst g = sid \<and> snd g \<notin> set AUTHORISED" if "authorised run_id sid j"
      proof -
        have "sid \<in> fst ` set decisions" using that un eff(3)[of sid] by blast
        then obtain row where "get_step run_id sid (sw_journal w) = Some row" "(sid, ws_state row) \<in> set granted"
          using eff(2) by blast
        then show ?thesis using un by (auto simp: authorised_def intro: bexI[of _ "(sid, ws_state row)"])
      qed
      show ?thesis
        using un keys Pair Inr Resume_Admitted eff(1) held assms(2)
        by (simp add: grant_decisions_def consent_held_def answerable_def)
    qed
  qed
qed (use assms in \<open>simp_all add: grant_decisions_def\<close>)

lemma finish_held:
  assumes "consent_held run_id sid w"
  shows "consent_held run_id sid (finish_resume run_id True w)"
proof (cases "sw_drive w")
  case (Resume_Ending rec granted)
  let ?rows = "j_steps (sw_journal w)"
  let ?j = "(sw_journal w) \<lparr> j_steps := snd (revoke_loop run_id granted ?rows) \<rparr>"
  have keys: "keys_ok ?rows" using assms by (simp add: consent_held_def)
  have j: "sw_journal (finish_resume run_id True w) = ?j" by (simp add: finish_resume_journal Resume_Ending)
  have "\<not> authorised run_id sid ?j"
  proof (cases "answerable sid w")
    case True
    then obtain prior where "(sid, prior) \<in> set granted" "prior \<notin> set AUTHORISED"
      by (auto simp: answerable_def Resume_Ending)
    then show ?thesis using revoke_loop_takes_back[OF keys] by blast
  next
    case False
    then have "\<not> authorised run_id sid (sw_journal w)" using assms by (simp add: consent_held_def)
    then show ?thesis
      using revoke_loop_authorised[where j = "sw_journal w" and rows = ?rows and granted = granted and r = run_id and sid = sid]
      by auto
  qed
  moreover have "keys_ok (j_steps ?j)" using keys keys_revoke_loop by simp
  ultimately show ?thesis by (simp add: consent_held_def j)
qed (use assms in \<open>simp_all add: finish_resume_def\<close>)

lemma script_step_held:
  assumes held: "consent_held run_id sid w" and "undisturbed e"
  shows "consent_held run_id sid (script_step parse store snapshot_ok approved run_id e w)"
proof -
  let ?w = "script_step parse store snapshot_ok approved run_id e w"
  have keys: "keys_ok (j_steps (sw_journal w))" using held by (simp add: consent_held_def)
  have other: ?thesis
    if "\<And>ok. e \<noteq> Decisions_Applied ok" "e \<noteq> Resume_Ends True" and granted: "granted_of (sw_drive ?w) = granted_of (sw_drive w)"
  proof -
    have "keys_ok (j_steps (sw_journal ?w))" using keyed.event_keeps keys that(1,2) by blast
    moreover have "\<not> authorised run_id sid (sw_journal ?w)" if "\<not> authorised run_id sid (sw_journal w)"
      using unauthorised.event_keeps that \<open>\<And>ok. e \<noteq> Decisions_Applied ok\<close> \<open>e \<noteq> Resume_Ends True\<close> by blast
    ultimately show ?thesis using held granted by (auto simp: consent_held_def answerable_def)
  qed
  show ?thesis
  proof (cases "run_row_event e")
    case True
    then have "\<And>ok. e \<noteq> Decisions_Applied ok" "e \<noteq> Resume_Ends True" by (cases e; simp)+
    then show ?thesis using run_row_event_sel(3)[OF True] by (rule other)
  next
    case False
    consider ok where "e = Decisions_Applied ok" | ok where "e = Resume_Ends ok"
      | "\<And>ok. e \<noteq> Decisions_Applied ok" "\<And>ok. e \<noteq> Resume_Ends ok" by blast
    then show ?thesis
    proof cases
      case 1
      then show ?thesis using held grant_held assms(2) by simp
    next
      case 2
      then show ?thesis using held finish_held assms(2) by simp
    next
      case 3
      moreover have "e \<noteq> Server_Restarts" using assms(2) by auto
      ultimately have "sw_drive ?w = sw_drive w" using call_events_keep_drive[OF False] by blast
      then show ?thesis using other[OF 3(1) 3(2)] by simp
    qed
  qed
qed

lemma run_script_held:
  assumes "consent_held run_id sid w" and "\<forall>e \<in> set events. undisturbed e"
  shows "consent_held run_id sid (run_script parse store snapshot_ok approved run_id events w)"
  using assms
proof (induction events arbitrary: w)
  case (Cons e events)
  have "consent_held run_id sid (script_step parse store snapshot_ok approved run_id e w)"
    using Cons.prems by (intro script_step_held) auto
  then show ?case using Cons by (simp add: run_script_def)
qed (simp add: run_script_def)

text \<open>(C12) Consent does not outlive the resume it was given to. Take a step that carries no authorisation while no
  resume holds a grant, and any history in which the server does not crash, every revoking write is carried out
  and no resume has its task cancelled while its decisions are written: calls in any interleaving, drives that end in any way, cancellations, resumes that are
  refused, fail at any write before their drive, or drive the script. Whenever the step carries an
  authorisation, a resume that is under way granted it over a state that was none; so once no resume is
  under way the step carries none: the grant was consumed or has been revoked. The exceptions are exactly
  what the hypotheses say, and the source has them all: consent that was on the step before, also when it
  was decided again; a revocation whose write fails; a crash or a cancellation during the resume (lemma
  \<open>consent_that_stays\<close>).\<close>

theorem consent_ends_with_resume:
  assumes "keys_ok (j_steps (sw_journal w))" and "granted_of (sw_drive w) = []"
    and "\<not> authorised run_id sid (sw_journal w)" and "\<forall>e \<in> set events. undisturbed e"
    and "authorised run_id sid (sw_journal (run_script parse store snapshot_ok approved run_id events w))"
  shows "\<exists>g \<in> set (granted_of (sw_drive (run_script parse store snapshot_ok approved run_id events w))).
      fst g = sid \<and> snd g \<notin> set AUTHORISED"
proof -
  have "consent_held run_id sid w" using assms(1,3) by (simp add: consent_held_def)
  from run_script_held[OF this assms(4), of parse store snapshot_ok approved] show ?thesis
    using assms(5) by (simp add: consent_held_def answerable_def)
qed

text \<open>A human grants a rerun of the step, the drive has not reached it yet: the grant is that of the resume under
  way. Once that resume ended, nothing is authorised.\<close>

definition ex_failed_run :: "script_event list" where
  "ex_failed_run = whole_call 0 (ex_call ''1'') (Agent_Fails (Some ''w1'') (Some ''w1'') ''boom'' True)
     @ [Drive_Ends (Exited False True) ''t2'']"

definition ex_granted :: "script_event list" where
  "ex_granted = ex_failed_run @ whole_resume ''1'' [(''plan'', ''rerun'')]"

definition ex_revoked :: "script_event list" where
  "ex_revoked = ex_granted @ [Drive_Ends (Exited False True) ''t3'', Resume_Ends True]"

theorem consent_ends_with_resume_witness:
  "authorised ''r1'' ''plan'' (sw_journal (script_history ex_granted ex_script_world))
   \<and> (\<exists>g \<in> set (granted_of (sw_drive (script_history ex_granted ex_script_world))). fst g = ''plan'' \<and> snd g \<notin> set AUTHORISED)
   \<and> \<not> authorised ''r1'' ''plan'' (sw_journal (script_history ex_revoked ex_script_world))"
proof (intro conjI)
  show held: "authorised ''r1'' ''plan'' (sw_journal (script_history ex_granted ex_script_world))" by code_simp
  show "\<exists>g \<in> set (granted_of (sw_drive (script_history ex_granted ex_script_world))). fst g = ''plan'' \<and> snd g \<notin> set AUTHORISED"
  proof (rule consent_ends_with_resume[OF _ _ _ _ held])
    show "keys_ok (j_steps (sw_journal ex_script_world))" by code_simp
    show "granted_of (sw_drive ex_script_world) = []" by code_simp
    show "\<not> authorised ''r1'' ''plan'' (sw_journal ex_script_world)" by code_simp
    show "\<forall>e \<in> set ex_granted. undisturbed e"
      by (simp add: ex_granted_def ex_failed_run_def whole_call_def whole_resume_def)
  qed
  show "\<not> authorised ''r1'' ''plan'' (sw_journal (script_history ex_revoked ex_script_world))" by code_simp
qed

section \<open>Fencing\<close>

text \<open>A bumped generation is a new one, so a call of an earlier drive is turned away and changes nothing.\<close>

lemma digits_of_nat: "py_int (nat_digits n) = Some (int n)"
proof -
  have "nat_digits n \<noteq> []" by (subst nat_digits.simps) auto
  then show ?thesis using nat_digits_chars[of n] by (simp add: py_int_def nat_digits_val)
qed

lemma bump_numeral: "0 \<le> n \<Longrightarrow> bump (py_str n) = py_str (n + 1)"
  by (simp add: bump_def py_str_def digits_of_nat)

text \<open>(C38) A resumed run turns its old script away. Generations are numerals: a resume writes the successor, and
  from then on a call that carries an earlier generation is refused as stale and changes nothing, neither
  the journal nor the live record.\<close>

theorem stale_drive_fenced:
  assumes "get_run_row run_id (sw_journal w) = Some row" and "wr_generation row = py_str n" and "0 \<le> n" and "m \<le> n"
    and "sc_generation c = py_str m"
  shows "run_step parse store run_id c outcome
      (w \<lparr> sw_journal := update_run_generation run_id (bump (wr_generation row)) (sw_journal w) \<rparr>)
    = (Inl WF_StaleGeneration,
       w \<lparr> sw_journal := update_run_generation run_id (bump (wr_generation row)) (sw_journal w) \<rparr>)"
proof -
  have "py_str m \<noteq> py_str (n + 1)" using py_str_inj[of m "n + 1"] assms(4) by auto
  moreover have "fetchone (\<lambda>r. wr_run_id r = run_id)
      (update_where (\<lambda>r. wr_run_id r = run_id) (\<lambda>r. r \<lparr> wr_generation := g \<rparr>) (j_runs (sw_journal w)))
      = Some (row \<lparr> wr_generation := g \<rparr>)" for g
    using assms(1) fetchone_SomeD[of "\<lambda>r. wr_run_id r = run_id" _ row]
    by (subst fetchone_update_where) (simp_all add: get_run_row_def)
  ultimately show ?thesis
    using assms(2,3,5)
    by (simp add: run_step_def enter_call_def check_generation_def get_run_row_def update_run_generation_def bump_numeral)
qed

theorem stale_drive_fenced_witness:
  "fst (run_step ex_parse (\<lambda>m s t. m) ''r1'' (ex_call ''1'') (Agent_Dies None)
     (ex_script_world \<lparr> sw_journal := update_run_generation ''r1'' (bump ''1'') (sw_journal ex_script_world) \<rparr>))
   = Inl WF_StaleGeneration"
proof -
  have one: "py_str 1 = ''1''" by code_simp
  have "valid_key_part ''r1''" by code_simp
  then have "get_run_row ''r1'' (sw_journal ex_script_world) = Some ex_script_run"
    by (simp add: ex_script_world_def ex_idle_world_def start_script_run_def insert_run_def empty_journal_def get_run_row_def
        fetchone_def ex_script_run_def new_run_row_def)
  moreover have "wr_generation ex_script_run = py_str 1" by (simp add: ex_script_run_def new_run_row_def one)
  moreover have "sc_generation (ex_call ''1'') = py_str 1" by (simp add: ex_call_def one)
  ultimately show ?thesis
    using stale_drive_fenced[of "''r1''" ex_script_world ex_script_run 1 1 "ex_call ''1''" ex_parse "\<lambda>m s t. m" "Agent_Dies None"]
    by (simp add: one)
qed

section \<open>A replay that cannot be answered\<close>

text \<open>A rerun whose terminal never came up settles the row as failed with an envelope that names no terminal,
  and keeps the fingerprint of the attempt before. When the operator then accepts the stored result, the
  gate replays, the route finds no terminal id, raises, and settles the step as failed once more: the
  branch the source calls unreachable.\<close>

definition ex_store :: "string \<Rightarrow> string \<Rightarrow> string option \<Rightarrow> string" where
  "ex_store m s t = (if t = None then ''no terminal'' else ''done'')"

definition ex_parse_any :: "string \<Rightarrow> envelope option" where
  "ex_parse_any s = Some \<lparr> en_last_message = [], en_status = ''failed'',
     en_terminal_id = (if s = ''no terminal'' then None else Some ''w1''), en_truncated = False, en_redacted = False \<rparr>"

definition ex_skip_of_failed_rerun :: "script_event list" where
  "ex_skip_of_failed_rerun = ex_failed_run @ whole_resume ''1'' [(''plan'', ''rerun'')]
     @ whole_call 1 (ex_call ''2'') (Agent_Fails None None ''no room for a terminal'' True)
     @ [Drive_Ends (Exited False True) ''t3'', Resume_Ends True] @ whole_resume ''2'' [(''plan'', ''skip'')]"

lemma accepted_result_without_terminal:
  "fst (run_step ex_parse_any ex_store ''r1'' (ex_call ''3'') (Agent_Dies None)
     (run_script ex_parse_any ex_store (\<lambda>_. True) (\<lambda>_. True) ''r1'' ex_skip_of_failed_rerun ex_script_world))
   = Inl WF_RuntimeError"
  by code_simp

section \<open>Starts without consent, and consent without end\<close>

text \<open>What the properties charge for, as it happens. The number of starts, of granted reruns, of starts without a
  running row, and of overlaps of the step \<open>plan\<close>.\<close>

definition ledger :: "script_world \<Rightarrow> nat list" where
  "ledger w = [sw_dispatched w ''plan'', sw_reruns w ''plan'', sw_unrecorded w ''plan'', sw_overlaps w ''plan'']"

text \<open>The write of the running row fails and the server dies: the journal has never seen the step, and the next
  resume starts it again with no decision.\<close>

definition ex_unrecorded :: "script_event list" where
  "ex_unrecorded = whole_call 0 ((ex_call ''1'') \<lparr> sc_begin_ok := False \<rparr>) (Agent_Dies (Some ''w1'')) @ [Server_Restarts]
     @ whole_resume ''1'' [] @ whole_call 0 (ex_call ''2'') (Agent_Dies (Some ''w2''))"

lemma unrecorded_start_repeats: "ledger (script_history ex_unrecorded ex_script_world) = [2, 0, 1, 0]"
  by code_simp

text \<open>The server restarts while the script goes on. Nothing bumps the generation, so its next call passes the
  fence; there is no live record, so the call passes the gate by and is not journaled, even though the step
  has completed. A call of a step that has not run leaves no row either, and the next resume starts it again.\<close>

definition ex_leftover :: "script_event list" where
  "ex_leftover = whole_call 0 (ex_call ''1'') (Agent_Ok ''w1'' ''done'' ''completed'' None) @ [Server_Restarts]
     @ whole_call 0 (ex_call ''1'') (Agent_Ok ''w2'' ''done'' ''completed'' None)"

definition ex_leftover_fresh :: "script_event list" where
  "ex_leftover_fresh = [Server_Restarts] @ whole_call 0 (ex_call ''1'') (Agent_Ok ''w1'' ''done'' ''completed'' None)
     @ whole_resume ''1'' [] @ whole_call 1 (ex_call ''2'') (Agent_Ok ''w2'' ''done'' ''completed'' None)"

lemma leftover_script_runs_ungated:
  "ledger (script_history ex_leftover ex_script_world) = [2, 0, 1, 0]"
  "map ws_attempts (j_steps (sw_journal (script_history ex_leftover ex_script_world))) = [1]"
  "ledger (script_history ex_leftover_fresh ex_script_world) = [2, 0, 1, 0]"
  by code_simp+

text \<open>Cancelling the run does not stop it either: the arm for a run without a record marks the row and bumps no
  generation.\<close>

lemma cancel_after_restart_does_not_fence:
  "enter_call ''r1'' (ex_call ''1'') (script_history [Server_Restarts, Run_Cancelled True True ''t2''] ex_script_world) = Inr None"
  "map wr_state (j_runs (sw_journal (script_history [Server_Restarts, Run_Cancelled True True ''t2''] ex_script_world)))
     = [''cancelled'']"
  by code_simp+

text \<open>The script dies while a call of its is between the gate and its terminal. The sweep sees no terminal to take
  down, the resume bumps the generation, but the fence was passed; the call of the new script finds no row.\<close>

definition ex_overlapping :: "script_event list" where
  "ex_overlapping = [Call_Enters (ex_call ''1''), Call_Gated 0, Drive_Ends (Exited False True) ''t2''] @ whole_resume ''1'' []
     @ [Call_Enters (ex_call ''2''), Call_Gated 1, Call_Ready 0 ''w1'', Call_Ready 1 ''w2'']"

lemma overlapping_calls_both_start: "ledger (script_history ex_overlapping ex_script_world) = [2, 0, 0, 1]"
  by code_simp

text \<open>A resume whose revoking write fails, one that was decided over consent a crash left behind, and one whose task
  is cancelled while the decisions are written. The first leaves its grant; the second, with every write
  carried out, does too, because the state before the decision was an authorisation and the revocation
  refuses to restore one; the third never learns that it granted anything.\<close>

definition ex_unrevoked :: "script_event list" where
  "ex_unrevoked = ex_granted @ [Drive_Ends (Exited False True) ''t3'', Resume_Ends False]"

definition ex_regranted :: "script_event list" where
  "ex_regranted = ex_granted @ [Server_Restarts] @ whole_resume ''2'' [(''plan'', ''skip'')]
     @ [Drive_Ends (Exited False True) ''t3'', Resume_Ends True]"

definition ex_unaware :: "script_event list" where
  "ex_unaware = ex_failed_run @ [Resume_Arrives (Some ex_script_run) [(''plan'', ''rerun'')], Decisions_Applied Task_Cancelled]"

lemma consent_that_stays:
  "authorised ''r1'' ''plan'' (sw_journal (script_history ex_unrevoked ex_script_world))"
  "sw_drive (script_history ex_unrevoked ex_script_world) = No_Drive"
  "authorised ''r1'' ''plan'' (sw_journal (script_history ex_regranted ex_script_world))"
  "sw_drive (script_history ex_regranted ex_script_world) = No_Drive"
  "authorised ''r1'' ''plan'' (sw_journal (script_history ex_unaware ex_script_world))"
  "sw_drive (script_history ex_unaware ex_script_world) = No_Drive"
  by code_simp+

text \<open>What stays is not used unseen: every later resume that leaves it unanswered is turned away.\<close>

lemma leftover_consent_asks_again:
  assumes "authorised run_id sid (sw_journal w)" and "resume_gates snapshot_ok approved run_id row_read decisions w = Inr row"
  shows "sid \<in> fst ` set decisions"
proof -
  from assms(1) obtain s where s: "get_step run_id sid (sw_journal w) = Some s" "ws_state s \<in> set AUTHORISED"
    by (auto simp: authorised_def split: option.splits)
  then have "s \<in> set (get_steps run_id (sw_journal w))" "ws_step_id s = sid"
    using fetchone_SomeD[of "at_step run_id sid" "j_steps (sw_journal w)" s]
    by (auto simp: get_step_def get_steps_def at_step_def)
  moreover have "consent_answered run_id decisions (sw_journal w)"
    using assms(2) by (auto simp: resume_gates_def split: if_splits option.splits)
  ultimately show ?thesis using s(2) by (auto simp: consent_answered_def)
qed

text \<open>A run whose row could not be inserted goes on, but the fence finds no row and refuses its every call.\<close>

lemma unjournaled_start_refuses_calls:
  assumes "get_run_row (wr_run_id row) (sw_journal w) = None"
  shows "enter_call (wr_run_id row) c (snd (start_script_run lint_ok approved row False w)) = Inl WF_KeyError"
  using assms by (simp add: start_script_run_def enter_call_def check_generation_def)

text \<open>A call that nothing interrupts is the route: its events leave the journal and the records the route
  leaves.\<close>

definition same_run :: "script_world \<Rightarrow> script_world \<Rightarrow> bool" where
  "same_run w w' \<longleftrightarrow> sw_journal w' = sw_journal w \<and> sw_records w' = sw_records w"

lemma same_run_stages [simp]:
  "same_run w (set_stage n stage w') \<longleftrightarrow> same_run w w'" "same_run w (w' \<lparr> sw_flight := fs \<rparr>) \<longleftrightarrow> same_run w w'"
  "same_run w (w' \<lparr> sw_overlaps := n' \<rparr>) \<longleftrightarrow> same_run w w'"
  by (simp_all add: same_run_def set_stage_def)

lemma settle_same:
  "same_run w w' \<Longrightarrow> same_run (settle_call store run_id rec c t e m s r w) (settle_call store run_id rec c t e m s r w')"
  by (simp add: same_run_def settle_call_def Let_def put_record_step_def seen_step_def record_step_def split: option.split)

lemma ready_same: "same_run w w' \<Longrightarrow> same_run (terminal_ready run_id rec c t w) (terminal_ready run_id rec c t w')"
  by (simp add: same_run_def terminal_ready_def Let_def put_record_step_def seen_step_def record_step_def split: option.split)

lemma answer_same:
  "same_run w w' \<Longrightarrow>
   same_run (snd (answer_call store run_id rec c outcome w)) (snd (answer_call store run_id rec c outcome w'))"
  by (simp add: answer_call_def settle_same split: agent_outcome.split)

lemma gate_same:
  assumes "same_run w w'"
  shows "fst (gate_call parse store run_id rec c w') = fst (gate_call parse store run_id rec c w)"
    and "same_run (snd (gate_call parse store run_id rec c w)) (snd (gate_call parse store run_id rec c w'))"
proof -
  have j: "sw_journal w' = sw_journal w" using assms by (simp add: same_run_def)
  have replay: "same_run (record_replay run_id r c w) (record_replay run_id r c w')" for r
    using assms by (simp add: same_run_def record_replay_def put_record_step_def split: option.split)
  show "fst (gate_call parse store run_id rec c w') = fst (gate_call parse store run_id rec c w)"
    by (simp add: gate_call_def j split: option.split sum.split replay_verdict.split)
  show "same_run (snd (gate_call parse store run_id rec c w)) (snd (gate_call parse store run_id rec c w'))"
    by (simp add: gate_call_def j replay assms settle_same split: option.split sum.split replay_verdict.split)
qed

lemma whole_call_is_run_step:
  assumes "sw_flight w = []"
  shows "same_run (snd (run_step parse store run_id c outcome w))
      (run_script parse store snapshot_ok approved run_id (whole_call 0 c outcome) w)"
proof (cases "enter_call run_id c w")
  case (Inl e)
  then show ?thesis
    using assms by (simp add: run_script_def whole_call_def run_step_def in_stage_def same_run_def split: option.split)
next
  case (Inr rec)
  let ?f = "\<lparr> fl_call = c, fl_record = rec, fl_stage = Entered \<rparr>"
  let ?w1 = "w \<lparr> sw_flight := [?f] \<rparr>"
  have same: "same_run w ?w1" by (simp add: same_run_def)
  obtain a w2 where gate: "gate_call parse store run_id rec c w = (a, w2)" by fastforce
  obtain w3 where gate': "gate_call parse store run_id rec c ?w1 = (a, w3)" and same3: "same_run w2 w3"
    using gate_same[OF same, of parse store run_id rec c] gate
    by (metis fst_conv snd_conv prod.collapse)
  have flight: "sw_flight w3 = [?f]" using gate_call_sel(2)[of parse store run_id rec c ?w1] gate' by simp
  show ?thesis
  proof (cases a)
    case (Some answer)
    then show ?thesis
      using assms Inr gate gate' same3 flight
      by (simp add: run_script_def whole_call_def run_step_def in_stage_def pass_gate_def set_stage_def same_run_def
          split: option.split)
  next
    case None
    define w4 where "w4 = pass_gate parse store run_id 0 ?w1"
    have w4: "same_run w2 w4" "sw_flight w4 = [?f \<lparr> fl_stage := Let_Through \<rparr>]"
      using None gate' same3 flight by (simp_all add: w4_def pass_gate_def Let_def set_stage_def same_run_def)
    have entered: "run_script parse store snapshot_ok approved run_id (whole_call 0 c outcome) w
      = run_script parse store snapshot_ok approved run_id
          ((case outcome_ready outcome of None \<Rightarrow> [] | Some t \<Rightarrow> [Call_Ready 0 t]) @ [Call_Answered 0 outcome]) w4"
      using assms Inr by (simp add: run_script_def whole_call_def in_stage_def w4_def)
    show ?thesis
    proof (cases "outcome_ready outcome")
      case no: None
      then show ?thesis
        using entered w4 None Inr gate answer_same[OF w4(1), of store run_id rec c outcome]
        by (simp add: run_script_def run_step_def execute_step_def in_stage_def)
    next
      case (Some t)
      have "same_run (terminal_ready run_id rec c t w2) (set_stage 0 Started (terminal_ready run_id rec c t w4))"
        using ready_same[OF w4(1)] by simp
      moreover have "sw_flight (set_stage 0 Started (terminal_ready run_id rec c t w4)) = [?f \<lparr> fl_stage := Started \<rparr>]"
        using w4(2) by (simp add: set_stage_def)
      ultimately show ?thesis
        using entered w4 None Inr gate Some answer_same
        by (simp add: run_script_def run_step_def execute_step_def in_stage_def)
    qed
  qed
qed

end
