(* ===== verification/Workflow_Events.thy ===== *)
theory Workflow_Events
  imports Workflow_Journal "HOL-Library.Multiset"
begin

text \<open>
  Emission and reading of the events of a run: \<open>_journal_event\<close> and the re-seeding of its counter in
  \<open>services/workflow_service.py\<close>, over the event tables of the journal. Each of the two writes of an
  emission may fail; the emission goes on.
\<close>

section \<open>Emission\<close>

record event_world =
  ew_journal :: journal
  ew_seq :: int

definition next_event_seq :: "event_world \<Rightarrow> int" where
  "next_event_seq w = ew_seq w + 1"

text \<open>The two flags say whether the write of the high-water mark and the append are carried out.\<close>

definition journal_event ::
  "bool \<Rightarrow> bool \<Rightarrow> string \<Rightarrow> string \<Rightarrow> string \<Rightarrow> event_fields \<Rightarrow> event_world \<Rightarrow> event_world"
where
  "journal_event mark_ok append_ok run_id event_type ts extra w =
     (let seq = next_event_seq w;
          j1 = (if mark_ok then persist_high_water run_id seq (ew_journal w) else ew_journal w);
          j2 = (if append_ok then snd (append_run_event run_id seq event_type 1 ts extra j1) else j1)
      in \<lparr> ew_journal = j2, ew_seq = seq \<rparr>)"

text \<open>The counter of a rebuilt record: two durable reads, each of which degrades to 0 when it fails, and the
  counter of the record that is still live in the process, if there is one.\<close>

definition reseed :: "bool \<Rightarrow> bool \<Rightarrow> bool \<Rightarrow> string \<Rightarrow> event_world \<Rightarrow> event_world" where
  "reseed mark_read max_read live run_id w =
     w \<lparr> ew_seq := max (max (if mark_read then persisted_high_water run_id (ew_journal w) else 0)
                           (if max_read then max_event_seq run_id (ew_journal w) else 0))
                      (if live then ew_seq w else 0) \<rparr>"

text \<open>A rebuild in a new process has no live counter and needs the event read.\<close>

inductive event_step :: "string \<Rightarrow> event_world \<Rightarrow> event_world \<Rightarrow> bool" for run_id where
  emit: "event_step run_id w (journal_event mark_ok append_ok run_id event_type ts extra w)"
| rebuild: "live \<or> max_read \<Longrightarrow> event_step run_id w (reseed mark_read max_read live run_id w)"
| run_write: "event_step run_id w (w \<lparr> ew_journal := update_run_state run_id state fin (ew_journal w) \<rparr>)"

definition event_seqs :: "string \<Rightarrow> journal \<Rightarrow> int list" where
  "event_seqs run_id j = map we_seq (filter (\<lambda>e. we_run_id e = run_id) (j_events j))"

definition events_bounded :: "string \<Rightarrow> event_world \<Rightarrow> bool" where
  "events_bounded run_id w \<longleftrightarrow>
     0 \<le> ew_seq w \<and> distinct (event_seqs run_id (ew_journal w))
     \<and> (\<forall>n \<in> set (event_seqs run_id (ew_journal w)). 0 < n \<and> n \<le> ew_seq w)"

lemma seqs_persist [simp]: "event_seqs r (persist_high_water r n j) = event_seqs r j"
  by (simp add: event_seqs_def persist_high_water_def)

lemma seqs_update_run [simp]: "event_seqs r (update_run_state r' st fin j) = event_seqs r j"
  by (simp add: event_seqs_def update_run_state_def)

lemma append_fresh:
  "n \<notin> set (event_seqs r j) \<Longrightarrow>
   append_run_event r n ty v ts extra j = (Inr (), j \<lparr> j_events := j_events j @
      [\<lparr> we_run_id = r, we_seq = n, we_event_type = ty, we_schema_version = v, we_ts = ts, we_fields = extra \<rparr>] \<rparr>)"
  by (auto simp: append_run_event_def event_seqs_def image_iff)

lemma max_event_seq_bound: "n \<in> set (event_seqs r j) \<Longrightarrow> n \<le> max_event_seq r j"
proof -
  assume n: "n \<in> set (event_seqs r j)"
  then have "event_seqs r j \<noteq> []" by auto
  then show ?thesis using n by (simp add: max_event_seq_def sql_max_def flip: event_seqs_def)
qed

lemma max_event_seq_nonneg: "(\<forall>n \<in> set (event_seqs r j). 0 < n) \<Longrightarrow> 0 \<le> max_event_seq r j"
proof (cases "event_seqs r j = []")
  case False
  assume pos: "\<forall>n \<in> set (event_seqs r j). 0 < n"
  obtain n where "n \<in> set (event_seqs r j)" using False by (meson last_in_set)
  then show ?thesis using pos max_event_seq_bound[of n r j] by fastforce
qed (simp add: max_event_seq_def sql_max_def event_seqs_def)

lemma event_step_bounded:
  assumes "events_bounded r w" and "event_step r w w'"
  shows "events_bounded r w'"
  using assms(2)
proof cases
  case (emit mark_ok append_ok ty ts extra)
  let ?n = "ew_seq w + 1"
  let ?j = "if mark_ok then persist_high_water r ?n (ew_journal w) else ew_journal w"
  have sq: "event_seqs r ?j = event_seqs r (ew_journal w)" by simp
  have fresh: "?n \<notin> set (event_seqs r ?j)" using assms(1) by (auto simp: sq events_bounded_def)
  have "event_seqs r (ew_journal w') = (if append_ok then event_seqs r (ew_journal w) @ [?n] else event_seqs r (ew_journal w))"
    using append_fresh[OF fresh, of ty 1 ts extra]
    by (auto simp: emit journal_event_def next_event_seq_def Let_def event_seqs_def persist_high_water_def)
  then show ?thesis
    using assms(1) fresh sq
    by (auto simp: events_bounded_def emit journal_event_def next_event_seq_def Let_def intro: le_trans)
next
  case (rebuild live max_read mark_read)
  have "n \<le> ew_seq w'" if "n \<in> set (event_seqs r (ew_journal w))" for n
    using that rebuild(2) assms(1) max_event_seq_bound[OF that]
    by (auto simp: rebuild(1) reseed_def events_bounded_def)
  then show ?thesis
    using assms(1) max_event_seq_nonneg[of r "ew_journal w"]
    by (auto simp: rebuild(1) reseed_def events_bounded_def)
next
  case (run_write state fin)
  then show ?thesis using assms(1) by (simp add: events_bounded_def)
qed

interpretation event_run: transition_system "events_bounded run_id" "event_step run_id" "events_bounded run_id"
  for run_id
  using event_step_bounded by unfold_locales auto

definition ex_event_world :: event_world where
  "ex_event_world = \<lparr> ew_journal = empty_journal, ew_seq = 0 \<rparr>"

definition no_fields :: event_fields where
  "no_fields = \<lparr> ef_step_id = None, ef_attempt = None, ef_state = None, ef_elapsed_ms = None, ef_provider = None,
     ef_agent_profile = None, ef_engine = None, ef_terminal_id = None, ef_terminal_offset_start = None,
     ef_terminal_offset_len = None, ef_error_kind = None, ef_reason = None, ef_validation_result = None,
     ef_output_ref = None, ef_iteration = None, ef_which_guard_fired = None \<rparr>"

text \<open>No event is lost to a reused sequence number. From a run without events, through any emissions whose
  writes may each fail, and any rebuilds of the counter in the same process or in a new one that can read
  the events, an append that is attempted never collides with a stored row: it succeeds and adds the
  event.\<close>

theorem append_never_collides:
  assumes "events_bounded run_id w" and "(event_step run_id)\<^sup>*\<^sup>* w w'"
  shows "fst (append_run_event run_id (next_event_seq w') event_type 1 ts extra (ew_journal w')) = Inr ()"
proof -
  have "events_bounded run_id w'" using assms(2,1) by (rule event_run.inv_steps)
  then have "ew_seq w' + 1 \<notin> set (event_seqs run_id (ew_journal w'))" by (auto simp: events_bounded_def)
  then show ?thesis by (simp add: next_event_seq_def append_fresh)
qed

theorem append_never_collides_witness:
  "fst (append_run_event ''r1'' 2 ''run.failed'' 1 ''t'' no_fields
     (ew_journal (journal_event False True ''r1'' ''run.started'' ''t'' no_fields ex_event_world))) = Inr ()"
proof -
  let ?w = "journal_event False True ''r1'' ''run.started'' ''t'' no_fields ex_event_world"
  have "events_bounded ''r1'' ex_event_world"
    by (simp add: events_bounded_def ex_event_world_def event_seqs_def empty_journal_def)
  moreover have "(event_step ''r1'')\<^sup>*\<^sup>* ex_event_world ?w" by (auto intro: event_step.emit)
  moreover have "next_event_seq ?w = 2"
    by (simp add: next_event_seq_def journal_event_def Let_def ex_event_world_def)
  ultimately show ?thesis using append_never_collides[of "''r1''" ex_event_world ?w] by simp
qed

section \<open>Declared gaps\<close>

lemma scan_gaps_end: "snd (scan_gaps prev rows) = (if rows = [] then prev else we_seq (last rows))"
  by (induction rows arbitrary: prev) (auto simp: case_prod_beta Let_def)

text \<open>The numbers a gap marker declares missing.\<close>

definition declared :: "gap_marker list \<Rightarrow> int \<Rightarrow> bool" where
  "declared gaps n \<longleftrightarrow> (\<exists>g \<in> set gaps. gm_after_seq g < n \<and> n < gm_before_seq g)"

lemma scan_gaps_exact:
  assumes "sorted_wrt (<) (map we_seq rows)" and "\<forall>e \<in> set rows. prev < we_seq e"
  shows "declared (fst (scan_gaps prev rows)) n
    \<longleftrightarrow> prev < n \<and> n \<le> snd (scan_gaps prev rows) \<and> n \<notin> we_seq ` set rows"
  using assms
proof (induction rows arbitrary: prev)
  case Nil
  then show ?case by (simp add: declared_def)
next
  case (Cons e rows)
  have IH: "declared (fst (scan_gaps (we_seq e) rows)) n
    \<longleftrightarrow> we_seq e < n \<and> n \<le> snd (scan_gaps (we_seq e) rows) \<and> n \<notin> we_seq ` set rows"
    using Cons by (intro Cons.IH) auto
  have above: "\<forall>x \<in> set rows. we_seq e < we_seq x" using Cons.prems(1) by auto
  then have le: "we_seq e \<le> snd (scan_gaps (we_seq e) rows)"
    using last_in_set[of rows] by (auto simp: scan_gaps_end less_imp_le simp del: last_in_set)
  have step: "declared (fst (scan_gaps prev (e # rows))) n
    \<longleftrightarrow> (prev < n \<and> n < we_seq e) \<or> declared (fst (scan_gaps (we_seq e) rows)) n"
    by (auto simp: declared_def case_prod_beta Let_def)
  have fin: "snd (scan_gaps prev (e # rows)) = snd (scan_gaps (we_seq e) rows)"
    by (simp add: case_prod_beta Let_def)
  show ?case
    unfolding step IH fin using le above Cons.prems(2) by auto
qed

lemma read_events_sorted:
  assumes "distinct (event_seqs r j)"
  shows "sorted_wrt (<) (map we_seq (read_run_events r after j))"
proof -
  have "sorted (map we_seq (read_run_events r after j))" by (simp add: read_run_events_def)
  moreover have "distinct (map we_seq (read_run_events r after j))"
  proof -
    have "distinct (map we_seq (filter (\<lambda>e. we_run_id e = r \<and> (case after of None \<Rightarrow> True | Some a \<Rightarrow> a < we_seq e)) (j_events j)))"
      using assms distinct_map_filter[of we_seq "filter (\<lambda>e. we_run_id e = r) (j_events j)"
          "\<lambda>e. case after of None \<Rightarrow> True | Some a \<Rightarrow> a < we_seq e"]
      by (simp add: event_seqs_def conj_commute)
    then show ?thesis
      by (metis (no_types, lifting) read_run_events_def mset_map mset_sort mset_eq_imp_distinct_iff)
  qed
  ultimately show ?thesis by (simp add: strict_sorted_iff)
qed

text \<open>The reader declares exactly what is missing. For a run whose stored numbers are distinct and positive,
  and for a read from the start or after any cursor, a number is declared missing by a gap marker if and
  only if it lies above the cursor, is at most the last number known to exist (the last event read, or the
  high-water mark once the run has ended), and no event with it is returned.\<close>

theorem gaps_declare_exactly_the_missing:
  assumes "distinct (event_seqs run_id j)" and "\<forall>n \<in> set (event_seqs run_id j). 0 < n"
    and "read_events_with_gaps run_id after j = (rows, gaps)"
  defines "start \<equiv> (case after of None \<Rightarrow> 0 | Some a \<Rightarrow> max a 0)"
  defines "seen \<equiv> (if rows = [] then start else we_seq (last rows))"
  shows "declared gaps n \<longleftrightarrow>
    start < n \<and> n \<le> (if is_terminal_run run_id j then max seen (persisted_high_water run_id j) else seen)
    \<and> n \<notin> we_seq ` set rows"
proof -
  have rows: "rows = read_run_events run_id after j" using assms(3) by (simp add: read_events_with_gaps_def case_prod_beta Let_def)
  have above: "\<forall>e \<in> set rows. start < we_seq e"
    using assms(2) by (auto simp: rows read_run_events_def start_def event_seqs_def split: option.splits)
  have sorted: "sorted_wrt (<) (map we_seq rows)" unfolding rows using assms(1) by (rule read_events_sorted)
  have seen: "snd (scan_gaps start rows) = seen" by (simp add: scan_gaps_end seen_def)
  have scan: "declared (fst (scan_gaps start rows)) n \<longleftrightarrow> start < n \<and> n \<le> seen \<and> n \<notin> we_seq ` set rows"
    using scan_gaps_exact[OF sorted above] seen by simp
  have top: "start \<le> seen \<and> (\<forall>e \<in> set rows. we_seq e \<le> seen)"
  proof (cases "rows = []")
    case False
    have "we_seq e \<le> we_seq (last rows)" if "e \<in> set rows" for e
      using that sorted last_in_set by (induction rows) (auto simp: less_imp_le)
    then show ?thesis using False above by (auto simp: seen_def less_imp_le)
  qed (simp add: seen_def)
  let ?hw = "persisted_high_water run_id j"
  have gaps: "gaps = (if is_terminal_run run_id j \<and> seen < ?hw
      then fst (scan_gaps start rows) @ [\<lparr> gm_after_seq = seen, gm_before_seq = ?hw + 1,
        gm_missing_count = ?hw - seen, gm_reason = ''append_failed_trailing'' \<rparr>]
      else fst (scan_gaps start rows))"
    using assms(3) seen by (auto simp: read_events_with_gaps_def case_prod_beta Let_def rows start_def)
  have app: "declared (xs @ [g]) n \<longleftrightarrow> declared xs n \<or> (gm_after_seq g < n \<and> n < gm_before_seq g)" for xs g
    by (auto simp: declared_def)
  show ?thesis unfolding gaps using scan top by (auto simp: app)
qed

definition ex_lossy :: journal where
  "ex_lossy = update_run_state ''r1'' ''failed'' None (ew_journal
     (journal_event True False ''r1'' ''run.failed'' ''t3'' no_fields
     (journal_event True True ''r1'' ''step.started'' ''t2'' no_fields
     (journal_event True False ''r1'' ''run.started'' ''t1'' no_fields
        (ex_event_world \<lparr> ew_journal := snd (insert_run (new_run_row ''r1'' ''wf'' ''s'' ''{}'' ''running'' ''t0''
            ''yaml'' ''1'' None) empty_journal) \<rparr>)))))"

theorem gaps_declare_exactly_the_missing_witness:
  "declared (snd (read_events_with_gaps ''r1'' None ex_lossy)) 1
   \<and> declared (snd (read_events_with_gaps ''r1'' None ex_lossy)) 3"
proof -
  obtain rows gaps where rg: "read_events_with_gaps ''r1'' None ex_lossy = (rows, gaps)" by fastforce
  have r: "map we_seq rows = [2]"
  proof -
    have "map we_seq (fst (read_events_with_gaps ''r1'' None ex_lossy)) = [2]" by code_simp
    then show ?thesis by (simp add: rg)
  qed
  then have ne: "rows \<noteq> []" "we_seq (last rows) = 2" "we_seq ` set rows = {2}"
    by (auto simp: map_eq_Cons_conv)
  have "is_terminal_run ''r1'' ex_lossy" "persisted_high_water ''r1'' ex_lossy = 3" "event_seqs ''r1'' ex_lossy = [2]"
    by code_simp+
  then show ?thesis
    using gaps_declare_exactly_the_missing[of "''r1''" ex_lossy None rows gaps 1]
      gaps_declare_exactly_the_missing[of "''r1''" ex_lossy None rows gaps 3] ne rg by simp
qed

end
