(* ===== verification/Workflow_Engine.thy ===== *)
theory Workflow_Engine
  imports Workflow_Values Workflow_Events
begin

text \<open>
  The declarative engine of \<open>services/workflow_service.py\<close>: one step with its two nested recovery loops, the
  drive over the steps of a run, the start of a run and its resume from the journal.

  Everything outside the engine answers through a record of ports that is asked with a running number, so
  that it may answer differently every time: what happens while the engine awaits (nothing, a
  cancellation, or the write of the cancelling state that a cancellation left behind), whether a
  best-effort write is carried out, what the agent does, and the clock. The number of awaits so far is part
  of the state. JSON texts are written and read by the arguments \<open>dump\<close> and \<open>load\<close>.
\<close>

section \<open>The record of a run\<close>

datatype step_state =
    S_PENDING | S_RUNNING | S_COMPLETED | S_FAILED | S_CANCELLED | S_SKIPPED | S_UNVALIDATED
  | S_RERUN_AUTHORIZED | S_REPLAY_AUTHORIZED

fun step_state_value :: "step_state \<Rightarrow> string" where
  "step_state_value S_PENDING = ''pending''"
| "step_state_value S_RUNNING = ''running''"
| "step_state_value S_COMPLETED = ''completed''"
| "step_state_value S_FAILED = ''failed''"
| "step_state_value S_CANCELLED = ''cancelled''"
| "step_state_value S_SKIPPED = ''skipped''"
| "step_state_value S_UNVALIDATED = ''completed_unvalidated''"
| "step_state_value S_RERUN_AUTHORIZED = ''rerun_authorized''"
| "step_state_value S_REPLAY_AUTHORIZED = ''replay_authorized''"

definition ALL_STEP_STATES :: "step_state list" where
  "ALL_STEP_STATES = [S_PENDING, S_RUNNING, S_COMPLETED, S_FAILED, S_CANCELLED, S_SKIPPED, S_UNVALIDATED,
     S_RERUN_AUTHORIZED, S_REPLAY_AUTHORIZED]"

definition parse_step_state :: "string \<Rightarrow> step_state option" where
  "parse_step_state v = find (\<lambda>s. step_state_value s = v) ALL_STEP_STATES"

datatype workflow_run_state = R_RUNNING | R_CANCELLING | R_COMPLETED | R_FAILED | R_CANCELLED

fun run_state_value :: "workflow_run_state \<Rightarrow> string" where
  "run_state_value R_RUNNING = ''running''"
| "run_state_value R_CANCELLING = ''cancelling''"
| "run_state_value R_COMPLETED = ''completed''"
| "run_state_value R_FAILED = ''failed''"
| "run_state_value R_CANCELLED = ''cancelled''"

definition parse_run_state :: "string \<Rightarrow> workflow_run_state option" where
  "parse_run_state v = find (\<lambda>s. run_state_value s = v) [R_RUNNING, R_CANCELLING, R_COMPLETED, R_FAILED, R_CANCELLED]"

record yaml_step =
  ys_state :: step_state
  ys_attempts :: int
  ys_reprompted :: bool
  ys_output :: "step_output option"
  ys_terminal_id :: "string option"
  ys_error :: "string option"

definition pending_step :: yaml_step where
  "pending_step = \<lparr> ys_state = S_PENDING, ys_attempts = 0, ys_reprompted = False, ys_output = None,
     ys_terminal_id = None, ys_error = None \<rparr>"

record run_record =
  yr_run_id :: string
  yr_workflow_name :: string
  yr_spec :: workflow_spec
  yr_inputs :: "(string \<times> json) list"
  yr_state :: workflow_run_state
  yr_current :: "string option"
  yr_cancelled :: bool
  yr_steps :: "string \<Rightarrow> yaml_step option"
  yr_started_at :: string
  yr_finished_at :: "string option"

text \<open>The last field is history: the prompts handed to an agent, with the step they belong to.\<close>

record engine_world =
  gw_log :: event_world
  gw_rec :: run_record
  gw_store :: output_store
  gw_cancelling_task :: bool
  gw_active :: bool
  gw_clock :: nat
  gw_calls :: "(string \<times> string) list"

datatype agent_reply =
    Reply_Ok string
  | Reply_Cancelled "string option"
  | Reply_Fails string string "string option"
  | Reply_Raises

record agent_turn =
  tu_reply :: agent_reply
  tu_puts :: "((string \<times> string) \<times> step_output) list"

datatype env_action = Quiet | Cancel | Cancelling_Write

record engine_ports =
  po_env :: "nat \<Rightarrow> env_action"
  po_ok :: "nat \<Rightarrow> bool"
  po_agent :: "nat \<Rightarrow> agent_turn"
  po_now :: "nat \<Rightarrow> string"
  po_dump :: "(string \<times> json) list \<Rightarrow> string"

definition upd_rec :: "(run_record \<Rightarrow> run_record) \<Rightarrow> engine_world \<Rightarrow> engine_world" where
  "upd_rec f w = w \<lparr> gw_rec := f (gw_rec w) \<rparr>"

definition upd_journal :: "(journal \<Rightarrow> journal) \<Rightarrow> engine_world \<Rightarrow> engine_world" where
  "upd_journal f w = w \<lparr> gw_log := (gw_log w) \<lparr> ew_journal := f (ew_journal (gw_log w)) \<rparr> \<rparr>"

definition upd_step :: "string \<Rightarrow> (yaml_step \<Rightarrow> yaml_step) \<Rightarrow> engine_world \<Rightarrow> engine_world" where
  "upd_step sid f = upd_rec (\<lambda>r. r \<lparr> yr_steps := (yr_steps r)(sid := map_option f (yr_steps r sid)) \<rparr>)"

definition step_of :: "string \<Rightarrow> engine_world \<Rightarrow> yaml_step" where
  "step_of sid w = the (yr_steps (gw_rec w) sid)"

abbreviation cancelled :: "engine_world \<Rightarrow> bool" where
  "cancelled w \<equiv> yr_cancelled (gw_rec w)"

abbreviation run_id_of :: "engine_world \<Rightarrow> string" where
  "run_id_of w \<equiv> yr_run_id (gw_rec w)"

section \<open>Cancellation and awaits\<close>

text \<open>\<open>cancel_run\<close> on a live drive: the flag, the state and the signal are set at once, the write of the
  cancelling state is left to a task.\<close>

definition cancel_live :: "engine_world \<Rightarrow> engine_world" where
  "cancel_live w =
     (if yr_state (gw_rec w) \<in> {R_CANCELLING, R_COMPLETED, R_FAILED, R_CANCELLED} then w
      else (upd_rec (\<lambda>r. r \<lparr> yr_cancelled := True, yr_state := R_CANCELLING \<rparr>) w) \<lparr> gw_cancelling_task := True \<rparr>)"

definition await_cancelling :: "engine_ports \<Rightarrow> engine_world \<Rightarrow> engine_world" where
  "await_cancelling p w =
     (if \<not> gw_cancelling_task w then w
      else (if po_ok p (gw_clock w)
            then upd_journal (update_run_state (run_id_of w) (run_state_value R_CANCELLING) None) w
            else w) \<lparr> gw_cancelling_task := False, gw_clock := Suc (gw_clock w) \<rparr>)"

definition pause :: "engine_ports \<Rightarrow> engine_world \<Rightarrow> engine_world" where
  "pause p w =
     (let w1 = w \<lparr> gw_clock := Suc (gw_clock w) \<rparr> in
      (case po_env p (gw_clock w) of
         Quiet \<Rightarrow> w1
       | Cancel \<Rightarrow> if gw_active w then cancel_live w1 else w1
       | Cancelling_Write \<Rightarrow> await_cancelling p w1))"

section \<open>Best-effort writes\<close>

text \<open>Each write runs off the loop: the engine pauses, then the write reads the record as it is.\<close>

definition best_effort :: "engine_ports \<Rightarrow> (run_record \<Rightarrow> journal \<Rightarrow> journal) \<Rightarrow> engine_world \<Rightarrow> engine_world" where
  "best_effort p f w =
     (let w1 = pause p w in
      if po_ok p (gw_clock w) then upd_journal (f (gw_rec w1)) w1 else w1)"

definition journal_step :: "engine_ports \<Rightarrow> string \<Rightarrow> string option \<Rightarrow> engine_world \<Rightarrow> engine_world" where
  "journal_step p sid kind w =
     best_effort p (\<lambda>r. let st = the (yr_steps r sid) in
        update_step (yr_run_id r) sid (step_state_value (ys_state st)) (ys_attempts st) (po_now p (gw_clock w))
          (map_option (\<lambda>o'. po_dump p (so_output o')) (ys_output st)) (ys_error st) kind) w"

definition journal_current_step :: "engine_ports \<Rightarrow> engine_world \<Rightarrow> engine_world" where
  "journal_current_step p w = best_effort p (\<lambda>r. update_run_current_step (yr_run_id r) (yr_current r)) w"

definition journal_run_state :: "engine_ports \<Rightarrow> engine_world \<Rightarrow> engine_world" where
  "journal_run_state p w =
     best_effort p (\<lambda>r. update_run_state (yr_run_id r) (run_state_value (yr_state r)) (yr_finished_at r)) w"

text \<open>An emission: the number is taken, then two writes, each off the loop.\<close>

definition emit :: "engine_ports \<Rightarrow> string \<Rightarrow> event_fields \<Rightarrow> engine_world \<Rightarrow> engine_world" where
  "emit p event_type extra w =
     (let n = gw_clock w;
          w1 = w \<lparr> gw_log := journal_event (po_ok p n) (po_ok p (Suc n)) (run_id_of w) event_type
                              (po_now p (Suc n)) extra (gw_log w) \<rparr>
      in pause p (pause p w1))"

definition blank_fields :: event_fields where
  "blank_fields = \<lparr> ef_step_id = None, ef_attempt = None, ef_state = None, ef_elapsed_ms = None, ef_provider = None,
     ef_agent_profile = None, ef_engine = None, ef_terminal_id = None, ef_terminal_offset_start = None,
     ef_terminal_offset_len = None, ef_error_kind = None, ef_reason = None, ef_validation_result = None,
     ef_output_ref = None, ef_iteration = None, ef_which_guard_fired = None \<rparr>"

text \<open>The fields every event of a step carries; \<open>identified\<close> adds the provider and the agent profile.\<close>

definition of_step :: "workflow_step \<Rightarrow> event_fields" where
  "of_step s = blank_fields \<lparr> ef_step_id := Some (wp_id s) \<rparr>"

definition identified :: "workflow_step \<Rightarrow> event_fields" where
  "identified s = (of_step s) \<lparr> ef_provider := Some (wp_provider s), ef_agent_profile := Some (wp_agent s) \<rparr>"

definition state_text :: "string \<Rightarrow> engine_world \<Rightarrow> string option" where
  "state_text sid w = Some (step_state_value (ys_state (step_of sid w)))"

section \<open>Templates\<close>

definition plain_char :: "char \<Rightarrow> bool" where
  "plain_char c \<longleftrightarrow> c \<noteq> CHR ''{'' \<and> c \<noteq> CHR ''}''"

text \<open>A placeholder at the front of a text: two opening braces, at least one character that is no brace, two
  closing braces.\<close>

definition placeholder :: "string \<Rightarrow> (string \<times> string) option" where
  "placeholder s =
     (let body = takeWhile plain_char (drop 2 s); rest = dropWhile plain_char (drop 2 s) in
      if startswith s ''{{'' \<and> body \<noteq> [] \<and> startswith rest ''}}'' then Some (strip body, drop 2 rest) else None)"

lemma placeholder_shorter: "placeholder (c # s) = Some (ref, rest) \<Longrightarrow> length rest < Suc (length s)"
  using length_dropWhile_le[of plain_char "drop 2 (c # s)"]
  by (auto simp: placeholder_def Let_def startswith_def split: if_splits)

function expand :: "(string \<Rightarrow> workflow_error + string) \<Rightarrow> string \<Rightarrow> workflow_error + string" where
  "expand resolve [] = Inr []"
| "expand resolve (c # s) =
     (case placeholder (c # s) of
        None \<Rightarrow> (case expand resolve s of Inl e \<Rightarrow> Inl e | Inr out \<Rightarrow> Inr (c # out))
      | Some (ref, rest) \<Rightarrow>
          (case resolve ref of
             Inl e \<Rightarrow> Inl e
           | Inr v \<Rightarrow> (case expand resolve rest of Inl e \<Rightarrow> Inl e | Inr out \<Rightarrow> Inr (v @ out))))"
  by pat_completeness auto
termination
  by (relation "measure (\<lambda>(_, s). length s)") (auto dest: placeholder_shorter)

definition input_ref :: "string \<Rightarrow> string option" where
  "input_ref ref =
     (let name = drop 16 ref in
      if startswith ref ''workflow.inputs.'' \<and> name \<noteq> [] \<and> list_all name_char name then Some name else None)"

definition step_ref :: "string \<Rightarrow> (string \<times> string) option" where
  "step_ref ref =
     (let sid = takeWhile name_char (drop 6 ref); rest = dropWhile name_char (drop 6 ref); name = drop 8 rest in
      if startswith ref ''steps.'' \<and> sid \<noteq> [] \<and> startswith rest ''.output.'' \<and> name \<noteq> [] \<and> list_all name_char name
      then Some (sid, name) else None)"

definition resolve_ref :: "run_record \<Rightarrow> string \<Rightarrow> workflow_error + string" where
  "resolve_ref r ref =
     (case input_ref ref of
        Some name \<Rightarrow> (case map_of (yr_inputs r) name of None \<Rightarrow> Inl WF_EngineError | Some v \<Rightarrow> Inr (str_of v))
      | None \<Rightarrow>
          (case step_ref ref of
             None \<Rightarrow> Inl WF_EngineError
           | Some (sid, name) \<Rightarrow>
               (case Option.bind (yr_steps r sid) ys_output of
                  None \<Rightarrow> Inl WF_EngineError
                | Some out \<Rightarrow>
                    (case map_of (so_output out) name of
                       None \<Rightarrow> Inl WF_EngineError | Some v \<Rightarrow> Inr (str_of v)))))"

definition substitute :: "string \<Rightarrow> run_record \<Rightarrow> workflow_error + string" where
  "substitute template r = expand (resolve_ref r) template"

definition reprompt_prompt :: "workflow_step \<Rightarrow> string" where
  "reprompt_prompt s =
     wp_prompt s @ ''\<newline>\<newline>Your previous turn did not produce a valid structured output for this workflow step. Call the `workflow_return` tool with output that matches this JSON-Schema:\<newline>''
       @ (case wp_output_schema s of None \<Rightarrow> ''None'' | Some sch \<Rightarrow> py_repr sch)"

section \<open>One step\<close>

text \<open>An agent turn: what the worker stores arrives while the engine awaits.\<close>

definition agent_call :: "engine_ports \<Rightarrow> string \<Rightarrow> string \<Rightarrow> engine_world \<Rightarrow> agent_reply \<times> engine_world" where
  "agent_call p sid prompt w =
     (let turn = po_agent p (gw_clock w);
          w1 = w \<lparr> gw_calls := gw_calls w @ [(sid, prompt)],
                   gw_store := fold (\<lambda>(key, rec). put key rec) (tu_puts turn) (gw_store w) \<rparr>
      in (tu_reply turn, pause p w1))"

definition stored_output :: "string \<Rightarrow> engine_world \<Rightarrow> step_output option" where
  "stored_output sid w = get_output (run_id_of w, sid) (gw_store w)"

definition keep_output :: "string \<Rightarrow> engine_world \<Rightarrow> step_state \<times> engine_world" where
  "keep_output sid w =
     (let rec = stored_output sid w in
      (if (case rec of None \<Rightarrow> False | Some out \<Rightarrow> so_validated out) then S_COMPLETED else S_UNVALIDATED,
       upd_step sid (\<lambda>st. st \<lparr> ys_output := rec \<rparr>) w))"

definition collect_structured_output ::
  "engine_ports \<Rightarrow> workflow_step \<Rightarrow> engine_world \<Rightarrow> (agent_reply + step_state) \<times> engine_world"
where
  "collect_structured_output p s w =
     (let sid = wp_id s in
      if wp_output_schema s = None then (Inr S_COMPLETED, w)
      else if (case stored_output sid w of None \<Rightarrow> False | Some out \<Rightarrow> so_validated out) \<or> ys_reprompted (step_of sid w)
        then (case keep_output sid w of (outcome, w1) \<Rightarrow> (Inr outcome, w1))
      else
        let w1 = upd_step sid (\<lambda>st. st \<lparr> ys_reprompted := True \<rparr>) w;
            w2 = emit p ''step.reprompted'' ((identified s) \<lparr> ef_terminal_id := ys_terminal_id (step_of sid w1),
                    ef_reason := Some ''invalid_or_missing_output'' \<rparr>) w1
        in (case agent_call p sid (reprompt_prompt s) w2 of
              (Reply_Ok t, w3) \<Rightarrow>
                (case keep_output sid (upd_step sid (\<lambda>st. st \<lparr> ys_terminal_id := Some t \<rparr>) w3) of
                   (outcome, w4) \<Rightarrow> (Inr outcome, w4))
            | (reply, w3) \<Rightarrow> (Inl reply, w3)))"

definition NON_RETRYABLE_STEP_KINDS :: "string set" where
  "NON_RETRYABLE_STEP_KINDS = {''input_blocked'', ''waiting_user_input'', ''cancelled''}"

text \<open>The body of the \<open>try\<close> of an attempt.\<close>

definition attempt_body ::
  "engine_ports \<Rightarrow> workflow_step \<Rightarrow> int \<Rightarrow> string \<Rightarrow> engine_world \<Rightarrow> (agent_reply + step_state) \<times> engine_world"
where
  "attempt_body p s attempt prompt w =
     (case agent_call p (wp_id s) prompt w of
        (Reply_Ok t, w1) \<Rightarrow>
          collect_structured_output p s
            (emit p ''terminal.created'' ((identified s) \<lparr> ef_attempt := Some attempt, ef_terminal_id := Some t \<rparr>)
              (upd_step (wp_id s) (\<lambda>st. st \<lparr> ys_terminal_id := Some t \<rparr>) w1))
      | (reply, w1) \<Rightarrow> (Inl reply, w1))"

definition keep_terminal :: "string option \<Rightarrow> yaml_step \<Rightarrow> yaml_step" where
  "keep_terminal t st = (if t = None then st else st \<lparr> ys_terminal_id := t \<rparr>)"

definition settle_cancelled :: "engine_ports \<Rightarrow> string \<Rightarrow> (yaml_step \<Rightarrow> yaml_step) \<Rightarrow> engine_world \<Rightarrow> engine_world" where
  "settle_cancelled p sid f w =
     journal_step p sid None (await_cancelling p (upd_step sid (\<lambda>st. (f st) \<lparr> ys_state := S_CANCELLED \<rparr>) w))"

definition settle_skipped :: "engine_ports \<Rightarrow> workflow_step \<Rightarrow> int \<Rightarrow> string option \<Rightarrow> engine_world \<Rightarrow> engine_world" where
  "settle_skipped p s attempt t w =
     (let w1 = journal_step p (wp_id s) None
                 (upd_step (wp_id s) (\<lambda>st. (keep_terminal t st) \<lparr> ys_state := S_SKIPPED \<rparr>) w)
      in emit p ''step.skipped'' ((of_step s) \<lparr> ef_attempt := Some attempt, ef_state := state_text (wp_id s) w1,
           ef_terminal_id := ys_terminal_id (step_of (wp_id s) w1), ef_reason := Some ''cancelled'' \<rparr>) w1)"

definition settle_done :: "engine_ports \<Rightarrow> (string \<Rightarrow> string) \<Rightarrow> workflow_step \<Rightarrow> int \<Rightarrow> step_state \<Rightarrow> engine_world \<Rightarrow> engine_world" where
  "settle_done p digest s attempt outcome w =
     (let sid = wp_id s;
          w1 = journal_step p sid None (upd_step sid (\<lambda>st. st \<lparr> ys_state := outcome \<rparr>) w);
          st = step_of sid w1;
          w2 = (case ys_output st of
                  None \<Rightarrow> w1
                | Some out \<Rightarrow> emit p ''step.output.received'' ((of_step s) \<lparr> ef_attempt := Some attempt,
                    ef_validation_result := Some (if so_validated out then ''valid'' else ''invalid''),
                    ef_terminal_id := ys_terminal_id st, ef_output_ref := Some (digest (po_dump p (so_output out))) \<rparr>) w1)
      in emit p ''step.completed'' ((identified s) \<lparr> ef_attempt := Some attempt, ef_state := state_text sid w2,
           ef_terminal_id := ys_terminal_id (step_of sid w2) \<rparr>) w2)"

definition settle_failed :: "engine_ports \<Rightarrow> workflow_step \<Rightarrow> string option \<Rightarrow> engine_world \<Rightarrow> engine_world" where
  "settle_failed p s kind w =
     (let sid = wp_id s;
          w1 = journal_step p sid kind (upd_step sid (\<lambda>st. st \<lparr> ys_state := S_FAILED \<rparr>) w);
          w2 = emit p ''step.failed'' ((identified s) \<lparr> ef_attempt := Some (ys_attempts (step_of sid w1)),
                  ef_state := state_text sid w1, ef_error_kind := kind, ef_terminal_id := ys_terminal_id (step_of sid w1) \<rparr>) w1
      in if wp_on_failure s = Some Continue then w2 else upd_rec (\<lambda>r. r \<lparr> yr_state := R_FAILED \<rparr>) w2)"

definition attempt_failed :: "engine_ports \<Rightarrow> workflow_step \<Rightarrow> int \<Rightarrow> string \<Rightarrow> string option \<Rightarrow> engine_world \<Rightarrow> engine_world" where
  "attempt_failed p s attempt kind t w =
     (let w1 = journal_step p (wp_id s) (Some kind) w
      in emit p ''step.attempt.failed'' ((identified s) \<lparr> ef_attempt := Some attempt, ef_state := state_text (wp_id s) w1,
           ef_error_kind := Some kind, ef_terminal_id := t \<rparr>) w1)"

definition begin_attempt :: "engine_ports \<Rightarrow> workflow_step \<Rightarrow> int \<Rightarrow> engine_world \<Rightarrow> engine_world" where
  "begin_attempt p s attempt w =
     emit p ''step.attempt.started'' ((identified s) \<lparr> ef_attempt := Some attempt \<rparr>)
       (upd_step (wp_id s) (\<lambda>st. st \<lparr> ys_attempts := attempt, ys_error := None \<rparr>) w)"

text \<open>The outer loop; the first argument counts the attempts that are left.\<close>

fun run_attempts ::
  "nat \<Rightarrow> engine_ports \<Rightarrow> (string \<Rightarrow> string) \<Rightarrow> workflow_step \<Rightarrow> int \<Rightarrow> string option \<Rightarrow> engine_world
     \<Rightarrow> (workflow_error + unit) \<times> engine_world"
where
  "run_attempts 0 p digest s attempt kind w = (Inr (), settle_failed p s kind w)"
| "run_attempts (Suc n) p digest s attempt kind w =
     (if cancelled w
      then (Inr (), settle_cancelled p (wp_id s) (\<lambda>st. st \<lparr> ys_error := Some ''step cancelled before attempt'' \<rparr>) w)
      else
        let w1 = begin_attempt p s attempt w in
        (case substitute (wp_prompt s) (gw_rec w1) of
           Inl e \<Rightarrow> (Inl e, w1)
         | Inr prompt \<Rightarrow>
             (case attempt_body p s attempt prompt w1 of
                (Inr outcome, w2) \<Rightarrow> (Inr (), settle_done p digest s attempt outcome w2)
              | (Inl (Reply_Cancelled t), w2) \<Rightarrow> (Inr (), settle_skipped p s attempt t w2)
              | (Inl (Reply_Fails k message t), w2) \<Rightarrow>
                  let failing = (\<lambda>st. keep_terminal t (st \<lparr> ys_error := Some message \<rparr>)) in
                  if k = ''cancelled'' \<or> cancelled w2 then (Inr (), settle_cancelled p (wp_id s) failing w2)
                  else
                    let w3 = attempt_failed p s attempt k t (upd_step (wp_id s) failing w2) in
                    if k \<in> NON_RETRYABLE_STEP_KINDS then (Inr (), settle_failed p s (Some k) w3)
                    else run_attempts n p digest s (attempt + 1) (Some k) w3
              | (Inl _, w2) \<Rightarrow> (Inl WF_RuntimeError, w2))))"

definition max_attempts :: "workflow_step \<Rightarrow> nat" where
  "max_attempts s = nat ((case wp_retries s of None \<Rightarrow> WORKFLOW_DEFAULT_STEP_RETRIES | Some n \<Rightarrow> n) + 1)"

definition start_step :: "engine_ports \<Rightarrow> workflow_step \<Rightarrow> engine_world \<Rightarrow> engine_world" where
  "start_step p s w =
     (let sid = wp_id s;
          w1 = upd_step sid (\<lambda>st. st \<lparr> ys_state := S_RUNNING \<rparr>) (upd_rec (\<lambda>r. r \<lparr> yr_current := Some sid \<rparr>) w);
          w2 = journal_current_step p (journal_step p sid None w1)
      in emit p ''step.started'' ((identified s) \<lparr> ef_state := state_text sid w2 \<rparr>) w2)"

definition engine_step ::
  "engine_ports \<Rightarrow> (string \<Rightarrow> string) \<Rightarrow> workflow_step \<Rightarrow> engine_world \<Rightarrow> (workflow_error + unit) \<times> engine_world"
where
  "engine_step p digest s w = run_attempts (max_attempts s) p digest s 1 None (start_step p s w)"

section \<open>The drive\<close>

definition skip_step :: "engine_ports \<Rightarrow> workflow_step \<Rightarrow> engine_world \<Rightarrow> engine_world" where
  "skip_step p s w =
     (let w1 = journal_step p (wp_id s) None (upd_step (wp_id s) (\<lambda>st. st \<lparr> ys_state := S_SKIPPED \<rparr>) w)
      in emit p ''step.skipped'' ((of_step s) \<lparr> ef_state := state_text (wp_id s) w1,
           ef_reason := Some (if cancelled w1 then ''cancelled'' else ''upstream_halt'') \<rparr>) w1)"

fun skip_remaining :: "engine_ports \<Rightarrow> workflow_step list \<Rightarrow> engine_world \<Rightarrow> engine_world" where
  "skip_remaining p [] w = w"
| "skip_remaining p (s # rest) w =
     skip_remaining p rest (if ys_state (step_of (wp_id s) w) = S_PENDING then skip_step p s w else w)"

definition stop_cancelled :: "engine_ports \<Rightarrow> workflow_step list \<Rightarrow> engine_world \<Rightarrow> engine_world" where
  "stop_cancelled p rest w =
     upd_rec (\<lambda>r. r \<lparr> yr_state := R_CANCELLED \<rparr>) (skip_remaining p rest (await_cancelling p w))"

fun drive_loop ::
  "engine_ports \<Rightarrow> (string \<Rightarrow> string) \<Rightarrow> workflow_step list \<Rightarrow> engine_world \<Rightarrow> (workflow_error + unit) \<times> engine_world"
where
  "drive_loop p digest [] w = (Inr (), w)"
| "drive_loop p digest (s # rest) w =
     (if cancelled w then (Inr (), stop_cancelled p (s # rest) w)
      else if ys_state (step_of (wp_id s) w) \<in> {S_COMPLETED, S_UNVALIDATED} then drive_loop p digest rest w
      else
        (case engine_step p digest s w of
           (Inl e, w1) \<Rightarrow> (Inl e, w1)
         | (Inr _, w1) \<Rightarrow>
             if cancelled w1 then (Inr (), stop_cancelled p rest w1)
             else if yr_state (gw_rec w1) = R_FAILED then (Inr (), skip_remaining p rest w1)
             else drive_loop p digest rest w1))"

definition run_event :: "engine_ports \<Rightarrow> string \<Rightarrow> string option \<Rightarrow> engine_world \<Rightarrow> engine_world" where
  "run_event p event_type kind w =
     emit p event_type (blank_fields \<lparr> ef_state := Some (run_state_value (yr_state (gw_rec w))), ef_error_kind := kind \<rparr>) w"

text \<open>The \<open>except WorkflowEngineError\<close> arm.\<close>

definition settle_engine_error :: "engine_ports \<Rightarrow> engine_world \<Rightarrow> engine_world" where
  "settle_engine_error p w =
     (let w1 = (case yr_current (gw_rec w) of
                  None \<Rightarrow> w
                | Some sid \<Rightarrow> upd_step sid (\<lambda>st. if ys_state st \<in> {S_COMPLETED, S_UNVALIDATED} then st
                                              else st \<lparr> ys_state := S_FAILED \<rparr>) w);
          w2 = upd_rec (\<lambda>r. r \<lparr> yr_state := R_FAILED, yr_current := None,
                               yr_finished_at := Some (po_now p (gw_clock w)) \<rparr>) w1
      in journal_run_state p (run_event p ''run.failed'' (Some ''error'') (journal_current_step p w2)))"

definition final_state :: "engine_world \<Rightarrow> workflow_run_state" where
  "final_state w =
     (if cancelled w then R_CANCELLED
      else if yr_state (gw_rec w) \<in> {R_FAILED, R_CANCELLED} then yr_state (gw_rec w)
      else R_COMPLETED)"

definition final_event :: "engine_ports \<Rightarrow> engine_world \<Rightarrow> engine_world" where
  "final_event p w =
     (case yr_state (gw_rec w) of
        R_CANCELLED \<Rightarrow> run_event p ''run.cancelled'' None w
      | R_FAILED \<Rightarrow> run_event p ''run.failed'' (Some ''error'') w
      | _ \<Rightarrow> run_event p ''run.completed'' None w)"

definition finalise :: "engine_ports \<Rightarrow> engine_world \<Rightarrow> engine_world" where
  "finalise p w =
     (let w1 = (if cancelled w then await_cancelling p w else w);
          w2 = upd_rec (\<lambda>r. r \<lparr> yr_state := final_state w1, yr_current := None,
                               yr_finished_at := Some (po_now p (gw_clock w1)) \<rparr>) w1
      in journal_run_state p (final_event p (journal_current_step p w2)))"

definition drive ::
  "engine_ports \<Rightarrow> (string \<Rightarrow> string) \<Rightarrow> workflow_step list \<Rightarrow> engine_world \<Rightarrow> (workflow_error + unit) \<times> engine_world"
where
  "drive p digest order w =
     (case drive_loop p digest order w of
        (Inl WF_EngineError, w1) \<Rightarrow> (Inl WF_EngineError, settle_engine_error p w1)
      | (Inl e, w1) \<Rightarrow> (Inl e, w1)
      | (Inr _, w1) \<Rightarrow> (Inr (), finalise p w1))"

text \<open>The \<open>finally\<close> of a drive, and the drive with it.\<close>

definition end_drive :: "engine_ports \<Rightarrow> engine_world \<Rightarrow> engine_world" where
  "end_drive p w = (await_cancelling p w) \<lparr> gw_active := False \<rparr>"

definition guarded_drive ::
  "engine_ports \<Rightarrow> (string \<Rightarrow> string) \<Rightarrow> workflow_spec \<Rightarrow> engine_world \<Rightarrow> (workflow_error + unit) \<times> engine_world"
where
  "guarded_drive p digest spec w =
     (case topological_order (\<lambda>_. []) spec of
        Some (Inr order) \<Rightarrow> (case drive p digest order w of (r, w1) \<Rightarrow> (r, end_drive p w1))
      | Some (Inl e) \<Rightarrow> (Inl e, end_drive p w)
      | None \<Rightarrow> (Inl WF_RuntimeError, end_drive p w))"

section \<open>Starting a run\<close>

definition run_id_available :: "bool \<Rightarrow> bool \<Rightarrow> string \<Rightarrow> journal \<Rightarrow> bool" where
  "run_id_available known_here journal_read run_id j \<longleftrightarrow>
     \<not> known_here \<and> (journal_read \<longrightarrow> get_run_row run_id j = None)"

definition new_record :: "workflow_spec \<Rightarrow> (string \<times> json) list \<Rightarrow> string \<Rightarrow> string \<Rightarrow> run_record" where
  "new_record spec resolved run_id now =
     \<lparr> yr_run_id = run_id, yr_workflow_name = sp_name spec, yr_spec = spec, yr_inputs = resolved, yr_state = R_RUNNING,
       yr_current = None, yr_cancelled = False,
       yr_steps = (\<lambda>sid. if sid \<in> wp_id ` set (sp_steps spec) then Some pending_step else None),
       yr_started_at = now, yr_finished_at = None \<rparr>"

definition journal_insert_run :: "engine_ports \<Rightarrow> (workflow_spec \<Rightarrow> string) \<Rightarrow> engine_world \<Rightarrow> engine_world" where
  "journal_insert_run p dump_spec w =
     best_effort p (\<lambda>r j.
        (case insert_run (new_run_row (yr_run_id r) (yr_workflow_name r) (dump_spec (yr_spec r)) (po_dump p (yr_inputs r))
                 (run_state_value (yr_state r)) (yr_started_at r) ''yaml'' ''1'' None) j of
           (Inl e, j1) \<Rightarrow> j1
         | (Inr _, j1) \<Rightarrow> insert_steps (yr_run_id r) (map (\<lambda>s. (wp_id s, ''pending'')) (sp_steps (yr_spec r)))
                            (po_now p (gw_clock w)) j1)) w"

text \<open>\<open>start_run\<close>. \<open>known_here\<close> says that the registry or a live drive of this process holds the run id.\<close>

definition start_run ::
  "engine_ports \<Rightarrow> (string \<Rightarrow> string) \<Rightarrow> (workflow_spec \<Rightarrow> string) \<Rightarrow> (string \<Rightarrow> workflow_error + string) \<Rightarrow> bool \<Rightarrow> bool
     \<Rightarrow> workflow_spec \<Rightarrow> (string \<times> json) list \<Rightarrow> string \<Rightarrow> engine_world \<Rightarrow> (workflow_error + unit) \<times> engine_world"
where
  "start_run p digest dump_spec resolve_path known_here journal_read spec inputs run_id w =
     (if \<not> valid_key_part run_id then (Inl WF_ValueError, w)
      else if \<not> run_id_available known_here journal_read run_id (ew_journal (gw_log w)) then (Inl WF_KeyError, w)
      else
        (case validate_inputs resolve_path (sp_inputs spec) inputs of
           Inl e \<Rightarrow> (Inl e, w)
         | Inr resolved \<Rightarrow>
             if sp_mode spec \<noteq> Sequential then (Inl WF_NotBuiltYet, w)
             else
               let w1 = w \<lparr> gw_rec := new_record spec resolved run_id (po_now p (gw_clock w)),
                            gw_log := (gw_log w) \<lparr> ew_seq := 0 \<rparr>, gw_cancelling_task := False, gw_active := True \<rparr>
               in guarded_drive p digest spec (run_event p ''run.started'' None (journal_insert_run p dump_spec w1))))"

section \<open>Resuming a run\<close>

definition output_of_json :: "(string \<Rightarrow> (string \<times> json) list option) \<Rightarrow> string option \<Rightarrow> step_output option" where
  "output_of_json load text =
     (case Option.bind text load of
        None \<Rightarrow> None
      | Some data \<Rightarrow> Some \<lparr> so_run_id = [], so_step_id = [], so_output = data, so_validated = True, so_errors = [] \<rparr>)"

definition overlay_row ::
  "(string \<Rightarrow> (string \<times> json) list option) \<Rightarrow> step_row \<Rightarrow> (string \<Rightarrow> yaml_step option) \<Rightarrow> string \<Rightarrow> yaml_step option"
where
  "overlay_row load row steps =
     (case (steps (ws_step_id row), parse_step_state (ws_state row)) of
        (Some _, Some st) \<Rightarrow>
          steps(ws_step_id row \<mapsto> pending_step \<lparr> ys_state := st, ys_attempts := ws_attempts row,
             ys_output := output_of_json load (ws_output_json row), ys_error := ws_error row \<rparr>)
      | _ \<Rightarrow> steps)"

definition rebuild_record ::
  "(string \<Rightarrow> workflow_spec option) \<Rightarrow> (string \<Rightarrow> (string \<times> json) list option) \<Rightarrow> bool \<Rightarrow> workflow_run_row \<Rightarrow> journal
     \<Rightarrow> run_record option"
where
  "rebuild_record load_spec load steps_read row j =
     (case (load_spec (wr_spec_snapshot row), load (wr_inputs_json row), parse_run_state (wr_state row)) of
        (Some spec, Some inputs, Some state) \<Rightarrow>
          Some \<lparr> yr_run_id = wr_run_id row, yr_workflow_name = wr_workflow_name row, yr_spec = spec, yr_inputs = inputs,
             yr_state = state, yr_current = wr_current_step_id row, yr_cancelled = False,
             yr_steps = fold (overlay_row load) (if steps_read then get_steps (wr_run_id row) j else [])
               (\<lambda>sid. if sid \<in> wp_id ` set (sp_steps spec) then Some pending_step else None),
             yr_started_at = wr_started_at row, yr_finished_at = wr_finished_at row \<rparr>
      | _ \<Rightarrow> None)"

definition reset_step :: "yaml_step \<Rightarrow> yaml_step" where
  "reset_step st = (if ys_state st \<in> {S_COMPLETED, S_UNVALIDATED} then st else pending_step)"

definition reopened :: "run_record \<Rightarrow> run_record" where
  "reopened r = r \<lparr> yr_steps := (\<lambda>sid. map_option reset_step (yr_steps r sid)), yr_state := R_RUNNING,
     yr_cancelled := False, yr_current := None, yr_finished_at := None \<rparr>"

text \<open>\<open>resume_from_last_completed\<close>. The four flags say whether the reads of the run row, of its steps, of the
  high-water mark and of the last event succeed; \<open>live\<close> that a record of the run is still cached.\<close>

definition resume_run ::
  "engine_ports \<Rightarrow> (string \<Rightarrow> string) \<Rightarrow> (string \<Rightarrow> workflow_spec option) \<Rightarrow> (string \<Rightarrow> (string \<times> json) list option)
     \<Rightarrow> bool \<Rightarrow> bool \<Rightarrow> bool \<Rightarrow> bool \<Rightarrow> bool \<Rightarrow> string \<Rightarrow> engine_world \<Rightarrow> (workflow_error + unit) \<times> engine_world"
where
  "resume_run p digest load_spec load row_read steps_read mark_read max_read live run_id w =
     (if \<not> valid_key_part run_id then (Inl WF_ValueError, w)
      else if gw_active w then (Inl WF_ResumeNotAllowed, w)
      else
        (case (if row_read then get_run_row run_id (ew_journal (gw_log w)) else None) of
           None \<Rightarrow> (Inl WF_KeyError, w)
         | Some row \<Rightarrow>
             (case parse_run_state (wr_state row) of
                None \<Rightarrow> (Inl WF_ResumeCorrupt, w)
              | Some state \<Rightarrow>
                  if state = R_COMPLETED then (Inl WF_ResumeNotAllowed, w)
                  else
                    let w0 = (if state = R_CANCELLING
                              then best_effort p (\<lambda>_. update_run_state run_id ''cancelled'' (Some (po_now p (gw_clock w)))) w else w) in
                    (case load_spec (wr_spec_snapshot row) of
                       None \<Rightarrow> (Inl WF_ResumeCorrupt, w0)
                     | Some spec \<Rightarrow>
                         (case rebuild_record load_spec load steps_read
                                 (the (get_run_row run_id (ew_journal (gw_log w0)))) (ew_journal (gw_log w0)) of
                            None \<Rightarrow> (Inl WF_KeyError, w0)
                          | Some r \<Rightarrow>
                              let w1 = w0 \<lparr> gw_rec := reopened r,
                                     gw_log := reseed mark_read max_read live run_id (gw_log w0),
                                     gw_cancelling_task := False, gw_active := True \<rparr>;
                                  w2 = best_effort p (\<lambda>_. update_run_state run_id ''running'' None) w1
                              in guarded_drive p digest spec (journal_current_step p w2))))))"

end
