(* ===== verification/Workflow_Engine_Facts.thy ===== *)
theory Workflow_Engine_Facts
  imports Workflow_Engine
begin

text \<open>
  What the operations of the declarative engine leave alone: awaits and best-effort writes touch neither the
  step states nor the agents, and a step touches no other step.
\<close>

section \<open>The bookkeeping operations\<close>

lemma upd_rec_simps [simp]:
  "gw_log (upd_rec f w) = gw_log w" "gw_rec (upd_rec f w) = f (gw_rec w)" "gw_store (upd_rec f w) = gw_store w"
  "gw_cancelling_task (upd_rec f w) = gw_cancelling_task w" "gw_active (upd_rec f w) = gw_active w"
  "gw_clock (upd_rec f w) = gw_clock w" "gw_calls (upd_rec f w) = gw_calls w"
  by (simp_all add: upd_rec_def)

lemma upd_journal_simps [simp]:
  "gw_log (upd_journal f w) = (gw_log w) \<lparr> ew_journal := f (ew_journal (gw_log w)) \<rparr>"
  "gw_rec (upd_journal f w) = gw_rec w" "gw_store (upd_journal f w) = gw_store w"
  "gw_cancelling_task (upd_journal f w) = gw_cancelling_task w" "gw_active (upd_journal f w) = gw_active w"
  "gw_clock (upd_journal f w) = gw_clock w" "gw_calls (upd_journal f w) = gw_calls w"
  by (simp_all add: upd_journal_def)

lemma upd_step_simps [simp]:
  "gw_log (upd_step s f w) = gw_log w" "gw_store (upd_step s f w) = gw_store w"
  "gw_cancelling_task (upd_step s f w) = gw_cancelling_task w" "gw_active (upd_step s f w) = gw_active w"
  "gw_clock (upd_step s f w) = gw_clock w" "gw_calls (upd_step s f w) = gw_calls w"
  "yr_run_id (gw_rec (upd_step s f w)) = yr_run_id (gw_rec w)"
  "yr_state (gw_rec (upd_step s f w)) = yr_state (gw_rec w)"
  "yr_cancelled (gw_rec (upd_step s f w)) = yr_cancelled (gw_rec w)"
  "yr_current (gw_rec (upd_step s f w)) = yr_current (gw_rec w)"
  "yr_inputs (gw_rec (upd_step s f w)) = yr_inputs (gw_rec w)"
  "yr_finished_at (gw_rec (upd_step s f w)) = yr_finished_at (gw_rec w)"
  "yr_steps (gw_rec (upd_step s f w)) = (yr_steps (gw_rec w))(s := map_option f (yr_steps (gw_rec w) s))"
  by (simp_all add: upd_step_def)

lemma step_of_upd_step [simp]:
  "yr_steps (gw_rec w) s \<noteq> None \<Longrightarrow> step_of s (upd_step s f w) = f (step_of s w)"
  "t \<noteq> s \<Longrightarrow> step_of t (upd_step s f w) = step_of t w"
  by (auto simp: step_of_def)

text \<open>Everything an await or a best-effort write leaves as it was.\<close>

definition unmoved :: "engine_world \<Rightarrow> engine_world \<Rightarrow> bool" where
  "unmoved w w' \<longleftrightarrow>
     gw_store w' = gw_store w \<and> gw_active w' = gw_active w \<and> gw_calls w' = gw_calls w
     \<and> yr_run_id (gw_rec w') = yr_run_id (gw_rec w) \<and> yr_steps (gw_rec w') = yr_steps (gw_rec w)
     \<and> yr_current (gw_rec w') = yr_current (gw_rec w) \<and> yr_inputs (gw_rec w') = yr_inputs (gw_rec w)
     \<and> yr_finished_at (gw_rec w') = yr_finished_at (gw_rec w)
     \<and> (cancelled w \<longrightarrow> cancelled w')
     \<and> (yr_state (gw_rec w) \<noteq> R_RUNNING \<longrightarrow>
          yr_state (gw_rec w') = yr_state (gw_rec w) \<and> yr_cancelled (gw_rec w') = yr_cancelled (gw_rec w))"

lemma calm_refl [simp]: "unmoved w w" by (simp add: unmoved_def)

lemma calm_trans: "unmoved u v \<Longrightarrow> unmoved v w \<Longrightarrow> unmoved u w" by (auto simp: unmoved_def)

lemma calm_await [simp]: "unmoved w (await_cancelling p w)"
  by (simp add: unmoved_def await_cancelling_def)

lemma calm_pause [simp]: "unmoved w (pause p w)"
proof -
  have "unmoved w (w \<lparr> gw_clock := Suc (gw_clock w) \<rparr>)" by (simp add: unmoved_def)
  moreover have "unmoved v (cancel_live v)" for v by (cases "yr_state (gw_rec v)") (auto simp: unmoved_def cancel_live_def)
  ultimately show ?thesis
    using calm_trans calm_await by (auto simp: pause_def Let_def split: env_action.splits)
qed

lemma calm_log [simp]: "unmoved w (w \<lparr> gw_log := l \<rparr>)" by (simp add: unmoved_def)

lemma calm_upd_journal [simp]: "unmoved w (upd_journal f w)" by (simp add: unmoved_def)

lemma calm_best_effort [simp]: "unmoved w (best_effort p f w)"
  using calm_trans[OF calm_pause calm_upd_journal] by (simp add: best_effort_def Let_def)

lemma calm_journal [simp]:
  "unmoved w (journal_step p s k w)" "unmoved w (journal_current_step p w)" "unmoved w (journal_run_state p w)"
  by (simp_all add: journal_step_def journal_current_step_def journal_run_state_def)

lemma calm_emit [simp]: "unmoved w (emit p t x w)"
  unfolding emit_def Let_def by (rule calm_trans[OF calm_log calm_trans[OF calm_pause calm_pause]])

lemma calm_run_event [simp]: "unmoved w (run_event p t k w)" by (simp add: run_event_def)

lemma calm_final_event [simp]: "unmoved w (final_event p w)"
  by (simp add: final_event_def split: workflow_run_state.splits)

lemma unmovedD:
  assumes "unmoved w w'"
  shows "gw_store w' = gw_store w" "gw_calls w' = gw_calls w" "yr_steps (gw_rec w') = yr_steps (gw_rec w)"
    "run_id_of w' = run_id_of w" "step_of s w' = step_of s w" "gw_active w' = gw_active w"
    "yr_current (gw_rec w') = yr_current (gw_rec w)" "yr_finished_at (gw_rec w') = yr_finished_at (gw_rec w)"
    "cancelled w \<Longrightarrow> cancelled w'"
  using assms by (simp_all add: unmoved_def step_of_def)

lemmas calm_simps [simp] =
  unmovedD(1-8)[OF calm_await] unmovedD(1-8)[OF calm_pause] unmovedD(1-8)[OF calm_best_effort]
  unmovedD(1-8)[OF calm_journal(1)] unmovedD(1-8)[OF calm_journal(2)] unmovedD(1-8)[OF calm_journal(3)]
  unmovedD(1-8)[OF calm_emit] unmovedD(1-8)[OF calm_run_event] unmovedD(1-8)[OF calm_final_event]

section \<open>Relations that survive the running of a step\<close>

text \<open>The contract of a relation between the world before and after, kept by everything a running step does
  except halting the run; the second locale adds that.\<close>

locale engine_relation =
  fixes R :: "engine_world \<Rightarrow> engine_world \<Rightarrow> bool" and p :: engine_ports and s :: workflow_step
  assumes refl: "R w w" and trans: "R u v \<Longrightarrow> R v w \<Longrightarrow> R u w"
    and pausing: "R w (pause p w)" and awaiting: "R w (await_cancelling p w)"
    and logging: "R w (w \<lparr> gw_log := journal_event a b (run_id_of w) t ts x (gw_log w) \<rparr>)"
    and step_row: "R w (journal_step p (wp_id s) k w)"
    and current_row: "R w (journal_current_step p w)"
    and stepping: "R w (upd_step (wp_id s) f w)"
    and calling: "R w (w \<lparr> gw_calls := gw_calls w @ [(wp_id s, prompt)], gw_store := st \<rparr>)"
    and moving: "R w (upd_rec (\<lambda>r. r \<lparr> yr_current := Some (wp_id s) \<rparr>) w)"
begin

lemma emits: "R w (emit p t x w)"
  unfolding emit_def Let_def by (rule trans[OF logging trans[OF pausing pausing]])

lemma seq:
  "R w v \<Longrightarrow> R w (emit p t x v)" "R w v \<Longrightarrow> R w (journal_step p (wp_id s) k v)"
  "R w v \<Longrightarrow> R w (journal_current_step p v)" "R w v \<Longrightarrow> R w (await_cancelling p v)"
  "R w v \<Longrightarrow> R w (upd_step (wp_id s) f v)" "R w v \<Longrightarrow> R w (upd_rec (\<lambda>r. r \<lparr> yr_current := Some (wp_id s) \<rparr>) v)"
  using trans emits step_row current_row awaiting stepping moving by blast+

lemma calls: "R w v \<Longrightarrow> R w (snd (agent_call p (wp_id s) prompt v))"
  by (simp add: agent_call_def Let_def) (blast intro: trans calling pausing)

lemma keeps_output: "R w v \<Longrightarrow> R w (snd (keep_output (wp_id s) v))"
  by (simp add: keep_output_def Let_def seq)

lemma collects: "R w v \<Longrightarrow> R w (snd (collect_structured_output p s v))"
  unfolding collect_structured_output_def Let_def
  by (auto simp: case_prod_beta intro!: seq keeps_output calls split: agent_reply.splits prod.splits)

lemma bodies: "R w v \<Longrightarrow> R w (snd (attempt_body p s a prompt v))"
  unfolding attempt_body_def
  by (auto simp: case_prod_beta intro!: collects seq calls split: agent_reply.splits prod.splits)

lemma settles:
  "R w v \<Longrightarrow> R w (settle_cancelled p (wp_id s) f v)"
  "R w v \<Longrightarrow> R w (settle_skipped p s a t v)"
  "R w v \<Longrightarrow> R w (settle_done p digest s a outcome v)"
  "R w v \<Longrightarrow> R w (attempt_failed p s a kind t v)"
  "R w v \<Longrightarrow> R w (begin_attempt p s a v)"
  "R w v \<Longrightarrow> R w (start_step p s v)"
  by (simp_all add: settle_cancelled_def settle_skipped_def settle_done_def attempt_failed_def
      begin_attempt_def start_step_def Let_def seq split: option.splits)

end

locale halting_relation = engine_relation +
  assumes halting: "R w (upd_rec (\<lambda>r. r \<lparr> yr_state := R_FAILED \<rparr>) w)"
begin

lemma fails: "R w v \<Longrightarrow> R w (settle_failed p s k v)"
  by (auto simp: settle_failed_def Let_def intro!: seq trans[OF _ halting])

lemma attempts: "R w v \<Longrightarrow> R w (snd (run_attempts n p digest s a k v))"
proof (induction n arbitrary: a k v)
  case (Suc n)
  note start = settles(5)[OF Suc.prems, of a]
  show ?case
  proof (cases "substitute (wp_prompt s) (gw_rec (begin_attempt p s a v))")
    case (Inl e)
    then show ?thesis using start by (simp add: Suc.prems settles Let_def)
  next
    case (Inr prompt)
    obtain r w2 where body: "attempt_body p s a prompt (begin_attempt p s a v) = (r, w2)" by fastforce
    have w2: "R w w2" using bodies[OF start, of a prompt] body by simp
    show ?thesis
      using Inr body w2 Suc.prems
      by (auto simp: Let_def settles fails seq Suc.IH split: sum.splits agent_reply.splits)
  qed
qed (simp add: fails)

lemma runs: "R w (snd (engine_step p digest s w))"
  unfolding engine_step_def by (rule attempts[OF settles(6)[OF refl]])

end

section \<open>A step touches no other step\<close>

definition own :: "string \<Rightarrow> engine_world \<Rightarrow> engine_world \<Rightarrow> bool" where
  "own s w w' \<longleftrightarrow>
     (\<forall>t. t \<noteq> s \<longrightarrow> yr_steps (gw_rec w') t = yr_steps (gw_rec w) t)
     \<and> (yr_steps (gw_rec w') s \<noteq> None \<longleftrightarrow> yr_steps (gw_rec w) s \<noteq> None)
     \<and> (\<exists>cs. gw_calls w' = gw_calls w @ cs \<and> (\<forall>c \<in> set cs. fst c = s))
     \<and> run_id_of w' = run_id_of w \<and> (cancelled w \<longrightarrow> cancelled w') \<and> gw_active w' = gw_active w
     \<and> yr_finished_at (gw_rec w') = yr_finished_at (gw_rec w)"

lemma own_trans: "own s u v \<Longrightarrow> own s v w \<Longrightarrow> own s u w"
  by (auto simp: own_def)

lemma own_calm: "unmoved w w' \<Longrightarrow> own s w w'" by (auto simp: own_def unmoved_def)

interpretation own: halting_relation "own (wp_id s)" p s for p s
proof
  show "own (wp_id s) u v \<Longrightarrow> own (wp_id s) v w \<Longrightarrow> own (wp_id s) u w" for u v w by (rule own_trans)
qed (simp_all add: own_calm, simp_all add: own_def)

section \<open>The budget of a step\<close>

definition used :: "string \<Rightarrow> engine_world \<Rightarrow> nat" where
  "used s w = length (filter (\<lambda>c. fst c = s) (gw_calls w))"

definition spare :: "string \<Rightarrow> engine_world \<Rightarrow> nat" where
  "spare s w = (if ys_reprompted (step_of s w) then 0 else 1)"

abbreviation present :: "string \<Rightarrow> engine_world \<Rightarrow> bool" where
  "present s w \<equiv> yr_steps (gw_rec w) s \<noteq> None"

lemma budget_calm: "unmoved w w' \<Longrightarrow> used s w' = used s w \<and> spare s w' = spare s w"
  by (simp add: used_def spare_def unmoved_def step_of_def)

lemma budget_simps [simp]:
  "used s (upd_step t f w) = used s w" "used s (upd_rec g w) = used s w"
  "used s (emit p e x w) = used s w" "spare s (emit p e x w) = spare s w"
  "used s (journal_step p t k w) = used s w" "spare s (journal_step p t k w) = spare s w"
  "used s (journal_current_step p w) = used s w" "spare s (journal_current_step p w) = spare s w"
  "used s (await_cancelling p w) = used s w" "spare s (await_cancelling p w) = spare s w"
  by (simp_all add: used_def spare_def)

lemma spare_upd_step:
  "(\<And>st. ys_reprompted (f st) = ys_reprompted st) \<Longrightarrow> spare t (upd_step s f w) = spare t w"
  by (cases "yr_steps (gw_rec w) s") (auto simp: spare_def step_of_def)

lemma agent_call_budget:
  assumes "agent_call p s prompt w = (reply, w')"
  shows "used s w' = Suc (used s w) \<and> spare s w' = spare s w \<and> (present s w' \<longleftrightarrow> present s w)"
proof -
  have "w' = snd (agent_call p s prompt w)" using assms by simp
  then show ?thesis by (simp add: agent_call_def Let_def used_def spare_def step_of_def)
qed

lemma keep_output_budget:
  assumes "present s w"
  shows "used s (snd (keep_output s w)) = used s w \<and> spare s (snd (keep_output s w)) = spare s w"
  using assms by (simp add: keep_output_def Let_def spare_upd_step)

lemma collect_budget:
  assumes "present (wp_id s) w"
  shows "used (wp_id s) (snd (collect_structured_output p s w)) + spare (wp_id s) (snd (collect_structured_output p s w))
    \<le> used (wp_id s) w + spare (wp_id s) w"
proof (cases "wp_output_schema s = None
    \<or> (case stored_output (wp_id s) w of None \<Rightarrow> False | Some out \<Rightarrow> so_validated out) \<or> ys_reprompted (step_of (wp_id s) w)")
  case True
  then show ?thesis
    using keep_output_budget[OF assms] by (auto simp: collect_structured_output_def Let_def case_prod_beta)
next
  case False
  define w2 where "w2 = emit p ''step.reprompted'' ((identified s) \<lparr> ef_terminal_id := ys_terminal_id (step_of (wp_id s)
      (upd_step (wp_id s) (\<lambda>st. st \<lparr> ys_reprompted := True \<rparr>) w)), ef_reason := Some ''invalid_or_missing_output'' \<rparr>)
      (upd_step (wp_id s) (\<lambda>st. st \<lparr> ys_reprompted := True \<rparr>) w)"
  obtain reply w3 where call: "agent_call p (wp_id s) (reprompt_prompt s) w2 = (reply, w3)" by fastforce
  have w2: "used (wp_id s) w2 = used (wp_id s) w" "spare (wp_id s) w2 = 0" "present (wp_id s) w2"
    using assms by (simp_all add: w2_def) (simp add: spare_def assms)
  note w3 = agent_call_budget[OF call]
  have one: "spare (wp_id s) w = 1" using False by (simp add: spare_def)
  let ?w4 = "\<lambda>t. upd_step (wp_id s) (\<lambda>st. st \<lparr> ys_terminal_id := Some t \<rparr>) w3"
  have w4: "used (wp_id s) (snd (keep_output (wp_id s) (?w4 t))) = Suc (used (wp_id s) w)
      \<and> spare (wp_id s) (snd (keep_output (wp_id s) (?w4 t))) = 0" for t
    using keep_output_budget[where s = "wp_id s" and w = "?w4 t"] w2 w3 by (simp add: spare_upd_step)
  show ?thesis
    using False call w2 w3 one w4
    by (auto simp: collect_structured_output_def Let_def case_prod_beta w2_def[symmetric] split: agent_reply.splits)
qed

lemma body_budget:
  assumes "present (wp_id s) w"
  shows "used (wp_id s) (snd (attempt_body p s a prompt w)) + spare (wp_id s) (snd (attempt_body p s a prompt w))
    \<le> Suc (used (wp_id s) w + spare (wp_id s) w)"
proof -
  obtain reply w1 where call: "agent_call p (wp_id s) prompt w = (reply, w1)" by fastforce
  note b = agent_call_budget[OF call]
  define w2 where "w2 t = emit p ''terminal.created'' ((identified s) \<lparr> ef_attempt := Some a, ef_terminal_id := Some t \<rparr>)
      (upd_step (wp_id s) (\<lambda>st. st \<lparr> ys_terminal_id := Some t \<rparr>) w1)" for t
  have w2: "used (wp_id s) (w2 t) = Suc (used (wp_id s) w)" "spare (wp_id s) (w2 t) = spare (wp_id s) w" "present (wp_id s) (w2 t)" for t
    using b assms by (simp_all add: w2_def spare_upd_step)
  show ?thesis
    using call b w2 collect_budget[OF w2(3), where p = p]
    by (cases reply) (simp_all add: attempt_body_def w2_def[symmetric])
qed

lemma spare_upd_rec [simp]:
  "spare t (upd_rec (\<lambda>r. r \<lparr> yr_state := st \<rparr>) w) = spare t w" "spare t (upd_rec (\<lambda>r. r \<lparr> yr_current := c \<rparr>) w) = spare t w"
  by (simp_all add: spare_def step_of_def)

lemma keep_terminal_simps [simp]:
  "ys_reprompted (keep_terminal t st) = ys_reprompted st" "ys_state (keep_terminal t st) = ys_state st"
  "ys_error (keep_terminal t st) = ys_error st" "ys_output (keep_terminal t st) = ys_output st"
  "ys_attempts (keep_terminal t st) = ys_attempts st"
  by (simp_all add: keep_terminal_def)

lemma settles_budget:
  assumes "present (wp_id s) w"
  shows "(\<And>st. ys_reprompted (f st) = ys_reprompted st) \<Longrightarrow>
      used (wp_id s) (settle_cancelled p (wp_id s) f w) = used (wp_id s) w \<and> spare (wp_id s) (settle_cancelled p (wp_id s) f w) = spare (wp_id s) w"
    "used (wp_id s) (settle_skipped p s a t w) = used (wp_id s) w \<and> spare (wp_id s) (settle_skipped p s a t w) = spare (wp_id s) w"
    "used (wp_id s) (settle_done p digest s a outcome w) = used (wp_id s) w \<and> spare (wp_id s) (settle_done p digest s a outcome w) = spare (wp_id s) w"
    "used (wp_id s) (settle_failed p s k w) = used (wp_id s) w \<and> spare (wp_id s) (settle_failed p s k w) = spare (wp_id s) w"
    "used (wp_id s) (attempt_failed p s a kind t w) = used (wp_id s) w \<and> spare (wp_id s) (attempt_failed p s a kind t w) = spare (wp_id s) w"
    "used (wp_id s) (begin_attempt p s a w) = used (wp_id s) w \<and> spare (wp_id s) (begin_attempt p s a w) = spare (wp_id s) w"
    "used (wp_id s) (start_step p s w) = used (wp_id s) w \<and> spare (wp_id s) (start_step p s w) = spare (wp_id s) w"
  using assms
  by (simp_all add: settle_cancelled_def settle_skipped_def settle_done_def settle_failed_def attempt_failed_def
      begin_attempt_def start_step_def Let_def spare_upd_step split: option.splits)

lemma own_present: "own s w w' \<Longrightarrow> present s w \<Longrightarrow> present s w'"
  by (simp add: own_def)

lemma attempts_budget:
  assumes "present (wp_id s) w"
  shows "used (wp_id s) (snd (run_attempts n p digest s a k w)) + spare (wp_id s) (snd (run_attempts n p digest s a k w))
    \<le> n + used (wp_id s) w + spare (wp_id s) w"
  using assms
proof (induction n arbitrary: a k w)
  case 0
  then show ?case by (simp add: settles_budget)
next
  case (Suc n)
  let ?w1 = "begin_attempt p s a w"
  have w1: "present (wp_id s) ?w1" using own_present[OF own.settles(5)[OF own.refl]] Suc.prems by blast
  show ?case
  proof (cases "substitute (wp_prompt s) (gw_rec ?w1)")
    case (Inl e)
    then show ?thesis using Suc.prems by (simp add: Let_def settles_budget)
  next
    case (Inr prompt)
    obtain r w2 where body: "attempt_body p s a prompt ?w1 = (r, w2)" by fastforce
    have b: "used (wp_id s) w2 + spare (wp_id s) w2 \<le> Suc (used (wp_id s) w + spare (wp_id s) w)"
      using body_budget[OF w1, of p a prompt] body settles_budget(6)[OF Suc.prems, of p a] by simp
    have w2: "present (wp_id s) w2"
    proof -
      have "own (wp_id s) ?w1 (snd (attempt_body p s a prompt ?w1))" by (rule own.bodies[OF own.refl])
      from own_present[OF this w1] show ?thesis using body by simp
    qed
    let ?f = "\<lambda>message t st. keep_terminal t (st \<lparr> ys_error := Some message \<rparr>)"
    have again: "used (wp_id s) (attempt_failed p s a kind t (upd_step (wp_id s) (?f m t) w2)) = used (wp_id s) w2
        \<and> spare (wp_id s) (attempt_failed p s a kind t (upd_step (wp_id s) (?f m t) w2)) = spare (wp_id s) w2
        \<and> present (wp_id s) (attempt_failed p s a kind t (upd_step (wp_id s) (?f m t) w2))" for kind t m
    proof -
      have "own (wp_id s) w2 (attempt_failed p s a kind t (upd_step (wp_id s) (?f m t) w2))"
        by (rule own.settles(4)[OF own.stepping])
      from own_present[OF this w2] show ?thesis
        using w2 settles_budget(5)[where w = "upd_step (wp_id s) (?f m t) w2" and s = s and p = p and a = a and kind = kind and t = t]
        by (simp add: spare_upd_step)
    qed
    have more: "used (wp_id s) (snd (run_attempts n p digest s (a + 1) k v)) + spare (wp_id s) (snd (run_attempts n p digest s (a + 1) k v))
        \<le> Suc n + used (wp_id s) w + spare (wp_id s) w"
      if "used (wp_id s) v = used (wp_id s) w2 \<and> spare (wp_id s) v = spare (wp_id s) w2 \<and> present (wp_id s) v" for k v
      using Suc.IH[of v "a + 1" k] that b by simp
    show ?thesis
    proof (cases r)
      case (Inr outcome)
      then show ?thesis using \<open>substitute _ _ = _\<close> body b w2 Suc.prems by (simp add: Let_def settles_budget)
    next
      case (Inl reply)
      show ?thesis
      proof (cases reply)
        case (Reply_Fails kind m t)
        then show ?thesis
          using \<open>substitute _ _ = _\<close> Inl body b w2 Suc.prems again[of kind t m] more[OF again[of kind t m], of "Some kind"]
          by (simp add: Let_def settles_budget)
      qed (use \<open>substitute _ _ = _\<close> Inl body b w2 Suc.prems in \<open>simp_all add: Let_def settles_budget\<close>)
    qed
  qed
qed

lemma engine_step_budget:
  assumes "present (wp_id s) w"
  shows "used (wp_id s) (snd (engine_step p digest s w)) + spare (wp_id s) (snd (engine_step p digest s w))
    \<le> max_attempts s + used (wp_id s) w + spare (wp_id s) w"
proof -
  have "present (wp_id s) (start_step p s w)" using own_present[OF own.settles(6)[OF own.refl]] assms by blast
  then show ?thesis
    using attempts_budget[of "start_step p s w" s "max_attempts s" p digest 1 None] settles_budget(7)[OF assms, of p]
    by (simp add: engine_step_def)
qed

section \<open>A drive touches only the steps it runs\<close>

definition untouched :: "string \<Rightarrow> engine_world \<Rightarrow> engine_world \<Rightarrow> bool" where
  "untouched t w w' \<longleftrightarrow> yr_steps (gw_rec w') t = yr_steps (gw_rec w) t \<and> used t w' = used t w"

abbreviation finished :: "step_state \<Rightarrow> bool" where
  "finished st \<equiv> st \<in> {S_COMPLETED, S_UNVALIDATED}"

lemma untouched_refl [simp]: "untouched t w w" by (simp add: untouched_def)

lemma untouched_trans: "untouched t u v \<Longrightarrow> untouched t v w \<Longrightarrow> untouched t u w" by (simp add: untouched_def)

lemma untouched_own: "own s w w' \<Longrightarrow> t \<noteq> s \<Longrightarrow> untouched t w w'" by (auto simp: untouched_def own_def used_def)

lemma untouched_step: "untouched t w w' \<Longrightarrow> step_of t w' = step_of t w \<and> spare t w' = spare t w"
  by (simp add: untouched_def step_of_def spare_def)

lemma own_skip: "own (wp_id s) w (skip_step p s w)"
  unfolding skip_step_def Let_def by (rule own.seq(1)[OF own.seq(2)[OF own.stepping]])

text \<open>The ways the drive goes on from a step.\<close>

lemma drive_loop_cases:
  obtains (stop) "cancelled w" "drive_loop p digest (s # rest) w = (Inr (), stop_cancelled p (s # rest) w)"
    | (skip) "\<not> cancelled w" "finished (ys_state (step_of (wp_id s) w))"
        "drive_loop p digest (s # rest) w = drive_loop p digest rest w"
    | (error) e w1 where "\<not> cancelled w" "\<not> finished (ys_state (step_of (wp_id s) w))"
        "engine_step p digest s w = (Inl e, w1)" "drive_loop p digest (s # rest) w = (Inl e, w1)"
    | (cancel) w1 where "\<not> cancelled w" "\<not> finished (ys_state (step_of (wp_id s) w))"
        "engine_step p digest s w = (Inr (), w1)" "cancelled w1"
        "drive_loop p digest (s # rest) w = (Inr (), stop_cancelled p rest w1)"
    | (halt) w1 where "\<not> cancelled w" "\<not> finished (ys_state (step_of (wp_id s) w))"
        "engine_step p digest s w = (Inr (), w1)" "\<not> cancelled w1" "yr_state (gw_rec w1) = R_FAILED"
        "drive_loop p digest (s # rest) w = (Inr (), skip_remaining p rest w1)"
    | (proceed) w1 where "\<not> cancelled w" "\<not> finished (ys_state (step_of (wp_id s) w))"
        "engine_step p digest s w = (Inr (), w1)" "\<not> cancelled w1" "yr_state (gw_rec w1) \<noteq> R_FAILED"
        "drive_loop p digest (s # rest) w = drive_loop p digest rest w1"
proof -
  obtain r w1 where r: "engine_step p digest s w = (r, w1)" by fastforce
  show ?thesis
    by (cases "cancelled w"; cases "finished (ys_state (step_of (wp_id s) w))"; cases r; cases "cancelled w1";
        cases "yr_state (gw_rec w1) = R_FAILED")
      (use r that in \<open>simp_all\<close>)
qed

text \<open>A view of the world that other steps do not change, and that shows the record of one step. It is
  unchanged by a drive that does not run that step, because the order does not hold it or because it is
  finished.\<close>

locale bystander =
  fixes V :: "engine_world \<Rightarrow> 'v" and t :: string and p :: engine_ports and digest :: "string \<Rightarrow> string"
  assumes sees: "V w' = V w \<Longrightarrow> yr_steps (gw_rec w') t = yr_steps (gw_rec w) t"
    and by_run: "t \<noteq> wp_id s \<Longrightarrow> V (snd (engine_step p digest s w)) = V w"
    and by_skip: "t \<noteq> wp_id s \<Longrightarrow> V (skip_step p s w) = V w"
    and by_await: "V (await_cancelling p w) = V w"
    and by_state: "V (upd_rec (\<lambda>r. r \<lparr> yr_state := st \<rparr>) w) = V w"
begin

lemma sees_step: "V w' = V w \<Longrightarrow> step_of t w' = step_of t w"
  unfolding step_of_def by (drule sees) simp

lemma skips: "t \<notin> wp_id ` set rest \<or> ys_state (step_of t w) \<noteq> S_PENDING \<Longrightarrow> V (skip_remaining p rest w) = V w"
proof (induction rest arbitrary: w)
  case (Cons s rest)
  show ?case
  proof (cases "ys_state (step_of (wp_id s) w) = S_PENDING")
    case True
    then have "t \<noteq> wp_id s" using Cons.prems by auto
    then have v: "V (skip_step p s w) = V w" by (rule by_skip)
    have "t \<notin> wp_id ` set rest \<or> ys_state (step_of t (skip_step p s w)) \<noteq> S_PENDING"
      unfolding sees_step[OF v] using Cons.prems by auto
    then have "V (skip_remaining p rest (skip_step p s w)) = V (skip_step p s w)" by (rule Cons.IH)
    then show ?thesis using True v by simp
  next
    case False
    have "t \<notin> wp_id ` set rest \<or> ys_state (step_of t w) \<noteq> S_PENDING" using Cons.prems by auto
    then show ?thesis using Cons.IH[of w] False by simp
  qed
qed simp

lemma stops: "t \<notin> wp_id ` set rest \<or> ys_state (step_of t w) \<noteq> S_PENDING \<Longrightarrow> V (stop_cancelled p rest w) = V w"
proof -
  assume a: "t \<notin> wp_id ` set rest \<or> ys_state (step_of t w) \<noteq> S_PENDING"
  have v: "V (await_cancelling p w) = V w" by (rule by_await)
  have "t \<notin> wp_id ` set rest \<or> ys_state (step_of t (await_cancelling p w)) \<noteq> S_PENDING"
    unfolding sees_step[OF v] by (rule a)
  then have "V (skip_remaining p rest (await_cancelling p w)) = V (await_cancelling p w)" by (rule skips)
  then show ?thesis unfolding stop_cancelled_def Let_def by_state by (simp add: v)
qed

lemma loops:
  assumes "t \<notin> wp_id ` set order"
  shows "V (snd (drive_loop p digest order w)) = V w"
  using assms
proof (induction order arbitrary: w)
  case (Cons s rest)
  have other: "t \<noteq> wp_id s" "t \<notin> wp_id ` set rest" using Cons.prems by auto
  have step: "V w1 = V w" if "engine_step p digest s w = (r, w1)" for r w1
    using by_run[OF other(1), of w] that by simp
  show ?case
  proof (cases rule: drive_loop_cases[of w p digest s rest])
    case stop
    then show ?thesis using stops[of "s # rest" w] Cons.prems by simp
  next
    case (cancel w1)
    then show ?thesis using step[OF cancel(3)] stops[of rest w1] other(2) by simp
  next
    case (halt w1)
    then show ?thesis using step[OF halt(3)] skips[of rest w1] other(2) by simp
  next
    case (proceed w1)
    then show ?thesis using step[OF proceed(3)] Cons.IH[OF other(2)] by simp
  qed (use step Cons.IH[OF other(2)] in simp_all)
qed simp

lemma finished_loops:
  assumes "finished (ys_state (step_of t w))" and "distinct (map wp_id order)"
  shows "V (snd (drive_loop p digest order w)) = V w"
  using assms
proof (induction order arbitrary: w)
  case (Cons s rest)
  have np: "ys_state (step_of t w) \<noteq> S_PENDING" and dist: "distinct (map wp_id rest)" using Cons.prems by auto
  have step: "V w1 = V w \<and> finished (ys_state (step_of t w1)) \<and> ys_state (step_of t w1) \<noteq> S_PENDING"
    if "engine_step p digest s w = (r, w1)" "\<not> finished (ys_state (step_of (wp_id s) w))" for r w1
  proof -
    have "t \<noteq> wp_id s" using that(2) Cons.prems(1) by auto
    then have u: "V w1 = V w" using by_run[of s w] that(1) by simp
    then show ?thesis using sees_step[OF u] Cons.prems(1) by auto
  qed
  show ?case
  proof (cases rule: drive_loop_cases[of w p digest s rest])
    case stop
    then show ?thesis using stops[of "s # rest" w] np by simp
  next
    case skip
    then show ?thesis using Cons.IH[OF Cons.prems(1) dist] by simp
  next
    case (error e w1)
    then show ?thesis using step[OF error(3,2)] by simp
  next
    case (cancel w1)
    then show ?thesis using step[OF cancel(3,2)] stops[of rest w1] by simp
  next
    case (halt w1)
    then show ?thesis using step[OF halt(3,2)] skips[of rest w1] by simp
  next
    case (proceed w1)
    then show ?thesis using step[OF proceed(3,2)] Cons.IH[OF _ dist, of w1] by simp
  qed
qed simp

end

interpretation calls: bystander "\<lambda>w. (yr_steps (gw_rec w) t, used t w)" t p digest for t p digest
proof
  show "(yr_steps (gw_rec (snd (engine_step p digest s w))) t, used t (snd (engine_step p digest s w)))
      = (yr_steps (gw_rec w) t, used t w)" if "t \<noteq> wp_id s" for s w
    using untouched_own[OF own.runs that] by (simp add: untouched_def)
  show "(yr_steps (gw_rec (skip_step p s w)) t, used t (skip_step p s w)) = (yr_steps (gw_rec w) t, used t w)"
    if "t \<noteq> wp_id s" for s w
    using untouched_own[OF own_skip that] by (simp add: untouched_def)
qed (simp_all add: used_def)

lemma untouched_skip:
  "t \<notin> wp_id ` set rest \<or> ys_state (step_of t w) \<noteq> S_PENDING \<Longrightarrow> untouched t w (skip_remaining p rest w)"
  using calls.skips[where t = t and rest = rest and w = w and p = p] by (simp add: untouched_def)

lemma untouched_stop:
  "t \<notin> wp_id ` set rest \<or> ys_state (step_of t w) \<noteq> S_PENDING \<Longrightarrow> untouched t w (stop_cancelled p rest w)"
  using calls.stops[where t = t and rest = rest and w = w and p = p] by (simp add: untouched_def)

lemma untouched_loop:
  "t \<notin> wp_id ` set order \<Longrightarrow> untouched t w (snd (drive_loop p digest order w))"
  using calls.loops[where t = t and order = order and w = w and p = p and digest = digest] by (simp add: untouched_def)

lemma finished_untouched:
  "finished (ys_state (step_of t w)) \<Longrightarrow> distinct (map wp_id order) \<Longrightarrow> untouched t w (snd (drive_loop p digest order w))"
  using calls.finished_loops[where t = t and order = order and w = w and p = p and digest = digest] by (simp add: untouched_def)

lemma distinct_key: "distinct (map key (x # xs)) \<Longrightarrow> y \<in> set xs \<Longrightarrow> key y \<noteq> key x"
  by (metis distinct.simps(2) image_eqI list.simps(9) set_map)

lemma untouched_finalise: "untouched t w (finalise p w)"
  by (simp add: finalise_def Let_def untouched_def used_def split: workflow_run_state.splits)

lemma untouched_engine_error:
  "finished (ys_state (step_of t w)) \<Longrightarrow> untouched t w (settle_engine_error p w)"
  by (cases "yr_current (gw_rec w)"; cases "yr_steps (gw_rec w) t")
    (auto simp: settle_engine_error_def Let_def untouched_def used_def step_of_def)

lemma drive_result:
  "drive_loop p digest order w = (r, w1) \<Longrightarrow>
     snd (drive p digest order w) = (case r of Inl e \<Rightarrow> if e = WF_EngineError then settle_engine_error p w1 else w1 | Inr _ \<Rightarrow> finalise p w1)"
  by (cases r; cases "projl r") (simp_all add: drive_def)

lemma drive_keeps_finished:
  assumes "finished (ys_state (step_of t w))" and "distinct (map wp_id order)"
  shows "untouched t w (snd (drive p digest order w))"
proof -
  obtain r w1 where l: "drive_loop p digest order w = (r, w1)" by fastforce
  have loop: "untouched t w w1" using finished_untouched[OF assms, of p digest] l by simp
  then have "finished (ys_state (step_of t w1))" using untouched_step assms(1) by simp
  then have "untouched t w1 (settle_engine_error p w1)" by (rule untouched_engine_error)
  then show ?thesis
    unfolding drive_result[OF l] using untouched_trans[OF loop] untouched_finalise loop by (cases r) simp_all
qed

end
