(* ===== verification/Workflow_Engine_Outcome.thy ===== *)
theory Workflow_Engine_Outcome
  imports Workflow_Engine_Facts
begin

text \<open>
  How a declarative run ends: the states its steps rest in, the state of the run, and what a cancellation
  has to do with either.
\<close>

section \<open>Cancellations are heard\<close>

text \<open>A live drive: cancelled exactly when cancelling, and the cancelling write outstanding only then.\<close>

definition live :: "engine_world \<Rightarrow> bool" where
  "live w \<longleftrightarrow> gw_active w \<and> (if cancelled w then yr_state (gw_rec w) = R_CANCELLING
     else yr_state (gw_rec w) = R_RUNNING \<and> \<not> gw_cancelling_task w)"

definition hears :: "engine_ports \<Rightarrow> engine_world \<Rightarrow> engine_world \<Rightarrow> bool" where
  "hears p w w' \<longleftrightarrow> (live w \<longrightarrow>
     live w' \<and> gw_clock w \<le> gw_clock w' \<and> (cancelled w \<longrightarrow> cancelled w')
     \<and> (\<forall>m. gw_clock w \<le> m \<and> m < gw_clock w' \<and> po_env p m = Cancel \<longrightarrow> cancelled w'))"

lemma hears_refl: "hears p w w" by (auto simp: hears_def)

lemma hears_trans:
  assumes "hears p u v" and "hears p v w"
  shows "hears p u w"
  unfolding hears_def
proof
  assume u: "live u"
  have v: "live v" and uv: "gw_clock u \<le> gw_clock v" "cancelled u \<longrightarrow> cancelled v"
    and first: "\<forall>m. gw_clock u \<le> m \<and> m < gw_clock v \<and> po_env p m = Cancel \<longrightarrow> cancelled v"
    using assms(1) u by (simp_all add: hears_def)
  have w: "live w" and vw: "gw_clock v \<le> gw_clock w" "cancelled v \<longrightarrow> cancelled w"
    and second: "\<forall>m. gw_clock v \<le> m \<and> m < gw_clock w \<and> po_env p m = Cancel \<longrightarrow> cancelled w"
    using assms(2) v by (simp_all add: hears_def)
  have "cancelled w" if "gw_clock u \<le> m \<and> m < gw_clock w \<and> po_env p m = Cancel" for m
    using that first second vw(2) by (cases "m < gw_clock v") auto
  then show "live w \<and> gw_clock u \<le> gw_clock w \<and> (cancelled u \<longrightarrow> cancelled w)
      \<and> (\<forall>m. gw_clock u \<le> m \<and> m < gw_clock w \<and> po_env p m = Cancel \<longrightarrow> cancelled w)"
    using w uv vw by auto
qed

lemma hears_await: "hears p w (await_cancelling p w)"
  by (auto simp: hears_def live_def await_cancelling_def less_Suc_eq)

lemma clock_await: "gw_clock w \<le> gw_clock (await_cancelling p w)"
  by (simp add: await_cancelling_def)

lemma clock_pause: "gw_clock w < gw_clock (pause p w)"
  using clock_await[of "w \<lparr> gw_clock := Suc (gw_clock w) \<rparr>" p]
  by (auto simp: pause_def Let_def cancel_live_def split: env_action.splits)

lemma hears_pause: "hears p w (pause p w)"
proof -
  let ?w1 = "w \<lparr> gw_clock := Suc (gw_clock w) \<rparr>"
  have silent: "hears p w ?w1" if "po_env p (gw_clock w) \<noteq> Cancel"
    using that by (auto simp: hears_def live_def less_Suc_eq)
  show ?thesis
  proof (cases "po_env p (gw_clock w)")
    case Quiet
    then show ?thesis using silent by (simp add: pause_def)
  next
    case Cancel
    then show ?thesis by (auto simp: hears_def live_def pause_def cancel_live_def upd_rec_def)
  next
    case Cancelling_Write
    then show ?thesis using hears_trans[OF silent hears_await] by (simp add: pause_def)
  qed
qed

lemma hears_same:
  assumes "yr_state (gw_rec w') = yr_state (gw_rec w)" "cancelled w' = cancelled w" "gw_active w' = gw_active w"
    "gw_clock w' = gw_clock w" "gw_cancelling_task w' = gw_cancelling_task w"
  shows "hears p w w'"
  using assms by (simp add: hears_def live_def)

lemma hears_best_effort: "hears p w (best_effort p f w)"
proof -
  have "hears p (pause p w) (upd_journal g (pause p w))" for g by (rule hears_same) simp_all
  then show ?thesis using hears_trans[OF hears_pause] hears_pause by (simp add: best_effort_def Let_def)
qed

interpretation hears: engine_relation "hears p" p s for p s
proof
  show "hears p u v \<Longrightarrow> hears p v w \<Longrightarrow> hears p u w" for u v w by (rule hears_trans)
qed (simp_all add: hears_refl hears_pause hears_await hears_best_effort journal_step_def journal_current_step_def hears_same)

definition heard :: "engine_ports \<Rightarrow> nat \<Rightarrow> engine_world \<Rightarrow> bool" where
  "heard p start w \<longleftrightarrow> live w \<and> start \<le> gw_clock w
     \<and> (\<forall>m. start \<le> m \<and> m < gw_clock w \<and> po_env p m = Cancel \<longrightarrow> cancelled w)"

lemma heard_hears: "heard p start w \<Longrightarrow> hears p w w' \<Longrightarrow> heard p start w'"
  unfolding heard_def hears_def by (metis le_trans not_le)

text \<open>An agent reports a cancellation only after there was one.\<close>

definition reports_cancel :: "agent_reply \<Rightarrow> bool" where
  "reports_cancel reply =
     (case reply of Reply_Cancelled t \<Rightarrow> True | Reply_Fails kind m t \<Rightarrow> kind = ''cancelled'' | _ \<Rightarrow> False)"

definition honest :: "engine_ports \<Rightarrow> nat \<Rightarrow> bool" where
  "honest p start \<longleftrightarrow> (\<forall>n. start \<le> n \<and> reports_cancel (tu_reply (po_agent p n)) \<longrightarrow>
     (\<exists>m. start \<le> m \<and> m \<le> n \<and> po_env p m = Cancel))"

lemma call_cancelled:
  assumes "agent_call p sid prompt w = (reply, w1)" and "heard p start w" and "honest p start" and "reports_cancel reply"
  shows "cancelled w1"
proof -
  let ?v = "w \<lparr> gw_calls := gw_calls w @ [(sid, prompt)], gw_store := fold (\<lambda>(key, rec). put key rec)
      (tu_puts (po_agent p (gw_clock w))) (gw_store w) \<rparr>"
  have w1: "w1 = pause p ?v" and reply: "reply = tu_reply (po_agent p (gw_clock w))"
    using assms(1) by (simp_all add: agent_call_def Let_def)
  have "hears p w ?v" by (rule hears_same) simp_all
  then have "heard p start w1" using assms(2) heard_hears hears_pause w1 by blast
  moreover have "start \<le> gw_clock w" using assms(2) by (simp add: heard_def)
  then obtain m where "start \<le> m" "m \<le> gw_clock w" "po_env p m = Cancel"
    using assms(3,4) reply by (auto simp: honest_def)
  moreover have "gw_clock w < gw_clock w1" using clock_pause[of ?v p] w1 by simp
  ultimately show ?thesis by (auto simp: heard_def)
qed

lemma body_cancelled:
  assumes "attempt_body p s a prompt w = (Inl reply, w2)" and "heard p start w" and "honest p start" and "reports_cancel reply"
  shows "cancelled w2"
proof -
  obtain r1 w1 where call: "agent_call p (wp_id s) prompt w = (r1, w1)" by fastforce
  have h1: "heard p start w1"
    using heard_hears[OF assms(2) hears.calls[OF hears_refl, where s = s and prompt = prompt]] call by simp
  show ?thesis
  proof (cases r1)
    case (Reply_Ok t)
    define v where "v = emit p ''terminal.created'' ((identified s) \<lparr> ef_attempt := Some a, ef_terminal_id := Some t \<rparr>)
      (upd_step (wp_id s) (\<lambda>st. st \<lparr> ys_terminal_id := Some t \<rparr>) w1)"
    have hv: "heard p start v" unfolding v_def by (rule heard_hears[OF h1 hears.seq(1)[OF hears.stepping]])
    have c: "collect_structured_output p s v = (Inl reply, w2)"
      using assms(1) call Reply_Ok by (simp add: attempt_body_def v_def)
    let ?u = "upd_step (wp_id s) (\<lambda>st. st \<lparr> ys_reprompted := True \<rparr>) v"
    define e where "e = emit p ''step.reprompted'' ((identified s) \<lparr> ef_terminal_id := ys_terminal_id (step_of (wp_id s) ?u),
       ef_reason := Some ''invalid_or_missing_output'' \<rparr>) ?u"
    have he: "heard p start e" unfolding e_def by (rule heard_hears[OF hv hears.seq(1)[OF hears.stepping]])
    obtain r3 w3 where again: "agent_call p (wp_id s) (reprompt_prompt s) e = (r3, w3)" by fastforce
    then have "r3 = reply \<and> w3 = w2"
      using c by (cases r3) (simp_all add: collect_structured_output_def Let_def case_prod_beta e_def[symmetric] split: if_splits)
    then show ?thesis using call_cancelled[OF again he assms(3)] assms(4) by simp
  qed (use assms(1,3,4) call call_cancelled[OF call assms(2)] in \<open>simp_all add: attempt_body_def\<close>)
qed

section \<open>How a step ends\<close>

definition halted :: "workflow_step \<Rightarrow> engine_world \<Rightarrow> bool" where
  "halted s w \<longleftrightarrow> ys_state (step_of (wp_id s) w) = S_FAILED \<and> wp_on_failure s \<noteq> Some Continue"

definition gone_well :: "workflow_step \<Rightarrow> engine_world \<Rightarrow> bool" where
  "gone_well s w \<longleftrightarrow> finished (ys_state (step_of (wp_id s) w))
     \<or> ys_state (step_of (wp_id s) w) = S_FAILED \<and> wp_on_failure s = Some Continue"

definition stepped :: "engine_ports \<Rightarrow> nat \<Rightarrow> workflow_step \<Rightarrow> engine_world \<Rightarrow> bool" where
  "stepped p start s w \<longleftrightarrow>
     gone_well s w \<and> heard p start w
     \<or> ys_state (step_of (wp_id s) w) \<in> {S_CANCELLED, S_SKIPPED} \<and> heard p start w \<and> cancelled w
     \<or> halted s w \<and> yr_state (gw_rec w) = R_FAILED"

lemma step_of_calm [simp]:
  "step_of t (emit p e x w) = step_of t w" "step_of t (journal_step p r k w) = step_of t w"
  "step_of t (await_cancelling p w) = step_of t w" "step_of t (journal_current_step p w) = step_of t w"
  by (simp_all add: step_of_def)

lemma settle_states:
  assumes "present (wp_id s) w"
  shows "ys_state (step_of (wp_id s) (settle_cancelled p (wp_id s) f w)) = S_CANCELLED"
    "ys_state (step_of (wp_id s) (settle_skipped p s a t w)) = S_SKIPPED"
    "ys_state (step_of (wp_id s) (settle_done p digest s a outcome w)) = outcome"
    "ys_state (step_of (wp_id s) (settle_failed p s k w)) = S_FAILED"
    "wp_on_failure s \<noteq> Some Continue \<Longrightarrow> yr_state (gw_rec (settle_failed p s k w)) = R_FAILED"
  using assms
  by (auto simp: settle_cancelled_def settle_skipped_def settle_done_def settle_failed_def Let_def step_of_def
      split: option.splits)

lemma stepped_failed:
  assumes "present (wp_id s) w" and "heard p start w"
  shows "stepped p start s (settle_failed p s k w)"
proof (cases "wp_on_failure s = Some Continue")
  case True
  then have "hears p w (settle_failed p s k w)"
    by (simp add: settle_failed_def Let_def hears.seq hears.stepping)
  from heard_hears[OF assms(2) this] show ?thesis
    using True settle_states(4)[OF assms(1)] by (simp add: stepped_def gone_well_def)
next
  case False
  then show ?thesis using settle_states(4,5)[OF assms(1)] by (simp add: stepped_def halted_def)
qed

lemma stepped_cancelled:
  assumes "present (wp_id s) w" and "heard p start w" and "cancelled w"
  shows "stepped p start s (settle_cancelled p (wp_id s) f w)" "stepped p start s (settle_skipped p s a t w)"
proof -
  have h: "heard p start (settle_cancelled p (wp_id s) f w)" "heard p start (settle_skipped p s a t w)"
    using heard_hears[OF assms(2)] hears.settles(1,2)[OF hears_refl] by blast+
  have "own (wp_id s) w (settle_cancelled p (wp_id s) f w)" "own (wp_id s) w (settle_skipped p s a t w)"
    using own.settles(1,2)[OF own.refl] by blast+
  then have "cancelled (settle_cancelled p (wp_id s) f w)" "cancelled (settle_skipped p s a t w)"
    using assms(3) by (simp_all add: own_def)
  then show "stepped p start s (settle_cancelled p (wp_id s) f w)" "stepped p start s (settle_skipped p s a t w)"
    using h settle_states(1,2)[OF assms(1)] by (simp_all add: stepped_def)
qed

lemma collect_outcome:
  "collect_structured_output p s w = (Inr outcome, w') \<Longrightarrow> finished outcome"
  by (auto simp: collect_structured_output_def keep_output_def Let_def split: if_splits prod.splits agent_reply.splits)

lemma body_outcome: "attempt_body p s a prompt w = (Inr outcome, w') \<Longrightarrow> finished outcome"
  by (auto simp: attempt_body_def dest: collect_outcome split: prod.splits agent_reply.splits)

lemma attempts_stepped:
  assumes "run_attempts n p digest s a k w = (Inr (), w')" and "present (wp_id s) w" and "heard p start w" and "honest p start"
  shows "stepped p start s w'"
  using assms(1-3)
proof (induction n arbitrary: a k w)
  case 0
  then show ?case using stepped_failed[OF 0(2,3), of k] by simp
next
  case (Suc n)
  show ?case
  proof (cases "cancelled w")
    case True
    then show ?thesis using Suc.prems(1) stepped_cancelled(1)[OF Suc.prems(2,3) True] by auto
  next
    case False
    let ?w1 = "begin_attempt p s a w"
    have p1: "present (wp_id s) ?w1" using own_present[OF own.settles(5)[OF own.refl]] Suc.prems(2) by blast
    have h1: "heard p start ?w1" by (rule heard_hears[OF Suc.prems(3) hears.settles(5)[OF hears_refl]])
    obtain prompt where prompt: "substitute (wp_prompt s) (gw_rec ?w1) = Inr prompt"
      using Suc.prems(1) False by (cases "substitute (wp_prompt s) (gw_rec ?w1)") (auto simp: Let_def)
    obtain r w2 where body: "attempt_body p s a prompt ?w1 = (r, w2)" by fastforce
    have p2: "present (wp_id s) w2"
    proof -
      have "own (wp_id s) ?w1 (snd (attempt_body p s a prompt ?w1))" by (rule own.bodies[OF own.refl])
      from own_present[OF this p1] show ?thesis using body by simp
    qed
    have h2: "heard p start w2"
      using heard_hears[OF h1 hears.bodies[OF hears_refl, where s = s and a = a and prompt = prompt]] body by simp
    show ?thesis
    proof (cases r)
      case (Inr outcome)
      then have w': "w' = settle_done p digest s a outcome w2" using Suc.prems(1) False prompt body by (simp add: Let_def)
      have "heard p start w'" unfolding w' by (rule heard_hears[OF h2 hears.settles(3)[OF hears_refl]])
      then show ?thesis
        using body_outcome body Inr settle_states(3)[OF p2] by (simp add: w' stepped_def gone_well_def)
    next
      case (Inl reply)
      show ?thesis
      proof (cases reply)
        case (Reply_Cancelled t)
        then have "w' = settle_skipped p s a t w2" using Suc.prems(1) False prompt body Inl by (simp add: Let_def)
        moreover have "cancelled w2"
          by (rule body_cancelled[OF body[unfolded Inl] h1 assms(4)]) (simp add: Reply_Cancelled reports_cancel_def)
        ultimately show ?thesis using stepped_cancelled(2)[OF p2 h2] by simp
      next
        case (Reply_Fails kind m t)
        let ?f = "\<lambda>st. keep_terminal t (st \<lparr> ys_error := Some m \<rparr>)"
        show ?thesis
        proof (cases "kind = ''cancelled'' \<or> cancelled w2")
          case True
          then have "w' = settle_cancelled p (wp_id s) ?f w2"
            using Suc.prems(1) False prompt body Inl Reply_Fails by (simp add: Let_def)
          moreover have "cancelled w2"
            using True body_cancelled[OF body[unfolded Inl] h1 assms(4)] by (auto simp: Reply_Fails reports_cancel_def)
          ultimately show ?thesis using stepped_cancelled(1)[OF p2 h2] by simp
        next
          case go: False
          let ?w3 = "attempt_failed p s a kind t (upd_step (wp_id s) ?f w2)"
          have "own (wp_id s) w2 ?w3" by (rule own.settles(4)[OF own.stepping])
          from own_present[OF this p2] have p3: "present (wp_id s) ?w3" .
          have h3: "heard p start ?w3" by (rule heard_hears[OF h2 hears.settles(4)[OF hears.stepping]])
          have "(if kind \<in> NON_RETRYABLE_STEP_KINDS then (Inr (), settle_failed p s (Some kind) ?w3)
              else run_attempts n p digest s (a + 1) (Some kind) ?w3) = (Inr (), w')"
            using Suc.prems(1) False prompt body Inl Reply_Fails go by (simp add: Let_def)
          then show ?thesis
            using stepped_failed[OF p3 h3] Suc.IH[OF _ p3 h3, of "a + 1" "Some kind"] by (auto split: if_splits)
        qed
      qed (use Suc.prems(1) False prompt body Inl in \<open>simp_all add: Let_def\<close>)
    qed
  qed
qed

lemma engine_step_stepped:
  assumes "engine_step p digest s w = (Inr (), w')" and "present (wp_id s) w" and "heard p start w" and "honest p start"
  shows "stepped p start s w'"
proof -
  have "present (wp_id s) (start_step p s w)" using own_present[OF own.settles(6)[OF own.refl]] assms(2) by blast
  moreover have "heard p start (start_step p s w)" by (rule heard_hears[OF assms(3) hears.settles(6)[OF hears_refl]])
  ultimately show ?thesis using attempts_stepped[OF _ _ _ assms(4)] assms(1) by (simp add: engine_step_def)
qed

section \<open>How a drive ends\<close>

definition rested :: "step_state \<Rightarrow> bool" where
  "rested st \<longleftrightarrow> st \<in> {S_COMPLETED, S_UNVALIDATED, S_FAILED, S_CANCELLED, S_SKIPPED}"

lemma stepped_rested: "stepped p start s w \<Longrightarrow> rested (ys_state (step_of (wp_id s) w))"
  by (auto simp: stepped_def gone_well_def halted_def rested_def)

lemma skip_step_calm:
  "yr_state (gw_rec w) \<noteq> R_RUNNING \<Longrightarrow> yr_state (gw_rec (skip_step p s w)) = yr_state (gw_rec w)
     \<and> cancelled (skip_step p s w) = cancelled w"
proof -
  assume a: "yr_state (gw_rec w) \<noteq> R_RUNNING"
  have "unmoved (upd_step (wp_id s) f w) (emit p e x (journal_step p (wp_id s) None (upd_step (wp_id s) f w)))" for f e x
    by (rule calm_trans[OF calm_journal(1) calm_emit])
  then show ?thesis using a by (simp add: skip_step_def Let_def unmoved_def)
qed

lemma skip_remaining_run:
  "yr_state (gw_rec w) \<noteq> R_RUNNING \<Longrightarrow> yr_state (gw_rec (skip_remaining p rest w)) = yr_state (gw_rec w)
     \<and> cancelled (skip_remaining p rest w) = cancelled w"
  by (induction rest arbitrary: w) (simp_all add: skip_step_calm)

lemma skip_remaining_rests:
  assumes "distinct (map wp_id rest)"
    and "\<forall>s \<in> set rest. present (wp_id s) w \<and> (ys_state (step_of (wp_id s) w) = S_PENDING \<or> rested (ys_state (step_of (wp_id s) w)))"
  shows "\<forall>s \<in> set rest. rested (ys_state (step_of (wp_id s) (skip_remaining p rest w)))"
  using assms
proof (induction rest arbitrary: w)
  case (Cons s rest)
  let ?v = "if ys_state (step_of (wp_id s) w) = S_PENDING then skip_step p s w else w"
  have others: "present (wp_id u) ?v \<and> step_of (wp_id u) ?v = step_of (wp_id u) w" if "u \<in> set rest" for u
  proof -
    have "wp_id u \<noteq> wp_id s" using Cons.prems(1) that by (rule distinct_key)
    then show ?thesis using own_skip[of s w p] Cons.prems(2) that by (auto simp: own_def step_of_def)
  qed
  have rest: "\<forall>u \<in> set rest. rested (ys_state (step_of (wp_id u) (skip_remaining p rest ?v)))"
    by (rule Cons.IH) (use Cons.prems others in auto)
  have "rested (ys_state (step_of (wp_id s) ?v))"
    using Cons.prems(2) by (auto simp: skip_step_def Let_def rested_def)
  moreover have "untouched (wp_id s) ?v (skip_remaining p rest ?v)"
    using Cons.prems(1) by (intro untouched_skip) auto
  from untouched_step[OF this] have "step_of (wp_id s) (skip_remaining p rest ?v) = step_of (wp_id s) ?v" by blast
  ultimately show ?case using rest by (simp del: if_splits)
qed simp

definition loop_end :: "workflow_step list \<Rightarrow> engine_world \<Rightarrow> bool" where
  "loop_end order w \<longleftrightarrow>
     (\<forall>s \<in> set order. rested (ys_state (step_of (wp_id s) w)))
     \<and> (yr_state (gw_rec w) = R_CANCELLED \<and> cancelled w
        \<or> yr_state (gw_rec w) = R_FAILED \<and> \<not> cancelled w \<and> (\<exists>s \<in> set order. halted s w)
        \<or> live w \<and> (\<forall>s \<in> set order. gone_well s w))"

lemma stop_cancelled_end:
  assumes "yr_state (gw_rec w) \<noteq> R_RUNNING" and "cancelled w"
  shows "yr_state (gw_rec (stop_cancelled p rest w)) = R_CANCELLED \<and> cancelled (stop_cancelled p rest w)"
proof -
  have "unmoved w (await_cancelling p w)" by simp
  then have "yr_state (gw_rec (await_cancelling p w)) \<noteq> R_RUNNING \<and> cancelled (await_cancelling p w)"
    using assms by (simp add: unmoved_def)
  then show ?thesis using skip_remaining_run by (simp add: stop_cancelled_def)
qed

definition ready :: "workflow_step list \<Rightarrow> engine_world \<Rightarrow> bool" where
  "ready order w \<longleftrightarrow> distinct (map wp_id order) \<and> (\<forall>s \<in> set order. present (wp_id s) w
     \<and> (ys_state (step_of (wp_id s) w) = S_PENDING \<or> finished (ys_state (step_of (wp_id s) w))))"

lemma ready_rests: "ready order w \<Longrightarrow> \<forall>s \<in> set order. rested (ys_state (step_of (wp_id s) (skip_remaining p order w)))"
  by (rule skip_remaining_rests) (auto simp: ready_def rested_def)

lemma stop_cancelled_rests:
  assumes "ready order w"
  shows "\<forall>s \<in> set order. rested (ys_state (step_of (wp_id s) (stop_cancelled p order w)))"
proof -
  have "ready order (await_cancelling p w)" using assms by (simp add: ready_def)
  from ready_rests[OF this] show ?thesis by (simp add: stop_cancelled_def step_of_def)
qed

lemma ready_own:
  assumes "ready (s # rest) w" and "own (wp_id s) w w'"
  shows "ready rest w'"
  unfolding ready_def
proof (intro conjI ballI)
  show "distinct (map wp_id rest)" using assms(1) by (simp add: ready_def)
  fix u assume u: "u \<in> set rest"
  have "wp_id u \<noteq> wp_id s" using assms(1) u unfolding ready_def by (blast dest: distinct_key)
  then have "yr_steps (gw_rec w') (wp_id u) = yr_steps (gw_rec w) (wp_id u)" using assms(2) by (simp add: own_def)
  then show "present (wp_id u) w'" and "ys_state (step_of (wp_id u) w') = S_PENDING \<or> finished (ys_state (step_of (wp_id u) w'))"
    using assms(1) u by (simp_all add: ready_def step_of_def)
qed

lemma halted_untouched: "untouched (wp_id s) w w' \<Longrightarrow> halted s w' = halted s w \<and> gone_well s w' = gone_well s w"
  using untouched_step[of "wp_id s" w w'] by (simp add: halted_def gone_well_def)

lemma loop_settles:
  assumes "drive_loop p digest order w = (Inr (), w')" and "ready order w" and "heard p start w" and "honest p start"
  shows "loop_end order w'"
  using assms(1-3)
proof (induction order arbitrary: w)
  case Nil
  then show ?case by (auto simp: loop_end_def heard_def)
next
  case (Cons s rest)
  have pres: "present (wp_id s) w" and ready_rest: "ready rest w" using Cons.prems(2) by (auto simp: ready_def)
  have apart: "wp_id s \<notin> wp_id ` set rest" using Cons.prems(2) by (simp add: ready_def)
  have lv: "live w" using Cons.prems(3) by (simp add: heard_def)
  show ?case
  proof (cases rule: drive_loop_cases[of w p digest s rest])
    case stop
    have w': "w' = stop_cancelled p (s # rest) w" using Cons.prems(1) stop(2) by simp
    have "yr_state (gw_rec w) \<noteq> R_RUNNING" using lv stop(1) by (simp add: live_def)
    then show ?thesis
      unfolding w' loop_end_def using stop_cancelled_end stop(1) stop_cancelled_rests[OF Cons.prems(2)] by blast
  next
    case skip
    have d: "drive_loop p digest rest w = (Inr (), w')" using Cons.prems(1) skip(3) by simp
    have "untouched (wp_id s) w w'" using untouched_loop[OF apart, of w p digest] d by simp
    from halted_untouched[OF this] have "gone_well s w'" using skip(2) unfolding gone_well_def by blast
    then show ?thesis
      using Cons.IH[OF d ready_rest Cons.prems(3)] by (auto simp: loop_end_def rested_def gone_well_def)
  next
    case (error e w1)
    then show ?thesis using Cons.prems(1) by simp
  next
    case (cancel w1)
    have w': "w' = stop_cancelled p rest w1" using Cons.prems(1) cancel(5) by simp
    have st: "stepped p start s w1" by (rule engine_step_stepped[OF cancel(3) pres Cons.prems(3) assms(4)])
    have "own (wp_id s) w w1" using own.runs[of s w p digest] cancel(3) by simp
    then have ready1: "ready rest w1" by (rule ready_own[OF Cons.prems(2)])
    have "yr_state (gw_rec w1) \<noteq> R_RUNNING" using st cancel(4) by (auto simp: stepped_def heard_def live_def)
    then have "yr_state (gw_rec w') = R_CANCELLED \<and> cancelled w'" unfolding w' using cancel(4) by (rule stop_cancelled_end)
    moreover have "untouched (wp_id s) w1 w'" unfolding w' using apart by (intro untouched_stop) simp
    then have "rested (ys_state (step_of (wp_id s) w'))" using stepped_rested[OF st] untouched_step by metis
    ultimately show ?thesis using stop_cancelled_rests[OF ready1] by (simp add: loop_end_def w')
  next
    case (halt w1)
    have w': "w' = skip_remaining p rest w1" using Cons.prems(1) halt(6) by simp
    have st: "stepped p start s w1" by (rule engine_step_stepped[OF halt(3) pres Cons.prems(3) assms(4)])
    have "own (wp_id s) w w1" using own.runs[of s w p digest] halt(3) by simp
    then have ready1: "ready rest w1" by (rule ready_own[OF Cons.prems(2)])
    have un: "untouched (wp_id s) w1 w'" unfolding w' using apart by (intro untouched_skip) simp
    have "halted s w1" using st halt(4,5) by (auto simp: stepped_def heard_def live_def)
    then have "halted s w'" using halted_untouched[OF un] by simp
    moreover have "yr_state (gw_rec w') = R_FAILED \<and> \<not> cancelled w'"
      unfolding w' using skip_remaining_run halt(4,5) by simp
    ultimately show ?thesis
      using ready_rests[OF ready1, of p] by (auto simp: loop_end_def w' rested_def halted_def)
  next
    case (proceed w1)
    have d: "drive_loop p digest rest w1 = (Inr (), w')" using Cons.prems(1) proceed(6) by simp
    have st: "stepped p start s w1" by (rule engine_step_stepped[OF proceed(3) pres Cons.prems(3) assms(4)])
    then have good: "gone_well s w1" "heard p start w1" using proceed(4,5) by (auto simp: stepped_def)
    have "own (wp_id s) w w1" using own.runs[of s w p digest] proceed(3) by simp
    then have ready1: "ready rest w1" by (rule ready_own[OF Cons.prems(2)])
    have "untouched (wp_id s) w1 w'" using untouched_loop[OF apart, of w1 p digest] d by simp
    then have "gone_well s w'" using good(1) halted_untouched by simp
    then show ?thesis using Cons.IH[OF d ready1 good(2)] by (auto simp: loop_end_def rested_def gone_well_def)
  qed
qed

text \<open>A run has settled: every step rests, no step is current, and the state of the run says how it went.\<close>

definition settled_run :: "workflow_step list \<Rightarrow> engine_world \<Rightarrow> bool" where
  "settled_run order w \<longleftrightarrow>
     (\<forall>s \<in> set order. rested (ys_state (step_of (wp_id s) w)))
     \<and> yr_current (gw_rec w) = None \<and> yr_finished_at (gw_rec w) \<noteq> None
     \<and> (case yr_state (gw_rec w) of
          R_COMPLETED \<Rightarrow> \<not> cancelled w \<and> (\<forall>s \<in> set order. gone_well s w)
        | R_FAILED \<Rightarrow> \<not> cancelled w \<and> (\<exists>s \<in> set order. halted s w)
        | R_CANCELLED \<Rightarrow> cancelled w
        | _ \<Rightarrow> False)"

lemma finalise_run:
  "yr_state (gw_rec (finalise p w)) = final_state w" "cancelled (finalise p w) = cancelled w"
  "yr_current (gw_rec (finalise p w)) = None" "yr_finished_at (gw_rec (finalise p w)) \<noteq> None"
proof -
  let ?w1 = "if cancelled w then await_cancelling p w else w"
  let ?w2 = "upd_rec (\<lambda>r. r \<lparr> yr_state := final_state ?w1, yr_current := None, yr_finished_at := Some (po_now p (gw_clock ?w1)) \<rparr>) ?w1"
  have c1: "unmoved w (await_cancelling p w)" by simp
  have fs: "final_state ?w1 = final_state w" "cancelled ?w1 = cancelled w"
    using c1 by (auto simp: final_state_def unmoved_def)
  have "unmoved ?w2 (finalise p w)"
    unfolding finalise_def Let_def by (rule calm_trans[OF calm_journal(2) calm_trans[OF calm_final_event calm_journal(3)]])
  moreover have "yr_state (gw_rec ?w2) \<noteq> R_RUNNING" by (auto simp: final_state_def)
  ultimately show "yr_state (gw_rec (finalise p w)) = final_state w" "cancelled (finalise p w) = cancelled w"
    "yr_current (gw_rec (finalise p w)) = None" "yr_finished_at (gw_rec (finalise p w)) \<noteq> None"
    using fs by (simp_all add: unmoved_def)
qed

lemma drive_settles:
  assumes "drive p digest order w = (Inr (), w')" and "ready order w" and "heard p start w" and "honest p start"
  shows "settled_run order w'"
proof -
  obtain r w1 where l: "drive_loop p digest order w = (r, w1)" by fastforce
  then have r: "r = Inr ()" and w': "w' = finalise p w1"
    using assms(1) by (cases r; cases "projl r"; simp add: drive_def)+
  have end1: "loop_end order w1" using loop_settles[OF l[unfolded r] assms(2-4)] .
  have un: "untouched t w1 w'" for t unfolding w' by (rule untouched_finalise)
  have steps: "step_of t w' = step_of t w1" for t using untouched_step[OF un] by blast
  have "live w1 \<Longrightarrow> yr_state (gw_rec w1) \<in> {R_RUNNING, R_CANCELLING}" by (auto simp: live_def split: if_splits)
  then have "case final_state w1 of
      R_COMPLETED \<Rightarrow> \<not> cancelled w1 \<and> (\<forall>s \<in> set order. gone_well s w1)
    | R_FAILED \<Rightarrow> \<not> cancelled w1 \<and> (\<exists>s \<in> set order. halted s w1)
    | R_CANCELLED \<Rightarrow> cancelled w1 | _ \<Rightarrow> False"
    using end1 by (auto simp: loop_end_def final_state_def split: workflow_run_state.splits)
  then show ?thesis
    using end1 finalise_run[of p w1] steps halted_untouched[OF un]
    by (auto simp: settled_run_def loop_end_def w'[symmetric] split: workflow_run_state.splits)
qed

end
