(* ===== verification/Workflow_Engine_Journal.thy ===== *)
theory Workflow_Engine_Journal
  imports Workflow_Engine_Outcome
begin

text \<open>
  The journal rows of the steps: which writes of a running step reach them, and that a step that ends without an
  error has journalled the record it ends with.
\<close>

section \<open>The journal rows of a running step\<close>

abbreviation journal_of :: "engine_world \<Rightarrow> journal" where
  "journal_of w \<equiv> ew_journal (gw_log w)"

lemma get_step_simps [simp]:
  "get_step r t (update_run_state r' st fin j) = get_step r t j"
  "get_step r t (update_run_current_step r' c j) = get_step r t j"
  "get_step r t (ew_journal (journal_event a b r' e ts x l)) = get_step r t (ew_journal l)"
  by (simp_all add: get_step_def update_run_state_def update_run_current_step_def journal_event_def Let_def
      persist_high_water_def append_run_event_def)

lemma get_step_update_step:
  "get_step r t (update_step r' s st a ts out err kind j) =
     map_option (\<lambda>x. if r = r' \<and> t = s
       then x \<lparr> ws_state := st, ws_attempts := a, ws_output_json := out, ws_error := err, ws_error_kind := kind, ws_updated_at := ts \<rparr>
       else x) (get_step r t j)"
proof -
  let ?f = "\<lambda>x. x \<lparr> ws_state := st, ws_attempts := a, ws_output_json := out, ws_error := err, ws_error_kind := kind, ws_updated_at := ts \<rparr>"
  have "fetchone (at_step r t) (update_where (at_step r' s) ?f (j_steps j))
      = map_option (\<lambda>x. if at_step r' s x then ?f x else x) (fetchone (at_step r t) (j_steps j))"
    by (rule fetchone_update_where) (simp add: at_step_def)
  moreover have "at_step r t x" if "fetchone (at_step r t) (j_steps j) = Some x" for x
    using fetchone_SomeD[OF that] by simp
  ultimately show ?thesis
    by (cases "fetchone (at_step r t) (j_steps j)")
      (simp_all add: get_step_def update_step_def at_step_def del: fetchone_None_iff)
qed

lemma get_step_await [simp]: "get_step r t (journal_of (await_cancelling p w)) = get_step r t (journal_of w)"
  by (simp add: await_cancelling_def)

lemma get_step_pause [simp]: "get_step r t (journal_of (pause p w)) = get_step r t (journal_of w)"
  by (simp add: pause_def Let_def cancel_live_def split: env_action.splits)

lemma get_step_emit [simp]: "get_step r t (journal_of (emit p e x w)) = get_step r t (journal_of w)"
  by (simp add: emit_def Let_def)

lemma get_step_run_writes [simp]:
  "get_step r t (journal_of (journal_current_step p w)) = get_step r t (journal_of w)"
  "get_step r t (journal_of (journal_run_state p w)) = get_step r t (journal_of w)"
  "get_step r t (journal_of (run_event p e k w)) = get_step r t (journal_of w)"
  "get_step r t (journal_of (final_event p w)) = get_step r t (journal_of w)"
  by (simp_all add: journal_current_step_def journal_run_state_def best_effort_def Let_def run_event_def final_event_def
      split: workflow_run_state.splits)

lemma get_step_journal_step:
  "get_step r t (journal_of (journal_step p s k w)) =
     (if po_ok p (gw_clock w) \<and> r = run_id_of w \<and> t = s
      then map_option (\<lambda>x. x \<lparr> ws_state := step_state_value (ys_state (step_of s w)), ws_attempts := ys_attempts (step_of s w),
         ws_output_json := map_option (\<lambda>out. po_dump p (so_output out)) (ys_output (step_of s w)), ws_error := ys_error (step_of s w),
         ws_error_kind := k, ws_updated_at := po_now p (gw_clock w) \<rparr>) (get_step r t (journal_of w))
      else get_step r t (journal_of w))"
  by (auto simp: journal_step_def best_effort_def Let_def get_step_update_step step_of_def option.map_id0 option.map_ident)

text \<open>A step is mirrored when its row says what the record in memory says.\<close>

definition has_row :: "string \<Rightarrow> engine_world \<Rightarrow> bool" where
  "has_row t w \<longleftrightarrow> get_step (run_id_of w) t (journal_of w) \<noteq> None"

definition mirrored :: "engine_ports \<Rightarrow> string \<Rightarrow> engine_world \<Rightarrow> bool" where
  "mirrored p t w \<longleftrightarrow>
     (case get_step (run_id_of w) t (journal_of w) of
        None \<Rightarrow> False
      | Some row \<Rightarrow>
          ws_state row = step_state_value (ys_state (step_of t w)) \<and> ws_attempts row = ys_attempts (step_of t w)
          \<and> ws_error row = ys_error (step_of t w)
          \<and> ws_output_json row = map_option (\<lambda>out. po_dump p (so_output out)) (ys_output (step_of t w)))"

definition same_step :: "string \<Rightarrow> engine_world \<Rightarrow> engine_world \<Rightarrow> bool" where
  "same_step t w w' \<longleftrightarrow> run_id_of w' = run_id_of w \<and> yr_steps (gw_rec w') t = yr_steps (gw_rec w) t
     \<and> get_step (run_id_of w) t (journal_of w') = get_step (run_id_of w) t (journal_of w)"

lemma mirrored_same: "same_step t w w' \<Longrightarrow> mirrored p t w' = mirrored p t w"
proof -
  assume same: "same_step t w w'"
  then have "step_of t w' = step_of t w" "run_id_of w' = run_id_of w"
    "get_step (run_id_of w) t (journal_of w') = get_step (run_id_of w) t (journal_of w)"
    by (simp_all add: same_step_def step_of_def)
  then show ?thesis unfolding mirrored_def by (simp only:)
qed

interpretation others: halting_relation "\<lambda>w w'. \<forall>t. t \<noteq> wp_id s \<longrightarrow> same_step t w w'" p s for p s
  by unfold_locales (auto simp: same_step_def get_step_journal_step)

interpretation rowed: halting_relation "\<lambda>w w'. \<forall>t. has_row t w \<longrightarrow> has_row t w'" p s for p s
  by unfold_locales (auto simp: has_row_def get_step_journal_step)

interpretation tasked: halting_relation
  "\<lambda>w w'. (gw_cancelling_task w \<longrightarrow> cancelled w) \<longrightarrow> (gw_cancelling_task w' \<longrightarrow> cancelled w')" p s for p s
proof
  have aw: "(gw_cancelling_task w \<longrightarrow> cancelled w) \<longrightarrow> (gw_cancelling_task (await_cancelling p w) \<longrightarrow> cancelled (await_cancelling p w))" for w
    by (simp add: await_cancelling_def)
  have pa: "(gw_cancelling_task w \<longrightarrow> cancelled w) \<longrightarrow> (gw_cancelling_task (pause p w) \<longrightarrow> cancelled (pause p w))" for w
    using aw[of "w \<lparr> gw_clock := Suc (gw_clock w) \<rparr>"]
    by (auto simp: pause_def Let_def cancel_live_def upd_rec_def split: env_action.splits)
  show "(gw_cancelling_task w \<longrightarrow> cancelled w) \<longrightarrow> (gw_cancelling_task (await_cancelling p w) \<longrightarrow> cancelled (await_cancelling p w))" for w
    by (rule aw)
  show "(gw_cancelling_task w \<longrightarrow> cancelled w) \<longrightarrow> (gw_cancelling_task (pause p w) \<longrightarrow> cancelled (pause p w))" for w
    by (rule pa)
  show "(gw_cancelling_task w \<longrightarrow> cancelled w) \<longrightarrow> (gw_cancelling_task (journal_step p (wp_id s) k w) \<longrightarrow> cancelled (journal_step p (wp_id s) k w))" for w k
    using pa[of w] by (simp add: journal_step_def best_effort_def Let_def)
  show "(gw_cancelling_task w \<longrightarrow> cancelled w) \<longrightarrow> (gw_cancelling_task (journal_current_step p w) \<longrightarrow> cancelled (journal_current_step p w))" for w
    using pa[of w] by (simp add: journal_current_step_def best_effort_def Let_def)
qed auto

lemma journal_step_mirrors:
  assumes "has_row s w" and "\<forall>n. po_ok p n"
  shows "mirrored p s (journal_step p s k w)"
  using assms by (auto simp: mirrored_def has_row_def get_step_journal_step)

lemma mirrored_emit [simp]: "mirrored p t (emit q e x w) = mirrored p t w"
  by (rule mirrored_same) (simp add: same_step_def)

lemma mirrored_run_state [simp]: "mirrored p t (upd_rec (\<lambda>r. r \<lparr> yr_state := st \<rparr>) w) = mirrored p t w"
  by (rule mirrored_same) (simp add: same_step_def)

lemma has_row_simps [simp]:
  "has_row t (upd_step s f w) = has_row t w" "has_row t (await_cancelling p w) = has_row t w"
  by (simp_all add: has_row_def)

lemma settles_mirror:
  assumes "has_row (wp_id s) w" and "\<forall>n. po_ok p n"
  shows "mirrored p (wp_id s) (settle_cancelled p (wp_id s) f w)" "mirrored p (wp_id s) (settle_skipped p s a t w)"
    "mirrored p (wp_id s) (settle_done p digest s a outcome w)" "mirrored p (wp_id s) (settle_failed p s k w)"
    "mirrored p (wp_id s) (skip_step p s w)"
  using assms
  by (simp_all add: settle_cancelled_def settle_skipped_def settle_done_def settle_failed_def skip_step_def Let_def
      journal_step_mirrors split: option.splits)

lemma attempts_mirror:
  assumes "run_attempts n p digest s a k w = (Inr (), w')" and "has_row (wp_id s) w" and "\<forall>n. po_ok p n"
  shows "mirrored p (wp_id s) w'"
  using assms(1,2)
proof (induction n arbitrary: a k w)
  case 0
  then show ?case using settles_mirror(4)[OF 0(2) assms(3), of k] by auto
next
  case (Suc n)
  show ?case
  proof (cases "cancelled w")
    case True
    then show ?thesis using Suc.prems(1) settles_mirror(1)[OF Suc.prems(2) assms(3)] by auto
  next
    case False
    let ?w1 = "begin_attempt p s a w"
    have r1: "has_row (wp_id s) ?w1" using rowed.settles(5)[OF rowed.refl] Suc.prems(2) by blast
    obtain prompt where prompt: "substitute (wp_prompt s) (gw_rec ?w1) = Inr prompt"
      using Suc.prems(1) False by (cases "substitute (wp_prompt s) (gw_rec ?w1)") (auto simp: Let_def)
    obtain r w2 where body: "attempt_body p s a prompt ?w1 = (r, w2)" by fastforce
    have "\<forall>t. has_row t ?w1 \<longrightarrow> has_row t (snd (attempt_body p s a prompt ?w1))" by (rule rowed.bodies[OF rowed.refl])
    then have r2: "has_row (wp_id s) w2" using r1 body by simp
    note mirror = settles_mirror[OF r2 assms(3)]
    have r3: "has_row (wp_id s) (attempt_failed p s a kind t (upd_step (wp_id s) f w2))" for kind t f
      using rowed.settles(4)[OF rowed.stepping] r2 by blast
    show ?thesis
    proof (cases r)
      case (Inr outcome)
      then show ?thesis using Suc.prems(1) False prompt body mirror(3)[of digest a outcome] by (auto simp: Let_def)
    next
      case (Inl reply)
      show ?thesis
      proof (cases reply)
        case (Reply_Cancelled t)
        then show ?thesis using Suc.prems(1) False prompt body Inl mirror(2)[of a t] by (auto simp: Let_def)
      next
        case (Reply_Fails kind m t)
        let ?f = "\<lambda>st. keep_terminal t (st \<lparr> ys_error := Some m \<rparr>)"
        let ?w3 = "attempt_failed p s a kind t (upd_step (wp_id s) ?f w2)"
        show ?thesis
        proof (cases "kind = ''cancelled'' \<or> cancelled w2")
          case True
          then have "w' = settle_cancelled p (wp_id s) ?f w2"
            using Suc.prems(1) False prompt body Inl Reply_Fails by (simp add: Let_def)
          then show ?thesis using mirror(1) by simp
        next
          case go: False
          have "(if kind \<in> NON_RETRYABLE_STEP_KINDS then (Inr (), settle_failed p s (Some kind) ?w3)
              else run_attempts n p digest s (a + 1) (Some kind) ?w3) = (Inr (), w')"
            using Suc.prems(1) False prompt body Inl Reply_Fails go by (simp add: Let_def)
          then show ?thesis
            using settles_mirror(4)[OF r3 assms(3), where k = "Some kind"] Suc.IH[OF _ r3, of "a + 1" "Some kind"]
            by (auto split: if_splits)
        qed
      qed (use Suc.prems(1) False prompt body Inl in \<open>simp_all add: Let_def\<close>)
    qed
  qed
qed

lemma engine_step_mirrors:
  assumes "engine_step p digest s w = (Inr (), w')" and "has_row (wp_id s) w" and "\<forall>n. po_ok p n"
  shows "mirrored p (wp_id s) w'"
proof -
  have "has_row (wp_id s) (start_step p s w)" using rowed.settles(6)[OF rowed.refl] assms(2) by blast
  then show ?thesis using attempts_mirror assms(1,3) unfolding engine_step_def by blast
qed

end
