(* ===== verification/Workflow_Runs.thy ===== *)
theory Workflow_Runs
  imports Workflow_Engine_Journal
begin

text \<open>
  What a declarative run promises as a whole: once the grammar has accepted its spec, a started run settles,
  no step is tried beyond its budget, the journal mirrors the record in memory when its writes are carried
  out, and an engine error strands nothing in memory.
\<close>

section \<open>Relations that survive a drive\<close>

text \<open>The contract of a relation that every step of a run keeps, with the changes the drive itself makes.\<close>

locale run_relation =
  fixes R :: "engine_world \<Rightarrow> engine_world \<Rightarrow> bool" and p :: engine_ports
  assumes steps: "halting_relation R p s"
    and stating: "R w (upd_rec (\<lambda>r. r \<lparr> yr_state := st \<rparr>) w)"
begin

lemma refl: "R w w" and awaiting: "R w (await_cancelling p w)"
  and trans: "R u v \<Longrightarrow> R v w' \<Longrightarrow> R u w'"
  using steps by (simp_all add: halting_relation_def engine_relation_def)

lemma skips_one: "R w (skip_step p s w)"
  using steps[of s] unfolding skip_step_def Let_def halting_relation_def
  by (blast intro: engine_relation.seq(1) engine_relation.seq(2) engine_relation.stepping)

lemma skips: "R w (skip_remaining p rest w)"
proof (induction rest arbitrary: w)
  case (Cons s rest)
  show ?case using Cons[of w] trans[OF skips_one Cons[of "skip_step p s w"]] by simp
qed (simp add: refl)

lemma stops: "R w (stop_cancelled p rest w)"
  unfolding stop_cancelled_def by (rule trans[OF awaiting trans[OF skips stating]])

lemma runs: "engine_step p digest s w = (r, w1) \<Longrightarrow> R w w1"
  using halting_relation.runs[OF steps, of w digest s] by simp

lemma loops: "R w (snd (drive_loop p digest order w))"
proof (induction order arbitrary: w)
  case (Cons s rest)
  show ?case
  proof (cases rule: drive_loop_cases[of w p digest s rest])
    case stop
    then show ?thesis using stops by simp
  next
    case skip
    then show ?thesis using Cons by simp
  next
    case (error e w1)
    then show ?thesis using runs by simp
  next
    case (cancel w1)
    then show ?thesis using trans[OF runs[OF cancel(3)] stops] by simp
  next
    case (halt w1)
    then show ?thesis using trans[OF runs[OF halt(3)] skips] by simp
  next
    case (proceed w1)
    then show ?thesis using trans[OF runs[OF proceed(3)] Cons] by simp
  qed
qed (simp add: refl)

end

section \<open>The row of a run\<close>

definition has_run :: "engine_world \<Rightarrow> bool" where
  "has_run w \<longleftrightarrow> get_run_row (run_id_of w) (journal_of w) \<noteq> None"

lemma get_run_row_simps [simp]:
  "get_run_row r (update_step r' s st n ts out err kind j) = get_run_row r j"
  "get_run_row r (ew_journal (journal_event a b r' e ts x l)) = get_run_row r (ew_journal l)"
  "get_run_row r (insert_steps r' steps ts j) = get_run_row r j"
  by (simp_all add: get_run_row_def update_step_def insert_steps_def journal_event_def Let_def
      persist_high_water_def append_run_event_def)

lemma get_run_row_update:
  "get_run_row r (update_run_state r' st fin j) =
     map_option (\<lambda>x. if r = r' then x \<lparr> wr_state := st, wr_finished_at := fin \<rparr> else x) (get_run_row r j)"
  "get_run_row r (update_run_current_step r' c j) =
     map_option (\<lambda>x. if r = r' then x \<lparr> wr_current_step_id := c \<rparr> else x) (get_run_row r j)"
proof -
  have key: "wr_run_id x = r" if "fetchone (\<lambda>x. wr_run_id x = r) rs = Some x" for x rs
    using fetchone_SomeD[OF that] by simp
  have go: "fetchone (\<lambda>x. wr_run_id x = r) (update_where (\<lambda>x. wr_run_id x = r') f rs)
      = map_option (\<lambda>x. if r = r' then f x else x) (fetchone (\<lambda>x. wr_run_id x = r) rs)"
    if "\<And>x. wr_run_id (f x) = wr_run_id x" for f rs
    using fetchone_update_where[where P = "\<lambda>x. wr_run_id x = r" and f = f and rs = rs and Q = "\<lambda>x. wr_run_id x = r'"] that
    by (cases "fetchone (\<lambda>x. wr_run_id x = r) rs") (simp_all add: key del: fetchone_None_iff)
  show "get_run_row r (update_run_state r' st fin j) =
     map_option (\<lambda>x. if r = r' then x \<lparr> wr_state := st, wr_finished_at := fin \<rparr> else x) (get_run_row r j)"
    and "get_run_row r (update_run_current_step r' c j) =
     map_option (\<lambda>x. if r = r' then x \<lparr> wr_current_step_id := c \<rparr> else x) (get_run_row r j)"
    unfolding get_run_row_def update_run_state_def update_run_current_step_def by (simp_all add: go)
qed

lemma run_row_await [simp]: "get_run_row r (journal_of (await_cancelling p w)) = None \<longleftrightarrow> get_run_row r (journal_of w) = None"
  by (simp add: await_cancelling_def get_run_row_update)

lemma run_row_pause [simp]: "get_run_row r (journal_of (pause p w)) = None \<longleftrightarrow> get_run_row r (journal_of w) = None"
  by (simp add: pause_def Let_def cancel_live_def split: env_action.splits)

lemma run_row_writes [simp]:
  "get_run_row r (journal_of (journal_step p s k w)) = None \<longleftrightarrow> get_run_row r (journal_of w) = None"
  "get_run_row r (journal_of (journal_current_step p w)) = None \<longleftrightarrow> get_run_row r (journal_of w) = None"
  by (simp_all add: journal_step_def journal_current_step_def best_effort_def Let_def get_run_row_update)

interpretation filed: halting_relation "\<lambda>w w'. has_run w \<longrightarrow> has_run w'" p s for p s
  by unfold_locales (auto simp: has_run_def)

interpretation row_of_run: run_relation "\<lambda>w w'. has_run w \<longrightarrow> has_run w'" p for p
  by unfold_locales (auto simp: has_run_def)

interpretation rows_of_steps: run_relation "\<lambda>w w'. \<forall>t. has_row t w \<longrightarrow> has_row t w'" p for p
  by unfold_locales (auto simp: has_row_def)

interpretation task_of_run: run_relation
  "\<lambda>w w'. (gw_cancelling_task w \<longrightarrow> cancelled w) \<longrightarrow> (gw_cancelling_task w' \<longrightarrow> cancelled w')" p for p
  by unfold_locales auto

section \<open>The journal at the end of a run\<close>

text \<open>Every step of the order has its row, and the row says what memory says.\<close>

definition in_step :: "engine_ports \<Rightarrow> workflow_step list \<Rightarrow> engine_world \<Rightarrow> bool" where
  "in_step p order w \<longleftrightarrow> (\<forall>s \<in> set order. has_row (wp_id s) w \<and> mirrored p (wp_id s) w)"

lemma has_row_same: "same_step t w w' \<Longrightarrow> has_row t w' = has_row t w"
proof -
  assume same: "same_step t w w'"
  then have "run_id_of w' = run_id_of w" "get_step (run_id_of w) t (journal_of w') = get_step (run_id_of w) t (journal_of w)"
    by (simp_all add: same_step_def)
  then show ?thesis unfolding has_row_def by (simp only:)
qed

lemma in_step_same: "(\<And>t. same_step t w w') \<Longrightarrow> in_step p order w' = in_step p order w"
  using mirrored_same[of _ w w' p] has_row_same[of _ w w'] unfolding in_step_def by blast

lemma in_step_one:
  assumes "in_step p order w" and "\<forall>t. t \<noteq> wp_id s \<longrightarrow> same_step t w w'"
    and "mirrored p (wp_id s) w'"
  shows "in_step p order w'"
proof -
  have row: "has_row t w' " if "mirrored p t w'" for t
    using that by (auto simp: mirrored_def has_row_def split: option.splits)
  have "mirrored p (wp_id u) w'" if "u \<in> set order" for u
    using assms that mirrored_same[of "wp_id u" w w' p] by (cases "wp_id u = wp_id s") (simp_all add: in_step_def)
  then show ?thesis using row by (simp add: in_step_def)
qed

lemma in_step_skip_step:
  assumes "\<forall>n. po_ok p n" and "in_step p order w" and "s \<in> set order"
  shows "in_step p order (skip_step p s w)"
proof (rule in_step_one[OF assms(2)])
  have "has_row (wp_id s) w" using assms(2,3) by (simp add: in_step_def)
  then show "mirrored p (wp_id s) (skip_step p s w)" by (rule settles_mirror(5)[OF _ assms(1)])
  show "\<forall>t. t \<noteq> wp_id s \<longrightarrow> same_step t w (skip_step p s w)"
    unfolding skip_step_def Let_def by (rule others.seq(1)[OF others.seq(2)[OF others.stepping]])
qed

lemma in_step_skip:
  "\<forall>n. po_ok p n \<Longrightarrow> in_step p order w \<Longrightarrow> set rest \<subseteq> set order \<Longrightarrow> in_step p order (skip_remaining p rest w)"
  by (induction rest arbitrary: w) (simp_all add: in_step_skip_step)

lemma in_step_stop:
  assumes "\<forall>n. po_ok p n" and "in_step p order w" and "set rest \<subseteq> set order"
  shows "in_step p order (stop_cancelled p rest w)"
proof -
  have "in_step p order (await_cancelling p w)"
    using in_step_same[of w "await_cancelling p w"] assms(2) by (simp add: same_step_def)
  then have "in_step p order (skip_remaining p rest (await_cancelling p w))" by (rule in_step_skip[OF assms(1) _ assms(3)])
  then show ?thesis
    using in_step_same[of v "upd_rec (\<lambda>r. r \<lparr> yr_state := R_CANCELLED \<rparr>) v" for v] by (simp add: stop_cancelled_def same_step_def)
qed

lemma in_step_run:
  assumes "engine_step p digest s w = (Inr (), w1)" and "\<forall>n. po_ok p n" and "in_step p order w" and "s \<in> set order"
  shows "in_step p order w1"
proof (rule in_step_one[OF assms(3)])
  have "has_row (wp_id s) w" using assms(3,4) by (simp add: in_step_def)
  then show "mirrored p (wp_id s) w1" by (rule engine_step_mirrors[OF assms(1) _ assms(2)])
  show "\<forall>t. t \<noteq> wp_id s \<longrightarrow> same_step t w w1" using others.runs[of s w p digest] assms(1) by simp
qed

lemma in_step_loop:
  assumes "drive_loop p digest rest w = (Inr (), w')" and "\<forall>n. po_ok p n" and "in_step p order w"
    and "set rest \<subseteq> set order"
  shows "in_step p order w'"
  using assms(1,3,4)
proof (induction rest arbitrary: w)
  case (Cons s rest)
  have s: "s \<in> set order" and sub: "set rest \<subseteq> set order" using Cons.prems(3) by auto
  note run = in_step_run[OF _ assms(2) Cons.prems(2) s]
  show ?case
  proof (cases rule: drive_loop_cases[of w p digest s rest])
    case stop
    then show ?thesis using in_step_stop[OF assms(2) Cons.prems(2,3)] Cons.prems(1) by simp
  next
    case skip
    then show ?thesis using Cons.IH[OF _ Cons.prems(2) sub] Cons.prems(1) by simp
  next
    case (error e w1)
    then show ?thesis using Cons.prems(1) by simp
  next
    case (cancel w1)
    then show ?thesis using in_step_stop[OF assms(2) run[OF cancel(3)] sub] Cons.prems(1) by simp
  next
    case (halt w1)
    then show ?thesis using in_step_skip[OF assms(2) run[OF halt(3)] sub] Cons.prems(1) by simp
  next
    case (proceed w1)
    then show ?thesis using Cons.IH[OF _ run[OF proceed(3)] sub] Cons.prems(1) by simp
  qed
qed simp

text \<open>Once the run is over and no write of the cancelling state is outstanding, awaits change nothing but
  the clock.\<close>

definition hushed :: "engine_world \<Rightarrow> bool" where
  "hushed w \<longleftrightarrow> \<not> gw_cancelling_task w \<and> yr_state (gw_rec w) \<in> {R_COMPLETED, R_FAILED, R_CANCELLED}"

lemma quiet_pause: "hushed w \<Longrightarrow> pause p w = w \<lparr> gw_clock := Suc (gw_clock w) \<rparr>"
  by (auto simp: hushed_def pause_def Let_def cancel_live_def await_cancelling_def split: env_action.splits)

lemma quiet_simps [simp]:
  "hushed (w \<lparr> gw_clock := n \<rparr>) = hushed w" "hushed (w \<lparr> gw_log := l \<rparr>) = hushed w" "hushed (upd_journal f w) = hushed w"
  by (simp_all add: hushed_def upd_journal_def)

lemma quiet_best_effort: "hushed w \<Longrightarrow> hushed (best_effort p f w) \<and> gw_rec (best_effort p f w) = gw_rec w"
  by (simp add: best_effort_def Let_def quiet_pause)

lemma quiet_emit: "hushed w \<Longrightarrow> hushed (emit p e x w) \<and> gw_rec (emit p e x w) = gw_rec w"
  by (simp add: emit_def Let_def quiet_pause)

lemma quiet_final_event: "hushed w \<Longrightarrow> hushed (final_event p w) \<and> gw_rec (final_event p w) = gw_rec w"
  by (simp add: final_event_def run_event_def quiet_emit split: workflow_run_state.splits)

lemma run_row_final_event:
  "hushed w \<Longrightarrow> get_run_row r (journal_of (final_event p w)) = get_run_row r (journal_of w)"
  by (auto simp: final_event_def run_event_def emit_def Let_def quiet_pause hushed_def split: workflow_run_state.splits)

text \<open>The row of a run agrees with memory.\<close>

definition run_mirrored :: "engine_world \<Rightarrow> bool" where
  "run_mirrored w \<longleftrightarrow>
     (case get_run_row (run_id_of w) (journal_of w) of
        None \<Rightarrow> False
      | Some row \<Rightarrow> wr_state row = run_state_value (yr_state (gw_rec w)) \<and> wr_finished_at row = yr_finished_at (gw_rec w)
          \<and> wr_current_step_id row = yr_current (gw_rec w))"

lemma finalise_mirrors:
  assumes "\<forall>n. po_ok p n" and "has_run w" and "gw_cancelling_task w \<longrightarrow> cancelled w"
  shows "run_mirrored (finalise p w) \<and> hushed (finalise p w)"
proof -
  let ?w1 = "if cancelled w then await_cancelling p w else w"
  define w2 where "w2 = upd_rec (\<lambda>r. r \<lparr> yr_state := final_state ?w1, yr_current := None,
      yr_finished_at := Some (po_now p (gw_clock ?w1)) \<rparr>) ?w1"
  define w3 where "w3 = journal_current_step p w2"
  have q2: "hushed w2" using assms(3) by (auto simp: w2_def hushed_def final_state_def await_cancelling_def)
  then have q3: "hushed w3" "gw_rec w3 = gw_rec w2"
    using quiet_best_effort unfolding w3_def journal_current_step_def by blast+
  have q4: "hushed (final_event p w3)" "gw_rec (final_event p w3) = gw_rec w2"
    using quiet_final_event[OF q3(1)] q3(2) by simp_all
  have "get_run_row r (journal_of ?w1) = None \<longleftrightarrow> get_run_row r (journal_of w) = None" for r by simp
  then have row2: "get_run_row (run_id_of w2) (journal_of w2) \<noteq> None"
    using assms(2) by (cases "cancelled w") (simp_all only: has_run_def w2_def if_True if_False upd_rec_simps, simp_all)
  have row3: "\<exists>row. get_run_row (run_id_of w2) (journal_of w3) = Some row \<and> wr_current_step_id row = None"
    using row2 assms(1) q2
    by (auto simp: w3_def journal_current_step_def best_effort_def Let_def get_run_row_update quiet_pause)
      (simp add: w2_def)
  have f: "finalise p w = journal_run_state p (final_event p w3)"
    by (simp add: finalise_def Let_def w2_def w3_def)
  have "hushed (finalise p w) \<and> gw_rec (finalise p w) = gw_rec w2"
    using quiet_best_effort[OF q4(1)] q4(2) unfolding f journal_run_state_def by simp
  moreover have "run_mirrored (finalise p w)"
    using row3 assms(1) q4 run_row_final_event[OF q3(1)] calculation
    unfolding run_mirrored_def f
    by (auto simp: journal_run_state_def best_effort_def Let_def quiet_pause get_run_row_update w2_def)
  ultimately show ?thesis by simp
qed

section \<open>The calls of a drive\<close>

text \<open>The calls of a step: all of them the step's own, within its budget, and none if it was finished.\<close>

definition calls_of :: "engine_world \<Rightarrow> workflow_step \<Rightarrow> (string \<times> string) list \<Rightarrow> bool" where
  "calls_of w s cs \<longleftrightarrow> (\<forall>c \<in> set cs. fst c = wp_id s) \<and> length cs \<le> Suc (max_attempts s)
     \<and> (finished (ys_state (step_of (wp_id s) w)) \<longrightarrow> cs = [])"

definition calls_between :: "workflow_step list \<Rightarrow> engine_world \<Rightarrow> engine_world \<Rightarrow> bool" where
  "calls_between order w w' \<longleftrightarrow> (\<exists>css. list_all2 (calls_of w) order css \<and> gw_calls w' = gw_calls w @ concat css)"

lemma no_calls: "gw_calls w' = gw_calls w \<Longrightarrow> calls_between order w w'"
  unfolding calls_between_def
  by (intro exI[of _ "map (\<lambda>_. []) order"]) (simp add: calls_of_def list_all2_conv_all_nth)

lemma skip_calls [simp]:
  "gw_calls (skip_remaining p rest w) = gw_calls w" "gw_calls (stop_cancelled p rest w) = gw_calls w"
proof -
  have "gw_calls (skip_step p s w) = gw_calls w" for s w by (simp add: skip_step_def Let_def)
  then show "gw_calls (skip_remaining p rest w) = gw_calls w" for w by (induction rest arbitrary: w) simp_all
  then show "gw_calls (stop_cancelled p rest w) = gw_calls w" by (simp add: stop_cancelled_def)
qed

lemma run_calls:
  assumes "engine_step p digest s w = (r, w1)" and "present (wp_id s) w" and "\<not> finished (ys_state (step_of (wp_id s) w))"
  shows "\<exists>cs. gw_calls w1 = gw_calls w @ cs \<and> calls_of w s cs"
proof -
  have "own (wp_id s) w w1" using own.runs[of s w p digest] assms(1) by simp
  then obtain cs where cs: "gw_calls w1 = gw_calls w @ cs" "\<forall>c \<in> set cs. fst c = wp_id s" by (auto simp: own_def)
  then have "used (wp_id s) w1 = used (wp_id s) w + length cs" by (simp add: used_def)
  moreover have "used (wp_id s) w1 \<le> max_attempts s + used (wp_id s) w + spare (wp_id s) w"
    using engine_step_budget[OF assms(2), of p digest] assms(1) by simp
  ultimately have "length cs \<le> Suc (max_attempts s)" by (simp add: spare_def split: if_splits)
  then show ?thesis using cs assms(3) by (auto simp: calls_of_def)
qed

lemma calls_step:
  assumes "gw_calls w1 = gw_calls w @ cs" and "calls_of w s cs" and "calls_between rest w1 w'"
    and "\<forall>u \<in> set rest. step_of (wp_id u) w1 = step_of (wp_id u) w"
  shows "calls_between (s # rest) w w'"
proof -
  obtain css where css: "list_all2 (calls_of w1) rest css" "gw_calls w' = gw_calls w1 @ concat css"
    using assms(3) by (auto simp: calls_between_def)
  have "list_all2 (calls_of w) rest css"
    by (rule list.rel_mono_strong[OF css(1)]) (use assms(4) in \<open>simp add: calls_of_def\<close>)
  then show ?thesis
    unfolding calls_between_def using assms(1,2) css(2) by (intro exI[of _ "cs # css"]) simp
qed

lemma loop_calls:
  assumes "distinct (map wp_id order)" and "\<forall>s \<in> set order. present (wp_id s) w"
  shows "calls_between order w (snd (drive_loop p digest order w))"
  using assms
proof (induction order arbitrary: w)
  case Nil
  then show ?case by (simp add: no_calls)
next
  case (Cons s rest)
  have pres: "present (wp_id s) w" and dist: "distinct (map wp_id rest)" using Cons.prems by auto
  have keep: "step_of (wp_id u) w1 = step_of (wp_id u) w \<and> present (wp_id u) w1"
    if "own (wp_id s) w w1" "u \<in> set rest" for w1 u
    using distinct_key[OF Cons.prems(1) that(2)] that Cons.prems(2) by (auto simp: own_def step_of_def)
  have after: "calls_between (s # rest) w w'"
    if "engine_step p digest s w = (r, w1)" "\<not> finished (ys_state (step_of (wp_id s) w))" "calls_between rest w1 w'" for r w1 w'
  proof -
    have mine: "own (wp_id s) w w1" using own.runs[of s w p digest] that(1) by simp
    note ran = run_calls[OF that(1) pres that(2)]
    obtain cs where cs: "gw_calls w1 = gw_calls w @ cs" "calls_of w s cs" using ran by blast
    show ?thesis by (rule calls_step[OF cs that(3)]) (use keep[OF mine] in blast)
  qed
  show ?case
  proof (cases rule: drive_loop_cases[of w p digest s rest])
    case stop
    then show ?thesis by (simp add: no_calls)
  next
    case skip
    have "calls_of w s []" by (simp add: calls_of_def)
    from calls_step[OF _ this, of w] show ?thesis using skip Cons.IH[OF dist] Cons.prems(2) by simp
  next
    case (error e w1)
    then show ?thesis using after[OF error(3,2), of w1] by (simp add: no_calls)
  next
    case (cancel w1)
    then show ?thesis using after[OF cancel(3,2)] by (simp add: no_calls)
  next
    case (halt w1)
    then show ?thesis using after[OF halt(3,2)] by (simp add: no_calls)
  next
    case (proceed w1)
    have "own (wp_id s) w w1" using own.runs[of s w p digest] proceed(3) by simp
    then have "calls_between rest w1 (snd (drive_loop p digest rest w1))" using Cons.IH[OF dist] keep by blast
    then show ?thesis using after[OF proceed(3,2)] proceed(6) by simp
  qed
qed

lemma settle_calls [simp]:
  "gw_calls (finalise p w) = gw_calls w" "gw_calls (settle_engine_error p w) = gw_calls w" "gw_calls (end_drive p w) = gw_calls w"
  by (simp_all add: finalise_def settle_engine_error_def end_drive_def Let_def split: option.splits)

lemma drive_calls:
  assumes "distinct (map wp_id order)" and "\<forall>s \<in> set order. present (wp_id s) w"
  shows "calls_between order w (snd (drive p digest order w))"
proof -
  obtain r w1 where l: "drive_loop p digest order w = (r, w1)" by fastforce
  have "calls_between order w w1" using loop_calls[OF assms, of p digest] l by simp
  then show ?thesis unfolding drive_result[OF l] by (cases r) (simp_all add: calls_between_def)
qed

text \<open>The drive with its guard, in declaration order.\<close>

lemma guarded_in_order:
  assumes "distinct (map wp_id (sp_steps spec))"
  shows "guarded_drive p digest spec w
    = (fst (drive p digest (sp_steps spec) w), end_drive p (snd (drive p digest (sp_steps spec) w)))"
  by (simp add: guarded_drive_def declaration_order[OF assms] case_prod_beta)

lemma guarded_calls:
  assumes "distinct (map wp_id (sp_steps spec))" and "\<forall>s \<in> set (sp_steps spec). present (wp_id s) w"
  shows "calls_between (sp_steps spec) w (snd (guarded_drive p digest spec w))"
  using drive_calls[OF assms, of p digest] by (simp add: guarded_in_order[OF assms(1)] calls_between_def)

lemma finalise_same: "same_step t w (finalise p w)"
  by (simp add: finalise_def Let_def same_step_def)

section \<open>Starting a run\<close>

text \<open>The world in which a started run begins, and the world its drive begins in.\<close>

definition opened :: "engine_ports \<Rightarrow> workflow_spec \<Rightarrow> (string \<times> json) list \<Rightarrow> string \<Rightarrow> engine_world \<Rightarrow> engine_world" where
  "opened p spec resolved run_id w =
     w \<lparr> gw_rec := new_record spec resolved run_id (po_now p (gw_clock w)), gw_log := (gw_log w) \<lparr> ew_seq := 0 \<rparr>,
         gw_cancelling_task := False, gw_active := True \<rparr>"

definition announced :: "engine_ports \<Rightarrow> (workflow_spec \<Rightarrow> string) \<Rightarrow> engine_world \<Rightarrow> engine_world" where
  "announced p dump_spec w = run_event p ''run.started'' None (journal_insert_run p dump_spec w)"

lemma start_run_cases:
  obtains (refused) e where "start_run p digest dump_spec resolve_path known journal_read spec inputs run_id w = (Inl e, w)"
  | (driven) resolved where
      "start_run p digest dump_spec resolve_path known journal_read spec inputs run_id w
         = guarded_drive p digest spec (announced p dump_spec (opened p spec resolved run_id w))"
      "run_id_available known journal_read run_id (journal_of w)"
proof (cases "valid_key_part run_id \<and> run_id_available known journal_read run_id (journal_of w) \<and> sp_mode spec = Sequential")
  case True
  then show ?thesis
    using that by (cases "validate_inputs resolve_path (sp_inputs spec) inputs")
      (simp_all add: start_run_def opened_def announced_def Let_def)
next
  case False
  then have "\<exists>e. start_run p digest dump_spec resolve_path known journal_read spec inputs run_id w = (Inl e, w)"
    by (auto simp: start_run_def split: sum.splits)
  then show ?thesis using that(1) by blast
qed

lemma opened_record:
  "live (opened p spec resolved run_id w)" "gw_calls (opened p spec resolved run_id w) = gw_calls w"
  "gw_clock (opened p spec resolved run_id w) = gw_clock w" "journal_of (opened p spec resolved run_id w) = journal_of w"
  "run_id_of (opened p spec resolved run_id w) = run_id" "yr_spec (gw_rec (opened p spec resolved run_id w)) = spec"
  "s \<in> set (sp_steps spec) \<Longrightarrow> yr_steps (gw_rec (opened p spec resolved run_id w)) (wp_id s) = Some pending_step"
  by (simp_all add: opened_def new_record_def live_def)

lemma announced_calm: "unmoved w (announced p dump_spec w)"
  unfolding announced_def journal_insert_run_def by (rule calm_trans[OF calm_best_effort calm_run_event])

lemma announced_steps [simp]:
  "yr_steps (gw_rec (announced p dump_spec w)) = yr_steps (gw_rec w)" "run_id_of (announced p dump_spec w) = run_id_of w"
  "gw_calls (announced p dump_spec w) = gw_calls w" "step_of t (announced p dump_spec w) = step_of t w"
  using unmovedD[OF announced_calm] by auto

lemma announced_heard:
  assumes "live w"
  shows "heard p (gw_clock w) (announced p dump_spec w)"
proof -
  have "heard p (gw_clock w) w" using assms by (auto simp: heard_def)
  moreover have "hears p w (announced p dump_spec w)"
    unfolding announced_def journal_insert_run_def run_event_def by (rule hears_trans[OF hears_best_effort hears.emits])
  ultimately show ?thesis by (rule heard_hears)
qed

lemma opened_ready:
  assumes "distinct (map wp_id (sp_steps spec))"
  shows "ready (sp_steps spec) (announced p dump_spec (opened p spec resolved run_id w))"
  using assms by (simp add: ready_def opened_record step_of_def) (simp add: pending_step_def)

lemma settled_same: "gw_rec w' = gw_rec w \<Longrightarrow> settled_run order w' = settled_run order w"
  by (cases "yr_state (gw_rec w)") (simp_all add: settled_run_def step_of_def gone_well_def halted_def)

lemma end_drive_rec: "gw_rec (end_drive p w) = gw_rec w"
  by (simp add: end_drive_def await_cancelling_def)

lemma end_drive_settled: "settled_run order w \<Longrightarrow> settled_run order (end_drive p w) \<and> \<not> gw_active (end_drive p w)"
proof -
  assume s: "settled_run order w"
  from settled_same[OF end_drive_rec] show ?thesis using s by (simp add: end_drive_def)
qed

lemma guarded_settles:
  assumes "guarded_drive p digest spec w = (Inr (), w')" and "ready (sp_steps spec) w" and "heard p start w" and "honest p start"
  shows "settled_run (sp_steps spec) w' \<and> \<not> gw_active w'"
proof -
  have "distinct (map wp_id (sp_steps spec))" using assms(2) by (simp add: ready_def)
  note g = guarded_in_order[OF this, of p digest w]
  obtain w2 where d: "drive p digest (sp_steps spec) w = (Inr (), w2)" and w': "w' = end_drive p w2"
    using assms(1) unfolding g by (cases "drive p digest (sp_steps spec) w") auto
  show ?thesis unfolding w' by (rule end_drive_settled[OF drive_settles[OF d assms(2-4)]])
qed

text \<open>(C1) A started run settles. Whatever the agents answer and whenever the run is cancelled, once the start of a
  run of an accepted spec returns without an error, no step is pending or running: each has completed, has
  completed without a valid output, failed, was cancelled or was skipped. The run is completed only if it
  was not cancelled and every step went well (or failed with \<open>on_failure: continue\<close>), failed only if some
  step failed that halts, and cancelled only if it was cancelled; it has a finish time, no current step,
  and the process holds it as live no longer. An agent is assumed to report a cancellation only after one.\<close>

theorem started_run_settles:
  assumes "start_run p digest dump_spec resolve_path known journal_read spec inputs run_id w = (Inr (), w')"
    and "validate_grammar wellformed spec = Inr spec" and "honest p (gw_clock w)"
  shows "settled_run (sp_steps spec) w' \<and> \<not> gw_active w'"
proof (cases rule: start_run_cases[of p digest dump_spec resolve_path known journal_read spec inputs run_id w])
  case (driven resolved)
  note dist = accepted_distinct[OF assms(2)]
  have "heard p (gw_clock w) (announced p dump_spec (opened p spec resolved run_id w))"
    using announced_heard[OF opened_record(1)] by (simp add: opened_record)
  then show ?thesis using guarded_settles[OF _ opened_ready[OF dist] _ assms(3)] assms(1) driven(1) by simp
qed (use assms(1) in simp)

text \<open>(C14) A step never overspends, and steps are taken one after the other. The agent calls of a start are those of
  the first step, then those of the second, and so on in declaration order; a step has at most one call per
  attempt and one reprompt, twelve at most with the retry cap of the grammar.\<close>

theorem calls_in_order_within_budget:
  assumes "start_run p digest dump_spec resolve_path known journal_read spec inputs run_id w = (r, w')"
    and "validate_grammar wellformed spec = Inr spec"
  shows "\<exists>css. gw_calls w' = gw_calls w @ concat css
    \<and> list_all2 (\<lambda>s cs. (\<forall>c \<in> set cs. fst c = wp_id s) \<and> length cs \<le> Suc (max_attempts s) \<and> length cs \<le> 12)
        (sp_steps spec) css"
proof -
  note dist = accepted_distinct[OF assms(2)]
  have "\<exists>v. calls_between (sp_steps spec) v w' \<and> gw_calls v = gw_calls w"
  proof (cases rule: start_run_cases[of p digest dump_spec resolve_path known journal_read spec inputs run_id w])
    case (refused e)
    then show ?thesis using assms(1) by (intro exI[of _ w]) (simp add: no_calls)
  next
    case (driven resolved)
    let ?v = "announced p dump_spec (opened p spec resolved run_id w)"
    have "calls_between (sp_steps spec) ?v w'"
      using guarded_calls[OF dist, of ?v p digest] assms(1) driven(1) by (simp add: opened_record)
    then show ?thesis by (intro exI[of _ ?v]) (simp add: opened_record)
  qed
  then obtain v css where css: "list_all2 (calls_of v) (sp_steps spec) css" "gw_calls w' = gw_calls w @ concat css"
    unfolding calls_between_def by metis
  have "list_all2 (\<lambda>s cs. (\<forall>c \<in> set cs. fst c = wp_id s) \<and> length cs \<le> Suc (max_attempts s) \<and> length cs \<le> 12) (sp_steps spec) css"
  proof (rule list.rel_mono_strong[OF css(1)])
    fix s cs assume s: "s \<in> set (sp_steps spec)" and c: "calls_of v s cs"
    have "max_attempts s \<le> 11"
      using accepted_retries[OF assms(2) s]
      by (cases "wp_retries s") (auto simp: max_attempts_def WORKFLOW_DEFAULT_STEP_RETRIES_def nat_le_iff)
    then show "(\<forall>c \<in> set cs. fst c = wp_id s) \<and> length cs \<le> Suc (max_attempts s) \<and> length cs \<le> 12"
      using c by (auto simp: calls_of_def)
  qed
  then show ?thesis using css(2) by blast
qed

section \<open>The journal of a started run\<close>

lemma fetchone_replace_step:
  "fetchone (at_step r t) (replace_step row rows) = (if at_step r t row then Some row else fetchone (at_step r t) rows)"
  by (induction rows) (auto simp: fetchone_def replace_step_def at_step_def[abs_def] step_key_def)

lemma get_step_insert:
  "get_step r t (insert_steps r (map (\<lambda>s. (wp_id s, ''pending'')) xs) ts j)
     = (if t \<in> wp_id ` set xs then Some (seeded_step r t ''pending'' ts) else get_step r t j)"
proof (induction xs arbitrary: j)
  case (Cons x xs)
  let ?j = "j \<lparr> j_steps := replace_step (seeded_step r (wp_id x) ''pending'' ts) (j_steps j) \<rparr>"
  have first: "insert_steps r (map (\<lambda>s. (wp_id s, ''pending'')) (x # xs)) ts j = insert_steps r (map (\<lambda>s. (wp_id s, ''pending'')) xs) ts ?j"
    by (simp add: insert_steps_def)
  have "get_step r t ?j = (if t = wp_id x then Some (seeded_step r t ''pending'' ts) else get_step r t j)"
    by (simp add: get_step_def fetchone_replace_step) (auto simp: at_step_def seeded_step_def)
  then show ?case unfolding first Cons[of ?j] by auto
qed (simp add: insert_steps_def)

lemma spec_pause [simp]: "yr_spec (gw_rec (pause p w)) = yr_spec (gw_rec w)"
  by (simp add: pause_def Let_def cancel_live_def await_cancelling_def split: env_action.splits)

lemma insert_run_mirrors:
  assumes "po_ok p (gw_clock w)" and "get_run_row (run_id_of w) (journal_of w) = None"
    and "\<forall>s \<in> set (sp_steps (yr_spec (gw_rec w))). yr_steps (gw_rec w) (wp_id s) = Some pending_step"
  shows "has_run (journal_insert_run p dump_spec w)
    \<and> in_step p (sp_steps (yr_spec (gw_rec w))) (journal_insert_run p dump_spec w)"
proof -
  let ?v = "pause p w" and ?w' = "journal_insert_run p dump_spec w"
  define row where "row = new_run_row (run_id_of ?v) (yr_workflow_name (gw_rec ?v)) (dump_spec (yr_spec (gw_rec ?v)))
    (po_dump p (yr_inputs (gw_rec ?v))) (run_state_value (yr_state (gw_rec ?v))) (yr_started_at (gw_rec ?v)) ''yaml'' ''1'' None"
  have row: "wr_run_id row = run_id_of w" by (simp add: row_def new_run_row_def)
  have j: "journal_of ?w' = (case insert_run row (journal_of ?v) of
      (Inl e, j1) \<Rightarrow> j1
    | (Inr _, j1) \<Rightarrow> insert_steps (run_id_of w) (map (\<lambda>s. (wp_id s, ''pending'')) (sp_steps (yr_spec (gw_rec w)))) (po_now p (gw_clock w)) j1)"
    using assms(1) by (simp add: journal_insert_run_def best_effort_def Let_def row_def split: sum.splits prod.splits)
  have none: "get_run_row (run_id_of w) (journal_of ?v) = None" using assms(2) by simp
  then have fresh: "wr_run_id row \<notin> wr_run_id ` set (j_runs (journal_of ?v))"
    unfolding row get_run_row_def fetchone_None_iff by auto
  then have j': "journal_of ?w' = insert_steps (run_id_of w) (map (\<lambda>s. (wp_id s, ''pending'')) (sp_steps (yr_spec (gw_rec w))))
      (po_now p (gw_clock w)) (journal_of ?v \<lparr> j_runs := j_runs (journal_of ?v) @ [row] \<rparr>)"
    unfolding j by (simp add: insert_run_def)
  have "unmoved w ?w'" by (simp add: journal_insert_run_def)
  note same = unmovedD[OF this]
  have "has_run ?w'"
    unfolding has_run_def same(4) j' by (simp add: get_run_row_def insert_steps_def row)
  moreover have "has_row (wp_id s) ?w' \<and> mirrored p (wp_id s) ?w'" if "s \<in> set (sp_steps (yr_spec (gw_rec w)))" for s
  proof -
    have st: "step_of (wp_id s) ?w' = pending_step" using assms(3) that unfolding same(5) by (simp add: step_of_def)
    have "get_step (run_id_of ?w') (wp_id s) (journal_of ?w') = Some (seeded_step (run_id_of w) (wp_id s) ''pending'' (po_now p (gw_clock w)))"
      unfolding j' same(4) get_step_insert using that by simp
    then show ?thesis by (simp add: has_row_def mirrored_def st pending_step_def seeded_step_def)
  qed
  ultimately show ?thesis by (simp add: in_step_def)
qed

lemma run_event_same: "same_step t w (run_event p e k w)" by (simp add: same_step_def)

lemma has_run_event: "has_run (run_event p e k w) = has_run w"
  by (simp add: has_run_def run_event_def emit_def Let_def)

lemma task_best_effort:
  "(gw_cancelling_task w \<longrightarrow> cancelled w) \<Longrightarrow> (gw_cancelling_task (best_effort p f w) \<longrightarrow> cancelled (best_effort p f w))"
  using tasked.pausing[of w p] by (simp add: best_effort_def Let_def)

lemma announced_task:
  "\<not> gw_cancelling_task w \<Longrightarrow> gw_cancelling_task (announced p dump_spec w) \<longrightarrow> cancelled (announced p dump_spec w)"
  unfolding announced_def journal_insert_run_def run_event_def
  using task_best_effort[of w] tasked.emits by blast

lemma quiet_end: "hushed w \<Longrightarrow> end_drive p w = w \<lparr> gw_active := False \<rparr>"
  by (simp add: end_drive_def await_cancelling_def hushed_def)

text \<open>(C6) The journal mirrors memory, when the start returns without an error, every best-effort write is carried
  out and the admission check could read the journal. Then at the end of the run the row of every step says what
  the record in memory says (state, attempts, output, error), and the row of the run has its state, finish time and
  current step: on no path of retries, failures, halts, skips or cancellations does the drive leave a transition
  unjournalled. A start that raises is not covered: after an engine error the row of the step in flight still says
  running while memory says failed (lemma \<open>engine_error_leaves_row_running\<close>).\<close>

theorem journal_mirrors_memory:
  assumes "start_run p digest dump_spec resolve_path known True spec inputs run_id w = (Inr (), w')"
    and "validate_grammar wellformed spec = Inr spec" and "\<forall>n. po_ok p n"
  shows "run_mirrored w' \<and> (\<forall>s \<in> set (sp_steps spec). mirrored p (wp_id s) w')"
proof (cases rule: start_run_cases[of p digest dump_spec resolve_path known True spec inputs run_id w])
  case (driven resolved)
  let ?o = "opened p spec resolved run_id w"
  let ?v = "announced p dump_spec ?o"
  note dist = accepted_distinct[OF assms(2)]
  have free: "get_run_row run_id (journal_of w) = None" using driven(2) by (simp add: run_id_available_def)
  have "has_run (journal_insert_run p dump_spec ?o) \<and> in_step p (sp_steps spec) (journal_insert_run p dump_spec ?o)"
    using insert_run_mirrors[of p ?o dump_spec] assms(3) free by (simp add: opened_record)
  then have v: "has_run ?v" "in_step p (sp_steps spec) ?v"
    using in_step_same[OF run_event_same] has_run_event unfolding announced_def by blast+
  have task: "gw_cancelling_task ?v \<longrightarrow> cancelled ?v" by (rule announced_task) (simp add: opened_def)
  obtain w2 where d: "drive p digest (sp_steps spec) ?v = (Inr (), w2)" and w': "w' = end_drive p w2"
    using assms(1) unfolding driven(1) guarded_in_order[OF dist]
    by (cases "drive p digest (sp_steps spec) ?v") auto
  obtain r w1 where l: "drive_loop p digest (sp_steps spec) ?v = (r, w1)" by fastforce
  then have r: "r = Inr ()" and w2: "w2 = finalise p w1" using d by (cases r; cases "projl r"; simp add: drive_def)+
  have "in_step p (sp_steps spec) w1" by (rule in_step_loop[OF l[unfolded r] assms(3) v(2)]) simp
  then have steps: "in_step p (sp_steps spec) w2"
    unfolding w2 using in_step_same[of w1 "finalise p w1"] finalise_same by blast
  have "has_run w1" using row_of_run.loops[of ?v p digest "sp_steps spec"] v(1) l by simp
  moreover have "gw_cancelling_task w1 \<longrightarrow> cancelled w1" using task_of_run.loops[of ?v p digest "sp_steps spec"] task l by simp
  ultimately have fin: "run_mirrored w2 \<and> hushed w2" unfolding w2 by (rule finalise_mirrors[OF assms(3)])
  then have w'': "w' = w2 \<lparr> gw_active := False \<rparr>" unfolding w' by (simp add: quiet_end)
  have "same_step t w2 w'" for t unfolding w'' by (simp add: same_step_def)
  then have "in_step p (sp_steps spec) w'" using in_step_same[of w2 w' p "sp_steps spec"] steps by blast
  moreover have "run_mirrored w'" using fin by (simp add: run_mirrored_def w'' split: option.splits)
  ultimately show ?thesis by (simp add: in_step_def)
qed (use assms(1) in simp)

section \<open>An engine error\<close>

interpretation current: halting_relation
  "\<lambda>w w'. yr_current (gw_rec w) = Some (wp_id s) \<longrightarrow> yr_current (gw_rec w') = Some (wp_id s)" p s for p s
  by unfold_locales auto

lemma run_current: "engine_step p digest s w = (r, w1) \<Longrightarrow> yr_current (gw_rec w1) = Some (wp_id s)"
proof -
  assume "engine_step p digest s w = (r, w1)"
  then have w1: "w1 = snd (run_attempts (max_attempts s) p digest s 1 None (start_step p s w))" by (simp add: engine_step_def)
  have "yr_current (gw_rec (start_step p s w)) = Some (wp_id s)" by (simp add: start_step_def Let_def)
  then show ?thesis unfolding w1 using current.attempts[OF current.refl] by blast
qed

definition at_rest_or_pending :: "string \<Rightarrow> engine_world \<Rightarrow> bool" where
  "at_rest_or_pending t w \<longleftrightarrow> ys_state (step_of t w) = S_PENDING \<or> rested (ys_state (step_of t w))"

lemma at_rest_untouched: "untouched t w w' \<Longrightarrow> at_rest_or_pending t w' = at_rest_or_pending t w"
  using untouched_step[of t w w'] by (simp add: at_rest_or_pending_def)

lemma loop_error:
  assumes "drive_loop p digest order w = (Inl e, w')" and "ready order w" and "heard p start w" and "honest p start"
  shows "\<exists>s \<in> set order. yr_current (gw_rec w') = Some (wp_id s) \<and> present (wp_id s) w'
    \<and> (\<forall>u \<in> set order. u \<noteq> s \<longrightarrow> at_rest_or_pending (wp_id u) w')"
  using assms(1-3)
proof (induction order arbitrary: w)
  case (Cons s rest)
  have pres: "present (wp_id s) w" and ready_rest: "ready rest w" using Cons.prems(2) by (auto simp: ready_def)
  have apart: "wp_id s \<notin> wp_id ` set rest" using Cons.prems(2) by (simp add: ready_def)
  have widen: ?case
    if "\<exists>u \<in> set rest. yr_current (gw_rec w') = Some (wp_id u) \<and> present (wp_id u) w'
        \<and> (\<forall>v \<in> set rest. v \<noteq> u \<longrightarrow> at_rest_or_pending (wp_id v) w')" and "at_rest_or_pending (wp_id s) w'"
    using that by auto
  show ?case
  proof (cases rule: drive_loop_cases[of w p digest s rest])
    case stop
    then show ?thesis using Cons.prems(1) by simp
  next
    case skip
    have d: "drive_loop p digest rest w = (Inl e, w')" using Cons.prems(1) skip(3) by simp
    have "untouched (wp_id s) w w'" using untouched_loop[OF apart, of w p digest] d by simp
    moreover have "at_rest_or_pending (wp_id s) w" using skip(2) by (auto simp: at_rest_or_pending_def rested_def)
    ultimately have "at_rest_or_pending (wp_id s) w'" by (simp add: at_rest_untouched)
    then show ?thesis using widen[OF Cons.IH[OF d ready_rest Cons.prems(3)]] by simp
  next
    case (error e' w1)
    have w1: "w1 = w'" using Cons.prems(1) error(4) by simp
    have mine: "own (wp_id s) w w'" using own.runs[of s w p digest] error(3) w1 by simp
    have "ready rest w'" by (rule ready_own[OF Cons.prems(2) mine])
    then have "at_rest_or_pending (wp_id u) w'" if "u \<in> set rest" for u
      using that by (auto simp: ready_def at_rest_or_pending_def rested_def)
    moreover have "present (wp_id s) w'" by (rule own_present[OF mine pres])
    ultimately show ?thesis using run_current[OF error(3)] w1 by auto
  next
    case (cancel w1)
    then show ?thesis using Cons.prems(1) by simp
  next
    case (halt w1)
    then show ?thesis using Cons.prems(1) by simp
  next
    case (proceed w1)
    have d: "drive_loop p digest rest w1 = (Inl e, w')" using Cons.prems(1) proceed(6) by simp
    have st: "stepped p start s w1" by (rule engine_step_stepped[OF proceed(3) pres Cons.prems(3) assms(4)])
    then have good: "heard p start w1" using proceed(4,5) by (auto simp: stepped_def)
    have "own (wp_id s) w w1" using own.runs[of s w p digest] proceed(3) by simp
    then have ready1: "ready rest w1" by (rule ready_own[OF Cons.prems(2)])
    have "untouched (wp_id s) w1 w'" using untouched_loop[OF apart, of w1 p digest] d by simp
    moreover have "at_rest_or_pending (wp_id s) w1" using stepped_rested[OF st] by (simp add: at_rest_or_pending_def)
    ultimately have "at_rest_or_pending (wp_id s) w'" by (simp add: at_rest_untouched)
    then show ?thesis using widen[OF Cons.IH[OF d ready1 good]] by simp
  qed
qed simp

lemma engine_error_settle:
  assumes "yr_current (gw_rec w) = Some sid" and "present sid w"
  shows "yr_state (gw_rec (settle_engine_error p w)) = R_FAILED" "yr_current (gw_rec (settle_engine_error p w)) = None"
    "yr_finished_at (gw_rec (settle_engine_error p w)) \<noteq> None"
    "ys_state (step_of sid (settle_engine_error p w)) \<in> {S_FAILED, S_COMPLETED, S_UNVALIDATED}"
    "t \<noteq> sid \<Longrightarrow> step_of t (settle_engine_error p w) = step_of t w"
proof -
  let ?w2 = "upd_rec (\<lambda>r. r \<lparr> yr_state := R_FAILED, yr_current := None, yr_finished_at := Some (po_now p (gw_clock w)) \<rparr>)
    (upd_step sid (\<lambda>st. if finished (ys_state st) then st else st \<lparr> ys_state := S_FAILED \<rparr>) w)"
  have "unmoved ?w2 (settle_engine_error p w)"
    unfolding settle_engine_error_def Let_def assms(1) option.case
    by (rule calm_trans[OF calm_journal(2) calm_trans[OF calm_run_event calm_journal(3)]])
  then show "yr_state (gw_rec (settle_engine_error p w)) = R_FAILED" "yr_current (gw_rec (settle_engine_error p w)) = None"
    "yr_finished_at (gw_rec (settle_engine_error p w)) \<noteq> None"
    "ys_state (step_of sid (settle_engine_error p w)) \<in> {S_FAILED, S_COMPLETED, S_UNVALIDATED}"
    "t \<noteq> sid \<Longrightarrow> step_of t (settle_engine_error p w) = step_of t w"
    using assms(2) by (auto simp: unmoved_def step_of_def split: if_splits)
qed

text \<open>(C21) An engine error strands nothing in memory. When a template of a started run names what is not there, the
  error is raised after the run was settled: the run is failed with a finish time and no current step, the
  process holds it as live no longer, and no step is left running (the step in flight has failed, the ones
  after it stay pending).\<close>

theorem engine_error_settles:
  assumes "start_run p digest dump_spec resolve_path known journal_read spec inputs run_id w = (Inl WF_EngineError, w')"
    and "validate_inputs resolve_path (sp_inputs spec) inputs = Inr resolved"
    and "validate_grammar wellformed spec = Inr spec" and "honest p (gw_clock w)"
  shows "yr_state (gw_rec w') = R_FAILED \<and> yr_current (gw_rec w') = None \<and> yr_finished_at (gw_rec w') \<noteq> None \<and> \<not> gw_active w'
    \<and> (\<forall>s \<in> set (sp_steps spec). at_rest_or_pending (wp_id s) w')"
proof -
  let ?v = "announced p dump_spec (opened p spec resolved run_id w)"
  note dist = accepted_distinct[OF assms(3)]
  have "guarded_drive p digest spec ?v = (Inl WF_EngineError, w')"
    using assms(1,2) by (simp add: start_run_def opened_def announced_def Let_def split: if_splits)
  then obtain w2 where d: "drive p digest (sp_steps spec) ?v = (Inl WF_EngineError, w2)" and w': "w' = end_drive p w2"
    unfolding guarded_in_order[OF dist] by (cases "drive p digest (sp_steps spec) ?v") auto
  obtain r w1 where l: "drive_loop p digest (sp_steps spec) ?v = (r, w1)" by fastforce
  have r: "r = Inl WF_EngineError" and w2: "w2 = settle_engine_error p w1"
    using d l by (cases r; cases "projl r"; simp add: drive_def)+
  have "heard p (gw_clock w) ?v" using announced_heard[OF opened_record(1)] by (simp add: opened_record)
  from loop_error[OF l[unfolded r] opened_ready[OF dist] this assms(4)]
  obtain s where s: "s \<in> set (sp_steps spec)" "yr_current (gw_rec w1) = Some (wp_id s)" "present (wp_id s) w1"
    "\<forall>u \<in> set (sp_steps spec). u \<noteq> s \<longrightarrow> at_rest_or_pending (wp_id u) w1" by blast
  note out = engine_error_settle[where p = p, OF s(2,3)]
  have "at_rest_or_pending (wp_id u) w2" if "u \<in> set (sp_steps spec)" for u
  proof (cases "wp_id u = wp_id s")
    case True
    then show ?thesis using out(4) by (auto simp: w2 at_rest_or_pending_def rested_def)
  next
    case False
    then show ?thesis using out(5)[OF False] s(4) that by (auto simp: w2 at_rest_or_pending_def)
  qed
  then show ?thesis
    using out(1-3) by (auto simp: w' w2 end_drive_rec at_rest_or_pending_def step_of_def) (simp add: end_drive_def)
qed

end
