(* ===== verification/Workflow_Resume.thy ===== *)
theory Workflow_Resume
  imports Workflow_Runs
begin

text \<open>
  The resume of a declarative run: the record rebuilt from the rows of the journal keeps the finished steps and
  reopens the others, and the drive over it settles without running a finished step again.
\<close>

section \<open>Resuming a run\<close>

lemma overlay_other: "sid \<noteq> ws_step_id row \<Longrightarrow> overlay_row load row steps sid = steps sid"
  by (simp add: overlay_row_def split: option.splits)

lemma overlay_domain: "overlay_row load row steps sid = None \<longleftrightarrow> steps sid = None"
  by (auto simp: overlay_row_def split: option.splits)

lemma overlay_fold_domain: "fold (overlay_row load) rows steps sid = None \<longleftrightarrow> steps sid = None"
  by (induction rows arbitrary: steps) (simp_all add: overlay_domain)

lemma overlay_fold_other:
  "sid \<notin> ws_step_id ` set rows \<Longrightarrow> fold (overlay_row load) rows steps sid = steps sid"
  by (induction rows arbitrary: steps) (simp_all add: overlay_other)

definition restored :: "(string \<Rightarrow> (string \<times> json) list option) \<Rightarrow> step_row \<Rightarrow> step_state \<Rightarrow> yaml_step" where
  "restored load row st = pending_step \<lparr> ys_state := st, ys_attempts := ws_attempts row,
     ys_output := output_of_json load (ws_output_json row), ys_error := ws_error row \<rparr>"

lemma overlay_fold_row:
  assumes "distinct (map ws_step_id rows)" and "row \<in> set rows" and "parse_step_state (ws_state row) = Some st"
    and "steps (ws_step_id row) \<noteq> None"
  shows "fold (overlay_row load) rows steps (ws_step_id row) = Some (restored load row st)"
  using assms(1,2,4)
proof (induction rows arbitrary: steps)
  case (Cons x rows)
  show ?case
  proof (cases "x = row")
    case True
    have "ws_step_id row \<notin> ws_step_id ` set rows" using Cons.prems(1) True by auto
    moreover have "overlay_row load row steps (ws_step_id row) = Some (restored load row st)"
      using Cons.prems(3) assms(3) by (auto simp: overlay_row_def restored_def)
    ultimately show ?thesis using True by (simp add: overlay_fold_other)
  next
    case False
    then show ?thesis using Cons.IH[of "overlay_row load x steps"] Cons.prems by (simp add: overlay_domain)
  qed
qed simp

definition reentered :: "engine_ports \<Rightarrow> bool \<Rightarrow> bool \<Rightarrow> bool \<Rightarrow> string \<Rightarrow> run_record \<Rightarrow> engine_world \<Rightarrow> engine_world" where
  "reentered p mark_read max_read cached run_id r w =
     journal_current_step p (best_effort p (\<lambda>_. update_run_state run_id ''running'' None)
       (w \<lparr> gw_rec := reopened r, gw_log := reseed mark_read max_read cached run_id (gw_log w),
            gw_cancelling_task := False, gw_active := True \<rparr>))"

text \<open>What is read back is the row of the run as it was, up to its state, and the rows of its steps.\<close>

definition same_snapshot :: "workflow_run_row \<Rightarrow> engine_world \<Rightarrow> engine_world \<Rightarrow> bool" where
  "same_snapshot row w w0 \<longleftrightarrow> gw_calls w0 = gw_calls w \<and> gw_clock w \<le> gw_clock w0 \<and> gw_clock w0 \<le> gw_clock w + 2
     \<and> j_steps (journal_of w0) = j_steps (journal_of w)
     \<and> (\<exists>row'. get_run_row (wr_run_id row) (journal_of w0) = Some row' \<and> wr_run_id row' = wr_run_id row
          \<and> wr_spec_snapshot row' = wr_spec_snapshot row)"

lemma same_snapshot_refl: "get_run_row run_id (journal_of w) = Some row \<Longrightarrow> same_snapshot row w w"
  using fetchone_SomeD by (fastforce simp: same_snapshot_def get_run_row_def)

lemma steps_run_state [simp]: "j_steps (update_run_state r st fin j) = j_steps j"
  by (simp add: update_run_state_def)

lemma steps_await [simp]: "j_steps (journal_of (await_cancelling p w)) = j_steps (journal_of w)"
  by (simp add: await_cancelling_def)

lemma steps_pause [simp]: "j_steps (journal_of (pause p w)) = j_steps (journal_of w)"
  by (simp add: pause_def Let_def cancel_live_def split: env_action.splits)

lemma snapshot_await:
  "get_run_row (wr_run_id row) (journal_of w) = Some row \<Longrightarrow> same_snapshot row w (await_cancelling p w)"
  by (auto simp: same_snapshot_def await_cancelling_def get_run_row_update)

lemma snapshot_pause:
  assumes "get_run_row (wr_run_id row) (journal_of w) = Some row"
  shows "same_snapshot row w (pause p w)"
proof -
  have "gw_clock (await_cancelling p v) \<le> Suc (gw_clock v)" for v by (simp add: await_cancelling_def)
  from this[of "w \<lparr> gw_clock := Suc (gw_clock w) \<rparr>"]
  have "same_snapshot row w (await_cancelling p (w \<lparr> gw_clock := Suc (gw_clock w) \<rparr>))"
    using snapshot_await[of row "w \<lparr> gw_clock := Suc (gw_clock w) \<rparr>" p] assms by (simp add: same_snapshot_def)
  then show ?thesis
    using assms by (auto simp: pause_def Let_def cancel_live_def same_snapshot_def split: env_action.splits)
qed

lemma snapshot_update:
  "same_snapshot row w w0 \<Longrightarrow> same_snapshot row w (upd_journal (update_run_state run_id st fin) w0)"
  by (cases "wr_run_id row = run_id") (auto simp: same_snapshot_def get_run_row_update)

lemma snapshot_best_effort:
  assumes "get_run_row (wr_run_id row) (journal_of w) = Some row"
  shows "same_snapshot row w (best_effort p (\<lambda>_. update_run_state run_id st fin) w)"
  using snapshot_pause[OF assms, of p] snapshot_update by (simp add: best_effort_def Let_def)

text \<open>A resume is refused without a call, or it drives the record rebuilt from the journal.\<close>

lemma resume_run_cases [consumes 2, case_names refused driven]:
  assumes "get_run_row run_id (journal_of w) = Some row" and "load_spec (wr_spec_snapshot row) = Some spec"
  obtains (refused) e w0 where "gw_calls w0 = gw_calls w" and
      "resume_run p digest load_spec load row_read True mark_read max_read cached run_id w = (Inl e, w0)"
    | (driven) r w0 where "gw_calls w0 = gw_calls w" "gw_clock w \<le> gw_clock w0 \<and> gw_clock w0 \<le> gw_clock w + 2"
      "resume_run p digest load_spec load row_read True mark_read max_read cached run_id w
         = guarded_drive p digest spec (reentered p mark_read max_read cached run_id r w0)"
      "yr_steps r = fold (overlay_row load) (get_steps run_id (journal_of w))
         (\<lambda>sid. if sid \<in> wp_id ` set (sp_steps spec) then Some pending_step else None)"
proof -
  have id: "wr_run_id row = run_id" using assms(1) fetchone_SomeD unfolding get_run_row_def by fastforce
  note calm0 = same_snapshot_refl[OF assms(1)]
  show ?thesis
  proof (cases "valid_key_part run_id \<and> \<not> gw_active w \<and> row_read \<and> parse_run_state (wr_state row) \<notin> {None, Some R_COMPLETED}")
    case False
    then have "\<exists>e. resume_run p digest load_spec load row_read True mark_read max_read cached run_id w = (Inl e, w)"
      using assms(1) by (auto simp: resume_run_def)
    then show ?thesis using refused by blast
  next
    case True
    then obtain state where st: "parse_run_state (wr_state row) = Some state" "state \<noteq> R_COMPLETED" by auto
    define w0 where "w0 = (if state = R_CANCELLING
      then best_effort p (\<lambda>_. update_run_state run_id ''cancelled'' (Some (po_now p (gw_clock w)))) w else w)"
    have "get_run_row (wr_run_id row) (journal_of w) = Some row" using assms(1) id by simp
    from snapshot_best_effort[OF this, of p] have snap: "same_snapshot row w w0" using calm0 by (simp add: w0_def)
    then obtain row' where row': "get_run_row run_id (journal_of w0) = Some row'" "wr_run_id row' = run_id"
      "wr_spec_snapshot row' = wr_spec_snapshot row" by (auto simp: same_snapshot_def id)
    have steps: "get_steps run_id (journal_of w0) = get_steps run_id (journal_of w)"
      using snap by (simp add: same_snapshot_def get_steps_def)
    have again: "resume_run p digest load_spec load row_read True mark_read max_read cached run_id w =
      (case rebuild_record load_spec load True row' (journal_of w0) of
         None \<Rightarrow> (Inl WF_KeyError, w0)
       | Some r \<Rightarrow> guarded_drive p digest spec (reentered p mark_read max_read cached run_id r w0))"
      using True st assms row'(1)
      by (simp add: resume_run_def w0_def[symmetric] Let_def reentered_def split: option.splits)
    show ?thesis
    proof (cases "rebuild_record load_spec load True row' (journal_of w0)")
      case None
      then show ?thesis using refused[of w0 WF_KeyError] snap again by (simp add: same_snapshot_def)
    next
      case (Some r)
      then have "yr_steps r = fold (overlay_row load) (get_steps run_id (journal_of w))
         (\<lambda>sid. if sid \<in> wp_id ` set (sp_steps spec) then Some pending_step else None)"
        using row' assms(2) steps by (auto simp: rebuild_record_def split: option.splits)
      then show ?thesis using driven[of w0 r] snap again Some by (simp add: same_snapshot_def)
    qed
  qed
qed

lemma reentered_live: "heard p (gw_clock w) (reentered p mark_read max_read cached run_id r w)"
proof -
  let ?v = "w \<lparr> gw_rec := reopened r, gw_log := reseed mark_read max_read cached run_id (gw_log w),
            gw_cancelling_task := False, gw_active := True \<rparr>"
  have "heard p (gw_clock w) ?v" by (auto simp: heard_def live_def reopened_def)
  moreover have "hears p ?v (reentered p mark_read max_read cached run_id r w)"
    unfolding reentered_def journal_current_step_def by (rule hears_trans[OF hears_best_effort hears_best_effort])
  ultimately show ?thesis by (rule heard_hears)
qed

lemma reentered_steps:
  "yr_steps (gw_rec (reentered p mark_read max_read cached run_id r w)) sid = map_option reset_step (yr_steps r sid)"
  "gw_calls (reentered p mark_read max_read cached run_id r w) = gw_calls w"
  by (simp_all add: reentered_def reopened_def)

lemma reset_step_state: "ys_state (reset_step st) = S_PENDING \<or> finished (ys_state (reset_step st))"
  by (simp add: reset_step_def pending_step_def)

lemma reentered_ready:
  assumes "distinct (map wp_id (sp_steps spec))"
    and "yr_steps r = fold (overlay_row load) rows (\<lambda>sid. if sid \<in> wp_id ` set (sp_steps spec) then Some pending_step else None)"
  shows "ready (sp_steps spec) (reentered p mark_read max_read cached run_id r w)"
proof -
  have "\<exists>st. yr_steps (gw_rec (reentered p mark_read max_read cached run_id r w)) (wp_id s) = Some (reset_step st)"
    if "s \<in> set (sp_steps spec)" for s
  proof -
    have "yr_steps r (wp_id s) \<noteq> None" using that by (simp add: assms(2) overlay_fold_domain)
    then show ?thesis by (auto simp: reentered_steps)
  qed
  then show ?thesis
    using assms(1) reset_step_state by (fastforce simp: ready_def step_of_def)
qed

lemma distinct_step_ids:
  "distinct (map step_key (j_steps j)) \<Longrightarrow> distinct (map ws_step_id (get_steps run_id j))"
proof -
  assume "distinct (map step_key (j_steps j))"
  then have "distinct (map step_key (get_steps run_id j))" unfolding get_steps_def by (rule distinct_map_filter_key)
  then show ?thesis by (auto simp: distinct_map inj_on_def step_key_def get_steps_def)
qed

lemma finished_row:
  "ws_state q \<in> {''completed'', ''completed_unvalidated''} \<Longrightarrow>
     parse_step_state (ws_state q) = Some (if ws_state q = ''completed'' then S_COMPLETED else S_UNVALIDATED)"
proof -
  have "parse_step_state ''completed'' = Some S_COMPLETED" "parse_step_state ''completed_unvalidated'' = Some S_UNVALIDATED"
    by code_simp+
  then show "ws_state q \<in> {''completed'', ''completed_unvalidated''} \<Longrightarrow> ?thesis" by auto
qed

lemma reentered_finished:
  assumes "yr_steps r = fold (overlay_row load) rows (\<lambda>sid. if sid \<in> wp_id ` set (sp_steps spec) then Some pending_step else None)"
    and "distinct (map ws_step_id rows)" and "q \<in> set rows" and "ws_step_id q \<in> wp_id ` set (sp_steps spec)"
    and "ws_state q \<in> {''completed'', ''completed_unvalidated''}"
  shows "step_of (ws_step_id q) (reentered p mark_read max_read cached run_id r w)
    = restored load q (if ws_state q = ''completed'' then S_COMPLETED else S_UNVALIDATED)"
proof -
  have "yr_steps r (ws_step_id q) = Some (restored load q (if ws_state q = ''completed'' then S_COMPLETED else S_UNVALIDATED))"
    unfolding assms(1) by (rule overlay_fold_row[OF assms(2,3) finished_row[OF assms(5)]]) (use assms(4) in simp)
  then show ?thesis
    by (simp add: step_of_def reentered_steps) (simp add: reset_step_def restored_def)
qed

text \<open>(C11) A resume runs no finished step again. When the rows of the run could be read, a resume calls no agent for
  a step whose journal row says completed or completed without a valid output; the calls for the other steps
  come step by step, each within its budget.\<close>

theorem resume_runs_no_finished_step:
  assumes "resume_run p digest load_spec load row_read True mark_read max_read cached run_id w = (r, w')"
    and "get_run_row run_id (journal_of w) = Some row" and "load_spec (wr_spec_snapshot row) = Some spec"
    and "distinct (map wp_id (sp_steps spec))" and "distinct (map step_key (j_steps (journal_of w)))"
  shows "\<exists>css. gw_calls w' = gw_calls w @ concat css
    \<and> list_all2 (\<lambda>s cs. (\<forall>c \<in> set cs. fst c = wp_id s) \<and> length cs \<le> Suc (max_attempts s)
        \<and> ((\<exists>q \<in> set (get_steps run_id (journal_of w)). ws_step_id q = wp_id s
              \<and> ws_state q \<in> {''completed'', ''completed_unvalidated''}) \<longrightarrow> cs = [])) (sp_steps spec) css"
  using assms(2,3)
proof (cases rule: resume_run_cases[where load_spec = load_spec and spec = spec and p = p and digest = digest and load = load and row_read = row_read and mark_read = mark_read and max_read = max_read and cached = cached])
  case (refused e w0)
  then show ?thesis
    using assms(1) by (intro exI[of _ "map (\<lambda>_. []) (sp_steps spec)"]) (simp add: list_all2_conv_all_nth)
next
  case (driven rc w0)
  let ?v = "reentered p mark_read max_read cached run_id rc w0"
  have rdy: "ready (sp_steps spec) ?v" by (rule reentered_ready[OF assms(4) driven(4)])
  then have "calls_between (sp_steps spec) ?v w'"
    using guarded_calls[OF assms(4), of ?v p digest] assms(1) driven(3) by (simp add: ready_def)
  then obtain css where css: "list_all2 (calls_of ?v) (sp_steps spec) css" "gw_calls w' = gw_calls w @ concat css"
    by (auto simp: calls_between_def reentered_steps driven(1))
  have kept: "finished (ys_state (step_of (wp_id s) ?v))"
    if "s \<in> set (sp_steps spec)" "q \<in> set (get_steps run_id (journal_of w))" "ws_step_id q = wp_id s"
      "ws_state q \<in> {''completed'', ''completed_unvalidated''}" for s q
  proof -
    have "step_of (ws_step_id q) ?v = restored load q (if ws_state q = ''completed'' then S_COMPLETED else S_UNVALIDATED)"
      by (rule reentered_finished[OF driven(4) distinct_step_ids[OF assms(5)] that(2) _ that(4)]) (use that(1,3) in auto)
    then show ?thesis using that(3) by (simp add: restored_def)
  qed
  show ?thesis
    by (rule exI[of _ css], rule conjI[OF css(2)], rule list.rel_mono_strong[OF css(1)])
      (use kept in \<open>auto simp: calls_of_def\<close>)
qed

text \<open>(C18) A resumed run settles as a started one does, and what was finished before is kept: at its end the record
  of such a step holds the state, attempts, output and error read back from its row.
  An agent is assumed to report a cancellation only after one that came once the drive had begun, at most two
  awaits into the resume.\<close>

theorem resumed_run_settles:
  assumes "resume_run p digest load_spec load row_read True mark_read max_read cached run_id w = (Inr (), w')"
    and "get_run_row run_id (journal_of w) = Some row" and "load_spec (wr_spec_snapshot row) = Some spec"
    and "distinct (map wp_id (sp_steps spec))" and "distinct (map step_key (j_steps (journal_of w)))"
    and "\<forall>n. gw_clock w \<le> n \<and> n \<le> gw_clock w + 2 \<longrightarrow> honest p n"
  shows "settled_run (sp_steps spec) w' \<and> \<not> gw_active w'
    \<and> (\<forall>q \<in> set (get_steps run_id (journal_of w)). ws_step_id q \<in> wp_id ` set (sp_steps spec)
         \<and> ws_state q \<in> {''completed'', ''completed_unvalidated''} \<longrightarrow>
         step_of (ws_step_id q) w' = restored load q (if ws_state q = ''completed'' then S_COMPLETED else S_UNVALIDATED))"
  using assms(2,3)
proof (cases rule: resume_run_cases[where load_spec = load_spec and spec = spec and p = p and digest = digest and load = load and row_read = row_read and mark_read = mark_read and max_read = max_read and cached = cached])
  case (driven rc w0)
  let ?v = "reentered p mark_read max_read cached run_id rc w0"
  have rdy: "ready (sp_steps spec) ?v" by (rule reentered_ready[OF assms(4) driven(4)])
  have h: "heard p (gw_clock w0) ?v" by (rule reentered_live)
  have "honest p (gw_clock w0)" using assms(6) driven(2) by blast
  then have set1: "settled_run (sp_steps spec) w' \<and> \<not> gw_active w'"
    using guarded_settles[OF _ rdy h] assms(1) driven(3) by simp
  have w': "w' = end_drive p (snd (drive p digest (sp_steps spec) ?v))"
    using assms(1) unfolding driven(3) guarded_in_order[OF assms(4)] by simp
  have "step_of (ws_step_id q) w' = restored load q (if ws_state q = ''completed'' then S_COMPLETED else S_UNVALIDATED)"
    if "q \<in> set (get_steps run_id (journal_of w))" "ws_step_id q \<in> wp_id ` set (sp_steps spec)"
      "ws_state q \<in> {''completed'', ''completed_unvalidated''}" for q
  proof -
    have v: "step_of (ws_step_id q) ?v = restored load q (if ws_state q = ''completed'' then S_COMPLETED else S_UNVALIDATED)"
      by (rule reentered_finished[OF driven(4) distinct_step_ids[OF assms(5)] that])
    then have "untouched (ws_step_id q) ?v (snd (drive p digest (sp_steps spec) ?v))"
      by (intro drive_keeps_finished[OF _ assms(4)]) (simp add: restored_def)
    from untouched_step[OF this] v show ?thesis unfolding w' by (simp add: end_drive_def step_of_def)
  qed
  then show ?thesis using set1 by blast
qed (use assms(1) in simp)

end
