(* ===== verification/Workflow_Run_Cases.thy ===== *)
theory Workflow_Run_Cases
  imports Workflow_Resume
begin

text \<open>
  Concrete runs, which show that the hypotheses of the promises can be met, and three ways a run can end that
  the promises leave open: the row of a step in flight at an engine error, a cancellation that overtakes an
  engine error, and an exception of the agent runner that is no step error.
\<close>

section \<open>Runs that end\<close>

text \<open>Plain prompts without an output schema, and agents that answer.\<close>

definition easy :: "engine_ports \<Rightarrow> workflow_step list \<Rightarrow> bool" where
  "easy p order \<longleftrightarrow> (\<forall>n. \<exists>t. tu_reply (po_agent p n) = Reply_Ok t)
     \<and> (\<forall>s \<in> set order. wp_output_schema s = None \<and> wp_retries s = None \<and> wp_prompt s = ''go'')"

lemma substitute_go: "substitute ''go'' r = Inr ''go''"
  by (simp add: substitute_def placeholder_def startswith_def Let_def)

lemma easy_step:
  assumes "easy p order" and "s \<in> set order"
  shows "\<exists>w1. engine_step p digest s w = (Inr (), w1)"
proof -
  have s: "wp_output_schema s = None" "wp_prompt s = ''go''" "max_attempts s = Suc 3"
    using assms by (auto simp: easy_def max_attempts_def WORKFLOW_DEFAULT_STEP_RETRIES_def)
  obtain t where t: "tu_reply (po_agent p n) = Reply_Ok (t n)" for n using assms(1) unfolding easy_def by metis
  have "\<exists>w1. run_attempts (Suc n) p digest s a k v = (Inr (), w1)" for n a k v
    by (simp add: s substitute_go Let_def attempt_body_def agent_call_def t collect_structured_output_def)
  then show ?thesis unfolding engine_step_def s(3) .
qed

lemma easy_loop: "easy p order \<Longrightarrow> set rest \<subseteq> set order \<Longrightarrow> fst (drive_loop p digest rest w) = Inr ()"
proof (induction rest arbitrary: w)
  case (Cons s rest)
  obtain w1 where w1: "engine_step p digest s w = (Inr (), w1)" using easy_step Cons.prems by (metis list.set_intros(1) subsetD)
  show ?case
    by (cases rule: drive_loop_cases[of w p digest s rest]) (use w1 Cons in simp_all)
qed simp

lemma easy_drive:
  assumes "easy p (sp_steps spec)" and "distinct (map wp_id (sp_steps spec))"
  shows "fst (guarded_drive p digest spec w) = Inr ()"
proof -
  obtain r w1 where l: "drive_loop p digest (sp_steps spec) w = (r, w1)" by fastforce
  then have "r = Inr ()" using easy_loop[OF assms(1) subset_refl, of digest w] by simp
  then show ?thesis using l by (simp add: guarded_in_order[OF assms(2)] drive_def)
qed

definition ex_run_ports :: "(nat \<Rightarrow> agent_turn) \<Rightarrow> engine_ports" where
  "ex_run_ports agent = \<lparr> po_env = (\<lambda>n. if n = 30 then Cancelling_Write else Quiet), po_ok = (\<lambda>_. True), po_agent = agent,
     po_now = (\<lambda>_. ''t1''), po_dump = (\<lambda>_. ''{}'') \<rparr>"

definition ex_willing :: engine_ports where
  "ex_willing = ex_run_ports (\<lambda>n. \<lparr> tu_reply = Reply_Ok ''t1'', tu_puts = [] \<rparr>)"

definition ex_engine :: "journal \<Rightarrow> engine_world" where
  "ex_engine j = \<lparr> gw_log = \<lparr> ew_journal = j, ew_seq = 0 \<rparr>, gw_rec = new_record (ex_spec []) [] [] [],
     gw_store = new_output_store 8, gw_cancelling_task = False, gw_active = False, gw_clock = 0, gw_calls = [] \<rparr>"

definition ex_flow :: workflow_spec where "ex_flow = ex_spec [''a'', ''b'']"

definition ex_started :: "engine_ports \<Rightarrow> workflow_spec \<Rightarrow> (workflow_error + unit) \<times> engine_world" where
  "ex_started p spec = start_run p id (\<lambda>_. ''spec'') Inr False True spec [] ''r1'' (ex_engine empty_journal)"

lemma ex_flow_accepted: "validate_grammar (\<lambda>_. True) ex_flow = Inr ex_flow"
  by code_simp

lemma ex_willing_easy: "easy ex_willing (sp_steps ex_flow)"
  by (simp add: easy_def ex_willing_def ex_run_ports_def ex_flow_def ex_spec_def ex_step_def)

lemma ex_honest: "honest ex_willing n"
  by (simp add: honest_def ex_willing_def ex_run_ports_def reports_cancel_def)

lemma ex_start_ends: "ex_started ex_willing ex_flow = (Inr (), snd (ex_started ex_willing ex_flow))"
proof -
  have "valid_key_part ''r1''" "validate_inputs Inr [] [] = Inr []" by code_simp+
  moreover have "run_id_available False True ''r1'' empty_journal" by code_simp
  moreover have "sp_inputs ex_flow = []" "sp_mode ex_flow = Sequential" by (simp_all add: ex_flow_def ex_spec_def)
  ultimately have "fst (ex_started ex_willing ex_flow) = Inr ()"
    using easy_drive[OF ex_willing_easy accepted_distinct[OF ex_flow_accepted]]
    by (simp add: ex_started_def start_run_def ex_engine_def Let_def)
  then show ?thesis by (simp add: prod_eq_iff)
qed

theorem started_run_settles_witness:
  "settled_run (sp_steps ex_flow) (snd (ex_started ex_willing ex_flow)) \<and> \<not> gw_active (snd (ex_started ex_willing ex_flow))"
  by (rule started_run_settles[OF ex_start_ends[unfolded ex_started_def] ex_flow_accepted ex_honest, folded ex_started_def])

lemma ex_flow_steps: "sp_steps ex_flow = [ex_step ''a'', ex_step ''b'']" "wp_id (ex_step i) = i" "max_attempts (ex_step i) = 4"
  by (simp_all add: ex_flow_def ex_spec_def ex_step_def max_attempts_def WORKFLOW_DEFAULT_STEP_RETRIES_def)

theorem calls_in_order_within_budget_witness:
  "\<exists>ca cb. gw_calls (snd (ex_started ex_willing ex_flow)) = ca @ cb
    \<and> list_all (\<lambda>c. fst c = ''a'') ca \<and> length ca \<le> 5 \<and> list_all (\<lambda>c. fst c = ''b'') cb \<and> length cb \<le> 5"
proof -
  have "gw_calls (ex_engine empty_journal) = []" by (simp add: ex_engine_def)
  then obtain ca cb where "gw_calls (snd (ex_started ex_willing ex_flow)) = ca @ cb" "\<forall>c \<in> set ca. fst c = ''a''"
    "length ca \<le> 5" "\<forall>c \<in> set cb. fst c = ''b''" "length cb \<le> 5"
    using calls_in_order_within_budget[OF ex_start_ends[unfolded ex_started_def] ex_flow_accepted]
    by (auto simp: ex_started_def ex_flow_steps list_all2_Cons1)
  then show ?thesis unfolding list_all_iff by blast
qed

theorem journal_mirrors_memory_witness:
  "run_mirrored (snd (ex_started ex_willing ex_flow)) \<and> mirrored ex_willing ''a'' (snd (ex_started ex_willing ex_flow))
    \<and> mirrored ex_willing ''b'' (snd (ex_started ex_willing ex_flow))"
proof -
  have "\<forall>n. po_ok ex_willing n" by (simp add: ex_willing_def ex_run_ports_def)
  from journal_mirrors_memory[OF ex_start_ends[unfolded ex_started_def] ex_flow_accepted this]
  show ?thesis by (simp add: ex_started_def ex_flow_steps)
qed

section \<open>Runs that are resumed\<close>

definition ex_run_row :: workflow_run_row where
  "ex_run_row = new_run_row ''r1'' ''wf'' ''spec'' ''{}'' ''failed'' ''t0'' ''yaml'' ''1'' None"

definition ex_left :: journal where
  "ex_left = update_step ''r1'' ''a'' ''completed'' 1 ''t0'' (Some ''{}'') None None
     (insert_steps ''r1'' [(''a'', ''pending''), (''b'', ''pending'')] ''t0'' (snd (insert_run ex_run_row empty_journal)))"

definition ex_resume :: "(workflow_error + unit) \<times> engine_world" where
  "ex_resume = resume_run ex_willing id (\<lambda>_. Some ex_flow) (\<lambda>_. Some []) True True True True False ''r1'' (ex_engine ex_left)"

lemma ex_left_reads:
  "get_run_row ''r1'' (journal_of (ex_engine ex_left)) = Some ex_run_row"
  "distinct (map step_key (j_steps (journal_of (ex_engine ex_left))))" "distinct (map wp_id (sp_steps ex_flow))"
  by (simp_all add: ex_engine_def) code_simp+

lemma ex_resume_ends: "ex_resume = (Inr (), snd ex_resume)"
proof -
  have "valid_key_part ''r1''" "parse_run_state (wr_state ex_run_row) = Some R_FAILED" by code_simp+
  moreover have "gw_active (ex_engine ex_left) = False" by (simp add: ex_engine_def)
  ultimately have "fst ex_resume = Inr ()"
    using easy_drive[OF ex_willing_easy ex_left_reads(3)] ex_left_reads(1)
    by (simp add: ex_resume_def resume_run_def rebuild_record_def Let_def)
  then show ?thesis by (simp add: prod_eq_iff)
qed

theorem resume_runs_no_finished_step_witness:
  "list_all (\<lambda>c. fst c = ''b'') (gw_calls (snd ex_resume)) \<and> length (gw_calls (snd ex_resume)) \<le> 5"
proof -
  obtain css where css: "gw_calls (snd ex_resume) = gw_calls (ex_engine ex_left) @ concat css"
    "list_all2 (\<lambda>s cs. (\<forall>c \<in> set cs. fst c = wp_id s) \<and> length cs \<le> Suc (max_attempts s)
      \<and> ((\<exists>q \<in> set (get_steps ''r1'' (journal_of (ex_engine ex_left))). ws_step_id q = wp_id s
            \<and> ws_state q \<in> {''completed'', ''completed_unvalidated''}) \<longrightarrow> cs = [])) (sp_steps ex_flow) css"
    using resume_runs_no_finished_step[OF ex_resume_ends[unfolded ex_resume_def] ex_left_reads(1) refl ex_left_reads(3,2)]
    by (auto simp: ex_resume_def)
  have kept: "\<exists>q \<in> set (get_steps ''r1'' ex_left). ws_step_id q = ''a'' \<and> ws_state q \<in> {''completed'', ''completed_unvalidated''}"
    by code_simp
  have "journal_of (ex_engine ex_left) = ex_left" "gw_calls (ex_engine ex_left) = []" by (simp_all add: ex_engine_def)
  then obtain cb where "gw_calls (snd ex_resume) = cb" "\<forall>c \<in> set cb. fst c = ''b''" "length cb \<le> 5"
    using css kept unfolding ex_flow_steps(1) list_all2_Cons1 by (auto simp: ex_flow_steps)
  then show ?thesis unfolding list_all_iff by blast
qed

theorem resumed_run_settles_witness:
  "settled_run (sp_steps ex_flow) (snd ex_resume) \<and> \<not> gw_active (snd ex_resume)"
proof -
  have "\<forall>n. gw_clock (ex_engine ex_left) \<le> n \<and> n \<le> gw_clock (ex_engine ex_left) + 2 \<longrightarrow> honest ex_willing n"
    using ex_honest by blast
  from resumed_run_settles[OF ex_resume_ends[unfolded ex_resume_def] ex_left_reads(1) refl ex_left_reads(3,2) this]
  show ?thesis by (simp add: ex_resume_def)
qed

section \<open>Runs that break off\<close>

lemma uncancelled:
  assumes "\<forall>n. po_env p n \<noteq> Cancel"
  shows "cancelled (pause p w) = cancelled w" "cancelled (best_effort p f w) = cancelled w" "cancelled (emit p e x w) = cancelled w"
proof -
  have pa: "cancelled (pause p w) = cancelled w" for w
    using assms[rule_format, of "gw_clock w"] by (auto simp: pause_def Let_def await_cancelling_def split: env_action.splits)
  show "cancelled (pause p w) = cancelled w" "cancelled (best_effort p f w) = cancelled w" "cancelled (emit p e x w) = cancelled w"
    by (simp_all add: pa best_effort_def emit_def Let_def)
qed

definition ex_broken :: workflow_spec where
  "ex_broken = (ex_spec []) \<lparr> sp_steps := [(ex_step ''a'') \<lparr> wp_prompt := ''{{nope}}'' \<rparr>] \<rparr>"

lemma substitute_nope: "substitute ''{{nope}}'' r = Inl WF_EngineError"
  by (simp add: substitute_def placeholder_def startswith_def Let_def plain_char_def strip_def resolve_ref_def input_ref_def step_ref_def)

lemma broken_step:
  assumes "\<not> cancelled (start_step p s w)" and "wp_prompt s = ''{{nope}}''" and "max_attempts s = Suc n"
  shows "engine_step p digest s w = (Inl WF_EngineError, begin_attempt p s 1 (start_step p s w))"
  using assms by (simp add: engine_step_def substitute_nope Let_def)

lemma uncancelled_start:
  "\<forall>n. po_env p n \<noteq> Cancel \<Longrightarrow> cancelled (start_step p s w) = cancelled w"
  by (simp add: start_step_def Let_def uncancelled journal_current_step_def journal_step_def)

lemma broken_drive:
  assumes "\<forall>n. po_env p n \<noteq> Cancel" and "\<not> cancelled w" and "ys_state (step_of (wp_id s) w) = S_PENDING"
    and "wp_prompt s = ''{{nope}}''" and "wp_retries s = None"
  shows "drive p digest (s # rest) w = (Inl WF_EngineError, settle_engine_error p (begin_attempt p s 1 (start_step p s w)))"
proof -
  have "max_attempts s = Suc 3" using assms(5) by (simp add: max_attempts_def WORKFLOW_DEFAULT_STEP_RETRIES_def)
  from broken_step[OF _ assms(4) this] show ?thesis
    using assms(2,3) uncancelled_start[OF assms(1)] by (simp add: drive_def)
qed

lemma ex_broken_ends: "ex_started ex_willing ex_broken = (Inl WF_EngineError, snd (ex_started ex_willing ex_broken))"
proof -
  let ?s = "(ex_step ''a'') \<lparr> wp_prompt := ''{{nope}}'' \<rparr>"
  let ?v = "announced ex_willing (\<lambda>_. ''spec'') (opened ex_willing ex_broken [] ''r1'' (ex_engine empty_journal))"
  have facts: "valid_key_part ''r1''" "validate_inputs Inr [] [] = Inr []" "run_id_available False True ''r1'' empty_journal"
    "distinct (map wp_id (sp_steps ex_broken))"
    by code_simp+
  have s: "sp_inputs ex_broken = []" "sp_mode ex_broken = Sequential" "sp_steps ex_broken = [?s]"
    by (simp_all add: ex_broken_def ex_spec_def)
  have hushed: "\<forall>n. po_env ex_willing n \<noteq> Cancel" by (simp add: ex_willing_def ex_run_ports_def)
  have nc: "\<not> cancelled ?v"
    by (simp add: announced_def journal_insert_run_def run_event_def uncancelled[OF hushed] opened_def new_record_def)
  have pend: "ys_state (step_of (wp_id ?s) ?v) = S_PENDING"
    by (simp add: step_of_def opened_def new_record_def s) (simp add: pending_step_def)
  have "drive ex_willing id (sp_steps ex_broken) ?v = (Inl WF_EngineError, settle_engine_error ex_willing (begin_attempt ex_willing ?s 1 (start_step ex_willing ?s ?v)))"
    unfolding s(3) by (rule broken_drive[OF hushed nc pend]) (simp_all add: ex_step_def)
  then have "fst (guarded_drive ex_willing id ex_broken ?v) = Inl WF_EngineError"
    by (simp add: guarded_in_order[OF facts(4)])
  then have "fst (ex_started ex_willing ex_broken) = Inl WF_EngineError"
    using facts(1-3) s(1,2) by (simp add: ex_started_def start_run_def ex_engine_def announced_def opened_def Let_def)
  then show ?thesis by (simp add: prod_eq_iff)
qed

theorem engine_error_settles_witness:
  "yr_state (gw_rec (snd (ex_started ex_willing ex_broken))) = R_FAILED
    \<and> at_rest_or_pending ''a'' (snd (ex_started ex_willing ex_broken))"
proof -
  have "validate_inputs Inr (sp_inputs ex_broken) [] = Inr []" "validate_grammar (\<lambda>_. True) ex_broken = Inr ex_broken"
    by code_simp+
  from engine_error_settles[OF ex_broken_ends[unfolded ex_started_def] this ex_honest]
  show ?thesis by (simp add: ex_started_def ex_broken_def ex_step_def)
qed

section \<open>What is left open\<close>

text \<open>At an engine error the record says failed and the row of the step still says running.\<close>

lemma engine_error_leaves_row_running:
  assumes "\<forall>n. po_env p n \<noteq> Cancel" and "\<forall>n. po_ok p n" and "\<not> cancelled w" and "has_row (wp_id s) w"
    and "present (wp_id s) w" and "ys_state (step_of (wp_id s) w) = S_PENDING"
    and "wp_prompt s = ''{{nope}}''" and "wp_retries s = None" and "drive p digest (s # rest) w = (r, w')"
  shows "ys_state (step_of (wp_id s) w') = S_FAILED
    \<and> map_option ws_state (get_step (run_id_of w) (wp_id s) (journal_of w')) = Some ''running''"
proof -
  have w': "w' = settle_engine_error p (begin_attempt p s 1 (start_step p s w))"
    using broken_drive[OF assms(1,3,6,7,8)] assms(9) by simp
  have cur: "yr_current (gw_rec (begin_attempt p s 1 (start_step p s w))) = Some (wp_id s)"
    by (simp add: begin_attempt_def start_step_def Let_def)
  have "present (wp_id s) (begin_attempt p s 1 (start_step p s w))"
    "\<not> finished (ys_state (step_of (wp_id s) (begin_attempt p s 1 (start_step p s w))))"
    using assms(5) by (auto simp: begin_attempt_def start_step_def Let_def step_of_def)
  then have "ys_state (step_of (wp_id s) w') = S_FAILED"
    unfolding w' using cur by (auto simp: settle_engine_error_def Let_def step_of_def)
  moreover have "map_option ws_state (get_step (run_id_of w) (wp_id s) (journal_of w')) = Some ''running''"
    unfolding w' using assms(2,4,5)
    by (auto simp: settle_engine_error_def Let_def begin_attempt_def start_step_def get_step_journal_step has_row_def step_of_def
        split: option.splits)
  ultimately show ?thesis by simp
qed

text \<open>An engine error does not wait for the write of the cancelling state: when that write is still outstanding it
  lands last, and the journal shows a cancelling run where memory shows a failed one.\<close>

lemma cancelling_overwrites_engine_error:
  assumes "gw_cancelling_task w" and "\<forall>n. po_env p n = Quiet" and "\<forall>n. po_ok p n" and "has_run w"
  shows "yr_state (gw_rec (end_drive p (settle_engine_error p w))) = R_FAILED
    \<and> map_option wr_state (get_run_row (run_id_of w) (journal_of (end_drive p (settle_engine_error p w)))) = Some ''cancelling''"
proof -
  have q: "pause p v = v \<lparr> gw_clock := Suc (gw_clock v) \<rparr>" for v using assms(2) by (simp add: pause_def)
  define w1 where "w1 = settle_engine_error p w"
  have w1: "gw_cancelling_task w1" "yr_state (gw_rec w1) = R_FAILED" "run_id_of w1 = run_id_of w"
    "get_run_row (run_id_of w) (journal_of w1) \<noteq> None"
    using assms(1,4)
    by (auto simp: w1_def settle_engine_error_def Let_def journal_run_state_def journal_current_step_def best_effort_def q
        run_event_def emit_def has_run_def get_run_row_update split: option.splits)
  then show ?thesis
    unfolding w1_def[symmetric] using assms(3)
    by (auto simp: end_drive_def await_cancelling_def get_run_row_update)
qed

text \<open>An exception of the agent runner that is no step error passes every handler: the drive is over, and the record
  is left running, without a finish time.\<close>

lemma unexpected_error_strands_run:
  assumes "\<forall>n. po_env p n = Quiet" and "\<forall>n. tu_reply (po_agent p n) = Reply_Raises" and "live w" and "\<not> cancelled w"
    and "yr_finished_at (gw_rec w) = None" and "ys_state (step_of (wp_id s) w) = S_PENDING" and "wp_prompt s = ''go''"
    and "wp_retries s = None" and "drive p digest (s # rest) w = (r, w')"
  shows "r = Inl WF_RuntimeError \<and> yr_state (gw_rec (end_drive p w')) = R_RUNNING \<and> \<not> gw_active (end_drive p w')
    \<and> yr_finished_at (gw_rec (end_drive p w')) = None"
proof -
  have hushed: "\<forall>n. po_env p n \<noteq> Cancel" using assms(1) by simp
  have max: "max_attempts s = Suc 3" using assms(8) by (simp add: max_attempts_def WORKFLOW_DEFAULT_STEP_RETRIES_def)
  let ?b = "begin_attempt p s 1 (start_step p s w)"
  define v where "v = snd (agent_call p (wp_id s) ''go'' ?b)"
  have call: "agent_call p (wp_id s) ''go'' ?b = (Reply_Raises, v)" using assms(2) by (simp add: v_def agent_call_def Let_def)
  have "run_attempts (Suc n) p digest s 1 None (start_step p s w) = (Inl WF_RuntimeError, v)" for n
    using assms(4) by (simp add: uncancelled_start[OF hushed] assms(7) substitute_go Let_def attempt_body_def call)
  then have "engine_step p digest s w = (Inl WF_RuntimeError, v)" unfolding engine_step_def max .
  then have d: "r = Inl WF_RuntimeError \<and> w' = v" using assms(4,6,9) by (simp add: drive_def)
  have "hears p w v" unfolding v_def
    by (rule hears.calls[OF hears.settles(5)[OF hears.settles(6)[OF hears_refl]]])
  then have "live v" using assms(3) by (simp add: hears_def)
  moreover have "\<not> cancelled v"
    using assms(4) by (simp add: v_def agent_call_def Let_def uncancelled[OF hushed] begin_attempt_def uncancelled_start[OF hushed])
  moreover have "yr_finished_at (gw_rec v) = None"
    using assms(5) by (simp add: v_def agent_call_def Let_def begin_attempt_def start_step_def)
  ultimately show ?thesis using d by (simp add: end_drive_rec live_def) (simp add: end_drive_def)
qed

text \<open>A template takes the output of a step whether it was validated or not.\<close>

lemma template_takes_any_output:
  assumes "yr_steps r ''a'' = Some st" and "ys_output st = Some out" and "map_of (so_output out) ''x'' = Some v"
  shows "substitute ''{{steps.a.output.x}}'' r = Inr (str_of v)"
proof -
  have "input_ref ''steps.a.output.x'' = None" "step_ref ''steps.a.output.x'' = Some (''a'', ''x'')"
    "placeholder ''{{steps.a.output.x}}'' = Some (''steps.a.output.x'', [])"
    by code_simp+
  then show ?thesis using assms by (simp add: substitute_def resolve_ref_def)
qed

text \<open>The corrective prompt goes to a fresh terminal with the template of the step as it was written: its
  placeholders are not resolved.\<close>

lemma reprompt_keeps_placeholders:
  assumes "wp_prompt s = ''use {{steps.a.output.x}}''"
  shows "take 26 (reprompt_prompt s) = ''use {{steps.a.output.x}}\<newline>\<newline>''"
  using assms by (simp add: reprompt_prompt_def)

end
