(* ===== verification/Send_Intent.thy ===== *)
theory Send_Intent
  imports CAO_Prelude
begin

text \<open>
  The durable send-intent record of \<open>chatgpt_web_runner/send_intent.py\<close>: one JSON file per attempt, replaced
  atomically, and the object of the class \<open>SendIntentLog\<close> that holds it in memory. A method first changes the
  record in memory and then writes it; the write may fail, which leaves the file as it was and the change in
  memory. The instants are arguments, the file is a value (its JSON text is not modelled), and the prose of
  the exceptions is left out.
\<close>

section \<open>States\<close>

datatype intent_state = I_PENDING | I_DISPATCHED | I_OBSERVED

fun intent_value :: "intent_state \<Rightarrow> string" where
  "intent_value I_PENDING = ''pending''"
| "intent_value I_DISPATCHED = ''dispatched''"
| "intent_value I_OBSERVED = ''observed''"

datatype attempt_state =
    A_LOCKED | A_OWNED_BROWSER_READY | A_CONNECTOR_READY | A_INPUT_READY | A_INTERCEPT_ARMED | A_SEND_INTENT
  | A_RELAY_BOUND_OR_SKIPPED | A_COMPOSER_MINT_TRIGGERED | A_REQUEST_HELD | A_MINT_RESERVED | A_PYTHON_POST_INVOKED
  | A_RAW_SSE_RELAY | A_GET_VERIFY | A_BROWSER_FULFIL | A_VALIDATE_PUBLISH | A_ABANDONED_PRE_INVOKE | A_ACK_UNKNOWN
  | A_ERROR

fun attempt_value :: "attempt_state \<Rightarrow> string" where
  "attempt_value A_LOCKED = ''LOCKED''"
| "attempt_value A_OWNED_BROWSER_READY = ''OWNED_BROWSER_READY''"
| "attempt_value A_CONNECTOR_READY = ''CONNECTOR_READY''"
| "attempt_value A_INPUT_READY = ''INPUT_READY''"
| "attempt_value A_INTERCEPT_ARMED = ''INTERCEPT_ARMED''"
| "attempt_value A_SEND_INTENT = ''SEND_INTENT''"
| "attempt_value A_RELAY_BOUND_OR_SKIPPED = ''RELAY_BOUND_OR_SKIPPED''"
| "attempt_value A_COMPOSER_MINT_TRIGGERED = ''COMPOSER_MINT_TRIGGERED''"
| "attempt_value A_REQUEST_HELD = ''REQUEST_HELD''"
| "attempt_value A_MINT_RESERVED = ''MINT_RESERVED''"
| "attempt_value A_PYTHON_POST_INVOKED = ''PYTHON_POST_INVOKED''"
| "attempt_value A_RAW_SSE_RELAY = ''RAW_SSE_RELAY''"
| "attempt_value A_GET_VERIFY = ''GET_VERIFY''"
| "attempt_value A_BROWSER_FULFIL = ''BROWSER_FULFIL''"
| "attempt_value A_VALIDATE_PUBLISH = ''VALIDATE/PUBLISH''"
| "attempt_value A_ABANDONED_PRE_INVOKE = ''ABANDONED_PRE_INVOKE''"
| "attempt_value A_ACK_UNKNOWN = ''ACK_UNKNOWN''"
| "attempt_value A_ERROR = ''ERROR''"

definition TERMINAL_ATTEMPT_STATES :: "string set" where
  "TERMINAL_ATTEMPT_STATES = {attempt_value A_ABANDONED_PRE_INVOKE, attempt_value A_ACK_UNKNOWN, attempt_value A_ERROR,
     attempt_value A_VALIDATE_PUBLISH}"

definition MAX_RECOVERIES :: int where "MAX_RECOVERIES = 1"
definition SCHEMA_VERSION :: int where "SCHEMA_VERSION = 1"

section \<open>The record\<close>

text \<open>The states are texts, as on disk: a record that was read back may hold any.\<close>

record intent_record =
  ir_run_id :: string
  ir_attempt_id :: string
  ir_prompt_sha :: string
  ir_state :: string
  ir_schema_version :: int
  ir_submits_dispatched :: int
  ir_sends_observed :: int
  ir_recoveries_used :: int
  ir_mints :: int
  ir_re_exports :: int
  ir_created_at :: time
  ir_updated_at :: time
  ir_deadline_at :: "time option"
  ir_notes :: "string list"
  ir_attempt_state :: string
  ir_profile_epoch :: "string option"
  ir_mint_id :: "string option"
  ir_mint_ordinal :: int
  ir_relay_token_hash :: "string option"
  ir_relay_token_expires_at :: "time option"
  ir_bound_at :: "time option"
  ir_subscriber_id :: "string option"
  ir_skipped_at :: "time option"
  ir_pre_send_conversation_id :: "string option"
  ir_pre_send_current_node :: "string option"
  ir_attempt_nonce :: "string option"
  ir_body_sha256 :: "string option"
  ir_header_names :: "string list"
  ir_page_generation :: "int option"
  ir_context_generation :: "int option"
  ir_cdp_session_generation :: "int option"
  ir_reserved_at :: "time option"
  ir_invoked_at :: "time option"
  ir_route_disposition :: "string option"
  ir_page_disposition :: "string option"
  ir_absence_observed :: bool
  ir_irreconcilable :: bool
  ir_supersedes_unresolved :: "string option"
  ir_relay_status :: "string option"
  ir_connector_public_base_url :: "string option"
  ir_connector_pairing_code_sha256 :: "string option"
  ir_connector_pairing_issued_at :: "time option"
  ir_connector_pairing_expires_at :: "time option"
  ir_connector_auth_reused :: "bool option"
  ir_verified_node_id :: "string option"
  ir_conversation_digest :: "string option"
  ir_fulfilled_at :: "time option"

definition fresh_record :: "time \<Rightarrow> string \<Rightarrow> string \<Rightarrow> string \<Rightarrow> intent_record" where
  "fresh_record now run_id attempt_id prompt_sha =
     \<lparr> ir_run_id = run_id, ir_attempt_id = attempt_id, ir_prompt_sha = prompt_sha, ir_state = intent_value I_PENDING,
       ir_schema_version = SCHEMA_VERSION, ir_submits_dispatched = 0, ir_sends_observed = 0, ir_recoveries_used = 0,
       ir_mints = 0, ir_re_exports = 0, ir_created_at = now, ir_updated_at = now, ir_deadline_at = None, ir_notes = [],
       ir_attempt_state = attempt_value A_LOCKED, ir_profile_epoch = None, ir_mint_id = None, ir_mint_ordinal = 1,
       ir_relay_token_hash = None, ir_relay_token_expires_at = None, ir_bound_at = None, ir_subscriber_id = None,
       ir_skipped_at = None, ir_pre_send_conversation_id = None, ir_pre_send_current_node = None,
       ir_attempt_nonce = None, ir_body_sha256 = None, ir_header_names = [], ir_page_generation = None,
       ir_context_generation = None, ir_cdp_session_generation = None, ir_reserved_at = None, ir_invoked_at = None,
       ir_route_disposition = None, ir_page_disposition = None, ir_absence_observed = False,
       ir_irreconcilable = False, ir_supersedes_unresolved = None, ir_relay_status = None,
       ir_connector_public_base_url = None, ir_connector_pairing_code_sha256 = None,
       ir_connector_pairing_issued_at = None, ir_connector_pairing_expires_at = None,
       ir_connector_auth_reused = None, ir_verified_node_id = None, ir_conversation_digest = None,
       ir_fulfilled_at = None \<rparr>"

section \<open>The file and the object\<close>

text \<open>What the file holds: nothing, a text that cannot be read or parsed, an object without a \<open>schema_version\<close>, or the
  fields of a record. (An object with the right version and without the three identifiers is not modelled.)\<close>

datatype intent_file = No_File | Unreadable | No_Version | Written intent_record

record intent_log =
  il_file :: intent_file
  il_record :: "intent_record option"

datatype intent_error = SendIntentViolation | WriteFailed

type_synonym 'a intent_result = "(intent_error + 'a) \<times> intent_log"

text \<open>\<open>_write\<close>: the instant is set, then the file is replaced and the object points at the record, or the write fails.\<close>

definition write_record :: "bool \<Rightarrow> time \<Rightarrow> intent_record \<Rightarrow> intent_log \<Rightarrow> intent_record intent_result" where
  "write_record ok now rec l =
     (let r = rec \<lparr> ir_updated_at := now \<rparr> in
      if ok then (Inr r, \<lparr> il_file = Written r, il_record = Some r \<rparr>)
      else (Inl WriteFailed, l))"

text \<open>The record in memory is changed in place and written: if the write fails the change stays in memory.\<close>

definition commit :: "bool \<Rightarrow> time \<Rightarrow> intent_record \<Rightarrow> intent_log \<Rightarrow> intent_record intent_result" where
  "commit ok now rec l = write_record ok now rec (l \<lparr> il_record := Some (rec \<lparr> ir_updated_at := now \<rparr>) \<rparr>)"

text \<open>The property \<open>record\<close>.\<close>

definition with_record :: "(intent_record \<Rightarrow> intent_log \<Rightarrow> 'a intent_result) \<Rightarrow> intent_log \<Rightarrow> 'a intent_result" where
  "with_record f l = (case il_record l of None \<Rightarrow> (Inl SendIntentViolation, l) | Some rec \<Rightarrow> f rec l)"

definition open_attempt ::
  "bool \<Rightarrow> time \<Rightarrow> string \<Rightarrow> string \<Rightarrow> string \<Rightarrow> time option \<Rightarrow> string option \<Rightarrow> string option \<Rightarrow> int
     \<Rightarrow> string option \<Rightarrow> time option \<Rightarrow> string option \<Rightarrow> intent_log \<Rightarrow> intent_record intent_result"
where
  "open_attempt ok now run_id attempt_id prompt_sha deadline epoch mint ordinal token token_expires supersedes l =
     write_record ok now ((fresh_record now run_id attempt_id prompt_sha) \<lparr> ir_deadline_at := deadline,
       ir_profile_epoch := epoch, ir_mint_id := mint, ir_mint_ordinal := ordinal, ir_relay_token_hash := token,
       ir_relay_token_expires_at := token_expires, ir_supersedes_unresolved := supersedes \<rparr>) l"

definition create_locked_attempt ::
  "bool \<Rightarrow> time \<Rightarrow> string \<Rightarrow> string \<Rightarrow> string \<Rightarrow> time \<Rightarrow> string \<Rightarrow> string \<Rightarrow> int \<Rightarrow> string \<Rightarrow> time \<Rightarrow> string option
     \<Rightarrow> intent_log \<Rightarrow> intent_record intent_result"
where
  "create_locked_attempt ok now run_id attempt_id prompt_sha deadline epoch mint ordinal token token_expires supersedes l =
     (if il_file l \<noteq> No_File then (Inl SendIntentViolation, l)
      else open_attempt ok now run_id attempt_id prompt_sha (Some deadline) (Some epoch) (Some mint) ordinal (Some token)
             (Some token_expires) supersedes l)"

text \<open>\<open>load\<close>\<close>

definition load_record :: "intent_log \<Rightarrow> intent_record option intent_result" where
  "load_record l =
     (case il_file l of
        No_File \<Rightarrow> (Inr None, l)
      | Unreadable \<Rightarrow> (Inl SendIntentViolation, l)
      | No_Version \<Rightarrow> (Inl SendIntentViolation, l)
      | Written rec \<Rightarrow>
          if ir_schema_version rec \<noteq> SCHEMA_VERSION then (Inl SendIntentViolation, l)
          else (Inr (Some rec), l \<lparr> il_record := Some rec \<rparr>))"

section \<open>Attempt states\<close>

text \<open>The keyword arguments of \<open>transition\<close>, in their order: a field other than the token hash, the token hash, or a
  name that is no field. What was set before a refusal stays set in memory.\<close>

datatype named_field = Field "intent_record \<Rightarrow> intent_record" | Relay_Token_Hash "string option" | Unknown_Field

fun set_fields :: "named_field list \<Rightarrow> intent_record \<Rightarrow> bool \<times> intent_record" where
  "set_fields [] rec = (True, rec)"
| "set_fields (Field f # fs) rec = set_fields fs (f rec)"
| "set_fields (Relay_Token_Hash v # fs) rec =
     (if ir_relay_token_hash rec \<noteq> None \<and> ir_relay_token_hash rec \<noteq> v then (False, rec)
      else set_fields fs (rec \<lparr> ir_relay_token_hash := v \<rparr>))"
| "set_fields (Unknown_Field # fs) rec = (False, rec)"

definition attempt_transition :: "bool \<Rightarrow> time \<Rightarrow> attempt_state \<Rightarrow> named_field list \<Rightarrow> intent_log \<Rightarrow> intent_record intent_result" where
  "attempt_transition ok now st named =
     with_record (\<lambda>rec l.
       if ir_attempt_state rec \<in> TERMINAL_ATTEMPT_STATES then (Inl SendIntentViolation, l)
       else
         (case set_fields named rec of
            (False, rec') \<Rightarrow> (Inl SendIntentViolation, l \<lparr> il_record := Some rec' \<rparr>)
          | (True, rec') \<Rightarrow> commit ok now (rec' \<lparr> ir_attempt_state := attempt_value st \<rparr>) l))"

definition record_send_intent ::
  "bool \<Rightarrow> time \<Rightarrow> string option \<Rightarrow> string option \<Rightarrow> string \<Rightarrow> intent_log \<Rightarrow> intent_record intent_result"
where
  "record_send_intent ok now conversation node nonce l =
     (if nonce = [] then (Inl SendIntentViolation, l)
      else attempt_transition ok now A_SEND_INTENT
             [Field (ir_pre_send_conversation_id_update (\<lambda>_. conversation)),
              Field (ir_pre_send_current_node_update (\<lambda>_. node)), Field (ir_attempt_nonce_update (\<lambda>_. Some nonce))] l)"

definition record_relay_bound :: "bool \<Rightarrow> time \<Rightarrow> string \<Rightarrow> time \<Rightarrow> intent_log \<Rightarrow> intent_record intent_result" where
  "record_relay_bound ok now subscriber bound =
     with_record (\<lambda>rec l.
       if ir_bound_at rec \<noteq> None \<or> ir_subscriber_id rec \<noteq> None then (Inl SendIntentViolation, l)
       else if ir_skipped_at rec \<noteq> None \<or> ir_reserved_at rec \<noteq> None then (Inl SendIntentViolation, l)
       else attempt_transition ok now A_RELAY_BOUND_OR_SKIPPED
              [Field (ir_subscriber_id_update (\<lambda>_. Some subscriber)), Field (ir_bound_at_update (\<lambda>_. Some bound))] l)"

definition record_relay_skipped :: "bool \<Rightarrow> time \<Rightarrow> time \<Rightarrow> intent_log \<Rightarrow> intent_record intent_result" where
  "record_relay_skipped ok now skipped =
     with_record (\<lambda>rec l.
       if ir_bound_at rec \<noteq> None then (Inl SendIntentViolation, l)
       else attempt_transition ok now A_RELAY_BOUND_OR_SKIPPED [Field (ir_skipped_at_update (\<lambda>_. Some skipped))] l)"

text \<open>\<open>str.lower\<close> on the first 256 characters.\<close>

definition lower_char :: "char \<Rightarrow> char" where
  "lower_char c = (let n = of_char c :: nat in
     if 65 \<le> n \<and> n \<le> 90 \<or> 192 \<le> n \<and> n \<le> 222 \<and> n \<noteq> 215 then char_of (n + 32) else c)"

definition record_request_held ::
  "bool \<Rightarrow> time \<Rightarrow> string \<Rightarrow> string list \<Rightarrow> int \<Rightarrow> int \<Rightarrow> int \<Rightarrow> intent_log \<Rightarrow> intent_record intent_result"
where
  "record_request_held ok now body names page context_gen cdp =
     attempt_transition ok now A_REQUEST_HELD
       [Field (ir_body_sha256_update (\<lambda>_. Some body)),
        Field (ir_header_names_update (\<lambda>_. sort (remdups (map (map lower_char) names)))),
        Field (ir_page_generation_update (\<lambda>_. Some page)), Field (ir_context_generation_update (\<lambda>_. Some context_gen)),
        Field (ir_cdp_session_generation_update (\<lambda>_. Some cdp))]"

definition MINT_SPENT_STATES :: "string set" where
  "MINT_SPENT_STATES = {attempt_value A_MINT_RESERVED, attempt_value A_PYTHON_POST_INVOKED, attempt_value A_RAW_SSE_RELAY,
     attempt_value A_GET_VERIFY, attempt_value A_BROWSER_FULFIL}"

definition reserve_mint :: "bool \<Rightarrow> time \<Rightarrow> time \<Rightarrow> intent_log \<Rightarrow> intent_record intent_result" where
  "reserve_mint ok now reserved =
     with_record (\<lambda>rec l.
       if ir_reserved_at rec \<noteq> None \<or> ir_attempt_state rec \<in> MINT_SPENT_STATES then (Inl SendIntentViolation, l)
       else attempt_transition ok now A_MINT_RESERVED [Field (ir_reserved_at_update (\<lambda>_. Some reserved))] l)"

definition record_python_post_invoked :: "bool \<Rightarrow> time \<Rightarrow> time \<Rightarrow> intent_log \<Rightarrow> intent_record intent_result" where
  "record_python_post_invoked ok now invoked =
     with_record (\<lambda>rec l.
       if ir_attempt_state rec \<noteq> attempt_value A_MINT_RESERVED \<or> ir_reserved_at rec = None then (Inl SendIntentViolation, l)
       else if ir_invoked_at rec \<noteq> None then (Inl SendIntentViolation, l)
       else attempt_transition ok now A_PYTHON_POST_INVOKED [Field (ir_invoked_at_update (\<lambda>_. Some invoked))] l)"

definition record_ack_unknown ::
  "bool \<Rightarrow> time \<Rightarrow> string option \<Rightarrow> string \<Rightarrow> bool \<Rightarrow> bool \<Rightarrow> intent_log \<Rightarrow> intent_record intent_result"
where
  "record_ack_unknown ok now route page absence irreconcilable l =
     (if page \<notin> {''quarantined'', ''closed'', ''live''} then (Inl SendIntentViolation, l)
      else attempt_transition ok now A_ACK_UNKNOWN
             [Field (ir_route_disposition_update (\<lambda>_. route)), Field (ir_page_disposition_update (\<lambda>_. Some page)),
              Field (ir_absence_observed_update (\<lambda>_. absence)), Field (ir_irreconcilable_update (\<lambda>_. irreconcilable))] l)"

definition record_abandoned_pre_invoke :: "bool \<Rightarrow> time \<Rightarrow> string \<Rightarrow> string \<Rightarrow> intent_log \<Rightarrow> intent_record intent_result" where
  "record_abandoned_pre_invoke ok now route page l =
     (if route \<noteq> ''aborted'' then (Inl SendIntentViolation, l)
      else if page \<notin> {''quarantined'', ''closed''} then (Inl SendIntentViolation, l)
      else attempt_transition ok now A_ABANDONED_PRE_INVOKE
             [Field (ir_route_disposition_update (\<lambda>_. Some route)), Field (ir_page_disposition_update (\<lambda>_. Some page))] l)"

definition can_fresh_same_turn_mint :: "intent_record \<Rightarrow> bool" where
  "can_fresh_same_turn_mint rec \<longleftrightarrow>
     ir_attempt_state rec = attempt_value A_ABANDONED_PRE_INVOKE \<and> ir_route_disposition rec = Some ''aborted''
     \<and> ir_page_disposition rec \<in> {Some ''quarantined'', Some ''closed''}"

datatype restart_action =
    Restart_From_Locked | Ack_Unknown_Reconcile_Never_Mint | Get_Reconcile_Mint_Spent | Resume_Get_Verify
  | Reload_Compare_Never_Fulfil | Terminal_Action

definition restart_action_of :: "intent_record \<Rightarrow> restart_action" where
  "restart_action_of rec =
     (let st = ir_attempt_state rec in
      if st \<in> set (map attempt_value [A_LOCKED, A_OWNED_BROWSER_READY, A_CONNECTOR_READY, A_INPUT_READY, A_INTERCEPT_ARMED])
        then Restart_From_Locked
      else if st \<in> set (map attempt_value [A_SEND_INTENT, A_RELAY_BOUND_OR_SKIPPED, A_COMPOSER_MINT_TRIGGERED, A_REQUEST_HELD])
        then Ack_Unknown_Reconcile_Never_Mint
      else if st \<in> set (map attempt_value [A_MINT_RESERVED, A_PYTHON_POST_INVOKED, A_RAW_SSE_RELAY])
        then Get_Reconcile_Mint_Spent
      else if st = attempt_value A_GET_VERIFY then Resume_Get_Verify
      else if st = attempt_value A_BROWSER_FULFIL then Reload_Compare_Never_Fulfil
      else Terminal_Action)"

section \<open>The submit action\<close>

definition may_dispatch_submit :: "intent_record \<Rightarrow> bool" where
  "may_dispatch_submit rec \<longleftrightarrow> ir_state rec = intent_value I_PENDING"

definition record_submit_dispatch :: "bool \<Rightarrow> time \<Rightarrow> intent_log \<Rightarrow> intent_record intent_result" where
  "record_submit_dispatch ok now =
     with_record (\<lambda>rec l.
       if ir_state rec \<noteq> intent_value I_PENDING then (Inl SendIntentViolation, l)
       else
         let rec1 = rec \<lparr> ir_state := intent_value I_DISPATCHED, ir_submits_dispatched := ir_submits_dispatched rec + 1 \<rparr>;
             rec2 = (if ir_attempt_state rec \<in> set (map attempt_value [A_LOCKED, A_INTERCEPT_ARMED, A_SEND_INTENT, A_RELAY_BOUND_OR_SKIPPED])
                     then rec1 \<lparr> ir_attempt_state := attempt_value A_COMPOSER_MINT_TRIGGERED \<rparr> else rec1)
         in commit ok now rec2 l)"

text \<open>The clock is read for the deadline and again for the write.\<close>

definition demonstrate_non_dispatch :: "bool \<Rightarrow> time \<Rightarrow> time \<Rightarrow> string \<Rightarrow> intent_log \<Rightarrow> intent_record intent_result" where
  "demonstrate_non_dispatch ok checked now evidence =
     with_record (\<lambda>rec l.
       if ir_state rec = intent_value I_OBSERVED then (Inl SendIntentViolation, l)
       else if MAX_RECOVERIES \<le> ir_recoveries_used rec then (Inl SendIntentViolation, l)
       else if (case ir_deadline_at rec of None \<Rightarrow> False | Some deadline \<Rightarrow> deadline < checked) then (Inl SendIntentViolation, l)
       else commit ok now (rec \<lparr> ir_recoveries_used := ir_recoveries_used rec + 1, ir_state := intent_value I_PENDING,
              ir_notes := ir_notes rec @ [take 200 (''non-dispatch demonstrated: '' @ evidence)] \<rparr>) l)"

definition record_send_observed :: "bool \<Rightarrow> time \<Rightarrow> intent_log \<Rightarrow> intent_record intent_result" where
  "record_send_observed ok now =
     with_record (\<lambda>rec l.
       if ir_state rec = intent_value I_PENDING then (Inl SendIntentViolation, l)
       else commit ok now (rec \<lparr> ir_state := intent_value I_OBSERVED, ir_sends_observed := ir_sends_observed rec + 1 \<rparr>) l)"

definition record_mint :: "bool \<Rightarrow> time \<Rightarrow> intent_log \<Rightarrow> intent_record intent_result" where
  "record_mint ok now = with_record (\<lambda>rec. commit ok now (rec \<lparr> ir_mints := ir_mints rec + 1 \<rparr>))"

definition record_re_export :: "bool \<Rightarrow> time \<Rightarrow> intent_log \<Rightarrow> intent_record intent_result" where
  "record_re_export ok now = with_record (\<lambda>rec. commit ok now (rec \<lparr> ir_re_exports := ir_re_exports rec + 1 \<rparr>))"

section \<open>Acceptance and restart\<close>

datatype acceptance_problem = No_Submit_Recorded | No_Send_Observed | Counts_Disagree

definition acceptance_failure :: "intent_record \<Rightarrow> acceptance_problem option" where
  "acceptance_failure rec =
     (if ir_submits_dispatched rec = 0 then Some No_Submit_Recorded
      else if ir_sends_observed rec = 0 then Some No_Send_Observed
      else if ir_submits_dispatched rec \<noteq> ir_sends_observed rec then Some Counts_Disagree
      else None)"

definition counters :: "intent_record \<Rightarrow> (string \<times> int) list" where
  "counters rec = [(''submits_dispatched'', ir_submits_dispatched rec), (''sends_observed'', ir_sends_observed rec),
     (''recoveries_used'', ir_recoveries_used rec), (''mints'', ir_mints rec), (''re_exports'', ir_re_exports rec)]"

text \<open>A new object over the directory of a dead process.\<close>

definition resolve_after_restart :: "intent_file \<Rightarrow> intent_error + intent_record option \<times> bool" where
  "resolve_after_restart file =
     (case load_record \<lparr> il_file = file, il_record = None \<rparr> of
        (Inl e, _) \<Rightarrow> Inl e
      | (Inr None, _) \<Rightarrow> Inr (None, True)
      | (Inr (Some rec), _) \<Rightarrow> Inr (Some rec, may_dispatch_submit rec))"

end
