(* ===== verification/Send_Intent_Promises.thy ===== *)
theory Send_Intent_Promises
  imports Send_Intent
begin

text \<open>
  What the send-intent record promises through write failures and crashes: the runs of one attempt over its file,
  with ghost counters for the actions the callers take after a method has returned (the composer's Enter, the
  reservation of the mint, the origin POST). One object at a time holds the record, as the runner arranges; a
  crash or a hand-over forgets it and the next process loads the file.
\<close>

section \<open>What an operation leaves alone\<close>

type_synonym intent_core = "string \<times> int \<times> int \<times> time option \<times> time option"

definition core :: "intent_record \<Rightarrow> intent_core" where
  "core rec = (ir_state rec, ir_submits_dispatched rec, ir_recoveries_used rec, ir_reserved_at rec, ir_invoked_at rec)"

definition held_records :: "intent_log \<Rightarrow> intent_record set" where
  "held_records l = (case il_file l of Written rec \<Rightarrow> {rec} | _ \<Rightarrow> {}) \<union> set_option (il_record l)"

text \<open>A field that a caller of \<open>transition\<close> may name: not one the other methods own.\<close>

definition plain_field :: "named_field \<Rightarrow> bool" where
  "plain_field nf = (case nf of
     Field f \<Rightarrow> \<forall>rec. core (f rec) = core rec \<and> ir_attempt_state (f rec) = ir_attempt_state rec
   | _ \<Rightarrow> True)"

lemma core_updates [simp]:
  "core (ir_updated_at_update f rec) = core rec" "core (ir_attempt_state_update g rec) = core rec"
  "core (ir_relay_token_hash_update h rec) = core rec" "core (ir_mints_update m rec) = core rec"
  "core (ir_re_exports_update m rec) = core rec"
  by (simp_all add: core_def)

lemma plain_simps [simp]:
  "plain_field (Field (ir_pre_send_conversation_id_update a))" "plain_field (Field (ir_pre_send_current_node_update a))"
  "plain_field (Field (ir_attempt_nonce_update a))" "plain_field (Field (ir_subscriber_id_update a))"
  "plain_field (Field (ir_bound_at_update b))" "plain_field (Field (ir_skipped_at_update b))"
  "plain_field (Field (ir_body_sha256_update a))" "plain_field (Field (ir_header_names_update c))"
  "plain_field (Field (ir_page_generation_update d))" "plain_field (Field (ir_context_generation_update d))"
  "plain_field (Field (ir_cdp_session_generation_update d))" "plain_field (Field (ir_route_disposition_update a))"
  "plain_field (Field (ir_page_disposition_update a))" "plain_field (Field (ir_absence_observed_update e))"
  "plain_field (Field (ir_irreconcilable_update e))"
  by (simp_all add: plain_field_def core_def)

lemma set_fields_plain:
  assumes "list_all plain_field named" "set_fields named rec = (b, rec')"
  shows "core rec' = core rec \<and> ir_attempt_state rec' = ir_attempt_state rec"
  using assms
  by (induction named rec arbitrary: b rec' rule: set_fields.induct)
    (auto simp: plain_field_def split: if_splits)

lemma held_write:
  "held_records (snd (write_record ok now rec l))
     = (if ok then {rec \<lparr> ir_updated_at := now \<rparr>} else held_records l)"
  by (simp add: write_record_def held_records_def Let_def)

lemma held_commit: "held_records (snd (commit ok now rec l)) \<subseteq> insert (rec \<lparr> ir_updated_at := now \<rparr>) (held_records l)"
  by (auto simp: commit_def write_record_def held_records_def Let_def split: intent_file.splits)

lemma held_commit_ok:
  assumes "commit ok now rec l = (Inr r, l')"
  shows "held_records l' = {rec \<lparr> ir_updated_at := now \<rparr>}"
  using assms by (auto simp: commit_def write_record_def held_records_def Let_def split: if_splits)

lemma memory_held: "il_record l = Some rec \<Longrightarrow> rec \<in> held_records l"
  by (simp add: held_records_def)

lemma held_memory: "held_records (l \<lparr> il_record := Some rec \<rparr>) \<subseteq> insert rec (held_records l)"
  by (auto simp: held_records_def split: intent_file.splits)

definition same_cores :: "intent_log \<Rightarrow> intent_log \<Rightarrow> bool" where
  "same_cores l l' \<longleftrightarrow> core ` held_records l' \<subseteq> core ` held_records l"

lemma same_refl [simp]: "same_cores l l"
  by (simp add: same_cores_def)

lemma same_commit:
  assumes "rec \<in> held_records l" "core rec' = core rec"
  shows "same_cores l (snd (commit ok now rec' l))"
  using held_commit [where ok = ok and now = now and rec = rec' and l = l] assms by (force simp: same_cores_def image_subset_iff)

lemma same_memory:
  assumes "rec \<in> held_records l" "core rec' = core rec"
  shows "same_cores l (l \<lparr> il_record := Some rec' \<rparr>)"
  using held_memory [where l = l and rec = rec'] assms by (force simp: same_cores_def image_subset_iff)

lemma same_with_record:
  assumes "\<And>rec. il_record l = Some rec \<Longrightarrow> same_cores l (snd (f rec l))"
  shows "same_cores l (snd (with_record f l))"
  using assms by (simp add: with_record_def split: option.splits)

lemma same_transition:
  assumes "list_all plain_field named"
  shows "same_cores l (snd (attempt_transition ok now st named l))"
  unfolding attempt_transition_def
proof (rule same_with_record)
  fix rec assume "il_record l = Some rec"
  then have "rec \<in> held_records l" by (rule memory_held)
  then show "same_cores l (snd (if ir_attempt_state rec \<in> TERMINAL_ATTEMPT_STATES then (Inl SendIntentViolation, l)
       else (case set_fields named rec of
            (False, rec') \<Rightarrow> (Inl SendIntentViolation, l \<lparr> il_record := Some rec' \<rparr>)
          | (True, rec') \<Rightarrow> commit ok now (rec' \<lparr> ir_attempt_state := attempt_value st \<rparr>) l)))"
    using set_fields_plain [OF assms, of rec]
    by (auto intro!: same_commit same_memory split: prod.splits bool.splits)
qed

lemma same_load: "same_cores l (snd (load_record l))"
  by (auto simp: load_record_def same_cores_def held_records_def split: intent_file.splits)

lemma same_calls:
  "same_cores l (snd (record_send_intent ok now conversation node nonce l))"
  "same_cores l (snd (record_relay_bound ok now subscriber bound l))"
  "same_cores l (snd (record_relay_skipped ok now skipped l))"
  "same_cores l (snd (record_request_held ok now body names page context_gen cdp l))"
  "same_cores l (snd (record_ack_unknown ok now route disposition absence irreconcilable l))"
  "same_cores l (snd (record_abandoned_pre_invoke ok now aroute disposition l))"
  "same_cores l (snd (record_mint ok now l))" "same_cores l (snd (record_re_export ok now l))"
  by (auto simp: record_send_intent_def record_relay_bound_def record_relay_skipped_def record_request_held_def
      record_ack_unknown_def record_abandoned_pre_invoke_def record_mint_def record_re_export_def
      intro!: same_transition same_with_record same_commit memory_held)

section \<open>Runs of an attempt\<close>

text \<open>The ghosts: how often a dispatch, a reservation and a POST were recorded (each is followed by the action), and
  whether a dispatch stands without a later demonstration that the app did not send.\<close>

record intent_world =
  iw_log :: intent_log
  iw_pressed :: int
  iw_open :: bool
  iw_reserved :: int
  iw_posted :: int

definition blank_intent :: intent_world where
  "blank_intent = \<lparr> iw_log = \<lparr> il_file = No_File, il_record = None \<rparr>, iw_pressed = 0, iw_open = False, iw_reserved = 0,
     iw_posted = 0 \<rparr>"

inductive intent_step :: "intent_world \<Rightarrow> intent_world \<Rightarrow> bool" where
  step_create: "intent_step w (w \<lparr> iw_log := snd (create_locked_attempt ok now run_id attempt_id sha deadline epoch mint
      ordinal token expires supersedes (iw_log w)) \<rparr>)"
| step_load: "intent_step w (w \<lparr> iw_log := snd (load_record (iw_log w)) \<rparr>)"
| step_crash: "intent_step w (w \<lparr> iw_log := (iw_log w) \<lparr> il_record := None \<rparr> \<rparr>)"
| step_transition: "list_all plain_field named
    \<Longrightarrow> intent_step w (w \<lparr> iw_log := snd (attempt_transition ok now st named (iw_log w)) \<rparr>)"
| step_send_intent: "intent_step w (w \<lparr> iw_log := snd (record_send_intent ok now conversation node nonce (iw_log w)) \<rparr>)"
| step_bound: "intent_step w (w \<lparr> iw_log := snd (record_relay_bound ok now subscriber bound (iw_log w)) \<rparr>)"
| step_skipped: "intent_step w (w \<lparr> iw_log := snd (record_relay_skipped ok now skipped (iw_log w)) \<rparr>)"
| step_held: "intent_step w (w \<lparr> iw_log := snd (record_request_held ok now body names page context_gen cdp (iw_log w)) \<rparr>)"
| step_ack_unknown:
    "intent_step w (w \<lparr> iw_log := snd (record_ack_unknown ok now route page_d absence irreconcilable (iw_log w)) \<rparr>)"
| step_abandoned: "intent_step w (w \<lparr> iw_log := snd (record_abandoned_pre_invoke ok now aroute page_d (iw_log w)) \<rparr>)"
| step_mint: "intent_step w (w \<lparr> iw_log := snd (record_mint ok now (iw_log w)) \<rparr>)"
| step_re_export: "intent_step w (w \<lparr> iw_log := snd (record_re_export ok now (iw_log w)) \<rparr>)"
| step_observed: "intent_step w (w \<lparr> iw_log := snd (record_send_observed ok now (iw_log w)) \<rparr>)"
| step_dispatched: "record_submit_dispatch ok now (iw_log w) = (Inr rec, l)
    \<Longrightarrow> intent_step w (w \<lparr> iw_log := l, iw_pressed := iw_pressed w + 1, iw_open := True \<rparr>)"
| step_not_dispatched: "record_submit_dispatch ok now (iw_log w) = (Inl e, l) \<Longrightarrow> intent_step w (w \<lparr> iw_log := l \<rparr>)"
| step_demonstrated: "demonstrate_non_dispatch ok checked now evidence (iw_log w) = (res, l)
    \<Longrightarrow> intent_step w (w \<lparr> iw_log := l, iw_open := iw_open w \<and> res = Inl SendIntentViolation \<rparr>)"
| step_reserved: "reserve_mint ok now reserved (iw_log w) = (Inr rec, l)
    \<Longrightarrow> intent_step w (w \<lparr> iw_log := l, iw_reserved := iw_reserved w + 1 \<rparr>)"
| step_not_reserved: "reserve_mint ok now reserved (iw_log w) = (Inl e, l) \<Longrightarrow> intent_step w (w \<lparr> iw_log := l \<rparr>)"
| step_posted: "record_python_post_invoked ok now invoked (iw_log w) = (Inr rec, l)
    \<Longrightarrow> intent_step w (w \<lparr> iw_log := l, iw_posted := iw_posted w + 1 \<rparr>)"
| step_not_posted: "record_python_post_invoked ok now invoked (iw_log w) = (Inl e, l) \<Longrightarrow> intent_step w (w \<lparr> iw_log := l \<rparr>)"

text \<open>What every copy of the record, on disk and in memory, says of the ghosts.\<close>

definition core_good :: "intent_world \<Rightarrow> intent_core \<Rightarrow> bool" where
  "core_good w = (\<lambda>(st, submits, recoveries, reserved, invoked).
     0 \<le> recoveries \<and> recoveries \<le> MAX_RECOVERIES
     \<and> submits \<le> recoveries + (if st = intent_value I_PENDING then 0 else 1)
     \<and> iw_pressed w \<le> submits \<and> (iw_open w \<longrightarrow> st \<noteq> intent_value I_PENDING)
     \<and> (reserved = None \<longrightarrow> iw_reserved w = 0) \<and> (invoked = None \<longrightarrow> iw_posted w = 0))"

text \<open>The file is never taken away; while there is none there is nothing in memory and, as \<open>b\<close>, nothing was done.\<close>

definition tidy :: "bool \<Rightarrow> intent_log \<Rightarrow> bool" where
  "tidy b l \<longleftrightarrow> (il_file l = No_File \<longrightarrow> il_record l = None \<and> b) \<and> il_file l \<notin> {Unreadable, No_Version}"

definition nothing_done :: "intent_world \<Rightarrow> bool" where
  "nothing_done w \<longleftrightarrow> iw_pressed w = 0 \<and> \<not> iw_open w \<and> iw_reserved w = 0 \<and> iw_posted w = 0"

definition intent_inv :: "intent_world \<Rightarrow> bool" where
  "intent_inv w \<longleftrightarrow>
     (\<forall>rec \<in> held_records (iw_log w). core_good w (core rec)) \<and> tidy (nothing_done w) (iw_log w)
     \<and> 0 \<le> iw_pressed w \<and> iw_reserved w \<in> {0, 1} \<and> iw_posted w \<in> {0, 1}"

lemma tidy_commit: "tidy b l \<Longrightarrow> il_record l \<noteq> None \<Longrightarrow> tidy b (snd (commit ok now rec l))"
  by (auto simp: tidy_def commit_def write_record_def Let_def)

lemma tidy_with_record:
  assumes "tidy b l" "\<And>rec. il_record l = Some rec \<Longrightarrow> tidy b (snd (f rec l))"
  shows "tidy b (snd (with_record f l))"
  using assms by (simp add: with_record_def split: option.splits)

lemma tidy_transition: "tidy b l \<Longrightarrow> tidy b (snd (attempt_transition ok now st named l))"
  unfolding attempt_transition_def
  by (rule tidy_with_record, assumption)
    (auto simp: tidy_def commit_def write_record_def Let_def split: prod.splits bool.splits)

lemma tidy_calls:
  assumes "tidy b l"
  shows "tidy b (snd (record_send_intent ok now conversation node nonce l))"
    and "tidy b (snd (record_relay_bound ok now subscriber bound l))"
    and "tidy b (snd (record_relay_skipped ok now skipped l))"
    and "tidy b (snd (record_request_held ok now body names page context_gen cdp l))"
    and "tidy b (snd (record_ack_unknown ok now route disposition absence irreconcilable l))"
    and "tidy b (snd (record_abandoned_pre_invoke ok now aroute disposition l))"
    and "tidy b (snd (record_mint ok now l))" "tidy b (snd (record_re_export ok now l))"
    and "tidy b (snd (record_send_observed ok now l))" "tidy b (snd (record_submit_dispatch ok now l))"
    and "tidy b (snd (demonstrate_non_dispatch ok checked now evidence l))"
    and "tidy b (snd (reserve_mint ok now reserved l))" "tidy b (snd (record_python_post_invoked ok now invoked l))"
    and "tidy b (snd (load_record l))" "tidy b (l \<lparr> il_record := None \<rparr>)"
    and "tidy b (snd (create_locked_attempt ok now run_id attempt_id sha deadline epoch mint ordinal token expires
        supersedes l))"
  using assms
  by (auto simp: record_send_intent_def record_relay_bound_def record_relay_skipped_def record_request_held_def
      record_ack_unknown_def record_abandoned_pre_invoke_def record_mint_def record_re_export_def
      record_send_observed_def record_submit_dispatch_def demonstrate_non_dispatch_def reserve_mint_def
      record_python_post_invoked_def load_record_def create_locked_attempt_def open_attempt_def write_record_def Let_def
      intro!: tidy_transition tidy_with_record tidy_commit)
    (auto simp: tidy_def split: intent_file.splits)

text \<open>A step that changes no ghost and no core keeps the invariant.\<close>

lemma inv_same:
  assumes "intent_inv w" "same_cores (iw_log w) l" "tidy (nothing_done w) l"
  shows "intent_inv (w \<lparr> iw_log := l \<rparr>)"
proof -
  have "core_good w (core rec)" if "rec \<in> held_records l" for rec
  proof -
    from that assms(2) obtain rec' where "rec' \<in> held_records (iw_log w)" "core rec = core rec'"
      unfolding same_cores_def by blast
    with assms(1) show ?thesis by (simp add: intent_inv_def)
  qed
  moreover have "core_good (w \<lparr> iw_log := l \<rparr>) = core_good w" "nothing_done (w \<lparr> iw_log := l \<rparr>) = nothing_done w"
    by (simp_all add: core_good_def nothing_done_def)
  ultimately show ?thesis using assms by (simp add: intent_inv_def)
qed

text \<open>One that writes a record of a good core over a good world.\<close>

lemma inv_commit:
  assumes w: "intent_inv w" and rec': "core_good w (core rec')" and l: "il_record (iw_log w) \<noteq> None"
  shows "intent_inv (w \<lparr> iw_log := snd (commit ok now rec' (iw_log w)) \<rparr>)"
proof -
  have "core_good (w \<lparr> iw_log := m \<rparr>) = core_good w" "nothing_done (w \<lparr> iw_log := m \<rparr>) = nothing_done w" for m
    by (simp_all add: core_good_def nothing_done_def)
  moreover have "\<forall>rec \<in> held_records (snd (commit ok now rec' (iw_log w))). core_good w (core rec)"
    using held_commit [where ok = ok and now = now and rec = rec' and l = "iw_log w"] w rec'
    by (auto simp: intent_inv_def)
  ultimately show ?thesis
    using w l by (simp add: intent_inv_def tidy_commit)
qed

lemma inv_memory_good:
  assumes "intent_inv w" "il_record (iw_log w) = Some rec"
  shows "core_good w (core rec)"
  using assms memory_held by (auto simp: intent_inv_def)

lemma inv_written:
  assumes "commit ok now r (iw_log w) = (Inr rec, iw_log w')" "core_good w' (core r)"
    "0 \<le> iw_pressed w'" "iw_reserved w' \<in> {0, 1}" "iw_posted w' \<in> {0, 1}"
  shows "intent_inv w'"
proof -
  have "il_file (iw_log w') = Written (r \<lparr> ir_updated_at := now \<rparr>)"
    using assms(1) by (auto simp: commit_def write_record_def Let_def split: if_splits dest: sym)
  then show ?thesis
    using held_commit_ok [OF assms(1)] assms by (simp add: intent_inv_def tidy_def)
qed

lemma inv_ranges:
  assumes "intent_inv w"
  shows "0 \<le> iw_pressed w" "iw_reserved w \<in> {0, 1}" "iw_posted w \<in> {0, 1}"
  using assms by (auto simp: intent_inv_def)

lemma inv_observed:
  assumes inv: "intent_inv w"
  shows "intent_inv (w \<lparr> iw_log := snd (record_send_observed ok now (iw_log w)) \<rparr>)"
proof (cases "il_record (iw_log w)")
  case None
  then show ?thesis using inv by (simp add: record_send_observed_def with_record_def)
next
  case (Some rec)
  have good: "core_good w (core rec)" using inv Some by (rule inv_memory_good)
  show ?thesis
  proof (cases "ir_state rec = intent_value I_PENDING")
    case True
    then show ?thesis using inv Some by (simp add: record_send_observed_def with_record_def)
  next
    case False
    then have "core_good w (core (rec \<lparr> ir_state := intent_value I_OBSERVED, ir_sends_observed := ir_sends_observed rec + 1 \<rparr>))"
      using good by (simp add: core_good_def core_def)
    from inv_commit [OF inv this] show ?thesis
      using Some False by (simp add: record_send_observed_def with_record_def)
  qed
qed

lemma inv_created:
  assumes inv: "intent_inv w"
  shows "intent_inv (w \<lparr> iw_log := snd (create_locked_attempt ok now run_id attempt_id sha deadline epoch mint ordinal
      token expires supersedes (iw_log w)) \<rparr>)" (is "intent_inv (w \<lparr> iw_log := ?l \<rparr>)")
proof (cases "il_file (iw_log w) = No_File \<and> ok")
  case True
  with inv have "nothing_done w" by (simp add: intent_inv_def tidy_def)
  with True inv show ?thesis
    by (simp add: create_locked_attempt_def open_attempt_def write_record_def Let_def intent_inv_def tidy_def
        held_records_def core_good_def core_def fresh_record_def nothing_done_def MAX_RECOVERIES_def)
next
  case False
  then have "?l = iw_log w" by (auto simp: create_locked_attempt_def open_attempt_def write_record_def Let_def)
  with inv show ?thesis by simp
qed

text \<open>The three methods an action follows, and the one way back.\<close>

lemma submit_dispatchE:
  assumes "record_submit_dispatch ok now l = (res, l')"
  obtains (refused) "res = Inl SendIntentViolation" "l' = l"
    | (dispatched) rec rec' where "il_record l = Some rec" "ir_state rec = intent_value I_PENDING"
        "core rec' = (intent_value I_DISPATCHED, ir_submits_dispatched rec + 1, ir_recoveries_used rec, ir_reserved_at rec,
           ir_invoked_at rec)"
        "commit ok now rec' l = (res, l')"
proof (cases "il_record l")
  case None
  then show ?thesis using assms refused by (simp add: record_submit_dispatch_def with_record_def)
next
  case (Some rec)
  show ?thesis
  proof (cases "ir_state rec = intent_value I_PENDING")
    case True
    let ?r1 = "rec \<lparr> ir_state := intent_value I_DISPATCHED, ir_submits_dispatched := ir_submits_dispatched rec + 1 \<rparr>"
    let ?r2 = "if ir_attempt_state rec \<in> set (map attempt_value [A_LOCKED, A_INTERCEPT_ARMED, A_SEND_INTENT, A_RELAY_BOUND_OR_SKIPPED])
         then ?r1 \<lparr> ir_attempt_state := attempt_value A_COMPOSER_MINT_TRIGGERED \<rparr> else ?r1"
    have "commit ok now ?r2 l = (res, l')"
      using assms Some True unfolding record_submit_dispatch_def with_record_def Let_def by simp
    moreover have "core ?r2 = (intent_value I_DISPATCHED, ir_submits_dispatched rec + 1, ir_recoveries_used rec,
        ir_reserved_at rec, ir_invoked_at rec)"
      by (simp add: core_def)
    ultimately show ?thesis using Some True dispatched by blast
  next
    case False
    then show ?thesis using assms Some refused by (simp add: record_submit_dispatch_def with_record_def)
  qed
qed

lemma demonstrateE:
  assumes "demonstrate_non_dispatch ok checked now evidence l = (res, l')"
  obtains (refused) "res = Inl SendIntentViolation" "l' = l"
    | (accepted) rec rec' where "il_record l = Some rec" "ir_recoveries_used rec < MAX_RECOVERIES"
        "ir_state rec \<noteq> intent_value I_OBSERVED" "res \<noteq> Inl SendIntentViolation"
        "core rec' = (intent_value I_PENDING, ir_submits_dispatched rec, ir_recoveries_used rec + 1, ir_reserved_at rec,
           ir_invoked_at rec)"
        "commit ok now rec' l = (res, l')"
proof (cases "il_record l")
  case None
  then show ?thesis using assms refused by (simp add: demonstrate_non_dispatch_def with_record_def)
next
  case (Some rec)
  let ?late = "case ir_deadline_at rec of None \<Rightarrow> False | Some deadline \<Rightarrow> deadline < checked"
  show ?thesis
  proof (cases "ir_state rec = intent_value I_OBSERVED \<or> MAX_RECOVERIES \<le> ir_recoveries_used rec \<or> ?late")
    case True
    then have "demonstrate_non_dispatch ok checked now evidence l = (Inl SendIntentViolation, l)"
      using Some by (auto simp: demonstrate_non_dispatch_def with_record_def)
    then show ?thesis using assms refused by simp
  next
    case False
    let ?r = "rec \<lparr> ir_recoveries_used := ir_recoveries_used rec + 1, ir_state := intent_value I_PENDING,
       ir_notes := ir_notes rec @ [take 200 (''non-dispatch demonstrated: '' @ evidence)] \<rparr>"
    have c: "commit ok now ?r l = (res, l')"
      using assms Some False unfolding demonstrate_non_dispatch_def with_record_def by simp
    moreover have "res \<noteq> Inl SendIntentViolation"
      using c by (auto simp: commit_def write_record_def Let_def split: if_splits)
    moreover have "core ?r = (intent_value I_PENDING, ir_submits_dispatched rec, ir_recoveries_used rec + 1,
        ir_reserved_at rec, ir_invoked_at rec)"
      by (simp add: core_def)
    ultimately show ?thesis using Some False accepted by (metis not_le)
  qed
qed

lemma reserveE:
  assumes "reserve_mint ok now reserved l = (res, l')"
  obtains (refused) "res = Inl SendIntentViolation" "l' = l"
    | (reserved) rec rec' where "il_record l = Some rec" "ir_reserved_at rec = None"
        "core rec' = (ir_state rec, ir_submits_dispatched rec, ir_recoveries_used rec, Some reserved, ir_invoked_at rec)"
        "commit ok now rec' l = (res, l')"
proof (cases "il_record l")
  case None
  then show ?thesis using assms refused by (simp add: reserve_mint_def with_record_def)
next
  case (Some rec)
  show ?thesis
  proof (cases "ir_reserved_at rec \<noteq> None \<or> ir_attempt_state rec \<in> MINT_SPENT_STATES \<or> ir_attempt_state rec \<in> TERMINAL_ATTEMPT_STATES")
    case True
    then have "reserve_mint ok now reserved l = (Inl SendIntentViolation, l)"
      using Some by (auto simp: reserve_mint_def attempt_transition_def with_record_def)
    then show ?thesis using assms refused by simp
  next
    case False
    then have "commit ok now (rec \<lparr> ir_reserved_at := Some reserved, ir_attempt_state := attempt_value A_MINT_RESERVED \<rparr>) l = (res, l')"
      using assms Some by (simp add: reserve_mint_def attempt_transition_def with_record_def)
    then show ?thesis using Some False by (intro reserved) (auto simp: core_def)
  qed
qed

lemma postE:
  assumes "record_python_post_invoked ok now invoked l = (res, l')"
  obtains (refused) "res = Inl SendIntentViolation" "l' = l"
    | (invoked) rec rec' where "il_record l = Some rec" "ir_invoked_at rec = None" "ir_reserved_at rec \<noteq> None"
        "core rec' = (ir_state rec, ir_submits_dispatched rec, ir_recoveries_used rec, ir_reserved_at rec, Some invoked)"
        "commit ok now rec' l = (res, l')"
proof (cases "il_record l")
  case None
  then show ?thesis using assms refused by (simp add: record_python_post_invoked_def with_record_def)
next
  case (Some rec)
  show ?thesis
  proof (cases "ir_attempt_state rec \<noteq> attempt_value A_MINT_RESERVED \<or> ir_reserved_at rec = None \<or> ir_invoked_at rec \<noteq> None")
    case True
    then have "record_python_post_invoked ok now invoked l = (Inl SendIntentViolation, l)"
      using Some by (auto simp: record_python_post_invoked_def with_record_def)
    then show ?thesis using assms refused by simp
  next
    case False
    then have "commit ok now (rec \<lparr> ir_invoked_at := Some invoked, ir_attempt_state := attempt_value A_PYTHON_POST_INVOKED \<rparr>) l = (res, l')"
      using assms Some by (auto simp: record_python_post_invoked_def attempt_transition_def with_record_def TERMINAL_ATTEMPT_STATES_def)
    then show ?thesis using Some False by (intro invoked) (auto simp: core_def)
  qed
qed

text \<open>A commit that fails leaves the file and puts the record in memory: the ghosts are as they were.\<close>

lemma inv_failed:
  assumes "intent_inv w" "il_record (iw_log w) \<noteq> None" "core_good w (core rec')" "commit ok now rec' (iw_log w) = (res, l)"
  shows "intent_inv (w \<lparr> iw_log := l \<rparr>)"
  using inv_commit [OF assms(1,3,2), of ok now] assms(4) by simp

lemma inv_dispatch:
  assumes inv: "intent_inv w" and run: "record_submit_dispatch ok now (iw_log w) = (res, l)"
  shows "isl res \<Longrightarrow> intent_inv (w \<lparr> iw_log := l \<rparr>)"
    and "\<not> isl res \<Longrightarrow> intent_inv (w \<lparr> iw_log := l, iw_pressed := iw_pressed w + 1, iw_open := True \<rparr>)"
proof -
  from run show "intent_inv (w \<lparr> iw_log := l \<rparr>)" if "isl res"
  proof (cases rule: submit_dispatchE)
    case (dispatched rec rec')
    have "core_good w (core rec)" using inv dispatched(1) by (rule inv_memory_good)
    then have "core_good w (core rec')" using dispatched(2,3) by (simp add: core_good_def core_def)
    with inv dispatched(1,4) show ?thesis by (intro inv_failed) auto
  qed (use inv in simp)
  from run show "intent_inv (w \<lparr> iw_log := l, iw_pressed := iw_pressed w + 1, iw_open := True \<rparr>)" (is "intent_inv ?w")
    if ok: "\<not> isl res"
  proof (cases rule: submit_dispatchE)
    case refused
    then show ?thesis using ok by simp
  next
    case (dispatched rec rec')
    from ok obtain r where r: "res = Inr r" by (cases res) auto
    have "core_good w (core rec)" using inv dispatched(1) by (rule inv_memory_good)
    then have "core_good ?w (core rec')" using dispatched(2,3) by (simp add: core_good_def core_def)
    then show ?thesis
      using dispatched(4) inv_ranges [OF inv] unfolding r by (intro inv_written [where w = w]) auto
  qed
qed

lemma inv_demonstrated:
  assumes inv: "intent_inv w" and run: "demonstrate_non_dispatch ok checked now evidence (iw_log w) = (res, l)"
  shows "intent_inv (w \<lparr> iw_log := l, iw_open := iw_open w \<and> res = Inl SendIntentViolation \<rparr>)"
  using run
proof (cases rule: demonstrateE)
  case refused
  then show ?thesis using inv by simp
next
  case (accepted rec rec')
  let ?w = "w \<lparr> iw_open := False \<rparr>"
  have mono: "core_good w c \<Longrightarrow> core_good ?w c" for c by (auto simp: core_good_def)
  have "nothing_done w \<Longrightarrow> nothing_done ?w" by (simp add: nothing_done_def)
  with inv mono have w: "intent_inv ?w" by (auto simp: intent_inv_def tidy_def)
  have "core_good w (core rec)" using inv accepted(1) by (rule inv_memory_good)
  then have "core_good ?w (core rec')"
    using accepted(2,5) by (auto simp: core_good_def core_def MAX_RECOVERIES_def split: if_splits)
  with w accepted(1,6) have "intent_inv (?w \<lparr> iw_log := l \<rparr>)" by (intro inv_failed) auto
  moreover have "?w \<lparr> iw_log := l \<rparr> = w \<lparr> iw_log := l, iw_open := False \<rparr>" by simp
  ultimately show ?thesis using accepted(4) by simp
qed

lemma inv_reserve:
  assumes inv: "intent_inv w" and run: "reserve_mint ok now reserved (iw_log w) = (res, l)"
  shows "isl res \<Longrightarrow> intent_inv (w \<lparr> iw_log := l \<rparr>)"
    and "\<not> isl res \<Longrightarrow> intent_inv (w \<lparr> iw_log := l, iw_reserved := iw_reserved w + 1 \<rparr>)"
proof -
  from run show "intent_inv (w \<lparr> iw_log := l \<rparr>)" if "isl res"
  proof (cases rule: reserveE)
    case (reserved rec rec')
    have "core_good w (core rec)" using inv reserved(1) by (rule inv_memory_good)
    then have "core_good w (core rec')" using reserved(3) by (simp add: core_good_def core_def)
    with inv reserved(1,4) show ?thesis by (intro inv_failed) auto
  qed (use inv in simp)
  from run show "intent_inv (w \<lparr> iw_log := l, iw_reserved := iw_reserved w + 1 \<rparr>)" (is "intent_inv ?w") if ok: "\<not> isl res"
  proof (cases rule: reserveE)
    case refused
    then show ?thesis using ok by simp
  next
    case (reserved rec rec')
    from ok obtain r where r: "res = Inr r" by (cases res) auto
    have good: "core_good w (core rec)" using inv reserved(1) by (rule inv_memory_good)
    then have "iw_reserved w = 0" using reserved(2) by (simp add: core_good_def core_def)
    moreover have "core_good ?w (core rec')" using good reserved(3) by (simp add: core_good_def core_def)
    ultimately show ?thesis
      using reserved(4) inv_ranges [OF inv] unfolding r by (intro inv_written [where w = w]) auto
  qed
qed

lemma inv_post:
  assumes inv: "intent_inv w" and run: "record_python_post_invoked ok now invoked (iw_log w) = (res, l)"
  shows "isl res \<Longrightarrow> intent_inv (w \<lparr> iw_log := l \<rparr>)"
    and "\<not> isl res \<Longrightarrow> intent_inv (w \<lparr> iw_log := l, iw_posted := iw_posted w + 1 \<rparr>)"
proof -
  from run show "intent_inv (w \<lparr> iw_log := l \<rparr>)" if "isl res"
  proof (cases rule: postE)
    case (invoked rec rec')
    have "core_good w (core rec)" using inv invoked(1) by (rule inv_memory_good)
    then have "core_good w (core rec')" using invoked(4) by (simp add: core_good_def core_def)
    with inv invoked(1,5) show ?thesis by (intro inv_failed) auto
  qed (use inv in simp)
  from run show "intent_inv (w \<lparr> iw_log := l, iw_posted := iw_posted w + 1 \<rparr>)" (is "intent_inv ?w") if ok: "\<not> isl res"
  proof (cases rule: postE)
    case refused
    then show ?thesis using ok by simp
  next
    case (invoked rec rec')
    from ok obtain r where r: "res = Inr r" by (cases res) auto
    have good: "core_good w (core rec)" using inv invoked(1) by (rule inv_memory_good)
    then have "iw_posted w = 0" using invoked(2) by (simp add: core_good_def core_def)
    moreover have "core_good ?w (core rec')" using good invoked(4) by (simp add: core_good_def core_def)
    ultimately show ?thesis
      using invoked(5) inv_ranges [OF inv] unfolding r by (intro inv_written [where w = w]) auto
  qed
qed

lemma same_crash: "same_cores l (l \<lparr> il_record := None \<rparr>)"
  by (auto simp: same_cores_def held_records_def)

lemma inv_tidy: "intent_inv w \<Longrightarrow> tidy (nothing_done w) (iw_log w)"
  by (simp add: intent_inv_def)

lemma intent_inv_step:
  assumes "intent_inv w" "intent_step w w'"
  shows "intent_inv w'"
  using assms(2,1)
proof (cases rule: intent_step.cases)
  case step_demonstrated
  then show ?thesis using inv_demonstrated assms(1) by blast
next
  case step_not_dispatched
  then show ?thesis using inv_dispatch(1) assms(1) by force
next
  case step_not_reserved
  then show ?thesis using inv_reserve(1) assms(1) by force
next
  case step_not_posted
  then show ?thesis using inv_post(1) assms(1) by force
qed (use assms(1) in \<open>auto intro!: inv_created inv_observed inv_dispatch inv_reserve inv_post inv_same same_calls
    same_load same_crash same_transition tidy_calls tidy_transition inv_tidy\<close>)

lemma intent_inv_blank: "intent_inv blank_intent"
  by (simp add: intent_inv_def blank_intent_def held_records_def tidy_def nothing_done_def)

interpretation attempts: transition_system "\<lambda>w. w = blank_intent" intent_step intent_inv
  by unfold_locales (auto intro: intent_inv_blank intent_inv_step)

section \<open>Terminal rows\<close>

text \<open>The attempt state on disk and in every copy in memory is \<open>a\<close>.\<close>

definition settled :: "string \<Rightarrow> intent_log \<Rightarrow> bool" where
  "settled a l \<longleftrightarrow> (case il_file l of Written rec \<Rightarrow> ir_attempt_state rec = a | _ \<Rightarrow> False)
     \<and> (case il_record l of Some rec \<Rightarrow> ir_attempt_state rec = a | None \<Rightarrow> True)"

definition lawful :: "intent_log \<Rightarrow> intent_log \<Rightarrow> bool" where
  "lawful l l' \<longleftrightarrow> (il_file l' = il_file l \<or> (\<exists>rec. il_file l' = Written rec \<and> il_record l' = Some rec))
     \<and> (\<forall>a \<in> TERMINAL_ATTEMPT_STATES. settled a l \<longrightarrow> settled a l')"

lemma lawful_refl [simp]: "lawful l l"
  by (simp add: lawful_def)

lemma lawful_with_record:
  assumes "\<And>rec. il_record l = Some rec \<Longrightarrow> lawful l (snd (f rec l))"
  shows "lawful l (snd (with_record f l))"
  using assms by (simp add: with_record_def split: option.splits)

lemma lawful_commit:
  assumes "il_record l = Some rec"
    "ir_attempt_state rec' = ir_attempt_state rec \<or> ir_attempt_state rec \<notin> TERMINAL_ATTEMPT_STATES"
  shows "lawful l (snd (commit ok now rec' l))"
  using assms by (auto simp: lawful_def settled_def commit_def write_record_def Let_def)

lemma lawful_transition: "lawful l (snd (attempt_transition ok now st named l))"
  unfolding attempt_transition_def
  by (rule lawful_with_record)
    (auto simp: lawful_def settled_def commit_def write_record_def Let_def split: prod.splits bool.splits)

lemma dispatch_keeps_terminal:
  assumes "ir_attempt_state rec \<in> TERMINAL_ATTEMPT_STATES"
  shows "ir_attempt_state rec \<notin> set (map attempt_value [A_LOCKED, A_INTERCEPT_ARMED, A_SEND_INTENT, A_RELAY_BOUND_OR_SKIPPED])"
  using assms by (auto simp: TERMINAL_ATTEMPT_STATES_def)

lemma lawful_dispatch: "lawful l (snd (record_submit_dispatch ok now l))"
  unfolding record_submit_dispatch_def
  by (rule lawful_with_record)
    (auto simp del: list.set list.map simp: Let_def dest: dispatch_keeps_terminal intro!: lawful_commit)

lemma lawful_calls:
  "lawful l (snd (record_send_intent ok now conversation node nonce l))"
  "lawful l (snd (record_relay_bound ok now subscriber bound l))"
  "lawful l (snd (record_relay_skipped ok now skipped l))"
  "lawful l (snd (record_request_held ok now body names page context_gen cdp l))"
  "lawful l (snd (record_ack_unknown ok now route disposition absence irreconcilable l))"
  "lawful l (snd (record_abandoned_pre_invoke ok now aroute disposition l))"
  "lawful l (snd (record_mint ok now l))" "lawful l (snd (record_re_export ok now l))"
  "lawful l (snd (record_send_observed ok now l))"
  "lawful l (snd (demonstrate_non_dispatch ok checked now evidence l))"
  "lawful l (snd (reserve_mint ok now reserved l))" "lawful l (snd (record_python_post_invoked ok now invoked l))"
  "lawful l (snd (load_record l))" "lawful l (l \<lparr> il_record := None \<rparr>)"
  "lawful l (snd (create_locked_attempt ok now run_id attempt_id sha deadline epoch mint ordinal token expires
      supersedes l))"
  by (auto simp: record_send_intent_def record_relay_bound_def record_relay_skipped_def record_request_held_def
      record_ack_unknown_def record_abandoned_pre_invoke_def record_mint_def record_re_export_def
      record_send_observed_def demonstrate_non_dispatch_def reserve_mint_def record_python_post_invoked_def
      intro!: lawful_transition lawful_with_record lawful_commit)
    (auto simp: load_record_def create_locked_attempt_def open_attempt_def write_record_def Let_def lawful_def
      settled_def split: intent_file.splits)

lemma lawful_step: "intent_step w w' \<Longrightarrow> lawful (iw_log w) (iw_log w')"
proof (induction rule: intent_step.induct)
  case (step_dispatched ok now w rec l)
  then show ?case using lawful_dispatch [where l = "iw_log w" and ok = ok and now = now] by simp
next
  case (step_not_dispatched ok now w e l)
  then show ?case using lawful_dispatch [where l = "iw_log w" and ok = ok and now = now] by simp
next
  case (step_demonstrated ok checked now evidence w res l)
  then show ?case using lawful_calls(10) [where l = "iw_log w" and ok = ok and now = now and checked = checked and evidence = evidence] by simp
next
  case (step_reserved ok now reserved w rec l)
  then show ?case using lawful_calls(11) [where l = "iw_log w" and ok = ok and now = now and reserved = reserved] by simp
next
  case (step_not_reserved ok now reserved w e l)
  then show ?case using lawful_calls(11) [where l = "iw_log w" and ok = ok and now = now and reserved = reserved] by simp
next
  case (step_posted ok now invoked w rec l)
  then show ?case using lawful_calls(12) [where l = "iw_log w" and ok = ok and now = now and invoked = invoked] by simp
next
  case (step_not_posted ok now invoked w e l)
  then show ?case using lawful_calls(12) [where l = "iw_log w" and ok = ok and now = now and invoked = invoked] by simp
qed (simp_all add: lawful_calls lawful_transition)

definition terminal_on_disk :: "intent_log \<Rightarrow> bool" where
  "terminal_on_disk l \<longleftrightarrow> (case il_file l of Written rec \<Rightarrow> ir_attempt_state rec \<in> TERMINAL_ATTEMPT_STATES | _ \<Rightarrow> False)"

text \<open>A row that is terminal on disk is settled: no stale copy can write over it.\<close>

definition settled_inv :: "intent_world \<Rightarrow> bool" where
  "settled_inv w \<longleftrightarrow> (case il_file (iw_log w) of
     Written rec \<Rightarrow> ir_attempt_state rec \<in> TERMINAL_ATTEMPT_STATES \<longrightarrow> settled (ir_attempt_state rec) (iw_log w)
   | _ \<Rightarrow> True)"

lemma settled_inv_step: "settled_inv w \<Longrightarrow> intent_step w w' \<Longrightarrow> settled_inv w'"
  using lawful_step [of w w']
  by (auto simp: settled_inv_def lawful_def settled_def split: intent_file.splits)

lemma settled_inv_blank: "settled_inv blank_intent"
  by (simp add: settled_inv_def blank_intent_def)

interpretation rows: transition_system "\<lambda>w. w = blank_intent" intent_step settled_inv
  by unfold_locales (auto intro: settled_inv_step settled_inv_blank)

section \<open>The promises\<close>

lemma intent_reachable: "intent_step\<^sup>*\<^sup>* blank_intent w \<Longrightarrow> intent_inv w"
  using attempts.inv_reachable by blast

lemma memory_core:
  assumes "intent_step\<^sup>*\<^sup>* blank_intent w" "il_record (iw_log w) = Some rec"
  shows "core_good w (core rec)"
  using inv_memory_good intent_reachable assms by blast

lemma file_core:
  assumes "intent_step\<^sup>*\<^sup>* blank_intent w" "il_file (iw_log w) = Written rec"
  shows "core_good w (core rec)"
  using intent_reachable [OF assms(1)] assms(2) by (auto simp: intent_inv_def held_records_def)

lemma empty_file_done:
  assumes "intent_step\<^sup>*\<^sup>* blank_intent w" "il_file (iw_log w) = No_File"
  shows "nothing_done w"
  using intent_reachable [OF assms(1)] assms(2) by (auto simp: intent_inv_def tidy_def)

lemma open_refused:
  assumes run: "intent_step\<^sup>*\<^sup>* blank_intent w" and w: "iw_open w"
  shows "record_submit_dispatch ok now (iw_log w) = (Inl SendIntentViolation, iw_log w)"
proof (cases "il_record (iw_log w)")
  case (Some rec)
  then have "ir_state rec \<noteq> intent_value I_PENDING"
    using memory_core [OF run Some] w by (auto simp: core_good_def core_def)
  with Some show ?thesis by (simp add: record_submit_dispatch_def with_record_def)
qed (simp add: record_submit_dispatch_def with_record_def)

lemma pressed_bound:
  assumes run: "intent_step\<^sup>*\<^sup>* blank_intent w"
  shows "iw_pressed w \<le> 1 + MAX_RECOVERIES"
proof (cases "il_file (iw_log w)")
  case No_File
  then show ?thesis using empty_file_done [OF run] by (simp add: nothing_done_def MAX_RECOVERIES_def)
next
  case (Written rec)
  show ?thesis using file_core [OF run Written] by (auto simp: core_good_def core_def split: if_splits)
qed (use intent_reachable [OF run] in \<open>auto simp: intent_inv_def tidy_def\<close>)

text \<open>(C3) However an attempt runs - writes that fail, crashes between any two calls, hand-overs to another process,
  transitions of the attempt row in any order - the composer's Enter is pressed at most twice, and while a press
  stands that was not demonstrated to have sent nothing, a further one is refused and changes nothing.\<close>

theorem enter_pressed_once_per_demonstration:
  assumes "intent_step\<^sup>*\<^sup>* blank_intent w"
  shows "iw_pressed w \<le> 2
    \<and> (iw_open w \<longrightarrow> record_submit_dispatch ok now (iw_log w) = (Inl SendIntentViolation, iw_log w))"
  using pressed_bound [OF assms] open_refused [OF assms] by (simp_all add: MAX_RECOVERIES_def)

lemma spent_refused:
  assumes run: "intent_step\<^sup>*\<^sup>* blank_intent w"
  shows "iw_reserved w = 1 \<Longrightarrow> reserve_mint ok now at (iw_log w) = (Inl SendIntentViolation, iw_log w)"
    and "iw_posted w = 1 \<Longrightarrow> record_python_post_invoked ok now at (iw_log w) = (Inl SendIntentViolation, iw_log w)"
  using memory_core [OF run]
  by (fastforce simp: reserve_mint_def record_python_post_invoked_def with_record_def core_good_def core_def
      split: option.splits)+

text \<open>The one-use mint: over the whole life of an attempt, crashes and failed writes included, the reservation is
  recorded at most once and the origin POST is invoked at most once; once either is recorded, another is refused
  and changes nothing.\<close>

theorem mint_spent_once:
  assumes "intent_step\<^sup>*\<^sup>* blank_intent w"
  shows "iw_reserved w \<le> 1 \<and> iw_posted w \<le> 1
    \<and> (iw_reserved w = 1 \<longrightarrow> reserve_mint ok now at (iw_log w) = (Inl SendIntentViolation, iw_log w))
    \<and> (iw_posted w = 1 \<longrightarrow> record_python_post_invoked ok now at (iw_log w) = (Inl SendIntentViolation, iw_log w))"
  using inv_ranges(2,3) [OF intent_reachable [OF assms]] spent_refused [OF assms] by auto

text \<open>(C39) What a restart reads: wherever the process died, if the file left behind says that a submit may be
  dispatched, then no press stands undemonstrated, and if there is no file then nothing at all was done.\<close>

theorem restart_answers_safely:
  assumes run: "intent_step\<^sup>*\<^sup>* blank_intent w"
    and read: "resolve_after_restart (il_file (iw_log w)) = Inr (found, True)"
  shows "\<not> iw_open w \<and> (found = None \<longrightarrow> nothing_done w)"
proof (cases "il_file (iw_log w)")
  case No_File
  then show ?thesis using empty_file_done [OF run] by (auto simp: nothing_done_def)
next
  case (Written rec)
  then have "found = Some rec" "ir_state rec = intent_value I_PENDING"
    using read by (auto simp: resolve_after_restart_def load_record_def may_dispatch_submit_def split: if_splits)
  then show ?thesis using file_core [OF run Written] by (auto simp: core_good_def core_def)
qed (use read in \<open>simp_all add: resolve_after_restart_def load_record_def\<close>)

lemma terminal_step:
  assumes "settled_inv x" "intent_step x y" "il_file (iw_log x) = Written rec" "ir_attempt_state rec \<in> TERMINAL_ATTEMPT_STATES"
  shows "\<exists>rec'. il_file (iw_log y) = Written rec' \<and> ir_attempt_state rec' = ir_attempt_state rec"
  using lawful_step [OF assms(2)] assms(1,3,4)
  by (auto simp: settled_inv_def lawful_def settled_def split: intent_file.splits)

lemma terminal_run:
  assumes "intent_step\<^sup>*\<^sup>* v w" "settled_inv v" "il_file (iw_log v) = Written rec" "ir_attempt_state rec \<in> TERMINAL_ATTEMPT_STATES"
  shows "\<exists>rec'. il_file (iw_log w) = Written rec' \<and> ir_attempt_state rec' = ir_attempt_state rec"
  using assms(1)
proof (induction rule: rtranclp_induct)
  case base
  show ?case using assms(3) by blast
next
  case (step y z)
  from step.IH obtain rec' where y: "il_file (iw_log y) = Written rec'" "ir_attempt_state rec' = ir_attempt_state rec" by blast
  have "settled_inv y" using step.hyps(1) assms(2) by (rule rows.inv_steps)
  from terminal_step [OF this step.hyps(2) y(1)] y(2) assms(4) show ?case by simp
qed

text \<open>A terminal row is final: once the file of an attempt shows one of the four terminal states, it shows that
  state after every later run - no transition, no stale copy, no crash and no method of the submit action takes it back.\<close>

lemma terminal_row_is_final:
  assumes "intent_step\<^sup>*\<^sup>* blank_intent v" "intent_step\<^sup>*\<^sup>* v w" "il_file (iw_log v) = Written rec"
    "ir_attempt_state rec \<in> TERMINAL_ATTEMPT_STATES"
  shows "\<exists>rec'. il_file (iw_log w) = Written rec' \<and> ir_attempt_state rec' = ir_attempt_state rec"
proof -
  have "settled_inv v" using rows.inv_reachable [OF _ assms(1)] by simp
  then show ?thesis using terminal_run assms(2-4) by blast
qed

section \<open>Concrete runs\<close>

text \<open>An attempt that is created, pressed, reserved, posted and then left unresolved, with a crash at the end.\<close>

definition run_created :: intent_world where
  "run_created = blank_intent \<lparr> iw_log := snd (create_locked_attempt True 1 ''run'' ''att'' ''sha'' 100 ''epoch'' ''mint'' 1
     ''hash'' 100 None (iw_log blank_intent)) \<rparr>"

definition run_pressed :: intent_world where
  "run_pressed = run_created \<lparr> iw_log := snd (record_submit_dispatch True 2 (iw_log run_created)),
     iw_pressed := iw_pressed run_created + 1, iw_open := True \<rparr>"

definition run_reserved :: intent_world where
  "run_reserved = run_pressed \<lparr> iw_log := snd (reserve_mint True 3 3 (iw_log run_pressed)),
     iw_reserved := iw_reserved run_pressed + 1 \<rparr>"

definition run_posted :: intent_world where
  "run_posted = run_reserved \<lparr> iw_log := snd (record_python_post_invoked True 4 4 (iw_log run_reserved)),
     iw_posted := iw_posted run_reserved + 1 \<rparr>"

definition run_unresolved :: intent_world where
  "run_unresolved = run_posted \<lparr> iw_log := snd (record_ack_unknown True 5 None ''live'' False False (iw_log run_posted)) \<rparr>"

definition run_crashed :: intent_world where
  "run_crashed = run_unresolved \<lparr> iw_log := (iw_log run_unresolved) \<lparr> il_record := None \<rparr> \<rparr>"

text \<open>One that is pressed, demonstrated not to have sent, and read back.\<close>

definition run_demonstrated :: intent_world where
  "run_demonstrated = run_pressed \<lparr> iw_log := snd (demonstrate_non_dispatch True 3 4 ''composer'' (iw_log run_pressed)),
     iw_open := False \<rparr>"

text \<open>The row the attempt starts with, and the logs of the runs as updates of it.\<close>

definition first_row :: intent_record where
  "first_row = (fresh_record 1 ''run'' ''att'' ''sha'') \<lparr> ir_deadline_at := Some 100, ir_profile_epoch := Some ''epoch'',
     ir_mint_id := Some ''mint'', ir_mint_ordinal := 1, ir_relay_token_hash := Some ''hash'',
     ir_relay_token_expires_at := Some 100, ir_supersedes_unresolved := None, ir_updated_at := 1 \<rparr>"

lemma first_row_simps [simp]:
  "ir_state first_row = ''pending''" "ir_attempt_state first_row = ''LOCKED''" "ir_schema_version first_row = 1"
  "ir_submits_dispatched first_row = 0" "ir_sends_observed first_row = 0" "ir_recoveries_used first_row = 0" "ir_mints first_row = 0"
  "ir_deadline_at first_row = Some 100" "ir_notes first_row = []" "ir_reserved_at first_row = None" "ir_invoked_at first_row = None"
  by (simp_all add: first_row_def fresh_record_def SCHEMA_VERSION_def)

definition log_of :: "intent_record \<Rightarrow> intent_log" where
  "log_of rec = \<lparr> il_file = Written rec, il_record = Some rec \<rparr>"

lemma log_of_simps [simp]: "il_file (log_of rec) = Written rec" "il_record (log_of rec) = Some rec"
  by (simp_all add: log_of_def)

lemma commit_log_of: "commit True now rec l = (Inr (rec \<lparr> ir_updated_at := now \<rparr>), log_of (rec \<lparr> ir_updated_at := now \<rparr>))"
  by (simp add: commit_def write_record_def log_of_def Let_def)

lemmas run_defs = commit_log_of with_record_def record_submit_dispatch_def reserve_mint_def
  record_python_post_invoked_def record_ack_unknown_def demonstrate_non_dispatch_def attempt_transition_def Let_def
  TERMINAL_ATTEMPT_STATES_def MINT_SPENT_STATES_def MAX_RECOVERIES_def

definition pressed_row :: intent_record where
  "pressed_row = first_row \<lparr> ir_state := ''dispatched'', ir_submits_dispatched := 1,
     ir_attempt_state := ''COMPOSER_MINT_TRIGGERED'', ir_updated_at := 2 \<rparr>"

definition posted_row :: intent_record where
  "posted_row = pressed_row \<lparr> ir_reserved_at := Some 3, ir_invoked_at := Some 4, ir_attempt_state := ''PYTHON_POST_INVOKED'',
     ir_updated_at := 4 \<rparr>"

lemma run_logs:
  shows created_log: "iw_log run_created = log_of first_row"
    and pressed_log: "iw_log run_pressed = log_of pressed_row"
    and reserved_log: "iw_log run_reserved = log_of (pressed_row \<lparr> ir_reserved_at := Some 3, ir_attempt_state := ''MINT_RESERVED'',
      ir_updated_at := 3 \<rparr>)"
    and posted_log: "iw_log run_posted = log_of posted_row"
proof -
  show created: "iw_log run_created = log_of first_row"
    by (simp add: run_created_def blank_intent_def create_locked_attempt_def open_attempt_def write_record_def Let_def
        first_row_def log_of_def)
  show pressed: "iw_log run_pressed = log_of pressed_row"
    by (simp add: run_pressed_def created run_defs pressed_row_def)
  show reserved: "iw_log run_reserved = log_of (pressed_row \<lparr> ir_reserved_at := Some 3, ir_attempt_state := ''MINT_RESERVED'',
      ir_updated_at := 3 \<rparr>)"
    by (simp add: run_reserved_def pressed run_defs pressed_row_def)
  show "iw_log run_posted = log_of posted_row"
    by (simp add: run_posted_def reserved run_defs pressed_row_def posted_row_def)
qed

lemma one_more: "intent_step\<^sup>*\<^sup>* v w \<Longrightarrow> intent_step w x \<Longrightarrow> intent_step\<^sup>*\<^sup>* v x"
  by (rule rtranclp.rtrancl_into_rtrancl)

lemma more_dispatch:
  assumes "intent_step\<^sup>*\<^sup>* v w" "\<not> isl (fst (record_submit_dispatch ok now (iw_log w)))"
  shows "intent_step\<^sup>*\<^sup>* v (w \<lparr> iw_log := snd (record_submit_dispatch ok now (iw_log w)), iw_pressed := iw_pressed w + 1,
    iw_open := True \<rparr>)"
proof -
  from assms(2) obtain rec where "record_submit_dispatch ok now (iw_log w) = (Inr rec, snd (record_submit_dispatch ok now (iw_log w)))"
    by (cases "record_submit_dispatch ok now (iw_log w)"; cases "fst (record_submit_dispatch ok now (iw_log w))") auto
  then show ?thesis using assms(1) step_dispatched one_more by blast
qed

lemma more_reserve:
  assumes "intent_step\<^sup>*\<^sup>* v w" "\<not> isl (fst (reserve_mint ok now at (iw_log w)))"
  shows "intent_step\<^sup>*\<^sup>* v (w \<lparr> iw_log := snd (reserve_mint ok now at (iw_log w)), iw_reserved := iw_reserved w + 1 \<rparr>)"
proof -
  from assms(2) obtain rec where "reserve_mint ok now at (iw_log w) = (Inr rec, snd (reserve_mint ok now at (iw_log w)))"
    by (cases "reserve_mint ok now at (iw_log w)"; cases "fst (reserve_mint ok now at (iw_log w))") auto
  then show ?thesis using assms(1) step_reserved one_more by blast
qed

lemma more_post:
  assumes "intent_step\<^sup>*\<^sup>* v w" "\<not> isl (fst (record_python_post_invoked ok now at (iw_log w)))"
  shows "intent_step\<^sup>*\<^sup>* v (w \<lparr> iw_log := snd (record_python_post_invoked ok now at (iw_log w)), iw_posted := iw_posted w + 1 \<rparr>)"
proof -
  from assms(2) obtain rec where
    "record_python_post_invoked ok now at (iw_log w) = (Inr rec, snd (record_python_post_invoked ok now at (iw_log w)))"
    by (cases "record_python_post_invoked ok now at (iw_log w)"; cases "fst (record_python_post_invoked ok now at (iw_log w))") auto
  then show ?thesis using assms(1) step_posted one_more by blast
qed

lemma more_demonstrate:
  assumes "intent_step\<^sup>*\<^sup>* v w" "fst (demonstrate_non_dispatch ok checked now evidence (iw_log w)) \<noteq> Inl SendIntentViolation"
  shows "intent_step\<^sup>*\<^sup>* v (w \<lparr> iw_log := snd (demonstrate_non_dispatch ok checked now evidence (iw_log w)), iw_open := False \<rparr>)"
  using one_more [OF assms(1) step_demonstrated [OF prod.collapse [symmetric],
      where ok = ok and checked = checked and now = now and evidence = evidence]] assms(2) by simp

lemma run_reached:
  shows run_created_reached: "intent_step\<^sup>*\<^sup>* blank_intent run_created"
    and run_pressed_reached: "intent_step\<^sup>*\<^sup>* blank_intent run_pressed"
    and run_reserved_reached: "intent_step\<^sup>*\<^sup>* blank_intent run_reserved"
    and run_posted_reached: "intent_step\<^sup>*\<^sup>* blank_intent run_posted"
    and run_unresolved_reached: "intent_step\<^sup>*\<^sup>* blank_intent run_unresolved"
    and run_demonstrated_reached: "intent_step\<^sup>*\<^sup>* blank_intent run_demonstrated"
proof -
  show created: "intent_step\<^sup>*\<^sup>* blank_intent run_created"
    unfolding run_created_def by (rule one_more [OF _ step_create]) simp
  show pressed: "intent_step\<^sup>*\<^sup>* blank_intent run_pressed"
    unfolding run_pressed_def by (rule more_dispatch [OF created]) (simp add: created_log run_defs)
  show reserved: "intent_step\<^sup>*\<^sup>* blank_intent run_reserved"
    unfolding run_reserved_def by (rule more_reserve [OF pressed]) (simp add: pressed_log pressed_row_def run_defs)
  show posted: "intent_step\<^sup>*\<^sup>* blank_intent run_posted"
    unfolding run_posted_def by (rule more_post [OF reserved]) (simp add: reserved_log pressed_row_def run_defs)
  show "intent_step\<^sup>*\<^sup>* blank_intent run_unresolved"
    unfolding run_unresolved_def by (rule one_more [OF posted step_ack_unknown])
  show "intent_step\<^sup>*\<^sup>* blank_intent run_demonstrated"
    unfolding run_demonstrated_def by (rule more_demonstrate [OF pressed]) (simp add: pressed_log pressed_row_def run_defs)
qed

lemma run_crashed_reached: "intent_step\<^sup>*\<^sup>* run_unresolved run_crashed"
  unfolding run_crashed_def by (rule one_more [OF _ step_crash]) simp

lemma run_facts:
  "iw_pressed run_pressed = 1" "iw_open run_pressed" "iw_reserved run_posted = 1" "iw_posted run_posted = 1"
  by (simp_all add: run_posted_def run_reserved_def run_pressed_def run_created_def blank_intent_def)

theorem enter_pressed_once_per_demonstration_witness:
  "iw_pressed run_pressed = 1 \<and> iw_open run_pressed
     \<and> record_submit_dispatch True 9 (iw_log run_pressed) = (Inl SendIntentViolation, iw_log run_pressed)"
  using enter_pressed_once_per_demonstration [OF run_pressed_reached, of True 9] run_facts by blast

theorem mint_spent_once_witness:
  "iw_reserved run_posted = 1 \<and> iw_posted run_posted = 1
     \<and> reserve_mint True 9 9 (iw_log run_posted) = (Inl SendIntentViolation, iw_log run_posted)
     \<and> record_python_post_invoked True 9 9 (iw_log run_posted) = (Inl SendIntentViolation, iw_log run_posted)"
  using mint_spent_once [OF run_posted_reached, of True 9 9] run_facts by blast

lemma demonstrated_reads:
  "resolve_after_restart (il_file (iw_log run_demonstrated)) = Inr (il_record (iw_log run_demonstrated), True)"
  by (simp add: run_demonstrated_def pressed_log pressed_row_def run_defs resolve_after_restart_def load_record_def
      may_dispatch_submit_def SCHEMA_VERSION_def)

theorem restart_answers_safely_witness:
  "resolve_after_restart (il_file (iw_log run_demonstrated)) = Inr (il_record (iw_log run_demonstrated), True)
     \<and> iw_pressed run_demonstrated = 1 \<and> \<not> iw_open run_demonstrated"
  using restart_answers_safely [OF run_demonstrated_reached demonstrated_reads] demonstrated_reads
  by (simp add: run_demonstrated_def run_facts)

lemma unresolved_log:
  "il_file (iw_log run_unresolved) = Written (posted_row \<lparr> ir_route_disposition := None, ir_page_disposition := Some ''live'',
     ir_absence_observed := False, ir_irreconcilable := False, ir_attempt_state := ''ACK_UNKNOWN'', ir_updated_at := 5 \<rparr>)"
  by (simp add: run_unresolved_def posted_log posted_row_def run_defs)

lemma terminal_row_is_final_witness:
  "\<exists>rec'. il_file (iw_log run_crashed) = Written rec' \<and> ir_attempt_state rec' = attempt_value A_ACK_UNKNOWN"
  using terminal_row_is_final [OF run_unresolved_reached run_crashed_reached unresolved_log]
  by (simp add: TERMINAL_ATTEMPT_STATES_def)

section \<open>What the comments promise and the code does not keep\<close>

text \<open>\<open>open_attempt\<close> looks at no file: on an existing attempt it writes a fresh record, counters and states included.\<close>

lemma open_attempt_resets_the_record:
  "il_file (snd (open_attempt True now run_id att sha deadline epoch mint ordinal token expires supersedes l))
     = Written ((fresh_record now run_id att sha) \<lparr> ir_deadline_at := deadline, ir_profile_epoch := epoch,
         ir_mint_id := mint, ir_mint_ordinal := ordinal, ir_relay_token_hash := token,
         ir_relay_token_expires_at := expires, ir_supersedes_unresolved := supersedes, ir_updated_at := now \<rparr>)"
  by (simp add: open_attempt_def write_record_def Let_def)

text \<open>A recovered attempt counts two submits against one observed send, so acceptance fails - and succeeds when the one
  send is recorded twice.\<close>

definition recovered_log :: "nat \<Rightarrow> intent_log" where
  "recovered_log n = ((\<lambda>l. snd (record_send_observed True 6 l)) ^^ n)
     (snd (record_submit_dispatch True 5 (iw_log run_demonstrated)))"

lemma recovered_attempt_not_accepted:
  "map_option acceptance_failure (il_record (recovered_log 1)) = Some (Some Counts_Disagree)"
  "map_option acceptance_failure (il_record (recovered_log 2)) = Some None"
  by (simp_all add: recovered_log_def run_demonstrated_def pressed_log pressed_row_def record_send_observed_def run_defs
      acceptance_failure_def eval_nat_numeral)

text \<open>An attempt whose POST was invoked can be recorded as abandoned before the invocation, and then a fresh mint is
  allowed.\<close>

lemma abandoned_after_the_post:
  "map_option (\<lambda>rec. (ir_invoked_at rec, can_fresh_same_turn_mint rec))
     (il_record (snd (record_abandoned_pre_invoke True 5 ''aborted'' ''closed'' (iw_log run_posted))))
   = Some (Some 4, True)"
  by (simp add: record_abandoned_pre_invoke_def can_fresh_same_turn_mint_def posted_log posted_row_def run_defs)

text \<open>A reserved mint goes back before \<open>MINT_RESERVED\<close>.\<close>

lemma reserved_mint_moves_back:
  "map_option (\<lambda>rec. (ir_attempt_state rec, restart_action_of rec))
     (il_record (snd (attempt_transition True 5 A_LOCKED [] (iw_log run_reserved))))
   = Some (attempt_value A_LOCKED, Restart_From_Locked)"
  by (simp add: restart_action_of_def reserved_log run_defs)

text \<open>A reservation that was not written is enough for the POST: the check reads the memory.\<close>

lemma post_after_failed_reservation:
  "fst (reserve_mint False 3 3 (iw_log run_pressed)) = Inl WriteFailed
     \<and> \<not> isl (fst (record_python_post_invoked True 4 4 (snd (reserve_mint False 3 3 (iw_log run_pressed)))))"
  by (simp add: pressed_log pressed_row_def run_defs commit_def write_record_def)

text \<open>A refused transition keeps in memory what it set before the refusal, and the next call writes it.\<close>

lemma refused_fields_are_written_later:
  "fst (attempt_transition True 5 A_GET_VERIFY [Field (ir_verified_node_id_update (\<lambda>_. Some ''n'')), Unknown_Field] (iw_log run_posted))
     = Inl SendIntentViolation
   \<and> map_option ir_verified_node_id (il_record (snd (record_mint True 6 (snd (attempt_transition True 5 A_GET_VERIFY
         [Field (ir_verified_node_id_update (\<lambda>_. Some ''n'')), Unknown_Field] (iw_log run_posted))))))
     = Some (Some ''n'')"
  by (simp add: record_mint_def posted_log posted_row_def pressed_row_def run_defs)

text \<open>The counters and the submit state of a terminal row still change.\<close>

lemma terminal_row_changes:
  "map_option ir_mints (il_record (iw_log run_unresolved)) = Some 0
   \<and> map_option ir_mints (il_record (snd (record_mint True 6 (iw_log run_unresolved)))) = Some 1"
  by (simp add: record_mint_def run_unresolved_def posted_log posted_row_def pressed_row_def run_defs)

end
