(* ===== verification/Route_Custody.thy ===== *)
theory Route_Custody
  imports CAO_Prelude
begin

text \<open>
  The custody of the browser's held request, \<open>HeldRoute\<close> and \<open>LiveGenerations\<close> of
  \<open>chatgpt_web_runner/in_page_transport.py\<close>. A method takes the object's lock for each section that looks at the
  disposition; a section is one step, and what happens between two sections of a method (the browser answers, the
  holder task ends) is an argument. A route answers, fails, or the call is cancelled while it waits.
\<close>

section \<open>Dispositions\<close>

datatype route_disposition = HELD | FULFILLING | FULFILLED | ABORTED | LOST | RELEASED_TO_ORIGIN

fun route_disposition_value :: "route_disposition \<Rightarrow> string" where
  "route_disposition_value HELD = ''held''"
| "route_disposition_value FULFILLING = ''fulfilling''"
| "route_disposition_value FULFILLED = ''fulfilled''"
| "route_disposition_value ABORTED = ''aborted''"
| "route_disposition_value LOST = ''lost''"
| "route_disposition_value RELEASED_TO_ORIGIN = ''released_to_origin''"

definition TERMINAL_ROUTE_DISPOSITIONS :: "route_disposition set" where
  "TERMINAL_ROUTE_DISPOSITIONS = {FULFILLED, ABORTED, LOST, RELEASED_TO_ORIGIN}"

record generations =
  gn_page :: int
  gn_context :: int
  gn_cdp_session :: int

text \<open>The holder task is there and not done, done with its callback still to run, or settled.\<close>

record held_route =
  hr_generations :: generations
  hr_owner_alive :: bool
  hr_disposition :: route_disposition
  hr_python_invoked :: bool
  hr_terminal_written_at :: "time option"
  hr_owner_death_settled :: bool

datatype route_error = RouteCustodyError | RouteValueError | RouteCancelled

definition new_held_route :: "generations \<Rightarrow> held_route" where
  "new_held_route gens = \<lparr> hr_generations = gens, hr_owner_alive = True, hr_disposition = HELD, hr_python_invoked = False,
     hr_terminal_written_at = None, hr_owner_death_settled = False \<rparr>"

definition set_terminal :: "time \<Rightarrow> route_disposition \<Rightarrow> held_route \<Rightarrow> route_disposition \<times> held_route" where
  "set_terminal now proposal h =
     (if hr_disposition h \<in> TERMINAL_ROUTE_DISPOSITIONS then (hr_disposition h, h)
      else (proposal, h \<lparr> hr_disposition := proposal, hr_terminal_written_at := Some now \<rparr>))"

text \<open>The task ends, and the callback of the event loop runs.\<close>

definition owner_ends :: "held_route \<Rightarrow> held_route" where
  "owner_ends h = h \<lparr> hr_owner_alive := False \<rparr>"

definition on_owner_done :: "time \<Rightarrow> held_route \<Rightarrow> held_route" where
  "on_owner_done now h =
     (let h1 = h \<lparr> hr_owner_death_settled := True \<rparr> in
      if hr_disposition h1 \<notin> TERMINAL_ROUTE_DISPOSITIONS then snd (set_terminal now LOST h1) else h1)"

section \<open>The send guard\<close>

definition guard_for_python :: "generations \<Rightarrow> held_route \<Rightarrow> route_error option" where
  "guard_for_python live h =
     (if \<not> hr_owner_alive h then Some RouteCustodyError
      else if live \<noteq> hr_generations h then Some RouteCustodyError
      else if hr_disposition h \<noteq> HELD then Some RouteCustodyError
      else None)"

text \<open>The second section of \<open>mark_python_invoked\<close>, after the guard.\<close>

definition mark_section :: "held_route \<Rightarrow> (route_error + unit) \<times> held_route" where
  "mark_section h = (if hr_python_invoked h then (Inl RouteCustodyError, h) else (Inr (), h \<lparr> hr_python_invoked := True \<rparr>))"

definition mark_python_invoked ::
  "generations \<Rightarrow> (held_route \<Rightarrow> held_route) \<Rightarrow> held_route \<Rightarrow> (route_error + unit) \<times> held_route"
where
  "mark_python_invoked live meanwhile h =
     (case guard_for_python live h of Some e \<Rightarrow> (Inl e, h) | None \<Rightarrow> mark_section (meanwhile h))"

section \<open>Events and endings\<close>

definition observe :: "time \<Rightarrow> string \<Rightarrow> held_route \<Rightarrow> (route_error + route_disposition) \<times> held_route" where
  "observe now event h =
     (if event \<notin> {''requestfailed'', ''requestfinished'', ''response''} then (Inl RouteValueError, h)
      else if hr_disposition h \<in> TERMINAL_ROUTE_DISPOSITIONS then (Inr (hr_disposition h), h)
      else if event = ''requestfailed'' then map_prod Inr id (set_terminal now LOST h)
      else if hr_disposition h = FULFILLING then map_prod Inr id (set_terminal now FULFILLED h)
      else map_prod Inr id (set_terminal now RELEASED_TO_ORIGIN h))"

definition on_teardown :: "time \<Rightarrow> held_route \<Rightarrow> route_disposition \<times> held_route" where
  "on_teardown now h =
     (if hr_disposition h \<in> TERMINAL_ROUTE_DISPOSITIONS then (hr_disposition h, h) else set_terminal now LOST h)"

datatype route_answer = Route_Done | Route_Failed | Route_Cancelled

text \<open>\<open>abort\<close> keeps the lock while the browser answers: only the callback of the holder task can run meanwhile.\<close>

definition abort_route ::
  "time \<Rightarrow> (held_route \<Rightarrow> held_route) \<Rightarrow> route_answer \<Rightarrow> held_route \<Rightarrow> (route_error + route_disposition) \<times> held_route"
where
  "abort_route now meanwhile answer h =
     (if hr_disposition h \<in> TERMINAL_ROUTE_DISPOSITIONS then (Inr (hr_disposition h), h)
      else if hr_disposition h \<noteq> HELD then (Inl RouteCustodyError, h)
      else
        (case answer of
           Route_Done \<Rightarrow> map_prod Inr id (set_terminal now ABORTED (meanwhile h))
         | Route_Failed \<Rightarrow> map_prod Inr id (set_terminal now LOST (meanwhile h))
         | Route_Cancelled \<Rightarrow> (Inl RouteCancelled, meanwhile h)))"

text \<open>\<open>fulfil\<close> in its two sections.\<close>

definition fulfil_begin :: "held_route \<Rightarrow> (route_error + unit) \<times> held_route" where
  "fulfil_begin h =
     (if hr_disposition h \<noteq> HELD then (Inl RouteCustodyError, h) else (Inr (), h \<lparr> hr_disposition := FULFILLING \<rparr>))"

definition fulfil_end :: "time \<Rightarrow> route_answer \<Rightarrow> held_route \<Rightarrow> (route_error + route_disposition) \<times> held_route" where
  "fulfil_end now answer h =
     (case answer of
        Route_Cancelled \<Rightarrow> (Inl RouteCancelled, h)
      | Route_Failed \<Rightarrow> if hr_disposition h = FULFILLING then map_prod Inr id (set_terminal now LOST h) else (Inr (hr_disposition h), h)
      | Route_Done \<Rightarrow> if hr_disposition h = FULFILLING then map_prod Inr id (set_terminal now FULFILLED h) else (Inr (hr_disposition h), h))"

definition fulfil ::
  "time \<Rightarrow> (held_route \<Rightarrow> held_route) \<Rightarrow> route_answer \<Rightarrow> held_route \<Rightarrow> (route_error + route_disposition) \<times> held_route"
where
  "fulfil now meanwhile answer h =
     (case fulfil_begin h of (Inl e, h1) \<Rightarrow> (Inl e, h1) | (Inr _, h1) \<Rightarrow> fulfil_end now answer (meanwhile h1))"

definition forbid_while_held :: "held_route \<Rightarrow> route_error option" where
  "forbid_while_held h = (if hr_disposition h \<notin> TERMINAL_ROUTE_DISPOSITIONS then Some RouteCustodyError else None)"

section \<open>Live generations\<close>

definition first_generations :: generations where
  "first_generations = \<lparr> gn_page = 1, gn_context = 1, gn_cdp_session = 1 \<rparr>"

definition bump_page :: "generations \<Rightarrow> generations" where
  "bump_page g = g \<lparr> gn_page := gn_page g + 1 \<rparr>"

definition bump_context :: "generations \<Rightarrow> generations" where
  "bump_context g = g \<lparr> gn_context := gn_context g + 1, gn_page := gn_page g + 1 \<rparr>"

definition bump_cdp_session :: "generations \<Rightarrow> generations" where
  "bump_cdp_session g = g \<lparr> gn_cdp_session := gn_cdp_session g + 1 \<rparr>"

section \<open>What a step of the route keeps\<close>

text \<open>Everything that can change a route: its own sections and the holder task.\<close>

inductive route_step :: "held_route \<Rightarrow> held_route \<Rightarrow> bool" where
  rs_owner_ends: "route_step h (owner_ends h)"
| rs_owner_done: "\<not> hr_owner_alive h \<Longrightarrow> route_step h (on_owner_done now h)"
| rs_mark: "route_step h (snd (mark_section h))"
| rs_observe: "route_step h (snd (observe now event h))"
| rs_teardown: "route_step h (snd (on_teardown now h))"
| rs_aborted: "hr_disposition h = HELD \<Longrightarrow> route_step h (snd (set_terminal now ABORTED h))"
| rs_abort_failed: "hr_disposition h = HELD \<Longrightarrow> route_step h (snd (set_terminal now LOST h))"
| rs_fulfil_begin: "route_step h (snd (fulfil_begin h))"
| rs_fulfil_end: "route_step h (snd (fulfil_end now answer h))"

inductive_cases route_stepE: "route_step h h'"

definition route_inv :: "held_route \<Rightarrow> bool" where
  "route_inv h \<longleftrightarrow>
     (hr_terminal_written_at h \<noteq> None \<longleftrightarrow> hr_disposition h \<in> TERMINAL_ROUTE_DISPOSITIONS)
     \<and> (hr_owner_death_settled h \<longrightarrow> \<not> hr_owner_alive h \<and> hr_disposition h \<in> TERMINAL_ROUTE_DISPOSITIONS)"

lemmas route_defs = owner_ends_def on_owner_done_def mark_section_def observe_def on_teardown_def set_terminal_def
  fulfil_begin_def fulfil_end_def TERMINAL_ROUTE_DISPOSITIONS_def Let_def

lemma route_inv_step: "route_inv h \<Longrightarrow> route_step h h' \<Longrightarrow> route_inv h'"
  by (erule route_stepE) (auto simp: route_inv_def route_defs split: route_answer.splits)

lemma route_inv_new: "route_inv (new_held_route gens)"
  by (simp add: route_inv_def new_held_route_def TERMINAL_ROUTE_DISPOSITIONS_def)

interpretation route: transition_system "\<lambda>h. \<exists>gens. h = new_held_route gens" route_step route_inv
  by unfold_locales (auto intro: route_inv_new route_inv_step)

text \<open>The order of the dispositions: a terminal is final, a fulfilment under way ends fulfilled or lost.\<close>

fun disposition_after :: "route_disposition \<Rightarrow> route_disposition \<Rightarrow> bool" where
  "disposition_after HELD d = True"
| "disposition_after FULFILLING d = (d \<in> {FULFILLING, FULFILLED, LOST})"
| "disposition_after c d = (d = c)"

lemma disposition_after_refl: "disposition_after d d"
  by (cases d) auto

lemma disposition_after_trans: "disposition_after a b \<Longrightarrow> disposition_after b c \<Longrightarrow> disposition_after a c"
  by (cases a; cases b) auto

definition route_later :: "held_route \<Rightarrow> held_route \<Rightarrow> bool" where
  "route_later h h' \<longleftrightarrow>
     disposition_after (hr_disposition h) (hr_disposition h')
     \<and> (hr_disposition h \<in> TERMINAL_ROUTE_DISPOSITIONS \<longrightarrow> hr_terminal_written_at h' = hr_terminal_written_at h)
     \<and> (hr_python_invoked h \<longrightarrow> hr_python_invoked h') \<and> (\<not> hr_owner_alive h \<longrightarrow> \<not> hr_owner_alive h')
     \<and> hr_generations h' = hr_generations h"

lemma route_later_step: "route_step h h' \<Longrightarrow> route_later h h'"
  by (erule route_stepE; cases "hr_disposition h")
    (auto simp: route_later_def route_defs split: route_answer.splits)

lemma route_later_refl: "route_later h h"
  by (simp add: route_later_def disposition_after_refl)

lemma terminal_after: "disposition_after a b \<Longrightarrow> a \<in> TERMINAL_ROUTE_DISPOSITIONS \<Longrightarrow> b = a"
  by (cases a) (auto simp: TERMINAL_ROUTE_DISPOSITIONS_def)

lemma route_later_trans:
  assumes "route_later a b" "route_later b c"
  shows "route_later a c"
  using assms disposition_after_trans terminal_after unfolding route_later_def by metis

lemma route_later_run:
  assumes "route_step\<^sup>*\<^sup>* h h'"
  shows "route_later h h'"
  using assms
  by (induction rule: rtranclp_induct) (auto intro: route_later_refl route_later_trans route_later_step)

text \<open>The methods are runs of their sections.\<close>

lemma mark_python_invoked_run:
  assumes "route_step\<^sup>*\<^sup>* h (meanwhile h)"
  shows "route_step\<^sup>*\<^sup>* h (snd (mark_python_invoked live meanwhile h))"
  using assms rs_mark by (auto simp: mark_python_invoked_def split: option.splits intro: rtranclp.rtrancl_into_rtrancl)

lemma fulfil_run:
  assumes "\<And>x. route_step\<^sup>*\<^sup>* x (meanwhile x)"
  shows "route_step\<^sup>*\<^sup>* h (snd (fulfil now meanwhile answer h))"
proof -
  obtain res h1 where b: "fulfil_begin h = (res, h1)" by fastforce
  then have 1: "route_step\<^sup>*\<^sup>* h h1" using rs_fulfil_begin [of h] by auto
  show ?thesis
  proof (cases res)
    case (Inr u)
    have "route_step\<^sup>*\<^sup>* h (meanwhile h1)" using 1 assms by (rule rtranclp_trans)
    then show ?thesis using b Inr rs_fulfil_end [of "meanwhile h1" now answer]
      by (simp add: fulfil_def rtranclp.rtrancl_into_rtrancl)
  qed (use b 1 in \<open>simp add: fulfil_def\<close>)
qed

lemma abort_run:
  assumes "meanwhile h = h \<or> meanwhile h = on_owner_done later (owner_ends h)"
  shows "route_step\<^sup>*\<^sup>* h (snd (abort_route now meanwhile answer h))"
proof -
  have done_run: "route_step\<^sup>*\<^sup>* h (on_owner_done later (owner_ends h))"
    by (rule rtranclp.rtrancl_into_rtrancl, rule r_into_rtranclp, rule rs_owner_ends, rule rs_owner_done)
      (simp add: owner_ends_def)
  have absorbed: "snd (set_terminal now d (on_owner_done later (owner_ends h))) = on_owner_done later (owner_ends h)" for d
    by (simp add: route_defs)
  have ended: "route_step\<^sup>*\<^sup>* h (snd (set_terminal now d (meanwhile h)))" if "hr_disposition h = HELD" "d = ABORTED \<or> d = LOST" for d
    using assms done_run absorbed rs_aborted [OF that(1), of now] rs_abort_failed [OF that(1), of now] that(2) by auto
  have waited: "route_step\<^sup>*\<^sup>* h (meanwhile h)" using assms done_run by auto
  show ?thesis
    using ended waited by (simp add: abort_route_def split: route_answer.splits)
qed

end
