(* ===== verification/Origin_Send.thy ===== *)
theory Origin_Send
  imports Send_Intent_Promises Route_Custody
begin

text \<open>
  The one-shot sender of \<open>chatgpt_web_runner/api_drive.py\<close>: the guards, the durable reservation, the mark on the
  held route and the POST, as the sections between which other tasks of the event loop, the browser and a crash
  can come, over the send-intent record and the held route; the rewriting of the captured body; the split of the
  captured headers. What \<open>curl_cffi\<close> does with the request is outside.
\<close>

section \<open>The captured request\<close>

definition API_DRIVE_IMPERSONATE :: string where "API_DRIVE_IMPERSONATE = ''chrome136''"

definition VALIDATED_POSTURES :: "string set" where "VALIDATED_POSTURES = {API_DRIVE_IMPERSONATE}"

datatype drive_error = ApiDriveError | DriveAttributeError

definition validate_impersonation :: "string \<Rightarrow> drive_error option" where
  "validate_impersonation posture = (if posture \<notin> VALIDATED_POSTURES then Some ApiDriveError else None)"

text \<open>\<open>str.upper\<close> on the ASCII letters: comparing with \<open>POST\<close> needs no more, as no other character has one of these
  four letters as its upper case.\<close>

definition upper_ascii :: "string \<Rightarrow> string" where
  "upper_ascii = map (\<lambda>c. let n = of_char c :: nat in if 97 \<le> n \<and> n \<le> 122 then char_of (n - 32) else c)"

fun contains :: "string \<Rightarrow> string \<Rightarrow> bool" where
  "contains [] sub = (sub = [])"
| "contains (c # s) sub = (startswith (c # s) sub \<or> contains s sub)"

definition is_conversation_post :: "string \<Rightarrow> string \<Rightarrow> bool" where
  "is_conversation_post verb url \<longleftrightarrow>
     upper_ascii verb = ''POST'' \<and> contains url ''/backend-api/f/conversation'' \<and> \<not> contains url ''/prepare''"

text \<open>Objects of Python: reading a key, and an assignment, which keeps the place of a key that is there.\<close>

fun obj_put :: "string \<Rightarrow> json \<Rightarrow> (string \<times> json) list \<Rightarrow> (string \<times> json) list" where
  "obj_put k v [] = [(k, v)]"
| "obj_put k v ((k', v') # kvs) = (if k' = k then (k', v) # kvs else (k', v') # obj_put k v kvs)"

lemma obj_put_get: "map_of (obj_put k v kvs) k' = (if k' = k then Some v else map_of kvs k')"
  by (induction kvs) auto

lemma obj_put_keys: "map fst (obj_put k v kvs) = (if k \<in> set (map fst kvs) then map fst kvs else map fst kvs @ [k])"
  by (induction kvs) (auto simp: rev_image_eqI)

text \<open>\<open>rewrite_first_use_body\<close> on the parsed body: the body and the message that will be posted.\<close>

definition optional_put :: "string \<Rightarrow> string option \<Rightarrow> (string \<times> json) list \<Rightarrow> (string \<times> json) list" where
  "optional_put k v kvs = (case v of None \<Rightarrow> kvs | Some s \<Rightarrow> obj_put k (JStr s) kvs)"

definition rewrite_first_use_body ::
  "string \<Rightarrow> string \<Rightarrow> string option \<Rightarrow> string option \<Rightarrow> json \<Rightarrow> drive_error + json \<times> json"
where
  "rewrite_first_use_body prompt user_id conversation parent body =
     (case body of
        JObj b \<Rightarrow>
          (case map_of b ''messages'' of
             Some (JArr (JObj m # rest)) \<Rightarrow>
               (case map_of m ''author'' of
                  Some (JObj author) \<Rightarrow>
                    if map_of author ''role'' \<noteq> Some (JStr ''user'') then Inl ApiDriveError
                    else
                      (case map_of m ''content'' of
                         Some (JObj content) \<Rightarrow>
                           (case map_of content ''parts'' of
                              Some (JArr _) \<Rightarrow>
                                let message = JObj (obj_put ''content'' (JObj (obj_put ''parts'' (JArr [JStr prompt]) content))
                                               (obj_put ''id'' (JStr user_id) m))
                                in Inr (JObj (optional_put ''parent_message_id'' parent (optional_put ''conversation_id'' conversation
                                          (obj_put ''messages'' (JArr (message # rest)) b))), message)
                            | _ \<Rightarrow> Inl ApiDriveError)
                       | _ \<Rightarrow> Inl ApiDriveError)
                | _ \<Rightarrow> Inl ApiDriveError)
           | _ \<Rightarrow> Inl ApiDriveError)
      | _ \<Rightarrow> Inl DriveAttributeError)"

text \<open>\<open>_headers_and_cookies\<close>: the cookie headers go to a jar scoped to the host; \<open>SimpleCookie\<close> and \<open>urlsplit\<close> are arguments.\<close>

fun headers_and_cookies ::
  "(string \<Rightarrow> (string \<times> string) list) \<Rightarrow> string \<Rightarrow> (string \<times> string) list
     \<Rightarrow> (string \<times> string) list \<times> (string \<times> string \<times> string \<times> string) list"
where
  "headers_and_cookies parse_cookie host [] = ([], [])"
| "headers_and_cookies parse_cookie host ((name, value) # rest) =
     (let (headers, cookies) = headers_and_cookies parse_cookie host rest; low = map lower_char name in
      if low = ''content-length'' then (headers, cookies)
      else if low \<noteq> ''cookie'' then ((name, value) # headers, cookies)
      else (headers, map (\<lambda>(k, v). (k, v, host, ''/'')) (parse_cookie value) @ cookies))"

section \<open>The sender\<close>

text \<open>Where a call of \<open>send_once\<close> stands.\<close>

datatype send_point = At_Guard | At_Reserve | At_Mark_Guard | At_Mark | At_Record | At_Post | Call_Over

text \<open>One section of a call: \<open>live\<close> is the live triple, \<open>verb\<close> the method of the captured request, \<open>ok\<close> says whether a
  write of the record is carried out. An exception ends the call.\<close>

fun send_section ::
  "generations \<Rightarrow> string \<Rightarrow> bool \<Rightarrow> time \<Rightarrow> time \<Rightarrow> send_point \<Rightarrow> intent_log \<Rightarrow> held_route
     \<Rightarrow> send_point \<times> intent_log \<times> held_route"
where
  "send_section live verb ok now stamp At_Guard l h =
     (if guard_for_python live h \<noteq> None then (Call_Over, l, h)
      else if upper_ascii verb \<noteq> ''POST'' then (Call_Over, l, h)
      else (At_Reserve, l, h))"
| "send_section live verb ok now stamp At_Reserve l h =
     (case reserve_mint ok now stamp l of (Inl _, l') \<Rightarrow> (Call_Over, l', h) | (Inr _, l') \<Rightarrow> (At_Mark_Guard, l', h))"
| "send_section live verb ok now stamp At_Mark_Guard l h =
     (if guard_for_python live h \<noteq> None then (Call_Over, l, h) else (At_Mark, l, h))"
| "send_section live verb ok now stamp At_Mark l h =
     (case mark_section h of (Inl _, h') \<Rightarrow> (Call_Over, l, h') | (Inr _, h') \<Rightarrow> (At_Record, l, h'))"
| "send_section live verb ok now stamp At_Record l h =
     (case record_python_post_invoked ok now stamp l of (Inl _, l') \<Rightarrow> (Call_Over, l', h) | (Inr _, l') \<Rightarrow> (At_Post, l', h))"
| "send_section live verb ok now stamp At_Post l h = (Call_Over, l, h)"
| "send_section live verb ok now stamp Call_Over l h = (Call_Over, l, h)"

section \<open>Runs\<close>

text \<open>The calls in flight, the record with its ghosts, the route of the process, and how often the origin was posted to.\<close>

record origin_world =
  ow_intent :: intent_world
  ow_route :: held_route
  ow_calls :: "send_point list"
  ow_posts :: int

definition blank_origin :: "generations \<Rightarrow> origin_world" where
  "blank_origin gens = \<lparr> ow_intent = blank_intent, ow_route = new_held_route gens, ow_calls = [], ow_posts = 0 \<rparr>"

definition advance_call :: "nat \<Rightarrow> send_point \<Rightarrow> intent_log \<Rightarrow> held_route \<Rightarrow> origin_world \<Rightarrow> origin_world" where
  "advance_call i p l h w =
     (let q = ow_calls w ! i; v = ow_intent w in
      w \<lparr> ow_intent := v \<lparr> iw_log := l,
             iw_reserved := iw_reserved v + (if q = At_Reserve \<and> p = At_Mark_Guard then 1 else 0),
             iw_posted := iw_posted v + (if q = At_Record \<and> p = At_Post then 1 else 0) \<rparr>,
          ow_route := h, ow_calls := (ow_calls w)[i := p], ow_posts := ow_posts w + (if q = At_Post then 1 else 0) \<rparr>)"

text \<open>A call starts with a validated posture; a section of a call; any other use of the record; anything that happens to
  the route; and a crash, after which the next process may hold another route.\<close>

inductive origin_step :: "origin_world \<Rightarrow> origin_world \<Rightarrow> bool" where
  os_start: "validate_impersonation posture = None \<Longrightarrow> origin_step w (w \<lparr> ow_calls := ow_calls w @ [At_Guard] \<rparr>)"
| os_section: "i < length (ow_calls w)
    \<Longrightarrow> send_section live verb ok now stamp (ow_calls w ! i) (iw_log (ow_intent w)) (ow_route w) = (p, l, h)
    \<Longrightarrow> origin_step w (advance_call i p l h w)"
| os_record: "intent_step (ow_intent w) v \<Longrightarrow> origin_step w (w \<lparr> ow_intent := v \<rparr>)"
| os_route: "route_step (ow_route w) h \<Longrightarrow> origin_step w (w \<lparr> ow_route := h \<rparr>)"
| os_crash: "origin_step w (w \<lparr> ow_intent := (ow_intent w) \<lparr> iw_log := (iw_log (ow_intent w)) \<lparr> il_record := None \<rparr> \<rparr>,
    ow_route := new_held_route gens, ow_calls := [] \<rparr>)"

text \<open>Seen from the record, every section is a step of the record, or none.\<close>

lemma section_steps_record:
  assumes "send_section live verb ok now stamp (ow_calls w ! i) (iw_log (ow_intent w)) (ow_route w) = (p, l, h)"
  shows "intent_step\<^sup>=\<^sup>= (ow_intent w) (ow_intent (advance_call i p l h w))"
proof (cases "ow_calls w ! i")
  case At_Reserve
  obtain res l' where r: "reserve_mint ok now stamp (iw_log (ow_intent w)) = (res, l')" by fastforce
  show ?thesis
  proof (cases res)
    case (Inl e)
    then show ?thesis using assms r At_Reserve step_not_reserved [OF r [unfolded Inl]]
      by (auto simp: advance_call_def Let_def)
  next
    case (Inr rec)
    then show ?thesis using assms r At_Reserve step_reserved [OF r [unfolded Inr]]
      by (auto simp: advance_call_def Let_def)
  qed
next
  case At_Record
  obtain res l' where r: "record_python_post_invoked ok now stamp (iw_log (ow_intent w)) = (res, l')" by fastforce
  show ?thesis
  proof (cases res)
    case (Inl e)
    then show ?thesis using assms r At_Record step_not_posted [OF r [unfolded Inl]]
      by (auto simp: advance_call_def Let_def)
  next
    case (Inr rec)
    then show ?thesis using assms r At_Record step_posted [OF r [unfolded Inr]]
      by (auto simp: advance_call_def Let_def)
  qed
qed (use assms in \<open>auto simp: advance_call_def Let_def split: if_splits sum.splits prod.splits\<close>)

lemma origin_step_record: "origin_step w w' \<Longrightarrow> intent_step\<^sup>=\<^sup>= (ow_intent w) (ow_intent w')"
proof (induction rule: origin_step.induct)
  case (os_section i w live verb ok now stamp p l h)
  show ?case using os_section.hyps(2) by (rule section_steps_record)
next
  case (os_crash w gens)
  show ?case using step_crash [of "ow_intent w"] by simp
qed auto

text \<open>So every run of the sender is, for the record, a run of the record.\<close>

lemma origin_run_record: "origin_step\<^sup>*\<^sup>* w w' \<Longrightarrow> intent_step\<^sup>*\<^sup>* (ow_intent w) (ow_intent w')"
proof (induction rule: rtranclp_induct)
  case (step y z)
  from origin_step_record [OF step.hyps(2)] have "intent_step\<^sup>*\<^sup>* (ow_intent y) (ow_intent z)" by auto
  with step.IH show ?case by (rule rtranclp_trans)
qed simp

section \<open>The calls and the ghosts\<close>

definition at_point :: "send_point set \<Rightarrow> send_point list \<Rightarrow> int" where
  "at_point ps calls = int (length (filter (\<lambda>p. p \<in> ps) calls))"

lemma at_point_nonneg: "0 \<le> at_point ps calls"
  by (simp add: at_point_def)

lemma at_point_simps [simp]:
  "at_point ps [] = 0" "at_point ps (p # calls) = at_point ps calls + (if p \<in> ps then 1 else 0)"
  by (simp_all add: at_point_def)

lemma at_point_append [simp]: "at_point ps (calls @ rest) = at_point ps calls + at_point ps rest"
  by (simp add: at_point_def)

lemma at_point_update:
  "i < length calls
    \<Longrightarrow> at_point ps (calls[i := p]) = at_point ps calls - (if calls ! i \<in> ps then 1 else 0) + (if p \<in> ps then 1 else 0)"
proof (induction calls arbitrary: i)
  case (Cons c cs)
  show ?case
  proof (cases i)
    case (Suc j)
    then show ?thesis using Cons.IH [of j] Cons.prems by simp
  qed simp
qed simp

definition origin_inv :: "origin_world \<Rightarrow> bool" where
  "origin_inv w \<longleftrightarrow>
     0 \<le> ow_posts w \<and> ow_posts w + at_point {At_Post} (ow_calls w) \<le> iw_posted (ow_intent w)
     \<and> ow_posts w + at_point {At_Mark_Guard, At_Mark, At_Record, At_Post} (ow_calls w) \<le> iw_reserved (ow_intent w)
     \<and> at_point {At_Record, At_Post} (ow_calls w) \<le> (if hr_python_invoked (ow_route w) then 1 else 0)"

lemma intent_step_ghosts: "intent_step v v' \<Longrightarrow> iw_posted v \<le> iw_posted v' \<and> iw_reserved v \<le> iw_reserved v'"
  by (induction rule: intent_step.induct) auto

lemma route_step_invoked: "route_step h h' \<Longrightarrow> hr_python_invoked h \<Longrightarrow> hr_python_invoked h'"
  using route_later_step unfolding route_later_def by blast

lemma origin_inv_section:
  assumes inv: "origin_inv w" and i: "i < length (ow_calls w)"
    and run: "send_section live verb ok now stamp (ow_calls w ! i) (iw_log (ow_intent w)) (ow_route w) = (p, l, h)"
  shows "origin_inv (advance_call i p l h w)"
proof -
  have mark: "hr_python_invoked (snd (mark_section x)) \<and> (fst (mark_section x) = Inr () \<longrightarrow> \<not> hr_python_invoked x)" for x
    by (simp add: mark_section_def)
  have pos: "0 \<le> at_point ps (ow_calls w)" for ps by (rule at_point_nonneg)
  show ?thesis
  proof (cases "ow_calls w ! i")
    case At_Mark
    then show ?thesis
      using inv i run pos [of "{At_Record, At_Post}"] at_point_update [OF i]
      by (auto simp: origin_inv_def advance_call_def Let_def mark_section_def split: if_splits)
  qed (use inv i run at_point_update [OF i] in
      \<open>auto simp: origin_inv_def advance_call_def Let_def split: if_splits sum.splits prod.splits\<close>)
qed

lemma origin_inv_step:
  assumes "origin_step w w'" "origin_inv w"
  shows "origin_inv w'"
  using assms
proof (induction rule: origin_step.induct)
  case (os_section i w live verb ok now stamp p l h)
  show ?case using os_section.prems os_section.hyps by (rule origin_inv_section)
next
  case (os_record w v)
  then show ?case using intent_step_ghosts [OF os_record.hyps] by (simp add: origin_inv_def)
next
  case (os_route w h)
  then show ?case using route_step_invoked [OF os_route.hyps] by (auto simp: origin_inv_def split: if_splits)
next
  case (os_crash w gens)
  then show ?case using at_point_nonneg [of "{At_Post}" "ow_calls w"]
      at_point_nonneg [of "{At_Mark_Guard, At_Mark, At_Record, At_Post}" "ow_calls w"]
    by (auto simp: origin_inv_def new_held_route_def)
qed (simp add: origin_inv_def)

lemma origin_inv_blank: "origin_inv (blank_origin gens)"
  by (simp add: origin_inv_def blank_origin_def blank_intent_def)

interpretation senders: transition_system "\<lambda>w. \<exists>gens. w = blank_origin gens" origin_step origin_inv
  by unfold_locales (auto intro: origin_inv_blank origin_inv_step)

lemma origin_reachable: "origin_step\<^sup>*\<^sup>* (blank_origin gens) w \<Longrightarrow> origin_inv w"
  using senders.inv_reachable by blast

lemma origin_record_reachable:
  assumes "origin_step\<^sup>*\<^sup>* (blank_origin gens) w"
  shows "intent_step\<^sup>*\<^sup>* blank_intent (ow_intent w)"
  using origin_run_record [OF assms] by (simp add: blank_origin_def)

text \<open>What the file says once the mint is reserved and the POST recorded.\<close>

lemma file_after_post:
  assumes run: "intent_step\<^sup>*\<^sup>* blank_intent v" and v: "iw_posted v = 1" "iw_reserved v = 1"
  shows "\<exists>rec. il_file (iw_log v) = Written rec \<and> ir_reserved_at rec \<noteq> None \<and> ir_invoked_at rec \<noteq> None"
proof (cases "il_file (iw_log v)")
  case No_File
  then show ?thesis using empty_file_done [OF run] v by (simp add: nothing_done_def)
next
  case (Written rec)
  then show ?thesis using file_core [OF run Written] v by (auto simp: core_good_def core_def)
qed (use intent_reachable [OF run] in \<open>auto simp: intent_inv_def tidy_def\<close>)

text \<open>(C2) Whatever calls of \<open>send_once\<close> are in flight, and however browser events, failed writes, other uses of the
  record and crashes come between their sections, the origin is posted to at most once for an attempt, and when it
  was, the file on disk says that the mint was reserved and invoked.\<close>

theorem origin_posted_once:
  assumes "origin_step\<^sup>*\<^sup>* (blank_origin gens) w"
  shows "ow_posts w \<le> 1
    \<and> (ow_posts w = 1 \<longrightarrow> (\<exists>rec. il_file (iw_log (ow_intent w)) = Written rec \<and> ir_reserved_at rec \<noteq> None \<and> ir_invoked_at rec \<noteq> None))"
proof -
  have inv: "origin_inv w" using assms by (rule origin_reachable)
  have run: "intent_step\<^sup>*\<^sup>* blank_intent (ow_intent w)" using assms by (rule origin_record_reachable)
  have "iw_posted (ow_intent w) \<in> {0, 1}" "iw_reserved (ow_intent w) \<in> {0, 1}"
    using inv_ranges(2,3) [OF intent_reachable [OF run]] by auto
  moreover have "ow_posts w \<le> iw_posted (ow_intent w)" "ow_posts w \<le> iw_reserved (ow_intent w)"
    using inv at_point_nonneg [of "{At_Post}" "ow_calls w"]
      at_point_nonneg [of "{At_Mark_Guard, At_Mark, At_Record, At_Post}" "ow_calls w"]
    by (auto simp: origin_inv_def)
  ultimately show ?thesis using file_after_post [OF run] by auto
qed

section \<open>A run\<close>

definition next_section :: "origin_world \<Rightarrow> origin_world" where
  "next_section w = (case send_section first_generations ''post'' True 3 3 (ow_calls w ! 0) (iw_log (ow_intent w)) (ow_route w) of
     (p, l, h) \<Rightarrow> advance_call 0 p l h w)"

lemma next_section_step:
  assumes "ow_calls w \<noteq> []"
  shows "origin_step w (next_section w) \<and> ow_calls (next_section w) \<noteq> []"
proof -
  obtain p l h where s: "send_section first_generations ''post'' True 3 3 (ow_calls w ! 0) (iw_log (ow_intent w)) (ow_route w) = (p, l, h)"
    using prod_cases3 by blast
  have "next_section w = advance_call 0 p l h w" using s by (simp add: next_section_def)
  then show ?thesis
    using os_section [OF _ s] assms by (simp add: advance_call_def Let_def)
qed

lemma next_sections_run:
  assumes "ow_calls w \<noteq> []"
  shows "origin_step\<^sup>*\<^sup>* w ((next_section ^^ n) w) \<and> ow_calls ((next_section ^^ n) w) \<noteq> []"
  by (induction n) (use assms next_section_step in \<open>auto intro: rtranclp.rtrancl_into_rtrancl\<close>)

lemma record_run_lifts: "intent_step\<^sup>*\<^sup>* v v' \<Longrightarrow> origin_step\<^sup>*\<^sup>* (w \<lparr> ow_intent := v \<rparr>) (w \<lparr> ow_intent := v' \<rparr>)"
proof (induction rule: rtranclp_induct)
  case (step y z)
  have "origin_step (w \<lparr> ow_intent := y \<rparr>) (w \<lparr> ow_intent := z \<rparr>)"
    using os_record [of "w \<lparr> ow_intent := y \<rparr>" z] step.hyps(2) by simp
  with step.IH show ?case by simp
qed simp

definition send_started :: origin_world where
  "send_started = (blank_origin first_generations) \<lparr> ow_intent := run_pressed, ow_calls := [At_Guard] \<rparr>"

lemma send_started_reached: "origin_step\<^sup>*\<^sup>* (blank_origin first_generations) send_started"
proof -
  have "origin_step\<^sup>*\<^sup>* (blank_origin first_generations) ((blank_origin first_generations) \<lparr> ow_intent := run_pressed \<rparr>)"
    using record_run_lifts [OF run_pressed_reached, of "blank_origin first_generations"] by (simp add: blank_origin_def)
  then show ?thesis
    using os_start [of API_DRIVE_IMPERSONATE "(blank_origin first_generations) \<lparr> ow_intent := run_pressed \<rparr>"]
    by (simp add: send_started_def blank_origin_def validate_impersonation_def VALIDATED_POSTURES_def
        rtranclp.rtrancl_into_rtrancl)
qed

definition send_finished :: origin_world where
  "send_finished = (next_section ^^ 6) send_started"

lemma send_finished_reached: "origin_step\<^sup>*\<^sup>* (blank_origin first_generations) send_finished"
proof -
  have "ow_calls send_started \<noteq> []" by (simp add: send_started_def)
  from next_sections_run [OF this, of 6] have "origin_step\<^sup>*\<^sup>* send_started send_finished"
    unfolding send_finished_def by blast
  with send_started_reached show ?thesis by (rule rtranclp_trans)
qed

text \<open>The run section by section.\<close>

definition reserved_row :: intent_record where
  "reserved_row = pressed_row \<lparr> ir_reserved_at := Some 3, ir_attempt_state := ''MINT_RESERVED'', ir_updated_at := 3 \<rparr>"

definition invoked_row :: intent_record where
  "invoked_row = reserved_row \<lparr> ir_invoked_at := Some 3, ir_attempt_state := ''PYTHON_POST_INVOKED'', ir_updated_at := 3 \<rparr>"

definition send_world :: "send_point \<Rightarrow> intent_record \<Rightarrow> int \<Rightarrow> int \<Rightarrow> held_route \<Rightarrow> int \<Rightarrow> origin_world" where
  "send_world p rec reserved posted h n = \<lparr> ow_intent = run_pressed \<lparr> iw_log := log_of rec, iw_reserved := reserved,
     iw_posted := posted \<rparr>, ow_route = h, ow_calls = [p], ow_posts = n \<rparr>"

lemma pressed_ghosts: "iw_reserved run_pressed = 0" "iw_posted run_pressed = 0"
  by (simp_all add: run_pressed_def run_created_def blank_intent_def)

lemma started_world: "send_started = send_world At_Guard pressed_row 0 0 (new_held_route first_generations) 0"
  by (simp add: send_started_def send_world_def blank_origin_def flip: pressed_log) (simp add: pressed_ghosts)

lemma sections:
  "guard_for_python first_generations h = None
     \<Longrightarrow> next_section (send_world At_Guard rec r q h n) = send_world At_Reserve rec r q h n"
  "next_section (send_world At_Reserve pressed_row r q h n) = send_world At_Mark_Guard reserved_row (r + 1) q h n"
  "guard_for_python first_generations h = None
     \<Longrightarrow> next_section (send_world At_Mark_Guard rec r q h n) = send_world At_Mark rec r q h n"
  "\<not> hr_python_invoked h
     \<Longrightarrow> next_section (send_world At_Mark rec r q h n) = send_world At_Record rec r q (h \<lparr> hr_python_invoked := True \<rparr>) n"
  "next_section (send_world At_Record reserved_row r q h n) = send_world At_Post invoked_row r (q + 1) h n"
  "next_section (send_world At_Post rec r q h n) = send_world Call_Over rec r q h (n + 1)"
proof -
  have r: "reserve_mint True 3 3 (log_of pressed_row) = (Inr reserved_row, log_of reserved_row)"
    by (simp add: reserved_row_def pressed_row_def run_defs)
  have q: "record_python_post_invoked True 3 3 (log_of reserved_row) = (Inr invoked_row, log_of invoked_row)"
    by (simp add: invoked_row_def reserved_row_def pressed_row_def run_defs)
  have u: "upper_ascii ''post'' = ''POST''" by code_simp
  show "guard_for_python first_generations h = None
     \<Longrightarrow> next_section (send_world At_Guard rec r q h n) = send_world At_Reserve rec r q h n"
    by (simp add: next_section_def advance_call_def send_world_def Let_def u)
  show "next_section (send_world At_Reserve pressed_row r q h n) = send_world At_Mark_Guard reserved_row (r + 1) q h n"
    by (simp add: next_section_def advance_call_def send_world_def Let_def r)
  show "guard_for_python first_generations h = None
     \<Longrightarrow> next_section (send_world At_Mark_Guard rec r q h n) = send_world At_Mark rec r q h n"
    by (simp add: next_section_def advance_call_def send_world_def Let_def)
  show "\<not> hr_python_invoked h
     \<Longrightarrow> next_section (send_world At_Mark rec r q h n) = send_world At_Record rec r q (h \<lparr> hr_python_invoked := True \<rparr>) n"
    by (simp add: next_section_def advance_call_def send_world_def Let_def mark_section_def)
  show "next_section (send_world At_Record reserved_row r q h n) = send_world At_Post invoked_row r (q + 1) h n"
    by (simp add: next_section_def advance_call_def send_world_def Let_def q)
  show "next_section (send_world At_Post rec r q h n) = send_world Call_Over rec r q h (n + 1)"
    by (simp add: next_section_def advance_call_def send_world_def Let_def)
qed

lemma new_route_guard: "guard_for_python gens (new_held_route gens) = None" "\<not> hr_python_invoked (new_held_route gens)"
  by (simp_all add: guard_for_python_def new_held_route_def)

lemma send_finished_posts: "ow_posts send_finished = 1"
  by (simp add: send_finished_def started_world eval_nat_numeral sections new_route_guard) (simp add: send_world_def)

theorem origin_posted_once_witness:
  "ow_posts send_finished = 1
    \<and> (\<exists>rec. il_file (iw_log (ow_intent send_finished)) = Written rec \<and> ir_reserved_at rec \<noteq> None \<and> ir_invoked_at rec \<noteq> None)"
  using origin_posted_once [OF send_finished_reached] send_finished_posts by simp

section \<open>What is sent\<close>

lemma optional_put_get: "map_of (optional_put k v kvs) k' = (if k' = k \<and> v \<noteq> None then map_option JStr v else map_of kvs k')"
  by (cases v) (auto simp: optional_put_def obj_put_get)

text \<open>The rewritten body is the captured body but for the first message, in which only the id and the parts of the content
  are replaced, and the two ids that were asked for.\<close>

lemma rewrite_inv:
  assumes "rewrite_first_use_body prompt user_id conversation parent body = Inr (out, message)"
  obtains b m rest content where "body = JObj b" "map_of b ''messages'' = Some (JArr (JObj m # rest))"
    "map_of m ''content'' = Some (JObj content)"
    "message = JObj (obj_put ''content'' (JObj (obj_put ''parts'' (JArr [JStr prompt]) content)) (obj_put ''id'' (JStr user_id) m))"
    "out = JObj (optional_put ''parent_message_id'' parent (optional_put ''conversation_id'' conversation
       (obj_put ''messages'' (JArr (message # rest)) b)))"
  using assms
  by (auto simp: rewrite_first_use_body_def Let_def split: json.splits option.splits list.splits if_splits)

lemma rewrite_body_keeps_the_rest:
  assumes "rewrite_first_use_body prompt user_id conversation parent (JObj b) = Inr (JObj b', JObj message)"
    and "map_of b ''messages'' = Some (JArr (JObj m # rest))"
  shows "map_of b' ''messages'' = Some (JArr (JObj message # rest))"
    and "k \<notin> {''messages'', ''conversation_id'', ''parent_message_id''} \<Longrightarrow> map_of b' k = map_of b k"
    and "map_of message ''id'' = Some (JStr user_id)"
    and "k \<notin> {''id'', ''content''} \<Longrightarrow> map_of message k = map_of m k"
  by (rule rewrite_inv [OF assms(1)]; use assms(2) in \<open>auto simp: optional_put_get obj_put_get\<close>)+

text \<open>No cookie and no recomputed length is sent as a header.\<close>

lemma headers_without_cookie:
  "(name, value) \<in> set (fst (headers_and_cookies parse_cookie host captured))
     \<Longrightarrow> map lower_char name \<noteq> ''cookie'' \<and> map lower_char name \<noteq> ''content-length'' \<and> (name, value) \<in> set captured"
  by (induction captured) (auto simp: Let_def split: prod.splits if_splits)

text \<open>The guard and the mark are two sections: a release that comes between them is not noticed, and the origin is sent
  to by both sides. The turn notices it afterwards.\<close>

definition send_escaped :: origin_world where
  "send_escaped = (next_section ^^ 3)
     (let w = (next_section ^^ 3) send_started in w \<lparr> ow_route := snd (observe 4 ''response'' (ow_route w)) \<rparr>)"

lemma posted_after_release:
  "origin_step\<^sup>*\<^sup>* (blank_origin first_generations) send_escaped"
  "ow_posts send_escaped = 1 \<and> hr_disposition (ow_route send_escaped) = RELEASED_TO_ORIGIN"
proof -
  let ?w = "(next_section ^^ 3) send_started"
  have w: "origin_step\<^sup>*\<^sup>* (blank_origin first_generations) ?w" "ow_calls ?w \<noteq> []"
    using send_started_reached next_sections_run [of send_started 3] by (auto simp: send_started_def)
  then have "origin_step\<^sup>*\<^sup>* (blank_origin first_generations) (?w \<lparr> ow_route := snd (observe 4 ''response'' (ow_route ?w)) \<rparr>)"
    using os_route [OF rs_observe, of ?w 4 "''response''"] by (simp add: rtranclp.rtrancl_into_rtrancl)
  moreover have "ow_calls (?w \<lparr> ow_route := snd (observe 4 ''response'' (ow_route ?w)) \<rparr>) \<noteq> []" using w by simp
  ultimately show "origin_step\<^sup>*\<^sup>* (blank_origin first_generations) send_escaped"
    using next_sections_run unfolding send_escaped_def Let_def by (meson rtranclp_trans)
  have third: "?w = send_world At_Mark reserved_row 1 0 (new_held_route first_generations) 0"
    by (simp add: started_world eval_nat_numeral sections new_route_guard)
  have "?w \<lparr> ow_route := snd (observe 4 ''response'' (ow_route ?w)) \<rparr>
      = send_world At_Mark reserved_row 1 0 (snd (observe 4 ''response'' (new_held_route first_generations))) 0"
    by (simp add: third) (simp add: send_world_def)
  moreover have "\<not> hr_python_invoked (snd (observe 4 ''response'' (new_held_route first_generations)))"
    by (simp add: observe_def set_terminal_def new_held_route_def)
  ultimately have escaped: "send_escaped = send_world Call_Over invoked_row 1 1
      (snd (observe 4 ''response'' (new_held_route first_generations)) \<lparr> hr_python_invoked := True \<rparr>) 1"
    by (simp add: send_escaped_def Let_def eval_nat_numeral sections)
  show "ow_posts send_escaped = 1 \<and> hr_disposition (ow_route send_escaped) = RELEASED_TO_ORIGIN"
    by (simp add: escaped send_world_def observe_def set_terminal_def new_held_route_def TERMINAL_ROUTE_DISPOSITIONS_def)
qed

end
