(* ===== verification/Stream_Relay.thy ===== *)
theory Stream_Relay
  imports Send_Intent_Promises "HOL-Library.Sublist"
begin

text \<open>
  The transient relay of the origin stream, \<open>chatgpt_web_runner/stream_relay.py\<close>: one attempt's one-subscriber queue of
  bounded size with the record it writes its binding to, and the registry of relays. A byte string is a string;
  the hash of a token and a fresh subscriber id are arguments. Each method is one section under the lock; the
  subscriber's loop is a start, the taking of an item, its delivery, and being given up.
\<close>

section \<open>One relay\<close>

datatype relay_status = R_Pending | R_Bound | R_Skipped | R_Truncated | R_Complete | R_Disconnected

text \<open>An item of the queue is a chunk, or \<open>None\<close> for the end marker.\<close>

record relay =
  rl_attempt_id :: string
  rl_token_hash :: string
  rl_expires_at :: time
  rl_intent_log :: "intent_log option"
  rl_queue_bytes :: int
  rl_queue :: "string option list"
  rl_queued_bytes :: int
  rl_binding :: "string option"
  rl_binding_consumed :: bool
  rl_closed :: bool
  rl_subscriber_closed :: bool
  rl_status :: relay_status

datatype relay_error = RelayAccess int | Relay_ValueError | Relay_Ledger intent_error | Relay_Unauthorized int

definition new_relay ::
  "string \<Rightarrow> string \<Rightarrow> time \<Rightarrow> intent_log option \<Rightarrow> int \<Rightarrow> relay_error + relay"
where
  "new_relay attempt token_hash expires log bytes =
     (if bytes \<le> 0 then Inl Relay_ValueError
      else Inr \<lparr> rl_attempt_id = attempt, rl_token_hash = token_hash, rl_expires_at = expires, rl_intent_log = log,
        rl_queue_bytes = bytes, rl_queue = [], rl_queued_bytes = 0, rl_binding = None, rl_binding_consumed = False,
        rl_closed = False, rl_subscriber_closed = False, rl_status = R_Pending \<rparr>)"

text \<open>The two methods that write the record: what the relay changed before stays when the record refuses or the write fails.\<close>

definition bind_relay ::
  "(string \<Rightarrow> string) \<Rightarrow> bool \<Rightarrow> time \<Rightarrow> time \<Rightarrow> string \<Rightarrow> string \<Rightarrow> relay \<Rightarrow> (relay_error + string) \<times> relay"
where
  "bind_relay hash ok now stamp token subscriber r =
     (if rl_closed r \<or> rl_expires_at r \<le> now then (Inl (RelayAccess 410), r)
      else if hash token \<noteq> rl_token_hash r then (Inl (RelayAccess 401), r)
      else if rl_binding_consumed r then (Inl (RelayAccess 409), r)
      else
        let r1 = r \<lparr> rl_binding := Some subscriber, rl_binding_consumed := True, rl_status := R_Bound \<rparr> in
        (case rl_intent_log r1 of
           None \<Rightarrow> (Inr subscriber, r1)
         | Some l \<Rightarrow>
             (case record_relay_bound ok now subscriber stamp l of
                (Inl e, l') \<Rightarrow> (Inl (Relay_Ledger e), r1 \<lparr> rl_intent_log := Some l' \<rparr>)
              | (Inr _, l') \<Rightarrow> (Inr subscriber, r1 \<lparr> rl_intent_log := Some l' \<rparr>))))"

definition mark_skipped :: "bool \<Rightarrow> time \<Rightarrow> time \<Rightarrow> relay \<Rightarrow> (relay_error + unit) \<times> relay" where
  "mark_skipped ok now stamp r =
     (if rl_binding_consumed r then (Inr (), r)
      else
        let r1 = r \<lparr> rl_closed := True, rl_status := R_Skipped \<rparr> in
        (case rl_intent_log r1 of
           None \<Rightarrow> (Inr (), r1 \<lparr> rl_queue := rl_queue r1 @ [None] \<rparr>)
         | Some l \<Rightarrow>
             (case record_relay_skipped ok now stamp l of
                (Inl e, l') \<Rightarrow> (Inl (Relay_Ledger e), r1 \<lparr> rl_intent_log := Some l' \<rparr>)
              | (Inr _, l') \<Rightarrow> (Inr (), r1 \<lparr> rl_intent_log := Some l', rl_queue := rl_queue r1 @ [None] \<rparr>))))"

definition publish_chunk :: "string \<Rightarrow> relay \<Rightarrow> bool \<times> relay" where
  "publish_chunk chunk r =
     (if chunk = [] then (True, r)
      else if rl_closed r then (False, r)
      else if rl_subscriber_closed r then (False, r)
      else if rl_queue_bytes r < rl_queued_bytes r + int (length chunk)
        then (False, r \<lparr> rl_subscriber_closed := True, rl_status := R_Truncated, rl_queue := rl_queue r @ [None] \<rparr>)
      else (True, r \<lparr> rl_queued_bytes := rl_queued_bytes r + int (length chunk), rl_queue := rl_queue r @ [Some chunk] \<rparr>))"

definition finish_relay :: "relay \<Rightarrow> relay" where
  "finish_relay r =
     (if rl_closed r then r
      else r \<lparr> rl_closed := True,
             rl_status := (if rl_status r \<notin> {R_Truncated, R_Disconnected} then R_Complete else rl_status r),
             rl_queue := rl_queue r @ [None] \<rparr>)"

definition disconnect_relay :: "relay \<Rightarrow> relay" where
  "disconnect_relay r =
     r \<lparr> rl_status := (if rl_status r \<noteq> R_Truncated then R_Disconnected else rl_status r), rl_subscriber_closed := True,
         rl_queue := rl_queue r @ [None] \<rparr>"

text \<open>The sections of \<open>bytes_for\<close>: the check, taking the next item, giving the bytes back to the budget, and the \<open>finally\<close>.\<close>

definition reader_admitted :: "string \<Rightarrow> relay \<Rightarrow> relay_error option" where
  "reader_admitted subscriber r = (if rl_binding r \<noteq> Some subscriber then Some (RelayAccess 401) else None)"

definition take_item :: "relay \<Rightarrow> (string option \<times> relay) option" where
  "take_item r = (case rl_queue r of [] \<Rightarrow> None | item # rest \<Rightarrow> Some (item, r \<lparr> rl_queue := rest \<rparr>))"

definition release_bytes :: "string \<Rightarrow> relay \<Rightarrow> relay" where
  "release_bytes chunk r = r \<lparr> rl_queued_bytes := rl_queued_bytes r - int (length chunk) \<rparr>"

definition reader_finally :: "bool \<Rightarrow> relay \<Rightarrow> relay" where
  "reader_finally completed r = (if \<not> completed \<and> \<not> rl_closed r then disconnect_relay r else r)"

section \<open>The registry\<close>

definition register_relay ::
  "string \<Rightarrow> string \<Rightarrow> time \<Rightarrow> intent_log option \<Rightarrow> int \<Rightarrow> (string \<rightharpoonup> relay) \<Rightarrow> (relay_error + relay) \<times> (string \<rightharpoonup> relay)"
where
  "register_relay attempt token_hash expires log bytes hub =
     (if hub attempt \<noteq> None then (Inl (RelayAccess 409), hub)
      else
        (case new_relay attempt token_hash expires log bytes of
           Inl e \<Rightarrow> (Inl e, hub)
         | Inr r \<Rightarrow> (Inr r, hub(attempt \<mapsto> r))))"

definition get_relay :: "string \<Rightarrow> (string \<rightharpoonup> relay) \<Rightarrow> relay_error + relay" where
  "get_relay attempt hub = (case hub attempt of None \<Rightarrow> Inl (RelayAccess 401) | Some r \<Rightarrow> Inr r)"

text \<open>The dependency of the public route; an error of the relay keeps its code, an error of the record is not caught.\<close>

definition require_relay_token ::
  "(string \<Rightarrow> string) \<Rightarrow> bool \<Rightarrow> time \<Rightarrow> time \<Rightarrow> string \<Rightarrow> string option \<Rightarrow> string \<Rightarrow> (string \<rightharpoonup> relay)
     \<Rightarrow> (relay_error + string) \<times> (string \<rightharpoonup> relay)"
where
  "require_relay_token hash ok now stamp attempt token subscriber hub =
     (if token = None \<or> token = Some [] then (Inl (Relay_Unauthorized 401), hub)
      else
        (case get_relay attempt hub of
           Inl (RelayAccess code) \<Rightarrow> (Inl (Relay_Unauthorized code), hub)
         | Inl e \<Rightarrow> (Inl e, hub)
         | Inr r \<Rightarrow>
             (case bind_relay hash ok now stamp (the token) subscriber r of
                (Inl (RelayAccess code), r') \<Rightarrow> (Inl (Relay_Unauthorized code), hub(attempt \<mapsto> r'))
              | (res, r') \<Rightarrow> (res, hub(attempt \<mapsto> r')))))"

section \<open>Runs\<close>

text \<open>The relay with its one reader: what was offered and accepted, what the reader holds and delivered, and whether an
  offer was refused before there was a subscriber.\<close>

record relay_world =
  rw_relay :: relay
  rw_offered :: "string list"
  rw_accepted :: "string list"
  rw_finished :: bool
  rw_started :: bool
  rw_reading :: bool
  rw_holding :: "string option"
  rw_delivered :: "string list"
  rw_ended :: bool
  rw_early :: bool

definition relay_world_of :: "relay \<Rightarrow> relay_world" where
  "relay_world_of r = \<lparr> rw_relay = r, rw_offered = [], rw_accepted = [], rw_finished = False, rw_started = False,
     rw_reading = False, rw_holding = None, rw_delivered = [], rw_ended = False, rw_early = False \<rparr>"

inductive relay_step :: "relay_world \<Rightarrow> relay_world \<Rightarrow> bool" where
  rst_bind: "relay_step w (w \<lparr> rw_relay := snd (bind_relay hash ok now stamp token subscriber (rw_relay w)) \<rparr>)"
| rst_skip: "relay_step w (w \<lparr> rw_relay := snd (mark_skipped ok now stamp (rw_relay w)) \<rparr>)"
| rst_publish: "\<not> rw_finished w \<Longrightarrow> publish_chunk chunk (rw_relay w) = (taken, r)
    \<Longrightarrow> relay_step w (w \<lparr> rw_relay := r, rw_offered := rw_offered w @ [chunk],
          rw_accepted := rw_accepted w @ (if taken then [chunk] else []),
          rw_early := rw_early w \<or> (\<not> taken \<and> \<not> rl_binding_consumed (rw_relay w)) \<rparr>)"
| rst_finish: "relay_step w (w \<lparr> rw_relay := finish_relay (rw_relay w), rw_finished := True \<rparr>)"
| rst_start: "reader_admitted subscriber (rw_relay w) = None \<Longrightarrow> \<not> rw_started w
    \<Longrightarrow> relay_step w (w \<lparr> rw_started := True, rw_reading := True \<rparr>)"
| rst_take: "rw_reading w \<Longrightarrow> rw_holding w = None \<Longrightarrow> take_item (rw_relay w) = Some (Some chunk, r)
    \<Longrightarrow> relay_step w (w \<lparr> rw_relay := r, rw_holding := Some chunk \<rparr>)"
| rst_end: "rw_reading w \<Longrightarrow> rw_holding w = None \<Longrightarrow> take_item (rw_relay w) = Some (None, r)
    \<Longrightarrow> relay_step w (w \<lparr> rw_relay := reader_finally True r, rw_reading := False, rw_ended := True \<rparr>)"
| rst_deliver: "rw_reading w \<Longrightarrow> rw_holding w = Some chunk
    \<Longrightarrow> relay_step w (w \<lparr> rw_relay := release_bytes chunk (rw_relay w), rw_holding := None,
          rw_delivered := rw_delivered w @ [chunk] \<rparr>)"
| rst_abandon: "rw_reading w
    \<Longrightarrow> relay_step w (w \<lparr> rw_relay := reader_finally False (rw_relay w), rw_reading := False \<rparr>)"

definition chunks_of :: "string option list \<Rightarrow> string list" where
  "chunks_of q = List.map_filter id q"

lemma chunks_simps [simp]:
  "chunks_of [] = []" "chunks_of (Some c # q) = c # chunks_of q" "chunks_of (None # q) = chunks_of q"
  "chunks_of (q @ p) = chunks_of q @ chunks_of p"
  by (simp_all add: chunks_of_def map_filter_def)

definition bytes_in :: "string list \<Rightarrow> int" where
  "bytes_in cs = int (length (concat cs))"

lemma bytes_simps [simp]: "bytes_in [] = 0" "bytes_in (c # cs) = int (length c) + bytes_in cs" "bytes_in (cs @ ds) = bytes_in cs + bytes_in ds"
  by (simp_all add: bytes_in_def)

definition holding_list :: "relay_world \<Rightarrow> string list" where
  "holding_list w = (case rw_holding w of None \<Rightarrow> [] | Some c \<Rightarrow> [c])"

text \<open>Chunks stand before the first end marker only; the empty chunk is accepted without being queued.\<close>

definition nonempty :: "string list \<Rightarrow> string list" where
  "nonempty cs = filter (\<lambda>c. c \<noteq> []) cs"

definition well_queued :: "string option list \<Rightarrow> bool" where
  "well_queued q \<longleftrightarrow> (\<exists>cs n. q = map Some cs @ replicate n None)"

lemma well_queued_Nil: "well_queued []"
  unfolding well_queued_def by (rule exI [of _ "[]"], rule exI [of _ 0]) simp

lemma well_queued_end: "well_queued q \<Longrightarrow> well_queued (q @ [None])"
  unfolding well_queued_def
proof (elim exE)
  fix cs n assume "q = map Some cs @ replicate n None"
  then have "q @ [None] = map Some cs @ replicate (Suc n) None" by (simp add: replicate_append_same)
  then show "\<exists>cs n. q @ [None] = map Some cs @ replicate n None" by blast
qed

lemma well_queued_chunk: "well_queued q \<Longrightarrow> None \<notin> set q \<Longrightarrow> well_queued (q @ [Some c])"
  unfolding well_queued_def
proof (elim exE)
  fix cs n assume "None \<notin> set q" "q = map Some cs @ replicate n None"
  then have "q @ [Some c] = map Some (cs @ [c]) @ replicate 0 None" by (cases n) auto
  then show "\<exists>cs n. q @ [Some c] = map Some cs @ replicate n None" by blast
qed

lemma well_queued_tail: "well_queued (x # q) \<Longrightarrow> well_queued q"
  unfolding well_queued_def
proof (elim exE)
  fix cs n assume "x # q = map Some cs @ replicate n None"
  then have "q = map Some (tl cs) @ replicate (if cs = [] then n - 1 else n) None"
    by (cases cs; cases n) auto
  then show "\<exists>cs n. q = map Some cs @ replicate n None" by blast
qed

lemma chunks_replicate [simp]: "chunks_of (replicate n None) = []"
  by (induction n) auto

lemma well_queued_ended: "well_queued (None # q) \<Longrightarrow> chunks_of q = []"
proof -
  assume "well_queued (None # q)"
  then obtain cs n where "None # q = map Some cs @ replicate n None" unfolding well_queued_def by blast
  then have "q = replicate (n - 1) None" by (cases cs; cases n) auto
  then show ?thesis by simp
qed

text \<open>What the queue holds and what was accepted; then what the flags say.\<close>

definition queue_inv :: "relay_world \<Rightarrow> bool" where
  "queue_inv w \<longleftrightarrow>
     (let r = rw_relay w; chunks = chunks_of (rl_queue r) in
       rl_queued_bytes r = bytes_in (holding_list w) + bytes_in chunks \<and> rl_queued_bytes r \<le> rl_queue_bytes r
       \<and> nonempty (rw_accepted w) = rw_delivered w @ holding_list w @ chunks
       \<and> well_queued (rl_queue r)
       \<and> (rw_ended w \<or> None \<in> set (rl_queue r) \<longrightarrow> rl_closed r \<or> rl_subscriber_closed r)
       \<and> (rw_ended w \<longrightarrow> chunks = [] \<and> rw_holding w = None \<and> \<not> rw_reading w)
       \<and> (rw_ended w \<or> rw_reading w \<longrightarrow> rw_started w))"

definition flag_inv :: "relay_world \<Rightarrow> bool" where
  "flag_inv w \<longleftrightarrow>
     (let r = rw_relay w in
       prefix (nonempty (rw_accepted w)) (nonempty (rw_offered w))
       \<and> (nonempty (rw_accepted w) \<noteq> nonempty (rw_offered w) \<longrightarrow> rl_closed r \<or> rl_subscriber_closed r)
       \<and> (rw_started w \<longrightarrow> rl_binding_consumed r)
       \<and> (rl_binding r \<noteq> None \<longrightarrow> rl_binding_consumed r)
       \<and> (\<not> rw_early w \<and> rl_subscriber_closed r \<longrightarrow> rl_binding_consumed r)
       \<and> (\<not> rw_early w \<and> rl_subscriber_closed r \<and> \<not> rl_closed r \<longrightarrow> rl_status r \<in> {R_Truncated, R_Disconnected})
       \<and> (\<not> rw_early w \<and> rl_status r = R_Complete \<longrightarrow> nonempty (rw_accepted w) = nonempty (rw_offered w))
       \<and> (rl_status r = R_Complete \<longrightarrow> rl_closed r \<and> rw_finished w))"

text \<open>The two methods that write the record touch the queue only to end it, and the flags only from an unbound relay.\<close>

lemma bind_cases:
  obtains (refused) "snd (bind_relay hash ok now stamp token subscriber r) = r"
    | (bound) log where "\<not> rl_closed r" "\<not> rl_binding_consumed r"
        "snd (bind_relay hash ok now stamp token subscriber r)
           = r \<lparr> rl_binding := Some subscriber, rl_binding_consumed := True, rl_status := R_Bound, rl_intent_log := log \<rparr>"
proof (cases "rl_closed r \<or> rl_expires_at r \<le> now \<or> hash token \<noteq> rl_token_hash r \<or> rl_binding_consumed r")
  case True
  then show ?thesis using refused by (auto simp: bind_relay_def)
next
  case False
  show ?thesis
  proof (cases "rl_intent_log r")
    case None
    then show ?thesis using False bound [of None] by (cases r) (auto simp: bind_relay_def Let_def)
  next
    case (Some l)
    obtain res l' where p: "record_relay_bound ok now subscriber stamp l = (res, l')" by fastforce
    show ?thesis
      using False Some p bound [of "Some l'"] by (cases res; cases r) (auto simp: bind_relay_def Let_def)
  qed
qed

lemma skip_cases:
  obtains (bound) "snd (mark_skipped ok now stamp r) = r"
    | (skipped) log ends where "\<not> rl_binding_consumed r" "ends = [] \<or> ends = [None]"
        "snd (mark_skipped ok now stamp r)
           = r \<lparr> rl_closed := True, rl_status := R_Skipped, rl_intent_log := log, rl_queue := rl_queue r @ ends \<rparr>"
proof (cases "rl_binding_consumed r")
  case True
  then show ?thesis using bound by (simp add: mark_skipped_def)
next
  case False
  show ?thesis
  proof (cases "rl_intent_log r")
    case None
    then show ?thesis using False skipped [of "[None]" None] by (cases r) (auto simp: mark_skipped_def Let_def)
  next
    case (Some l)
    obtain res l' where p: "record_relay_skipped ok now stamp l = (res, l')" by fastforce
    show ?thesis
      using False Some p skipped [of "[]" "Some l'"] skipped [of "[None]" "Some l'"]
      by (cases res; cases r) (auto simp: mark_skipped_def Let_def)
  qed
qed

lemmas relay_defs = take_item_def release_bytes_def reader_finally_def disconnect_relay_def finish_relay_def
  publish_chunk_def reader_admitted_def

lemma holding_simps [simp]:
  "rw_holding w = None \<Longrightarrow> holding_list w = []" "rw_holding w = Some c \<Longrightarrow> holding_list w = [c]"
  "holding_list (w \<lparr> rw_relay := r \<rparr>) = holding_list w"
  by (simp_all add: holding_list_def)

lemma nonempty_simps [simp]: "nonempty [] = []" "nonempty (cs @ ds) = nonempty cs @ nonempty ds"
  "nonempty (c # cs) = (if c = [] then nonempty cs else c # nonempty cs)"
  by (simp_all add: nonempty_def)

lemma queue_inv_relay:
  assumes "queue_inv w" "rl_queue r = rl_queue (rw_relay w) @ ends" "ends = [] \<or> ends = [None]"
    "rl_queued_bytes r = rl_queued_bytes (rw_relay w)" "rl_queue_bytes r = rl_queue_bytes (rw_relay w)"
    "rl_closed r \<or> rl_subscriber_closed r \<or> (ends = [] \<and> \<not> rl_closed (rw_relay w) \<and> \<not> rl_subscriber_closed (rw_relay w))"
  shows "queue_inv (w \<lparr> rw_relay := r \<rparr>)"
proof -
  from assms(1) have wq: "well_queued (rl_queue (rw_relay w))"
    and n: "rl_queued_bytes (rw_relay w) = bytes_in (holding_list w) + bytes_in (chunks_of (rl_queue (rw_relay w)))"
      "rl_queued_bytes (rw_relay w) \<le> rl_queue_bytes (rw_relay w)"
    and acc: "nonempty (rw_accepted w) = rw_delivered w @ holding_list w @ chunks_of (rl_queue (rw_relay w))"
    and ended: "rw_ended w \<or> None \<in> set (rl_queue (rw_relay w)) \<longrightarrow> rl_closed (rw_relay w) \<or> rl_subscriber_closed (rw_relay w)"
      "rw_ended w \<longrightarrow> chunks_of (rl_queue (rw_relay w)) = [] \<and> rw_holding w = None \<and> \<not> rw_reading w"
      "rw_ended w \<or> rw_reading w \<longrightarrow> rw_started w"
    unfolding queue_inv_def Let_def by blast+
  have q: "well_queued (rl_queue r)" using assms(2,3) wq well_queued_end by (elim disjE) simp_all
  have c: "chunks_of (rl_queue r) = chunks_of (rl_queue (rw_relay w))" using assms(2,3) by (elim disjE) simp_all
  have e: "rw_ended w \<or> None \<in> set (rl_queue r) \<longrightarrow> rl_closed r \<or> rl_subscriber_closed r"
    using assms(6) ended(1) unfolding assms(2) by auto
  show ?thesis
    unfolding queue_inv_def Let_def using n acc ended(2,3) q c e assms(4,5) by simp
qed

lemma queue_inv_bind:
  assumes inv: "queue_inv w"
  shows "queue_inv (w \<lparr> rw_relay := snd (bind_relay hash ok now stamp token subscriber (rw_relay w)) \<rparr>)"
proof (cases rule: bind_cases [of hash ok now stamp token subscriber "rw_relay w"])
  case refused
  then show ?thesis using inv by simp
next
  case (bound log)
  then show ?thesis using inv by (intro queue_inv_relay [where ends = "[]"]) auto
qed

lemma queue_inv_skip:
  assumes inv: "queue_inv w"
  shows "queue_inv (w \<lparr> rw_relay := snd (mark_skipped ok now stamp (rw_relay w)) \<rparr>)"
proof (cases rule: skip_cases [of ok now stamp "rw_relay w"])
  case bound
  then show ?thesis using inv by simp
next
  case (skipped log ends)
  then show ?thesis using inv by (intro queue_inv_relay [where ends = ends]) simp_all
qed

lemma publish_cases:
  assumes "publish_chunk chunk r = (taken, r')"
  obtains (empty) "chunk = []" "taken" "r' = r"
    | (closed) "chunk \<noteq> []" "rl_closed r \<or> rl_subscriber_closed r" "\<not> taken" "r' = r"
    | (over) "chunk \<noteq> []" "\<not> rl_closed r" "\<not> rl_subscriber_closed r" "\<not> taken"
        "r' = r \<lparr> rl_subscriber_closed := True, rl_status := R_Truncated, rl_queue := rl_queue r @ [None] \<rparr>"
    | (queued) "chunk \<noteq> []" "\<not> rl_closed r" "\<not> rl_subscriber_closed r" "taken"
        "rl_queued_bytes r + int (length chunk) \<le> rl_queue_bytes r"
        "r' = r \<lparr> rl_queued_bytes := rl_queued_bytes r + int (length chunk), rl_queue := rl_queue r @ [Some chunk] \<rparr>"
  using assms by (auto simp: publish_chunk_def split: if_splits)

lemma queue_inv_publish:
  assumes inv: "queue_inv w" and run: "publish_chunk chunk (rw_relay w) = (taken, r)"
  shows "queue_inv (w \<lparr> rw_relay := r, rw_offered := rw_offered w @ [chunk],
    rw_accepted := rw_accepted w @ (if taken then [chunk] else []), rw_early := e \<rparr>)"
  using run
proof (cases rule: publish_cases)
  case empty
  then show ?thesis using inv by (simp add: queue_inv_def Let_def holding_list_def)
next
  case closed
  then show ?thesis using inv by (simp add: queue_inv_def Let_def holding_list_def)
next
  case over
  then show ?thesis using inv by (simp add: queue_inv_def Let_def holding_list_def well_queued_end)
next
  case queued
  then have "\<not> rw_ended w" "None \<notin> set (rl_queue (rw_relay w))" using inv by (auto simp: queue_inv_def Let_def)
  then show ?thesis
    using queued inv by (simp add: queue_inv_def Let_def holding_list_def well_queued_chunk)
qed

lemma queue_inv_finish: "queue_inv w \<Longrightarrow> queue_inv (w \<lparr> rw_relay := finish_relay (rw_relay w), rw_finished := True \<rparr>)"
  by (auto simp: finish_relay_def queue_inv_def Let_def holding_list_def well_queued_end)

lemma queue_inv_take:
  assumes "queue_inv w" "rw_reading w" "rw_holding w = None" "take_item (rw_relay w) = Some (Some chunk, r)"
  shows "queue_inv (w \<lparr> rw_relay := r, rw_holding := Some chunk \<rparr>)"
  using assms
  by (auto simp: take_item_def queue_inv_def Let_def holding_list_def dest: well_queued_tail split: list.splits)

lemma queue_inv_end:
  assumes "queue_inv w" "rw_reading w" "rw_holding w = None" "take_item (rw_relay w) = Some (None, r)"
  shows "queue_inv (w \<lparr> rw_relay := reader_finally True r, rw_reading := False, rw_ended := True \<rparr>)"
  using assms
  by (auto simp: take_item_def reader_finally_def queue_inv_def Let_def holding_list_def dest: well_queued_tail well_queued_ended
      split: list.splits)

lemma queue_inv_deliver:
  assumes "queue_inv w" "rw_reading w" "rw_holding w = Some chunk"
  shows "queue_inv (w \<lparr> rw_relay := release_bytes chunk (rw_relay w), rw_holding := None, rw_delivered := rw_delivered w @ [chunk] \<rparr>)"
  using assms by (auto simp: release_bytes_def queue_inv_def Let_def holding_list_def)

lemma queue_inv_abandon:
  assumes "queue_inv w" "rw_reading w"
  shows "queue_inv (w \<lparr> rw_relay := reader_finally False (rw_relay w), rw_reading := False \<rparr>)"
  using assms by (auto simp: reader_finally_def disconnect_relay_def queue_inv_def Let_def holding_list_def well_queued_end)

lemma queue_inv_step: "relay_step w w' \<Longrightarrow> queue_inv w \<Longrightarrow> queue_inv w'"
proof (induction rule: relay_step.induct)
  case (rst_start subscriber w)
  then show ?case by (auto simp: queue_inv_def Let_def holding_list_def)
next
  case (rst_publish w chunk taken r)
  show ?case using rst_publish.prems rst_publish.hyps(2) by (rule queue_inv_publish)
qed (auto intro: queue_inv_bind queue_inv_skip queue_inv_finish queue_inv_take queue_inv_end
    queue_inv_deliver queue_inv_abandon)

lemma flag_inv_bind: "flag_inv w \<Longrightarrow> flag_inv (w \<lparr> rw_relay := snd (bind_relay hash ok now stamp token subscriber (rw_relay w)) \<rparr>)"
  by (cases rule: bind_cases [of hash ok now stamp token subscriber "rw_relay w"])
    (auto simp: flag_inv_def Let_def)

lemma flag_inv_skip: "flag_inv w \<Longrightarrow> flag_inv (w \<lparr> rw_relay := snd (mark_skipped ok now stamp (rw_relay w)) \<rparr>)"
  by (cases rule: skip_cases [of ok now stamp "rw_relay w"]) (auto simp: flag_inv_def Let_def)

lemma flag_inv_publish:
  assumes "flag_inv w" "\<not> rw_finished w" "publish_chunk chunk (rw_relay w) = (taken, r)"
  shows "flag_inv (w \<lparr> rw_relay := r, rw_offered := rw_offered w @ [chunk],
    rw_accepted := rw_accepted w @ (if taken then [chunk] else []),
    rw_early := rw_early w \<or> (\<not> taken \<and> \<not> rl_binding_consumed (rw_relay w)) \<rparr>)"
  using assms(3)
proof (cases rule: publish_cases)
  case empty
  then show ?thesis using assms(1) by (simp add: flag_inv_def Let_def)
next
  case closed
  then show ?thesis using assms(1,2) by (auto simp: flag_inv_def Let_def)
next
  case over
  then show ?thesis using assms(1,2) by (auto simp: flag_inv_def Let_def)
next
  case queued
  then show ?thesis using assms(1,2) by (auto simp: flag_inv_def Let_def)
qed

lemma flag_inv_finish:
  "flag_inv w \<Longrightarrow> flag_inv (w \<lparr> rw_relay := finish_relay (rw_relay w), rw_finished := True \<rparr>)"
  by (auto simp: flag_inv_def finish_relay_def Let_def)

lemma flag_inv_abandon:
  "flag_inv w \<Longrightarrow> queue_inv w \<Longrightarrow> rw_reading w
    \<Longrightarrow> flag_inv (w \<lparr> rw_relay := reader_finally False (rw_relay w), rw_reading := False \<rparr>)"
  by (auto simp: flag_inv_def queue_inv_def reader_finally_def disconnect_relay_def Let_def)

lemma take_item_Some:
  "take_item r = Some (item, r') \<Longrightarrow> \<exists>rest. rl_queue r = item # rest \<and> r' = r \<lparr> rl_queue := rest \<rparr>"
  by (cases "rl_queue r") (auto simp: take_item_def)

text \<open>The flags do not speak of the queue and of what the reader holds.\<close>

lemma flag_inv_reader:
  "flag_inv (w \<lparr> rw_relay := (rw_relay w) \<lparr> rl_queue := q \<rparr>, rw_holding := h \<rparr>) = flag_inv w"
  "flag_inv (w \<lparr> rw_relay := (rw_relay w) \<lparr> rl_queue := q \<rparr>, rw_reading := g, rw_ended := e \<rparr>) = flag_inv w"
  "flag_inv (w \<lparr> rw_relay := (rw_relay w) \<lparr> rl_queued_bytes := n \<rparr>, rw_holding := h, rw_delivered := d \<rparr>) = flag_inv w"
  by (simp_all add: flag_inv_def Let_def)

definition relay_inv :: "relay_world \<Rightarrow> bool" where
  "relay_inv w \<longleftrightarrow> queue_inv w \<and> flag_inv w"

lemma relay_inv_step:
  assumes "relay_step w w'" "relay_inv w"
  shows "relay_inv w'"
proof -
  have q: "queue_inv w'" using assms queue_inv_step by (auto simp: relay_inv_def)
  have "flag_inv w'" using assms
  proof (induction rule: relay_step.induct)
    case (rst_start subscriber w)
    then show ?case by (auto simp: relay_inv_def flag_inv_def reader_admitted_def Let_def split: if_splits)
  next
    case (rst_take w chunk r)
    then show ?case using take_item_Some [OF rst_take.hyps(3)] by (auto simp: relay_inv_def flag_inv_reader)
  next
    case (rst_end w r)
    then show ?case using take_item_Some [OF rst_end.hyps(3)] by (auto simp: relay_inv_def flag_inv_reader reader_finally_def)
  next
    case (rst_deliver w chunk)
    then show ?case by (simp add: relay_inv_def release_bytes_def flag_inv_reader)
  next
    case (rst_publish w chunk taken r)
    then show ?case by (intro flag_inv_publish) (auto simp: relay_inv_def)
  qed (auto simp: relay_inv_def intro: flag_inv_bind flag_inv_skip flag_inv_finish flag_inv_abandon)
  with q show ?thesis by (simp add: relay_inv_def)
qed

lemma relay_inv_new:
  assumes "new_relay attempt token_hash expires log bytes = Inr r"
  shows "relay_inv (relay_world_of r)"
  using assms
  by (auto simp: relay_inv_def queue_inv_def flag_inv_def relay_world_of_def new_relay_def holding_list_def well_queued_Nil
      Let_def split: if_splits)

interpretation relays: transition_system
  "\<lambda>w. \<exists>attempt token_hash expires log bytes r. new_relay attempt token_hash expires log bytes = Inr r \<and> w = relay_world_of r"
  relay_step relay_inv
  by unfold_locales (auto intro: relay_inv_new relay_inv_step)

lemma queue_bytes_step: "relay_step w w' \<Longrightarrow> rl_queue_bytes (rw_relay w') = rl_queue_bytes (rw_relay w)"
proof (induction rule: relay_step.induct)
  case (rst_bind w hash ok now stamp token subscriber)
  then show ?case by (cases rule: bind_cases [of hash ok now stamp token subscriber "rw_relay w"]) auto
next
  case (rst_skip w ok now stamp)
  then show ?case by (cases rule: skip_cases [of ok now stamp "rw_relay w"]) auto
qed (auto simp: relay_defs split: if_splits list.splits)

text \<open>(C40) What a subscriber gets is a prefix of the origin's stream, in order and without a gap, however offers, the
  binding, the close and the reader interleave; the bytes that wait never exceed the bound; and when it reached the
  end of a relay that says complete, it has the whole stream - provided no offer was refused before it was bound.\<close>

theorem relay_delivers_a_prefix:
  assumes new: "new_relay attempt token_hash expires log bytes = Inr r" and run: "relay_step\<^sup>*\<^sup>* (relay_world_of r) w"
  shows "prefix (concat (rw_delivered w)) (concat (rw_offered w))
    \<and> bytes_in (chunks_of (rl_queue (rw_relay w))) \<le> rl_queue_bytes (rw_relay w)
    \<and> (rw_ended w \<and> rl_status (rw_relay w) = R_Complete \<and> \<not> rw_early w \<longrightarrow> concat (rw_delivered w) = concat (rw_offered w))"
proof -
  have "relay_inv w" using run relay_inv_new [OF new] by (rule relays.inv_steps)
  then have q: "queue_inv w" and f: "flag_inv w" by (simp_all add: relay_inv_def)
  have flat: "concat (nonempty cs) = concat cs" for cs by (induction cs) auto
  have acc: "nonempty (rw_accepted w) = rw_delivered w @ holding_list w @ chunks_of (rl_queue (rw_relay w))"
    using q by (simp add: queue_inv_def Let_def)
  then have "prefix (rw_delivered w) (nonempty (rw_offered w))"
    using f prefix_order.trans [OF prefixI, of "nonempty (rw_accepted w)" "rw_delivered w"]
    by (simp add: flag_inv_def Let_def)
  then have 1: "prefix (concat (rw_delivered w)) (concat (rw_offered w))"
    unfolding flat [of "rw_offered w", symmetric] by (auto simp: prefix_def)
  have 0: "0 \<le> bytes_in (holding_list w)" by (simp add: bytes_in_def)
  then have 2: "bytes_in (chunks_of (rl_queue (rw_relay w))) \<le> rl_queue_bytes (rw_relay w)"
    using q by (simp add: queue_inv_def Let_def)
  have 3: "concat (rw_delivered w) = concat (rw_offered w)"
    if "rw_ended w" "rl_status (rw_relay w) = R_Complete" "\<not> rw_early w"
  proof -
    have "holding_list w = []" "chunks_of (rl_queue (rw_relay w)) = []" using q that by (auto simp: queue_inv_def Let_def)
    then have "rw_delivered w = nonempty (rw_offered w)" using acc f that by (simp add: flag_inv_def Let_def)
    then show ?thesis using flat by simp
  qed
  show ?thesis using 1 2 3 by blast
qed

section \<open>A run\<close>

text \<open>A relay for two bytes without a record: bound, offered one chunk, finished, read to its end.\<close>

definition small_relay :: relay where
  "small_relay = \<lparr> rl_attempt_id = ''a'', rl_token_hash = ''t'', rl_expires_at = 100, rl_intent_log = None, rl_queue_bytes = 2,
     rl_queue = [], rl_queued_bytes = 0, rl_binding = None, rl_binding_consumed = False, rl_closed = False,
     rl_subscriber_closed = False, rl_status = R_Pending \<rparr>"

lemma small_relay_new: "new_relay ''a'' ''t'' 100 None 2 = Inr small_relay"
  by (simp add: new_relay_def small_relay_def)

definition small_bound :: relay where
  "small_bound = small_relay \<lparr> rl_binding := Some ''s'', rl_binding_consumed := True, rl_status := R_Bound \<rparr>"

lemma small_bind: "snd (bind_relay id True 1 1 ''t'' ''s'' small_relay) = small_bound"
  by (simp add: bind_relay_def small_relay_def small_bound_def)

text \<open>The reader's world after it was bound and a chunk was offered, then after the rest.\<close>

definition small_offered :: relay_world where
  "small_offered = (relay_world_of small_relay) \<lparr> rw_relay := small_bound \<lparr> rl_queued_bytes := 2, rl_queue := [Some ''hi''] \<rparr>,
     rw_offered := [''hi''], rw_accepted := [''hi''] \<rparr>"

lemma small_offered_reached: "relay_step\<^sup>*\<^sup>* (relay_world_of small_relay) small_offered"
proof -
  let ?b = "(relay_world_of small_relay) \<lparr> rw_relay := small_bound \<rparr>"
  have 1: "relay_step (relay_world_of small_relay) ?b"
    using rst_bind [of "relay_world_of small_relay" id True 1 1 "''t''" "''s''"]
    by (simp add: relay_world_of_def small_bind)
  have 2: "relay_step ?b small_offered"
    using rst_publish [of ?b "''hi''" True "small_bound \<lparr> rl_queued_bytes := 2, rl_queue := [Some ''hi''] \<rparr>"]
    by (simp add: small_offered_def relay_world_of_def publish_chunk_def small_bound_def small_relay_def)
  from r_into_rtranclp [of relay_step, OF 1] 2 show ?thesis by (rule rtranclp.rtrancl_into_rtrancl)
qed

definition small_read :: relay_world where
  "small_read = (relay_world_of small_relay) \<lparr> rw_relay := small_bound \<lparr> rl_closed := True, rl_status := R_Complete \<rparr>,
     rw_offered := [''hi''], rw_accepted := [''hi''], rw_finished := True, rw_started := True, rw_delivered := [''hi''],
     rw_ended := True \<rparr>"

lemma small_read_reached: "relay_step\<^sup>*\<^sup>* (relay_world_of small_relay) small_read"
proof -
  define f where "f = small_offered \<lparr> rw_relay := finish_relay (rw_relay small_offered), rw_finished := True \<rparr>"
  define g where "g = f \<lparr> rw_started := True, rw_reading := True \<rparr>"
  define r where "r = small_bound \<lparr> rl_queued_bytes := 2, rl_queue := [None], rl_closed := True, rl_status := R_Complete \<rparr>"
  define h where "h = g \<lparr> rw_relay := r, rw_holding := Some ''hi'' \<rparr>"
  define k where "k = h \<lparr> rw_relay := release_bytes ''hi'' (rw_relay h), rw_holding := None, rw_delivered := rw_delivered h @ [''hi''] \<rparr>"
  define e where "e = k \<lparr> rw_relay := reader_finally True (rw_relay k \<lparr> rl_queue := [] \<rparr>), rw_reading := False, rw_ended := True \<rparr>"
  note shapes = f_def g_def r_def h_def k_def e_def small_offered_def small_read_def relay_world_of_def small_bound_def
    small_relay_def relay_defs
  have s: "relay_step small_offered f" unfolding f_def by (rule rst_finish)
  have t: "relay_step f g" unfolding g_def by (rule rst_start [of "''s''"]) (simp_all add: shapes)
  have u: "relay_step g h" unfolding h_def by (rule rst_take) (simp_all add: shapes)
  have v: "relay_step h k" unfolding k_def by (rule rst_deliver) (simp_all add: shapes)
  have x: "relay_step k e" unfolding e_def by (rule rst_end) (simp_all add: shapes)
  have y: "e = small_read" by (simp add: shapes)
  from small_offered_reached s t u v x show ?thesis
    unfolding y [symmetric] by (meson rtranclp.rtrancl_into_rtrancl)
qed

theorem relay_delivers_a_prefix_witness:
  "concat (rw_delivered small_read) = ''hi'' \<and> concat (rw_delivered small_read) = concat (rw_offered small_read)
    \<and> prefix (concat (rw_delivered small_read)) (concat (rw_offered small_read))"
  using relay_delivers_a_prefix [OF small_relay_new small_read_reached]
  by (simp add: small_read_def relay_world_of_def small_bound_def)

text \<open>A relay that overflowed before anyone was bound says so no longer after the binding: the subscriber reads to the end
  of a complete relay and never got the chunk.\<close>

lemma truncated_before_bind_says_complete:
  "rl_status (finish_relay (snd (bind_relay id True 1 1 ''t'' ''s'' (snd (publish_chunk ''abc'' small_relay))))) = R_Complete"
  "rl_status (snd (publish_chunk ''abc'' small_relay)) = R_Truncated"
  "chunks_of (rl_queue (finish_relay (snd (bind_relay id True 1 1 ''t'' ''s'' (snd (publish_chunk ''abc'' small_relay)))))) = []"
  by (simp_all add: publish_chunk_def bind_relay_def finish_relay_def small_relay_def)

end
