(* ===== verification/Spec2Isabelle.thy ===== *)
theory Spec2Isabelle
  imports Ulid_Ids Delivery_Promises Projector_Promises Gate_Edges Receiver_Promises Script_Promises Workflow_Run_Cases
    Origin_Send Stream_Relay
begin

text \<open>
  A verification development for the core of \<open>cli_agent_orchestrator\<close>: the delivery queue and its tick,
  the worker-truth event log and its projection, the review gate, the receiver-state kernel, workflow
  runs (the declarative engine, and the journal, replay gate and resume of script runs), and the custody of one
  send through the browser.

  \<^bold>\<open>The program.\<close> The orchestrator runs agent programs in terminals. Six subsystems carry its own logic.
  \<^emph>\<open>Delivery\<close>: messages for a worker or a supervisor seat are rows of a durable queue
  (\<open>adapters/store/queue.py\<close>); a scheduled tick (\<open>app/delivery/tick.py\<close>) reclaims expired leases, claims
  what is due per receiver, groups it into an epoch and asks the wake service (\<open>app/delivery/wake.py\<close>) to
  hand one digest line to the one carrier the receiver's role dictates. \<^emph>\<open>Worker truth\<close>: producers append
  observations to an event log (\<open>adapters/store/event_log.py\<close>); the projector
  (\<open>app/worker_truth/projector.py\<close>) folds each into a stored state per terminal
  (\<open>adapters/store/state.py\<close>), appends a decision that cites its cause, offers the move to a publisher
  (\<open>app/worker_truth/publisher.py\<close>) behind the ownership gate (\<open>app/worker_truth/health.py\<close>), and a sweep
  degrades terminals that fell silent. Both record deduplicated findings
  (\<open>adapters/store/findings.py\<close>) when a check (\<open>app/worker_truth/checks.py\<close>) or a bound fires. The
  \<^emph>\<open>gate\<close> (\<open>core/gate.py\<close>, \<open>adapters/store/gate.py\<close>, \<open>app/gate\<close>) runs review rounds: a run opens rounds,
  a round dispatches reviewers, freezes the reviewed manifest, adjudicates findings and is accepted under
  the content address of what was reviewed; a dispatch may ask its owner a question and waits for the
  answer. The \<^emph>\<open>receiver-state kernel\<close> (\<open>kernel/receiver_state\<close>) classifies a screen frame and publishes
  observations of a terminal to concurrent readers. \<^emph>\<open>Workflow runs\<close>: a declarative spec
  (\<open>models/workflow.py\<close>) is run by the engine (\<open>services/workflow_service.py\<close>), which orders its steps, fills
  their templates, calls an agent for each within two nested recovery loops, takes what the worker stored
  (\<open>services/step_output_store.py\<close>) and journals every run, step and event
  (\<open>services/workflow_journal.py\<close>); a script run calls the run-step route (\<open>api/main.py\<close>), whose
  replay gate (\<open>services/step_replay.py\<close>) decides for each call whether the step runs, is answered from the
  journal or needs a human, and a resume (\<open>services/script_runner.py\<close>) carries the human's decisions. The
  \<^emph>\<open>browser runner\<close> (\<open>chatgpt_web_runner\<close>) sends one prompt: a durable record (\<open>send_intent.py\<close>) is written before
  every action that can send, the browser's own request is held (\<open>in_page_transport.py\<close>), one POST is made instead of
  it (\<open>api_drive.py\<close>), and its stream is relayed to one subscriber (\<open>stream_relay.py\<close>).
  Paths are relative to \<open>src/src/cli_agent_orchestrator\<close>.

  \<^bold>\<open>The library.\<close>
  \<^item> \<open>CAO_Prelude\<close>: instants (integer microseconds), the Python exceptions as a datatype, the SQL fragment
    the stores use with the lemmas that turn a loop of keyed updates into one pass, \<open>str\<close> of an integer,
    actions that may raise with their sequencing, and the two generic contracts \<open>action_relation\<close> (a
    relation that survives sequencing) and \<open>transition_system\<close> (an invariant of every run).
  \<^item> \<open>Ulid_Ids\<close>: \<open>core/ids.py\<close>, the id factory with its clock and random source as arguments.
  \<^item> \<open>Delivery_Timing\<close>, \<open>Delivery_Domain\<close>: \<open>core/timing.py\<close> and \<open>core/delivery.py\<close>, the constants with their
    ordering checks, the value types, wake-reason classification, wake sender, digest line, deadline.
  \<^item> \<open>Queue_Store\<close>: every method of \<open>SqliteQueueStore\<close> over a record of its four tables, and the boot step of
    \<open>adapters/store/migrator.py\<close> that retires rows of the removed mode. \<open>Queue_Lifecycle\<close>: the invariant of
    the tables and what each method does to a row. \<open>Queue_Steps\<close>: the step relation of the store and its
    reachable states, an interpretation of \<open>transition_system\<close>. \<open>Queue_Promises\<close>: the locale
    \<open>lease_store\<close> (what a client of leases relies on), its interpretation on the store, the properties.
  \<^item> \<open>Finding_Store\<close>: \<open>core/findings.py\<close> and \<open>adapters/store/findings.py\<close>.
  \<^item> \<open>Delivery_Wake\<close>, \<open>Delivery_Tick\<close>: the wake service and the tick as actions on a world of stores; the
    receiver directory and the two carriers are arguments that may answer differently at every call or raise.
    \<open>Legacy_Adoption\<close>: the adopter the composition root wires into the tick (\<open>services/queue_carrier.py\<close>,
    \<open>adopt_orphaned_legacy_rows\<close> of \<open>clients/database.py\<close>, \<open>adopt_legacy_row\<close> of \<open>app/delivery/wiring.py\<close>), over
    the legacy inbox and the skip set, where every access to the database may be refused.
    \<open>Delivery_Promises\<close>: the locale \<open>quiet_relation\<close>, interpreted for being a run of
    the queue and for opening no claim, and the properties.
  \<^item> \<open>Worker_State_Machine\<close>: \<open>core/states.py\<close>, the event kinds of \<open>core/events.py\<close> and
    \<open>app/worker_truth/mapping.py\<close>. \<open>Event_Log\<close>: the rest of \<open>core/events.py\<close> and \<open>SqliteEventStore\<close>.
    \<open>State_Store\<close>: \<open>SqliteStateStore\<close>, the source registry and the ownership gate.
  \<^item> \<open>Worker_Checks\<close>: the checks and the record of everything the worker-truth component writes, wired as
    \<open>bootstrap.py\<close> wires it. \<open>Projector\<close>: the projector and publisher. \<open>Projector_Lifecycle\<close>: the locale
    \<open>note_relation\<close> (diagnostics leave the projection alone), the invariant, the abstract machine, one
    effect lemma per rule. \<open>Projector_Promises\<close>: the step relation, its interpretation of
    \<open>transition_system\<close>, and the properties.
  \<^item> \<open>Gate_Domain\<close>: \<open>core/gate.py\<close>, with the content address of a manifest. \<open>Gate_Store\<close>: every method of
    \<open>SqliteGateStore\<close> over a record of thirteen tables. \<open>Gate_Service\<close>: the commands of
    \<open>app/gate/service.py\<close> and \<open>app/gate/questions.py\<close>. \<open>Gate_Lifecycle\<close>, \<open>Gate_Steps\<close>: what each transaction
    does, the invariant of the tables, the step relation. \<open>Gate_Promises\<close>, \<open>Gate_Edges\<close>: the properties.
  \<^item> \<open>Receiver_Screen\<close>: \<open>kernel/receiver_state/classification.py\<close>. \<open>Receiver_Store\<close>: \<open>store.py\<close> beside it.
    \<open>Receiver_Promises\<close>: the step relation of the store and the properties.
  \<^item> \<open>Workflow_Journal\<close>: every read and write of the journal, the run and step vocabulary of
    \<open>models/workflow_runtime.py\<close>. \<open>Step_Replay\<close>: the replay gate. \<open>Script_Run\<close>: the run-step route section by
    section, the bookkeeping callbacks, the start, end, cancellation and resume of a run, as events of a
    history. \<open>Script_Promises\<close>: the locale \<open>journal_property\<close> (what the writes of a call and of a drive
    keep), its interpretations, the properties, and the histories in which the code falls short of them. \<open>Workflow_Events\<close>: emission, numbering and reading of
    events, an interpretation of \<open>transition_system\<close>.
  \<^item> \<open>Workflow_Spec\<close>: the grammar of \<open>models/workflow.py\<close>. \<open>Workflow_Order\<close>: \<open>_topological_order\<close>.
    \<open>Workflow_Values\<close>: \<open>_validate_inputs\<close> and \<open>services/step_output_store.py\<close>. \<open>Workflow_Engine\<close>: the run
    record, awaits and best-effort writes, templates, one step, the drive, start, cancel and resume of
    \<open>services/workflow_service.py\<close>, over a record of ports for everything outside.
    \<open>Workflow_Engine_Facts\<close>: the locales \<open>engine_relation\<close> and \<open>halting_relation\<close> (what everything a step does
    keeps) and \<open>bystander\<close> (what a step sees of a drive that does not run it), each interpreted on the model;
    the budget of a step. \<open>Workflow_Engine_Outcome\<close>: how steps and drives end.
    \<open>Workflow_Engine_Journal\<close>: the rows a step writes. \<open>Workflow_Runs\<close> (locale \<open>run_relation\<close>),
    \<open>Workflow_Resume\<close>: the properties. \<open>Workflow_Run_Cases\<close>: concrete runs, and what the properties leave open.
  \<^item> \<open>Send_Intent\<close>: every method of the send-intent record over a file whose writes may fail. \<open>Send_Intent_Promises\<close>:
    the runs of an attempt with ghost counters for the actions that follow a method, two interpretations of
    \<open>transition_system\<close>, the properties, and what the comments promise and the code does not keep.
    \<open>Route_Custody\<close>: the held route, section by section. \<open>Origin_Send\<close>: the sender over both, its calls interleaved
    with everything else; a run of it is a run of the record. \<open>Stream_Relay\<close>: the relay and its one reader.

  \<^bold>\<open>State and steps.\<close> A table is a list of records with the keys the schema declares; a statement that would
  break one raises \<open>IntegrityError\<close>. A transaction is one step: it commits or leaves the store as it was. A
  Python exception is a value, and what was written before it outside a transaction stays. The projector's
  two critical sections are separate actions, so every interleaving of folds, sweep steps, probes, polls and
  appends is a run; so is every interleaving of gate transactions and of calls on the receiver store. What
  an agent does in a script step is an outcome given with the call, and a call says which of its
  best-effort writes are carried out. A history of a script run is any sequence of events: a call passes the
  guard and the fence, the gate, gets its terminal, is answered; a drive ends, a run is cancelled, a resume
  arrives, applies its decisions, persists its generation, reopens the row, ends, each with the fate of its
  write; the server restarts. A call holds on to the live record it found, or to none. The declarative engine asks its ports with a running number: at every
  await they say whether a cancellation arrives or the write of the cancelling state lands, at every
  best-effort write whether it is carried out, at every agent call what the agent answers and stores; so all
  the interleavings of one event loop are covered. A clock is a function of how often it was read: two readings in one call may differ.

  \<^bold>\<open>What is shown.\<close> Of the queue: consistent tables in every reachable state; leases are exclusive and fenced;
  an uncertain submission is never offered again; no row outlives its lifetime by more than a lease;
  \<open>reclaim\<close> equals a row-by-row specification and accounts for attempts exactly; enqueue and settlement are
  idempotent; the two ways rows of the removed mode and a reparent can make a call raise. Of the tick: with the
  production adopter it is a run of the queue whatever its ports do (lemma \<open>tick_is_a_queue_run\<close>); the adopter
  retires exactly rows that the queue carries; one carrier by role, the one writer or the service as sender; no repeated line; one wake per lease; no
  finished epoch stays open; notices are one deep; retention keeps evidence. Of worker truth: sequence
  numbers are contiguous and never reused, appends are replay-safe, rows round-trip through their text
  columns, the writers of a row commute; the projection is consistent and every decision cites its cause;
  a fold refines the abstract machine; an anomalous move is reported; only the owner publishes; a sweep
  degrades exactly the silent terminals. Of ids: strictly increasing, with their timestamp recoverable. Of
  the gate: consistent tables under every interleaving; a settled question stays settled and is asked once;
  an acceptance binds the frozen manifest and the stored report; a claim fences the owner before it; the
  expiry sweep equals one pass; rounds are bounded when commands do not overlap, and where the code falls
  short (an overlapping ask, an empty finding, concurrent openings) the behaviour it has. Of the receiver
  kernel: the screen law equals a reference on four sets of rows, a frozen frame is never processing, a
  fresh read returns what was published under its own token. Of workflow runs: the gate replays exactly the
  usable results; one attempt per consent, with the starts that leave no row and the calls that overlap
  charged for, and shown to happen; consent ends with its resume unless the server crashes, the revocation
  fails, the resume is cancelled while it writes, or it was there before, and each exception is shown; revoking
  it restores the journal; an earlier drive is fenced; no event append collides and the reader declares exactly the missing
  numbers. Of the declarative engine: the grammar accepts exactly the grammatical specs; sequencing ends and
  yields an order exactly when there is one; accepted inputs are the given values or else the defaults, well typed; a started or resumed run that
  returns has settled, whenever it is cancelled; agents are called step after step within the budget; the
  journal mirrors the record when the start raised nothing; a resume runs no finished step; an engine error strands nothing in memory; and
  where the code falls short (the row of the step in flight, an overtaken cancellation, an unexpected
  exception, an unresolved reprompt) the behaviour it has.

  Of a send: the Enter of an attempt is pressed again only after it was demonstrated that nothing was sent, and
  at most twice; a restart may press only then; the origin is posted to at most once, with the reservation and the
  invocation on disk; a terminal row is final; a subscriber gets a prefix of the stream, and where the code falls
  short (a second mint after the POST, a row that moves back, a refused recovery) the behaviour it has.

  \<^bold>\<open>Bounds and fuel.\<close> The search for an order (\<open>visit\<close>) is the one definition with fuel: it gets one unit more than there are
  steps, and \<open>topological_order_terminates\<close> shows that this always suffices. \<open>run_attempts\<close> counts the attempts
  left, which is the \<open>range\<close> of the loop, not fuel. Every other loop is structural recursion or a recursive
  function with a measure. The timing constants are those of \<open>core/timing.py\<close> (\<open>T0\<close>), on which the deadline and silence
  properties depend. Integers are unbounded, as in Python; SQLite's 64-bit columns are not modelled.

  \<^bold>\<open>Not modelled.\<close> The asyncio tasks around the tick and the sweep; log lines; JSON text (a payload is the
  value it denotes) and timestamp text (an instant is an integer; ISO rendering is modelled where a finding
  quotes it); the rest of the migrator; the rendered texts of the gate (\<open>app/gate/render.py\<close>); the legacy
  dictionary form of probe evidence and the redacted texts of the receiver kernel; the redaction and
  bounding of stored outputs; the subprocess of a script run with its output and the sweep of its terminals; of the
  declarative engine the recovery of a stranded cancellation, the status snapshot, the start in the
  background and the agent runner (a port); the diagnosis report
  and the truth adapters; of the browser runner the driving of the page, the capture of a route, the draining of
  the response and the reading of the answer; and the rest of the legacy side: services, providers, HTTP and MCP endpoints,
  command line, terminal interface and \<open>clients/database.py\<close> (apart from the adoption), which are almost entirely input and output
  against terminals, processes and the network.
\<close>

end
